(* ===== verification/Prelude.thy ===== *)
theory Prelude
  imports Main "HOL-Library.Sublist" "HOL-Library.Word"
begin

text \<open>
  What the component theories share: C strings and byte buffers, the C library's string
  functions as far as the sources use them, decimal printing and reading, the outcome of an
  operation that may touch memory it does not own, and the collections of facts the proofs use.

  A C string is a \<open>string\<close> without the terminating NUL; a pointer that may be
  \<open>NULL\<close> is a \<open>string option\<close>. A buffer is a list of bytes that may hold NUL.
\<close>

named_theorems cstr_simps \<open>facts about C strings and buffers\<close>
named_theorems env_simps \<open>facts about the entries of a boot environment\<close>
named_theorems pv_defs \<open>definitions that are unfolded together\<close>

abbreviation NUL :: char where "NUL \<equiv> CHR 0x00"
abbreviation LF :: char where "LF \<equiv> CHR 0x0A"
abbreviation CR :: char where "CR \<equiv> CHR 0x0D"
abbreviation BACKSLASH :: char where "BACKSLASH \<equiv> CHR 0x5C"
abbreviation DQUOTE :: char where "DQUOTE \<equiv> CHR 0x22"
abbreviation xFF :: char where "xFF \<equiv> CHR 0xFF"

text \<open>A text in quotes.\<close>

definition quoted :: "string \<Rightarrow> string" where "quoted s = DQUOTE # s @ [DQUOTE]"

text \<open>The outcome of code that may read or write outside an object.\<close>

datatype 'a outcome = Done 'a | Fault

text \<open>Sequencing of steps that return a value and a state, may fault, or may not return.\<close>

definition then_do :: "('a \<times> 's) outcome option \<Rightarrow> ('a \<Rightarrow> 's \<Rightarrow> ('b \<times> 't) outcome option) \<Rightarrow> ('b \<times> 't) outcome option" where
  "then_do r f = (case r of None \<Rightarrow> None | Some Fault \<Rightarrow> Some Fault | Some (Done (a, s)) \<Rightarrow> f a s)"

definition give :: "'a \<Rightarrow> 's \<Rightarrow> ('a \<times> 's) outcome option" where
  "give a s = Some (Done (a, s))"

lemma then_do_simps [simp]:
  "then_do None f = None" "then_do (Some Fault) f = Some Fault" "then_do (Some (Done (a, s))) f = f a s"
  "then_do (give a s) f = f a s"
  by (simp_all add: then_do_def give_def)

lemma then_do_Some_Done:
  "then_do r f = Some (Done x) \<longleftrightarrow> (\<exists>a s. r = Some (Done (a, s)) \<and> f a s = Some (Done x))"
  by (auto simp: then_do_def split: option.splits outcome.splits)

text \<open>Sequencing of steps that may fault.\<close>

fun bind_o :: "'a outcome \<Rightarrow> ('a \<Rightarrow> 'b outcome) \<Rightarrow> 'b outcome" where
  "bind_o Fault f = Fault"
| "bind_o (Done x) f = f x"

lemma bind_o_def [code_unfold]: "bind_o r f = (case r of Fault \<Rightarrow> Fault | Done x \<Rightarrow> f x)"
  by (cases r) simp_all

fun_cases bind_o_cases: "bind_o r f = Done y"

lemma bind_o_Done: "bind_o r f = Done y \<Longrightarrow> (\<And>x. r = Done x \<Longrightarrow> f x = Done y \<Longrightarrow> thesis) \<Longrightarrow> thesis"
  by (elim bind_o_cases) simp

section \<open>C strings\<close>

definition no_nul :: "string \<Rightarrow> bool" where
  "no_nul s \<longleftrightarrow> NUL \<notin> set s"

text \<open>The C string that starts at the head of a buffer.\<close>

definition cstr :: "char list \<Rightarrow> string" where
  "cstr b = takeWhile (\<lambda>c. c \<noteq> NUL) b"

text \<open>\<open>!strncmp(a, b, n)\<close> on C strings, and \<open>!memcmp(b, k, strlen(k))\<close> on a buffer.\<close>

definition strneq :: "string \<Rightarrow> string \<Rightarrow> nat \<Rightarrow> bool" where
  "strneq a b n \<longleftrightarrow> take n a = take n b"

definition mem_starts :: "char list \<Rightarrow> string \<Rightarrow> bool" where
  "mem_starts b k \<longleftrightarrow> take (length k) b = k"

text \<open>\<open>strchr\<close>, \<open>strrchr\<close> and \<open>strstr\<close> as the index of the hit.\<close>

fun strchr :: "string \<Rightarrow> char \<Rightarrow> nat option" where
  "strchr [] c = None"
| "strchr (x # xs) c = (if x = c then Some 0 else map_option Suc (strchr xs c))"

fun strrchr :: "string \<Rightarrow> char \<Rightarrow> nat option" where
  "strrchr [] c = None"
| "strrchr (x # xs) c =
     (case strrchr xs c of Some i \<Rightarrow> Some (Suc i) | None \<Rightarrow> (if x = c then Some 0 else None))"

fun strstr :: "string \<Rightarrow> string \<Rightarrow> nat option" where
  "strstr [] k = (if k = [] then Some 0 else None)"
| "strstr (x # xs) k =
     (if take (length k) (x # xs) = k then Some 0 else map_option Suc (strstr xs k))"

lemma cstr_append [cstr_simps]:
  "no_nul s \<Longrightarrow> cstr (s @ NUL # r) = s"
  by (induction s) (auto simp: cstr_def no_nul_def)

lemma cstr_nil [simp]: "cstr [] = []" and cstr_nul [simp]: "cstr (NUL # r) = []"
  by (simp_all add: cstr_def)

lemma no_nul_simps [simp]:
  "no_nul []" "no_nul (c # s) \<longleftrightarrow> c \<noteq> NUL \<and> no_nul s"
  "no_nul (s @ t) \<longleftrightarrow> no_nul s \<and> no_nul t"
  by (auto simp: no_nul_def)

lemma no_nul_cstr [simp]: "no_nul (cstr b)"
  using set_takeWhileD by (fastforce simp: no_nul_def cstr_def)

lemma mem_starts_prefix: "mem_starts b k \<longleftrightarrow> prefix k b"
  by (auto simp: mem_starts_def prefix_def) (metis append_take_drop_id)

lemma strneq_full: "strneq a b (length a + 1) \<longleftrightarrow> a = b"
proof
  assume h: "strneq a b (length a + 1)"
  then have a: "a = take (length a + 1) b" by (simp add: strneq_def)
  then have "length a = min (length b) (length a + 1)" by (metis length_take)
  then have "length b \<le> length a + 1" by linarith
  with a show "a = b" by simp
qed (simp add: strneq_def)

lemma strneq_prefix: "strneq a k (length k) \<longleftrightarrow> prefix k a"
  using mem_starts_prefix [of a k] by (auto simp: strneq_def mem_starts_def)

lemma strchr_None [simp]: "strchr s c = None \<longleftrightarrow> c \<notin> set s"
  by (induction s) auto

lemma strchr_absent [simp]: "c \<notin> set s \<Longrightarrow> strchr s c = None"
  by simp

lemma strchr_Some: "strchr s c = Some i \<longleftrightarrow> i < length s \<and> s ! i = c \<and> c \<notin> set (take i s)"
proof (induction s arbitrary: i)
  case Nil
  then show ?case by simp
next
  case (Cons x s)
  then show ?case by (cases i) auto
qed

lemma strchr_append [simp]: "c \<notin> set s \<Longrightarrow> strchr (s @ c # r) c = Some (length s)"
  by (induction s) auto

lemma strrchr_None [simp]: "strrchr s c = None \<longleftrightarrow> c \<notin> set s"
  by (induction s) (auto split: option.splits)

lemma strstr_prefix: "strstr s k = Some i \<Longrightarrow> \<exists>r. s = take i s @ k @ r \<and> i + length k \<le> length s"
proof (induction s arbitrary: i)
  case Nil
  then show ?case by (simp split: if_splits)
next
  case (Cons x s)
  show ?case
  proof (cases "take (length k) (x # s) = k")
    case True
    with Cons.prems have "i = 0" by simp
    moreover have "x # s = k @ drop (length k) (x # s)"
      using True append_take_drop_id [of "length k" "x # s"] by metis
    ultimately show ?thesis
      by (metis add_0 append_Nil le_add1 length_append take0)
  next
    case False
    with Cons.prems obtain j where "strstr s k = Some j" "i = Suc j" by auto
    with Cons.IH show ?thesis by fastforce
  qed
qed

lemma prefix_before_nul [cstr_simps]:
  assumes "no_nul k" shows "prefix k (e @ NUL # r) \<longleftrightarrow> prefix k e"
proof -
  have "\<not> prefix (NUL # us) r" if "k = e @ us" "us = NUL # vs" for us vs
    using assms that by simp
  with assms show ?thesis
    by (auto simp: prefix_append prefix_Cons)
qed

lemma cstr_no_nul [simp]: "no_nul s \<Longrightarrow> cstr s = s"
  by (auto simp: cstr_def no_nul_def takeWhile_eq_all_conv)

text \<open>The pieces between the separators, and \<open>strtok\<close>'s tokens, which are never empty.\<close>

fun split_on :: "char \<Rightarrow> string \<Rightarrow> string list" where
  "split_on c [] = [[]]"
| "split_on c (x # xs) =
     (if x = c then [] # split_on c xs
      else case split_on c xs of [] \<Rightarrow> [[x]] | w # ws \<Rightarrow> (x # w) # ws)"

definition strtok :: "char \<Rightarrow> string \<Rightarrow> string list" where
  "strtok c s = filter (\<lambda>t. t \<noteq> []) (split_on c s)"

lemma split_on_ne [simp]: "split_on c s \<noteq> []"
  by (induction s) (auto split: list.splits)

lemma split_on_absent: "c \<notin> set a \<Longrightarrow> split_on c a = [a]"
  by (induction a) auto

section \<open>Decimal numbers\<close>

text \<open>\<open>sprintf("%d", n)\<close> for a number that is not negative.\<close>

definition digit :: "nat \<Rightarrow> char" where
  "digit d = char_of (48 + d)"

fun show_nat :: "nat \<Rightarrow> string" where
  "show_nat n = (if n < 10 then [digit n] else show_nat (n div 10) @ [digit (n mod 10)])"

declare show_nat.simps [simp del]

definition show_int :: "int \<Rightarrow> string" where
  "show_int i = (if i < 0 then CHR ''-'' # show_nat (nat (- i)) else show_nat (nat i))"

text \<open>\<open>atoi\<close> on a string: optional blanks and sign, then the longest run of digits.\<close>

definition is_digit :: "char \<Rightarrow> bool" where
  "is_digit c \<longleftrightarrow> 48 \<le> (of_char c :: nat) \<and> (of_char c :: nat) \<le> 57"

definition is_space :: "char \<Rightarrow> bool" where
  "is_space c \<longleftrightarrow> c = CHR '' '' \<or> (9 \<le> (of_char c :: nat) \<and> (of_char c :: nat) \<le> 13)"

definition digits_val :: "string \<Rightarrow> nat" where
  "digits_val s = foldl (\<lambda>a c. 10 * a + (of_char c - 48)) 0 (takeWhile is_digit s)"

definition atoi :: "string \<Rightarrow> int" where
  "atoi s = (case dropWhile is_space s of
       [] \<Rightarrow> 0
     | c # r \<Rightarrow> (if c = CHR ''-'' then - int (digits_val r)
                 else if c = CHR ''+'' then int (digits_val r)
                 else int (digits_val (c # r))))"

lemma of_char_digit: "d < 10 \<Longrightarrow> (of_char (digit d) :: nat) = 48 + d"
  by (simp add: digit_def)

lemma is_digit_digit [simp]: "d < 10 \<Longrightarrow> is_digit (digit d)"
  by (simp add: is_digit_def of_char_digit)

lemma show_nat_digits: "c \<in> set (show_nat n) \<Longrightarrow> is_digit c"
proof (induction n rule: show_nat.induct)
  case (1 n)
  then show ?case
    by (subst (asm) show_nat.simps) (auto split: if_splits)
qed

lemma is_digit_not_special: "is_digit c \<Longrightarrow>
    c \<noteq> NUL \<and> c \<noteq> LF \<and> c \<noteq> CHR ''='' \<and> c \<noteq> CHR ''-'' \<and> c \<noteq> CHR ''+'' \<and> \<not> is_space c"
  by (auto simp: is_digit_def is_space_def)

lemma show_nat_ne [simp]: "show_nat n \<noteq> []"
  by (subst show_nat.simps) simp

lemma no_nul_show_nat [simp]: "no_nul (show_nat n)"
  using show_nat_digits is_digit_not_special by (force simp: no_nul_def)

lemma takeWhile_show_nat: "takeWhile is_digit (show_nat n) = show_nat n"
  using show_nat_digits by (simp add: takeWhile_eq_all_conv)

lemma digits_val_show_nat: "digits_val (show_nat n) = n"
proof -
  have "foldl (\<lambda>a c. 10 * a + (of_char c - 48)) 0 (show_nat n) = n"
  proof (induction n rule: show_nat.induct)
    case (1 n)
    show ?case
    proof (cases "n < 10")
      case True
      then show ?thesis by (subst show_nat.simps) (simp add: of_char_digit)
    next
      case False
      with 1 show ?thesis by (subst show_nat.simps) (simp add: of_char_digit)
    qed
  qed
  then show ?thesis by (simp add: digits_val_def takeWhile_show_nat)
qed

lemma atoi_show_nat: "atoi (show_nat n) = int n"
proof (cases "show_nat n")
  case Nil
  then show ?thesis by simp
next
  case (Cons c r)
  then have "is_digit c" using show_nat_digits [of c n] by simp
  then have "\<not> is_space c" "c \<noteq> CHR ''-''" "c \<noteq> CHR ''+''"
    using is_digit_not_special by blast+
  with Cons show ?thesis
    using digits_val_show_nat [of n] by (simp add: atoi_def)
qed

section \<open>Lists\<close>

lemma filter_filter_neg: "filter P (filter (\<lambda>x. \<not> P x) xs) = []"
  by (induction xs) auto

lemma find_append: "find P (xs @ ys) = (case find P xs of None \<Rightarrow> find P ys | Some x \<Rightarrow> Some x)"
  by (induction xs) auto

lemma find_filter_neg: "find P (filter (\<lambda>x. \<not> P x) xs) = None"
  by (induction xs) auto

lemma find_filter_other:
  "(\<And>x. P x \<Longrightarrow> \<not> Q x) \<Longrightarrow> find P (filter (\<lambda>x. \<not> Q x) xs) = find P xs"
  by (induction xs) auto

lemma find_Some_in: "find P xs = Some x \<Longrightarrow> x \<in> set xs \<and> P x"
  by (induction xs) (auto split: if_splits)

lemma find_None_all: "find P xs = None \<longleftrightarrow> (\<forall>x\<in>set xs. \<not> P x)"
  by (induction xs) auto

end
