(* ===== verification/BootEnv.thy ===== *)
theory BootEnv
  imports Prelude
begin

text \<open>
  The boot environment that survives reboots: a list of entries \<open>key=value\<close>, and the
  interface \<open>struct bl_ops\<close> of \<open>bootloader.h\<close> through which \<open>bootloader.c\<close> reads and changes it.
  Both backends (\<open>uboot.c\<close>, \<open>grub.c\<close>) find an entry by comparing only the first
  \<open>strlen(key)\<close> bytes, so an entry belongs to every key that is a prefix of it; the
  abstract operations below say exactly that.
\<close>

section \<open>Abstract environment\<close>

type_synonym entries = "string list"

definition has_key :: "string \<Rightarrow> string \<Rightarrow> bool" where
  "has_key k e \<longleftrightarrow> prefix k e"

definition drop_key :: "string \<Rightarrow> entries \<Rightarrow> entries" where
  "drop_key k es = filter (\<lambda>e. \<not> has_key k e) es"

definition put_key :: "string \<Rightarrow> string \<Rightarrow> entries \<Rightarrow> entries" where
  "put_key k v es = drop_key k es @ [k @ ''='' @ v]"

definition lookup_key :: "string \<Rightarrow> entries \<Rightarrow> string option" where
  "lookup_key k es = map_option (drop (length k + 1)) (find (has_key k) es)"

text \<open>The bytes that the entries take, each with its terminator.\<close>

definition esize :: "entries \<Rightarrow> nat" where
  "esize es = (\<Sum>e\<leftarrow>es. length e + 1)"

lemma esize_simps [simp]:
  "esize [] = 0" "esize (e # es) = length e + 1 + esize es" "esize (es @ fs) = esize es + esize fs"
  by (simp_all add: esize_def)

lemma esize_filter_le: "esize (filter P es) \<le> esize es"
  by (induction es) auto

lemma esize_drop_key_le: "esize (drop_key k es) \<le> esize es"
  by (simp add: drop_key_def esize_filter_le)

lemma list_all_drop_key: "list_all P es \<Longrightarrow> list_all P (drop_key k es)"
  by (auto simp: drop_key_def list_all_iff)

text \<open>A key that callers use: not empty, no NUL, newline, \<open>=\<close>, and no blank flash at its head.\<close>

definition key_ok :: "string \<Rightarrow> bool" where
  "key_ok k \<longleftrightarrow> k \<noteq> [] \<and> no_nul k \<and> LF \<notin> set k \<and> CHR ''='' \<notin> set k \<and> hd k \<noteq> xFF \<and> hd k \<noteq> CHR ''#''"

definition value_ok :: "string \<Rightarrow> bool" where
  "value_ok v \<longleftrightarrow> no_nul v \<and> LF \<notin> set v"

lemma put_key_has_key: "has_key k (k @ CHR ''='' # v)"
  by (simp add: has_key_def prefix_def)

lemma lookup_put_same [env_simps]: "lookup_key k (put_key k v es) = Some v"
  by (simp add: lookup_key_def put_key_def drop_key_def find_append find_filter_neg put_key_has_key)

lemma lookup_drop_same [env_simps]: "lookup_key k (drop_key k es) = None"
  by (simp add: lookup_key_def drop_key_def find_filter_neg)

text \<open>Two keys are independent when no entry can belong to both.\<close>

definition indep :: "string \<Rightarrow> string \<Rightarrow> bool" where
  "indep k k' \<longleftrightarrow> \<not> prefix k k' \<and> \<not> prefix k' k"

lemma indep_no_common: "indep k k' \<Longrightarrow> has_key k e \<Longrightarrow> \<not> has_key k' e"
  by (auto simp: indep_def has_key_def dest: prefix_same_cases)

lemma lookup_drop_other [env_simps]:
  "indep k k' \<Longrightarrow> lookup_key k (drop_key k' es) = lookup_key k es"
  unfolding lookup_key_def drop_key_def
  by (subst find_filter_other) (use indep_no_common in blast)+

lemma not_has_key_put: "indep k k' \<Longrightarrow> \<not> has_key k (k' @ CHR ''='' # v)"
  using indep_no_common [of k k'] put_key_has_key [of k' v] by metis

lemma lookup_put_other [env_simps]:
  assumes "indep k k'" shows "lookup_key k (put_key k' v es) = lookup_key k es"
proof -
  have "find (has_key k) (put_key k' v es) = find (has_key k) (drop_key k' es)"
    using not_has_key_put [OF assms, of v]
    by (simp add: put_key_def find_append split: option.splits)
  then show ?thesis
    using lookup_drop_other [OF assms, of es] by (simp add: lookup_key_def)
qed

lemma drop_key_subset: "set (drop_key k es) \<subseteq> set es"
  by (auto simp: drop_key_def)

section \<open>The interface\<close>

text \<open>
  An operation of \<open>struct bl_ops\<close> may end with its result code and the changed store, may read
  or write outside an object (\<open>Fault\<close>), or may never return (\<open>None\<close>).
\<close>

type_synonym 's bl_result = "(int \<times> 's) outcome option"

locale boot_env =
  fixes get_env :: "string \<Rightarrow> 's \<Rightarrow> string option outcome"
    and set_env :: "string \<Rightarrow> string \<Rightarrow> 's \<Rightarrow> 's bl_result"
    and unset_env :: "string \<Rightarrow> 's \<Rightarrow> 's bl_result"
    and flush_env :: "'s \<Rightarrow> 's bl_result"
    and env_inv :: "'s \<Rightarrow> bool"
    and env_entries :: "'s \<Rightarrow> entries"
    and env_cap :: nat
  assumes get_law: "env_inv s \<Longrightarrow> key_ok k \<Longrightarrow> get_env k s = Done (lookup_key k (env_entries s))"
    and set_law: "env_inv s \<Longrightarrow> key_ok k \<Longrightarrow> value_ok v \<Longrightarrow> length k + length v + 2 \<le> 127 \<Longrightarrow>
      esize (put_key k v (env_entries s)) \<le> env_cap \<Longrightarrow>
      \<exists>s'. set_env k v s = Some (Done (0, s')) \<and> env_inv s' \<and> env_entries s' = put_key k v (env_entries s)"
    and unset_law: "env_inv s \<Longrightarrow> key_ok k \<Longrightarrow>
      \<exists>s'. unset_env k s = Some (Done (0, s')) \<and> env_inv s' \<and> env_entries s' = drop_key k (env_entries s)"
    and flush_law: "env_inv s \<Longrightarrow>
      \<exists>s'. flush_env s = Some (Done (0, s')) \<and> env_inv s' \<and>
           (env_entries s' = env_entries s \<or> env_entries s' = drop_key ''pv_trying'' (env_entries s))"
begin

lemma set_get_same:
  assumes "env_inv s" "key_ok k" "value_ok v" "length k + length v + 2 \<le> 127"
    "esize (put_key k v (env_entries s)) \<le> env_cap"
  shows "\<exists>s'. set_env k v s = Some (Done (0, s')) \<and> env_inv s' \<and> get_env k s' = Done (Some v)"
  using set_law [OF assms] get_law assms(2) by (fastforce simp: env_simps)

lemma set_get_other:
  assumes "env_inv s" "key_ok k" "value_ok v" "length k + length v + 2 \<le> 127"
    "esize (put_key k v (env_entries s)) \<le> env_cap" "key_ok k'" "indep k' k"
  shows "\<exists>s'. set_env k v s = Some (Done (0, s')) \<and> get_env k' s' = get_env k' s"
  using set_law [OF assms(1-5)] get_law assms by (fastforce simp: env_simps)

lemma unset_get_same:
  assumes "env_inv s" "key_ok k"
  shows "\<exists>s'. unset_env k s = Some (Done (0, s')) \<and> env_inv s' \<and> get_env k s' = Done None"
  using unset_law [OF assms] get_law assms(2) by (fastforce simp: env_simps)

lemma unset_get_other:
  assumes "env_inv s" "key_ok k" "key_ok k'" "indep k' k"
  shows "\<exists>s'. unset_env k s = Some (Done (0, s')) \<and> get_env k' s' = get_env k' s"
  using unset_law [OF assms(1-2)] get_law assms by (fastforce simp: env_simps)

end

end
