(* ===== verification/Uboot.thy ===== *)
theory Uboot
  imports BootEnv
begin

text \<open>
  \<open>uboot.c\<close>: the environment kept in \<open>uboot.txt\<close> or, with \<open>single_env\<close>, in the MTD partition.
  Entries are NUL-terminated strings at the head of a block of 65536 bytes. The loop of set and
  unset is modelled with its 16 bit counter, which wraps when a full block has no terminator.
\<close>

definition MTD_ENV_SIZE :: nat where "MTD_ENV_SIZE = 65536"

text \<open>
  \<open>ub_txt\<close> is the content of \<open>uboot.txt\<close> (\<open>None\<close>: no such file), \<open>ub_mtd\<close> the partition
  \<open>pv_env\<close> when one was found, and \<open>ub_rdonly\<close> says that opening for writing fails.
\<close>

record uboot =
  ub_txt :: "string option"
  ub_mtd :: "string option"
  single_env :: bool
  ub_rdonly :: bool

section \<open>Finding the partition in \<open>/proc/mtd\<close>\<close>

text \<open>
  The quoted names of the table, and the number that the entry of the matching name starts with.
  A name of more than 63 bytes overruns \<open>name[64]\<close>.
\<close>

definition sscanf_mtd :: "string \<Rightarrow> int" where
  "sscanf_mtd s =
     (if prefix ''mtd'' s \<and> drop 3 s \<noteq> [] \<and> is_digit (hd (drop 3 s)) then atoi (drop 3 s) else -1)"

function find_mtd :: "string \<Rightarrow> string \<Rightarrow> string option outcome" where
  "find_mtd name tab =
     (case strchr tab DQUOTE of None \<Rightarrow> Done None
      | Some i \<Rightarrow> (let ns = drop (Suc i) tab in
          case strchr ns DQUOTE of None \<Rightarrow> Done None
          | Some j \<Rightarrow>
              (if 63 < j then Fault
               else if take j ns = name
               then Done (Some (''/dev/mtd'' @ show_int (sscanf_mtd tab)))
               else find_mtd name (drop (j + 2) ns))))"
  by pat_completeness auto
termination
  by (relation "measure (\<lambda>(n, t). length t)") (auto simp: strchr_Some)

declare find_mtd.simps [simp del]

definition MTD_MATCH :: string where
  "MTD_MATCH = ''dev:    size   erasesize  name'' @ [LF]"

text \<open>\<open>uboot_init\<close>: its result and the device it found. What the kernel says about \<open>/proc/mtd\<close> is
  an argument. \<open>mtd_env_str\<close> has 32 bytes.\<close>

datatype proc_mtd = No_mtd | Open_fails | Read_fails | Table string

definition uboot_init :: "string option \<Rightarrow> proc_mtd \<Rightarrow> (int \<times> string option) outcome" where
  "uboot_init mtd_path pm =
     (let name = (case mtd_path of Some p \<Rightarrow> p | None \<Rightarrow> ''pv-env'') in
      if 31 < length name then Fault
      else case pm of No_mtd \<Rightarrow> Done (0, None) | Open_fails \<Rightarrow> Done (-1, None) | Read_fails \<Rightarrow> Done (-2, None)
       | Table t \<Rightarrow>
           (if \<not> mem_starts t MTD_MATCH then Done (-3, None)
            else case find_mtd name (take 4096 (drop (length MTD_MATCH + 1) t)) of
                   Fault \<Rightarrow> Fault | Done d \<Rightarrow> Done (0, d)))"

section \<open>Reading a key\<close>

text \<open>
  \<open>uboot_get_env_key\<close>: the loop over the bytes read, with \<open>k\<close> the start of the current string.
  The value is copied with \<open>strlen\<close>, which must find a NUL inside the buffer.
\<close>

definition copy_value :: "string \<Rightarrow> nat \<Rightarrow> string option outcome" where
  "copy_value buf p = (if NUL \<in> set (drop p buf) then Done (Some (cstr (drop p buf))) else Fault)"

fun uboot_get_loop :: "string \<Rightarrow> string \<Rightarrow> nat \<Rightarrow> nat \<Rightarrow> nat \<Rightarrow> string option outcome" where
  "uboot_get_loop key buf k i 0 = Done None"
| "uboot_get_loop key buf k i (Suc m) =
     (if buf ! i \<noteq> NUL then uboot_get_loop key buf k (Suc i) m
      else if strneq (cstr (drop k buf)) key (length key)
      then copy_value buf (k + length key + 1)
      else uboot_get_loop key buf (Suc i) (Suc i) m)"

definition ub_read :: "uboot \<Rightarrow> string option" where
  "ub_read u = (if single_env u then map_option (take MTD_ENV_SIZE) (ub_mtd u) else ub_txt u)"

definition uboot_get_env_key :: "string \<Rightarrow> uboot \<Rightarrow> string option outcome" where
  "uboot_get_env_key key u =
     (case ub_read u of None \<Rightarrow> Done None
      | Some buf \<Rightarrow> uboot_get_loop key buf 0 0 (length buf))"

section \<open>Setting and unsetting a key\<close>

text \<open>
  The loop shared by \<open>uboot_set_env_key\<close> and \<open>uboot_unset_env_key\<close>: \<open>old\<close> is the zeroed array of
  65536 bytes after the read, \<open>ret\<close> the number of bytes read, \<open>i\<close> the \<open>uint16_t\<close> counter and \<open>acc\<close>
  what was copied to \<open>new\<close> so far. \<open>old[i+1]\<close> and \<open>strlen\<close> may leave the array.
\<close>

partial_function (option) uboot_scan ::
  "string \<Rightarrow> string \<Rightarrow> nat \<Rightarrow> 16 word \<Rightarrow> string \<Rightarrow> string outcome option" where
  "uboot_scan key old ret i acc =
     (if ret \<le> unat i then Some (Done acc)
      else if length old \<le> unat i + 1 \<and> (old ! unat i = xFF \<or> old ! unat i = NUL) then Some Fault
      else if (old ! unat i = xFF \<and> old ! (unat i + 1) = xFF) \<or>
              (old ! unat i = NUL \<and> old ! (unat i + 1) = NUL) then Some (Done acc)
      else if old ! unat i = NUL then uboot_scan key old ret (i + 1) acc
      else if NUL \<notin> set (drop (unat i) old) then Some Fault
      else (let s = drop (unat i) old; len = length (cstr s);
                acc' = (if mem_starts s key then acc else acc @ take (len + 1) s)
            in if MTD_ENV_SIZE < length acc' then Some Fault
               else uboot_scan key old ret (i + of_nat len + 1) acc'))"

declare uboot_scan.simps [code]

definition pad :: "char \<Rightarrow> nat \<Rightarrow> string \<Rightarrow> string" where
  "pad c n s = s @ replicate (n - length s) c"

definition ub_write :: "string \<Rightarrow> uboot \<Rightarrow> uboot" where
  "ub_write b u = (if single_env u then u\<lparr>ub_mtd := Some b\<rparr> else u\<lparr>ub_txt := Some b\<rparr>)"

text \<open>The guards before the loop: no file, no write access, more bytes than \<open>old\<close> holds.\<close>

definition ub_rewrite :: "(string \<Rightarrow> string outcome) \<Rightarrow> string \<Rightarrow> uboot \<Rightarrow> uboot bl_result" where
  "ub_rewrite fin key u =
     (case ub_read u of None \<Rightarrow> Some (Done (-1, u))
      | Some b \<Rightarrow>
          (if ub_rdonly u then Some (Done (-1, u))
           else if MTD_ENV_SIZE < length b then Some Fault
           else (case uboot_scan key (pad NUL MTD_ENV_SIZE b) (length b) 0 [] of
                   None \<Rightarrow> None
                 | Some Fault \<Rightarrow> Some Fault
                 | Some (Done acc) \<Rightarrow>
                     (case fin acc of Fault \<Rightarrow> Some Fault
                      | Done new \<Rightarrow> Some (Done (0, ub_write (pad NUL MTD_ENV_SIZE new) u))))))"

definition uboot_unset_env_key :: "string \<Rightarrow> uboot \<Rightarrow> uboot bl_result" where
  "uboot_unset_env_key key u = ub_rewrite Done key u"

text \<open>The new entry is printed to \<open>v[128]\<close> and copied behind the others.\<close>

definition ub_append :: "string \<Rightarrow> string \<Rightarrow> string \<Rightarrow> string outcome" where
  "ub_append key value acc =
     (let v = key @ ''='' @ value in
      if 127 < length v \<or> MTD_ENV_SIZE < length acc + length v + 1 then Fault
      else Done (acc @ v @ [NUL]))"

definition uboot_set_env_key :: "string \<Rightarrow> string \<Rightarrow> uboot \<Rightarrow> uboot bl_result" where
  "uboot_set_env_key key value u = ub_rewrite (ub_append key value) key u"

text \<open>\<open>uboot_flush_env\<close>: the trying flag of a single environment, else erase the flash partition.\<close>

definition uboot_flush_env :: "uboot \<Rightarrow> uboot bl_result" where
  "uboot_flush_env u =
     (if single_env u
      then (case uboot_unset_env_key ''pv_trying'' u of
              None \<Rightarrow> None | Some Fault \<Rightarrow> Some Fault | Some (Done (r, u')) \<Rightarrow> Some (Done (0, u')))
      else case ub_mtd u of None \<Rightarrow> Some (Done (0, u))
       | Some m \<Rightarrow> (if ub_rdonly u then Some (Done (0, u))
                     else Some (Done (0, u\<lparr>ub_mtd := Some (replicate (length m) xFF)\<rparr>))))"

section \<open>The block as a list of entries\<close>

definition ub_bytes :: "entries \<Rightarrow> string" where
  "ub_bytes es = concat (map (\<lambda>e. e @ [NUL]) es)"

lemma ub_bytes_simps [simp]:
  "ub_bytes [] = []" "ub_bytes (e # es) = e @ NUL # ub_bytes es"
  "ub_bytes (es @ fs) = ub_bytes es @ ub_bytes fs"
  by (simp_all add: ub_bytes_def)

function ub_decode :: "string \<Rightarrow> entries" where
  "ub_decode b =
     (if b = [] \<or> hd b = NUL \<or> hd b = xFF then []
      else cstr b # ub_decode (drop (length (cstr b) + 1) b))"
  by pat_completeness auto
termination by (relation "measure length") auto

declare ub_decode.simps [simp del]

definition entry_ok :: "string \<Rightarrow> bool" where
  "entry_ok e \<longleftrightarrow> no_nul e \<and> CHR ''='' \<in> set e \<and> hd e \<noteq> xFF"

definition ub_tail :: "string \<Rightarrow> bool" where
  "ub_tail t \<longleftrightarrow> t = replicate (length t) NUL \<or> (t = replicate (length t) xFF \<and> length t \<noteq> 1)"

definition ub_block :: "string \<Rightarrow> bool" where
  "ub_block b \<longleftrightarrow>
     (let es = ub_decode b; n = length (ub_bytes es) in
      list_all entry_ok es \<and> take n b = ub_bytes es \<and> ub_tail (drop n b) \<and>
      length b \<le> MTD_ENV_SIZE \<and> n + 2 \<le> MTD_ENV_SIZE)"

definition ub_entries :: "uboot \<Rightarrow> entries" where
  "ub_entries u = (case ub_read u of None \<Rightarrow> [] | Some b \<Rightarrow> ub_decode b)"

definition ub_inv :: "uboot \<Rightarrow> bool" where
  "ub_inv u \<longleftrightarrow> \<not> ub_rdonly u \<and> (case ub_read u of None \<Rightarrow> False | Some b \<Rightarrow> ub_block b)"

lemma ub_bytes_len: "length (ub_bytes es) = esize es"
  by (induction es) auto

definition UB_CAP :: nat where "UB_CAP = MTD_ENV_SIZE - 2"

lemma entry_ok_ne: "entry_ok e \<Longrightarrow> e \<noteq> []"
  by (auto simp: entry_ok_def)

lemma entry_ok_hd: "entry_ok e \<Longrightarrow> hd e \<noteq> NUL \<and> hd e \<noteq> xFF"
  by (cases e) (auto simp: entry_ok_def)

lemma ub_decode_bytes:
  "list_all entry_ok es \<Longrightarrow> ub_tail t \<Longrightarrow> ub_decode (ub_bytes es @ t) = es"
proof (induction es)
  case Nil
  then have "t = [] \<or> hd t = NUL \<or> hd t = xFF" by (cases t) (auto simp: ub_tail_def)
  then show ?case by (subst ub_decode.simps) auto
next
  case (Cons e es)
  then have e: "no_nul e" "e \<noteq> []" "hd e \<noteq> NUL" "hd e \<noteq> xFF"
    using entry_ok_ne entry_ok_hd by (auto simp: entry_ok_def)
  then show ?case
    using Cons by (subst ub_decode.simps) (simp add: cstr_append hd_append)
qed

lemma ub_block_intro:
  assumes "list_all entry_ok es" "ub_tail t"
    and "length (ub_bytes es @ t) \<le> MTD_ENV_SIZE" "length (ub_bytes es) + 2 \<le> MTD_ENV_SIZE"
  shows "ub_block (ub_bytes es @ t)"
  using assms by (simp add: ub_block_def ub_decode_bytes)

lemma ub_blockE:
  assumes "ub_block b"
  obtains es t where "b = ub_bytes es @ t" "ub_decode b = es" "list_all entry_ok es" "ub_tail t"
    "length b \<le> MTD_ENV_SIZE" "length (ub_bytes es) + 2 \<le> MTD_ENV_SIZE"
proof -
  let ?es = "ub_decode b"
  let ?n = "length (ub_bytes ?es)"
  have "take ?n b = ub_bytes ?es" using assms by (simp add: ub_block_def Let_def)
  then have "b = ub_bytes ?es @ drop ?n b" by (metis append_take_drop_id)
  then show thesis
    using assms by (intro that) (auto simp: ub_block_def Let_def)
qed

lemma entry_after_key:
  assumes "key_ok k" "prefix k e" "CHR ''='' \<in> set e"
  shows "length k < length e"
  using assms by (cases "k = e") (auto simp: key_ok_def prefix_length_less strict_prefix_def)

section \<open>The scan computes the entries that do not belong to the key\<close>

lemma scan_entry:
  assumes e: "entry_ok e" and old: "old = pre @ e @ NUL # r" and i: "unat i = length pre"
    and ret: "length pre < ret" and k: "no_nul key" and len: "length acc + length e + 1 \<le> MTD_ENV_SIZE"
  shows "uboot_scan key old ret i acc =
    uboot_scan key old ret (i + of_nat (length e) + 1)
      (if prefix key e then acc else acc @ e @ [NUL])"
proof -
  have e': "no_nul e" "e \<noteq> []" "hd e \<noteq> NUL" "hd e \<noteq> xFF"
    using e entry_ok_ne entry_ok_hd by (auto simp: entry_ok_def)
  have nth: "old ! unat i = hd e"
    using e'(2) i old by (cases e) (auto simp: nth_append)
  have dr: "drop (length pre) old = e @ NUL # r" using old by simp
  have c: "cstr (e @ NUL # r) = e" using e' by (simp add: cstr_append)
  have m: "mem_starts (e @ NUL # r) key \<longleftrightarrow> prefix key e"
    using k by (simp add: mem_starts_prefix prefix_before_nul)
  show ?thesis
    by (subst uboot_scan.simps)
      (use i ret nth e' len in \<open>simp add: dr c m Let_def\<close>)
qed

lemma scan_entries:
  assumes "list_all entry_ok es" "old = pre @ ub_bytes es @ t" "unat i = length pre"
    "length old = MTD_ENV_SIZE" "length pre + length (ub_bytes es) + 2 \<le> MTD_ENV_SIZE"
    "length pre + length (ub_bytes es) \<le> ret" "no_nul key"
    "length acc + length (ub_bytes es) \<le> MTD_ENV_SIZE"
    "t ! 0 = t ! 1 \<and> (t ! 0 = NUL \<or> t ! 0 = xFF) \<and> 2 \<le> length t"
  shows "uboot_scan key old ret i acc = Some (Done (acc @ ub_bytes (drop_key key es)))"
  using assms
proof (induction es arbitrary: pre i acc)
  case Nil
  then have "old ! unat i = t ! 0" "old ! (unat i + 1) = t ! 1" "length pre + 2 \<le> length old"
    by (auto simp: nth_append)
  with Nil show ?case
    by (subst uboot_scan.simps) (auto simp: drop_key_def)
next
  case (Cons e es)
  let ?pre = "pre @ e @ [NUL]"
  let ?i = "i + of_nat (length e) + 1"
  let ?acc = "if prefix key e then acc else acc @ e @ [NUL]"
  have small: "length pre + length e + 1 < 65536"
    using Cons.prems(5) by (simp add: MTD_ENV_SIZE_def)
  have i': "unat ?i = length ?pre"
  proof -
    have "unat (of_nat (length e) :: 16 word) = length e"
      using small by (simp add: unat_of_nat)
    then have "unat (i + of_nat (length e)) = length pre + length e"
      using small Cons.prems(3) by (subst unat_add_lem [THEN iffD1]) auto
    then show ?thesis
      using small by (subst unat_add_lem [THEN iffD1]) auto
  qed
  have "uboot_scan key old ret i acc = uboot_scan key old ret ?i ?acc"
    using Cons.prems by (intro scan_entry [where pre = pre and r = "ub_bytes es @ t"]) auto
  also have "\<dots> = Some (Done (?acc @ ub_bytes (drop_key key es)))"
    using Cons.prems i' by (intro Cons.IH [where pre = ?pre]) auto
  finally show ?case by (simp add: drop_key_def has_key_def)
qed

lemma tail_head:
  assumes "ub_tail t" "2 \<le> length t + m"
  shows "(t @ replicate m NUL) ! 0 = (t @ replicate m NUL) ! 1 \<and>
    ((t @ replicate m NUL) ! 0 = NUL \<or> (t @ replicate m NUL) ! 0 = xFF)"
proof -
  consider "t = replicate (length t) NUL" | "t = replicate (length t) xFF" "2 \<le> length t" | "t = []"
    using assms(1) by (cases t; cases "tl t") (auto simp: ub_tail_def)
  then show ?thesis
  proof cases
    case 1
    then have "t @ replicate m NUL = replicate (length t + m) NUL"
      by (metis replicate_add)
    moreover have "0 < length t + m" "1 < length t + m" using assms(2) by auto
    ultimately show ?thesis by (simp only: nth_replicate simp_thms)
  next
    case 2
    then have "t ! 0 = xFF" "t ! 1 = xFF"
      by (metis nth_replicate less_le_trans zero_less_numeral, metis nth_replicate less_le_trans one_less_numeral_iff semiring_norm(76))
    moreover have "t \<noteq> []" "1 < length t" using 2(2) by auto
    ultimately show ?thesis by (simp add: nth_append)
  next
    case 3
    with assms(2) show ?thesis by simp
  qed
qed

lemma length_pad [simp]: "length s \<le> n \<Longrightarrow> length (pad c n s) = n"
  by (simp add: pad_def)

lemma scan_block:
  assumes "ub_block b" "no_nul key"
  shows "uboot_scan key (pad NUL MTD_ENV_SIZE b) (length b) 0 [] =
    Some (Done (ub_bytes (drop_key key (ub_decode b))))"
proof -
  obtain es t where b: "b = ub_bytes es @ t" "ub_decode b = es" "list_all entry_ok es" "ub_tail t"
    "length b \<le> MTD_ENV_SIZE" "length (ub_bytes es) + 2 \<le> MTD_ENV_SIZE"
    using assms(1) by (rule ub_blockE)
  let ?t = "t @ replicate (MTD_ENV_SIZE - length b) NUL"
  have p: "pad NUL MTD_ENV_SIZE b = [] @ ub_bytes es @ ?t"
    using b(1) by (simp add: pad_def)
  have t: "2 \<le> length t + (MTD_ENV_SIZE - length b)" using b by simp
  have "uboot_scan key (pad NUL MTD_ENV_SIZE b) (length b) 0 [] =
      Some (Done ([] @ ub_bytes (drop_key key es)))"
    by (rule scan_entries [where pre = "[]" and t = ?t])
      (use b p assms(2) tail_head [OF b(4) t] t in \<open>auto\<close>)
  with b(2) show ?thesis by simp
qed

lemma pad_block:
  assumes "list_all entry_ok es" "length (ub_bytes es) + 2 \<le> MTD_ENV_SIZE"
  shows "ub_block (pad NUL MTD_ENV_SIZE (ub_bytes es))"
    and "ub_decode (pad NUL MTD_ENV_SIZE (ub_bytes es)) = es"
proof -
  have t: "ub_tail (replicate n NUL)" for n by (simp add: ub_tail_def)
  show "ub_block (pad NUL MTD_ENV_SIZE (ub_bytes es))"
    unfolding pad_def by (rule ub_block_intro) (use assms t in simp_all)
  show "ub_decode (pad NUL MTD_ENV_SIZE (ub_bytes es)) = es"
    unfolding pad_def by (rule ub_decode_bytes) (use assms t in simp_all)
qed

lemma read_write: "ub_read u \<noteq> None \<Longrightarrow> length b \<le> MTD_ENV_SIZE \<Longrightarrow> ub_read (ub_write b u) = Some b"
  by (auto simp: ub_read_def ub_write_def)

lemma rewrite_entries:
  assumes inv: "ub_inv u" and k: "no_nul key"
    and fin: "fin (ub_bytes (drop_key key (ub_entries u))) = Done (ub_bytes es)"
    and es: "list_all entry_ok es" "length (ub_bytes es) + 2 \<le> MTD_ENV_SIZE"
  shows "\<exists>u'. ub_rewrite fin key u = Some (Done (0, u')) \<and> ub_inv u' \<and> ub_entries u' = es"
proof -
  obtain b where b: "ub_read u = Some b" "ub_block b" "\<not> ub_rdonly u"
    using inv by (auto simp: ub_inv_def split: option.splits)
  let ?u = "ub_write (pad NUL MTD_ENV_SIZE (ub_bytes es)) u"
  have len: "length b \<le> MTD_ENV_SIZE" using b(2) by (simp add: ub_block_def Let_def)
  have "ub_rewrite fin key u = Some (Done (0, ?u))"
    using b len fin scan_block [OF b(2) k] by (simp add: ub_rewrite_def ub_entries_def)
  moreover have r: "ub_read ?u = Some (pad NUL MTD_ENV_SIZE (ub_bytes es))"
    using b es by (intro read_write) auto
  moreover have "ub_rdonly ?u = ub_rdonly u" by (simp add: ub_write_def)
  ultimately show ?thesis
    using b pad_block [OF es] by (simp add: ub_inv_def ub_entries_def)
qed

lemma inv_entries_ok:
  "ub_inv u \<Longrightarrow> list_all entry_ok (ub_entries u) \<and> length (ub_bytes (ub_entries u)) + 2 \<le> MTD_ENV_SIZE"
  by (auto simp: ub_inv_def ub_entries_def ub_block_def Let_def split: option.splits)

lemma uboot_unset_entries:
  assumes "ub_inv u" "no_nul key"
  shows "\<exists>u'. uboot_unset_env_key key u = Some (Done (0, u')) \<and> ub_inv u' \<and>
    ub_entries u' = drop_key key (ub_entries u)"
  unfolding uboot_unset_env_key_def
  using inv_entries_ok [OF assms(1)] esize_drop_key_le [of key "ub_entries u"]
  by (intro rewrite_entries assms) (auto intro: list_all_drop_key simp: ub_bytes_len)

lemma uboot_set_entries:
  assumes "ub_inv u" "key_ok key" "value_ok value" "length key + length value + 2 \<le> 127"
    "esize (put_key key value (ub_entries u)) \<le> UB_CAP"
  shows "\<exists>u'. uboot_set_env_key key value u = Some (Done (0, u')) \<and> ub_inv u' \<and>
    ub_entries u' = put_key key value (ub_entries u)"
proof -
  have n: "entry_ok (key @ CHR ''='' # value)"
    using assms(2,3) by (cases key) (auto simp: entry_ok_def key_ok_def value_ok_def)
  have r: "length key + length value + 2 \<le> 127"
    "length (ub_bytes (put_key key value (ub_entries u))) + 2 \<le> MTD_ENV_SIZE"
    using assms(4,5) by (auto simp: ub_bytes_len UB_CAP_def MTD_ENV_SIZE_def)
  show ?thesis
    unfolding uboot_set_env_key_def
  proof (rule rewrite_entries [OF assms(1)])
    show "no_nul key" using assms(2) by (simp add: key_ok_def)
    show "ub_append key value (ub_bytes (drop_key key (ub_entries u))) =
        Done (ub_bytes (put_key key value (ub_entries u)))"
      using r by (simp add: ub_append_def put_key_def Let_def)
    show "list_all entry_ok (put_key key value (ub_entries u))"
      using n inv_entries_ok [OF assms(1)] by (simp add: put_key_def list_all_drop_key)
    show "length (ub_bytes (put_key key value (ub_entries u))) + 2 \<le> MTD_ENV_SIZE"
      using r by simp
  qed
qed

section \<open>The lookup finds the first entry of the key\<close>

lemma get_skip:
  "\<forall>j\<in>{i..<i + n}. buf ! j \<noteq> NUL \<Longrightarrow>
   uboot_get_loop key buf k i (n + m) = uboot_get_loop key buf k (i + n) m"
  by (induction n arbitrary: i) auto

lemma get_nul_tail:
  assumes "key \<noteq> []"
  shows "buf = pre @ replicate n NUL \<Longrightarrow>
    uboot_get_loop key buf (length pre) (length pre) n = Done None"
proof (induction n arbitrary: pre)
  case (Suc n)
  then have "buf ! length pre = NUL" "cstr (drop (length pre) buf) = []" by (simp_all add: nth_append)
  moreover have "\<not> strneq [] key (length key)" using assms by (simp add: strneq_prefix)
  ultimately show ?case
    using Suc.IH [of "pre @ [NUL]"] Suc.prems by simp
qed simp

lemma get_entries:
  assumes "key_ok key"
  shows "list_all entry_ok es \<Longrightarrow> ub_tail t \<Longrightarrow> buf = pre @ ub_bytes es @ t \<Longrightarrow>
    uboot_get_loop key buf (length pre) (length pre) (length (ub_bytes es @ t)) = Done (lookup_key key es)"
proof (induction es arbitrary: pre)
  case Nil
  then obtain n where "t = replicate n NUL \<or> t = replicate n xFF"
    unfolding ub_tail_def by metis
  then consider "t = replicate n NUL" | "t = replicate n xFF" by blast
  then show ?case
  proof cases
    case 1
    then show ?thesis
      using get_nul_tail [of key buf pre n] assms Nil(3) by (simp add: key_ok_def lookup_key_def)
  next
    case 2
    then have "\<forall>j\<in>{length pre..<length pre + n}. buf ! j \<noteq> NUL"
      using Nil(3) by (auto simp: nth_append)
    then show ?thesis
      using 2 get_skip [of "length pre" n buf key "length pre" 0] by (simp add: lookup_key_def)
  qed
next
  case (Cons e es)
  let ?r = "ub_bytes es @ t"
  have e: "no_nul e" "CHR ''='' \<in> set e" using Cons.prems by (auto simp: entry_ok_def)
  have buf: "buf = pre @ e @ NUL # ?r" using Cons.prems by simp
  have "\<forall>j\<in>{length pre..<length pre + length e}. buf ! j \<noteq> NUL"
    using e(1) buf by (auto simp: nth_append no_nul_def in_set_conv_nth)
  then have "uboot_get_loop key buf (length pre) (length pre) (length e + Suc (length ?r)) =
      uboot_get_loop key buf (length pre) (length pre + length e) (Suc (length ?r))"
    by (rule get_skip)
  moreover have "buf ! (length pre + length e) = NUL" using buf by (simp add: nth_append)
  moreover have "strneq (cstr (drop (length pre) buf)) key (length key) \<longleftrightarrow> has_key key e"
    using buf e(1) by (simp add: cstr_append strneq_prefix has_key_def)
  moreover have "copy_value buf (length pre + length key + 1) = Done (Some (drop (length key + 1) e))"
    if "has_key key e"
  proof -
    have "length key < length e"
      using that assms e(2) by (intro entry_after_key) (simp_all add: has_key_def)
    then have d: "drop (length pre + length key + 1) buf = drop (length key + 1) e @ NUL # ?r"
      using buf by simp
    have "no_nul (drop (length key + 1) e)" using e(1) by (auto simp: no_nul_def dest: in_set_dropD)
    with d show ?thesis by (simp add: copy_value_def cstr_append)
  qed
  moreover have "uboot_get_loop key buf (Suc (length pre + length e)) (Suc (length pre + length e)) (length ?r)
      = Done (lookup_key key es)"
    using Cons.IH [of "pre @ e @ [NUL]"] Cons.prems by simp
  ultimately show ?case by (auto simp: lookup_key_def has_key_def)
qed

lemma uboot_get_entries:
  assumes "ub_inv u" "key_ok key"
  shows "uboot_get_env_key key u = Done (lookup_key key (ub_entries u))"
proof -
  obtain b where b: "ub_read u = Some b" "ub_block b"
    using assms(1) by (auto simp: ub_inv_def split: option.splits)
  obtain es t where "b = ub_bytes es @ t" "ub_decode b = es" "list_all entry_ok es" "ub_tail t"
    using b(2) by (rule ub_blockE)
  with b(1) get_entries [OF assms(2), of es t b "[]"] show ?thesis
    by (simp add: uboot_get_env_key_def ub_entries_def)
qed

lemma uboot_flush_entries:
  assumes "ub_inv u"
  shows "\<exists>u'. uboot_flush_env u = Some (Done (0, u')) \<and> ub_inv u' \<and>
    (ub_entries u' = ub_entries u \<or> ub_entries u' = drop_key ''pv_trying'' (ub_entries u))"
proof (cases "single_env u")
  case True
  with uboot_unset_entries [OF assms, of "''pv_trying''"] show ?thesis
    by (auto simp: uboot_flush_env_def)
next
  case False
  define u' where "u' = (case ub_mtd u of None \<Rightarrow> u | Some m \<Rightarrow> u\<lparr>ub_mtd := Some (replicate (length m) xFF)\<rparr>)"
  have "uboot_flush_env u = Some (Done (0, u'))"
    using False assms by (simp add: uboot_flush_env_def ub_inv_def u'_def split: option.split)
  moreover have "ub_read u' = ub_read u" "ub_rdonly u' = ub_rdonly u"
    using False by (simp_all add: u'_def ub_read_def split: option.split)
  ultimately show ?thesis using assms by (auto simp: ub_inv_def ub_entries_def)
qed

interpretation uboot: boot_env uboot_get_env_key uboot_set_env_key uboot_unset_env_key
  uboot_flush_env ub_inv ub_entries UB_CAP
  by unfold_locales
    (auto intro: uboot_get_entries uboot_set_entries uboot_unset_entries uboot_flush_entries simp: key_ok_def)

text \<open>A fresh \<open>uboot.txt\<close> with the given entries and nothing behind them.\<close>

definition ub_fresh :: "entries \<Rightarrow> uboot" where
  "ub_fresh es = \<lparr>ub_txt = Some (ub_bytes es), ub_mtd = None, single_env = False, ub_rdonly = False\<rparr>"

lemma ub_fresh:
  assumes "list_all entry_ok es" "esize es \<le> UB_CAP"
  shows "ub_inv (ub_fresh es)" "ub_entries (ub_fresh es) = es"
  using ub_block_intro [OF assms(1), of "[]"] ub_decode_bytes [OF assms(1), of "[]"] assms(2)
  by (simp_all add: ub_inv_def ub_fresh_def ub_entries_def ub_read_def ub_tail_def ub_bytes_len
      UB_CAP_def MTD_ENV_SIZE_def)

section \<open>Properties\<close>

text \<open>\<open>uboot_set_env_key\<close> terminates with 0 on a well-formed environment, keeps it well-formed,
  the key then reads back as the value, and every key that shares no entry with it reads as
  before.\<close>
theorem uboot_set_get:
  assumes "ub_inv u" "key_ok k" "value_ok v" "length k + length v + 2 \<le> 127"
    and "esize (put_key k v (ub_entries u)) \<le> UB_CAP" "key_ok k'" "indep k' k"
  shows "\<exists>u'. uboot_set_env_key k v u = Some (Done (0, u')) \<and> ub_inv u' \<and>
    uboot_get_env_key k u' = Done (Some v) \<and> uboot_get_env_key k' u' = uboot_get_env_key k' u"
  using uboot.set_get_same [OF assms(1-5)] uboot.set_get_other [OF assms] by fastforce

theorem uboot_set_get_witness:
  "\<exists>u'. uboot_set_env_key ''pv_try'' ''5'' (ub_fresh [''pv_rev=4'']) = Some (Done (0, u')) \<and> ub_inv u' \<and>
    uboot_get_env_key ''pv_try'' u' = Done (Some ''5'') \<and>
    uboot_get_env_key ''pv_rev'' u' = uboot_get_env_key ''pv_rev'' (ub_fresh [''pv_rev=4''])"
  by (rule uboot_set_get)
    (simp_all add: ub_fresh entry_ok_def UB_CAP_def MTD_ENV_SIZE_def key_ok_def value_ok_def indep_def
      put_key_def drop_key_def)

end
