(* ===== verification/Grub.thy ===== *)
theory Grub
  imports BootEnv
begin

text \<open>
  \<open>grub.c\<close>: the environment in \<open>boot/grubenv\<close>, a block of 1024 bytes with the header line of 25
  bytes, one line per entry, and \<open>#\<close> up to its end. \<open>HDR_SIZE\<close> is the unparenthesised macro
  \<open>sizeof(GRUB_HDR)-1\<close>, so that \<open>sizeof(old)-HDR_SIZE\<close> is 1024 - 26 - 1.
\<close>

definition GRUB_HDR :: string where "GRUB_HDR = ''# GRUB Environment Block'' @ [LF]"
definition HDR_SIZE :: nat where "HDR_SIZE = 25"
definition GRUB_SIZE :: nat where "GRUB_SIZE = 1024"

text \<open>The value of \<open>sizeof(old)-HDR_SIZE\<close>, and what \<open>strlen(buf) - HDR_SIZE\<close> subtracts.\<close>

definition SCAN_END :: nat where "SCAN_END = 1024 - 26 - 1"
definition STRLEN_SUB :: nat where "STRLEN_SUB = 27"

lemma HDR_len [simp]: "length GRUB_HDR = 25" by (simp add: GRUB_HDR_def)

text \<open>
  \<open>gr_file\<close> is \<open>boot/grubenv\<close> (\<open>None\<close>: no file), \<open>gr_rdonly\<close> says that opening for writing fails,
  and \<open>gr_after\<close> are the bytes of memory behind the array \<open>buf[1024]\<close> of \<open>grub_get_env_key\<close>:
  its \<open>strlen(buf)\<close> runs into them, as the block has no NUL.
\<close>

record grub =
  gr_file :: "string option"
  gr_rdonly :: bool
  gr_after :: string

section \<open>Operations\<close>

text \<open>\<open>grub_init\<close>: a file without the header is reset to an empty block.\<close>

definition pad_grub :: "string \<Rightarrow> string" where
  "pad_grub s = s @ replicate (GRUB_SIZE - length s) (CHR ''#'')"

definition grub_write :: "string \<Rightarrow> grub \<Rightarrow> grub" where
  "grub_write b g = g\<lparr>gr_file := Some (b @ drop (length b) (case gr_file g of None \<Rightarrow> [] | Some f \<Rightarrow> f))\<rparr>"

definition grub_init :: "grub \<Rightarrow> int \<times> grub" where
  "grub_init g =
     (if gr_rdonly g then (-1, g)
      else let f = (case gr_file g of None \<Rightarrow> [] | Some f \<Rightarrow> f) in
        (0, if mem_starts f GRUB_HDR then g else grub_write (pad_grub GRUB_HDR) g))"

text \<open>\<open>read_grubenv\<close>: the block, when it is complete and has the header.\<close>

definition read_grubenv :: "bool \<Rightarrow> grub \<Rightarrow> string option" where
  "read_grubenv writable g =
     (case gr_file g of None \<Rightarrow> None
      | Some f \<Rightarrow> (if writable \<and> gr_rdonly g then None
                   else if length f < GRUB_SIZE then None
                   else if \<not> mem_starts f GRUB_HDR then None
                   else Some (take GRUB_SIZE f)))"

text \<open>
  \<open>grub_get_env_key\<close>: the loop over \<open>i\<close>, with \<open>next\<close> the start of the current line. A newline
  is overwritten with NUL before the line is compared.
\<close>

fun grub_get_loop :: "string \<Rightarrow> string \<Rightarrow> nat \<Rightarrow> nat \<Rightarrow> nat \<Rightarrow> string option outcome" where
  "grub_get_loop key buf next i 0 = Done None"
| "grub_get_loop key buf next i (Suc m) =
     (if buf ! i \<noteq> LF then grub_get_loop key buf next (Suc i) m
      else let buf' = buf[i := NUL] in
        if strneq (cstr (drop next buf')) key (length key)
        then (let p = drop (next + length key + 1) buf' in
              if NUL \<in> set p then Done (Some (cstr p)) else Fault)
        else grub_get_loop key buf' (Suc i) (Suc i) m)"

definition grub_get_env_key :: "string \<Rightarrow> grub \<Rightarrow> string option outcome" where
  "grub_get_env_key key g =
     (case read_grubenv False g of None \<Rightarrow> Done None
      | Some b \<Rightarrow>
         (let buf = b @ gr_after g; len = length (cstr buf) - STRLEN_SUB in
          if NUL \<notin> set buf \<or> 65535 < len then Fault
          else grub_get_loop key buf HDR_SIZE HDR_SIZE (len - HDR_SIZE)))"

text \<open>
  The loop shared by set and unset: \<open>i\<close> runs to \<open>SCAN_END\<close>, \<open>s\<close> is the start of the line, \<open>len\<close>
  its length so far and \<open>acc\<close> the lines copied to \<open>new\<close>.
\<close>

fun grub_scan :: "string \<Rightarrow> string \<Rightarrow> nat \<Rightarrow> nat \<Rightarrow> nat \<Rightarrow> string \<Rightarrow> nat \<Rightarrow> string" where
  "grub_scan key old s len i acc 0 = acc"
| "grub_scan key old s len i acc (Suc m) =
     (if old ! i \<noteq> LF then grub_scan key old s (Suc len) (Suc i) acc m
      else grub_scan key old (Suc i) 0 (Suc i)
             (if mem_starts (drop s old) key then acc else acc @ take (len + 1) (drop s old)) m)"

definition grub_kept :: "string \<Rightarrow> string \<Rightarrow> string" where
  "grub_kept key old = grub_scan key old HDR_SIZE 0 HDR_SIZE [] (SCAN_END - HDR_SIZE)"

definition grub_unset_env_key :: "string \<Rightarrow> grub \<Rightarrow> grub bl_result" where
  "grub_unset_env_key key g =
     (case read_grubenv True g of None \<Rightarrow> Some (Done (-1, g))
      | Some old \<Rightarrow> Some (Done (0, grub_write (pad_grub (GRUB_HDR @ grub_kept key old)) g)))"

text \<open>The new line is printed to \<open>v[128]\<close> and copied behind the others in \<open>new[1024]\<close>.\<close>

definition grub_set_env_key :: "string \<Rightarrow> string \<Rightarrow> grub \<Rightarrow> grub bl_result" where
  "grub_set_env_key key value g =
     (case read_grubenv True g of None \<Rightarrow> Some (Done (-1, g))
      | Some old \<Rightarrow>
         (let v = key @ ''='' @ value @ [LF]; new = GRUB_HDR @ grub_kept key old @ v in
          if 127 < length v \<or> GRUB_SIZE < length new then Some Fault
          else Some (Done (0, grub_write (pad_grub new) g))))"

definition grub_flush_env :: "grub \<Rightarrow> grub bl_result" where
  "grub_flush_env g = Some (Done (0, g))"

section \<open>The block as a list of entries\<close>

definition gr_bytes :: "entries \<Rightarrow> string" where
  "gr_bytes es = concat (map (\<lambda>e. e @ [LF]) es)"

lemma gr_bytes_simps [simp]:
  "gr_bytes [] = []" "gr_bytes (e # es) = e @ LF # gr_bytes es"
  "gr_bytes (es @ fs) = gr_bytes es @ gr_bytes fs"
  by (simp_all add: gr_bytes_def)

function gr_decode :: "string \<Rightarrow> entries" where
  "gr_decode b = (case strchr b LF of None \<Rightarrow> [] | Some i \<Rightarrow> take i b # gr_decode (drop (i + 1) b))"
  by pat_completeness auto
termination by (relation "measure length") (auto simp: strchr_Some)

declare gr_decode.simps [simp del]

definition line_ok :: "string \<Rightarrow> bool" where
  "line_ok e \<longleftrightarrow> no_nul e \<and> LF \<notin> set e \<and> CHR ''='' \<in> set e"

definition gr_block :: "string \<Rightarrow> bool" where
  "gr_block f \<longleftrightarrow>
     (let es = gr_decode (take (GRUB_SIZE - 25) (drop 25 f)) in
      list_all line_ok es \<and> 25 + length (gr_bytes es) \<le> SCAN_END \<and>
      take GRUB_SIZE f = pad_grub (GRUB_HDR @ gr_bytes es))"

definition gr_entries :: "grub \<Rightarrow> entries" where
  "gr_entries g = (case gr_file g of None \<Rightarrow> [] | Some f \<Rightarrow> gr_decode (take (GRUB_SIZE - 25) (drop 25 f)))"

definition gr_inv :: "grub \<Rightarrow> bool" where
  "gr_inv g \<longleftrightarrow> \<not> gr_rdonly g \<and> (case gr_file g of None \<Rightarrow> False | Some f \<Rightarrow> gr_block f) \<and>
     NUL \<in> set (gr_after g) \<and> LF \<notin> set (cstr (gr_after g)) \<and> length (cstr (gr_after g)) < 64000"

lemma gr_bytes_len: "length (gr_bytes es) = esize es"
  by (induction es) auto

definition GR_CAP :: nat where "GR_CAP = SCAN_END - 25"

lemma gr_decode_bytes:
  "list_all line_ok es \<Longrightarrow> LF \<notin> set t \<Longrightarrow> gr_decode (gr_bytes es @ t) = es"
proof (induction es)
  case Nil
  then show ?case by (subst gr_decode.simps) simp
next
  case (Cons e es)
  then have "strchr (e @ LF # gr_bytes es @ t) LF = Some (length e)" by (simp add: line_ok_def)
  with Cons show ?case by (subst gr_decode.simps) simp
qed

lemma pad_grub_len [simp]: "length s \<le> GRUB_SIZE \<Longrightarrow> length (pad_grub s) = GRUB_SIZE"
  by (simp add: pad_grub_def)

lemma SCAN_END_le: "SCAN_END = 997" "GRUB_SIZE = 1024" "HDR_SIZE = 25" "STRLEN_SUB = 27"
  by (simp_all add: SCAN_END_def GRUB_SIZE_def HDR_SIZE_def STRLEN_SUB_def)

lemma decode_pad:
  assumes "list_all line_ok es" "25 + length (gr_bytes es) \<le> SCAN_END"
  shows "gr_decode (drop 25 (pad_grub (GRUB_HDR @ gr_bytes es))) = es"
  using assms gr_decode_bytes [of es] by (simp add: pad_grub_def)

section \<open>The scan keeps the lines that do not belong to the key\<close>

lemma scan_skip:
  "\<forall>j\<in>{i..<i + n}. old ! j \<noteq> LF \<Longrightarrow>
   grub_scan key old s len i acc (n + m) = grub_scan key old s (len + n) (i + n) acc m"
  by (induction n arbitrary: i len) auto

lemma no_lf_nth:
  "old = pre @ e @ r \<Longrightarrow> c \<notin> set e \<Longrightarrow> \<forall>j\<in>{length pre..<length pre + length e}. old ! j \<noteq> c"
  by (auto simp: nth_append in_set_conv_nth)

lemma mem_starts_line:
  assumes "LF \<notin> set k" shows "mem_starts (e @ LF # r) k \<longleftrightarrow> prefix k e"
proof -
  have "\<not> prefix (LF # us) r" if "k = e @ LF # us" for us using assms that by simp
  with assms show ?thesis by (auto simp: mem_starts_prefix prefix_append prefix_Cons)
qed

lemma grub_scan_entries:
  assumes k: "LF \<notin> set key"
  shows "list_all line_ok es \<Longrightarrow> old = pre @ gr_bytes es @ t \<Longrightarrow> LF \<notin> set (take m t) \<Longrightarrow> m \<le> length t \<Longrightarrow>
    grub_scan key old (length pre) 0 (length pre) acc (length (gr_bytes es) + m) =
    acc @ gr_bytes (drop_key key es)"
proof (induction es arbitrary: pre acc)
  case Nil
  then have "\<forall>j\<in>{length pre..<length pre + m}. old ! j \<noteq> LF"
    using no_lf_nth [of old pre "take m t" "drop m t" LF] by simp
  from scan_skip [OF this, of key "length pre" 0 acc 0] show ?case by (simp add: drop_key_def)
next
  case (Cons e es)
  let ?r = "gr_bytes es @ t"
  have e: "LF \<notin> set e" using Cons.prems by (simp add: line_ok_def)
  have old: "old = pre @ e @ LF # ?r" using Cons.prems by simp
  have eq: "length (gr_bytes (e # es)) + m = length e + Suc (length (gr_bytes es) + m)" by simp
  have skip: "grub_scan key old (length pre) 0 (length pre) acc (length e + Suc (length (gr_bytes es) + m)) =
      grub_scan key old (length pre) (length e) (length pre + length e) acc (Suc (length (gr_bytes es) + m))"
    using scan_skip [OF no_lf_nth [OF old e], of key "length pre" 0 acc] by (simp only: add_0_left)
  have "old ! (length pre + length e) = LF" using old by (simp add: nth_append)
  moreover have "drop (length pre) old = e @ LF # ?r" using old by simp
  moreover have "grub_scan key old (Suc (length pre + length e)) 0 (Suc (length pre + length e)) a
       (length (gr_bytes es) + m) = a @ gr_bytes (drop_key key es)" for a
    using Cons.IH [of "pre @ e @ [LF]" a] Cons.prems by simp
  ultimately show ?case
    unfolding eq skip using k by (simp add: mem_starts_line drop_key_def has_key_def)
qed

lemma grub_kept_entries:
  assumes "list_all line_ok es" "25 + length (gr_bytes es) \<le> SCAN_END" "LF \<notin> set key"
  shows "grub_kept key (pad_grub (GRUB_HDR @ gr_bytes es)) = gr_bytes (drop_key key es)"
proof -
  let ?t = "replicate (GRUB_SIZE - (25 + length (gr_bytes es))) (CHR ''#'')"
  have "SCAN_END - HDR_SIZE = length (gr_bytes es) + (972 - length (gr_bytes es))"
    using assms(2) by (simp add: SCAN_END_le)
  moreover have "972 - length (gr_bytes es) \<le> length ?t" by (simp add: SCAN_END_le)
  ultimately show ?thesis
    using grub_scan_entries [OF assms(3) assms(1), of _ GRUB_HDR ?t _ "[]"]
    by (simp add: grub_kept_def pad_grub_def SCAN_END_le(3))
qed

lemma gr_readE:
  assumes "gr_inv g"
  obtains f es where "gr_file g = Some f" "\<And>w. read_grubenv w g = Some (pad_grub (GRUB_HDR @ gr_bytes es))"
    "gr_entries g = es" "list_all line_ok es" "25 + length (gr_bytes es) \<le> SCAN_END"
    "take GRUB_SIZE f = pad_grub (GRUB_HDR @ gr_bytes es)"
proof -
  obtain f where f: "gr_file g = Some f" "gr_block f" "\<not> gr_rdonly g"
    using assms by (auto simp: gr_inv_def split: option.splits)
  let ?es = "gr_entries g"
  have e: "list_all line_ok ?es" "25 + length (gr_bytes ?es) \<le> SCAN_END"
    "take GRUB_SIZE f = pad_grub (GRUB_HDR @ gr_bytes ?es)"
    using f by (auto simp: gr_block_def gr_entries_def Let_def)
  then have "length (take GRUB_SIZE f) = GRUB_SIZE" by (simp add: SCAN_END_le)
  then have "GRUB_SIZE \<le> length f" by simp
  moreover have "take 25 f = take 25 (take GRUB_SIZE f)" by (simp add: SCAN_END_le)
  then have "mem_starts f GRUB_HDR" by (simp add: e(3) mem_starts_def pad_grub_def)
  ultimately have "read_grubenv w g = Some (pad_grub (GRUB_HDR @ gr_bytes ?es))" for w
    using f e by (simp add: read_grubenv_def)
  with f(1) e show thesis by (intro that) auto
qed

lemma grub_write_entries:
  assumes "gr_inv g" "list_all line_ok es" "25 + length (gr_bytes es) \<le> SCAN_END"
  shows "gr_inv (grub_write (pad_grub (GRUB_HDR @ gr_bytes es)) g)"
    and "gr_entries (grub_write (pad_grub (GRUB_HDR @ gr_bytes es)) g) = es"
proof -
  let ?b = "pad_grub (GRUB_HDR @ gr_bytes es)"
  have len: "length ?b = 1024" using assms(3) by (simp add: SCAN_END_le)
  have "take (GRUB_SIZE - 25) (drop 25 (?b @ r)) = drop 25 ?b" for r
    using len by (simp add: SCAN_END_le)
  then show "gr_inv (grub_write ?b g)" "gr_entries (grub_write ?b g) = es"
    using assms len decode_pad [OF assms(2,3)]
    by (simp_all add: gr_inv_def gr_entries_def gr_block_def grub_write_def Let_def SCAN_END_le)
qed

lemma grub_unset_entries:
  assumes "gr_inv g" "key_ok key"
  shows "\<exists>g'. grub_unset_env_key key g = Some (Done (0, g')) \<and> gr_inv g' \<and>
    gr_entries g' = drop_key key (gr_entries g)"
proof -
  obtain f es where g: "\<And>w. read_grubenv w g = Some (pad_grub (GRUB_HDR @ gr_bytes es))"
    "gr_entries g = es" "list_all line_ok es" "25 + length (gr_bytes es) \<le> SCAN_END"
    using gr_readE [OF assms(1)] by metis
  have "grub_kept key (pad_grub (GRUB_HDR @ gr_bytes es)) = gr_bytes (drop_key key es)"
    using g assms(2) by (intro grub_kept_entries) (auto simp: key_ok_def)
  moreover have "25 + length (gr_bytes (drop_key key es)) \<le> SCAN_END"
    using g(4) esize_drop_key_le [of key es] by (simp add: gr_bytes_len)
  ultimately show ?thesis
    using grub_write_entries [OF assms(1) list_all_drop_key [OF g(3), of key]] g
    by (simp add: grub_unset_env_key_def)
qed

lemma grub_set_entries:
  assumes "gr_inv g" "key_ok key" "value_ok value" "length key + length value + 2 \<le> 127"
    "esize (put_key key value (gr_entries g)) \<le> GR_CAP"
  shows "\<exists>g'. grub_set_env_key key value g = Some (Done (0, g')) \<and> gr_inv g' \<and>
    gr_entries g' = put_key key value (gr_entries g)"
proof -
  obtain f es where g: "\<And>w. read_grubenv w g = Some (pad_grub (GRUB_HDR @ gr_bytes es))"
    "gr_entries g = es" "list_all line_ok es" "25 + length (gr_bytes es) \<le> SCAN_END"
    using gr_readE [OF assms(1)] by metis
  let ?es = "put_key key value es"
  have kept: "grub_kept key (pad_grub (GRUB_HDR @ gr_bytes es)) = gr_bytes (drop_key key es)"
    using g assms(2) by (intro grub_kept_entries) (auto simp: key_ok_def)
  have room: "length key + length value + 2 \<le> 127" "25 + length (gr_bytes ?es) \<le> SCAN_END"
    using assms(4,5) g(2) by (auto simp: gr_bytes_len GR_CAP_def SCAN_END_le)
  have ok: "list_all line_ok ?es"
    using assms(2,3) list_all_drop_key [OF g(3), of key]
    by (simp add: put_key_def line_ok_def key_ok_def value_ok_def)
  have "grub_set_env_key key value g = Some (Done (0, grub_write (pad_grub (GRUB_HDR @ gr_bytes ?es)) g))"
    using g(1) kept room by (simp add: grub_set_env_key_def put_key_def Let_def SCAN_END_le)
  with grub_write_entries [OF assms(1) ok room(2)] g(2) show ?thesis by simp
qed

section \<open>The lookup finds the first line of the key\<close>

lemma grub_get_skip:
  "\<forall>j\<in>{i..<i + n}. buf ! j \<noteq> LF \<Longrightarrow>
   grub_get_loop key buf next i (n + m) = grub_get_loop key buf next (i + n) m"
  by (induction n arbitrary: i) auto

lemma grub_get_loop_entries:
  assumes k: "key_ok key"
  shows "list_all line_ok es \<Longrightarrow> buf = pre @ gr_bytes es @ t \<Longrightarrow> LF \<notin> set (take m t) \<Longrightarrow> m \<le> length t \<Longrightarrow>
    grub_get_loop key buf (length pre) (length pre) (length (gr_bytes es) + m) = Done (lookup_key key es)"
proof (induction es arbitrary: pre buf)
  case Nil
  then have "\<forall>j\<in>{length pre..<length pre + m}. buf ! j \<noteq> LF"
    using no_lf_nth [of buf pre "take m t" "drop m t" LF] by simp
  from grub_get_skip [OF this, of key "length pre" 0] show ?case by (simp add: lookup_key_def)
next
  case (Cons e es)
  let ?r = "gr_bytes es @ t" and ?i = "length pre + length e"
  let ?b = "pre @ e @ NUL # ?r"
  have e: "no_nul e" "LF \<notin> set e" "CHR ''='' \<in> set e" using Cons.prems by (auto simp: line_ok_def)
  have buf: "buf = pre @ e @ LF # ?r" using Cons.prems by simp
  have eq: "length (gr_bytes (e # es)) + m = length e + Suc (length (gr_bytes es) + m)" by simp
  have skip: "grub_get_loop key buf (length pre) (length pre) (length e + Suc (length (gr_bytes es) + m)) =
      grub_get_loop key buf (length pre) ?i (Suc (length (gr_bytes es) + m))"
    by (rule grub_get_skip [OF no_lf_nth [OF buf e(2)]])
  have "buf ! ?i = LF" "buf[?i := NUL] = ?b"
    using buf by (simp_all add: nth_append list_update_append)
  moreover have "strneq (cstr (drop (length pre) ?b)) key (length key) \<longleftrightarrow> has_key key e"
    using e(1) by (simp add: cstr_append strneq_prefix has_key_def)
  moreover have "drop (length pre + length key + 1) ?b = drop (length key + 1) e @ NUL # ?r"
    "cstr (drop (length key + 1) e @ NUL # ?r) = drop (length key + 1) e" if "has_key key e"
  proof -
    have "length key < length e"
      using that k e(3) by (cases "key = e") (auto simp: has_key_def key_ok_def prefix_length_less strict_prefix_def)
    then show "drop (length pre + length key + 1) ?b = drop (length key + 1) e @ NUL # ?r" by simp
    show "cstr (drop (length key + 1) e @ NUL # ?r) = drop (length key + 1) e"
      using e(1) by (intro cstr_append) (auto simp: no_nul_def dest: in_set_dropD)
  qed
  moreover have "grub_get_loop key ?b (Suc ?i) (Suc ?i) (length (gr_bytes es) + m) = Done (lookup_key key es)"
    using Cons.IH [of ?b "pre @ e @ [NUL]"] Cons.prems by simp
  ultimately show ?case
    unfolding eq skip by (cases "has_key key e") (simp_all add: lookup_key_def Let_def)
qed

lemma grub_get_entries:
  assumes "gr_inv g" "key_ok key"
  shows "grub_get_env_key key g = Done (lookup_key key (gr_entries g))"
proof -
  obtain f es where g: "\<And>w. read_grubenv w g = Some (pad_grub (GRUB_HDR @ gr_bytes es))"
    "gr_entries g = es" "list_all line_ok es" "25 + length (gr_bytes es) \<le> SCAN_END"
    using gr_readE [OF assms(1)] by metis
  let ?n = "GRUB_SIZE - (25 + length (gr_bytes es))"
  let ?t = "replicate ?n (CHR ''#'') @ gr_after g"
  let ?buf = "pad_grub (GRUB_HDR @ gr_bytes es) @ gr_after g"
  have after: "NUL \<in> set (gr_after g)" "LF \<notin> set (cstr (gr_after g))" "length (cstr (gr_after g)) < 64000"
    using assms(1) by (auto simp: gr_inv_def)
  have nn: "no_nul (pad_grub (GRUB_HDR @ gr_bytes es))"
  proof -
    have "no_nul (gr_bytes es)" using g(3) by (induction es) (auto simp: line_ok_def)
    then show ?thesis by (auto simp: pad_grub_def GRUB_HDR_def no_nul_def)
  qed
  then have c: "cstr ?buf = pad_grub (GRUB_HDR @ gr_bytes es) @ cstr (gr_after g)"
    unfolding cstr_def no_nul_def by (subst takeWhile_append2) auto
  define m where "m = ?n + length (cstr (gr_after g)) - 27"
  have "length (cstr ?buf) - STRLEN_SUB - HDR_SIZE = length (gr_bytes es) + m"
    using c g(4) by (simp add: m_def SCAN_END_le)
  moreover have "LF \<notin> set (take m ?t)"
  proof -
    obtain r where r: "gr_after g = cstr (gr_after g) @ r"
      unfolding cstr_def by (metis takeWhile_dropWhile_id)
    have "m \<le> ?n + length (cstr (gr_after g))" by (simp add: m_def)
    then have "take m ?t = take m (replicate ?n (CHR ''#'') @ cstr (gr_after g))"
      by (subst r) (simp add: append_assoc [symmetric] del: append_assoc)
    then show ?thesis using after by (auto dest: in_set_takeD)
  qed
  moreover have "length (cstr (gr_after g)) \<le> length (gr_after g)"
    unfolding cstr_def by (rule length_takeWhile_le)
  then have "m \<le> length ?t" by (simp add: m_def)
  moreover have "?buf = GRUB_HDR @ gr_bytes es @ ?t" by (simp add: pad_grub_def)
  ultimately have "grub_get_loop key ?buf 25 25 (length (cstr ?buf) - STRLEN_SUB - HDR_SIZE) =
      Done (lookup_key key es)"
    using grub_get_loop_entries [OF assms(2) g(3), of ?buf GRUB_HDR ?t m] by (simp only: HDR_len simp_thms)
  moreover have "length (cstr ?buf) - STRLEN_SUB \<le> 65535"
    using c g(4) after(3) by (simp add: SCAN_END_le)
  ultimately show ?thesis
    using g(1,2) after(1) by (simp add: grub_get_env_key_def SCAN_END_le(3) Let_def)
qed

interpretation grub: boot_env grub_get_env_key grub_set_env_key grub_unset_env_key
  grub_flush_env gr_inv gr_entries GR_CAP
  by unfold_locales
    (auto intro: grub_get_entries grub_set_entries grub_unset_entries simp: grub_flush_env_def)

text \<open>A block with the given entries, and a NUL right behind the array that reads it.\<close>

definition gr_fresh :: "entries \<Rightarrow> grub" where
  "gr_fresh es = \<lparr>gr_file = Some (pad_grub (GRUB_HDR @ gr_bytes es)), gr_rdonly = False, gr_after = [NUL]\<rparr>"

lemma gr_fresh:
  assumes "list_all line_ok es" "esize es \<le> GR_CAP"
  shows "gr_inv (gr_fresh es)" "gr_entries (gr_fresh es) = es"
proof -
  have e: "25 + length (gr_bytes es) \<le> SCAN_END"
    using assms(2) by (simp add: gr_bytes_len GR_CAP_def SCAN_END_le)
  then have "take (GRUB_SIZE - 25) (drop 25 (pad_grub (GRUB_HDR @ gr_bytes es))) =
      drop 25 (pad_grub (GRUB_HDR @ gr_bytes es))"
    by (simp add: SCAN_END_le)
  then show "gr_inv (gr_fresh es)" "gr_entries (gr_fresh es) = es"
    using e decode_pad [OF assms(1) e] assms(1)
    by (simp_all add: gr_inv_def gr_fresh_def gr_entries_def gr_block_def Let_def SCAN_END_le)
qed

text \<open>\<open>grub_init\<close> repairs any file without the header to an environment with no entries.\<close>

lemma grub_init_resets:
  assumes "\<not> gr_rdonly g" "gr_file g = None \<or> (\<exists>f. gr_file g = Some f \<and> \<not> mem_starts f GRUB_HDR)"
    and "gr_after g = [NUL]"
  shows "\<exists>g'. grub_init g = (0, g') \<and> gr_inv g' \<and> gr_entries g' = []"
proof -
  let ?f = "case gr_file g of None \<Rightarrow> [] | Some f \<Rightarrow> f"
  let ?b = "pad_grub (GRUB_HDR @ gr_bytes [])"
  have "\<not> mem_starts ?f GRUB_HDR" using assms(2) by (auto simp: mem_starts_def GRUB_HDR_def)
  then have "grub_init g = (0, grub_write (pad_grub GRUB_HDR) g)"
    using assms(1) by (simp add: grub_init_def)
  moreover have "length ?b = 1024" by (simp add: SCAN_END_le)
  then have "gr_inv (grub_write ?b g) \<and> gr_entries (grub_write ?b g) = []"
    using assms decode_pad [of "[]"]
    by (simp add: gr_inv_def grub_write_def gr_block_def gr_entries_def Let_def SCAN_END_le)
  ultimately show ?thesis by simp
qed

section \<open>Properties\<close>

text \<open>\<open>grub_set_env_key\<close> succeeds on a well-formed block with room, keeps it well-formed, the
  key then reads back as the value, and every key that shares no entry with it reads as before.\<close>
theorem grub_set_get:
  assumes "gr_inv g" "key_ok k" "value_ok v" "length k + length v + 2 \<le> 127"
    and "esize (put_key k v (gr_entries g)) \<le> GR_CAP" "key_ok k'" "indep k' k"
  shows "\<exists>g'. grub_set_env_key k v g = Some (Done (0, g')) \<and> gr_inv g' \<and>
    grub_get_env_key k g' = Done (Some v) \<and> grub_get_env_key k' g' = grub_get_env_key k' g"
  using grub.set_get_same [OF assms(1-5)] grub.set_get_other [OF assms] by fastforce

theorem grub_set_get_witness:
  "\<exists>g'. grub_set_env_key ''pv_try'' ''5'' (gr_fresh [''pv_rev=4'']) = Some (Done (0, g')) \<and> gr_inv g' \<and>
    grub_get_env_key ''pv_try'' g' = Done (Some ''5'') \<and>
    grub_get_env_key ''pv_rev'' g' = grub_get_env_key ''pv_rev'' (gr_fresh [''pv_rev=4''])"
  by (rule grub_set_get)
    (simp_all add: gr_fresh line_ok_def GR_CAP_def SCAN_END_le key_ok_def value_ok_def indep_def
      put_key_def drop_key_def)

text \<open>Because \<open>HDR_SIZE\<close> expands unparenthesised, the scan of set and unset stops 27 bytes before
  the end of the block: a last line that ends there is lost whatever the key.\<close>
theorem grub_scan_loses_last:
  assumes "list_all line_ok es" "line_ok e" "LF \<notin> set k"
    and "25 + length (gr_bytes es) \<le> SCAN_END" "SCAN_END \<le> 25 + length (gr_bytes es) + length e"
  shows "grub_kept k (pad_grub (GRUB_HDR @ gr_bytes (es @ [e]))) = gr_bytes (drop_key k es)"
proof -
  let ?t = "e @ LF # replicate (GRUB_SIZE - (26 + length (gr_bytes es) + length e)) (CHR ''#'')"
  let ?m = "972 - length (gr_bytes es)"
  have m: "?m \<le> length e" using assms(4,5) by (simp add: SCAN_END_le)
  have skip: "LF \<notin> set (take ?m ?t)" using m assms(2) by (auto simp: line_ok_def dest: in_set_takeD)
  have old: "pad_grub (GRUB_HDR @ gr_bytes (es @ [e])) = GRUB_HDR @ gr_bytes es @ ?t"
    by (simp add: pad_grub_def add.commute add.left_commute)
  have "SCAN_END - HDR_SIZE = length (gr_bytes es) + ?m" using assms(4) by (simp add: SCAN_END_le)
  then show ?thesis
    using grub_scan_entries [OF assms(3,1) old skip, of "[]"] m by (simp add: grub_kept_def SCAN_END_le(3))
qed

theorem grub_scan_loses_last_witness:
  "grub_kept ''pv_try'' (pad_grub (GRUB_HDR @ gr_bytes ([''a=1''] @ [''b='' @ replicate 970 (CHR ''x'')])))
    = gr_bytes [''a=1'']"
proof -
  have "drop_key ''pv_try'' [''a=1''] = [''a=1'']" by (simp add: drop_key_def has_key_def)
  moreover have "line_ok (''b='' @ replicate 970 (CHR ''x''))" by (simp add: line_ok_def no_nul_def)
  ultimately show ?thesis
    using grub_scan_loses_last [of "[''a=1'']" "''b='' @ replicate 970 (CHR ''x'')" "''pv_try''"]
    by (simp add: line_ok_def SCAN_END_le)
qed

end
