(* ===== verification/Bootloader.thy ===== *)
theory Bootloader
  imports Uboot Grub
begin

text \<open>
  \<open>bootloader.c\<close>: the revision that is started, tried and done, in memory and, through
  \<open>struct bl_ops\<close>, in the boot environment. Its operations are proved once over the interface
  and hold for both backends.
\<close>

section \<open>State and operations\<close>

record 's bl_ops =
  get_env_key :: "string \<Rightarrow> 's \<Rightarrow> string option outcome"
  set_env_key :: "string \<Rightarrow> string \<Rightarrow> 's \<Rightarrow> 's bl_result"
  unset_env_key :: "string \<Rightarrow> 's \<Rightarrow> 's bl_result"
  op_flush_env :: "'s \<Rightarrow> 's bl_result"

definition uboot_ops :: "uboot bl_ops" where
  "uboot_ops = \<lparr>get_env_key = uboot_get_env_key, set_env_key = uboot_set_env_key,
     unset_env_key = uboot_unset_env_key, op_flush_env = uboot_flush_env\<rparr>"

definition grub_ops :: "grub bl_ops" where
  "grub_ops = \<lparr>get_env_key = grub_get_env_key, set_env_key = grub_set_env_key,
     unset_env_key = grub_unset_env_key, op_flush_env = grub_flush_env\<rparr>"

text \<open>\<open>struct pv_bootloader\<close>, with the store the backend writes to.\<close>

record 's bootloader =
  pv_rev :: string
  pv_try :: "string option"
  pv_done :: "string option"
  store :: 's

text \<open>An operation on the store inside one on the bootloader.\<close>

definition lift_op :: "'s bl_result \<Rightarrow> 's bootloader \<Rightarrow> 's bootloader bl_result" where
  "lift_op r b = (case r of None \<Rightarrow> None | Some Fault \<Rightarrow> Some Fault
     | Some (Done (n, s)) \<Rightarrow> Some (Done (n, b\<lparr>store := s\<rparr>)))"

text \<open>The C operator \<open>||\<close> on two calls: 1 when the first fails, else the second as 0 or 1.\<close>

definition c_or :: "'s bl_result \<Rightarrow> ('s \<Rightarrow> 's bl_result) \<Rightarrow> 's bl_result" where
  "c_or r f = (case r of None \<Rightarrow> None | Some Fault \<Rightarrow> Some Fault
     | Some (Done (n, s)) \<Rightarrow>
         (if n \<noteq> 0 then Some (Done (1, s))
          else case f s of None \<Rightarrow> None | Some Fault \<Rightarrow> Some Fault
           | Some (Done (m, s')) \<Rightarrow> Some (Done (if m \<noteq> 0 then 1 else 0, s'))))"

definition pv_bootloader_set_rev :: "'s bl_ops option \<Rightarrow> string \<Rightarrow> 's bootloader \<Rightarrow> 's bootloader bl_result" where
  "pv_bootloader_set_rev opsp rv b =
     (case opsp of None \<Rightarrow> Some (Done (-1, b))
      | Some ops \<Rightarrow> (let b' = b\<lparr>pv_rev := rv, pv_done := Some rv\<rparr> in
                     lift_op (set_env_key ops ''pv_rev'' rv (store b')) b'))"

definition pv_bootloader_set_try :: "'s bl_ops option \<Rightarrow> string \<Rightarrow> 's bootloader \<Rightarrow> 's bootloader bl_result" where
  "pv_bootloader_set_try opsp rv b =
     (case opsp of None \<Rightarrow> Some (Done (-1, b))
      | Some ops \<Rightarrow> (let b' = b\<lparr>pv_try := Some rv\<rparr> in
                     lift_op (set_env_key ops ''pv_try'' rv (store b')) b'))"

definition pv_bootloader_unset_try :: "'s bl_ops option \<Rightarrow> 's bootloader \<Rightarrow> 's bootloader bl_result" where
  "pv_bootloader_unset_try opsp b =
     (case opsp of None \<Rightarrow> Some (Done (-1, b))
      | Some ops \<Rightarrow> (let b' = b\<lparr>pv_try := None\<rparr> in
                     lift_op (unset_env_key ops ''pv_try'' (store b')) b'))"

definition pv_bootloader_update_in_progress :: "'s bootloader \<Rightarrow> bool" where
  "pv_bootloader_update_in_progress b \<longleftrightarrow> (case pv_try b of None \<Rightarrow> False | Some t \<Rightarrow> length t \<noteq> 0)"

definition pv_bootloader_trying_update :: "'s bootloader \<Rightarrow> bool" where
  "pv_bootloader_trying_update b \<longleftrightarrow>
     (case pv_try b of None \<Rightarrow> False
      | Some t \<Rightarrow> pv_bootloader_update_in_progress b \<and> strneq (pv_rev b) t (length (pv_rev b) + 1))"

definition pv_bootloader_set_installed :: "'s bl_ops option \<Rightarrow> string \<Rightarrow> 's bootloader \<Rightarrow> 's bootloader bl_result" where
  "pv_bootloader_set_installed opsp rv b = pv_bootloader_set_try opsp rv b"

definition pv_bootloader_set_commited :: "'s bl_ops option \<Rightarrow> string \<Rightarrow> 's bootloader \<Rightarrow> 's bootloader bl_result" where
  "pv_bootloader_set_commited opsp rv b =
     (case opsp of None \<Rightarrow> Some (Done (-1, b))
      | Some ops \<Rightarrow>
          c_or (c_or (pv_bootloader_set_rev opsp rv b) (pv_bootloader_unset_try opsp))
               (\<lambda>b. lift_op (op_flush_env ops (store b)) b))"

definition pv_bootloader_set_failed :: "'s bl_ops option \<Rightarrow> 's bootloader \<Rightarrow> 's bootloader bl_result" where
  "pv_bootloader_set_failed opsp b = pv_bootloader_unset_try opsp b"

text \<open>
  \<open>pv_bl_early_init\<close>: the revision under test comes from the kernel command line, the done one
  from the environment. \<open>cmdline\<close> is what \<open>read\<close> gave, its last byte is cut.
\<close>

fun bl_tokens :: "string list \<Rightarrow> string \<times> string option \<Rightarrow> string \<times> string option" where
  "bl_tokens [] rt = rt"
| "bl_tokens (t # ts) (r, y) =
     bl_tokens ts (if strneq ''pv_rev='' t 7 then (drop 7 t, y)
                   else if strneq ''pv_try='' t 7 then (r, Some (drop 7 t)) else (r, y))"

definition pv_bl_early_init ::
  "'s bl_ops \<Rightarrow> int \<Rightarrow> string option \<Rightarrow> 's \<Rightarrow> (int \<times> 's bootloader) outcome" where
  "pv_bl_early_init ops init_ret cmdline s =
     (let b0 = \<lparr>pv_rev = ''0'', pv_try = None, pv_done = None, store = s\<rparr> in
      case cmdline of None \<Rightarrow> Done (-1, b0)
      | Some c \<Rightarrow>
         (if c = [] then Done (-1, b0)
          else let (r, t) = bl_tokens (strtok (CHR '' '') (cstr (butlast (take 1024 c)))) (''0'', None);
                   b = b0\<lparr>pv_rev := r, pv_try := t\<rparr>
               in if init_ret < 0 then Done (-1, b)
                  else case get_env_key ops ''pv_rev'' s of Fault \<Rightarrow> Fault
                   | Done e \<Rightarrow> Done (0, b\<lparr>pv_done := Some (case e of None \<Rightarrow> r | Some v \<Rightarrow> v)\<rparr>)))"

lemma trying_is_booted: "pv_bootloader_trying_update b \<longleftrightarrow> pv_try b = Some (pv_rev b) \<and> pv_rev b \<noteq> []"
  by (auto simp: pv_bootloader_trying_update_def pv_bootloader_update_in_progress_def
      strneq_full [simplified] split: option.splits)

section \<open>What the environment promises\<close>

text \<open>The abstract state of an update: the revision to boot and the one to try.\<close>

definition env_rev :: "entries \<Rightarrow> string option" where "env_rev es = lookup_key ''pv_rev'' es"
definition env_try :: "entries \<Rightarrow> string option" where "env_try es = lookup_key ''pv_try'' es"

text \<open>Room for both keys besides the entries of others.\<close>

definition REV_MAX :: nat where "REV_MAX = 64"

definition rev_ok :: "string \<Rightarrow> bool" where
  "rev_ok r \<longleftrightarrow> value_ok r \<and> r \<noteq> [] \<and> length r \<le> REV_MAX"

definition spare :: "nat \<Rightarrow> entries \<Rightarrow> bool" where
  "spare cap es \<longleftrightarrow>
     esize (filter (has_key ''pv_rev'') es) \<le> REV_MAX + 8 \<and>
     esize (filter (has_key ''pv_try'') es) \<le> REV_MAX + 8 \<and>
     esize (drop_key ''pv_rev'' (drop_key ''pv_try'' es)) + 2 * (REV_MAX + 8) \<le> cap"

lemma keys_indep: "indep ''pv_rev'' ''pv_try''" "indep ''pv_try'' ''pv_rev''"
  "indep ''pv_rev'' ''pv_trying''"
  by (simp_all add: indep_def)

lemma keys_ok: "key_ok ''pv_rev''" "key_ok ''pv_try''"
  by (simp_all add: key_ok_def)

lemma filter_key_put_same:
  "filter (has_key k) (put_key k v es) = [k @ CHR ''='' # v]"
  using put_key_has_key [of k v] by (simp add: put_key_def drop_key_def filter_filter_neg)

lemma filter_key_drop_other: "indep k k' \<Longrightarrow> filter (has_key k) (drop_key k' es) = filter (has_key k) es"
  using indep_no_common [of k k'] by (induction es) (auto simp: drop_key_def)

lemma filter_key_put_other: "indep k k' \<Longrightarrow> filter (has_key k) (put_key k' v es) = filter (has_key k) es"
  using filter_key_drop_other [of k k' es] not_has_key_put [of k k' v] by (simp add: put_key_def)

lemma filter_key_drop_same: "filter (has_key k) (drop_key k es) = []"
  by (simp add: drop_key_def filter_filter_neg)

lemma drop_keys_commute: "drop_key k (drop_key k' es) = drop_key k' (drop_key k es)"
  by (simp add: drop_key_def conj_commute)

lemma drop_key_put: "drop_key k (put_key k v es) = drop_key k es"
  using put_key_has_key [of k v] by (simp add: put_key_def drop_key_def)

lemma esize_split: "esize (filter P es) + esize (filter (\<lambda>e. \<not> P e) es) = esize es"
  by (induction es) auto

lemma esize_mono_drop: "esize (filter P (drop_key k es)) \<le> esize (filter P es)"
  by (induction es) (auto simp: drop_key_def)

lemma esize_drop_drop: "esize (drop_key k' (drop_key k es)) \<le> esize (drop_key k' es)"
  using esize_mono_drop [of "\<lambda>e. \<not> has_key k' e" k es] by (simp add: drop_key_def)

lemma spare_drop: "spare cap es \<Longrightarrow> spare cap (drop_key k es)"
  using esize_mono_drop [of "has_key ''pv_rev''" k es] esize_mono_drop [of "has_key ''pv_try''" k es]
    esize_drop_drop [of "''pv_rev''" k "drop_key ''pv_try'' es"]
  by (auto simp: spare_def drop_keys_commute [of _ k])

definition spare_keys :: "string \<Rightarrow> string \<Rightarrow> nat \<Rightarrow> entries \<Rightarrow> bool" where
  "spare_keys k k' cap es \<longleftrightarrow>
     esize (filter (has_key k) es) \<le> REV_MAX + 8 \<and> esize (filter (has_key k') es) \<le> REV_MAX + 8 \<and>
     esize (drop_key k (drop_key k' es)) + 2 * (REV_MAX + 8) \<le> cap"

lemma spare_as_keys:
  "spare cap es \<longleftrightarrow> spare_keys ''pv_rev'' ''pv_try'' cap es"
  "spare cap es \<longleftrightarrow> spare_keys ''pv_try'' ''pv_rev'' cap es"
  by (auto simp: spare_def spare_keys_def drop_keys_commute [of "''pv_try''"])

lemma spare_keys_put:
  assumes s: "spare_keys k k' cap es" and i: "indep k' k" and v: "length v \<le> REV_MAX" "length k = 6"
  shows "esize (put_key k v es) \<le> cap" and "spare_keys k k' cap (put_key k v es)"
proof -
  have a: "esize (drop_key k es) = esize (filter (has_key k') es) + esize (drop_key k (drop_key k' es))"
    using esize_split [of "has_key k'" "drop_key k es"]
    by (simp add: filter_key_drop_other [OF i] drop_keys_commute [of k]) (simp add: drop_key_def)
  show "esize (put_key k v es) \<le> cap"
    using s v a by (simp add: put_key_def spare_keys_def)
  have "drop_key k (drop_key k' (put_key k v es)) = drop_key k' (drop_key k es)"
    by (subst drop_keys_commute) (simp add: drop_key_put)
  then show "spare_keys k k' cap (put_key k v es)"
    using s v by (simp add: spare_keys_def filter_key_put_same filter_key_put_other [OF i] drop_keys_commute)
qed

lemma spare_put:
  assumes "spare cap es" "length v \<le> REV_MAX"
  shows "esize (put_key ''pv_rev'' v es) \<le> cap" "spare cap (put_key ''pv_rev'' v es)"
    "esize (put_key ''pv_try'' v es) \<le> cap" "spare cap (put_key ''pv_try'' v es)"
  using spare_keys_put [of "''pv_rev''" "''pv_try''" cap es v] spare_keys_put [of "''pv_try''" "''pv_rev''" cap es v]
    assms spare_as_keys keys_indep by auto

section \<open>Sequences of update commands\<close>

datatype bl_cmd = Installed string | Failed | Commited string

fun bl_cmd_ok :: "bl_cmd \<Rightarrow> bool" where
  "bl_cmd_ok (Installed r) = rev_ok r"
| "bl_cmd_ok Failed = True"
| "bl_cmd_ok (Commited r) = rev_ok r"

fun bl_do :: "'s bl_ops option \<Rightarrow> bl_cmd \<Rightarrow> 's bootloader \<Rightarrow> 's bootloader bl_result" where
  "bl_do opsp (Installed r) b = pv_bootloader_set_installed opsp r b"
| "bl_do opsp Failed b = pv_bootloader_set_failed opsp b"
| "bl_do opsp (Commited r) b = pv_bootloader_set_commited opsp r b"

fun bl_run :: "'s bl_ops option \<Rightarrow> bl_cmd list \<Rightarrow> 's bootloader \<Rightarrow> 's bootloader bl_result" where
  "bl_run opsp [] b = Some (Done (0, b))"
| "bl_run opsp (c # cs) b =
     (case bl_do opsp c b of None \<Rightarrow> None | Some Fault \<Rightarrow> Some Fault
      | Some (Done (n, b')) \<Rightarrow> if n \<noteq> 0 then Some (Done (n, b')) else bl_run opsp cs b')"

text \<open>The abstract update state: the revision committed and the one under trial.\<close>

type_synonym trial = "string option \<times> string option"

fun trial_cmd :: "trial \<Rightarrow> bl_cmd \<Rightarrow> trial" where
  "trial_cmd (r, t) (Installed x) = (r, Some x)"
| "trial_cmd (r, t) Failed = (r, None)"
| "trial_cmd (r, t) (Commited x) = (Some x, None)"

definition env_trial :: "entries \<Rightarrow> trial" where
  "env_trial es = (lookup_key ''pv_rev'' es, lookup_key ''pv_try'' es)"

definition mem_trial :: "'s bootloader \<Rightarrow> trial" where
  "mem_trial b = (pv_done b, pv_try b)"

lemma indep_rev_trying: "lookup_key ''pv_rev'' (drop_key ''pv_trying'' es) = lookup_key ''pv_rev'' es"
  by (rule lookup_drop_other) (simp add: indep_def)

lemma drop_trying_none:
  "lookup_key ''pv_try'' es = None \<Longrightarrow> lookup_key ''pv_try'' (drop_key ''pv_trying'' es) = None"
  by (auto simp: lookup_key_def drop_key_def find_None_all)

lemma env_trial_simps [env_simps]:
  "env_trial (put_key ''pv_rev'' r es) = (Some r, snd (env_trial es))"
  "env_trial (put_key ''pv_try'' r es) = (fst (env_trial es), Some r)"
  "env_trial (drop_key ''pv_try'' es) = (fst (env_trial es), None)"
  using keys_indep by (simp_all add: env_trial_def env_simps)

locale bl_client = boot_env "get_env_key ops" "set_env_key ops" "unset_env_key ops"
    "op_flush_env ops" env_inv env_entries env_cap
  for ops :: "'s bl_ops" and env_inv :: "'s \<Rightarrow> bool" and env_entries :: "'s \<Rightarrow> entries"
    and env_cap :: nat
begin

definition good :: "'s bootloader \<Rightarrow> bool" where
  "good b \<longleftrightarrow> env_inv (store b) \<and> spare env_cap (env_entries (store b))"

lemma set_rev_step:
  assumes "good b" "rev_ok r"
  shows "\<exists>b'. pv_bootloader_set_rev (Some ops) r b = Some (Done (0, b')) \<and> good b' \<and>
    env_entries (store b') = put_key ''pv_rev'' r (env_entries (store b)) \<and>
    pv_rev b' = r \<and> pv_done b' = Some r \<and> pv_try b' = pv_try b"
proof -
  have v: "value_ok r" "length ''pv_rev'' + length r + 2 \<le> 127" "length r \<le> REV_MAX"
    using assms(2) by (simp_all add: rev_ok_def REV_MAX_def)
  have g: "env_inv (store b)" "spare env_cap (env_entries (store b))"
    using assms(1) by (simp_all add: good_def)
  obtain s' where "set_env_key ops ''pv_rev'' r (store b) = Some (Done (0, s'))" "env_inv s'"
    "env_entries s' = put_key ''pv_rev'' r (env_entries (store b))"
    using set_law [OF g(1) keys_ok(1) v(1,2) spare_put(1) [OF g(2) v(3)]] by auto
  with spare_put(2) [OF g(2) v(3)] show ?thesis
    by (simp add: pv_bootloader_set_rev_def lift_op_def Let_def good_def)
qed

lemma set_try_step:
  assumes "good b" "rev_ok r"
  shows "\<exists>b'. pv_bootloader_set_try (Some ops) r b = Some (Done (0, b')) \<and> good b' \<and>
    env_entries (store b') = put_key ''pv_try'' r (env_entries (store b)) \<and>
    pv_rev b' = pv_rev b \<and> pv_done b' = pv_done b \<and> pv_try b' = Some r"
proof -
  have v: "value_ok r" "length ''pv_try'' + length r + 2 \<le> 127" "length r \<le> REV_MAX"
    using assms(2) by (simp_all add: rev_ok_def REV_MAX_def)
  have g: "env_inv (store b)" "spare env_cap (env_entries (store b))"
    using assms(1) by (simp_all add: good_def)
  obtain s' where "set_env_key ops ''pv_try'' r (store b) = Some (Done (0, s'))" "env_inv s'"
    "env_entries s' = put_key ''pv_try'' r (env_entries (store b))"
    using set_law [OF g(1) keys_ok(2) v(1,2) spare_put(3) [OF g(2) v(3)]] by auto
  with spare_put(4) [OF g(2) v(3)] show ?thesis
    by (simp add: pv_bootloader_set_try_def lift_op_def Let_def good_def)
qed

lemma unset_try_step:
  assumes "good b"
  shows "\<exists>b'. pv_bootloader_unset_try (Some ops) b = Some (Done (0, b')) \<and> good b' \<and>
    env_entries (store b') = drop_key ''pv_try'' (env_entries (store b)) \<and>
    pv_rev b' = pv_rev b \<and> pv_done b' = pv_done b \<and> pv_try b' = None"
proof -
  have g: "env_inv (store b)" "spare env_cap (env_entries (store b))"
    using assms by (simp_all add: good_def)
  obtain s' where "unset_env_key ops ''pv_try'' (store b) = Some (Done (0, s'))" "env_inv s'"
    "env_entries s' = drop_key ''pv_try'' (env_entries (store b))"
    using unset_law [OF g(1) keys_ok(2)] by auto
  with spare_drop [OF g(2)] show ?thesis
    by (simp add: pv_bootloader_unset_try_def lift_op_def Let_def good_def)
qed

lemma flush_step:
  assumes "good b" "lookup_key ''pv_try'' (env_entries (store b)) = None"
  shows "\<exists>b'. lift_op (op_flush_env ops (store b)) b = Some (Done (0, b')) \<and> good b' \<and>
    env_trial (env_entries (store b')) = env_trial (env_entries (store b)) \<and>
    pv_rev b' = pv_rev b \<and> pv_done b' = pv_done b \<and> pv_try b' = pv_try b"
proof -
  have g: "env_inv (store b)" "spare env_cap (env_entries (store b))"
    using assms by (simp_all add: good_def)
  obtain s' where "op_flush_env ops (store b) = Some (Done (0, s'))" "env_inv s'"
    "env_entries s' = env_entries (store b) \<or> env_entries s' = drop_key ''pv_trying'' (env_entries (store b))"
    using flush_law [OF g(1)] by auto
  with g spare_drop [OF g(2)] assms(2) show ?thesis
    by (auto simp: lift_op_def good_def env_trial_def indep_rev_trying drop_trying_none)
qed

lemma commit_step:
  assumes "good b" "rev_ok r"
  shows "\<exists>b'. pv_bootloader_set_commited (Some ops) r b = Some (Done (0, b')) \<and> good b' \<and>
    env_trial (env_entries (store b')) = (Some r, None) \<and>
    pv_rev b' = r \<and> pv_done b' = Some r \<and> pv_try b' = None"
proof -
  obtain b1 where b1: "pv_bootloader_set_rev (Some ops) r b = Some (Done (0, b1))" "good b1"
    "env_entries (store b1) = put_key ''pv_rev'' r (env_entries (store b))" "pv_rev b1 = r" "pv_done b1 = Some r"
    using set_rev_step [OF assms] by auto
  obtain b2 where b2: "pv_bootloader_unset_try (Some ops) b1 = Some (Done (0, b2))" "good b2"
    "env_entries (store b2) = drop_key ''pv_try'' (env_entries (store b1))"
    "pv_rev b2 = pv_rev b1" "pv_done b2 = pv_done b1" "pv_try b2 = None"
    using unset_try_step [OF b1(2)] by auto
  have t: "env_trial (env_entries (store b2)) = (Some r, None)"
    by (simp add: b1 b2 env_simps)
  obtain b3 where "lift_op (op_flush_env ops (store b2)) b2 = Some (Done (0, b3))" "good b3"
    "env_trial (env_entries (store b3)) = (Some r, None)"
    "pv_rev b3 = pv_rev b2" "pv_done b3 = pv_done b2" "pv_try b3 = pv_try b2"
    using flush_step [OF b2(2)] t by (auto simp: env_trial_def)
  with b1 b2 show ?thesis by (simp add: pv_bootloader_set_commited_def c_or_def)
qed

text \<open>One command does to both the memory and the environment what the abstract step says.\<close>

lemma cmd_step:
  assumes "good b" "bl_cmd_ok c" "mem_trial b = env_trial (env_entries (store b))"
  shows "\<exists>b'. bl_do (Some ops) c b = Some (Done (0, b')) \<and> good b' \<and>
    env_trial (env_entries (store b')) = trial_cmd (env_trial (env_entries (store b))) c \<and>
    mem_trial b' = env_trial (env_entries (store b'))"
proof (cases c)
  case (Installed r)
  with assms set_try_step [of b r] show ?thesis
    by (cases "env_trial (env_entries (store b))")
      (auto simp: pv_bootloader_set_installed_def env_simps mem_trial_def)
next
  case Failed
  with assms unset_try_step [of b] show ?thesis
    by (cases "env_trial (env_entries (store b))")
      (auto simp: pv_bootloader_set_failed_def env_simps mem_trial_def)
next
  case (Commited r)
  with assms commit_step [of b r] show ?thesis
    by (cases "env_trial (env_entries (store b))") (auto simp: mem_trial_def)
qed

lemma run_refines:
  assumes "good b" "list_all bl_cmd_ok cs" "mem_trial b = env_trial (env_entries (store b))"
  shows "\<exists>b'. bl_run (Some ops) cs b = Some (Done (0, b')) \<and> good b' \<and>
    env_trial (env_entries (store b')) = foldl trial_cmd (env_trial (env_entries (store b))) cs \<and>
    mem_trial b' = env_trial (env_entries (store b'))"
  using assms
proof (induction cs arbitrary: b)
  case (Cons c cs)
  obtain b1 where b1: "bl_do (Some ops) c b = Some (Done (0, b1))" "good b1"
    "env_trial (env_entries (store b1)) = trial_cmd (env_trial (env_entries (store b))) c"
    "mem_trial b1 = env_trial (env_entries (store b1))"
    using cmd_step [OF Cons.prems(1) _ Cons.prems(3), of c] Cons.prems(2) by auto
  from Cons.IH [OF b1(2) _ b1(4)] Cons.prems(2) b1(1,3) show ?case by auto
qed simp

lemma get_trial:
  assumes "good b"
  shows "get_env_key ops ''pv_rev'' (store b) = Done (fst (env_trial (env_entries (store b))))"
    and "get_env_key ops ''pv_try'' (store b) = Done (snd (env_trial (env_entries (store b))))"
  using get_law keys_ok assms by (simp_all add: good_def env_trial_def)

end

interpretation bl_uboot: bl_client uboot_ops ub_inv ub_entries UB_CAP
  by unfold_locales
    (auto simp: uboot_ops_def intro: uboot.get_law uboot.set_law uboot.unset_law uboot.flush_law)

interpretation bl_grub: bl_client grub_ops gr_inv gr_entries GR_CAP
  by unfold_locales
    (auto simp: grub_ops_def intro: grub.get_law grub.set_law grub.unset_law grub.flush_law)

section \<open>Properties\<close>

text \<open>C4: On a u-boot environment with room, every sequence of installing, failing and committing
  revisions succeeds and terminates; the environment then holds the last committed revision and
  the trial of the abstract machine, and the memory agrees with it. A trial alone never changes
  the committed revision.\<close>
theorem uboot_trial_machine:
  assumes "ub_inv (store b)" "spare UB_CAP (ub_entries (store b))"
    and "mem_trial b = env_trial (ub_entries (store b))" "list_all bl_cmd_ok cs"
  shows "\<exists>b'. bl_run (Some uboot_ops) cs b = Some (Done (0, b')) \<and> ub_inv (store b') \<and>
    mem_trial b' = foldl trial_cmd (mem_trial b) cs \<and>
    uboot_get_env_key ''pv_rev'' (store b') = Done (fst (foldl trial_cmd (mem_trial b) cs)) \<and>
    uboot_get_env_key ''pv_try'' (store b') = Done (snd (foldl trial_cmd (mem_trial b) cs))"
proof -
  have "bl_uboot.good b" using assms by (simp add: bl_uboot.good_def)
  from bl_uboot.run_refines [OF this assms(4,3)] obtain b' where b':
    "bl_run (Some uboot_ops) cs b = Some (Done (0, b'))" "bl_uboot.good b'"
    "env_trial (ub_entries (store b')) = foldl trial_cmd (mem_trial b) cs"
    "mem_trial b' = env_trial (ub_entries (store b'))" using assms(3) by auto
  with bl_uboot.get_trial [OF b'(2)] show ?thesis
    by (intro exI [of _ b']) (simp add: bl_uboot.good_def uboot_ops_def)
qed

theorem uboot_trial_machine_witness:
  "\<exists>b'. bl_run (Some uboot_ops) [Installed ''5'', Failed, Installed ''6'', Commited ''6'']
      \<lparr>pv_rev = ''4'', pv_try = None, pv_done = Some ''4'', store = ub_fresh [''pv_rev=4'']\<rparr> = Some (Done (0, b')) \<and>
    ub_inv (store b') \<and> mem_trial b' = (Some ''6'', None) \<and>
    uboot_get_env_key ''pv_rev'' (store b') = Done (Some ''6'') \<and>
    uboot_get_env_key ''pv_try'' (store b') = Done None"
  using uboot_trial_machine [of "\<lparr>pv_rev = ''4'', pv_try = None, pv_done = Some ''4'', store = ub_fresh [''pv_rev=4'']\<rparr>"
      "[Installed ''5'', Failed, Installed ''6'', Commited ''6'']"]
  by (simp add: ub_fresh entry_ok_def UB_CAP_def MTD_ENV_SIZE_def spare_def REV_MAX_def drop_key_def
      has_key_def mem_trial_def env_trial_def lookup_key_def rev_ok_def value_ok_def)

text \<open>C22: The same on a grub environment block.\<close>
theorem grub_trial_machine:
  assumes "gr_inv (store b)" "spare GR_CAP (gr_entries (store b))"
    and "mem_trial b = env_trial (gr_entries (store b))" "list_all bl_cmd_ok cs"
  shows "\<exists>b'. bl_run (Some grub_ops) cs b = Some (Done (0, b')) \<and> gr_inv (store b') \<and>
    mem_trial b' = foldl trial_cmd (mem_trial b) cs \<and>
    grub_get_env_key ''pv_rev'' (store b') = Done (fst (foldl trial_cmd (mem_trial b) cs)) \<and>
    grub_get_env_key ''pv_try'' (store b') = Done (snd (foldl trial_cmd (mem_trial b) cs))"
proof -
  have "bl_grub.good b" using assms by (simp add: bl_grub.good_def)
  from bl_grub.run_refines [OF this assms(4,3)] obtain b' where b':
    "bl_run (Some grub_ops) cs b = Some (Done (0, b'))" "bl_grub.good b'"
    "env_trial (gr_entries (store b')) = foldl trial_cmd (mem_trial b) cs"
    "mem_trial b' = env_trial (gr_entries (store b'))" using assms(3) by auto
  with bl_grub.get_trial [OF b'(2)] show ?thesis
    by (intro exI [of _ b']) (simp add: bl_grub.good_def grub_ops_def)
qed

theorem grub_trial_machine_witness:
  "\<exists>b'. bl_run (Some grub_ops) [Commited ''7'', Installed ''8'']
      \<lparr>pv_rev = ''4'', pv_try = None, pv_done = Some ''4'', store = gr_fresh [''pv_rev=4'']\<rparr> = Some (Done (0, b')) \<and>
    gr_inv (store b') \<and> mem_trial b' = (Some ''7'', Some ''8'') \<and>
    grub_get_env_key ''pv_rev'' (store b') = Done (Some ''7'') \<and>
    grub_get_env_key ''pv_try'' (store b') = Done (Some ''8'')"
  using grub_trial_machine [of "\<lparr>pv_rev = ''4'', pv_try = None, pv_done = Some ''4'', store = gr_fresh [''pv_rev=4'']\<rparr>"
      "[Commited ''7'', Installed ''8'']"]
  by (simp add: gr_fresh line_ok_def GR_CAP_def SCAN_END_le spare_def REV_MAX_def drop_key_def
      has_key_def mem_trial_def env_trial_def lookup_key_def rev_ok_def value_ok_def)

text \<open>\<open>pv_bootloader_trying_update\<close> holds exactly when a revision is on trial and it is the one
  that was started.\<close>
theorem trying_update_iff:
  "pv_bootloader_trying_update b \<longleftrightarrow> pv_try b = Some (pv_rev b) \<and> pv_rev b \<noteq> []"
  by (auto simp: pv_bootloader_trying_update_def pv_bootloader_update_in_progress_def
      strneq_full [simplified] split: option.split)

end
