(* ===== verification/StateData.thy ===== *)
theory StateData
  imports Prelude
begin

text \<open>
  The data of a revision: \<open>struct pv_state\<close> of \<open>state.h\<close> with its platforms, volumes, addons,
  objects and jsons, and the operations of \<open>platforms.c\<close>, \<open>volumes.c\<close>, \<open>addons.c\<close>, \<open>objects.c\<close>
  and \<open>jsons.c\<close> that add, find and drop elements. A platform has an address; the field \<open>plat\<close> of
  an object, json or volume is such an address or \<open>NULL\<close>, so that a pointer to a platform that
  was freed is a value of the model.
\<close>

section \<open>Data\<close>

datatype state_spec = SPEC_MULTI1 | SPEC_SYSTEM1 | SPEC_UNKNOWN

datatype plat_status = PLAT_NONE | PLAT_INSTALLED | PLAT_STARTED | PLAT_STOPPED

datatype volume_type = VOL_LOOPIMG | VOL_PERMANENT | VOL_REVISION | VOL_BOOT | VOL_UNKNOWN

definition RUNLEVEL_DATA :: int where "RUNLEVEL_DATA = 0"
definition RUNLEVEL_ROOT :: int where "RUNLEVEL_ROOT = 1"
definition RUNLEVEL_PLATFORM :: int where "RUNLEVEL_PLATFORM = 2"
definition RUNLEVEL_APP :: int where "RUNLEVEL_APP = 3"
definition MAX_RUNLEVEL :: int where "MAX_RUNLEVEL = 3"

lemmas runlevel_defs = RUNLEVEL_DATA_def RUNLEVEL_ROOT_def RUNLEVEL_PLATFORM_def RUNLEVEL_APP_def
  MAX_RUNLEVEL_def

text \<open>A list of key and value pairs that configures a logger.\<close>

type_synonym logger_config = "(string \<times> string option) list"

record log_info =
  l_name :: string
  l_logfile :: "string option"
  l_truncate_size :: int
  l_islxc :: bool
  l_pid :: int

record platform =
  p_addr :: nat
  p_name :: string
  p_type :: "string option"
  p_configs :: "string list option"
  p_exec :: "string option"
  p_ns_share :: nat
  p_data :: "nat option"
  p_init_pid :: int
  p_status :: plat_status
  p_runlevel :: int
  p_mgmt :: bool
  p_updated :: bool
  p_loggers :: "log_info list"
  p_logger_configs :: "logger_config list"

record volume =
  v_name :: string
  v_mode :: "string option"
  v_src :: "string option"
  v_dest :: "string option"
  v_type :: volume_type
  v_loop_fd :: int
  v_file_fd :: int
  v_plat :: "nat option"

record object =
  o_name :: string
  o_id :: string
  o_geturl :: "string option"
  o_objpath :: string
  o_relpath :: string
  o_size :: nat
  o_sha256 :: "string option"
  o_plat :: "nat option"

record json =
  j_name :: string
  j_value :: string
  j_plat :: "nat option"

text \<open>The union of the images: \<open>kernel\<close> and \<open>fit\<close> are one pointer.\<close>

record bsp =
  b_kernel_or_fit :: "string option"
  b_fdt :: "string option"
  b_initrd :: "string option"
  b_firmware :: "string option"
  b_modules :: "string option"

record pv_state =
  s_rev :: string
  s_spec :: state_spec
  s_bsp :: bsp
  s_platforms :: "platform list"
  s_volumes :: "volume list"
  s_addons :: "string list"
  s_objects :: "object list"
  s_jsons :: "json list"
  s_json :: "string option"
  s_tryonce :: int
  s_local :: bool

section \<open>Creating, adding, finding\<close>

definition empty_bsp :: bsp where
  "empty_bsp = \<lparr>b_kernel_or_fit = None, b_fdt = None, b_initrd = None, b_firmware = None, b_modules = None\<rparr>"

definition pv_state_new :: "string \<Rightarrow> state_spec \<Rightarrow> pv_state" where
  "pv_state_new r spec = \<lparr>s_rev = r, s_spec = spec, s_bsp = empty_bsp, s_platforms = [], s_volumes = [],
     s_addons = [], s_objects = [], s_jsons = [], s_json = None, s_tryonce = 0, s_local = False\<rparr>"

text \<open>The address is what \<open>calloc\<close> returned.\<close>

definition new_platform :: "nat \<Rightarrow> string \<Rightarrow> platform" where
  "new_platform a n = \<lparr>p_addr = a, p_name = n, p_type = None, p_configs = None, p_exec = None,
     p_ns_share = 0, p_data = None, p_init_pid = 0, p_status = PLAT_NONE, p_runlevel = -1,
     p_mgmt = True, p_updated = False, p_loggers = [], p_logger_configs = []\<rparr>"

definition pv_platform_add :: "nat \<Rightarrow> pv_state \<Rightarrow> string \<Rightarrow> pv_state" where
  "pv_platform_add a s n = s\<lparr>s_platforms := s_platforms s @ [new_platform a n]\<rparr>"

definition plat_by_name :: "platform list \<Rightarrow> string \<Rightarrow> platform option" where
  "plat_by_name ps n = find (\<lambda>p. p_name p = n) ps"

definition pv_platform_get_by_name :: "pv_state \<Rightarrow> string \<Rightarrow> platform option" where
  "pv_platform_get_by_name s n = plat_by_name (s_platforms s) n"

definition plat_at :: "platform list \<Rightarrow> nat \<Rightarrow> platform option" where
  "plat_at ps a = find (\<lambda>p. p_addr p = a) ps"

definition pv_volume_add :: "pv_state \<Rightarrow> string \<Rightarrow> pv_state" where
  "pv_volume_add s n = s\<lparr>s_volumes := s_volumes s @ [\<lparr>v_name = n, v_mode = None, v_src = None,
     v_dest = None, v_type = VOL_LOOPIMG, v_loop_fd = 0, v_file_fd = 0, v_plat = None\<rparr>]\<rparr>"

definition pv_addon_add :: "pv_state \<Rightarrow> string \<Rightarrow> pv_state" where
  "pv_addon_add s n = s\<lparr>s_addons := s_addons s @ [n]\<rparr>"

text \<open>Objects and jsons go to the head of their lists.\<close>

definition pv_objects_add :: "pv_state \<Rightarrow> string \<Rightarrow> string \<Rightarrow> string \<Rightarrow> pv_state" where
  "pv_objects_add s filename i mnt = s\<lparr>s_objects := \<lparr>o_name = filename, o_id = i, o_geturl = None,
     o_objpath = mnt @ ''/objects/'' @ i,
     o_relpath = mnt @ ''/trails/'' @ s_rev s @ ''/'' @ filename,
     o_size = 0, o_sha256 = None, o_plat = None\<rparr> # s_objects s\<rparr>"

definition pv_jsons_add :: "pv_state \<Rightarrow> string \<Rightarrow> string \<Rightarrow> pv_state" where
  "pv_jsons_add s n v = s\<lparr>s_jsons := \<lparr>j_name = n, j_value = v, j_plat = None\<rparr> # s_jsons s\<rparr>"

definition pv_objects_get_by_name :: "pv_state \<Rightarrow> string \<Rightarrow> object option" where
  "pv_objects_get_by_name s n = find (\<lambda>ob. o_name ob = n) (s_objects s)"

definition pv_jsons_get_by_name :: "pv_state \<Rightarrow> string \<Rightarrow> json option" where
  "pv_jsons_get_by_name s n = find (\<lambda>j. j_name j = n) (s_jsons s)"

definition pv_objects_id_in_step :: "pv_state option \<Rightarrow> string \<Rightarrow> bool" where
  "pv_objects_id_in_step so i = (case so of None \<Rightarrow> False | Some s \<Rightarrow> list_ex (\<lambda>ob. o_id ob = i) (s_objects s))"

definition pv_platforms_remove_not_installed :: "pv_state \<Rightarrow> pv_state" where
  "pv_platforms_remove_not_installed s =
     s\<lparr>s_platforms := filter (\<lambda>p. p_status p = PLAT_INSTALLED) (s_platforms s)\<rparr>"

section \<open>Default runlevels\<close>

text \<open>\<open>first_p\<close> of the loop, as the prefix before it.\<close>

fun set_first_unset :: "int \<Rightarrow> platform list \<Rightarrow> platform list" where
  "set_first_unset r [] = []"
| "set_first_unset r (p # ps) =
     (if p_runlevel p = -1 then p\<lparr>p_runlevel := r\<rparr> # ps else p # set_first_unset r ps)"

definition pv_platforms_default_runlevel :: "pv_state \<Rightarrow> pv_state" where
  "pv_platforms_default_runlevel s =
     (let ps = s_platforms s;
          ps1 = (if list_ex (\<lambda>p. p_runlevel p = RUNLEVEL_ROOT) ps then ps else set_first_unset RUNLEVEL_ROOT ps)
      in s\<lparr>s_platforms := map (\<lambda>p. if p_runlevel p < RUNLEVEL_DATA then p\<lparr>p_runlevel := RUNLEVEL_PLATFORM\<rparr> else p) ps1\<rparr>)"

section \<open>Loggers of a platform\<close>

definition config_item :: "logger_config \<Rightarrow> string \<Rightarrow> string option" where
  "config_item c k = (case find (\<lambda>(k', v). strneq k' k (length k)) c of None \<Rightarrow> None | Some (_, v) \<Rightarrow> v)"

text \<open>\<open>pv_new_log\<close>: a logger for the container (\<open>islxc\<close>) only from an enabled lxc or console item, one
  for the platform only from a configuration that has neither.\<close>

definition pv_new_log :: "bool \<Rightarrow> logger_config \<Rightarrow> string option \<Rightarrow> log_info option" where
  "pv_new_log islxc c name =
     (let enabled = (case config_item c ''lxc'' of Some e \<Rightarrow> Some e | None \<Rightarrow> config_item c ''console'');
          make = (if islxc then (case enabled of None \<Rightarrow> False | Some e \<Rightarrow> strneq e ''enable'' 6)
                  else config_item c ''lxc'' = None \<and> config_item c ''console'' = None);
          nm = (case config_item c ''name'' of Some n \<Rightarrow> n
                | None \<Rightarrow> (case name of Some n \<Rightarrow> n | None \<Rightarrow> if islxc then ''pvlogger-lxc'' else ''pvlogger''));
          size = (case config_item c ''truncate'' of None \<Rightarrow> 0
                  | Some t \<Rightarrow> if strneq t ''true'' 4
                              then (case config_item c ''maxsize'' of None \<Rightarrow> 0 | Some m \<Rightarrow> atoi m) else 0)
      in if make then Some \<lparr>l_name = nm, l_logfile = None, l_truncate_size = size, l_islxc = islxc, l_pid = 0\<rparr>
         else None)"

definition pv_add_platform_logger :: "platform \<Rightarrow> logger_config \<Rightarrow> platform \<times> bool" where
  "pv_add_platform_logger p c =
     (case pv_new_log False c (Some (p_name p)) of None \<Rightarrow> (p, False)
      | Some l \<Rightarrow> (p\<lparr>p_loggers := l\<lparr>l_logfile := config_item c ''file''\<rparr> # p_loggers p\<rparr>, True))"

definition default_logger :: "string \<Rightarrow> string \<Rightarrow> logger_config" where
  "default_logger file name =
     [(''file'', Some file), (''truncate'', Some ''true''), (''maxsize'', Some ''2097152''), (''name'', Some name)]"

fun add_configured :: "platform \<Rightarrow> logger_config list \<Rightarrow> bool \<Rightarrow> platform \<times> bool" where
  "add_configured p [] dflt = (p, dflt)"
| "add_configured p (c # cs) dflt =
     (let (p', added) = pv_add_platform_logger p c in add_configured p' cs (dflt \<and> \<not> added))"

text \<open>The names of the default loggers are cut to 31 characters.\<close>

definition add_loggers :: "platform \<Rightarrow> platform" where
  "add_loggers p =
     (let (p1, dflt) = add_configured p (p_logger_configs p) True;
          p2 = p1\<lparr>p_logger_configs := []\<rparr>
      in if dflt
         then fst (pv_add_platform_logger
                    (fst (pv_add_platform_logger p2
                      (default_logger ''/var/log/syslog'' (take 31 (p_name p @ ''-pvlogger-syslog'')))))
                    (default_logger ''/var/log/messages'' (take 31 (p_name p @ ''-pvlogger-messages''))))
         else p2)"

definition pv_platforms_add_all_loggers :: "pv_state \<Rightarrow> pv_state" where
  "pv_platforms_add_all_loggers s = s\<lparr>s_platforms := map add_loggers (s_platforms s)\<rparr>"

definition pv_state_validate :: "pv_state \<Rightarrow> pv_state" where
  "pv_state_validate s =
     pv_platforms_add_all_loggers (pv_platforms_default_runlevel (pv_platforms_remove_not_installed s))"

section \<open>Facts\<close>

definition plat_core :: "platform \<Rightarrow> int \<times> string \<times> nat \<times> plat_status" where
  "plat_core p = (p_runlevel p, p_name p, p_addr p, p_status p)"

lemma add_logger_fields:
  assumes "pv_add_platform_logger p c = (p', b)"
  shows "plat_core p' = plat_core p" "p_loggers p \<noteq> [] \<or> b \<Longrightarrow> p_loggers p' \<noteq> []"
    "p_logger_configs p' = p_logger_configs p"
  using assms by (auto simp: pv_add_platform_logger_def plat_core_def split: option.splits)

lemma add_configured_fields:
  "add_configured p cs d = (p', d') \<Longrightarrow> plat_core p' = plat_core p \<and>
   (p_loggers p \<noteq> [] \<or> d \<and> \<not> d' \<longrightarrow> p_loggers p' \<noteq> [])"
proof (induction cs arbitrary: p d)
  case (Cons c cs)
  obtain q b where q: "pv_add_platform_logger p c = (q, b)" by (cases "pv_add_platform_logger p c")
  with Cons.prems have "add_configured q cs (d \<and> \<not> b) = (p', d')" by simp
  from Cons.IH [OF this] add_logger_fields [OF q] show ?case by auto
qed simp

lemma add_loggers_core: "plat_core (add_loggers p) = plat_core p"
proof -
  have core: "plat_core (fst (pv_add_platform_logger q c)) = plat_core q" for q c
    using add_logger_fields(1) by (metis prod.collapse)
  obtain q d where q: "add_configured p (p_logger_configs p) True = (q, d)"
    by (cases "add_configured p (p_logger_configs p) True")
  then have "plat_core (q\<lparr>p_logger_configs := []\<rparr>) = plat_core p"
    using add_configured_fields [OF q] by (simp add: plat_core_def)
  with q core show ?thesis by (simp add: add_loggers_def Let_def)
qed

lemma add_loggers_fields [simp]:
  "p_runlevel (add_loggers p) = p_runlevel p" "p_name (add_loggers p) = p_name p"
  "p_addr (add_loggers p) = p_addr p" "p_status (add_loggers p) = p_status p"
  using add_loggers_core [of p] by (simp_all add: plat_core_def)

lemma plat_at_Some: "plat_at ps a = Some p \<Longrightarrow> p \<in> set ps \<and> p_addr p = a"
  unfolding plat_at_def by (drule find_Some_in) simp

lemma plat_at_None: "plat_at ps a = None \<longleftrightarrow> a \<notin> p_addr ` set ps"
  by (auto simp: plat_at_def find_None_all)

lemma plat_by_name_None: "plat_by_name ps n = None \<longleftrightarrow> n \<notin> p_name ` set ps"
  by (auto simp: plat_by_name_def find_None_all)

lemma plat_at_distinct:
  "distinct (map p_addr ps) \<Longrightarrow> p \<in> set ps \<Longrightarrow> plat_at ps (p_addr p) = Some p"
  by (induction ps) (auto simp: plat_at_def)

section \<open>Properties\<close>

text \<open>After \<open>pv_state_validate\<close> every platform is one that was installed, in the same order, and
  has a runlevel: the configured one, else the first one without is root when none is configured as
  root, else it is in the platform runlevel.\<close>
theorem validate_runlevels:
  "map p_runlevel (s_platforms (pv_state_validate s)) =
     (let rs = map p_runlevel (filter (\<lambda>p. p_status p = PLAT_INSTALLED) (s_platforms s)); us = takeWhile (\<lambda>r. r \<noteq> -1) rs in
      map (\<lambda>r. if r < 0 then 2 else r)
        (if 1 \<in> set rs \<or> length us = length rs then rs else us @ 1 # drop (length us + 1) rs))"
    (is "?l = ?r")
proof -
  have first: "map p_runlevel (set_first_unset 1 ps) =
      (let rs = map p_runlevel ps; us = takeWhile (\<lambda>r. r \<noteq> -1) rs in
       if length us = length rs then rs else us @ 1 # drop (length us + 1) rs)" for ps
    by (induction ps) (auto simp: Let_def)
  define ps where "ps = filter (\<lambda>p. p_status p = PLAT_INSTALLED) (s_platforms s)"
  have root: "list_ex (\<lambda>p. p_runlevel p = 1) ps \<longleftrightarrow> 1 \<in> set (map p_runlevel ps)"
    by (auto simp: list_ex_iff)
  have "?l = map p_runlevel (s_platforms (pv_platforms_default_runlevel (s\<lparr>s_platforms := ps\<rparr>)))"
    by (simp add: pv_state_validate_def pv_platforms_add_all_loggers_def o_def
        pv_platforms_remove_not_installed_def ps_def)
  also have "\<dots> = map (\<lambda>r. if r < 0 then 2 else r)
      (map p_runlevel (if list_ex (\<lambda>p. p_runlevel p = 1) ps then ps else set_first_unset 1 ps))"
    by (auto simp: pv_platforms_default_runlevel_def runlevel_defs Let_def)
  also have "\<dots> = ?r"
    unfolding root ps_def [symmetric] Let_def
    by (simp only: first Let_def if_distrib [of "map p_runlevel"]) auto
  finally show ?thesis .
qed

text \<open>After \<open>pv_state_validate\<close> every platform has a logger, and no logger configuration is left.\<close>
theorem validate_loggers:
  "list_all (\<lambda>p. p_loggers p \<noteq> [] \<and> p_logger_configs p = []) (s_platforms (pv_state_validate s))"
proof -
  have dflt: "config_item (default_logger f n) ''lxc'' = None" "config_item (default_logger f n) ''console'' = None" for f n
    by (simp_all add: config_item_def default_logger_def strneq_def)
  have new: "p_loggers (fst (pv_add_platform_logger p (default_logger f n))) \<noteq> [] \<and>
      p_logger_configs (fst (pv_add_platform_logger p (default_logger f n))) = p_logger_configs p" for p f n
    by (simp add: pv_add_platform_logger_def pv_new_log_def dflt Let_def)
  have "p_loggers (add_loggers p) \<noteq> [] \<and> p_logger_configs (add_loggers p) = []" for p
  proof -
    obtain q d where q: "add_configured p (p_logger_configs p) True = (q, d)"
      by (cases "add_configured p (p_logger_configs p) True")
    with new add_configured_fields [OF q] show ?thesis by (simp add: add_loggers_def Let_def)
  qed
  then show ?thesis
    by (simp add: pv_state_validate_def pv_platforms_add_all_loggers_def list_all_iff)
qed

end
