(* ===== verification/StateOps.thy ===== *)
theory StateOps
  imports StateData
begin

text \<open>
  \<open>state.c\<close>: how an update moves into a running revision. \<open>pv_state_transfer\<close> drops everything of
  the old revision that is not running and takes over from the new one the platforms that are
  missing; \<open>pv_state_compare_states\<close> computes the lowest runlevel that a change affects.
\<close>

section \<open>Transfer\<close>

text \<open>A list is split by a test that follows pointers: what stays, and what is taken out.\<close>

fun split_o :: "('x \<Rightarrow> bool outcome) \<Rightarrow> 'x list \<Rightarrow> ('x list \<times> 'x list) outcome" where
  "split_o P [] = Done ([], [])"
| "split_o P (x # xs) =
     (case P x of Fault \<Rightarrow> Fault
      | Done b \<Rightarrow> (case split_o P xs of Fault \<Rightarrow> Fault
          | Done (a, c) \<Rightarrow> Done (if b then (x # a, c) else (a, x # c))))"

text \<open>\<open>!j->plat || (j->plat->status == PLAT_STARTED)\<close>, where \<open>plat\<close> may dangle.\<close>

definition link_keeps :: "platform list \<Rightarrow> nat option \<Rightarrow> bool outcome" where
  "link_keeps ps pl =
     (case pl of None \<Rightarrow> Done True
      | Some a \<Rightarrow> (case plat_at ps a of None \<Rightarrow> Fault | Some p \<Rightarrow> Done (p_status p = PLAT_STARTED)))"

definition pv_state_remove_platforms :: "pv_state \<Rightarrow> pv_state outcome" where
  "pv_state_remove_platforms out =
     (let ps = s_platforms out in
      case split_o (\<lambda>j. link_keeps ps (j_plat j)) (s_jsons out) of Fault \<Rightarrow> Fault | Done (js, _) \<Rightarrow>
      (case split_o (\<lambda>ob. link_keeps ps (o_plat ob)) (s_objects out) of Fault \<Rightarrow> Fault | Done (os, _) \<Rightarrow>
      (case split_o (\<lambda>v. link_keeps ps (v_plat v)) (s_volumes out) of Fault \<Rightarrow> Fault | Done (vs, _) \<Rightarrow>
      Done (out\<lparr>s_jsons := js, s_objects := os, s_volumes := vs,
                s_platforms := filter (\<lambda>p. p_status p = PLAT_STARTED) ps\<rparr>))))"

text \<open>\<open>!j->plat || pv_platform_get_by_name(out, j->plat->name)\<close>.\<close>

definition link_stays :: "platform list \<Rightarrow> platform list \<Rightarrow> nat option \<Rightarrow> bool outcome" where
  "link_stays ins outs pl =
     (case pl of None \<Rightarrow> Done True
      | Some a \<Rightarrow> (case plat_at ins a of None \<Rightarrow> Fault
          | Some p \<Rightarrow> Done (plat_by_name outs (p_name p) \<noteq> None)))"

fun move_platforms :: "platform list \<Rightarrow> platform list \<Rightarrow> platform list \<times> platform list" where
  "move_platforms [] outs = ([], outs)"
| "move_platforms (p # ps) outs =
     (if plat_by_name outs (p_name p) \<noteq> None
      then (let (i, ou) = move_platforms ps outs in (p # i, ou))
      else move_platforms ps (outs @ [p]))"

definition pv_state_transfer_platforms :: "pv_state \<Rightarrow> pv_state \<Rightarrow> (pv_state \<times> pv_state) outcome" where
  "pv_state_transfer_platforms inn out =
     (let ins = s_platforms inn; outs = s_platforms out in
      case split_o (\<lambda>j. link_stays ins outs (j_plat j)) (s_jsons inn) of Fault \<Rightarrow> Fault | Done (ij, oj) \<Rightarrow>
      (case split_o (\<lambda>ob. link_stays ins outs (o_plat ob)) (s_objects inn) of Fault \<Rightarrow> Fault | Done (io, oo) \<Rightarrow>
      (case split_o (\<lambda>v. link_stays ins outs (v_plat v)) (s_volumes inn) of Fault \<Rightarrow> Fault | Done (iv, ov) \<Rightarrow>
      (let (ip, op) = move_platforms ins outs in
       Done (inn\<lparr>s_jsons := ij, s_objects := io, s_volumes := iv, s_platforms := ip\<rparr>,
             out\<lparr>s_jsons := s_jsons out @ oj, s_objects := s_objects out @ oo,
                 s_volumes := s_volumes out @ ov, s_platforms := op\<rparr>)))))"

definition pv_state_transfer :: "pv_state \<Rightarrow> pv_state \<Rightarrow> (pv_state \<times> pv_state) outcome" where
  "pv_state_transfer inn out =
     (case pv_state_remove_platforms out of Fault \<Rightarrow> Fault
      | Done out1 \<Rightarrow> (case pv_state_transfer_platforms inn out1 of Fault \<Rightarrow> Fault
          | Done (inn', out2) \<Rightarrow> Done (inn', out2\<lparr>s_rev := s_rev inn\<rparr>)))"

text \<open>No pointer of a state dangles, and no two platforms share an address.\<close>

definition links_ok :: "platform list \<Rightarrow> nat option list \<Rightarrow> bool" where
  "links_ok ps ls \<longleftrightarrow> list_all (\<lambda>l. case l of None \<Rightarrow> True | Some a \<Rightarrow> a \<in> p_addr ` set ps) ls"

definition state_links :: "pv_state \<Rightarrow> nat option list" where
  "state_links s = map o_plat (s_objects s) @ map j_plat (s_jsons s) @ map v_plat (s_volumes s)"

definition state_wf :: "pv_state \<Rightarrow> bool" where
  "state_wf s \<longleftrightarrow> distinct (map p_addr (s_platforms s)) \<and> links_ok (s_platforms s) (state_links s)"

text \<open>What the split computes when nothing dangles.\<close>

definition keeps :: "platform list \<Rightarrow> nat option \<Rightarrow> bool" where
  "keeps ps l = (case l of None \<Rightarrow> True | Some a \<Rightarrow> a \<in> p_addr ` {p \<in> set ps. p_status p = PLAT_STARTED})"

definition moves :: "platform list \<Rightarrow> string set \<Rightarrow> nat option \<Rightarrow> bool" where
  "moves ins ns l = (case l of None \<Rightarrow> False | Some a \<Rightarrow> a \<in> p_addr ` {p \<in> set ins. p_name p \<notin> ns})"

lemma split_o_filter:
  "\<forall>x\<in>set xs. P x = Done (q x) \<Longrightarrow> split_o P xs = Done (filter q xs, filter (\<lambda>x. \<not> q x) xs)"
  by (induction xs) auto

lemma plat_at_inj:
  "distinct (map p_addr ps) \<Longrightarrow> p \<in> set ps \<Longrightarrow> p' \<in> set ps \<Longrightarrow> p_addr p = p_addr p' \<Longrightarrow> p = p'"
  by (auto simp: distinct_map inj_on_def)

lemma addr_image:
  assumes "distinct (map p_addr ps)" "p \<in> set ps"
  shows "p_addr p \<in> p_addr ` {q \<in> set ps. P q} \<longleftrightarrow> P p"
proof
  assume "p_addr p \<in> p_addr ` {q \<in> set ps. P q}"
  then obtain q where "q \<in> set ps" "P q" "p_addr p = p_addr q" by auto
  with plat_at_inj [OF assms, of q] show "P p" by simp
qed (use assms(2) in simp)

lemma link_cases:
  assumes "distinct (map p_addr ps)" "links_ok ps ls" "Some a \<in> set ls"
  obtains p where "p \<in> set ps" "p_addr p = a" "plat_at ps a = Some p"
proof -
  have "a \<in> p_addr ` set ps" using assms(2,3) by (auto simp: links_ok_def list_all_iff)
  with assms(1) show thesis using plat_at_distinct [of ps] that by auto
qed

lemma link_keeps_ok:
  assumes d: "distinct (map p_addr ps)" and l: "links_ok ps ls" "l \<in> set ls"
  shows "link_keeps ps l = Done (keeps ps l)"
proof (cases l)
  case None
  then show ?thesis by (simp add: link_keeps_def keeps_def)
next
  case (Some a)
  then obtain p where "p \<in> set ps" "p_addr p = a" "plat_at ps a = Some p"
    using link_cases [OF d l(1), of a] l(2) by blast
  moreover from this addr_image [OF d, of p "\<lambda>q. p_status q = PLAT_STARTED"]
  have "keeps ps l \<longleftrightarrow> p_status p = PLAT_STARTED" using Some by (simp add: keeps_def)
  ultimately show ?thesis using Some by (simp add: link_keeps_def)
qed

lemma link_stays_ok:
  assumes d: "distinct (map p_addr ins)" and l: "links_ok ins ls" "l \<in> set ls"
  shows "link_stays ins outs l = Done (\<not> moves ins (p_name ` set outs) l)"
proof (cases l)
  case None
  then show ?thesis by (simp add: link_stays_def moves_def)
next
  case (Some a)
  then obtain p where "p \<in> set ins" "p_addr p = a" "plat_at ins a = Some p"
    using link_cases [OF d l(1), of a] l(2) by blast
  moreover from this addr_image [OF d, of p "\<lambda>q. p_name q \<notin> p_name ` set outs"]
  have "moves ins (p_name ` set outs) l \<longleftrightarrow> p_name p \<notin> p_name ` set outs" using Some by (simp add: moves_def)
  ultimately show ?thesis using Some plat_by_name_None [of outs "p_name p"] by (simp add: link_stays_def)
qed

lemma move_platforms_distinct:
  "distinct (map p_name ins) \<Longrightarrow>
   move_platforms ins outs = (filter (\<lambda>p. p_name p \<in> p_name ` set outs) ins,
                              outs @ filter (\<lambda>p. p_name p \<notin> p_name ` set outs) ins)"
proof (induction ins arbitrary: outs)
  case (Cons p ins)
  show ?case
  proof (cases "plat_by_name outs (p_name p) = None")
    case True
    then have n: "p_name p \<notin> p_name ` set outs" by (simp add: plat_by_name_None)
    have ne: "p_name q \<noteq> p_name p" if "q \<in> set ins" for q using Cons.prems that by (auto simp: image_iff)
    have "filter (\<lambda>q. p_name q \<in> p_name ` set (outs @ [p])) ins = filter (\<lambda>q. p_name q \<in> p_name ` set outs) ins"
      "filter (\<lambda>q. p_name q \<notin> p_name ` set (outs @ [p])) ins = filter (\<lambda>q. p_name q \<notin> p_name ` set outs) ins"
      by (rule filter_cong; simp add: ne)+
    with True n Cons show ?thesis by simp
  next
    case False
    then have "p_name p \<in> p_name ` set outs" by (simp add: plat_by_name_None)
    with False Cons show ?thesis by simp
  qed
qed simp

lemma split_links:
  assumes d: "distinct (map p_addr ps)" and l: "links_ok ps ls" "set (map f xs) \<subseteq> set ls"
  shows "split_o (\<lambda>x. link_keeps ps (f x)) xs = Done (filter (\<lambda>x. keeps ps (f x)) xs, filter (\<lambda>x. \<not> keeps ps (f x)) xs)"
    and "split_o (\<lambda>x. link_stays ps outs (f x)) xs =
      Done (filter (\<lambda>x. \<not> moves ps (p_name ` set outs) (f x)) xs, filter (\<lambda>x. moves ps (p_name ` set outs) (f x)) xs)"
proof -
  have m: "f x \<in> set ls" if "x \<in> set xs" for x using l(2) that by auto
  show "split_o (\<lambda>x. link_keeps ps (f x)) xs = Done (filter (\<lambda>x. keeps ps (f x)) xs, filter (\<lambda>x. \<not> keeps ps (f x)) xs)"
    by (rule split_o_filter) (use link_keeps_ok [OF d l(1)] m in blast)
  have "split_o (\<lambda>x. link_stays ps outs (f x)) xs =
      Done (filter (\<lambda>x. \<not> moves ps (p_name ` set outs) (f x)) xs, filter (\<lambda>x. \<not> \<not> moves ps (p_name ` set outs) (f x)) xs)"
    by (rule split_o_filter) (use link_stays_ok [OF d l(1)] m in blast)
  then show "split_o (\<lambda>x. link_stays ps outs (f x)) xs =
      Done (filter (\<lambda>x. \<not> moves ps (p_name ` set outs) (f x)) xs, filter (\<lambda>x. moves ps (p_name ` set outs) (f x)) xs)"
    by simp
qed

text \<open>The revision after the transfer, as one expression.\<close>

definition running :: "pv_state \<Rightarrow> platform list" where
  "running s = filter (\<lambda>p. p_status p = PLAT_STARTED) (s_platforms s)"

definition run_names :: "pv_state \<Rightarrow> string set" where
  "run_names s = p_name ` set (running s)"

definition transferred :: "pv_state \<Rightarrow> pv_state \<Rightarrow> pv_state" where
  "transferred inn out =
     (let mv = moves (s_platforms inn) (run_names out); kp = keeps (s_platforms out) in
      out\<lparr>s_rev := s_rev inn,
          s_platforms := running out @ filter (\<lambda>p. p_name p \<notin> run_names out) (s_platforms inn),
          s_objects := filter (\<lambda>ob. kp (o_plat ob)) (s_objects out) @ filter (\<lambda>ob. mv (o_plat ob)) (s_objects inn),
          s_jsons := filter (\<lambda>j. kp (j_plat j)) (s_jsons out) @ filter (\<lambda>j. mv (j_plat j)) (s_jsons inn),
          s_volumes := filter (\<lambda>v. kp (v_plat v)) (s_volumes out) @ filter (\<lambda>v. mv (v_plat v)) (s_volumes inn)\<rparr>)"

lemma links_subset:
  "set (map o_plat (s_objects s)) \<subseteq> set (state_links s)" "set (map j_plat (s_jsons s)) \<subseteq> set (state_links s)"
  "set (map v_plat (s_volumes s)) \<subseteq> set (state_links s)"
  by (auto simp: state_links_def)

lemma transfer_computes:
  assumes "state_wf inn" "state_wf out" "distinct (map p_name (s_platforms inn))"
  shows "\<exists>inn'. pv_state_transfer inn out = Done (inn', transferred inn out)"
proof -
  have i: "distinct (map p_addr (s_platforms inn))" "links_ok (s_platforms inn) (state_links inn)"
    and o: "distinct (map p_addr (s_platforms out))" "links_ok (s_platforms out) (state_links out)"
    using assms by (simp_all add: state_wf_def)
  show ?thesis
    by (simp add: pv_state_transfer_def pv_state_remove_platforms_def pv_state_transfer_platforms_def Let_def
        split_links(1) [OF o links_subset(1)] split_links(1) [OF o links_subset(2)] split_links(1) [OF o links_subset(3)]
        split_links(2) [OF i links_subset(1)] split_links(2) [OF i links_subset(2)] split_links(2) [OF i links_subset(3)]
        move_platforms_distinct [OF assms(3)] transferred_def running_def run_names_def)
qed

lemma keeps_links: "keeps ps l \<Longrightarrow> links_ok (filter (\<lambda>p. p_status p = PLAT_STARTED) ps @ qs) [l]"
  by (auto simp: keeps_def links_ok_def split: option.splits)

lemma moves_links: "moves ps ns l \<Longrightarrow> links_ok (qs @ filter (\<lambda>p. p_name p \<notin> ns) ps) [l]"
  by (auto simp: moves_def links_ok_def split: option.splits)

lemma links_ok_all: "links_ok ps ls \<longleftrightarrow> (\<forall>l\<in>set ls. links_ok ps [l])"
  by (auto simp: links_ok_def list_all_iff)

lemma transferred_wf:
  assumes "state_wf inn" "state_wf out" "p_addr ` set (s_platforms inn) \<inter> p_addr ` set (s_platforms out) = {}"
  shows "state_wf (transferred inn out)"
proof -
  have "distinct (map p_addr (s_platforms (transferred inn out)))"
    using assms by (auto simp: transferred_def Let_def running_def state_wf_def distinct_map_filter)
  moreover have "links_ok (s_platforms (transferred inn out)) [l]" if "l \<in> set (state_links (transferred inn out))" for l
  proof -
    from that have "keeps (s_platforms out) l \<or> moves (s_platforms inn) (run_names out) l"
      by (auto simp: transferred_def Let_def state_links_def)
    then show ?thesis
      using keeps_links moves_links by (auto simp: transferred_def Let_def running_def)
  qed
  ultimately show ?thesis by (auto simp: state_wf_def links_ok_all [of _ "state_links _"])
qed

section \<open>Comparison\<close>

text \<open>
  Objects and jsons are compared by the same two loops: an item is its name, its id or value, and
  its platform. A loop returns 0 at once (\<open>Ret\<close>), goes on with the runlevel and the platforms of the
  running revision, some of them marked (\<open>Go\<close>), or follows a pointer that is \<open>NULL\<close> or dangles (\<open>Bad\<close>).
\<close>

type_synonym item = "string \<times> string \<times> nat option"

datatype cmp = Ret "platform list" | Go int "platform list" | Bad

definition object_items :: "pv_state \<Rightarrow> item list" where
  "object_items s = map (\<lambda>ob. (o_name ob, o_id ob, o_plat ob)) (s_objects s)"

definition json_items :: "pv_state \<Rightarrow> item list" where
  "json_items s = map (\<lambda>j. (j_name j, j_value j, j_plat j)) (s_jsons s)"

definition item_by_name :: "item list \<Rightarrow> string \<Rightarrow> item option" where
  "item_by_name xs n = find (\<lambda>(m, _). m = n) xs"

definition mark_updated :: "platform list \<Rightarrow> nat \<Rightarrow> platform list" where
  "mark_updated ps a = map (\<lambda>p. if p_addr p = a then p\<lparr>p_updated := True\<rparr> else p) ps"

fun cmp_platforms :: "platform list \<Rightarrow> platform list \<Rightarrow> int \<Rightarrow> platform list \<Rightarrow> cmp" where
  "cmp_platforms pend [] rl cur = Go rl cur"
| "cmp_platforms pend (p # ps) rl cur =
     (case plat_by_name pend (p_name p) of
        Some q \<Rightarrow> (if p_runlevel q \<noteq> p_runlevel p then Ret cur else cmp_platforms pend ps rl cur)
      | None \<Rightarrow> cmp_platforms pend ps (if p_runlevel p < rl then p_runlevel p else rl) (mark_updated cur (p_addr p)))"

definition item_changed :: "item list \<Rightarrow> item \<Rightarrow> bool" where
  "item_changed others x = (case item_by_name others (fst x) of None \<Rightarrow> True | Some (_, v, _) \<Rightarrow> fst (snd x) \<noteq> v)"

text \<open>\<open>curr_o->plat->updated = true\<close>, when there is a \<open>curr_o\<close>.\<close>

definition mark_counterpart :: "item option \<Rightarrow> platform list \<Rightarrow> platform list option" where
  "mark_counterpart co cur =
     (case co of None \<Rightarrow> Some cur
      | Some (_, _, None) \<Rightarrow> None
      | Some (_, _, Some c) \<Rightarrow> (if plat_at cur c = None then None else Some (mark_updated cur c)))"

fun cmp_changed :: "platform list \<Rightarrow> item list \<Rightarrow> item list \<Rightarrow> int \<Rightarrow> platform list \<Rightarrow> cmp" where
  "cmp_changed pend others [] rl cur = Go rl cur"
| "cmp_changed pend others (x # xs) rl cur =
     (if \<not> item_changed others x then cmp_changed pend others xs rl cur
      else (case snd (snd x) of None \<Rightarrow> Ret cur
        | Some a \<Rightarrow>
            (case mark_counterpart (item_by_name others (fst x)) cur of None \<Rightarrow> Bad
             | Some cur' \<Rightarrow>
                 (case plat_at pend a of None \<Rightarrow> Bad
                  | Some p \<Rightarrow> cmp_changed pend others xs (if p_runlevel p < rl then p_runlevel p else rl) cur'))))"

fun cmp_deleted :: "item list \<Rightarrow> item list \<Rightarrow> int \<Rightarrow> platform list \<Rightarrow> cmp" where
  "cmp_deleted others [] rl cur = Go rl cur"
| "cmp_deleted others (x # xs) rl cur =
     (if item_by_name others (fst x) \<noteq> None then cmp_deleted others xs rl cur
      else (case snd (snd x) of None \<Rightarrow> Ret cur
        | Some a \<Rightarrow>
            (case plat_at cur a of None \<Rightarrow> Bad
             | Some p \<Rightarrow> cmp_deleted others xs (if p_runlevel p < rl then p_runlevel p else rl) (mark_updated cur a))))"

definition cmp_then :: "cmp \<Rightarrow> (int \<Rightarrow> platform list \<Rightarrow> cmp) \<Rightarrow> cmp" where
  "cmp_then c f = (case c of Ret cur \<Rightarrow> Ret cur | Go rl cur \<Rightarrow> f rl cur | Bad \<Rightarrow> Bad)"

definition cmp_all :: "pv_state \<Rightarrow> pv_state \<Rightarrow> cmp" where
  "cmp_all pend cur =
     cmp_then (cmp_platforms (s_platforms pend) (s_platforms cur) MAX_RUNLEVEL (s_platforms cur)) (\<lambda>r1 c1.
     cmp_then (cmp_changed (s_platforms pend) (object_items cur) (object_items pend) r1 c1) (\<lambda>r2 c2.
     cmp_then (cmp_deleted (object_items pend) (object_items cur) r2 c2) (\<lambda>r3 c3.
     cmp_then (cmp_changed (s_platforms pend) (json_items cur) (json_items pend) r3 c3) (\<lambda>r4 c4.
     cmp_deleted (json_items pend) (json_items cur) r4 c4))))"

text \<open>The result and the running revision with its marks.\<close>

definition pv_state_compare_states :: "pv_state option \<Rightarrow> pv_state option \<Rightarrow> (int \<times> pv_state option) outcome" where
  "pv_state_compare_states pending current =
     (case (pending, current) of
        (Some p, Some c) \<Rightarrow>
          (case cmp_all p c of Bad \<Rightarrow> Fault
           | Ret ps \<Rightarrow> Done (0, Some (c\<lparr>s_platforms := ps\<rparr>))
           | Go rl ps \<Rightarrow> Done (rl, Some (c\<lparr>s_platforms := ps\<rparr>)))
      | _ \<Rightarrow> Done (0, current))"

section \<open>What the comparison computes\<close>

text \<open>A change that needs a reboot, and the runlevels of the platforms that changed.\<close>

definition runlevel_clash :: "platform list \<Rightarrow> platform list \<Rightarrow> bool" where
  "runlevel_clash pend cur = list_ex (\<lambda>p. case plat_by_name pend (p_name p) of None \<Rightarrow> False
     | Some q \<Rightarrow> p_runlevel q \<noteq> p_runlevel p) cur"

definition global_item :: "(item \<Rightarrow> bool) \<Rightarrow> item list \<Rightarrow> bool" where
  "global_item ch xs = list_ex (\<lambda>x. ch x \<and> snd (snd x) = None) xs"

definition item_deleted :: "item list \<Rightarrow> item \<Rightarrow> bool" where
  "item_deleted others x \<longleftrightarrow> item_by_name others (fst x) = None"

definition item_runlevels :: "(item \<Rightarrow> bool) \<Rightarrow> platform list \<Rightarrow> item list \<Rightarrow> int list" where
  "item_runlevels ch ps xs =
     concat (map (\<lambda>x. if ch x then (case snd (snd x) of None \<Rightarrow> []
         | Some a \<Rightarrow> (case plat_at ps a of None \<Rightarrow> [] | Some p \<Rightarrow> [p_runlevel p])) else []) xs)"

definition reboot_change :: "pv_state \<Rightarrow> pv_state \<Rightarrow> bool" where
  "reboot_change pend cur \<longleftrightarrow>
     runlevel_clash (s_platforms pend) (s_platforms cur) \<or>
     global_item (item_changed (object_items cur)) (object_items pend) \<or>
     global_item (item_deleted (object_items pend)) (object_items cur) \<or>
     global_item (item_changed (json_items cur)) (json_items pend) \<or>
     global_item (item_deleted (json_items pend)) (json_items cur)"

definition affected_runlevels :: "pv_state \<Rightarrow> pv_state \<Rightarrow> int list" where
  "affected_runlevels pend cur =
     map p_runlevel (filter (\<lambda>p. plat_by_name (s_platforms pend) (p_name p) = None) (s_platforms cur)) @
     item_runlevels (item_changed (object_items cur)) (s_platforms pend) (object_items pend) @
     item_runlevels (item_deleted (object_items pend)) (s_platforms cur) (object_items cur) @
     item_runlevels (item_changed (json_items cur)) (s_platforms pend) (json_items pend) @
     item_runlevels (item_deleted (json_items pend)) (s_platforms cur) (json_items cur)"

text \<open>No item moves from the base system to a platform under its name, so no \<open>NULL\<close> is followed.\<close>

definition counterparts_ok :: "item list \<Rightarrow> item list \<Rightarrow> bool" where
  "counterparts_ok others xs =
     list_all (\<lambda>x. snd (snd x) \<noteq> None \<longrightarrow>
       (case item_by_name others (fst x) of None \<Rightarrow> True | Some (_, _, c) \<Rightarrow> c \<noteq> None)) xs"

definition comparable :: "pv_state \<Rightarrow> pv_state \<Rightarrow> bool" where
  "comparable pend cur \<longleftrightarrow> state_wf pend \<and> state_wf cur \<and>
     counterparts_ok (object_items cur) (object_items pend) \<and> counterparts_ok (json_items cur) (json_items pend)"

text \<open>Marking changes no address and no runlevel.\<close>

definition same_plats :: "platform list \<Rightarrow> platform list \<Rightarrow> bool" where
  "same_plats ps qs \<longleftrightarrow> map p_addr ps = map p_addr qs \<and> map p_runlevel ps = map p_runlevel qs"

lemma same_mark: "same_plats ps qs \<Longrightarrow> same_plats (mark_updated ps a) qs"
  by (auto simp: same_plats_def mark_updated_def comp_def if_distrib cong: if_cong)

lemma same_plat_at:
  "same_plats ps qs \<Longrightarrow> map_option p_runlevel (plat_at ps a) = map_option p_runlevel (plat_at qs a)"
proof (induction ps arbitrary: qs)
  case (Cons p ps)
  then show ?case by (cases qs) (auto simp: same_plats_def plat_at_def)
qed (auto simp: same_plats_def)

lemma plat_at_links: "links_ok ps [Some a] \<Longrightarrow> \<exists>p. plat_at ps a = Some p"
  using plat_at_None [of ps a] by (auto simp: links_ok_def)

text \<open>The platforms that a loop marks.\<close>

definition marked :: "platform list \<Rightarrow> nat set" where
  "marked ps = p_addr ` {p \<in> set ps. p_updated p}"

definition item_plat :: "item option \<Rightarrow> nat set" where
  "item_plat co = (case co of Some (_, _, Some c) \<Rightarrow> {c} | _ \<Rightarrow> {})"

fun changed_marks :: "item list \<Rightarrow> item list \<Rightarrow> nat set" where
  "changed_marks others [] = {}"
| "changed_marks others (x # xs) =
     (if item_changed others x then item_plat (item_by_name others (fst x)) else {}) \<union> changed_marks others xs"

fun deleted_marks :: "item list \<Rightarrow> item list \<Rightarrow> nat set" where
  "deleted_marks others [] = {}"
| "deleted_marks others (x # xs) =
     (if item_deleted others x then item_plat (Some x) else {}) \<union> deleted_marks others xs"

lemma marked_Cons: "marked [] = {}" "marked (p # ps) = (if p_updated p then {p_addr p} else {}) \<union> marked ps"
  by (auto simp: marked_def)

lemma marked_mark: "a \<in> p_addr ` set ps \<Longrightarrow> marked (mark_updated ps a) = insert a (marked ps)"
proof -
  have "marked (mark_updated ps a) = marked ps \<union> (if a \<in> p_addr ` set ps then {a} else {})"
    by (induction ps) (auto simp: marked_Cons mark_updated_def)
  then show "a \<in> p_addr ` set ps \<Longrightarrow> ?thesis" by auto
qed

lemma same_addrs: "same_plats ps qs \<Longrightarrow> p_addr ` set ps = p_addr ` set qs"
  by (metis same_plats_def set_map)

text \<open>A loop stops, or goes on with the minimum over its runlevels and with its marks added.\<close>

definition cmp_is :: "cmp \<Rightarrow> platform list \<Rightarrow> platform list \<Rightarrow> bool \<Rightarrow> int \<Rightarrow> int list \<Rightarrow> nat set \<Rightarrow> bool" where
  "cmp_is c cur0 cur stop rl rls ms \<longleftrightarrow>
     (if stop then \<exists>c'. c = Ret c'
      else \<exists>c'. c = Go (foldl min rl rls) c' \<and> same_plats c' cur0 \<and> marked c' = marked cur \<union> ms)"

lemma cmp_platforms_is:
  assumes "same_plats cur cur0" "set ps \<subseteq> set cur0"
  shows "cmp_is (cmp_platforms pend ps rl cur) cur0 cur (runlevel_clash pend ps) rl
    (map p_runlevel (filter (\<lambda>p. plat_by_name pend (p_name p) = None) ps))
    {p_addr p | p. p \<in> set ps \<and> plat_by_name pend (p_name p) = None}"
  using assms
proof (induction ps arbitrary: rl cur)
  case Nil
  then show ?case by (simp add: cmp_is_def runlevel_clash_def)
next
  case (Cons p ps)
  show ?case
  proof (cases "plat_by_name pend (p_name p)")
    case None
    let ?rl = "if p_runlevel p < rl then p_runlevel p else rl"
    have rl: "?rl = min rl (p_runlevel p)" by simp
    have "p_addr p \<in> p_addr ` set cur" using Cons.prems same_addrs by auto
    then have mk: "marked (mark_updated cur (p_addr p)) = insert (p_addr p) (marked cur)"
      by (rule marked_mark)
    have "cmp_is (cmp_platforms pend ps ?rl (mark_updated cur (p_addr p))) cur0 (mark_updated cur (p_addr p))
       (runlevel_clash pend ps) ?rl (map p_runlevel (filter (\<lambda>p. plat_by_name pend (p_name p) = None) ps))
       {p_addr p | p. p \<in> set ps \<and> plat_by_name pend (p_name p) = None}"
      using Cons.prems same_mark by (intro Cons.IH) auto
    with None show ?thesis
      by (auto simp: cmp_is_def runlevel_clash_def mk rl split: if_splits)
  next
    case (Some q)
    show ?thesis
    proof (cases "p_runlevel q = p_runlevel p")
      case True
      with Some Cons.IH [OF Cons.prems(1), of rl] Cons.prems(2) show ?thesis
        by (auto simp: cmp_is_def runlevel_clash_def split: if_splits)
    next
      case False
      with Some show ?thesis by (simp add: cmp_is_def runlevel_clash_def)
    qed
  qed
qed

lemma cmp_changed_is:
  assumes "same_plats cur cur0" "links_ok pend (map (\<lambda>x. snd (snd x)) xs)"
    and "links_ok cur0 (map (\<lambda>x. snd (snd x)) others)" "counterparts_ok others xs"
  shows "cmp_is (cmp_changed pend others xs rl cur) cur0 cur (global_item (item_changed others) xs) rl
    (item_runlevels (item_changed others) pend xs) (changed_marks others xs)"
  using assms(1,2,4)
proof (induction xs arbitrary: rl cur)
  case Nil
  then show ?case by (simp add: cmp_is_def global_item_def item_runlevels_def)
next
  case (Cons x xs)
  obtain n v l where x: "x = (n, v, l)" by (cases x) auto
  have links: "links_ok pend (map (\<lambda>x. snd (snd x)) xs)" "counterparts_ok others xs"
    using Cons.prems by (simp_all add: links_ok_def counterparts_ok_def)
  show ?case
  proof (cases "item_changed others x")
    case False
    with Cons.IH [OF Cons.prems(1) links, of rl] show ?thesis
      by (simp add: cmp_is_def global_item_def item_runlevels_def)
  next
    case ch: True
    show ?thesis
    proof (cases l)
      case None
      with ch x show ?thesis by (simp add: cmp_is_def global_item_def)
    next
      case (Some a)
      have "links_ok pend [Some a]" using Cons.prems(2) x Some by (simp add: links_ok_def)
      then obtain p where p: "plat_at pend a = Some p" using plat_at_links by blast
      let ?rl = "if p_runlevel p < rl then p_runlevel p else rl"
      have rl: "?rl = min rl (p_runlevel p)" by simp
      obtain cur' ms where c: "mark_counterpart (item_by_name others n) cur = Some cur'"
        "same_plats cur' cur0" "marked cur' = marked cur \<union> ms"
        "ms = item_plat (item_by_name others n)"
      proof (cases "item_by_name others n")
        case None
        with Cons.prems(1) that [of cur "{}"] show ?thesis by (simp add: mark_counterpart_def item_plat_def)
      next
        case (Some y)
        then obtain m w k where y: "y = (m, w, Some k)"
          using Cons.prems(3) x \<open>l = Some a\<close> by (cases y) (auto simp: counterparts_ok_def)
        have "y \<in> set others" using Some find_Some_in unfolding item_by_name_def by fast
        then have "k \<in> p_addr ` set cur0" using assms(3) y by (fastforce simp: links_ok_def list_all_iff)
        then have k: "k \<in> p_addr ` set cur" using same_addrs [OF Cons.prems(1)] by simp
        then have pk: "plat_at cur k \<noteq> None" by (simp add: plat_at_None)
        show ?thesis
        proof (rule that [of "mark_updated cur k" "{k}"])
          show "mark_counterpart (item_by_name others n) cur = Some (mark_updated cur k)"
            using Some y pk by (simp add: mark_counterpart_def)
          show "marked (mark_updated cur k) = marked cur \<union> {k}" using marked_mark [OF k] by simp
          show "{k} = item_plat (item_by_name others n)" using Some y by (simp add: item_plat_def)
        qed (rule same_mark [OF Cons.prems(1)])
      qed
      have ih: "cmp_is (cmp_changed pend others xs ?rl cur') cur0 cur' (global_item (item_changed others) xs) ?rl
          (item_runlevels (item_changed others) pend xs) (changed_marks others xs)"
        by (rule Cons.IH [OF c(2) links])
      have "cmp_changed pend others (x # xs) rl cur = cmp_changed pend others xs ?rl cur'"
        using ch x Some p c(1) by simp
      moreover have "item_runlevels (item_changed others) pend (x # xs) =
          p_runlevel p # item_runlevels (item_changed others) pend xs"
        using ch x Some p by (simp add: item_runlevels_def)
      moreover have "global_item (item_changed others) (x # xs) = global_item (item_changed others) xs"
        using x Some by (simp add: global_item_def)
      moreover have "changed_marks others (x # xs) = ms \<union> changed_marks others xs"
        using ch x c(4) by simp
      ultimately show ?thesis
        using ih c(3) by (simp only: cmp_is_def rl foldl_Cons Un_assoc)
    qed
  qed
qed

lemma cmp_deleted_is:
  assumes "same_plats cur cur0" "links_ok cur0 (map (\<lambda>x. snd (snd x)) xs)"
  shows "cmp_is (cmp_deleted others xs rl cur) cur0 cur (global_item (item_deleted others) xs) rl
    (item_runlevels (item_deleted others) cur0 xs) (deleted_marks others xs)"
  using assms
proof (induction xs arbitrary: rl cur)
  case Nil
  then show ?case by (simp add: cmp_is_def global_item_def item_runlevels_def)
next
  case (Cons x xs)
  obtain n v l where x: "x = (n, v, l)" by (cases x) auto
  have links: "links_ok cur0 (map (\<lambda>x. snd (snd x)) xs)"
    using Cons.prems by (simp add: links_ok_def)
  show ?case
  proof (cases "item_by_name others n")
    case (Some y)
    with x Cons.IH [OF Cons.prems(1) links, of rl] show ?thesis
      by (simp add: cmp_is_def global_item_def item_runlevels_def item_deleted_def)
  next
    case none: None
    show ?thesis
    proof (cases l)
      case None
      with none x show ?thesis by (simp add: cmp_is_def global_item_def item_deleted_def)
    next
      case (Some a)
      have "links_ok cur0 [Some a]" using Cons.prems(2) x Some by (simp add: links_ok_def)
      then obtain p0 where p0: "plat_at cur0 a = Some p0" using plat_at_links by blast
      with same_plat_at [OF Cons.prems(1), of a] obtain p where p: "plat_at cur a = Some p" "p_runlevel p = p_runlevel p0"
        by auto
      let ?rl = "if p_runlevel p < rl then p_runlevel p else rl"
      have rl: "?rl = min rl (p_runlevel p0)" using p by simp
      have "a \<in> p_addr ` set cur" using p plat_at_None [of cur a] by auto
      then have mk: "marked (mark_updated cur a) = insert a (marked cur)" by (rule marked_mark)
      have "cmp_is (cmp_deleted others xs ?rl (mark_updated cur a)) cur0 (mark_updated cur a)
         (global_item (item_deleted others) xs) ?rl (item_runlevels (item_deleted others) cur0 xs) (deleted_marks others xs)"
        by (rule Cons.IH [OF same_mark [OF Cons.prems(1)] links])
      with none x Some p p0 mk show ?thesis
        by (cases "global_item (item_deleted others) xs")
          (auto simp: cmp_is_def global_item_def item_runlevels_def item_deleted_def item_plat_def rl)
    qed
  qed
qed

lemma cmp_then_is:
  assumes "cmp_is c cur0 cur s1 rl l1 m1"
    and "\<And>r1 c1. same_plats c1 cur0 \<Longrightarrow> cmp_is (f r1 c1) cur0 c1 s2 r1 l2 m2"
  shows "cmp_is (cmp_then c f) cur0 cur (s1 \<or> s2) rl (l1 @ l2) (m1 \<union> m2)"
proof (cases s1)
  case True
  with assms(1) show ?thesis by (auto simp: cmp_is_def cmp_then_def)
next
  case False
  with assms(1) obtain c1 where c: "c = Go (foldl min rl l1) c1" "same_plats c1 cur0" "marked c1 = marked cur \<union> m1"
    by (auto simp: cmp_is_def)
  have "cmp_is (f (foldl min rl l1) c1) cur0 c1 s2 (foldl min rl l1) l2 m2" by (rule assms(2) [OF c(2)])
  with c False show ?thesis
    by (cases s2) (simp_all add: cmp_is_def cmp_then_def Un_assoc)
qed

definition all_marks :: "pv_state \<Rightarrow> pv_state \<Rightarrow> nat set" where
  "all_marks pend cur =
     {p_addr p | p. p \<in> set (s_platforms cur) \<and> plat_by_name (s_platforms pend) (p_name p) = None} \<union>
     (changed_marks (object_items cur) (object_items pend) \<union> (deleted_marks (object_items pend) (object_items cur) \<union>
     (changed_marks (json_items cur) (json_items pend) \<union> deleted_marks (json_items pend) (json_items cur))))"

lemma item_links:
  assumes "state_wf s"
  shows "links_ok (s_platforms s) (map (\<lambda>x. snd (snd x)) (object_items s))"
    "links_ok (s_platforms s) (map (\<lambda>x. snd (snd x)) (json_items s))"
  using assms by (auto simp: state_wf_def links_ok_def state_links_def object_items_def json_items_def list_all_iff)

lemma compare_is:
  assumes "comparable p c"
  shows "cmp_is (cmp_all p c) (s_platforms c) (s_platforms c) (reboot_change p c) MAX_RUNLEVEL
    (affected_runlevels p c) (all_marks p c)"
proof -
  have wf: "state_wf p" "state_wf c"
    and k: "counterparts_ok (object_items c) (object_items p)" "counterparts_ok (json_items c) (json_items p)"
    using assms by (simp_all add: comparable_def)
  note lp = item_links [OF wf(1)] and lc = item_links [OF wf(2)]
  have self: "same_plats (s_platforms c) (s_platforms c)" by (simp add: same_plats_def)
  show ?thesis
    unfolding cmp_all_def reboot_change_def affected_runlevels_def all_marks_def
    by (intro cmp_then_is cmp_platforms_is cmp_changed_is cmp_deleted_is self lp lc k) simp_all
qed

section \<open>Properties\<close>

text \<open>C9: For two well-formed revisions, platform names of the new one distinct, the transfer follows
  no dangling pointer and leaves the running revision well-formed: it holds the new revision's
  name, the platforms that run, then the platforms of the new revision whose name does not run, and
  of the objects, jsons and volumes exactly those that belong to these.\<close>
theorem transfer_spec:
  assumes "state_wf inn" "state_wf out" "distinct (map p_name (s_platforms inn))"
    and "p_addr ` set (s_platforms inn) \<inter> p_addr ` set (s_platforms out) = {}"
  shows "\<exists>inn'. pv_state_transfer inn out = Done (inn', transferred inn out) \<and> state_wf (transferred inn out)"
  using transfer_computes [OF assms(1-3)] transferred_wf [OF assms(1,2,4)] by blast

definition ex_plat :: "nat \<Rightarrow> string \<Rightarrow> plat_status \<Rightarrow> int \<Rightarrow> platform" where
  "ex_plat a n st r = (new_platform a n)\<lparr>p_status := st, p_runlevel := r\<rparr>"

definition ex_object :: "string \<Rightarrow> string \<Rightarrow> nat option \<Rightarrow> object" where
  "ex_object n i pl = \<lparr>o_name = n, o_id = i, o_geturl = None, o_objpath = [], o_relpath = [], o_size = 0,
     o_sha256 = None, o_plat = pl\<rparr>"

definition ex_old :: pv_state where
  "ex_old = (pv_state_new ''1'' SPEC_SYSTEM1)\<lparr>
     s_platforms := [ex_plat 1 ''os'' PLAT_STARTED 1, ex_plat 2 ''app'' PLAT_STOPPED 3],
     s_objects := [ex_object ''os/root.img'' ''a'' (Some 1), ex_object ''app/root.img'' ''b'' (Some 2)]\<rparr>"

definition ex_new :: pv_state where
  "ex_new = (pv_state_new ''2'' SPEC_SYSTEM1)\<lparr>
     s_platforms := [ex_plat 3 ''os'' PLAT_INSTALLED 1, ex_plat 4 ''app'' PLAT_INSTALLED 3],
     s_objects := [ex_object ''os/root.img'' ''a'' (Some 3), ex_object ''app/root.img'' ''c'' (Some 4)]\<rparr>"

lemmas ex_defs = ex_plat_def ex_object_def ex_old_def ex_new_def pv_state_new_def new_platform_def

theorem transfer_spec_witness:
  "\<exists>inn'. pv_state_transfer ex_new ex_old = Done (inn', transferred ex_new ex_old) \<and>
     state_wf (transferred ex_new ex_old)"
  by (rule transfer_spec) (simp_all add: ex_defs state_wf_def links_ok_def state_links_def)

text \<open>C20: The result of \<open>pv_state_compare_states\<close> is 0 when a runlevel, an object or a json of the
  base system changed, and else the least runlevel of the platforms that were deleted or have a
  changed, added or deleted object or json, at most \<open>MAX_RUNLEVEL\<close>.\<close>
theorem compare_runlevel:
  assumes "comparable p c"
  shows "\<exists>c'. pv_state_compare_states (Some p) (Some c) =
    Done (if reboot_change p c then 0 else foldl min MAX_RUNLEVEL (affected_runlevels p c), Some c')"
  using compare_is [OF assms] by (auto simp: cmp_is_def pv_state_compare_states_def)

theorem compare_runlevel_witness:
  "\<exists>c'. pv_state_compare_states (Some ex_new) (Some ex_old) = Done (3, Some c')"
proof -
  have c: "comparable ex_new ex_old"
    by (simp add: comparable_def ex_defs state_wf_def links_ok_def state_links_def counterparts_ok_def
        object_items_def json_items_def item_by_name_def)
  have r: "\<not> reboot_change ex_new ex_old"
    by (simp add: reboot_change_def runlevel_clash_def global_item_def ex_defs object_items_def json_items_def
        item_changed_def item_deleted_def item_by_name_def plat_by_name_def)
  have a: "affected_runlevels ex_new ex_old = [3]"
    by (simp add: affected_runlevels_def item_runlevels_def ex_defs object_items_def json_items_def
        item_changed_def item_deleted_def item_by_name_def plat_by_name_def plat_at_def)
  show ?thesis using compare_runlevel [OF c] r a by (simp add: MAX_RUNLEVEL_def)
qed

text \<open>Without a change that needs a reboot, the platforms that the comparison marks as updated are,
  besides those already marked, exactly the deleted ones, those of which an object or json was
  deleted and those of which one has another id or value; a platform to which an object or json was
  only added is not marked.\<close>
theorem compare_marks:
  assumes "comparable p c" "\<not> reboot_change p c"
  shows "\<exists>r c'. pv_state_compare_states (Some p) (Some c) = Done (r, Some c') \<and>
    marked (s_platforms c') = marked (s_platforms c) \<union> all_marks p c"
  using compare_is [OF assms(1)] assms(2) by (auto simp: cmp_is_def pv_state_compare_states_def)

definition ex_added :: pv_state where
  "ex_added = ex_new\<lparr>s_objects := [ex_object ''os/root.img'' ''a'' (Some 3), ex_object ''app/root.img'' ''b'' (Some 4),
     ex_object ''app/extra.img'' ''d'' (Some 4)]\<rparr>"

theorem compare_marks_witness:
  "\<exists>r c'. pv_state_compare_states (Some ex_added) (Some ex_old) = Done (r, Some c') \<and> marked (s_platforms c') = {}"
proof -
  have c: "comparable ex_added ex_old"
    by (simp add: comparable_def ex_defs ex_added_def state_wf_def links_ok_def state_links_def counterparts_ok_def
        object_items_def json_items_def item_by_name_def)
  have r: "\<not> reboot_change ex_added ex_old"
    by (simp add: reboot_change_def runlevel_clash_def global_item_def ex_defs ex_added_def object_items_def
        json_items_def item_changed_def item_deleted_def item_by_name_def plat_by_name_def)
  have a: "all_marks ex_added ex_old = {}"
    by (auto simp: all_marks_def ex_defs ex_added_def object_items_def json_items_def item_plat_def
        item_changed_def item_deleted_def item_by_name_def plat_by_name_def split: if_splits)
  have "marked (s_platforms ex_old) = {}" by (simp add: marked_Cons ex_defs)
  then show ?thesis using compare_marks [OF c r] a by simp
qed

end
