(* ===== verification/Timer.thy ===== *)
theory Timer
  imports Prelude
begin

text \<open>
  \<open>utils/timer.c\<close>: timers that the state machine and the updater ask for. The clocks of the kernel
  are a parameter. \<open>timer_start\<close> takes the clock of the type that the timer has, and does not
  store the type it is given.
\<close>

datatype timer_type = RELATIV_TIMER | ABSOLUTE_TIMER

record timespec =
  tv_sec :: int
  tv_nsec :: int

record timer =
  t_type :: timer_type
  t_timeout :: timespec

record timer_state =
  fin :: bool
  ts_sec :: int
  ts_nsec :: int

type_synonym clock = "timer_type \<Rightarrow> timespec"

definition timer_current_state :: "clock \<Rightarrow> timer \<Rightarrow> timer_state" where
  "timer_current_state ck t =
     (let now = ck (t_type t); to = t_timeout t;
          f = (tv_sec to < tv_sec now \<or> tv_sec now = tv_sec to \<and> tv_nsec to \<le> tv_nsec now)
      in if f
         then (if tv_nsec now < tv_nsec to
               then \<lparr>fin = True, ts_sec = tv_sec now - tv_sec to - 1, ts_nsec = tv_nsec to - tv_nsec now\<rparr>
               else \<lparr>fin = True, ts_sec = tv_sec now - tv_sec to, ts_nsec = tv_nsec now - tv_nsec to\<rparr>)
         else (if tv_nsec to < tv_nsec now
               then \<lparr>fin = False, ts_sec = tv_sec to - tv_sec now - 1, ts_nsec = tv_nsec now - tv_nsec to\<rparr>
               else \<lparr>fin = False, ts_sec = tv_sec to - tv_sec now, ts_nsec = tv_nsec to - tv_nsec now\<rparr>))"

definition timer_start :: "clock \<Rightarrow> timer \<Rightarrow> int \<Rightarrow> int \<Rightarrow> timer_type \<Rightarrow> timer" where
  "timer_start ck t sec nsec ty =
     (if ty = RELATIV_TIMER
      then (let now = ck (t_type t) in
            t\<lparr>t_timeout := \<lparr>tv_sec = tv_sec now + sec, tv_nsec = tv_nsec now + nsec\<rparr>\<rparr>)
      else t\<lparr>t_timeout := \<lparr>tv_sec = sec, tv_nsec = nsec\<rparr>\<rparr>)"

text \<open>A timer in zeroed memory.\<close>

definition zero_timer :: timer where
  "zero_timer = \<lparr>t_type = RELATIV_TIMER, t_timeout = \<lparr>tv_sec = 0, tv_nsec = 0\<rparr>\<rparr>"

definition timer_fin :: "clock \<Rightarrow> timer \<Rightarrow> bool" where
  "timer_fin ck t = fin (timer_current_state ck t)"

section \<open>Facts\<close>

text \<open>The nanoseconds of a time, and the times the kernel gives.\<close>

definition ns_of :: "timespec \<Rightarrow> int" where
  "ns_of ts = tv_sec ts * 1000000000 + tv_nsec ts"

definition ts_ok :: "timespec \<Rightarrow> bool" where
  "ts_ok ts \<longleftrightarrow> 0 \<le> tv_nsec ts \<and> tv_nsec ts < 1000000000"

lemma fin_iff:
  "fin (timer_current_state ck t) \<longleftrightarrow>
   tv_sec (t_timeout t) < tv_sec (ck (t_type t)) \<or>
   tv_sec (ck (t_type t)) = tv_sec (t_timeout t) \<and> tv_nsec (t_timeout t) \<le> tv_nsec (ck (t_type t))"
  by (simp add: timer_current_state_def Let_def)

lemma lex_ns: "ts_ok a \<Longrightarrow> ts_ok b \<Longrightarrow> (tv_sec a < tv_sec b \<or> tv_sec b = tv_sec a \<and> tv_nsec a \<le> tv_nsec b) \<longleftrightarrow> ns_of a \<le> ns_of b"
  by (auto simp: ts_ok_def ns_of_def)

section \<open>Properties\<close>

text \<open>A timer that was started for a number of seconds has run out exactly when its clock has
  advanced by at least that time.\<close>
theorem timer_runs_out:
  assumes "ts_ok (ck (t_type t))" "ts_ok (ck' (t_type t))"
  shows "fin (timer_current_state ck' (timer_start ck t sec 0 RELATIV_TIMER)) \<longleftrightarrow>
    ns_of (ck (t_type t)) + sec * 1000000000 \<le> ns_of (ck' (t_type t))"
proof -
  let ?now = "ck (t_type t)" and ?t = "timer_start ck t sec 0 RELATIV_TIMER"
  have t: "t_type ?t = t_type t" "tv_sec (t_timeout ?t) = tv_sec ?now + sec" "tv_nsec (t_timeout ?t) = tv_nsec ?now"
    by (simp_all add: timer_start_def Let_def)
  then have "ts_ok (t_timeout ?t)" "ns_of (t_timeout ?t) = ns_of ?now + sec * 1000000000"
    using assms(1) by (simp_all add: ts_ok_def ns_of_def algebra_simps)
  with lex_ns [of "t_timeout ?t" "ck' (t_type t)"] assms(2) show ?thesis
    by (simp add: fin_iff t(1))
qed

definition ex_clock :: "int \<Rightarrow> int \<Rightarrow> clock" where
  "ex_clock s n = (\<lambda>_. \<lparr>tv_sec = s, tv_nsec = n\<rparr>)"

theorem timer_runs_out_witness:
  "\<not> fin (timer_current_state (ex_clock 14 999999999) (timer_start (ex_clock 10 0) zero_timer 5 0 RELATIV_TIMER))"
  using timer_runs_out [of "ex_clock 10 0" zero_timer "ex_clock 14 999999999" 5]
  by (simp add: ex_clock_def ts_ok_def ns_of_def)

text \<open>The time that \<open>timer_current_state\<close> reports, passed or left, is the distance to the timeout
  exactly when no second has to be borrowed or half a second is to be; otherwise the nanoseconds are those of
  the negative difference.\<close>
theorem reported_time:
  assumes "ts_ok (ck (t_type t))" "ts_ok (t_timeout t)"
  shows "ts_sec (timer_current_state ck t) * 1000000000 + ts_nsec (timer_current_state ck t) =
      abs (ns_of (ck (t_type t)) - ns_of (t_timeout t)) \<longleftrightarrow>
    (if fin (timer_current_state ck t) then tv_nsec (t_timeout t) \<le> tv_nsec (ck (t_type t))
     else tv_nsec (ck (t_type t)) \<le> tv_nsec (t_timeout t)) \<or>
    abs (tv_nsec (ck (t_type t)) - tv_nsec (t_timeout t)) = 500000000"
proof -
  let ?n = "ck (t_type t)" and ?o = "t_timeout t"
  show ?thesis
  proof (cases "fin (timer_current_state ck t)")
    case True
    then have "ns_of ?o \<le> ns_of ?n" using lex_ns [of ?o ?n] assms by (simp add: fin_iff)
    with True assms show ?thesis
      by (auto simp: timer_current_state_def Let_def ns_of_def ts_ok_def split: if_splits)
  next
    case False
    then have "ns_of ?n < ns_of ?o" using lex_ns [of ?o ?n] assms by (auto simp: fin_iff)
    with False assms show ?thesis
      by (auto simp: timer_current_state_def Let_def ns_of_def ts_ok_def split: if_splits)
  qed
qed

theorem reported_time_witness:
  "ts_sec (timer_current_state (ex_clock 10 0) \<lparr>t_type = RELATIV_TIMER, t_timeout = \<lparr>tv_sec = 8, tv_nsec = 900000000\<rparr>\<rparr>)
     * 1000000000 + ts_nsec (timer_current_state (ex_clock 10 0)
       \<lparr>t_type = RELATIV_TIMER, t_timeout = \<lparr>tv_sec = 8, tv_nsec = 900000000\<rparr>\<rparr>) \<noteq> 1100000000"
  using reported_time [of "ex_clock 10 0" "\<lparr>t_type = RELATIV_TIMER, t_timeout = \<lparr>tv_sec = 8, tv_nsec = 900000000\<rparr>\<rparr>"]
  by (simp add: ex_clock_def ts_ok_def ns_of_def timer_current_state_def)

end
