(* ===== verification/Updater.thy ===== *)
theory Updater
  imports Bootloader StateOps Timer
begin

text \<open>
  \<open>updater.c\<close>: the life of one update, from the step that the cloud or a local command names,
  through download, installation and the trial, to its end. What lies outside (the cloud, the
  kernel, the clock, the configuration) and the parts of the program with a theory of their own
  yet to come (state parser, signatures, storage) answer through the record \<open>world\<close>; \<open>w_http\<close> is
  what the temporary file of a download holds after the request, \<open>None\<close> when the request failed.
\<close>

section \<open>State\<close>

datatype update_state = UPDATE_INIT | UPDATE_QUEUED | UPDATE_DOWNLOADED | UPDATE_INSTALLED | UPDATE_TRY
  | UPDATE_TRANSITION | UPDATE_REBOOT | UPDATE_UPDATED | UPDATE_DONE | UPDATE_FAILED | UPDATE_NO_DOWNLOAD
  | UPDATE_NO_SIGNATURE | UPDATE_NO_PARSE | UPDATE_RETRY_DOWNLOAD | UPDATE_TESTING_REBOOT
  | UPDATE_TESTING_NONREBOOT | UPDATE_DOWNLOAD_PROGRESS

record object_update =
  ou_name :: "string option"
  ou_id :: "string option"
  ou_total_size :: nat
  ou_start_time :: nat
  ou_current_time :: nat
  ou_downloaded :: nat

text \<open>\<open>pending\<close> is \<open>NULL\<close>, a revision of its own, or the very pointer \<open>pv->state\<close>.\<close>

datatype pending = No_pending | Own pv_state | Running

record update =
  u_status :: update_state
  u_endpoint :: "string option"
  u_runlevel :: int
  u_progress_size :: nat
  u_retry_timer :: timer
  u_pending :: pending
  u_progress_objects :: string
  u_retries :: int
  u_total :: object_update
  u_local :: bool

text \<open>What was done to the file system and the cloud, in order.\<close>

datatype event = Progress string string | Put string | Rev_done string | Rm_rev string | Step_dir string
  | Linked string | Json_installed string | Jsons_expanded string | Tmp_removed string
  | Trail_posted "string option"

record 's pv =
  pv_update :: "update option"
  pv_state :: "pv_state option"
  pv_boot :: "'s bootloader"
  pv_ops :: "'s bl_ops option"
  pv_remote_mode :: bool
  pv_online :: bool
  pv_synced :: bool
  pv_remote :: bool
  pv_files :: "string \<Rightarrow> string option"
  pv_events :: "event list"

text \<open>An answer to a query for steps: an error, no step, or the fields of the first step; the state is
  absent, or present with what the parse of the rest yields, the retries when it succeeds.\<close>

datatype steps = Steps_error | Steps_none | Steps "string option" "string option" "int option"

datatype endpoint = Ep_inprogress | Ep_downloading | Ep_queued | Ep_new

record world =
  w_clock :: clock
  w_time :: nat
  w_creds_id :: "string option"
  w_max_retries :: int
  w_storage_wait :: int
  w_remote_init :: bool
  w_auth :: bool
  w_put_ok :: bool
  w_trails :: int
  w_trail_auth :: bool
  w_put_objects :: int
  w_steps :: "endpoint \<Rightarrow> steps"
  w_state_json :: "string \<Rightarrow> string option"
  w_sig_ok :: "string option \<Rightarrow> bool"
  w_parse :: "string option \<Rightarrow> string \<Rightarrow> pv_state option"
  w_meta :: "object \<Rightarrow> (nat option \<times> string option \<times> string option) option"
  w_free :: "nat \<Rightarrow> nat"
  w_pvk :: "object \<Rightarrow> bool"
  w_tmp_open :: bool
  w_http :: "string \<Rightarrow> string option"
  w_sha256 :: "string \<Rightarrow> nat list"
  w_link :: "pv_state \<Rightarrow> int"
  w_json_open :: bool
  w_expand :: "pv_state \<Rightarrow> int"

definition pending_state :: "'s pv \<Rightarrow> update \<Rightarrow> pv_state option" where
  "pending_state p u = (case u_pending u of No_pending \<Rightarrow> None | Own s \<Rightarrow> Some s | Running \<Rightarrow> pv_state p)"

section \<open>Reporting the status\<close>

text \<open>The formats \<open>DEVICE_STEP_STATUS_FMT\<close>, with data, and with the progress of the download.\<close>

definition status_head :: "string \<Rightarrow> string \<Rightarrow> nat \<Rightarrow> string" where
  "status_head st msg n = ''{ '' @ quoted ''status'' @ '' : '' @ quoted st @ '', '' @ quoted ''status-msg'' @ '' : '' @
     quoted msg @ '', '' @ quoted ''progress'' @ '' : '' @ show_nat n"

definition status_fmt :: "string \<Rightarrow> string \<Rightarrow> nat \<Rightarrow> string" where
  "status_fmt st msg n = status_head st msg n @ '' }''"

definition status_fmt_data :: "string \<Rightarrow> string \<Rightarrow> nat \<Rightarrow> int \<Rightarrow> string" where
  "status_fmt_data st msg n d = status_head st msg n @ '' ,'' @ quoted ''data'' @ '':'' @ quoted (show_int d) @ ''}''"

definition status_fmt_progress :: "string \<Rightarrow> string \<Rightarrow> nat \<Rightarrow> int \<Rightarrow> string \<Rightarrow> string \<Rightarrow> string" where
  "status_fmt_progress st msg n d tot objs =
     status_head st msg n @ '' ,'' @ quoted ''data'' @ '':'' @ quoted (show_int d) @ '','' @ [CHR 0x09] @
     quoted ''downloads'' @ '': {'' @ quoted ''total'' @ '':'' @ tot @ '', '' @ quoted ''objects'' @ '':['' @ objs @ '']}}''"

definition opt_str :: "string option \<Rightarrow> string" where
  "opt_str so = (case so of None \<Rightarrow> ''(null)'' | Some s \<Rightarrow> s)"

text \<open>\<open>snprintf\<close> keeps at most \<open>buflen - 1\<close> bytes.\<close>

definition object_update_json :: "object_update \<Rightarrow> nat \<Rightarrow> string" where
  "object_update_json o' buflen = take (buflen - 1)
     (''{'' @ quoted ''object_name'' @ '':'' @ quoted (opt_str (ou_name o')) @
      '','' @ quoted ''object_id'' @ '':'' @ quoted (opt_str (ou_id o')) @
      '','' @ quoted ''total_size'' @ '':'' @ show_nat (ou_total_size o') @
      '','' @ quoted ''start_time'' @ '':'' @ show_nat (ou_start_time o') @
      '','' @ quoted ''current_time'' @ '':'' @ show_nat (ou_current_time o') @
      '','' @ quoted ''total_downloaded'' @ '':'' @ show_nat (ou_downloaded o') @ ''}'')"

definition of_max :: "string \<Rightarrow> int \<Rightarrow> int \<Rightarrow> string" where
  "of_max what n mx = what @ show_int n @ '' of '' @ show_int mx"

text \<open>The message of a download in progress; \<open>msg\<close> is appended to the objects done so far.\<close>

definition progress_json :: "int \<Rightarrow> update \<Rightarrow> string option \<Rightarrow> string" where
  "progress_json mx u msg =
     (let m = of_max ''Retry '' (u_retries u) mx;
          tot = object_update_json (u_total u) 512;
          buff = u_progress_objects u
      in status_fmt_progress ''DOWNLOADING'' m 0 (u_retries u) tot
           (if buff = [] then []
            else case msg of None \<Rightarrow> buff
             | Some x \<Rightarrow> buff @ '','' @ take (u_progress_size u - (length buff + 1) - 1) x))"

fun status_json :: "int \<Rightarrow> update \<Rightarrow> update_state \<Rightarrow> string option \<Rightarrow> string" where
  "status_json mx u UPDATE_QUEUED msg = status_fmt_data ''QUEUED'' (of_max ''Retried '' (u_retries u) mx) 0 (u_retries u)"
| "status_json mx u UPDATE_DOWNLOADED msg = status_fmt ''INPROGRESS'' ''Update objects downloaded'' 40"
| "status_json mx u UPDATE_INSTALLED msg = status_fmt ''INPROGRESS'' ''Update installed'' 80"
| "status_json mx u UPDATE_TRY msg = status_fmt ''INPROGRESS'' ''Starting updated version'' 95"
| "status_json mx u UPDATE_TRANSITION msg = status_fmt ''INPROGRESS'' ''Transitioning to new revision without rebooting'' 95"
| "status_json mx u UPDATE_REBOOT msg = status_fmt ''INPROGRESS'' ''Rebooting'' 95"
| "status_json mx u UPDATE_UPDATED msg = status_fmt ''UPDATED'' ''Update finished, revision not set as rollback point'' 100"
| "status_json mx u UPDATE_DONE msg = status_fmt ''DONE'' ''Update finished, revision set as rollback point'' 100"
| "status_json mx u UPDATE_NO_DOWNLOAD msg = status_fmt ''WONTGO''
     (case msg of None \<Rightarrow> ''Unable to download and/or install update'' | Some m \<Rightarrow> m) 0"
| "status_json mx u UPDATE_NO_SIGNATURE msg = status_fmt ''WONTGO'' ''State signatures cannot be verified'' 0"
| "status_json mx u UPDATE_NO_PARSE msg = status_fmt ''WONTGO'' ''State cannot be parsed'' 0"
| "status_json mx u UPDATE_RETRY_DOWNLOAD msg = status_fmt_data ''QUEUED''
     (take 127 (of_max ''Network unavailable while downloading, retry '' (u_retries u) mx)) 0 (u_retries u)"
| "status_json mx u UPDATE_TESTING_REBOOT msg = status_fmt ''TESTING'' ''Awaiting to set rollback point if update is stable'' 95"
| "status_json mx u UPDATE_TESTING_NONREBOOT msg = status_fmt ''TESTING'' ''Awaiting to see if update is stable'' 95"
| "status_json mx u UPDATE_DOWNLOAD_PROGRESS msg = progress_json mx u msg"
| "status_json mx u UPDATE_INIT msg = status_fmt ''ERROR'' ''Error during update'' 0"
| "status_json mx u UPDATE_FAILED msg = status_fmt ''ERROR'' ''Error during update'' 0"

text \<open>\<open>trail_remote_set_status\<close>: the status, the progress of the pending revision on disk, and a PUT
  to the cloud when there is one to talk to. The last two come back with the result.\<close>

definition trail_remote_set_status ::
  "world \<Rightarrow> 's pv \<Rightarrow> update \<Rightarrow> update_state \<Rightarrow> string option \<Rightarrow> int \<times> 's pv \<times> update" where
  "trail_remote_set_status w p u st msg =
     (let js = status_json (w_max_retries w) u st msg;
          u' = u\<lparr>u_status := st, u_total := (if st = UPDATE_RETRY_DOWNLOAD then (u_total u)\<lparr>ou_downloaded := 0\<rparr> else u_total u)\<rparr>;
          ps = pending_state p u;
          e1 = (case ps of None \<Rightarrow> [] | Some s \<Rightarrow> [Progress (s_rev s) js]);
          quiet = ((case ps of None \<Rightarrow> False | Some s \<Rightarrow> s_local s) \<or> \<not> pv_remote_mode p \<or> \<not> pv_online p \<or> \<not> w_remote_init w)
      in if quiet then (0, p\<lparr>pv_events := pv_events p @ e1\<rparr>, u')
         else (if w_put_ok w then 0 else -1, p\<lparr>pv_remote := True, pv_events := pv_events p @ e1 @ [Put js]\<rparr>, u'))"

definition pv_update_set_status_msg :: "world \<Rightarrow> 's pv \<Rightarrow> update_state \<Rightarrow> string option \<Rightarrow> int \<times> 's pv" where
  "pv_update_set_status_msg w p st msg =
     (case pv_update p of None \<Rightarrow> (-1, p)
      | Some u \<Rightarrow> (let (r, p', u') = trail_remote_set_status w p u st msg in (r, p'\<lparr>pv_update := Some u'\<rparr>)))"

definition pv_update_set_status :: "world \<Rightarrow> 's pv \<Rightarrow> update_state \<Rightarrow> int \<times> 's pv" where
  "pv_update_set_status w p st = pv_update_set_status_msg w p st None"

abbreviation set_status :: "world \<Rightarrow> update_state \<Rightarrow> 's pv \<Rightarrow> 's pv" where
  "set_status w st p \<equiv> snd (pv_update_set_status w p st)"

section \<open>The life of an update\<close>

definition empty_total :: object_update where
  "empty_total = \<lparr>ou_name = None, ou_id = None, ou_total_size = 0, ou_start_time = 0, ou_current_time = 0, ou_downloaded = 0\<rparr>"

definition PATH_MAX :: nat where "PATH_MAX = 4096"

definition pv_update_new :: "string option \<Rightarrow> string \<Rightarrow> bool \<Rightarrow> update" where
  "pv_update_new i r local = \<lparr>u_status = UPDATE_INIT,
     u_endpoint = map_option (\<lambda>d. ''/trails/'' @ d @ ''/steps/'' @ r @ ''/progress'') i,
     u_runlevel = 0, u_progress_size = PATH_MAX, u_retry_timer = zero_timer, u_pending = No_pending,
     u_progress_objects = [], u_retries = 0, u_total = empty_total, u_local = (local \<or> i = None)\<rparr>"

definition pv_update_is_transitioning :: "update option \<Rightarrow> bool" where
  "pv_update_is_transitioning uo = (case uo of None \<Rightarrow> False | Some u \<Rightarrow> u_status u = UPDATE_TRANSITION)"

definition pv_update_is_trying :: "update option \<Rightarrow> bool" where
  "pv_update_is_trying uo = (case uo of None \<Rightarrow> False
     | Some u \<Rightarrow> u_status u = UPDATE_TRANSITION \<or> u_status u = UPDATE_TRY)"

definition pv_update_is_testing :: "update option \<Rightarrow> bool" where
  "pv_update_is_testing uo = (case uo of None \<Rightarrow> False
     | Some u \<Rightarrow> u_status u = UPDATE_TESTING_REBOOT \<or> u_status u = UPDATE_TESTING_NONREBOOT)"

text \<open>\<open>pv_update_remove\<close> frees the update and with it a pending revision of its own.\<close>

definition pv_update_remove :: "'s pv \<Rightarrow> 's pv" where
  "pv_update_remove p = p\<lparr>pv_update := None\<rparr>"

text \<open>A call to the bootloader from the program's state.\<close>

definition on_boot :: "('s bootloader \<Rightarrow> 's bootloader bl_result) \<Rightarrow> 's pv \<Rightarrow> (int \<times> 's pv) outcome option" where
  "on_boot f p = then_do (f (pv_boot p)) (\<lambda>r b. give r (p\<lparr>pv_boot := b\<rparr>))"

definition pv_update_test :: "world \<Rightarrow> 's pv \<Rightarrow> 's pv" where
  "pv_update_test w p =
     (case pv_update p of None \<Rightarrow> p
      | Some u \<Rightarrow> (case u_status u of
            UPDATE_TRY \<Rightarrow> set_status w UPDATE_TESTING_REBOOT p
          | UPDATE_TRANSITION \<Rightarrow> set_status w UPDATE_TESTING_NONREBOOT p
          | _ \<Rightarrow> p))"

definition log_event :: "event \<Rightarrow> 's pv \<Rightarrow> 's pv" where
  "log_event e p = p\<lparr>pv_events := pv_events p @ [e]\<rparr>"

text \<open>\<open>pv_update_finish\<close>: only an update that was tested after a reboot is committed.\<close>

definition pv_update_finish :: "world \<Rightarrow> 's pv \<Rightarrow> (int \<times> 's pv) outcome option" where
  "pv_update_finish w p =
     (case pv_update p of None \<Rightarrow> give 0 p
      | Some u \<Rightarrow> (case u_status u of
          UPDATE_FAILED \<Rightarrow>
            then_do (on_boot (pv_bootloader_set_failed (pv_ops p)) p)
              (\<lambda>_ p. give 0 (pv_update_remove (set_status w UPDATE_FAILED p)))
        | UPDATE_RETRY_DOWNLOAD \<Rightarrow>
            (if w_max_retries w < u_retries u
             then give 0 (pv_update_remove (set_status w UPDATE_NO_DOWNLOAD p)) else give 0 p)
        | UPDATE_NO_DOWNLOAD \<Rightarrow> give 0 (pv_update_remove p)
        | UPDATE_TESTING_REBOOT \<Rightarrow>
            (case pv_state p of None \<Rightarrow> Some Fault
             | Some s \<Rightarrow>
                 then_do (on_boot (pv_bootloader_set_commited (pv_ops p) (s_rev s)) p)
                   (\<lambda>r p. if r \<noteq> 0 then give (-1) p
                          else give 0 (pv_update_remove (log_event (Rev_done (s_rev s)) (set_status w UPDATE_DONE p)))))
        | UPDATE_TESTING_NONREBOOT \<Rightarrow> give 0 (pv_update_remove (set_status w UPDATE_UPDATED p))
        | st \<Rightarrow> give 0 (pv_update_remove (set_status w st p))))"

text \<open>\<open>pv_update_requires_reboot\<close> and \<open>pv_update_resume\<close>.\<close>

definition set_runlevel :: "int \<Rightarrow> 's pv \<Rightarrow> 's pv" where
  "set_runlevel r p = p\<lparr>pv_update := map_option (\<lambda>u. u\<lparr>u_runlevel := r\<rparr>) (pv_update p)\<rparr>"

definition pv_update_requires_reboot :: "world \<Rightarrow> 's pv \<Rightarrow> (bool \<times> 's pv) outcome option" where
  "pv_update_requires_reboot w p =
     (case pv_update p of None \<Rightarrow> Some Fault
      | Some u \<Rightarrow>
          (if u_runlevel u \<le> RUNLEVEL_PLATFORM
           then give True (set_status w UPDATE_REBOOT (set_runlevel RUNLEVEL_ROOT p))
           else give False (set_status w UPDATE_TRANSITION p)))"

definition pv_update_resume :: "world \<Rightarrow> 's pv \<Rightarrow> int \<times> 's pv" where
  "pv_update_resume w p =
     (case pv_update p of Some u \<Rightarrow> (u_runlevel u, p)
      | None \<Rightarrow>
          (if pv_bootloader_update_in_progress (pv_boot p)
           then (case pv_try (pv_boot p) of None \<Rightarrow> (-1, p)
             | Some r \<Rightarrow>
                 (let p1 = p\<lparr>pv_update := Some (pv_update_new (w_creds_id w) r False)\<rparr>
                  in (RUNLEVEL_DATA,
                      if pv_bootloader_trying_update (pv_boot p) then set_status w UPDATE_TRY p1
                      else set_status w UPDATE_FAILED p1)))
           else (RUNLEVEL_DATA, p)))"

section \<open>Download\<close>

definition hex_digit :: "char \<Rightarrow> nat option" where
  "hex_digit c = (let n = of_char c in
     if 48 \<le> n \<and> n \<le> 57 then Some (n - 48)
     else if 97 \<le> n \<and> n \<le> 102 then Some (n - 87)
     else if 65 \<le> n \<and> n \<le> 70 then Some (n - 55) else None)"

text \<open>\<open>strtoul\<close> of at most two characters in base 16 with its blank or sign, as an \<open>unsigned char\<close>.\<close>

definition hex_byte :: "string \<Rightarrow> nat" where
  "hex_byte s = (case s of [] \<Rightarrow> 0
     | c # r \<Rightarrow> (let low = (case r of [] \<Rightarrow> None | d # _ \<Rightarrow> hex_digit d) in
         case hex_digit c of Some a \<Rightarrow> (case low of None \<Rightarrow> a | Some b \<Rightarrow> 16 * a + b)
         | None \<Rightarrow> (case low of None \<Rightarrow> 0
             | Some b \<Rightarrow> (if is_space c \<or> c = CHR ''+'' then b else if c = CHR ''-'' then (256 - b) mod 256 else 0))))"

fun hex_bytes :: "string \<Rightarrow> nat list" where
  "hex_bytes [] = []"
| "hex_bytes [c] = [hex_byte [c]]"
| "hex_bytes (c # d # r) = hex_byte [c, d] # hex_bytes r"

text \<open>The host ends at a colon or a slash; with neither, \<open>end\<close> is \<open>NULL\<close> and the copy runs wild.\<close>

definition has_host_end :: "string \<Rightarrow> bool" where
  "has_host_end url \<longleftrightarrow> CHR '':'' \<in> set (drop 8 url) \<or> CHR ''/'' \<in> set (drop 8 url)"

text \<open>The objects done are kept as a list in \<open>progress_objects\<close>, whose buffer doubles once when full.\<close>

definition add_progress :: "object_update \<Rightarrow> update \<Rightarrow> update" where
  "add_progress o' u =
     (let js = object_update_json o' 512; old = u_progress_objects u;
          sep = (if old = [] then [] else '','');
          size = (if u_progress_size u - length old - 1 < length js + length sep
                  then 2 * u_progress_size u else u_progress_size u)
      in u\<lparr>u_progress_size := size, u_progress_objects := old @ sep @ js\<rparr>)"

text \<open>
  \<open>trail_download_object\<close>: an object that exists is done, unless the boot loader keeps the kernel in
  its own partition. Otherwise it is fetched over https to a temporary file, which takes its place
  in the pool only when its hash is the one the cloud gave. A \<open>NULL\<close> or overlong hash string, and
  one too short to fill all bytes that are compared, is a fault.
\<close>

definition trail_download_object :: "world \<Rightarrow> object \<Rightarrow> 's pv \<Rightarrow> (bool \<times> 's pv) outcome option" where
  "trail_download_object w ob p =
     (let failed = give False (log_event (Tmp_removed (o_objpath ob @ ''.tmp'')) p) in
      if \<not> w_pvk w ob \<and> pv_files p (o_objpath ob) \<noteq> None then give True p
      else case o_geturl ob of None \<Rightarrow> give False p
       | Some url \<Rightarrow>
         (if \<not> strneq url ''https://'' 8 then give False p
          else if \<not> has_host_end url then Some Fault
          else if \<not> w_tmp_open w then give False p
          else case w_http w url of None \<Rightarrow> failed
           | Some body \<Rightarrow>
             (case o_sha256 ob of None \<Rightarrow> Some Fault
              | Some sha \<Rightarrow>
                 (let cloud = hex_bytes sha in
                  if length cloud \<noteq> 32 then Some Fault
                  else if cloud \<noteq> w_sha256 w body then failed
                  else give True (p\<lparr>pv_files := (pv_files p)(o_objpath ob \<mapsto> body),
                         pv_update := map_option (add_progress (\<lparr>ou_name = Some (o_name ob), ou_id = Some (o_id ob),
                            ou_total_size = o_size ob, ou_start_time = w_time w, ou_current_time = w_time w,
                            ou_downloaded = length body\<rparr>)) (pv_update p)\<rparr>)))))"

fun download_all :: "world \<Rightarrow> object list \<Rightarrow> 's pv \<Rightarrow> (bool \<times> 's pv) outcome option" where
  "download_all w [] p = give True p"
| "download_all w (ob # obs) p =
     then_do (trail_download_object w ob p) (\<lambda>ok p. if ok then download_all w obs p else give False p)"

text \<open>The pending revision after a change of its objects, which may be the running one.\<close>

definition set_pending_objects :: "object list \<Rightarrow> 's pv \<Rightarrow> 's pv" where
  "set_pending_objects obs p =
     (case pv_update p of None \<Rightarrow> p
      | Some u \<Rightarrow> (case u_pending u of No_pending \<Rightarrow> p
          | Own s \<Rightarrow> p\<lparr>pv_update := Some (u\<lparr>u_pending := Own (s\<lparr>s_objects := obs\<rparr>)\<rparr>)\<rparr>
          | Running \<Rightarrow> p\<lparr>pv_state := map_option (\<lambda>s. s\<lparr>s_objects := obs\<rparr>) (pv_state p)\<rparr>))"

text \<open>\<open>trail_download_get_meta\<close> fills in size, hash and url; without a url it fails.\<close>

definition trail_download_get_meta :: "world \<Rightarrow> object \<Rightarrow> bool \<times> object" where
  "trail_download_get_meta w ob =
     (case w_meta w ob of None \<Rightarrow> (False, ob)
      | Some (sz, sha, url) \<Rightarrow>
          (let ob1 = ob\<lparr>o_size := (case sz of None \<Rightarrow> o_size ob | Some n \<Rightarrow> n), o_sha256 := sha\<rparr>
           in case url of None \<Rightarrow> (False, ob1) | Some u \<Rightarrow> (True, ob1\<lparr>o_geturl := Some u\<rparr>)))"

fun get_all_meta :: "world \<Rightarrow> object list \<Rightarrow> bool \<times> object list" where
  "get_all_meta w [] = (True, [])"
| "get_all_meta w (ob # obs) =
     (let (ok, ob') = trail_download_get_meta w ob in
      if \<not> ok then (False, ob' # obs)
      else let (ok', obs') = get_all_meta w obs in (ok', ob' # obs'))"

definition get_update_size :: "'s pv \<Rightarrow> object list \<Rightarrow> nat" where
  "get_update_size p obs = (\<Sum>ob\<leftarrow>filter (\<lambda>ob. pv_files p (o_objpath ob) = None) obs. o_size ob)"

definition trail_check_update_size :: "world \<Rightarrow> object list \<Rightarrow> 's pv \<Rightarrow> bool \<times> 's pv" where
  "trail_check_update_size w obs p =
     (let need = get_update_size p obs; free = w_free w need in
      if free < need
      then (False, snd (pv_update_set_status_msg w p UPDATE_NO_DOWNLOAD
              (Some (''Space required '' @ show_nat need @ '' B, available '' @ show_nat free @ '' B''))))
      else (True, p))"

text \<open>\<open>pv_objects_get_by_name\<close> of the kernel or the fit image: \<open>NULL\<close> is compared with the names.\<close>

definition kernel_lookup_ok :: "pv_state \<Rightarrow> object list \<Rightarrow> bool" where
  "kernel_lookup_ok s obs \<longleftrightarrow> b_kernel_or_fit (s_bsp s) \<noteq> None \<or> obs = []"

definition trail_download_objects :: "world \<Rightarrow> pv_state \<Rightarrow> pv_state \<Rightarrow> 's pv \<Rightarrow> (int \<times> 's pv) outcome option" where
  "trail_download_objects w run pend p =
     (let (ok, obs) = get_all_meta w (s_objects pend); p1 = set_pending_objects obs p in
      if \<not> ok then give (-1) (set_status w UPDATE_RETRY_DOWNLOAD p1)
      else let (fits, p2) = trail_check_update_size w obs p1 in
        if \<not> fits then give (-1) p2
        else if \<not> kernel_lookup_ok pend obs \<or> \<not> kernel_lookup_ok run (s_objects run) then Some Fault
        else let p3 = set_status w UPDATE_DOWNLOAD_PROGRESS (p2\<lparr>pv_update := map_option (\<lambda>u. u\<lparr>u_total :=
                 \<lparr>ou_name = Some ''total'', ou_id = Some ''none'', ou_total_size = get_update_size p2 obs,
                  ou_start_time = w_time w, ou_current_time = w_time w, ou_downloaded = 0\<rparr>\<rparr>) (pv_update p2)\<rparr>)
          in then_do (download_all w obs p3) (\<lambda>ok p4.
               if \<not> ok then give (-1) (set_status w UPDATE_RETRY_DOWNLOAD p4)
               else give 0 (set_status w UPDATE_DOWNLOAD_PROGRESS p4)))"

text \<open>\<open>pv_update_check_download_retry\<close>: 0 to go on, 1 to wait, -1 when the retries are used up.\<close>

definition pv_update_check_download_retry :: "world \<Rightarrow> 's pv \<Rightarrow> int \<times> 's pv" where
  "pv_update_check_download_retry w p =
     (case pv_update p of
        None \<Rightarrow> (-1, set_status w UPDATE_FAILED p)
      | Some u \<Rightarrow>
          (if timer_fin (w_clock w) (u_retry_timer u)
           then let u1 = u\<lparr>u_retries := u_retries u + 1\<rparr> in
                if w_max_retries w < u_retries u1 then (-1, p\<lparr>pv_update := Some u1\<rparr>)
                else (0, p\<lparr>pv_update := Some (u1\<lparr>u_retry_timer := timer_start (w_clock w) (u_retry_timer u) (w_storage_wait w) 0 RELATIV_TIMER\<rparr>)\<rparr>)
           else (1, p)))"

definition pv_update_download :: "world \<Rightarrow> 's pv \<Rightarrow> (int \<times> 's pv) outcome option" where
  "pv_update_download w p =
     (case (pv_state p, pv_update p) of
        (Some run, Some u) \<Rightarrow>
          (case pending_state p u of None \<Rightarrow> give (-1) p
           | Some pend \<Rightarrow>
               (let p1 = log_event (Step_dir (s_rev pend)) p in
                if u_local u then give 0 p1
                else if \<not> w_remote_init w then give (-1) p1
                else let (r, p2) = pv_update_check_download_retry w (p1\<lparr>pv_remote := True\<rparr>) in
                  if r \<noteq> 0 then give (-1) p2
                  else then_do (trail_download_objects w run pend p2) (\<lambda>r p3.
                    if r < 0 then give r p3 else give 0 (set_status w UPDATE_DOWNLOADED p3))))
      | _ \<Rightarrow> give (-1) p)"

section \<open>Installation\<close>

text \<open>\<open>pv_update_install\<close>: the links, the state json, the expanded jsons, then the boot loader, each
  only after the one before; every failure removes the revision from the disk. The runlevel is the
  comparison with the running revision, whose platforms it marks.\<close>

definition install_failed :: "string \<Rightarrow> int \<Rightarrow> 's pv \<Rightarrow> (int \<times> 's pv) outcome option" where
  "install_failed rv r p = give r (log_event (Rm_rev rv) p)"

definition set_install_runlevel :: "int \<Rightarrow> pv_state \<Rightarrow> 's pv \<Rightarrow> (int \<times> 's pv) outcome option" where
  "set_install_runlevel r pend p =
     (case pv_state_compare_states (Some pend) (pv_state p) of Fault \<Rightarrow> Some Fault
      | Done (rl, c) \<Rightarrow> give r (set_runlevel rl (p\<lparr>pv_state := c\<rparr>)))"

definition pv_update_install :: "world \<Rightarrow> 's pv \<Rightarrow> (int \<times> 's pv) outcome option" where
  "pv_update_install w p =
     (case pv_update p of None \<Rightarrow> Some Fault
      | Some u \<Rightarrow>
         (case pending_state p u of None \<Rightarrow> give (-1) p
          | Some pend \<Rightarrow>
             (if pv_state p = None then install_failed (s_rev pend) (-1) p
              else let lk = w_link w pend; rv = s_rev pend in
                if lk < 0 then install_failed rv lk (set_status w UPDATE_FAILED p)
                else let p1 = log_event (Linked rv) p in
                  if \<not> w_json_open w then install_failed rv (-1) p1
                  else let p2 = log_event (Json_installed rv) p1 in
                    if w_expand w pend = 0 then install_failed rv (-1) p2
                    else then_do (on_boot (pv_bootloader_set_installed (pv_ops p) rv) (log_event (Jsons_expanded rv) p2))
                      (\<lambda>r p3. if r \<noteq> 0 then install_failed rv (-1) p3
                              else set_install_runlevel lk pend (set_status w UPDATE_INSTALLED p3)))))"

section \<open>New steps\<close>

definition pv_update_get_step_local :: "world \<Rightarrow> string \<Rightarrow> 's pv \<Rightarrow> update option \<times> 's pv" where
  "pv_update_get_step_local w rv p =
     (let u = pv_update_new (w_creds_id w) rv True; js = w_state_json w rv in
      if \<not> w_sig_ok w js then (None, fst (snd (trail_remote_set_status w p u UPDATE_NO_SIGNATURE None)))
      else case w_parse w js rv of
          None \<Rightarrow> (None, fst (snd (trail_remote_set_status w p u UPDATE_NO_PARSE None)))
        | Some s \<Rightarrow> (Some (u\<lparr>u_pending := Own (s\<lparr>s_local := True\<rparr>)\<rparr>), p))"

text \<open>The first endpoint that answers with a step decides; \<open>None\<close> is an error, a step of the first
  endpoint is of a revision in the wrong state.\<close>

fun first_steps :: "world \<Rightarrow> endpoint list \<Rightarrow> (bool \<times> steps) option" where
  "first_steps w [] = Some (False, Steps_none)"
| "first_steps w (e # es) =
     (case w_steps w e of Steps_error \<Rightarrow> None
      | Steps_none \<Rightarrow> first_steps w es
      | st \<Rightarrow> Some (e = Ep_inprogress, st))"

definition reject :: "world \<Rightarrow> update \<Rightarrow> update_state \<Rightarrow> 's pv \<Rightarrow> int \<times> 's pv" where
  "reject w u st p = (0, fst (snd (trail_remote_set_status w p u st None)))"

definition process_step :: "world \<Rightarrow> bool \<Rightarrow> string \<Rightarrow> string option \<Rightarrow> int option \<Rightarrow> pv_state \<Rightarrow> 's pv \<Rightarrow> int \<times> 's pv" where
  "process_step w wrong rv stj retries run p =
     (let u = pv_update_new (w_creds_id w) rv False in
      if atoi rv < atoi (s_rev run) then reject w u UPDATE_FAILED p
      else if retries = None \<or> stj = None then reject w u UPDATE_NO_PARSE p
      else if wrong then reject w u UPDATE_FAILED p
      else if w_max_retries w < the retries then reject w u UPDATE_NO_DOWNLOAD p
      else let (_, p1, u1) = trail_remote_set_status w p (u\<lparr>u_retries := the retries\<rparr>) UPDATE_QUEUED None in
        if \<not> w_sig_ok w stj then reject w u1 UPDATE_NO_SIGNATURE p1
        else case w_parse w stj rv of None \<Rightarrow> reject w u1 UPDATE_NO_PARSE p1
          | Some s \<Rightarrow> (if pv_update p1 = None
              then (1, p1\<lparr>pv_update := Some (u1\<lparr>u_pending := Own s\<rparr>)\<rparr>) else (0, p1)))"

definition trail_get_new_steps :: "world \<Rightarrow> pv_state \<Rightarrow> 's pv \<Rightarrow> int \<times> 's pv" where
  "trail_get_new_steps w run p =
     (if \<not> pv_remote p then (0, p)
      else case first_steps w (if pv_update p \<noteq> None then [Ep_new] else [Ep_inprogress, Ep_downloading, Ep_queued, Ep_new])
        of None \<Rightarrow> (-1, p)
         | Some (wrong, Steps (Some rv) stj retries) \<Rightarrow> process_step w wrong rv stj retries run p
         | Some _ \<Rightarrow> (0, p))"

text \<open>\<open>trail_first_boot\<close>: the objects, then the state of the factory revision; that it failed to arrive is only logged.\<close>

definition trail_first_boot :: "world \<Rightarrow> pv_state \<Rightarrow> 's pv \<Rightarrow> int \<times> 's pv" where
  "trail_first_boot w run p =
     (if \<not> w_trail_auth w then (-1, p)
      else if 0 < w_put_objects w then (-1, p)
      else (0, p\<lparr>pv_events := pv_events p @ [Trail_posted (s_json run)]\<rparr>))"

definition pv_updater_check_for_updates :: "world \<Rightarrow> pv_state \<Rightarrow> 's pv \<Rightarrow> int \<times> 's pv" where
  "pv_updater_check_for_updates w run p =
     (if \<not> w_remote_init w then (0, p)
      else let p1 = p\<lparr>pv_remote := True\<rparr> in
        if \<not> w_auth w then (0, p1)
        else if (case pv_update p1 of None \<Rightarrow> False | Some u \<Rightarrow> u_status u = UPDATE_RETRY_DOWNLOAD) then (1, p1)
        else if w_trails w = 0 then trail_first_boot w run p1
        else if 0 < w_trails w then trail_get_new_steps w run (p1\<lparr>pv_synced := True\<rparr>)
        else (0, p1))"

definition pv_trail_is_auth :: "world \<Rightarrow> 's pv \<Rightarrow> bool \<times> 's pv" where
  "pv_trail_is_auth w p =
     (if pv_remote p then (True, p)
      else let p1 = (if pv_online p \<and> w_remote_init w then p\<lparr>pv_remote := True\<rparr> else p) in (pv_remote p1, p1))"

section \<open>Facts\<close>

text \<open>Reporting a status touches the status, the log of events and the connection, nothing else.\<close>

lemma remote_set_status_fields:
  assumes "trail_remote_set_status w p u st msg = (r, p', u')"
  shows "pv_boot p' = pv_boot p" "pv_ops p' = pv_ops p" "pv_state p' = pv_state p" "pv_files p' = pv_files p"
    "pv_update p' = pv_update p" "u_status u' = st" "u_pending u' = u_pending u" "u_retries u' = u_retries u"
    "u_runlevel u' = u_runlevel u" "u_local u' = u_local u" "u_retry_timer u' = u_retry_timer u"
    "\<exists>es. pv_events p' = pv_events p @ es" "pv_remote_mode p' = pv_remote_mode p"
  using assms by (auto simp: trail_remote_set_status_def Let_def split: if_splits)

lemma set_status_fields [simp]:
  "pv_boot (set_status w st p) = pv_boot p" "pv_ops (set_status w st p) = pv_ops p"
  "pv_state (set_status w st p) = pv_state p" "pv_files (set_status w st p) = pv_files p"
  "pv_remote_mode (set_status w st p) = pv_remote_mode p"
  "(pv_update (set_status w st p) = None) = (pv_update p = None)"
  by (simp_all add: pv_update_set_status_def pv_update_set_status_msg_def trail_remote_set_status_def Let_def
      split: option.split)

lemma set_status_msg_fields:
  assumes "pv_update_set_status_msg w p st m = (r, p')"
  shows "pv_boot p' = pv_boot p" "pv_ops p' = pv_ops p" "pv_state p' = pv_state p" "pv_files p' = pv_files p"
  using assms
  by (auto simp: pv_update_set_status_msg_def trail_remote_set_status_def Let_def split: option.splits if_splits)

lemma set_status_update:
  assumes "pv_update p = Some u"
  obtains u' where "pv_update (set_status w st p) = Some u'" "u_status u' = st" "u_pending u' = u_pending u"
    "u_retries u' = u_retries u" "u_runlevel u' = u_runlevel u" "u_local u' = u_local u"
proof -
  obtain r p' u' where t: "trail_remote_set_status w p u st None = (r, p', u')"
    by (cases "trail_remote_set_status w p u st None") auto
  with assms remote_set_status_fields [OF t] that show thesis
    by (simp add: pv_update_set_status_def pv_update_set_status_msg_def)
qed

lemma log_event_fields [simp]:
  "pv_boot (log_event e p) = pv_boot p" "pv_ops (log_event e p) = pv_ops p" "pv_state (log_event e p) = pv_state p"
  "pv_files (log_event e p) = pv_files p" "pv_update (log_event e p) = pv_update p"
  "pv_events (log_event e p) = pv_events p @ [e]" "pv_remote_mode (log_event e p) = pv_remote_mode p"
  by (simp_all add: log_event_def)

lemma set_runlevel_fields [simp]:
  "pv_boot (set_runlevel r p) = pv_boot p" "pv_ops (set_runlevel r p) = pv_ops p" "pv_state (set_runlevel r p) = pv_state p"
  "pv_files (set_runlevel r p) = pv_files p" "pv_events (set_runlevel r p) = pv_events p"
  by (simp_all add: set_runlevel_def)

lemma remove_fields [simp]:
  "pv_boot (pv_update_remove p) = pv_boot p" "pv_ops (pv_update_remove p) = pv_ops p"
  "pv_state (pv_update_remove p) = pv_state p" "pv_files (pv_update_remove p) = pv_files p"
  "pv_update (pv_update_remove p) = None"
  by (simp_all add: pv_update_remove_def)

lemma pending_objects_fields [simp]:
  "pv_boot (set_pending_objects obs p) = pv_boot p" "pv_ops (set_pending_objects obs p) = pv_ops p"
  "pv_files (set_pending_objects obs p) = pv_files p"
  by (auto simp: set_pending_objects_def split: option.splits pending.splits)

text \<open>A file of the pool is new only when its hash is the one the object carries.\<close>

definition fetched :: "world \<Rightarrow> object list \<Rightarrow> (string \<Rightarrow> string option) \<Rightarrow> (string \<Rightarrow> string option) \<Rightarrow> bool" where
  "fetched w obs f f' \<longleftrightarrow> (\<forall>path. f' path \<noteq> f path \<longrightarrow>
     (\<exists>ob\<in>set obs. \<exists>sha body. path = o_objpath ob \<and> o_sha256 ob = Some sha \<and> f' path = Some body \<and>
        w_sha256 w body = hex_bytes sha))"

lemma fetched_refl [simp]: "fetched w obs f f"
  by (simp add: fetched_def)

lemma fetched_trans: "fetched w obs f g \<Longrightarrow> fetched w obs g h \<Longrightarrow> fetched w obs f h"
  unfolding fetched_def by metis

lemma fetched_mono: "fetched w obs f g \<Longrightarrow> set obs \<subseteq> set obs' \<Longrightarrow> fetched w obs' f g"
  unfolding fetched_def by blast

lemma download_object_fetched:
  assumes "trail_download_object w ob p = Some (Done (ok, p'))"
  shows "fetched w [ob] (pv_files p) (pv_files p')" "pv_boot p' = pv_boot p" "ok \<Longrightarrow> w_pvk w ob \<or> pv_files p' (o_objpath ob) \<noteq> None"
  using assms
  by (auto simp: trail_download_object_def give_def Let_def fetched_def split: if_splits option.splits)

lemma download_all_fetched:
  "download_all w obs p = Some (Done (ok, p')) \<Longrightarrow>
   fetched w obs (pv_files p) (pv_files p') \<and> pv_boot p' = pv_boot p"
proof (induction obs arbitrary: p)
  case Nil
  then show ?case by (simp add: give_def)
next
  case (Cons ob obs)
  then obtain ok1 p1 where d: "trail_download_object w ob p = Some (Done (ok1, p1))"
    and r: "(if ok1 then download_all w obs p1 else give False p1) = Some (Done (ok, p'))"
    by (auto simp: then_do_Some_Done)
  note f = download_object_fetched [OF d]
  have f1: "fetched w (ob # obs) (pv_files p) (pv_files p1)" using f(1) by (rule fetched_mono) simp
  show ?case
  proof (cases ok1)
    case True
    with r have "download_all w obs p1 = Some (Done (ok, p'))" by simp
    from Cons.IH [OF this] have "fetched w (ob # obs) (pv_files p1) (pv_files p')" "pv_boot p' = pv_boot p1"
      using fetched_mono [of w obs _ _ "ob # obs"] by auto
    with f1 f(2) show ?thesis using fetched_trans by auto
  next
    case False
    with r f1 f(2) show ?thesis by (simp add: give_def)
  qed
qed

lemma check_size_fields:
  assumes "trail_check_update_size w obs p = (ok, p')"
  shows "pv_files p' = pv_files p" "pv_boot p' = pv_boot p"
  using assms set_status_msg_fields(1,4) [of w p UPDATE_NO_DOWNLOAD]
  by (auto simp: trail_check_update_size_def Let_def split: if_splits) (metis prod.collapse)+

lemma download_objects_fetched:
  assumes "trail_download_objects w run pend p = Some (Done (r, p'))"
  shows "fetched w (snd (get_all_meta w (s_objects pend))) (pv_files p) (pv_files p') \<and> pv_boot p' = pv_boot p"
proof -
  obtain ok obs where m: "get_all_meta w (s_objects pend) = (ok, obs)" by (cases "get_all_meta w (s_objects pend)")
  obtain fits p2 where c: "trail_check_update_size w obs (set_pending_objects obs p) = (fits, p2)"
    by (cases "trail_check_update_size w obs (set_pending_objects obs p)")
  note cf = check_size_fields [OF c]
  show ?thesis
    using assms m c cf
    by (auto simp: trail_download_objects_def give_def Let_def then_do_Some_Done split: if_splits
        dest!: download_all_fetched)
qed

lemma set_status_events: "\<exists>es. pv_events (set_status w st q) = pv_events q @ es"
  by (simp add: pv_update_set_status_def pv_update_set_status_msg_def trail_remote_set_status_def Let_def
      split: option.split)

lemma reject_fields [simp]: "pv_update (snd (reject w u st q)) = pv_update q" "fst (reject w u st q) = 0"
  "pv_boot (snd (reject w u st q)) = pv_boot q"
  by (simp_all add: reject_def trail_remote_set_status_def Let_def)

lemma set_install_runlevel_fields:
  assumes "set_install_runlevel lk pend q = Some (Done (r, q'))"
  shows "pv_boot q' = pv_boot q" "pv_events q' = pv_events q" "r = lk"
  using assms by (auto simp: set_install_runlevel_def give_def split: outcome.splits)

lemma check_retry_fields:
  assumes "pv_update_check_download_retry w p = (r, p')"
  shows "pv_files p' = pv_files p" "pv_boot p' = pv_boot p"
  using assms by (auto simp: pv_update_check_download_retry_def Let_def split: option.splits if_splits)

lemma download_fields:
  assumes "pv_update_download w p = Some (Done (r, p'))"
  shows "pv_boot p' = pv_boot p"
  using assms
  by (auto simp: pv_update_download_def give_def Let_def then_do_Some_Done split: option.splits if_splits prod.splits
      dest!: download_objects_fetched check_retry_fields(2))

lemma on_boot_Done:
  "on_boot f p = Some (Done (r, p')) \<longleftrightarrow> (\<exists>b. f (pv_boot p) = Some (Done (r, b)) \<and> p' = p\<lparr>pv_boot := b\<rparr>)"
  by (auto simp: on_boot_def then_do_Some_Done give_def)

lemma finish_boot_cases:
  assumes "pv_update_finish w p = Some (Done (r, p'))"
  shows "pv_boot p' = pv_boot p \<or>
    (\<exists>u. pv_update p = Some u \<and>
      (u_status u = UPDATE_FAILED \<and> (\<exists>n. pv_bootloader_set_failed (pv_ops p) (pv_boot p) = Some (Done (n, pv_boot p'))) \<or>
       u_status u = UPDATE_TESTING_REBOOT \<and> (\<exists>s n. pv_state p = Some s \<and>
          pv_bootloader_set_commited (pv_ops p) (s_rev s) (pv_boot p) = Some (Done (n, pv_boot p')) \<and> (n \<noteq> 0 \<longleftrightarrow> r = -1))))"
proof (cases "pv_update p")
  case None
  with assms show ?thesis by (simp add: pv_update_finish_def give_def)
next
  case (Some u)
  show ?thesis
  proof (cases "u_status u = UPDATE_FAILED \<or> u_status u = UPDATE_TESTING_REBOOT")
    case True
    with Some assms show ?thesis
      by (auto simp: pv_update_finish_def give_def then_do_Some_Done on_boot_Done split: option.splits if_splits)
  next
    case False
    with Some assms have "pv_boot p' = pv_boot p"
      by (cases "u_status u") (auto simp: pv_update_finish_def give_def split: if_splits)
    then show ?thesis by simp
  qed
qed

lemma install_cases:
  assumes "pv_update_install w p = Some (Done (r, p'))"
  shows "(pv_boot p' \<noteq> pv_boot p \<longrightarrow> (\<exists>u pend es n. pv_update p = Some u \<and> pending_state p u = Some pend \<and>
      pv_events p' = pv_events p @ [Linked (s_rev pend), Json_installed (s_rev pend), Jsons_expanded (s_rev pend)] @ es \<and>
      0 \<le> w_link w pend \<and> w_json_open w \<and> w_expand w pend \<noteq> 0 \<and>
      pv_bootloader_set_installed (pv_ops p) (s_rev pend) (pv_boot p) = Some (Done (n, pv_boot p')))) \<and>
    (r < 0 \<longrightarrow> (\<forall>u pend. pv_update p = Some u \<longrightarrow> pending_state p u = Some pend \<longrightarrow>
      pv_events p' \<noteq> [] \<and> last (pv_events p') = Rm_rev (s_rev pend)))"
proof -
  obtain u where u: "pv_update p = Some u"
    using assms by (auto simp: pv_update_install_def split: option.splits)
  note d = pv_update_install_def give_def install_failed_def Let_def
  show ?thesis
  proof (cases "pending_state p u")
    case None
    with u assms show ?thesis by (simp add: d)
  next
    case (Some pend)
    let ?rv = "s_rev pend"
    let ?q = "log_event (Jsons_expanded ?rv) (log_event (Json_installed ?rv) (log_event (Linked ?rv) p))"
    show ?thesis
    proof (cases "pv_state p = None \<or> w_link w pend < 0 \<or> \<not> w_json_open w \<or> w_expand w pend = 0")
      case True
      with u Some assms have "pv_boot p' = pv_boot p \<and> pv_events p' \<noteq> [] \<and> last (pv_events p') = Rm_rev ?rv"
        by (auto simp: d split: if_splits)
      with u Some show ?thesis by simp
    next
      case False
      with u Some assms obtain n b where b: "pv_bootloader_set_installed (pv_ops p) ?rv (pv_boot p) = Some (Done (n, b))"
        and r: "(if n \<noteq> 0 then install_failed ?rv (-1) (?q\<lparr>pv_boot := b\<rparr>)
           else set_install_runlevel (w_link w pend) pend (set_status w UPDATE_INSTALLED (?q\<lparr>pv_boot := b\<rparr>))) = Some (Done (r, p'))"
        by (auto simp: pv_update_install_def Let_def then_do_Some_Done on_boot_Done)
      have "pv_boot p' = b \<and> (\<exists>es. pv_events p' = pv_events ?q @ es) \<and>
          (r < 0 \<longrightarrow> pv_events p' \<noteq> [] \<and> last (pv_events p') = Rm_rev ?rv)"
      proof (cases "n = 0")
        case True
        with r have s: "set_install_runlevel (w_link w pend) pend (set_status w UPDATE_INSTALLED (?q\<lparr>pv_boot := b\<rparr>)) = Some (Done (r, p'))"
          by simp
        from set_install_runlevel_fields [OF s] set_status_events [of w "?q\<lparr>pv_boot := b\<rparr>" UPDATE_INSTALLED] False
        show ?thesis by auto
      next
        case ne: False
        with r show ?thesis by (auto simp: install_failed_def give_def)
      qed
      with b u Some False show ?thesis by auto
    qed
  qed
qed

section \<open>Properties\<close>

text \<open>C23: \<open>pv_update_finish\<close> touches the boot loader in two states only: an update tested after a
  reboot is committed as the running revision, a failed one has its trial removed; whatever else
  it finishes leaves the boot loader as it was.\<close>
theorem finish_boot:
  assumes "pv_update_finish w p = Some (Done (r, p'))"
  shows "pv_boot p' = pv_boot p \<or>
    (\<exists>u. pv_update p = Some u \<and>
      (u_status u = UPDATE_FAILED \<and> (\<exists>n. pv_bootloader_set_failed (pv_ops p) (pv_boot p) = Some (Done (n, pv_boot p'))) \<or>
       u_status u = UPDATE_TESTING_REBOOT \<and> (\<exists>s n. pv_state p = Some s \<and>
          pv_bootloader_set_commited (pv_ops p) (s_rev s) (pv_boot p) = Some (Done (n, pv_boot p')) \<and> (n \<noteq> 0 \<longleftrightarrow> r = -1))))"
  using assms by (rule finish_boot_cases)

definition ex_world :: world where
  "ex_world = \<lparr>w_clock = ex_clock 100 0, w_time = 100, w_creds_id = Some ''dev'', w_max_retries = 3, w_storage_wait = 10, w_remote_init = True,
     w_auth = True, w_put_ok = True, w_trails = 1, w_trail_auth = True, w_put_objects = 0,
     w_steps = (\<lambda>e. if e = Ep_new then Steps (Some ''5'') (Some ''{}'') (Some 1) else Steps_none),
     w_state_json = (\<lambda>r. Some ''{}''), w_sig_ok = (\<lambda>j. True), w_parse = (\<lambda>j r. Some (pv_state_new r SPEC_SYSTEM1)),
     w_meta = (\<lambda>ob. Some (Some 3, Some (concat (replicate 32 ''07'')), Some ''https://host/path'')), w_free = (\<lambda>n. 1000),
     w_pvk = (\<lambda>ob. False), w_tmp_open = True, w_http = (\<lambda>url. Some ''abc''), w_sha256 = (\<lambda>b. replicate 32 7),
     w_link = (\<lambda>s. 0), w_json_open = True, w_expand = (\<lambda>s. 1)\<rparr>"

definition ex_pv :: "update_state \<Rightarrow> pv_state \<Rightarrow> grub pv" where
  "ex_pv st pend = \<lparr>pv_update = Some ((pv_update_new (Some ''dev'') (s_rev pend) False)\<lparr>u_status := st, u_pending := Own pend\<rparr>),
     pv_state = Some ex_old, pv_boot = \<lparr>pv_rev = ''1'', pv_try = None, pv_done = Some ''1'', store = gr_fresh [''pv_rev=1'']\<rparr>,
     pv_ops = None, pv_remote_mode = True, pv_online = True, pv_synced = True, pv_remote = True,
     pv_files = (\<lambda>p. None), pv_events = []\<rparr>"

theorem finish_boot_witness:
  "\<exists>p'. pv_update_finish ex_world (ex_pv UPDATE_TESTING_NONREBOOT ex_new) = Some (Done (0, p')) \<and>
     pv_boot p' = pv_boot (ex_pv UPDATE_TESTING_NONREBOOT ex_new)"
proof -
  let ?p = "ex_pv UPDATE_TESTING_NONREBOOT ex_new"
  have f: "pv_update_finish ex_world ?p = Some (Done (0, pv_update_remove (set_status ex_world UPDATE_UPDATED ?p)))"
    by (simp add: pv_update_finish_def ex_pv_def give_def)
  from finish_boot [OF f] show ?thesis using f by (auto simp: ex_pv_def)
qed

text \<open>C5: A download adds a file to the object pool only when its hash is the one the cloud gave for
  an object of the pending revision, whatever the network delivers and wherever the download ends,
  and it does not touch the boot loader.\<close>
theorem download_verified:
  assumes "pv_update_download w p = Some (Done (r, p'))" "pv_files p' path \<noteq> pv_files p path"
  shows "\<exists>u pend ob sha body. pv_update p = Some u \<and> pending_state p u = Some pend \<and>
    ob \<in> set (snd (get_all_meta w (s_objects pend))) \<and> path = o_objpath ob \<and> o_sha256 ob = Some sha \<and>
    pv_files p' path = Some body \<and> w_sha256 w body = hex_bytes sha"
proof -
  obtain run u where u: "pv_state p = Some run" "pv_update p = Some u"
    using assms by (auto simp: pv_update_download_def give_def split: option.splits)
  obtain pend where pend: "pending_state p u = Some pend"
    using assms u by (auto simp: pv_update_download_def give_def split: option.splits)
  have "fetched w (snd (get_all_meta w (s_objects pend))) (pv_files p) (pv_files p')"
    using assms(1) u pend
    by (auto simp: pv_update_download_def give_def Let_def then_do_Some_Done split: if_splits prod.splits
        dest!: download_objects_fetched check_retry_fields(1))
  with assms(2) u pend show ?thesis unfolding fetched_def by blast
qed

definition ex_pending :: pv_state where
  "ex_pending = (pv_state_new ''2'' SPEC_SYSTEM1)\<lparr>s_objects := [(ex_object ''os/root.img'' ''a'' None)\<lparr>o_objpath := ''/objects/a''\<rparr>],
     s_bsp := empty_bsp\<lparr>b_kernel_or_fit := Some ''kernel.img''\<rparr>\<rparr>"

definition ex_download :: "grub pv" where
  "ex_download = (ex_pv UPDATE_QUEUED ex_pending)\<lparr>pv_state := Some (ex_old\<lparr>s_bsp := empty_bsp\<lparr>b_kernel_or_fit := Some ''k''\<rparr>\<rparr>)\<rparr>"

lemma ex_world_simps:
  "w_clock ex_world = ex_clock 100 0" "timer_fin (ex_clock 100 0) zero_timer" "w_time ex_world = 100" "w_max_retries ex_world = 3" "w_storage_wait ex_world = 10" "w_remote_init ex_world"
  "w_meta ex_world ob = Some (Some 3, Some (concat (replicate 32 ''07'')), Some ''https://host/path'')"
  "w_free ex_world n = 1000" "\<not> w_pvk ex_world ob" "w_tmp_open ex_world" "w_http ex_world u = Some ''abc''"
  "w_sha256 ex_world b = replicate 32 7" "w_link ex_world st = 0" "w_json_open ex_world" "w_expand ex_world st = 1"
  by (simp_all add: ex_world_def timer_fin_def fin_iff zero_timer_def ex_clock_def)

lemma ex_hash: "hex_bytes (concat (replicate 32 ''07'')) = replicate 32 7"
  by (simp add: numeral_eq_Suc hex_byte_def hex_digit_def)

theorem download_verified_witness:
  "\<exists>r p'. pv_update_download ex_world ex_download = Some (Done (r, p')) \<and>
     pv_files p' ''/objects/a'' = Some ''abc'' \<and> w_sha256 ex_world ''abc'' = hex_bytes (concat (replicate 32 ''07''))"
proof -
  obtain r p' where d: "pv_update_download ex_world ex_download = Some (Done (r, p'))"
    "pv_files p' ''/objects/a'' = Some ''abc''"
    by (simp add: pv_update_download_def ex_download_def ex_pv_def ex_pending_def ex_defs pending_state_def Let_def
        pv_update_check_download_retry_def trail_download_objects_def trail_download_get_meta_def pv_update_new_def
        trail_check_update_size_def get_update_size_def kernel_lookup_ok_def empty_bsp_def set_pending_objects_def
        trail_download_object_def has_host_end_def strneq_def ex_world_simps ex_hash give_def RUNLEVEL_DATA_def)
  moreover have "pv_files ex_download ''/objects/a'' = None" by (simp add: ex_download_def ex_pv_def)
  ultimately have "pv_files p' ''/objects/a'' \<noteq> pv_files ex_download ''/objects/a''" by simp
  from download_verified [OF d(1) this] d show ?thesis by (auto simp: ex_hash ex_world_simps)
qed



lemma process_step_checked:
  assumes "res = process_step w wrong rv stj retries run p"
  shows "if fst res = 1
     then \<exists>u n s. pv_update p = None \<and> pv_update (snd res) = Some u \<and> u_status u = UPDATE_QUEUED \<and> u_pending u = Own s \<and>
       u_retries u = n \<and> n \<le> w_max_retries w \<and> atoi (s_rev run) \<le> atoi rv \<and> (\<exists>st. stj = Some st) \<and> w_sig_ok w stj \<and>
       w_parse w stj rv = Some s
     else pv_update (snd res) = pv_update p"
proof (cases "atoi rv < atoi (s_rev run) \<or> retries = None \<or> stj = None \<or> wrong \<or> w_max_retries w < the retries")
  case True
  let ?u = "pv_update_new (w_creds_id w) rv False"
  have "res = reject w ?u UPDATE_FAILED p \<or> res = reject w ?u UPDATE_NO_PARSE p \<or> res = reject w ?u UPDATE_NO_DOWNLOAD p"
    using assms True by (auto simp: process_step_def Let_def)
  then have "fst res = 0 \<and> pv_update (snd res) = pv_update p" by auto
  then show ?thesis by simp
next
  case False
  then obtain n st where n: "retries = Some n" "stj = Some st" by auto
  let ?u = "(pv_update_new (w_creds_id w) rv False)\<lparr>u_retries := n\<rparr>"
  obtain x p1 u1 where t: "trail_remote_set_status w p ?u UPDATE_QUEUED None = (x, p1, u1)"
    by (cases "trail_remote_set_status w p ?u UPDATE_QUEUED None") auto
  note f = remote_set_status_fields(5,6,8) [OF t]
  have res: "res = (if \<not> w_sig_ok w stj then reject w u1 UPDATE_NO_SIGNATURE p1
    else case w_parse w stj rv of None \<Rightarrow> reject w u1 UPDATE_NO_PARSE p1
      | Some s \<Rightarrow> (if pv_update p1 = None
          then (1, p1\<lparr>pv_update := Some (u1\<lparr>u_pending := Own s\<rparr>)\<rparr>) else (0, p1)))"
    using assms False n t by (simp add: process_step_def Let_def)
  show ?thesis
  proof (cases "w_sig_ok w stj \<and> w_parse w stj rv \<noteq> None \<and> pv_update p = None")
    case True
    with res f False n show ?thesis by auto
  next
    case no: False
    then have "fst res = 0 \<and> pv_update (snd res) = pv_update p"
      unfolding res using f(1) by (auto split: option.split)
    then show ?thesis by simp
  qed
qed

text \<open>C16: A step from the cloud becomes the update only when no update is going on, its revision is
  not older than the running one, its retries are not used up, its state has a valid signature and
  parses; it is then queued. Otherwise the program keeps the update that it has.\<close>
theorem new_step_checked:
  assumes "trail_get_new_steps w run p = (r, p')"
  shows "if r = 1
     then \<exists>u rv st n s. pv_update p = None \<and> pv_update p' = Some u \<and> u_status u = UPDATE_QUEUED \<and> u_pending u = Own s \<and>
       u_retries u = n \<and> n \<le> w_max_retries w \<and> atoi (s_rev run) \<le> atoi rv \<and> w_sig_ok w (Some st) \<and>
       w_parse w (Some st) rv = Some s
     else pv_update p' = pv_update p"
proof -
  show ?thesis
  proof (cases "\<exists>wrong rv stj retries. process_step w wrong rv stj retries run p = (r, p')")
    case True
    then obtain wrong rv stj retries where "(r, p') = process_step w wrong rv stj retries run p" by metis
    from process_step_checked [OF this] show ?thesis by (simp split: if_splits) blast
  next
    case False
    define es where "es = (if pv_update p \<noteq> None then [Ep_new] else [Ep_inprogress, Ep_downloading, Ep_queued, Ep_new])"
    have "r \<noteq> 1 \<and> p' = p"
    proof (rule ccontr)
      assume "\<not> (r \<noteq> 1 \<and> p' = p)"
      then show False
        using assms False unfolding trail_get_new_steps_def es_def [symmetric]
        by (cases "first_steps w es") (auto split: if_splits prod.splits steps.splits option.splits)
    qed
    then show ?thesis by simp
  qed
qed

theorem new_step_checked_witness:
  "\<exists>p' u. trail_get_new_steps ex_world ex_old ((ex_pv UPDATE_INIT ex_new)\<lparr>pv_update := None\<rparr>) = (1, p') \<and>
     pv_update p' = Some u \<and> u_status u = UPDATE_QUEUED \<and> u_retries u \<le> 3"
proof -
  let ?p = "(ex_pv UPDATE_INIT ex_new)\<lparr>pv_update := None\<rparr>"
  have a: "atoi ''5'' = 5" "atoi ''1'' = 1"
    by (simp_all add: atoi_def is_space_def digits_val_def is_digit_def)
  obtain p' where p': "trail_get_new_steps ex_world ex_old ?p = (1, p')"
    by (simp add: trail_get_new_steps_def process_step_def Let_def ex_pv_def ex_world_def ex_old_def a
        pv_state_new_def trail_remote_set_status_def pending_state_def pv_update_new_def)
  from new_step_checked [OF p'] have "\<exists>u. pv_update p' = Some u \<and> u_status u = UPDATE_QUEUED \<and> u_retries u \<le> w_max_retries ex_world"
    by auto
  with p' show ?thesis by (auto simp: ex_world_simps)
qed

text \<open>C24: After a reboot \<open>pv_update_resume\<close> takes up the revision on trial: as an update that is being
  tried when it is the one that was started, as a failed one when the boot loader went back to
  another, and there is no update when nothing was on trial.\<close>
theorem resume_after_reboot:
  assumes "pv_update p = None"
  shows "\<exists>p'. pv_update_resume w p = (RUNLEVEL_DATA, p') \<and> pv_boot p' = pv_boot p \<and>
    (case pv_update p' of
       None \<Rightarrow> pv_try (pv_boot p) = None \<or> pv_try (pv_boot p) = Some []
     | Some u \<Rightarrow> (\<exists>t. pv_try (pv_boot p) = Some t \<and> t \<noteq> [] \<and> u_pending u = No_pending \<and>
         u_status u = (if t = pv_rev (pv_boot p) then UPDATE_TRY else UPDATE_FAILED)))"
proof (cases "pv_bootloader_update_in_progress (pv_boot p)")
  case False
  with assms show ?thesis
    by (auto simp: pv_update_resume_def pv_bootloader_update_in_progress_def split: option.splits)
next
  case True
  then obtain t where t: "pv_try (pv_boot p) = Some t" "t \<noteq> []"
    by (auto simp: pv_bootloader_update_in_progress_def split: option.splits)
  let ?p1 = "p\<lparr>pv_update := Some (pv_update_new (w_creds_id w) t False)\<rparr>"
  let ?st = "if t = pv_rev (pv_boot p) then UPDATE_TRY else UPDATE_FAILED"
  have "pv_bootloader_trying_update (pv_boot p) \<longleftrightarrow> t = pv_rev (pv_boot p)"
    using t by (auto simp: pv_bootloader_trying_update_def pv_bootloader_update_in_progress_def
        strneq_full [simplified] split: option.split)
  then have r: "pv_update_resume w p = (RUNLEVEL_DATA, set_status w ?st ?p1)"
    using assms True t by (simp add: pv_update_resume_def)
  obtain u where "pv_update (set_status w ?st ?p1) = Some u" "u_status u = ?st" "u_pending u = No_pending"
    using set_status_update [of ?p1 "pv_update_new (w_creds_id w) t False" w ?st] by (auto simp: pv_update_new_def)
  with r t show ?thesis by simp
qed

theorem resume_after_reboot_witness:
  "\<exists>p'. pv_update_resume ex_world ((ex_pv UPDATE_INIT ex_new)\<lparr>pv_update := None\<rparr>) = (RUNLEVEL_DATA, p') \<and>
     pv_boot p' = pv_boot (ex_pv UPDATE_INIT ex_new)"
  using resume_after_reboot [of "(ex_pv UPDATE_INIT ex_new)\<lparr>pv_update := None\<rparr>" ex_world] by auto

text \<open>An update that changes nothing but apps needs no reboot: \<open>pv_update_requires_reboot\<close> asks for one
  exactly for runlevels up to that of the platforms, which it then lowers to root, so that everything
  from root on is stopped; otherwise the update goes into transition with its runlevel kept.\<close>
theorem requires_reboot_spec:
  assumes "pv_update p = Some u"
  shows "\<exists>p' u'. pv_update_requires_reboot w p = Some (Done (u_runlevel u \<le> 2, p')) \<and> pv_update p' = Some u' \<and>
    (if u_runlevel u \<le> 2 then u_runlevel u' = 1 \<and> u_status u' = UPDATE_REBOOT
     else u_runlevel u' = u_runlevel u \<and> u_status u' = UPDATE_TRANSITION)"
proof (cases "u_runlevel u \<le> 2")
  case True
  have s1: "pv_update (set_runlevel 1 p) = Some (u\<lparr>u_runlevel := 1\<rparr>)" using assms by (simp add: set_runlevel_def)
  obtain u' where "pv_update (set_status w UPDATE_REBOOT (set_runlevel 1 p)) = Some u'" "u_status u' = UPDATE_REBOOT"
    "u_runlevel u' = 1" using set_status_update [OF s1, of w UPDATE_REBOOT] by auto
  with True assms show ?thesis by (simp add: pv_update_requires_reboot_def runlevel_defs give_def)
next
  case False
  obtain u' where "pv_update (set_status w UPDATE_TRANSITION p) = Some u'" "u_status u' = UPDATE_TRANSITION"
    "u_runlevel u' = u_runlevel u" using set_status_update [OF assms, of w UPDATE_TRANSITION] by auto
  with False assms show ?thesis by (simp add: pv_update_requires_reboot_def runlevel_defs give_def)
qed

theorem requires_reboot_spec_witness:
  "\<exists>p'. pv_update_requires_reboot ex_world (ex_pv UPDATE_INSTALLED ex_new) = Some (Done (True, p'))"
  using requires_reboot_spec [of "ex_pv UPDATE_INSTALLED ex_new" _ ex_world]
  by (fastforce simp: ex_pv_def pv_update_new_def)

end
