(* ===== verification/Platforms.thy ===== *)
theory Platforms
  imports StateData
begin

text \<open>
  \<open>platforms.c\<close>: starting and stopping the containers of a revision by runlevel. The container
  runtime is a plugin, a parameter (\<open>rt_start\<close>); so are \<open>fork\<close> of the loggers and the answer of
  \<open>kill(pid, 0)\<close>, which may depend on everything that was done before, the history of events.
\<close>

datatype event = Stop_call string | Sigterm int | Sigkill int | Slept

record runtime =
  rt_mnt :: string
  rt_loggers :: bool
  rt_start :: "platform \<Rightarrow> string \<Rightarrow> string \<Rightarrow> nat option \<times> int"
  rt_fork :: "string \<Rightarrow> string \<Rightarrow> int"
  rt_alive :: "event list \<Rightarrow> int \<Rightarrow> bool"

section \<open>Starting\<close>

text \<open>\<open>_pv_platforms_get_ctrl\<close>: the only runtime is lxc; a \<open>NULL\<close> type or runtime is followed.\<close>

definition has_ctrl :: "platform \<Rightarrow> bool" where
  "has_ctrl p \<longleftrightarrow> p_type p = Some ''lxc''"

text \<open>The name goes to \<open>prefix[32]\<close> with a slash.\<close>

definition pv_platforms_start_platform :: "runtime \<Rightarrow> pv_state \<Rightarrow> platform \<Rightarrow> (int \<times> platform) outcome" where
  "pv_platforms_start_platform rt s p =
     (if s_spec s = SPEC_SYSTEM1 \<and> 30 < length (p_name p) then Fault
      else case p_configs p of None \<Rightarrow> Fault
      | Some cs \<Rightarrow>
         (let pre = (if s_spec s = SPEC_SYSTEM1 then p_name p @ ''/'' else []);
              c = (case cs of [] \<Rightarrow> ''(null)'' | c # _ \<Rightarrow> c);
              path = rt_mnt rt @ ''/trails/'' @ s_rev s @ ''/'' @ pre @ c
          in if \<not> has_ctrl p then Fault
             else case rt_start rt p (s_rev s) path of
                 (None, pid) \<Rightarrow> Done (-1, p)
               | (Some d, pid) \<Rightarrow>
                   (if 0 < pid then Done (0, p\<lparr>p_data := Some d, p_init_pid := pid, p_status := PLAT_STARTED\<rparr>)
                    else Done (-1, p\<lparr>p_data := Some d, p_init_pid := pid\<rparr>))))"

text \<open>The platforms of one runlevel, and all runlevels: whether all started, and the names started.\<close>

fun start_list :: "runtime \<Rightarrow> pv_state \<Rightarrow> int \<Rightarrow> platform list \<Rightarrow> (bool \<times> platform list \<times> string list) outcome" where
  "start_list rt s i [] = Done (True, [], [])"
| "start_list rt s i (p # ps) =
     (if p_runlevel p \<noteq> i \<or> p_status p = PLAT_STARTED
      then (case start_list rt s i ps of Fault \<Rightarrow> Fault | Done (b, ps', ns) \<Rightarrow> Done (b, p # ps', ns))
      else (case pv_platforms_start_platform rt s p of Fault \<Rightarrow> Fault
        | Done (r, p') \<Rightarrow>
            (if r \<noteq> 0 then Done (False, p' # ps, [])
             else case start_list rt s i ps of Fault \<Rightarrow> Fault
               | Done (b, ps', ns) \<Rightarrow> Done (b, p' # ps', p_name p # ns))))"

fun start_levels :: "runtime \<Rightarrow> pv_state \<Rightarrow> int list \<Rightarrow> platform list \<Rightarrow> (bool \<times> platform list \<times> string list) outcome" where
  "start_levels rt s [] ps = Done (True, ps, [])"
| "start_levels rt s (i # is) ps =
     (if i \<le> RUNLEVEL_DATA then start_levels rt s is ps
      else case start_list rt s i ps of Fault \<Rightarrow> Fault
       | Done (b, ps1, ns1) \<Rightarrow>
           (if \<not> b then Done (False, ps1, ns1)
            else case start_levels rt s is ps1 of Fault \<Rightarrow> Fault
              | Done (b', ps2, ns2) \<Rightarrow> Done (b', ps2, ns1 @ ns2)))"

definition start_loggers :: "runtime \<Rightarrow> platform \<Rightarrow> platform" where
  "start_loggers rt p = p\<lparr>p_loggers := map (\<lambda>l. let pid = rt_fork rt (p_name p) (l_name l)
     in if pid < 0 then l else l\<lparr>l_pid := pid\<rparr>) (p_loggers p)\<rparr>"

definition pv_platforms_start :: "runtime \<Rightarrow> pv_state \<Rightarrow> int \<Rightarrow> (int \<times> pv_state \<times> string list) outcome" where
  "pv_platforms_start rt s runlevel =
     (case start_levels rt s [runlevel..MAX_RUNLEVEL] (s_platforms s) of Fault \<Rightarrow> Fault
      | Done (b, ps, ns) \<Rightarrow>
          (if \<not> b then Done (-1, s\<lparr>s_platforms := ps\<rparr>, ns)
           else Done (int (length ns),
                 s\<lparr>s_platforms := if rt_loggers rt then map (start_loggers rt) ps else ps\<rparr>, ns)))"

section \<open>Stopping\<close>

text \<open>Processes that are still there are killed one after the other.\<close>

fun kill_alive :: "runtime \<Rightarrow> int list \<Rightarrow> event list \<Rightarrow> event list" where
  "kill_alive rt [] h = h"
| "kill_alive rt (pid # pids) h = kill_alive rt pids (if rt_alive rt h pid then h @ [Sigkill pid] else h)"

definition exited :: "runtime \<Rightarrow> int list \<Rightarrow> event list \<Rightarrow> nat" where
  "exited rt pids h = length (filter (\<lambda>pid. \<not> rt_alive rt h pid) pids)"

text \<open>Up to \<open>n\<close> checks with a second between them: the history and the last count.\<close>

fun wait_exited :: "runtime \<Rightarrow> int list \<Rightarrow> nat \<Rightarrow> nat \<Rightarrow> nat \<Rightarrow> event list \<Rightarrow> nat \<times> event list" where
  "wait_exited rt pids num 0 e h = (e, h)"
| "wait_exited rt pids num (Suc n) e h =
     (let e' = exited rt pids h in
      if e' = num then (e', h) else wait_exited rt pids num n e' (h @ [Slept]))"

definition wait_or_kill :: "runtime \<Rightarrow> int list \<Rightarrow> nat \<Rightarrow> event list \<Rightarrow> event list" where
  "wait_or_kill rt pids num h =
     (let (e, h1) = wait_exited rt pids num 5 0 h in if e \<noteq> num then kill_alive rt pids h1 else h1)"

definition pv_platform_stop_loggers :: "runtime \<Rightarrow> platform \<Rightarrow> event list \<Rightarrow> event list" where
  "pv_platform_stop_loggers rt p h =
     (let pids = map l_pid (p_loggers p); live = filter (\<lambda>pid. 0 < pid) pids
      in wait_or_kill rt pids (length live) (h @ map Sigterm live))"

text \<open>An update in the app runlevel only stops the apps that changed.\<close>

definition in_scope :: "int \<Rightarrow> int \<Rightarrow> platform \<Rightarrow> bool" where
  "in_scope runlevel i p \<longleftrightarrow>
     p_runlevel p = i \<and> \<not> (runlevel = RUNLEVEL_APP \<and> p_runlevel p = RUNLEVEL_APP \<and> \<not> p_updated p)"

definition down_levels :: "int \<Rightarrow> int list" where
  "down_levels runlevel = rev [runlevel..MAX_RUNLEVEL]"

definition scoped :: "int \<Rightarrow> platform list \<Rightarrow> platform list" where
  "scoped runlevel ps = concat (map (\<lambda>i. filter (in_scope runlevel i) ps) (down_levels runlevel))"

fun stop_list :: "int \<Rightarrow> int \<Rightarrow> platform list \<Rightarrow> (platform list \<times> string list) outcome" where
  "stop_list runlevel i [] = Done ([], [])"
| "stop_list runlevel i (p # ps) =
     (if in_scope runlevel i p \<and> p_status p = PLAT_STARTED \<and> 0 < p_init_pid p
      then if \<not> has_ctrl p then Fault
           else (case stop_list runlevel i ps of Fault \<Rightarrow> Fault
             | Done (ps', ns) \<Rightarrow> Done (p\<lparr>p_status := PLAT_STOPPED, p_data := None\<rparr> # ps', p_name p # ns))
      else (case stop_list runlevel i ps of Fault \<Rightarrow> Fault | Done (ps', ns) \<Rightarrow> Done (p # ps', ns)))"

fun stop_levels :: "int \<Rightarrow> int list \<Rightarrow> platform list \<Rightarrow> (platform list \<times> string list) outcome" where
  "stop_levels runlevel [] ps = Done (ps, [])"
| "stop_levels runlevel (i # is) ps =
     (case stop_list runlevel i ps of Fault \<Rightarrow> Fault
      | Done (ps1, ns1) \<Rightarrow> (case stop_levels runlevel is ps1 of Fault \<Rightarrow> Fault
          | Done (ps2, ns2) \<Rightarrow> Done (ps2, ns1 @ ns2)))"

definition pv_platforms_check_exited :: "runtime \<Rightarrow> pv_state \<Rightarrow> int \<Rightarrow> event list \<Rightarrow> nat" where
  "pv_platforms_check_exited rt s runlevel h = exited rt (map p_init_pid (scoped runlevel (s_platforms s))) h"

text \<open>\<open>pv_platforms_force_kill\<close> walks the same platforms in the same order as the check.\<close>

definition pv_platforms_force_kill :: "runtime \<Rightarrow> pv_state \<Rightarrow> int \<Rightarrow> event list \<Rightarrow> event list" where
  "pv_platforms_force_kill rt s runlevel h = kill_alive rt (map p_init_pid (scoped runlevel (s_platforms s))) h"

definition pv_platforms_stop :: "runtime \<Rightarrow> pv_state \<Rightarrow> int \<Rightarrow> event list \<Rightarrow> (nat \<times> pv_state \<times> event list) outcome" where
  "pv_platforms_stop rt s runlevel h =
     (let h1 = fold (pv_platform_stop_loggers rt) (s_platforms s) h in
      case stop_levels runlevel (down_levels runlevel) (s_platforms s) of Fault \<Rightarrow> Fault
      | Done (ps, ns) \<Rightarrow>
         (let s' = s\<lparr>s_platforms := ps\<rparr>;
              h2 = h1 @ map Stop_call ns;
              (e, h3) = wait_exited rt (map p_init_pid (scoped runlevel ps)) (length ns) 5 0 h2
          in Done (length ns, s',
                if e \<noteq> length ns then pv_platforms_force_kill rt s' runlevel h3 else h3)))"

section \<open>Facts\<close>

definition plat_ok :: "pv_state \<Rightarrow> platform \<Rightarrow> bool" where
  "plat_ok s p \<longleftrightarrow> has_ctrl p \<and> p_configs p \<noteq> None \<and> (s_spec s = SPEC_SYSTEM1 \<longrightarrow> length (p_name p) \<le> 30)"

definition waiting :: "int \<Rightarrow> platform list \<Rightarrow> string list" where
  "waiting i ps = map p_name (filter (\<lambda>p. p_runlevel p = i \<and> p_status p \<noteq> PLAT_STARTED) ps)"

lemma start_platform_ok:
  assumes "plat_ok s p"
  shows "\<exists>r p'. pv_platforms_start_platform rt s p = Done (r, p') \<and> (r \<noteq> 0 \<longrightarrow> p_status p' = p_status p) \<and>
    (r = 0 \<longrightarrow> p_status p' = PLAT_STARTED) \<and> p_name p' = p_name p \<and> p_runlevel p' = p_runlevel p \<and> plat_ok s p'"
  using assms
  by (auto simp: pv_platforms_start_platform_def plat_ok_def has_ctrl_def Let_def split: prod.splits option.splits)

text \<open>How a platform relates to what it was before the levels \<open>is\<close> were started.\<close>

definition started_by :: "pv_state \<Rightarrow> int list \<Rightarrow> platform \<Rightarrow> platform \<Rightarrow> bool" where
  "started_by s is p' p \<longleftrightarrow> plat_ok s p' \<and> p_name p' = p_name p \<and> p_runlevel p' = p_runlevel p \<and>
     p_status p' = (if p_runlevel p \<in> set is then PLAT_STARTED else p_status p)"

lemma started_by_refl: "list_all (plat_ok s) ps \<Longrightarrow> list_all2 (started_by s []) ps ps"
  by (induction ps) (auto simp: started_by_def)

lemma started_by_trans:
  "list_all2 (started_by s js) as bs \<Longrightarrow> list_all2 (started_by s is) bs cs \<Longrightarrow> list_all2 (started_by s (is @ js)) as cs"
  by (rule list_all2_trans [of "started_by s js" "started_by s is"]) (auto simp: started_by_def)

lemma started_by_waiting:
  "list_all2 (started_by s is) ps' ps \<Longrightarrow> i \<notin> set is \<Longrightarrow> waiting i ps' = waiting i ps"
  by (induction rule: list_all2_induct) (auto simp: waiting_def started_by_def)

lemma started_by_ok: "list_all2 (started_by s is) ps' ps \<Longrightarrow> list_all (plat_ok s) ps'"
  by (induction rule: list_all2_induct) (auto simp: started_by_def)

lemma start_list_ok:
  "list_all (plat_ok s) ps \<Longrightarrow>
   \<exists>b ps' ns. start_list rt s i ps = Done (b, ps', ns) \<and> prefix ns (waiting i ps) \<and>
     (b \<longrightarrow> ns = waiting i ps \<and> list_all2 (started_by s [i]) ps' ps)"
proof (induction ps)
  case Nil
  then show ?case by (auto simp: waiting_def intro: exI [of _ True])
next
  case (Cons p ps)
  from Cons obtain b ps' ns where ih: "start_list rt s i ps = Done (b, ps', ns)" "prefix ns (waiting i ps)"
    "b \<longrightarrow> ns = waiting i ps \<and> list_all2 (started_by s [i]) ps' ps" by auto
  obtain r p' where p: "pv_platforms_start_platform rt s p = Done (r, p')" "r = 0 \<longrightarrow> p_status p' = PLAT_STARTED"
    "p_name p' = p_name p" "p_runlevel p' = p_runlevel p" "plat_ok s p'"
    using start_platform_ok [of s p rt] Cons.prems by auto
  show ?case
  proof (cases "p_runlevel p \<noteq> i \<or> p_status p = PLAT_STARTED")
    case True
    moreover from this Cons.prems have "started_by s [i] p p" by (auto simp: started_by_def)
    ultimately show ?thesis using ih by (auto simp: waiting_def)
  next
    case False
    with p have "started_by s [i] p' p" if "r = 0" using that by (auto simp: started_by_def)
    with False ih p show ?thesis by (cases "r = 0"; cases b) (auto simp: waiting_def intro: exI [of _ False])
  qed
qed

lemma start_levels_ok:
  "list_all (plat_ok s) ps \<Longrightarrow> distinct is \<Longrightarrow>
   \<exists>b ps' ns. start_levels rt s is ps = Done (b, ps', ns) \<and>
     prefix ns (concat (map (\<lambda>i. waiting i ps) (filter (\<lambda>i. 0 < i) is))) \<and>
     (b \<longrightarrow> ns = concat (map (\<lambda>i. waiting i ps) (filter (\<lambda>i. 0 < i) is)) \<and>
       list_all2 (started_by s (filter (\<lambda>i. 0 < i) is)) ps' ps)"
proof (induction "is" arbitrary: ps)
  case Nil
  then show ?case using started_by_refl [of s ps] by (auto intro: exI [of _ True])
next
  case (Cons i "is")
  let ?js = "filter (\<lambda>i. 0 < i) is"
  show ?case
  proof (cases "i \<le> 0")
    case True
    with Cons show ?thesis by (simp add: RUNLEVEL_DATA_def)
  next
    case False
    obtain b ps1 ns1 where l: "start_list rt s i ps = Done (b, ps1, ns1)" "prefix ns1 (waiting i ps)"
      "b \<longrightarrow> ns1 = waiting i ps \<and> list_all2 (started_by s [i]) ps1 ps"
      using start_list_ok [OF Cons.prems(1), of rt i] by auto
    show ?thesis
    proof (cases b)
      case False
      with l \<open>\<not> i \<le> 0\<close> show ?thesis
        by (simp add: RUNLEVEL_DATA_def prefix_prefix) (blast intro: exI [of _ False])
    next
      case True
      with l(3) have ns1: "ns1 = waiting i ps" and ps1: "list_all2 (started_by s [i]) ps1 ps" by auto
      have w: "waiting j ps1 = waiting j ps" if "j \<in> set ?js" for j
      proof -
        have "j \<noteq> i" using Cons.prems(2) that by auto
        then show ?thesis using started_by_waiting [OF ps1, of j] by simp
      qed
      then have ws: "concat (map (\<lambda>i. waiting i ps1) ?js) = concat (map (\<lambda>i. waiting i ps) ?js)"
        by (metis (no_types, lifting) map_cong)
      obtain b' ps2 ns2 where r: "start_levels rt s is ps1 = Done (b', ps2, ns2)"
        "prefix ns2 (concat (map (\<lambda>i. waiting i ps1) ?js))"
        "b' \<longrightarrow> ns2 = concat (map (\<lambda>i. waiting i ps1) ?js) \<and> list_all2 (started_by s ?js) ps2 ps1"
        using Cons.IH [OF started_by_ok [OF ps1]] Cons.prems(2) by auto
      have "list_all2 (started_by s (i # ?js)) ps2 ps" if b'
        using started_by_trans [of s ?js ps2 ps1 "[i]" ps] r(3) ps1 that by simp
      with l r True ns1 ws \<open>\<not> i \<le> 0\<close> show ?thesis by (auto simp: RUNLEVEL_DATA_def)
    qed
  qed
qed

lemma start_loggers_fields [simp]:
  "p_status (start_loggers rt p) = p_status p" "p_runlevel (start_loggers rt p) = p_runlevel p"
  by (simp_all add: start_loggers_def)

section \<open>Facts about stopping\<close>

definition stops :: "int \<Rightarrow> int \<Rightarrow> platform \<Rightarrow> bool" where
  "stops runlevel i p \<longleftrightarrow> in_scope runlevel i p \<and> p_status p = PLAT_STARTED \<and> 0 < p_init_pid p"

definition stopped :: "int \<Rightarrow> int list \<Rightarrow> platform \<Rightarrow> platform" where
  "stopped runlevel is p =
     (if p_runlevel p \<in> set is \<and> stops runlevel (p_runlevel p) p then p\<lparr>p_status := PLAT_STOPPED, p_data := None\<rparr> else p)"

lemma stop_list_ok:
  "list_all has_ctrl ps \<Longrightarrow>
   stop_list runlevel i ps = Done (map (stopped runlevel [i]) ps, map p_name (filter (stops runlevel i) ps))"
  by (induction ps) (auto simp: stopped_def stops_def in_scope_def)

lemma stopped_fields [simp]:
  "p_name (stopped r is p) = p_name p" "p_init_pid (stopped r is p) = p_init_pid p"
  "has_ctrl (stopped r is p) = has_ctrl p" "in_scope r' j (stopped r is p) = in_scope r' j p"
  by (auto simp: stopped_def has_ctrl_def in_scope_def)

lemma stopped_other: "i \<noteq> j \<Longrightarrow> stops r j (stopped r [i] p) = stops r j p"
  by (auto simp: stopped_def stops_def in_scope_def)

lemma stopped_compose: "i \<notin> set is \<Longrightarrow> stopped r is (stopped r [i] p) = stopped r (i # is) p"
  by (auto simp: stopped_def stops_def in_scope_def)

lemma stop_levels_ok:
  "list_all has_ctrl ps \<Longrightarrow> distinct is \<Longrightarrow>
   stop_levels runlevel is ps =
     Done (map (stopped runlevel is) ps, concat (map (\<lambda>i. map p_name (filter (stops runlevel i) ps)) is))"
proof (induction "is" arbitrary: ps)
  case Nil
  have "stopped runlevel [] p = p" for p by (simp add: stopped_def)
  then show ?case by (simp add: map_idI)
next
  case (Cons i "is")
  let ?ps = "map (stopped runlevel [i]) ps"
  have "list_all has_ctrl ?ps" using Cons.prems(1) by (simp add: list_all_iff)
  moreover have "map p_name (filter (stops runlevel j) ?ps) = map p_name (filter (stops runlevel j) ps)" if "j \<in> set is" for j
    using Cons.prems(2) that stopped_other [of i j runlevel] by (induction ps) auto
  then have "concat (map (\<lambda>j. map p_name (filter (stops runlevel j) ?ps)) is) =
      concat (map (\<lambda>j. map p_name (filter (stops runlevel j) ps)) is)"
    by (metis (no_types, lifting) map_cong)
  moreover have "map (stopped runlevel is) ?ps = map (stopped runlevel (i # is)) ps"
    using Cons.prems(2) by (simp add: stopped_compose)
  ultimately show ?case
    using Cons.IH [of ?ps] Cons.prems stop_list_ok [OF Cons.prems(1), of runlevel i] by simp
qed

lemma scoped_stopped: "scoped r (map (stopped r is) ps) = map (stopped r is) (scoped r ps)"
  by (simp add: scoped_def filter_map comp_def map_concat)

lemma pids_scoped_stopped [simp]:
  "map p_init_pid (scoped r (map (stopped r is) ps)) = map p_init_pid (scoped r ps)"
  by (simp add: scoped_stopped comp_def)

lemma distinct_down: "distinct (down_levels r)" by (simp add: down_levels_def)

lemma kill_alive_prefix: "prefix h (kill_alive rt pids h)"
  by (induction pids arbitrary: h) (auto intro: prefix_order.trans dest: append_prefixD)

definition gone :: "runtime \<Rightarrow> event list \<Rightarrow> int \<Rightarrow> bool" where
  "gone rt h pid \<longleftrightarrow> Sigkill pid \<in> set h \<or> (\<exists>h1. prefix h1 h \<and> \<not> rt_alive rt h1 pid)"

lemma gone_mono: "gone rt h pid \<Longrightarrow> prefix h h' \<Longrightarrow> gone rt h' pid"
  unfolding gone_def by (meson prefix_order.trans set_mono_prefix subsetD)

lemma kill_alive_gone: "pid \<in> set pids \<Longrightarrow> gone rt (kill_alive rt pids h) pid"
proof (induction pids arbitrary: h)
  case (Cons q pids)
  let ?h = "if rt_alive rt h q then h @ [Sigkill q] else h"
  have "gone rt ?h q" by (auto simp: gone_def)
  with gone_mono kill_alive_prefix [of ?h rt pids] have "gone rt (kill_alive rt pids ?h) q" by blast
  with Cons show ?case by auto
qed simp

lemma wait_exited_ok:
  "wait_exited rt pids num (Suc n) e h = (e', h') \<Longrightarrow> prefix h h' \<and> (e' = num \<longrightarrow> exited rt pids h' = num)"
proof (induction n arbitrary: e h)
  case 0
  then show ?case by (auto simp: Let_def split: if_splits)
next
  case (Suc n)
  show ?case
  proof (cases "exited rt pids h = num")
    case True
    with Suc.prems show ?thesis by simp
  next
    case False
    with Suc.prems have "wait_exited rt pids num (Suc n) (exited rt pids h) (h @ [Slept]) = (e', h')"
      by (simp add: Let_def)
    from Suc.IH [OF this] show ?thesis using append_prefixD by blast
  qed
qed

lemma exited_all: "exited rt pids h = length pids \<Longrightarrow> pid \<in> set pids \<Longrightarrow> \<not> rt_alive rt h pid"
  unfolding exited_def by (metis (mono_tags, lifting) filter_id_conv length_filter_less linorder_neq_iff)

section \<open>Properties\<close>

text \<open>C21: With a loaded runtime and platforms it can run, \<open>pv_platforms_start\<close> never faults; it starts
  the platforms that do not run in ascending order of their runlevels from the given one on, root
  first, and stops at the first failure with -1; otherwise every platform of these runlevels runs
  and the result is their number.\<close>
theorem start_order:
  assumes "list_all (plat_ok s) (s_platforms s)"
  shows "\<exists>r s' ns. pv_platforms_start rt s runlevel = Done (r, s', ns) \<and>
    prefix ns (concat (map (\<lambda>i. waiting i (s_platforms s)) (filter (\<lambda>i. 0 < i) [runlevel..3]))) \<and>
    (r \<noteq> -1 \<longrightarrow> r = int (length ns) \<and>
      ns = concat (map (\<lambda>i. waiting i (s_platforms s)) (filter (\<lambda>i. 0 < i) [runlevel..3])) \<and>
      map p_status (s_platforms s') = map (\<lambda>p. if runlevel \<le> p_runlevel p \<and> 0 < p_runlevel p \<and> p_runlevel p \<le> 3
        then PLAT_STARTED else p_status p) (s_platforms s))"
proof -
  let ?is = "[runlevel..3]"
  obtain b ps' ns where l: "start_levels rt s ?is (s_platforms s) = Done (b, ps', ns)"
    "prefix ns (concat (map (\<lambda>i. waiting i (s_platforms s)) (filter (\<lambda>i. 0 < i) ?is)))"
    "b \<longrightarrow> ns = concat (map (\<lambda>i. waiting i (s_platforms s)) (filter (\<lambda>i. 0 < i) ?is)) \<and>
       list_all2 (started_by s (filter (\<lambda>i. 0 < i) ?is)) ps' (s_platforms s)"
    using start_levels_ok [OF assms, of ?is rt] by auto
  have "map p_status ps' = map (\<lambda>p. if runlevel \<le> p_runlevel p \<and> 0 < p_runlevel p \<and> p_runlevel p \<le> 3
      then PLAT_STARTED else p_status p) (s_platforms s)" if b
    using l(3) that by (auto simp: list_all2_conv_all_nth started_by_def intro!: nth_equalityI)
  with l show ?thesis
    by (cases b) (auto simp: pv_platforms_start_def MAX_RUNLEVEL_def comp_def)
qed

definition ex_run :: "nat \<Rightarrow> string \<Rightarrow> int \<Rightarrow> platform" where
  "ex_run a n r = (new_platform a n)\<lparr>p_type := Some ''lxc'', p_configs := Some [''lxc.conf''],
     p_status := PLAT_INSTALLED, p_runlevel := r\<rparr>"

definition ex_rt :: "bool \<Rightarrow> runtime" where
  "ex_rt live = \<lparr>rt_mnt = ''/storage'', rt_loggers = False, rt_start = \<lambda>p r c. (Some 1, int (p_addr p)),
     rt_fork = \<lambda>p l. 1, rt_alive = \<lambda>h pid. live\<rparr>"

definition ex_running :: pv_state where
  "ex_running = (pv_state_new ''1'' SPEC_SYSTEM1)\<lparr>s_platforms := [ex_run 5 ''app'' 3, ex_run 6 ''os'' 1]\<rparr>"

lemma upto_03: "[0..3] = [0, 1, 2, 3 :: int]" by (simp add: upto.simps)

theorem start_order_witness:
  "\<exists>r s' ns. pv_platforms_start (ex_rt True) ex_running 0 = Done (r, s', ns) \<and> prefix ns [''os'', ''app''] \<and>
    (r \<noteq> -1 \<longrightarrow> r = int (length ns) \<and> ns = [''os'', ''app''] \<and>
      map p_status (s_platforms s') = [PLAT_STARTED, PLAT_STARTED])"
proof -
  have "list_all (plat_ok ex_running) (s_platforms ex_running)"
    by (simp add: ex_running_def plat_ok_def has_ctrl_def ex_run_def new_platform_def pv_state_new_def)
  from start_order [OF this, of "ex_rt True" 0] show ?thesis
    by (simp add: upto_03 waiting_def ex_running_def ex_run_def new_platform_def pv_state_new_def)
qed


definition ex_stop :: pv_state where
  "ex_stop = (pv_state_new ''1'' SPEC_SYSTEM1)\<lparr>s_platforms :=
     [(ex_run 5 ''app'' 3)\<lparr>p_status := PLAT_STARTED, p_init_pid := 50, p_updated := True\<rparr>,
      (ex_run 6 ''bpp'' 3)\<lparr>p_status := PLAT_STARTED, p_init_pid := 60\<rparr>]\<rparr>"

lemma upto_33: "[3..3] = [3 :: int]" by (simp add: upto.simps)


text \<open>When every platform in scope is running, \<open>pv_platforms_stop\<close> leaves none behind: of each one
  the process was seen gone, or it was sent SIGKILL.\<close>
theorem stop_leaves_none:
  assumes "list_all has_ctrl (s_platforms s)"
    and "list_all (\<lambda>p. p_status p = PLAT_STARTED \<and> 0 < p_init_pid p) (scoped runlevel (s_platforms s))"
  shows "\<exists>n s' h'. pv_platforms_stop rt s runlevel h = Done (n, s', h') \<and>
    list_all (\<lambda>p. gone rt h' (p_init_pid p)) (scoped runlevel (s_platforms s))"
proof -
  let ?ps = "s_platforms s" and ?sc = "scoped runlevel (s_platforms s)"
  let ?pids = "map p_init_pid ?sc"
  let ?ns = "concat (map (\<lambda>i. map p_name (filter (stops runlevel i) ?ps)) (down_levels runlevel))"
  have "filter (stops runlevel i) ?ps = filter (in_scope runlevel i) ?ps" if "i \<in> set (down_levels runlevel)" for i
    using assms(2) that by (intro filter_cong) (auto simp: scoped_def list_all_iff stops_def)
  then have "?ns = concat (map (\<lambda>i. map p_name (filter (in_scope runlevel i) ?ps)) (down_levels runlevel))"
    by (intro arg_cong [of _ _ concat] map_cong) auto
  then have len: "length ?ns = length ?sc" by (simp add: scoped_def length_concat comp_def)
  define h2 where "h2 = fold (pv_platform_stop_loggers rt) ?ps h @ map Stop_call ?ns"
  obtain e h3 where w: "wait_exited rt ?pids (length ?ns) 5 0 h2 = (e, h3)" by (cases "wait_exited rt ?pids (length ?ns) 5 0 h2")
  let ?h = "if e \<noteq> length ?ns then kill_alive rt ?pids h3 else h3"
  have "\<exists>s'. pv_platforms_stop rt s runlevel h = Done (length ?ns, s', ?h)"
    using stop_levels_ok [OF assms(1) distinct_down, of runlevel runlevel] w
    by (simp add: pv_platforms_stop_def pv_platforms_force_kill_def Let_def h2_def)
  moreover have "gone rt ?h pid" if "pid \<in> set ?pids" for pid
  proof (cases "e = length ?ns")
    case True
    with wait_exited_ok [of rt ?pids "length ?ns" 4 0 h2] w len have "exited rt ?pids h3 = length ?pids" by simp
    from exited_all [OF this that] True show ?thesis unfolding gone_def by (metis prefix_order.refl)
  next
    case False
    with kill_alive_gone [OF that] show ?thesis by simp
  qed
  ultimately show ?thesis by (auto simp: list_all_iff)
qed

theorem stop_leaves_none_witness:
  "\<exists>n s' h'. pv_platforms_stop (ex_rt True) ex_stop 3 [] = Done (n, s', h') \<and> gone (ex_rt True) h' 50"
proof -
  have sc: "scoped 3 (s_platforms ex_stop) = [hd (s_platforms ex_stop)]"
    by (simp add: scoped_def down_levels_def upto_33 in_scope_def runlevel_defs ex_stop_def ex_run_def
        new_platform_def pv_state_new_def)
  have "list_all has_ctrl (s_platforms ex_stop)"
    by (simp add: ex_stop_def has_ctrl_def ex_run_def new_platform_def pv_state_new_def)
  from stop_leaves_none [OF this, of 3 "ex_rt True" "[]"] sc show ?thesis
    by (simp add: ex_stop_def ex_run_def new_platform_def pv_state_new_def)
qed

text \<open>A platform in scope that was never started has \<open>init_pid\<close> 0, and \<open>kill(0, 0)\<close> succeeds: when
  a running one does not end in time, \<open>pv_platforms_force_kill\<close> sends SIGKILL to process 0, that is
  to the whole process group of the caller.\<close>
theorem force_kill_own_group:
  assumes "list_all has_ctrl (s_platforms s)" "\<forall>h pid. rt_alive rt h pid"
    and "p \<in> set (scoped runlevel (s_platforms s))" "p_init_pid p = 0"
    and "q \<in> set (s_platforms s)" "stops runlevel (p_runlevel q) q" "runlevel \<le> p_runlevel q" "p_runlevel q \<le> 3"
  shows "\<exists>n s' h'. pv_platforms_stop rt s runlevel h = Done (n, s', h') \<and> Sigkill 0 \<in> set h'"
proof -
  let ?ps = "s_platforms s"
  let ?pids = "map p_init_pid (scoped runlevel ?ps)"
  let ?ns = "concat (map (\<lambda>i. map p_name (filter (stops runlevel i) ?ps)) (down_levels runlevel))"
  have "p_name q \<in> set ?ns" using assms(5-8) by (auto simp: down_levels_def MAX_RUNLEVEL_def)
  then have ne: "length ?ns \<noteq> 0" by (metis length_0_conv empty_iff empty_set)
  define h2 where "h2 = fold (pv_platform_stop_loggers rt) ?ps h @ map Stop_call ?ns"
  obtain e h3 where w: "wait_exited rt ?pids (length ?ns) 5 0 h2 = (e, h3)" by (cases "wait_exited rt ?pids (length ?ns) 5 0 h2")
  have "exited rt ?pids h = 0" for h using assms(2) by (simp add: exited_def)
  then have "e \<noteq> length ?ns" using wait_exited_ok [of rt ?pids "length ?ns" 4 0 h2] w ne by auto
  then have "\<exists>s'. pv_platforms_stop rt s runlevel h = Done (length ?ns, s', kill_alive rt ?pids h3)"
    using stop_levels_ok [OF assms(1) distinct_down, of runlevel runlevel] w
    by (simp add: pv_platforms_stop_def pv_platforms_force_kill_def Let_def h2_def)
  moreover have "gone rt (kill_alive rt ?pids h3) 0" using assms(3,4) by (intro kill_alive_gone) force
  ultimately show ?thesis using assms(2) by (auto simp: gone_def)
qed

definition ex_mixed :: pv_state where
  "ex_mixed = (pv_state_new ''1'' SPEC_SYSTEM1)\<lparr>s_platforms :=
     [(ex_run 5 ''app'' 3)\<lparr>p_status := PLAT_STARTED, p_init_pid := 50, p_updated := True\<rparr>,
      (ex_run 6 ''new'' 3)\<lparr>p_updated := True\<rparr>]\<rparr>"

theorem force_kill_own_group_witness:
  "\<exists>n s' h'. pv_platforms_stop (ex_rt True) ex_mixed 3 [] = Done (n, s', h') \<and> Sigkill 0 \<in> set h'"
proof (rule force_kill_own_group)
  show "list_all has_ctrl (s_platforms ex_mixed)"
    by (simp add: ex_mixed_def has_ctrl_def ex_run_def new_platform_def pv_state_new_def)
  show "(ex_run 6 ''new'' 3)\<lparr>p_updated := True\<rparr> \<in> set (scoped 3 (s_platforms ex_mixed))"
    by (simp add: scoped_def down_levels_def upto_33 in_scope_def runlevel_defs ex_mixed_def ex_run_def
        new_platform_def pv_state_new_def)
  show "hd (s_platforms ex_mixed) \<in> set (s_platforms ex_mixed)" by (simp add: ex_mixed_def)
qed (simp_all add: ex_rt_def ex_mixed_def ex_run_def new_platform_def pv_state_new_def stops_def in_scope_def runlevel_defs)

end
