(* ===== verification/Volumes.thy ===== *)
theory Volumes
  imports StateOps
begin

text \<open>
  \<open>volumes.c\<close> with \<open>loop.c\<close>: mounting and unmounting the volumes of a revision by runlevel. The kernel
  is a parameter: \<open>mk_call\<close> answers the last call of a history of calls, so that an answer may
  depend on everything that was done before; \<open>mk_stat\<close> is 0 or the error number.
\<close>

datatype mflag = Mnt_bind | Mnt_bind_rec | Mnt_plain

datatype mevent = Mkdir_p string | Touch string | Mount string string "string option" mflag "string option"
  | Umount "string option" | Loop_get_free | Open_rw string | Loop_set_fd int int | Loop_clr_fd int | Close int

record mkernel =
  mk_mnt :: string
  mk_stat :: "string \<Rightarrow> int"
  mk_uname :: "string option"
  mk_call :: "mevent list \<Rightarrow> int"

definition call :: "mkernel \<Rightarrow> mevent \<Rightarrow> mevent list \<Rightarrow> int \<times> mevent list" where
  "call k e h = (mk_call k (h @ [e]), h @ [e])"

section \<open>Loop devices\<close>

text \<open>\<open>get_free_loop\<close> and \<open>bind_loop_dev\<close>: the name of the device, the two descriptors.\<close>

definition get_free_loop :: "mkernel \<Rightarrow> mevent list \<Rightarrow> string option \<times> mevent list" where
  "get_free_loop k h =
     (let (ctl, h1) = call k (Open_rw ''/dev/loop-control'') h in
      if ctl < 0 then (None, h1)
      else let (dev, h2) = call k Loop_get_free h1; h3 = (if 0 < ctl then snd (call k (Close ctl) h2) else h2)
        in (if dev < 0 then None else Some (''/dev/loop'' @ show_int dev), h3))"

definition bind_loop_dev :: "mkernel \<Rightarrow> string \<Rightarrow> string \<Rightarrow> mevent list \<Rightarrow> (int \<times> int) option \<times> mevent list" where
  "bind_loop_dev k dev file h =
     (let (lfd, h1) = call k (Open_rw dev) h in
      if lfd < 0 then (None, h1)
      else let (ffd, h2) = call k (Open_rw file) h1 in
        if ffd < 0 then (None, h2)
        else let (r, h3) = call k (Loop_set_fd lfd ffd) h2 in (if r < 0 then None else Some (lfd, ffd), h3))"

definition mount_ext4 :: "mkernel \<Rightarrow> string \<Rightarrow> string \<Rightarrow> mevent list \<Rightarrow> int \<times> mevent list" where
  "mount_ext4 k dev dest h =
     (let (r1, h1) = call k (Mount dev dest (Some ''ext4'') Mnt_plain (Some ''data=journal'')) h in
      if r1 = 0 then (r1, h1)
      else let (r2, h2) = call k (Mount dev dest (Some ''ext4'') Mnt_plain (Some ''data=ordered'')) h1 in
        if r2 = 0 then (r2, h2) else call k (Mount dev dest (Some ''ext4'') Mnt_plain None) h2)"

text \<open>The result and the descriptors, -1 as long as no device is bound.\<close>

definition mount_loop :: "mkernel \<Rightarrow> string \<Rightarrow> string \<Rightarrow> string \<Rightarrow> mevent list \<Rightarrow> (int \<times> int \<times> int) \<times> mevent list" where
  "mount_loop k src dest fstype h =
     (let (devo, h1) = get_free_loop k h in
      case devo of None \<Rightarrow> ((-1, -1, -1), h1)
      | Some dev \<Rightarrow>
         (let (fds, h2) = bind_loop_dev k dev src h1 in
          case fds of None \<Rightarrow> ((-1, -1, -1), h2)
          | Some (lfd, ffd) \<Rightarrow>
             (let (m, h3) = call k (Mkdir_p dest) h2 in
              if m < 0 then ((-1, lfd, ffd), h3)
              else let (r, h4) = (if fstype = ''ext4'' then mount_ext4 k dev dest h3
                                  else call k (Mount dev dest (Some fstype) Mnt_plain None) h3)
                in ((r, lfd, ffd), h4))))"

definition unmount_loop :: "mkernel \<Rightarrow> string option \<Rightarrow> int \<Rightarrow> int \<Rightarrow> mevent list \<Rightarrow> int \<times> mevent list" where
  "unmount_loop k dest lfd ffd h =
     (let (r1, h1) = call k (Umount dest) h in if r1 < 0 then (r1, h1)
      else let (r2, h2) = call k (Loop_clr_fd lfd) h1 in if r2 < 0 then (r2, h2)
      else let (r3, h3) = call k (Close lfd) h2 in if r3 < 0 then (r3, h3) else call k (Close ffd) h3)"

section \<open>One volume\<close>

text \<open>The platform of a volume: none, or found at its address; a dangling address is a fault.\<close>

definition vol_plat :: "pv_state \<Rightarrow> volume \<Rightarrow> platform option outcome" where
  "vol_plat s v = (case v_plat v of None \<Rightarrow> Done None
     | Some a \<Rightarrow> (case plat_at (s_platforms s) a of None \<Rightarrow> Fault | Some p \<Rightarrow> Done (Some p)))"

text \<open>The paths by the spec of the state; \<open>None\<close> for an unknown one.\<close>

definition vol_paths :: "string \<Rightarrow> pv_state \<Rightarrow> platform option \<Rightarrow> string \<Rightarrow> (string \<times> string) option" where
  "vol_paths mnt s po n =
     (case s_spec s of
        SPEC_SYSTEM1 \<Rightarrow> (case po of
            Some p \<Rightarrow> Some (mnt @ ''/trails/'' @ s_rev s @ ''/'' @ p_name p @ ''/'' @ n, ''/volumes/'' @ p_name p @ ''/'' @ n)
          | None \<Rightarrow> Some (mnt @ ''/trails/'' @ s_rev s @ ''/bsp/'' @ n, ''/volumes/'' @ n))
      | SPEC_MULTI1 \<Rightarrow> Some (mnt @ ''/trails/'' @ s_rev s @ ''/'' @ n, ''/volumes/'' @ n)
      | SPEC_UNKNOWN \<Rightarrow> None)"

text \<open>\<open>strrchr(name, '.') + 1\<close>.\<close>

definition vol_fstype :: "string \<Rightarrow> string option" where
  "vol_fstype n = map_option (\<lambda>i. drop (i + 1) n) (strrchr n CHR ''.'')"

type_synonym mount_result = "((int \<times> string \<times> int \<times> int) \<times> mevent list) outcome"

definition mount_image :: "mkernel \<Rightarrow> string \<Rightarrow> string \<Rightarrow> string \<Rightarrow> mevent list \<Rightarrow> mount_result" where
  "mount_image k path mp n h =
     (case vol_fstype n of None \<Rightarrow> Fault
      | Some fstype \<Rightarrow>
         (if fstype = ''bind''
          then (let h1 = (if mk_stat k mp \<noteq> 0 then snd (call k (Touch mp) h) else h);
                    (r, h2) = call k (Mount path mp None Mnt_bind None) h1 in Done ((r, path, -1, -1), h2))
          else if fstype = ''data''
          then (let (r, h2) = call k (Mount path mp None Mnt_bind_rec None) (snd (call k (Mkdir_p mp) h))
                in Done ((r, path, -1, -1), h2))
          else (let ((r, lfd, ffd), h2) = mount_loop k path mp fstype h in Done ((r, path, lfd, ffd), h2))))"

definition mount_dir :: "mkernel \<Rightarrow> string \<Rightarrow> string \<Rightarrow> mevent list \<Rightarrow> mount_result" where
  "mount_dir k path mp h =
     (let h1 = snd (call k (Mkdir_p mp) (snd (call k (Mkdir_p path) h)));
          (r, h2) = call k (Mount path mp (Some ''none'') Mnt_bind (Some ''rw'')) h1
      in Done ((r, path, -1, -1), h2))"

text \<open>The switch on the type of the volume.\<close>

definition mount_kind :: "mkernel \<Rightarrow> pv_state \<Rightarrow> platform option \<Rightarrow> string \<Rightarrow> string \<Rightarrow> volume \<Rightarrow> mevent list \<Rightarrow> mount_result" where
  "mount_kind k s po path mp v h =
     (let base = mk_mnt k @ ''/disks'' in
      case v_type v of
        VOL_LOOPIMG \<Rightarrow> mount_image k path mp (v_name v) h
      | VOL_PERMANENT \<Rightarrow> (case po of None \<Rightarrow> Fault
          | Some p \<Rightarrow> mount_dir k (base @ ''/perm/'' @ p_name p @ ''/'' @ v_name v) mp h)
      | VOL_REVISION \<Rightarrow> (case po of None \<Rightarrow> Fault
          | Some p \<Rightarrow> mount_dir k (base @ ''/rev/'' @ s_rev s @ ''/'' @ p_name p @ ''/'' @ v_name v) mp h)
      | VOL_BOOT \<Rightarrow>
          (let (r, h2) = call k (Mount ''none'' mp (Some ''tmpfs'') Mnt_plain None) (snd (call k (Mkdir_p mp) h))
           in Done ((r, path, -1, -1), h2))
      | VOL_UNKNOWN \<Rightarrow> Done ((-1, path, -1, -1), h))"

text \<open>\<open>pv_volumes_mount_volume\<close>; \<open>base[128]\<close>, \<open>path[4096]\<close> and \<open>mntpoint[521]\<close> must hold the names.\<close>

definition pv_volumes_mount_volume :: "mkernel \<Rightarrow> pv_state \<Rightarrow> volume \<Rightarrow> mevent list \<Rightarrow> ((int \<times> volume) \<times> mevent list) outcome" where
  "pv_volumes_mount_volume k s v h =
     (if 127 < length (mk_mnt k @ ''/disks'') then Fault
      else case vol_plat s v of Fault \<Rightarrow> Fault
       | Done po \<Rightarrow>
          (case vol_paths (mk_mnt k) s po (v_name v) of None \<Rightarrow> Done ((-1, v), h)
           | Some (path, mp) \<Rightarrow>
              (if 4095 < length path \<or> 520 < length mp then Fault
               else case mount_kind k s po path mp v h of Fault \<Rightarrow> Fault
                 | Done ((r, path', lfd, ffd), h2) \<Rightarrow>
                     (if r < 0 then Done ((r, v), h2)
                      else Done ((r, v\<lparr>v_src := Some path', v_dest := Some mp, v_loop_fd := lfd, v_file_fd := ffd\<rparr>), h2)))))"

section \<open>All volumes\<close>

text \<open>A volume without platform belongs to the root runlevel, one of a running platform is left alone.\<close>

definition vol_turn :: "pv_state \<Rightarrow> int \<Rightarrow> volume \<Rightarrow> bool outcome" where
  "vol_turn s i v = (case vol_plat s v of Fault \<Rightarrow> Fault
     | Done None \<Rightarrow> Done (i = RUNLEVEL_ROOT)
     | Done (Some p) \<Rightarrow> Done (i = p_runlevel p \<and> p_status p \<noteq> PLAT_STARTED))"

fun mount_list :: "mkernel \<Rightarrow> pv_state \<Rightarrow> int \<Rightarrow> volume list \<Rightarrow> mevent list \<Rightarrow> ((int \<times> volume list) \<times> mevent list) outcome" where
  "mount_list k s i [] h = Done ((0, []), h)"
| "mount_list k s i (v # vs) h =
     (case vol_turn s i v of Fault \<Rightarrow> Fault
      | Done False \<Rightarrow> (case mount_list k s i vs h of Fault \<Rightarrow> Fault | Done ((r, vs'), h') \<Rightarrow> Done ((r, v # vs'), h'))
      | Done True \<Rightarrow> (case pv_volumes_mount_volume k s v h of Fault \<Rightarrow> Fault
          | Done ((r, v'), h1) \<Rightarrow>
              (if r \<noteq> 0 then Done ((r, v' # vs), h1)
               else case mount_list k s i vs h1 of Fault \<Rightarrow> Fault | Done ((r', vs'), h') \<Rightarrow> Done ((r', v' # vs'), h'))))"

fun mount_levels :: "mkernel \<Rightarrow> pv_state \<Rightarrow> int list \<Rightarrow> volume list \<Rightarrow> mevent list \<Rightarrow> ((int \<times> volume list) \<times> mevent list) outcome" where
  "mount_levels k s [] vs h = Done ((0, vs), h)"
| "mount_levels k s (i # is) vs h =
     (case mount_list k s i vs h of Fault \<Rightarrow> Fault
      | Done ((r, vs1), h1) \<Rightarrow> if r \<noteq> 0 then Done ((r, vs1), h1) else mount_levels k s is vs1 h1)"

definition image_path :: "string \<Rightarrow> string" where
  "image_path f = (if CHR ''/'' \<in> set f then f else ''/volumes/'' @ f)"

definition mount_modules :: "mkernel \<Rightarrow> pv_state \<Rightarrow> int \<Rightarrow> mevent list \<Rightarrow> int \<times> mevent list" where
  "mount_modules k s r h =
     (case b_modules (s_bsp s) of None \<Rightarrow> (r, h)
      | Some m \<Rightarrow> (case mk_uname k of None \<Rightarrow> (r, h)
          | Some rel \<Rightarrow>
             (if mk_stat k (image_path m) \<noteq> 0 then (r, h)
              else let lib = ''/lib/modules/'' @ rel; h1 = snd (call k (Mkdir_p lib) h)
                in call k (Mount (image_path m) lib (Some ''none'') Mnt_bind None) h1)))"

definition FW_PATH :: string where "FW_PATH = ''/lib/firmware''"
definition ENOENT :: int where "ENOENT = 2"

definition pv_volumes_mount_firmware_modules :: "mkernel \<Rightarrow> pv_state \<Rightarrow> mevent list \<Rightarrow> int \<times> mevent list" where
  "pv_volumes_mount_firmware_modules k s h =
     (case b_firmware (s_bsp s) of None \<Rightarrow> mount_modules k s 0 h
      | Some f \<Rightarrow>
         (let h1 = (if mk_stat k FW_PATH = ENOENT then snd (call k (Mkdir_p FW_PATH) h) else h) in
          if mk_stat k (image_path f) \<noteq> 0 then mount_modules k s 0 h1
          else let (r, h2) = call k (Mount (image_path f) FW_PATH (Some ''none'') Mnt_bind None) h1 in
            if r < 0 then (r, h2) else mount_modules k s r h2))"

definition pv_volumes_mount :: "mkernel \<Rightarrow> pv_state \<Rightarrow> int \<Rightarrow> mevent list \<Rightarrow> ((int \<times> pv_state) \<times> mevent list) outcome" where
  "pv_volumes_mount k s runlevel h =
     (let h0 = snd (call k (Mkdir_p (mk_mnt k @ ''/disks'')) (snd (call k (Mkdir_p ''/volumes'') h))) in
      case mount_levels k s [runlevel..MAX_RUNLEVEL] (s_volumes s) h0 of Fault \<Rightarrow> Fault
      | Done ((r, vs), h1) \<Rightarrow>
         (let s' = s\<lparr>s_volumes := vs\<rparr> in
          if r \<noteq> 0 \<or> RUNLEVEL_ROOT < runlevel then Done ((r, s'), h1)
          else let (r', h2) = pv_volumes_mount_firmware_modules k s' h1 in Done ((r', s'), h2)))"

text \<open>\<open>pv_volumes_unmount\<close>: the number of volumes unmounted, -1 at the first that is not.\<close>

definition unmount_volume :: "mkernel \<Rightarrow> volume \<Rightarrow> mevent list \<Rightarrow> int \<times> mevent list" where
  "unmount_volume k v h =
     (if v_loop_fd v = -1 then call k (Umount (v_dest v)) h
      else unmount_loop k (v_dest v) (v_loop_fd v) (v_file_fd v) h)"

fun unmount_list :: "mkernel \<Rightarrow> pv_state \<Rightarrow> int \<Rightarrow> volume list \<Rightarrow> nat \<Rightarrow> mevent list \<Rightarrow> (nat option \<times> mevent list) outcome" where
  "unmount_list k s i [] n h = Done (Some n, h)"
| "unmount_list k s i (v # vs) n h =
     (case vol_turn s i v of Fault \<Rightarrow> Fault
      | Done False \<Rightarrow> unmount_list k s i vs n h
      | Done True \<Rightarrow> (let (r, h1) = unmount_volume k v h in
          if r < 0 then Done (None, h1) else unmount_list k s i vs (n + 1) h1))"

fun unmount_levels :: "mkernel \<Rightarrow> pv_state \<Rightarrow> int list \<Rightarrow> nat \<Rightarrow> mevent list \<Rightarrow> (nat option \<times> mevent list) outcome" where
  "unmount_levels k s [] n h = Done (Some n, h)"
| "unmount_levels k s (i # is) n h =
     (case unmount_list k s i (s_volumes s) n h of Fault \<Rightarrow> Fault
      | Done (None, h1) \<Rightarrow> Done (None, h1)
      | Done (Some n1, h1) \<Rightarrow> unmount_levels k s is n1 h1)"

definition pv_volumes_unmount :: "mkernel \<Rightarrow> pv_state \<Rightarrow> int \<Rightarrow> mevent list \<Rightarrow> (int \<times> mevent list) outcome" where
  "pv_volumes_unmount k s runlevel h =
     (case unmount_levels k s (rev [runlevel..MAX_RUNLEVEL]) 0 h of Fault \<Rightarrow> Fault
      | Done (None, h') \<Rightarrow> Done (-1, h')
      | Done (Some n, h') \<Rightarrow> Done (int n, h'))"

section \<open>Facts\<close>

text \<open>No link of a volume dangles; the runlevel of a volume; and whether its platform is not running.\<close>

definition vols_ok :: "pv_state \<Rightarrow> volume list \<Rightarrow> bool" where
  "vols_ok s vs \<longleftrightarrow> list_all (\<lambda>v. vol_plat s v \<noteq> Fault) vs"

definition vol_level :: "pv_state \<Rightarrow> volume \<Rightarrow> int" where
  "vol_level s v = (case vol_plat s v of Done (Some p) \<Rightarrow> p_runlevel p | _ \<Rightarrow> 1)"

definition vol_idle :: "pv_state \<Rightarrow> volume \<Rightarrow> bool" where
  "vol_idle s v \<longleftrightarrow> (case vol_plat s v of Done (Some p) \<Rightarrow> p_status p \<noteq> PLAT_STARTED | _ \<Rightarrow> True)"

text \<open>The place a volume is mounted at, and the conditions under which the code finds it.\<close>

definition vol_place :: "mkernel \<Rightarrow> pv_state \<Rightarrow> volume \<Rightarrow> string option" where
  "vol_place k s v = (case vol_plat s v of Fault \<Rightarrow> None
     | Done po \<Rightarrow> map_option snd (vol_paths (mk_mnt k) s po (v_name v)))"

definition vol_fits :: "mkernel \<Rightarrow> pv_state \<Rightarrow> volume \<Rightarrow> bool" where
  "vol_fits k s v \<longleftrightarrow> length (mk_mnt k @ ''/disks'') \<le> 127 \<and>
     (case vol_plat s v of Fault \<Rightarrow> False
      | Done po \<Rightarrow> (case vol_paths (mk_mnt k) s po (v_name v) of None \<Rightarrow> True
          | Some (path, mp) \<Rightarrow> length path \<le> 4095 \<and> length mp \<le> 520) \<and>
          (v_type v = VOL_LOOPIMG \<longrightarrow> CHR ''.'' \<in> set (v_name v)) \<and>
          (v_type v = VOL_PERMANENT \<or> v_type v = VOL_REVISION \<longrightarrow> po \<noteq> None))"

lemma fits_ok: "list_all (vol_fits k s) vs \<Longrightarrow> vols_ok s vs"
  by (auto simp: vols_ok_def vol_fits_def list_all_iff split: outcome.splits)

lemma turn_iff: "vol_plat s v \<noteq> Fault \<Longrightarrow> vol_turn s i v = Done (i = vol_level s v \<and> vol_idle s v)"
  by (auto simp: vol_turn_def vol_level_def vol_idle_def RUNLEVEL_ROOT_def split: outcome.splits option.splits)

lemma same_link: "v_plat v = v_plat v' \<Longrightarrow> vol_plat s v = vol_plat s v'"
  by (simp add: vol_plat_def)

text \<open>A volume after the levels \<open>is\<close>: registered at its place when its turn came, else as it was.\<close>

definition mounted_by :: "mkernel \<Rightarrow> pv_state \<Rightarrow> int list \<Rightarrow> volume \<Rightarrow> volume \<Rightarrow> bool" where
  "mounted_by k s is v' v \<longleftrightarrow>
     (if vol_level s v \<in> set is \<and> vol_idle s v
      then v_dest v' = vol_place k s v \<and> vol_place k s v \<noteq> None \<and> v_plat v' = v_plat v \<and> v_name v' = v_name v \<and> v_type v' = v_type v
      else v' = v)"

lemma mount_kind_done:
  assumes "v_type v = VOL_LOOPIMG \<longrightarrow> CHR ''.'' \<in> set (v_name v)"
    "v_type v = VOL_PERMANENT \<or> v_type v = VOL_REVISION \<longrightarrow> po \<noteq> None"
  shows "\<exists>x. mount_kind k s po path mp v h = Done x"
proof (cases "v_type v")
  case VOL_LOOPIMG
  with assms(1) obtain f where "vol_fstype (v_name v) = Some f"
    by (cases "strrchr (v_name v) CHR ''.''") (auto simp: vol_fstype_def)
  with VOL_LOOPIMG show ?thesis by (simp add: mount_kind_def mount_image_def split: prod.split)
next
  case VOL_PERMANENT
  with assms(2) show ?thesis by (auto simp: mount_kind_def mount_dir_def Let_def split: prod.split)
next
  case VOL_REVISION
  with assms(2) show ?thesis by (auto simp: mount_kind_def mount_dir_def Let_def split: prod.split)
next
  case VOL_BOOT
  then show ?thesis by (simp add: mount_kind_def split: prod.split)
next
  case VOL_UNKNOWN
  then show ?thesis by (simp add: mount_kind_def)
qed

lemma mount_volume_fits:
  assumes "vol_fits k s v"
  shows "\<exists>r v' h'. pv_volumes_mount_volume k s v h = Done ((r, v'), h') \<and>
    (r = 0 \<longrightarrow> v_dest v' = vol_place k s v \<and> vol_place k s v \<noteq> None) \<and> v_plat v' = v_plat v \<and> v_name v' = v_name v \<and>
    v_type v' = v_type v"
proof -
  obtain po where po: "vol_plat s v = Done po" using assms by (auto simp: vol_fits_def split: outcome.splits)
  show ?thesis
  proof (cases "vol_paths (mk_mnt k) s po (v_name v)")
    case None
    with assms po show ?thesis by (simp add: pv_volumes_mount_volume_def vol_fits_def)
  next
    case (Some pm)
    obtain path mp where pm: "pm = (path, mp)" by (cases pm)
    have "\<exists>x. mount_kind k s po path mp v h = Done x"
      using assms po by (intro mount_kind_done) (auto simp: vol_fits_def)
    then obtain r path' l f h2 where x: "mount_kind k s po path mp v h = Done ((r, path', l, f), h2)" by auto
    from assms po Some pm x show ?thesis
      by (cases "r < 0") (simp_all add: pv_volumes_mount_volume_def vol_fits_def vol_place_def)
  qed
qed

lemma mounted_by_refl: "mounted_by k s [] v v"
  by (simp add: mounted_by_def)

lemma mounted_by_level:
  assumes "mounted_by k s is v' v"
  shows "vol_plat s v' = vol_plat s v" "vol_level s v' = vol_level s v" "vol_idle s v' = vol_idle s v"
    "vol_fits k s v' = vol_fits k s v" "vol_place k s v' = vol_place k s v"
proof -
  have e: "v_plat v' = v_plat v" "v_name v' = v_name v" "v_type v' = v_type v"
    using assms by (auto simp: mounted_by_def split: if_splits)
  from same_link [OF e(1)] show p: "vol_plat s v' = vol_plat s v" .
  then show "vol_level s v' = vol_level s v" "vol_idle s v' = vol_idle s v" "vol_fits k s v' = vol_fits k s v"
    "vol_place k s v' = vol_place k s v" unfolding vol_level_def vol_idle_def vol_fits_def vol_place_def p e by simp_all
qed

lemma mounted_by_trans:
  assumes "mounted_by k s is v2 v1" "mounted_by k s [i] v1 v" "i \<notin> set is"
  shows "mounted_by k s (i # is) v2 v"
  using assms mounted_by_level [OF assms(2)] unfolding mounted_by_def by (auto split: if_splits)

lemma mount_list_fits:
  "list_all (vol_fits k s) vs \<Longrightarrow>
   \<exists>r vs' h'. mount_list k s i vs h = Done ((r, vs'), h') \<and> (r = 0 \<longrightarrow> list_all2 (mounted_by k s [i]) vs' vs)"
proof (induction vs arbitrary: h)
  case Nil
  then show ?case by simp
next
  case (Cons v vs)
  have f: "vol_fits k s v" and ih: "\<And>h. \<exists>r vs' h'. mount_list k s i vs h = Done ((r, vs'), h') \<and>
    (r = 0 \<longrightarrow> list_all2 (mounted_by k s [i]) vs' vs)" using Cons by auto
  have t: "vol_turn s i v = Done (i = vol_level s v \<and> vol_idle s v)"
    using turn_iff fits_ok [of k s "[v]"] f by (simp add: vols_ok_def)
  show ?case
  proof (cases "i = vol_level s v \<and> vol_idle s v")
    case False
    then have "mounted_by k s [i] v v" by (auto simp: mounted_by_def)
    with ih [of h] t False show ?thesis by auto
  next
    case True
    obtain r v' h1 where m: "pv_volumes_mount_volume k s v h = Done ((r, v'), h1)"
      "r = 0 \<longrightarrow> v_dest v' = vol_place k s v \<and> vol_place k s v \<noteq> None" "v_plat v' = v_plat v" "v_name v' = v_name v"
      "v_type v' = v_type v" using mount_volume_fits [OF f, of h] by blast
    show ?thesis
    proof (cases "r = 0")
      case False
      with t True m(1) show ?thesis by simp
    next
      case r: True
      with m True have "mounted_by k s [i] v' v" by (simp add: mounted_by_def)
      with ih [of h1] t True m(1) r show ?thesis by auto
    qed
  qed
qed

lemma mount_levels_fits:
  "list_all (vol_fits k s) vs \<Longrightarrow> distinct is \<Longrightarrow>
   \<exists>r vs' h'. mount_levels k s is vs h = Done ((r, vs'), h') \<and> (r = 0 \<longrightarrow> list_all2 (mounted_by k s is) vs' vs)"
proof (induction "is" arbitrary: vs h)
  case Nil
  have "list_all2 (mounted_by k s []) vs vs" by (simp add: list_all2_same mounted_by_refl)
  then show ?case by auto
next
  case (Cons i "is")
  obtain r vs1 h1 where l: "mount_list k s i vs h = Done ((r, vs1), h1)"
    "r = 0 \<longrightarrow> list_all2 (mounted_by k s [i]) vs1 vs" using mount_list_fits [OF Cons.prems(1)] by blast
  show ?case
  proof (cases "r = 0")
    case True
    with l have m: "list_all2 (mounted_by k s [i]) vs1 vs" by simp
    then have "list_all (vol_fits k s) vs1"
      using Cons.prems(1) mounted_by_level(4)
      by (metis (no_types, lifting) list_all2_conv_all_nth list_all_length)
    then obtain r' vs2 h2 where n: "mount_levels k s is vs1 h1 = Done ((r', vs2), h2)"
      "r' = 0 \<longrightarrow> list_all2 (mounted_by k s is) vs2 vs1"
      using Cons.IH Cons.prems(2) by (metis distinct.simps(2))
    have "list_all2 (mounted_by k s (i # is)) vs2 vs" if "r' = 0"
      by (rule list_all2_trans [OF _ n(2) [rule_format, OF that] m])
        (use mounted_by_trans Cons.prems(2) in auto)
    with l True n(1) show ?thesis by auto
  next
    case False
    with l show ?thesis by simp
  qed
qed

text \<open>The places that a history unmounts, and the volumes whose turn comes in a level.\<close>

definition umounts :: "mevent list \<Rightarrow> string option list" where
  "umounts h = concat (map (\<lambda>e. case e of Umount d \<Rightarrow> [d] | _ \<Rightarrow> []) h)"

lemma umounts_append [simp]: "umounts (h @ h') = umounts h @ umounts h'"
  by (simp add: umounts_def)

lemma umounts_simps [simp]: "umounts (Umount d # h) = d # umounts h" "umounts (Loop_clr_fd n # h) = umounts h"
  "umounts (Close n # h) = umounts h" "umounts [] = []"
  by (simp_all add: umounts_def)

definition turns :: "pv_state \<Rightarrow> int \<Rightarrow> volume list \<Rightarrow> volume list" where
  "turns s i vs = filter (\<lambda>v. i = vol_level s v \<and> vol_idle s v) vs"

definition willing :: "mkernel \<Rightarrow> bool" where
  "willing k \<longleftrightarrow> (\<forall>h. 0 \<le> mk_call k h)"

lemma unmount_volume_willing:
  "willing k \<Longrightarrow> \<exists>r h'. unmount_volume k v h = (r, h') \<and> 0 \<le> r \<and> umounts h' = umounts h @ [v_dest v]"
  by (auto simp: unmount_volume_def unmount_loop_def call_def willing_def not_less Let_def)

lemma unmount_list_willing:
  "willing k \<Longrightarrow> vols_ok s vs \<Longrightarrow>
   \<exists>h'. unmount_list k s i vs n h = Done (Some (n + length (turns s i vs)), h') \<and>
     umounts h' = umounts h @ map v_dest (turns s i vs)"
proof (induction vs arbitrary: n h)
  case Nil
  then show ?case by (simp add: turns_def)
next
  case (Cons v vs)
  have t: "vol_turn s i v = Done (i = vol_level s v \<and> vol_idle s v)" and ok: "vols_ok s vs"
    using Cons.prems(2) turn_iff by (auto simp: vols_ok_def)
  show ?case
  proof (cases "i = vol_level s v \<and> vol_idle s v")
    case False
    with Cons.IH [OF Cons.prems(1) ok] t show ?thesis by (auto simp: turns_def)
  next
    case True
    obtain r h1 where u: "unmount_volume k v h = (r, h1)" "0 \<le> r" "umounts h1 = umounts h @ [v_dest v]"
      using unmount_volume_willing [OF Cons.prems(1)] by blast
    from Cons.IH [OF Cons.prems(1) ok, of "n + 1" h1] t True u show ?thesis by (auto simp: turns_def)
  qed
qed

lemma unmount_levels_willing:
  "willing k \<Longrightarrow> vols_ok s (s_volumes s) \<Longrightarrow>
   \<exists>h'. unmount_levels k s is n h = Done (Some (n + length (concat (map (\<lambda>i. turns s i (s_volumes s)) is))), h') \<and>
     umounts h' = umounts h @ map v_dest (concat (map (\<lambda>i. turns s i (s_volumes s)) is))"
proof (induction "is" arbitrary: n h)
  case (Cons i "is")
  obtain h1 where l: "unmount_list k s i (s_volumes s) n h = Done (Some (n + length (turns s i (s_volumes s))), h1)"
    "umounts h1 = umounts h @ map v_dest (turns s i (s_volumes s))"
    using unmount_list_willing [OF Cons.prems] by blast
  from Cons.IH [OF Cons.prems, of "n + length (turns s i (s_volumes s))" h1] l show ?case
    by (auto simp: add.assoc)
qed simp

lemma turns_mounted:
  assumes "list_all2 (mounted_by k s is) vs' vs" "i \<in> set is"
  shows "map v_dest (turns s i vs') = map (vol_place k s) (turns s i vs)"
  using assms(1)
proof induction
  case (Cons v' vs' v vs)
  from mounted_by_level [OF Cons.hyps(1)] Cons assms(2) show ?case by (auto simp: turns_def mounted_by_def)
qed (simp add: turns_def)

lemma volumes_irrelevant: "vol_plat (s\<lparr>s_volumes := vs\<rparr>) = vol_plat s"
  by (auto simp: vol_plat_def fun_eq_iff split: option.split)

lemma turns_irrelevant [simp]: "turns (s\<lparr>s_volumes := vs\<rparr>) = turns s"
  by (simp add: turns_def fun_eq_iff vol_level_def vol_idle_def volumes_irrelevant)

lemma mount_result:
  assumes "list_all (vol_fits k s) (s_volumes s)"
  shows "\<exists>r s' h'. pv_volumes_mount k s runlevel h = Done ((r, s'), h') \<and> s' = s\<lparr>s_volumes := s_volumes s'\<rparr> \<and>
    (r = 0 \<longrightarrow> list_all2 (mounted_by k s [runlevel..MAX_RUNLEVEL]) (s_volumes s') (s_volumes s))"
proof -
  let ?h = "snd (call k (Mkdir_p (mk_mnt k @ ''/disks'')) (snd (call k (Mkdir_p ''/volumes'') h)))"
  obtain r vs h1 where l: "mount_levels k s [runlevel..MAX_RUNLEVEL] (s_volumes s) ?h = Done ((r, vs), h1)"
    "r = 0 \<longrightarrow> list_all2 (mounted_by k s [runlevel..MAX_RUNLEVEL]) vs (s_volumes s)"
    using mount_levels_fits [OF assms, of "[runlevel..MAX_RUNLEVEL]" ?h] by auto
  then show ?thesis
    by (cases "r \<noteq> 0 \<or> RUNLEVEL_ROOT < runlevel")
      (auto simp: pv_volumes_mount_def Let_def split: prod.split)
qed

section \<open>Properties\<close>

text \<open>Mounting from a runlevel on follows no wrong pointer and overruns no buffer when the names fit;
  when it succeeds, every volume of these runlevels whose platform does not run is registered at its
  place below \<open>/volumes\<close>, and every other volume is as it was.\<close>
theorem mount_registers:
  assumes "list_all (vol_fits k s) (s_volumes s)"
  shows "\<exists>r s' h'. pv_volumes_mount k s runlevel h = Done ((r, s'), h') \<and> s' = s\<lparr>s_volumes := s_volumes s'\<rparr> \<and>
    (r = 0 \<longrightarrow> list_all2 (\<lambda>v' v. if vol_level s v \<in> {runlevel..3} \<and> vol_idle s v
        then v_dest v' = vol_place k s v \<and> vol_place k s v \<noteq> None else v' = v) (s_volumes s') (s_volumes s))"
proof -
  obtain r s' h' where m: "pv_volumes_mount k s runlevel h = Done ((r, s'), h')" "s' = s\<lparr>s_volumes := s_volumes s'\<rparr>"
    "r = 0 \<longrightarrow> list_all2 (mounted_by k s [runlevel..MAX_RUNLEVEL]) (s_volumes s') (s_volumes s)"
    using mount_result [OF assms] by blast
  have "list_all2 (\<lambda>v' v. if vol_level s v \<in> {runlevel..3} \<and> vol_idle s v
      then v_dest v' = vol_place k s v \<and> vol_place k s v \<noteq> None else v' = v) (s_volumes s') (s_volumes s)" if "r = 0"
    by (rule list_all2_mono [OF m(3) [rule_format, OF that]]) (auto simp: mounted_by_def MAX_RUNLEVEL_def split: if_splits)
  with m(1,2) show ?thesis by blast
qed

definition ex_vol :: "string \<Rightarrow> volume_type \<Rightarrow> nat option \<Rightarrow> volume" where
  "ex_vol n ty a = \<lparr>v_name = n, v_mode = None, v_src = None, v_dest = None, v_type = ty, v_loop_fd = 0, v_file_fd = 0, v_plat = a\<rparr>"

definition ex_kernel :: "int \<Rightarrow> mkernel" where
  "ex_kernel r = \<lparr>mk_mnt = ''/storage'', mk_stat = (\<lambda>p. 0), mk_uname = None, mk_call = (\<lambda>h. r)\<rparr>"

definition ex_vstate :: pv_state where
  "ex_vstate = (pv_state_new ''1'' SPEC_SYSTEM1)\<lparr>s_platforms := [ex_plat 4 ''os'' PLAT_INSTALLED 1, ex_plat 2 ''app'' PLAT_INSTALLED 3],
     s_volumes := [ex_vol ''root.squashfs'' VOL_LOOPIMG (Some 4), ex_vol ''data'' VOL_PERMANENT (Some 2), ex_vol ''modules.bind'' VOL_LOOPIMG None]\<rparr>"

lemmas ex_vdefs = ex_vol_def ex_kernel_def ex_vstate_def ex_plat_def pv_state_new_def new_platform_def

lemma ex_vplat:
  "vol_plat ex_vstate (ex_vol n ty (Some 4)) = Done (Some (ex_plat 4 ''os'' PLAT_INSTALLED 1))"
  "vol_plat ex_vstate (ex_vol n ty (Some 2)) = Done (Some (ex_plat 2 ''app'' PLAT_INSTALLED 3))"
  "vol_plat ex_vstate (ex_vol n ty None) = Done None"
  by (simp_all add: vol_plat_def ex_vdefs plat_at_def)

lemma ex_vlevels:
  "vol_level ex_vstate (ex_vol n ty (Some 4)) = 1" "vol_idle ex_vstate (ex_vol n ty (Some 4))"
  "vol_level ex_vstate (ex_vol n ty (Some 2)) = 3" "vol_idle ex_vstate (ex_vol n ty (Some 2))"
  "vol_level ex_vstate (ex_vol n ty None) = 1" "vol_idle ex_vstate (ex_vol n ty None)"
  by (simp_all add: vol_level_def vol_idle_def ex_vplat) (simp_all add: ex_plat_def new_platform_def)

lemma ex_volumes: "s_volumes ex_vstate = [ex_vol ''root.squashfs'' VOL_LOOPIMG (Some 4), ex_vol ''data'' VOL_PERMANENT (Some 2),
    ex_vol ''modules.bind'' VOL_LOOPIMG None]" "s_spec ex_vstate = SPEC_SYSTEM1" "s_rev ex_vstate = ''1''"
  by (simp_all add: ex_vstate_def pv_state_new_def)

lemma ex_fits: "list_all (vol_fits (ex_kernel r) ex_vstate) (s_volumes ex_vstate)"
  using ex_vplat [of "''root.squashfs''" VOL_LOOPIMG] ex_vplat [of "''data''" VOL_PERMANENT] ex_vplat [of "''modules.bind''" VOL_LOOPIMG]
  by (simp add: ex_volumes vol_fits_def vol_paths_def) (simp add: ex_vol_def ex_kernel_def ex_plat_def new_platform_def)

theorem mount_registers_witness:
  "\<exists>r s' h'. pv_volumes_mount (ex_kernel 0) ex_vstate 0 [] = Done ((r, s'), h') \<and> s_platforms s' = s_platforms ex_vstate"
  using mount_registers [OF ex_fits, of 0 0 "[]"] by (metis pv_state.select_convs(4) pv_state.surjective pv_state.update_convs(5))

text \<open>C15: Unmounting undoes mounting: after a successful mount from a runlevel on, and with a kernel that
  refuses nothing, unmounting from it asks for the place of every volume that was mounted, once, in
  the order of falling runlevels, and for no other.\<close>
theorem unmount_undoes_mount:
  assumes "list_all (vol_fits k s) (s_volumes s)" "pv_volumes_mount k s runlevel h = Done ((0, s'), h')" "willing k"
  shows "\<exists>h''. pv_volumes_unmount k s' runlevel h' =
      Done (int (length (concat (map (\<lambda>i. turns s i (s_volumes s)) (rev [runlevel..3])))), h'') \<and>
    umounts h'' = umounts h' @ map (vol_place k s) (concat (map (\<lambda>i. turns s i (s_volumes s)) (rev [runlevel..3])))"
proof -
  let ?ls = "rev [runlevel..3]"
  have m: "s' = s\<lparr>s_volumes := s_volumes s'\<rparr>" "list_all2 (mounted_by k s [runlevel..3]) (s_volumes s') (s_volumes s)"
    using mount_result [OF assms(1), of runlevel h] assms(2) by (auto simp: MAX_RUNLEVEL_def)
  have tr: "turns s' = turns s" using turns_irrelevant m(1) by metis
  have t: "map v_dest (turns s' i (s_volumes s')) = map (vol_place k s) (turns s i (s_volumes s))" if "i \<in> set ?ls" for i
    unfolding tr using turns_mounted [OF m(2)] that by simp
  have e: "map v_dest (concat (map (\<lambda>i. turns s' i (s_volumes s')) ?ls)) =
      map (vol_place k s) (concat (map (\<lambda>i. turns s i (s_volumes s)) ?ls))"
    unfolding map_concat map_map comp_def by (rule arg_cong [of _ _ concat], rule map_cong, rule refl, erule t)
  from arg_cong [OF e, of length]
  have l: "length (concat (map (\<lambda>i. turns s' i (s_volumes s')) ?ls)) = length (concat (map (\<lambda>i. turns s i (s_volumes s)) ?ls))"
    by simp
  have "vol_plat s' = vol_plat s" using volumes_irrelevant m(1) by metis
  then have "vols_ok s' (s_volumes s')"
    using m(2) mounted_by_level(1) fits_ok [OF assms(1)]
    by (simp add: vols_ok_def list_all_length list_all2_conv_all_nth) metis
  from unmount_levels_willing [OF assms(3) this, of ?ls 0 h'] obtain h'' where
    "unmount_levels k s' ?ls 0 h' = Done (Some (length (concat (map (\<lambda>i. turns s' i (s_volumes s')) ?ls))), h'')"
    "umounts h'' = umounts h' @ map v_dest (concat (map (\<lambda>i. turns s' i (s_volumes s')) ?ls))" by auto
  then show ?thesis unfolding e l by (simp add: pv_volumes_unmount_def MAX_RUNLEVEL_def)
qed

lemma ex_call: "call (ex_kernel r) e h = (r, h @ [e])"
  by (simp add: call_def ex_kernel_def)

lemma ex_willing: "willing (ex_kernel 0)"
  by (simp add: willing_def ex_kernel_def)

lemma ex_turns: "vol_turn ex_vstate i (ex_vol n ty (Some 4)) = Done (i = 1)"
  "vol_turn ex_vstate i (ex_vol n ty (Some 2)) = Done (i = 3)" "vol_turn ex_vstate i (ex_vol n ty None) = Done (i = 1)"
  by (simp_all add: turn_iff ex_vplat ex_vlevels)

lemma level_3: "[3..MAX_RUNLEVEL] = [3]" "[3..3] = [3 :: int]"
  by (simp_all add: MAX_RUNLEVEL_def upto.simps)

lemma ex_mounts: "\<exists>s' h'. pv_volumes_mount (ex_kernel 0) ex_vstate 3 [] = Done ((0, s'), h')"
proof -
  let ?v = "ex_vol ''data'' VOL_PERMANENT (Some 2)"
  have v: "vol_fits (ex_kernel 0) ex_vstate ?v" using ex_fits [of 0] by (simp add: ex_volumes)
  have n: "v_name ?v = ''data''" "v_type ?v = VOL_PERMANENT" by (simp_all add: ex_vol_def)
  obtain path mp where p: "vol_paths (mk_mnt (ex_kernel 0)) ex_vstate (Some (ex_plat 2 ''app'' PLAT_INSTALLED 3)) ''data'' = Some (path, mp)"
    by (simp add: vol_paths_def ex_volumes)
  have "\<exists>x h'. mount_kind (ex_kernel 0) ex_vstate (Some (ex_plat 2 ''app'' PLAT_INSTALLED 3)) path mp ?v h = Done ((0, x), h')" for h
    by (simp add: mount_kind_def n mount_dir_def ex_call Let_def)
  then have m: "\<exists>a b c h'. mount_kind (ex_kernel 0) ex_vstate (Some (ex_plat 2 ''app'' PLAT_INSTALLED 3)) path mp ?v h = Done ((0, a, b, c), h')" for h
    by (metis prod.exhaust)
  have "\<exists>v' h'. pv_volumes_mount_volume (ex_kernel 0) ex_vstate ?v h = Done ((0, v'), h')" for h
    using v p n m [of h] by (auto simp: pv_volumes_mount_volume_def vol_fits_def ex_vplat)
  then obtain v' h1 where "pv_volumes_mount_volume (ex_kernel 0) ex_vstate ?v
      (snd (call (ex_kernel 0) (Mkdir_p (mk_mnt (ex_kernel 0) @ ''/disks'')) (snd (call (ex_kernel 0) (Mkdir_p ''/volumes'') [])))) = Done ((0, v'), h1)"
    by blast
  then show ?thesis
    by (simp add: pv_volumes_mount_def ex_volumes level_3 ex_turns Let_def RUNLEVEL_ROOT_def)
qed

theorem unmount_undoes_mount_witness:
  "\<exists>s' h' h''. pv_volumes_mount (ex_kernel 0) ex_vstate 3 [] = Done ((0, s'), h') \<and>
     pv_volumes_unmount (ex_kernel 0) s' 3 h' = Done (1, h'') \<and> umounts h'' = umounts h' @ [Some ''/volumes/app/data'']"
proof -
  obtain s' h' where m: "pv_volumes_mount (ex_kernel 0) ex_vstate 3 [] = Done ((0, s'), h')" using ex_mounts by blast
  have p: "vol_place (ex_kernel 0) ex_vstate (ex_vol n ty (Some 2)) = Some (''/volumes/app/'' @ n)" for n ty
    by (simp add: vol_place_def ex_vplat vol_paths_def ex_volumes) (simp add: ex_vol_def ex_plat_def new_platform_def)
  have t: "concat (map (\<lambda>i. turns ex_vstate i (s_volumes ex_vstate)) (rev [3..3])) = [ex_vol ''data'' VOL_PERMANENT (Some 2)]"
    by (simp add: level_3 turns_def ex_volumes ex_vlevels)
  from unmount_undoes_mount [OF ex_fits m ex_willing] m show ?thesis by (auto simp: t [simplified level_3, simplified] p level_3)
qed

text \<open>A volume whose mount never succeeded has no place; since the kernel refuses a null path, unmounting
  ends at it: with such a volume first in the highest runlevel, nothing at all is unmounted.\<close>
theorem unmount_stops_at_unmounted:
  assumes "s_volumes s = us @ v # ws" "vols_ok s (s_volumes s)" "turns s 3 us = []"
    and "vol_level s v = 3" "vol_idle s v" "v_dest v = None" "runlevel \<le> 3"
    and "\<forall>h. mk_call k (h @ [Umount None]) < 0"
  shows "pv_volumes_unmount k s runlevel h = Done (-1, h @ [Umount None])"
proof -
  have u: "unmount_list k s 3 (us @ v # ws) 0 h = unmount_list k s 3 (v # ws) 0 h"
    using assms(2,3) unfolding assms(1) by (induction us) (auto simp: vols_ok_def turns_def turn_iff split: if_splits)
  have "unmount_volume k v h = (mk_call k (h @ [Umount None]), h @ [Umount None])"
    using assms(6,8) by (simp add: unmount_volume_def unmount_loop_def call_def)
  moreover have "vol_turn s 3 v = Done True" using assms by (simp add: turn_iff vols_ok_def)
  moreover have "rev [runlevel..3] = 3 # rev [runlevel..2]" using assms(7) by (subst upto_rec2) auto
  ultimately show ?thesis
    using u assms(1,8) by (simp add: pv_volumes_unmount_def MAX_RUNLEVEL_def)
qed

theorem unmount_stops_at_unmounted_witness:
  "pv_volumes_unmount (ex_kernel (-14)) ex_vstate 0 [] = Done (-1, [Umount None])"
  using unmount_stops_at_unmounted [of ex_vstate "[ex_vol ''root.squashfs'' VOL_LOOPIMG (Some 4)]" "ex_vol ''data'' VOL_PERMANENT (Some 2)"
      "[ex_vol ''modules.bind'' VOL_LOOPIMG None]" 0 "ex_kernel (-14)" "[]"]
  by (simp add: ex_volumes vols_ok_def ex_vplat turns_def ex_vlevels)
    (simp add: ex_vol_def ex_kernel_def)

end
