(* ===== verification/Controller.thy ===== *)
theory Controller
  imports Updater Platforms Volumes
begin

text \<open>
  \<open>pantavisor.c\<close>: the state machine of the program. A state function maps the state of the program
  to the next state; what the kernel, the cloud and the parts without a theory answer during one
  step is the record \<open>cworld\<close>, another one for every step.
\<close>

section \<open>State\<close>

datatype pv_state_t = PV_STATE_INIT | PV_STATE_RUN | PV_STATE_WAIT | PV_STATE_COMMAND | PV_STATE_UPDATE
  | PV_STATE_ROLLBACK | PV_STATE_REBOOT | PV_STATE_POWEROFF | PV_STATE_ERROR | PV_STATE_EXIT
  | PV_STATE_FACTORY_UPLOAD

datatype cmd_op = CMD_UPDATE_METADATA | CMD_REBOOT_DEVICE | CMD_POWEROFF_DEVICE | CMD_TRY_ONCE
  | CMD_LOCAL_RUN | CMD_MAKE_FACTORY | CMD_RUN_GC

type_synonym cmd = "cmd_op \<times> string"

datatype ph_state_t = PH_STATE_INIT | PH_STATE_REGISTER | PH_STATE_CLAIM | PH_STATE_SYNC | PH_STATE_IDLE | PH_STATE_UPDATE

datatype factory_progress = F_unregistered | F_unclaimed | F_syncing | F_done

text \<open>What the state machine does to parts that have no theory, in order.\<close>

datatype action = Wdt_kicked | Wdt_started | Ph_state ph_state_t | Factory_progress factory_progress | Logger_stopped
  | Log_started string | Set_active | Logger_toggled string | Meta_initialized | Metadata_parsed string
  | Creds_loaded | Creds_saved | Client_released | Hint "string option" | Challenge_cleared | Meta_claimed
  | Network_meta | Gc_threshold | Gc_run | Factory_updated string | Storage_unmounted | Reboot_call bool

record 's ctl =
  c_pv :: "'s pv"
  c_unclaimed :: bool
  c_loading :: bool
  c_cmd :: "cmd option"
  timer_wait_delay :: timer
  timer_commit :: timer
  rollback_timer :: timer
  c_hist :: "Platforms.event list"
  c_mounts :: "mevent list"
  c_actions :: "action list"

record cworld =
  k_w :: world
  k_rt :: runtime
  k_mk :: mkernel
  k_init_ok :: bool
  k_factory_ok :: bool
  k_factory_done :: bool
  k_checksum_ok :: "pv_state \<Rightarrow> bool"
  k_control_remote :: bool
  k_config_ok :: bool
  k_commit_delay :: int
  k_interval :: int
  k_network_timeout :: int
  k_ph_auth :: bool
  k_meta_ok :: bool
  k_has_creds :: bool
  k_register_ok :: bool
  k_owned :: bool
  k_challenge :: string
  k_cmd :: "cmd option"
  k_update_factory :: "string \<Rightarrow> int"

abbreviation ck :: "cworld \<Rightarrow> clock" where "ck k \<equiv> w_clock (k_w k)"

definition on_pv :: "('s pv \<Rightarrow> 's pv) \<Rightarrow> 's ctl \<Rightarrow> 's ctl" where
  "on_pv f c = c\<lparr>c_pv := f (c_pv c)\<rparr>"

definition act :: "action \<Rightarrow> 's ctl \<Rightarrow> 's ctl" where
  "act a c = c\<lparr>c_actions := c_actions c @ [a]\<rparr>"

type_synonym 's step = "(pv_state_t \<times> 's ctl) outcome option"

text \<open>A step of the update or the boot loader inside one of the state machine.\<close>

definition do_pv :: "('s pv \<Rightarrow> ('a \<times> 's pv) outcome option) \<Rightarrow> 's ctl \<Rightarrow> ('a \<Rightarrow> 's ctl \<Rightarrow> 's step) \<Rightarrow> 's step" where
  "do_pv f c g = then_do (f (c_pv c)) (\<lambda>a p. g a (c\<lparr>c_pv := p\<rparr>))"

section \<open>Starting and running a revision\<close>

definition state_init :: "cworld \<Rightarrow> 's ctl \<Rightarrow> 's step" where
  "state_init k c = give (if k_init_ok k then PV_STATE_RUN else PV_STATE_EXIT) c"

text \<open>\<open>strncmp(rev, "0", sizeof("0"))\<close>, and \<open>pv_storage_is_revision_local\<close>: one slash, after \<open>locals\<close>.\<close>

definition is_factory :: "string \<Rightarrow> bool" where "is_factory r \<longleftrightarrow> strneq r ''0'' 2"

definition is_local_rev :: "string \<Rightarrow> bool" where
  "is_local_rev r \<longleftrightarrow> strneq r ''locals/'' 7 \<and> strchr r CHR ''/'' \<noteq> None \<and> strchr r CHR ''/'' = strrchr r CHR ''/''"

text \<open>
  The revision to run: the running one with the new apps moved in when an update is in transition,
  else the one that was booted, read and verified again. \<open>False\<close> is the way to the rollback. The
  transfer of a revision into itself is not followed.
\<close>

definition load_transition :: "'s ctl \<Rightarrow> (bool \<times> 's ctl) outcome option" where
  "load_transition c =
     (let p = c_pv c in
      case (pv_update p, pv_state p) of
        (Some u, Some run) \<Rightarrow>
          (case u_pending u of Own pend \<Rightarrow>
             (case pv_state_transfer pend run of Fault \<Rightarrow> Some Fault
              | Done (pend', run') \<Rightarrow>
                  give True (act (Log_started (s_rev pend)) (act Logger_stopped
                    (c\<lparr>c_pv := p\<lparr>pv_update := Some (u\<lparr>u_pending := Own pend'\<rparr>), pv_state := Some run'\<rparr>\<rparr>))))
           | _ \<Rightarrow> Some Fault)
      | _ \<Rightarrow> Some Fault)"

definition load_booted :: "cworld \<Rightarrow> 's ctl \<Rightarrow> (bool \<times> 's ctl) outcome option" where
  "load_booted k c =
     (let p = c_pv c; r = pv_rev (pv_boot p); js = w_state_json (k_w k) r in
      if \<not> w_sig_ok (k_w k) js then give False c
      else let s = w_parse (k_w k) js r in
        give (s \<noteq> None) (c\<lparr>c_pv := p\<lparr>pv_state := s, pv_update := map_option (\<lambda>u. u\<lparr>u_pending := Running\<rparr>) (pv_update p)\<rparr>\<rparr>))"

definition enter_revision :: "cworld \<Rightarrow> pv_state \<Rightarrow> 's ctl \<Rightarrow> pv_state \<times> 's ctl" where
  "enter_revision k s c =
     (let local = is_local_rev (s_rev s) \<or> \<not> k_control_remote k;
          remote = k_control_remote k \<and> \<not> is_local_rev (s_rev s);
          s' = s\<lparr>s_local := local\<rparr>;
          c1 = (if is_factory (s_rev s) then act (Factory_progress F_unregistered) c else c);
          c2 = c1\<lparr>c_loading := False, c_pv := (c_pv c1)\<lparr>pv_remote_mode := remote, pv_state := Some s'\<rparr>\<rparr>;
          c3 = (if remote then act (Ph_state PH_STATE_INIT) c2 else c2)
      in (s', act Meta_initialized (act (Logger_toggled (s_rev s)) c3)))"

definition start_revision :: "cworld \<Rightarrow> int \<Rightarrow> pv_state \<Rightarrow> 's ctl \<Rightarrow> 's step" where
  "start_revision k runlevel s c =
     (case pv_volumes_mount (k_mk k) s runlevel (c_mounts c) of Fault \<Rightarrow> Some Fault
      | Done ((mr, s1), mh) \<Rightarrow>
         (let c1 = on_pv (\<lambda>p. p\<lparr>pv_state := Some s1\<rparr>) (c\<lparr>c_mounts := mh\<rparr>) in
          if mr < 0 then give PV_STATE_ROLLBACK c1
          else if \<not> k_config_ok k then give PV_STATE_ROLLBACK c1
          else case pv_platforms_start (k_rt k) s1 runlevel of Fault \<Rightarrow> Some Fault
           | Done (r, s2, _) \<Rightarrow>
               (let c2 = on_pv (\<lambda>p. p\<lparr>pv_state := Some s2\<rparr>) c1 in
                if r < 0 then give PV_STATE_ROLLBACK c2
                else give PV_STATE_WAIT
                  (c2\<lparr>timer_wait_delay := timer_start (ck k) (timer_wait_delay c2) 0 0 RELATIV_TIMER,
                      timer_commit := timer_start (ck k) (timer_commit c2) 0 0 RELATIV_TIMER,
                      rollback_timer := timer_start (ck k) (rollback_timer c2) (k_network_timeout k) 0 RELATIV_TIMER\<rparr>))))"

definition state_run :: "cworld \<Rightarrow> 's ctl \<Rightarrow> 's step" where
  "state_run k c =
     (let (runlevel, p) = pv_update_resume (k_w k) (c_pv c); c0 = c\<lparr>c_pv := p\<rparr> in
      if runlevel < RUNLEVEL_DATA then give PV_STATE_ROLLBACK c0
      else then_do (if pv_update_is_transitioning (pv_update p) then load_transition c0 else load_booted k c0)
        (\<lambda>ok c1. case pv_state (c_pv c1) of
            None \<Rightarrow> give PV_STATE_ROLLBACK c1
          | Some s \<Rightarrow>
              (if \<not> ok then give PV_STATE_ROLLBACK c1
               else if \<not> k_checksum_ok k s then give PV_STATE_ROLLBACK (act Set_active c1)
               else let (s', c2) = enter_revision k s (act Set_active c1) in start_revision k runlevel s' c2)))"

section \<open>Waiting\<close>

text \<open>\<open>pv_wait_update\<close>: the trial, the commit delay, and the end of the update.\<close>

definition start_test :: "cworld \<Rightarrow> 's ctl \<Rightarrow> 's ctl" where
  "start_test k c =
     (if pv_update_is_trying (pv_update (c_pv c))
      then on_pv (pv_update_test (k_w k))
        (c\<lparr>timer_commit := timer_start (ck k) (timer_commit c) (k_commit_delay k) 0 RELATIV_TIMER\<rparr>)
      else c)"

definition pv_wait_update :: "cworld \<Rightarrow> 's ctl \<Rightarrow> 's step" where
  "pv_wait_update k c =
     (if pv_update (c_pv c) = None then give PV_STATE_WAIT c
      else let c1 = start_test k c
        in if pv_update_is_testing (pv_update (c_pv c1)) \<and> \<not> timer_fin (ck k) (timer_commit c1) then give PV_STATE_WAIT c1
           else do_pv (pv_update_finish (k_w k)) c1
             (\<lambda>r c2. give (if r < 0 then PV_STATE_ROLLBACK else PV_STATE_WAIT) c2))"

definition register_device :: "cworld \<Rightarrow> 's ctl \<Rightarrow> bool \<times> 's ctl" where
  "register_device k c =
     (let c1 = act Creds_loaded c in
      if k_has_creds k then (True, c1)
      else let c2 = act (Ph_state PH_STATE_REGISTER) c1 in
        if \<not> k_register_ok k then (False, act Client_released c2)
        else (True, act Client_released (act Creds_saved c2)))"

definition pv_wait_unclaimed :: "cworld \<Rightarrow> 's ctl \<Rightarrow> 's step" where
  "pv_wait_unclaimed k c =
     (let (ok, c1) = register_device k c in
      if \<not> ok then give PV_STATE_WAIT c1
      else give PV_STATE_FACTORY_UPLOAD (act (Hint None)
        (if \<not> k_owned k
         then act (Hint (Some (k_challenge k))) (act (Factory_progress F_unclaimed) (act (Ph_state PH_STATE_CLAIM) c1))
         else act Meta_claimed (act Challenge_cleared (act Client_released (act Creds_saved
                ((act (Factory_progress F_syncing) (act (Ph_state PH_STATE_SYNC) c1))\<lparr>c_unclaimed := False\<rparr>)))))))"

definition wait_offline :: "cworld \<Rightarrow> 's ctl \<Rightarrow> 's step" where
  "wait_offline k c =
     (if pv_update_is_trying (pv_update (c_pv c))
      then give (if timer_fin (ck k) (rollback_timer c) then PV_STATE_ROLLBACK else PV_STATE_WAIT) c
      else if pv_update_is_testing (pv_update (c_pv c)) then give PV_STATE_ROLLBACK c
      else give PV_STATE_WAIT c)"

definition wait_idle :: "pv_state \<Rightarrow> 's ctl \<Rightarrow> 's ctl" where
  "wait_idle run c =
     (if \<not> pv_synced (c_pv c) then c
      else let c1 = act (Ph_state PH_STATE_IDLE) c in
        if is_factory (s_rev run) then act (Factory_progress F_done) c1 else c1)"

definition pv_wait_network :: "cworld \<Rightarrow> 's ctl \<Rightarrow> 's step" where
  "pv_wait_network k c =
     (let (ok, p) = (if k_ph_auth k then pv_trail_is_auth (k_w k) (c_pv c) else (False, c_pv c)); c0 = c\<lparr>c_pv := p\<rparr> in
      if \<not> ok then wait_offline k c0
      else case pv_state p of None \<Rightarrow> Some Fault
       | Some run \<Rightarrow>
          (let c1 = act (Logger_toggled (s_rev run)) c0 in
           if \<not> k_factory_done k then give PV_STATE_FACTORY_UPLOAD c1
           else if \<not> k_meta_ok k then pv_wait_update k c1
           else let (r, p2) = pv_updater_check_for_updates (k_w k) run (c_pv c1); c2 = c1\<lparr>c_pv := p2\<rparr> in
             if 0 < r then give PV_STATE_UPDATE (act (Ph_state PH_STATE_UPDATE) c2)
             else pv_wait_update k (wait_idle run c2)))"

text \<open>\<open>_pv_wait\<close>: platforms that ended, then the network or the update, then housekeeping and commands.\<close>

definition wait_tail :: "cworld \<Rightarrow> pv_state_t \<Rightarrow> 's ctl \<Rightarrow> 's step" where
  "wait_tail k st c =
     (if st \<noteq> PV_STATE_WAIT then give st c
      else give (if k_cmd k = None then PV_STATE_WAIT else PV_STATE_COMMAND)
        ((act Gc_threshold (act Network_meta c))\<lparr>c_cmd := k_cmd k\<rparr>))"

definition state_wait :: "cworld \<Rightarrow> 's ctl \<Rightarrow> 's step" where
  "state_wait k c =
     (let p = c_pv c in
      case pv_state p of None \<Rightarrow> Some Fault
      | Some s \<Rightarrow>
         (if pv_platforms_check_exited (k_rt k) s 0 (c_hist c) \<noteq> 0
          then give (if pv_update_is_trying (pv_update p) \<or> pv_update_is_testing (pv_update p)
                     then PV_STATE_ROLLBACK else PV_STATE_REBOOT) c
          else then_do
            (if pv_remote_mode p \<and> (\<not> c_unclaimed c \<or> pv_update p = None)
             then (if timer_fin (ck k) (timer_wait_delay c)
                   then (let c1 = c\<lparr>timer_wait_delay := timer_start (ck k) (timer_wait_delay c) (k_interval k) 0 RELATIV_TIMER\<rparr> in
                         if c_unclaimed c1 then pv_wait_unclaimed k c1 else pv_wait_network k c1)
                   else give PV_STATE_WAIT c)
             else pv_wait_update k c)
            (wait_tail k)))"

section \<open>Commands\<close>

definition run_step_local :: "cworld \<Rightarrow> string \<Rightarrow> 's ctl \<Rightarrow> 's step" where
  "run_step_local k rv c =
     (let (uo, p) = pv_update_get_step_local (k_w k) rv (c_pv c) in
      give (if uo = None then PV_STATE_WAIT else PV_STATE_UPDATE) (c\<lparr>c_pv := p\<lparr>pv_update := uo\<rparr>\<rparr>))"

definition make_factory :: "cworld \<Rightarrow> string \<Rightarrow> 's ctl \<Rightarrow> 's step" where
  "make_factory k payload c =
     (case (if payload \<noteq> [] then Some payload else map_option s_rev (pv_state (c_pv c))) of
        None \<Rightarrow> Some Fault
      | Some rv \<Rightarrow> (if k_update_factory k rv < 0 then give PV_STATE_WAIT c
                    else run_step_local k ''0'' (act (Factory_updated rv) c)))"

definition run_command :: "cworld \<Rightarrow> cmd_op \<Rightarrow> string \<Rightarrow> 's ctl \<Rightarrow> 's step" where
  "run_command k oper payload c =
     (let busy = pv_update (c_pv c) \<noteq> None
      in case oper of
           CMD_UPDATE_METADATA \<Rightarrow> give PV_STATE_WAIT (if pv_remote_mode (c_pv c) then act (Metadata_parsed payload) c else c)
         | CMD_REBOOT_DEVICE \<Rightarrow> give (if busy then PV_STATE_WAIT else PV_STATE_REBOOT) c
         | CMD_POWEROFF_DEVICE \<Rightarrow> give (if busy then PV_STATE_WAIT else PV_STATE_POWEROFF) c
         | CMD_LOCAL_RUN \<Rightarrow> if busy then give PV_STATE_WAIT c else run_step_local k payload c
         | CMD_MAKE_FACTORY \<Rightarrow>
             (if busy then give PV_STATE_WAIT c
              else if \<not> c_unclaimed c then give PV_STATE_WAIT c else make_factory k payload c)
         | CMD_RUN_GC \<Rightarrow> give PV_STATE_WAIT (act Gc_run c)
         | CMD_TRY_ONCE \<Rightarrow> give PV_STATE_WAIT c)"

definition state_command :: "cworld \<Rightarrow> 's ctl \<Rightarrow> 's step" where
  "state_command k c =
     (case c_cmd c of None \<Rightarrow> give PV_STATE_WAIT c
      | Some (oper, payload) \<Rightarrow> then_do (run_command k oper payload c) (\<lambda>st c. give st (c\<lparr>c_cmd := None\<rparr>)))"

section \<open>Updating, rolling back, shutting down\<close>

text \<open>Stopping platforms and unmounting volumes from a runlevel on, each with its result.\<close>

definition stop_platforms :: "cworld \<Rightarrow> int \<Rightarrow> 's ctl \<Rightarrow> (int \<times> 's ctl) outcome option" where
  "stop_platforms k runlevel c =
     (case pv_state (c_pv c) of None \<Rightarrow> Some Fault
      | Some s \<Rightarrow> (case pv_platforms_stop (k_rt k) s runlevel (c_hist c) of Fault \<Rightarrow> Some Fault
          | Done (n, s', h) \<Rightarrow> give (int n) (on_pv (\<lambda>p. p\<lparr>pv_state := Some s'\<rparr>) (c\<lparr>c_hist := h\<rparr>))))"

definition unmount_volumes :: "cworld \<Rightarrow> int \<Rightarrow> 's ctl \<Rightarrow> (int \<times> 's ctl) outcome option" where
  "unmount_volumes k runlevel c =
     (case pv_state (c_pv c) of None \<Rightarrow> Some Fault
      | Some s \<Rightarrow> (case pv_volumes_unmount (k_mk k) s runlevel (c_mounts c) of Fault \<Rightarrow> Some Fault
          | Done (r, h) \<Rightarrow> give r (c\<lparr>c_mounts := h\<rparr>)))"

text \<open>\<open>pv_update_download(pv) || pv_update_install(pv)\<close>, the result 0 when both gave 0.\<close>

definition download_install :: "world \<Rightarrow> 's pv \<Rightarrow> (int \<times> 's pv) outcome option" where
  "download_install w p =
     then_do (pv_update_download w p) (\<lambda>r p. if r \<noteq> 0 then give 1 p
       else then_do (pv_update_install w p) (\<lambda>r p. give (if r \<noteq> 0 then 1 else 0) p))"

text \<open>The end of \<open>_pv_update\<close> without a reboot: what the update replaces is stopped and unmounted.\<close>

definition update_transition :: "cworld \<Rightarrow> 's ctl \<Rightarrow> 's step" where
  "update_transition k c =
     (case pv_update (c_pv c) of None \<Rightarrow> Some Fault
      | Some u \<Rightarrow> then_do (stop_platforms k (u_runlevel u) c) (\<lambda>r c.
          if r < 0 then give PV_STATE_ROLLBACK c
          else then_do (unmount_volumes k (u_runlevel u) c) (\<lambda>r c.
            give (if r < 0 then PV_STATE_ROLLBACK else PV_STATE_RUN) c)))"

definition state_update :: "cworld \<Rightarrow> 's ctl \<Rightarrow> 's step" where
  "state_update k c =
     do_pv (download_install (k_w k)) (act (Ph_state PH_STATE_UPDATE) c) (\<lambda>r c.
       if r \<noteq> 0 then do_pv (pv_update_finish (k_w k)) c (\<lambda>_ c. give PV_STATE_WAIT c)
       else do_pv (pv_update_requires_reboot (k_w k)) c (\<lambda>reboot c.
         if reboot then give PV_STATE_REBOOT c else update_transition k c))"

definition state_rollback :: "cworld \<Rightarrow> 's ctl \<Rightarrow> 's step" where
  "state_rollback k c =
     (let p = c_pv c in
      if (case pv_state p of None \<Rightarrow> False | Some s \<Rightarrow> is_factory (s_rev s)) then give PV_STATE_ERROR c
      else give PV_STATE_REBOOT (if pv_update p = None then c else on_pv (set_status (k_w k) UPDATE_FAILED) c))"

definition end_shutdown :: "bool \<Rightarrow> 's ctl \<Rightarrow> 's step" where
  "end_shutdown reboot c =
     give PV_STATE_EXIT (act (Reboot_call reboot) (act Logger_stopped (act Storage_unmounted
       (if reboot then act Wdt_started c else c))))"

definition pv_do_shutdown :: "cworld \<Rightarrow> bool \<Rightarrow> 's ctl \<Rightarrow> 's step" where
  "pv_do_shutdown k reboot c =
     (if pv_state (c_pv c) = None then end_shutdown reboot c
      else then_do (stop_platforms k 0 c) (\<lambda>_ c.
        then_do (unmount_volumes k 0 c) (\<lambda>_ c. end_shutdown reboot c)))"

definition state_factory_upload :: "cworld \<Rightarrow> 's ctl \<Rightarrow> 's step" where
  "state_factory_upload k c = give (if k_factory_ok k then PV_STATE_WAIT else PV_STATE_FACTORY_UPLOAD) c"

text \<open>\<open>state_table\<close>; the exit state has no function.\<close>

fun run_state :: "cworld \<Rightarrow> pv_state_t \<Rightarrow> 's ctl \<Rightarrow> 's step" where
  "run_state k PV_STATE_INIT c = state_init k c"
| "run_state k PV_STATE_RUN c = state_run k c"
| "run_state k PV_STATE_WAIT c = state_wait k c"
| "run_state k PV_STATE_COMMAND c = state_command k c"
| "run_state k PV_STATE_UPDATE c = state_update k c"
| "run_state k PV_STATE_ROLLBACK c = state_rollback k c"
| "run_state k PV_STATE_REBOOT c = pv_do_shutdown k True c"
| "run_state k PV_STATE_POWEROFF c = pv_do_shutdown k False c"
| "run_state k PV_STATE_ERROR c = give PV_STATE_REBOOT c"
| "run_state k PV_STATE_EXIT c = Some Fault"
| "run_state k PV_STATE_FACTORY_UPLOAD c = state_factory_upload k c"

text \<open>\<open>_pv_run_state\<close>; and the steps of \<open>pv_start\<close>, which leaves its loop in the exit state, and what they
  reach when the answers come from \<open>K\<close>.\<close>

definition pv_run_state :: "cworld \<Rightarrow> pv_state_t \<Rightarrow> 's ctl \<Rightarrow> 's step" where
  "pv_run_state k st c = run_state k st (act Wdt_kicked c)"

inductive pv_step :: "cworld \<Rightarrow> pv_state_t \<Rightarrow> 's ctl \<Rightarrow> pv_state_t \<Rightarrow> 's ctl \<Rightarrow> bool" where
  step: "st \<noteq> PV_STATE_EXIT \<Longrightarrow> pv_run_state k st c = Some (Done (st', c')) \<Longrightarrow> pv_step k st c st' c'"

inductive pv_reach :: "cworld set \<Rightarrow> 's ctl \<Rightarrow> pv_state_t \<Rightarrow> 's ctl \<Rightarrow> bool" for K c0 where
  start: "pv_reach K c0 PV_STATE_INIT c0"
| more: "pv_reach K c0 st c \<Longrightarrow> k \<in> K \<Longrightarrow> pv_step k st c st' c' \<Longrightarrow> pv_reach K c0 st' c'"

inductive_cases pv_stepE: "pv_step k st c st' c'"
inductive_simps pv_step_iff: "pv_step k st c st' c'"

end
