(* ===== verification/Trial.thy ===== *)
theory Trial
  imports Controller
begin

text \<open>
  What one boot of the program can do to the revision that the boot loader keeps: the invariant that
  the steps of the state machine preserve, over the interface of the boot loader, and its two
  instances.
\<close>

section \<open>Operations that leave the boot loader alone\<close>

definition testing_status :: "update_state \<Rightarrow> bool" where
  "testing_status st \<longleftrightarrow> st = UPDATE_TRY \<or> st = UPDATE_TESTING_REBOOT"

definition in_test :: "'s pv \<Rightarrow> bool" where
  "in_test p \<longleftrightarrow> (case pv_update p of None \<Rightarrow> False | Some u \<Rightarrow> testing_status (u_status u))"

definition own_rev :: "'s pv \<Rightarrow> string option" where
  "own_rev p = (case pv_update p of None \<Rightarrow> None | Some u \<Rightarrow> (case u_pending u of Own s \<Rightarrow> Some (s_rev s) | _ \<Rightarrow> None))"

definition run_rev :: "'s pv \<Rightarrow> string option" where
  "run_rev p = map_option s_rev (pv_state p)"

text \<open>A change that leaves the boot loader and the running revision, brings in no pending revision and
  puts no update to the test.\<close>

definition calm :: "'s pv \<Rightarrow> 's pv \<Rightarrow> bool" where
  "calm p p' \<longleftrightarrow> pv_ops p' = pv_ops p \<and> pv_boot p' = pv_boot p \<and> run_rev p' = run_rev p \<and>
     (own_rev p' = None \<or> own_rev p' = own_rev p) \<and> (in_test p' \<longrightarrow> in_test p)"

named_theorems calm_intros \<open>operations that are calm\<close>

lemma calm_refl [simp, calm_intros]: "calm p p" by (simp add: calm_def)

lemma calm_trans: "calm p q \<Longrightarrow> calm q r \<Longrightarrow> calm p r" by (auto simp: calm_def)

lemma calm_same:
  assumes "pv_ops p' = pv_ops p" "pv_boot p' = pv_boot p" "run_rev p' = run_rev p" "pv_update p' = pv_update p"
  shows "calm p p'"
  using assms by (simp add: calm_def own_rev_def in_test_def)

lemma calm_log [calm_intros]: "calm p (log_event e p)"
  by (rule calm_same) (simp_all add: run_rev_def)

lemma calm_logged: "calm p q \<Longrightarrow> calm p (log_event e q)"
  using calm_log calm_trans by blast

lemma calm_remove [calm_intros]: "calm p (pv_update_remove p)"
  by (simp add: calm_def run_rev_def own_rev_def in_test_def)

lemma calm_runlevel [calm_intros]: "calm p (set_runlevel r p)"
  by (cases "pv_update p") (simp_all add: calm_def run_rev_def own_rev_def in_test_def set_runlevel_def split: pending.split)

lemma calm_status_msg:
  assumes "\<not> testing_status st \<or> in_test p"
  shows "calm p (snd (pv_update_set_status_msg w p st m))"
proof (cases "pv_update p")
  case None
  then show ?thesis by (simp add: pv_update_set_status_msg_def)
next
  case (Some u)
  obtain r p' u' where t: "trail_remote_set_status w p u st m = (r, p', u')"
    by (cases "trail_remote_set_status w p u st m") auto
  have e: "snd (pv_update_set_status_msg w p st m) = p'\<lparr>pv_update := Some u'\<rparr>"
    using Some t by (simp add: pv_update_set_status_msg_def)
  show ?thesis unfolding e using assms Some remote_set_status_fields [OF t]
    by (auto simp: calm_def run_rev_def own_rev_def in_test_def)
qed

lemma calm_status [calm_intros]: "\<not> testing_status st \<or> in_test p \<Longrightarrow> calm p (set_status w st p)"
  unfolding pv_update_set_status_def by (rule calm_status_msg)

lemma calm_pending_objects [calm_intros]: "calm p (set_pending_objects obs p)"
  by (cases "pv_update p"; cases "pv_state p")
    (auto simp: set_pending_objects_def calm_def run_rev_def own_rev_def in_test_def split: pending.split)

lemma download_object_result:
  assumes "trail_download_object w ob p = Some (Done (ok, p'))"
  shows "p' = p \<or> (\<exists>e. p' = log_event e p) \<or>
    (\<exists>f x. p' = p\<lparr>pv_files := f, pv_update := map_option (add_progress x) (pv_update p)\<rparr>)"
  using assms by (auto simp: trail_download_object_def give_def Let_def split: if_splits option.splits)

lemma add_progress_fields [simp]: "u_status (add_progress x u) = u_status u" "u_pending (add_progress x u) = u_pending u"
  by (simp_all add: add_progress_def Let_def)

lemma calm_download_object:
  assumes "trail_download_object w ob p = Some (Done (ok, p'))"
  shows "calm p p'"
proof -
  have "calm p (p\<lparr>pv_files := f, pv_update := map_option (add_progress x) (pv_update p)\<rparr>)" for f x
    by (cases "pv_update p") (simp_all add: calm_def run_rev_def own_rev_def in_test_def)
  with download_object_result [OF assms] calm_log [of p] show ?thesis by auto
qed

lemma calm_download_all: "download_all w obs p = Some (Done (ok, p')) \<Longrightarrow> calm p p'"
proof (induction obs arbitrary: p)
  case (Cons ob obs)
  then obtain ok1 p1 where "trail_download_object w ob p = Some (Done (ok1, p1))"
    and r: "(if ok1 then download_all w obs p1 else give False p1) = Some (Done (ok, p'))"
    by (auto simp: then_do_Some_Done)
  then have "calm p p1" "calm p1 p'"
    using calm_download_object Cons.IH by (auto simp: give_def split: if_splits)
  then show ?case by (rule calm_trans)
qed (simp add: give_def)

lemma calm_check_size: "trail_check_update_size w obs p = (ok, p') \<Longrightarrow> calm p p'"
  using calm_status_msg [of UPDATE_NO_DOWNLOAD p w]
  by (auto simp: trail_check_update_size_def Let_def testing_status_def split: if_splits)

lemma calm_total: "calm p (p\<lparr>pv_update := map_option (\<lambda>u. u\<lparr>u_total := t u\<rparr>) (pv_update p)\<rparr>)"
  by (cases "pv_update p") (simp_all add: calm_def run_rev_def own_rev_def in_test_def split: pending.split)

lemma calm_download_objects:
  assumes "trail_download_objects w run pend p = Some (Done (r, p'))"
  shows "calm p p'"
proof -
  obtain ok obs where m: "get_all_meta w (s_objects pend) = (ok, obs)" by (cases "get_all_meta w (s_objects pend)")
  let ?p1 = "set_pending_objects obs p"
  obtain fits p2 where c: "trail_check_update_size w obs ?p1 = (fits, p2)"
    by (cases "trail_check_update_size w obs ?p1")
  have c2: "calm p p2" using calm_trans [OF calm_pending_objects calm_check_size [OF c]] .
  have s: "calm q (set_status w st q)" if "st = UPDATE_RETRY_DOWNLOAD \<or> st = UPDATE_DOWNLOAD_PROGRESS" for q st
    using calm_status [of st q w] that by (auto simp: testing_status_def)
  show ?thesis
  proof (cases "ok \<and> fits \<and> kernel_lookup_ok pend obs \<and> kernel_lookup_ok run (s_objects run)")
    case False
    then show ?thesis
      using assms m c c2 s [of UPDATE_RETRY_DOWNLOAD] calm_trans [OF calm_pending_objects]
      by (auto simp: trail_download_objects_def give_def Let_def split: if_splits)
  next
    case True
    obtain t p3 where p3: "p3 = set_status w UPDATE_DOWNLOAD_PROGRESS (p2\<lparr>pv_update := map_option (\<lambda>u. u\<lparr>u_total := t u\<rparr>) (pv_update p2)\<rparr>)"
      and d: "then_do (download_all w obs p3) (\<lambda>ok p4. if \<not> ok then give (-1) (set_status w UPDATE_RETRY_DOWNLOAD p4)
               else give 0 (set_status w UPDATE_DOWNLOAD_PROGRESS p4)) = Some (Done (r, p'))"
      using True assms m c by (auto simp: trail_download_objects_def Let_def)
    from d obtain ok4 p4 where p4: "download_all w obs p3 = Some (Done (ok4, p4))" "calm p4 p'"
      using s [of UPDATE_RETRY_DOWNLOAD] s [of UPDATE_DOWNLOAD_PROGRESS]
      by (auto simp: then_do_Some_Done give_def split: if_splits)
    have "calm p2 p3" unfolding p3 using calm_trans [OF calm_total s] by blast
    with c2 calm_download_all [OF p4(1)] p4(2) show ?thesis using calm_trans by blast
  qed
qed

lemma calm_check_retry:
  assumes "pv_update_check_download_retry w p = (r, p')"
  shows "calm p p'"
proof (cases "pv_update p")
  case None
  with assms show ?thesis
    by (simp add: pv_update_check_download_retry_def pv_update_set_status_def pv_update_set_status_msg_def)
next
  case (Some u)
  have "calm p (p\<lparr>pv_update := Some (u\<lparr>u_retries := n\<rparr>)\<rparr>)" "calm p (p\<lparr>pv_update := Some (u\<lparr>u_retries := n, u_retry_timer := t\<rparr>)\<rparr>)" for n t
    using Some by (simp_all add: calm_def run_rev_def own_rev_def in_test_def)
  with Some assms show ?thesis by (auto simp: pv_update_check_download_retry_def Let_def split: if_splits)
qed

lemma calm_download:
  assumes "pv_update_download w p = Some (Done (r, p'))"
  shows "calm p p'"
proof (cases "\<exists>run u pend. pv_state p = Some run \<and> pv_update p = Some u \<and> pending_state p u = Some pend \<and>
    \<not> u_local u \<and> w_remote_init w")
  case False
  with assms show ?thesis
    by (auto simp: pv_update_download_def give_def Let_def calm_log split: option.splits if_splits)
next
  case True
  then obtain run u pend where r: "pv_state p = Some run" "pv_update p = Some u" "pending_state p u = Some pend"
    "\<not> u_local u" "w_remote_init w" by blast
  let ?p1 = "(log_event (Step_dir (s_rev pend)) p)\<lparr>pv_remote := True\<rparr>"
  obtain x p2 where x: "pv_update_check_download_retry w ?p1 = (x, p2)" by (cases "pv_update_check_download_retry w ?p1")
  have "calm p ?p1" by (rule calm_same) (simp_all add: run_rev_def)
  then have c: "calm p p2" using calm_check_retry [OF x] by (rule calm_trans)
  show ?thesis
  proof (cases "x = 0")
    case False
    with assms r x c show ?thesis by (simp add: pv_update_download_def give_def Let_def)
  next
    case True
    with assms r x obtain y p3 where "trail_download_objects w run pend p2 = Some (Done (y, p3))"
      and y: "p' = p3 \<or> p' = set_status w UPDATE_DOWNLOADED p3"
      by (auto simp: pv_update_download_def give_def Let_def then_do_Some_Done split: if_splits)
    then have "calm p2 p3" by (simp add: calm_download_objects)
    moreover have "calm p3 p'" using y calm_status [of UPDATE_DOWNLOADED p3 w] by (auto simp: testing_status_def)
    ultimately show ?thesis using c calm_trans by blast
  qed
qed

lemma compare_rev:
  "pv_state_compare_states so co = Done (r, c) \<Longrightarrow> map_option s_rev c = map_option s_rev co"
  by (auto simp: pv_state_compare_states_def Let_def split: option.splits if_splits prod.splits cmp.splits outcome.splits)

lemma transfer_revs:
  "pv_state_transfer inn out = Done (inn', out') \<Longrightarrow> s_rev inn' = s_rev inn \<and> s_rev out' = s_rev inn"
  by (auto simp: pv_state_transfer_def pv_state_transfer_platforms_def Let_def split: outcome.splits prod.splits)

lemma mount_rev: "pv_volumes_mount k s rl h = Done ((r, s'), h') \<Longrightarrow> s_rev s' = s_rev s"
  by (auto simp: pv_volumes_mount_def Let_def split: outcome.splits if_splits prod.splits)

lemma start_rev: "pv_platforms_start rt s rl = Done (r, s', ns) \<Longrightarrow> s_rev s' = s_rev s"
  by (auto simp: pv_platforms_start_def split: outcome.splits if_splits)

lemma stop_rev: "pv_platforms_stop rt s rl h = Done (n, s', h') \<Longrightarrow> s_rev s' = s_rev s"
  by (auto simp: pv_platforms_stop_def Let_def split: outcome.splits prod.splits)

section \<open>Operations that reach the boot loader\<close>

lemma pending_rev:
  assumes "pv_update p = Some u" "pending_state p u = Some s"
  shows "own_rev p = Some (s_rev s) \<or> run_rev p = Some (s_rev s)"
  using assms by (auto simp: pending_state_def own_rev_def run_rev_def split: pending.splits)

lemma calm_set_install_runlevel:
  assumes "set_install_runlevel r pend p = Some (Done (x, p'))"
  shows "calm p p'"
proof -
  obtain rl c where c: "pv_state_compare_states (Some pend) (pv_state p) = Done (rl, c)"
    "p' = set_runlevel rl (p\<lparr>pv_state := c\<rparr>)"
    using assms by (auto simp: set_install_runlevel_def give_def split: outcome.splits)
  have "calm p (p\<lparr>pv_state := c\<rparr>)" by (rule calm_same) (simp_all add: run_rev_def compare_rev [OF c(1)])
  then show ?thesis unfolding c(2) using calm_runlevel by (rule calm_trans)
qed

text \<open>\<open>pv_update_install\<close> does nothing else to the boot loader than \<open>set_installed\<close> of the pending revision.\<close>

lemma install_calm:
  assumes "pv_update_install w p = Some (Done (r, p'))"
  obtains b where "calm (p\<lparr>pv_boot := b\<rparr>) p'" "b = pv_boot p \<or>
    (\<exists>rv n. (own_rev p = Some rv \<or> run_rev p = Some rv) \<and> pv_bootloader_set_installed (pv_ops p) rv (pv_boot p) = Some (Done (n, b)))"
proof -
  have same: "p\<lparr>pv_boot := pv_boot p\<rparr> = p" by simp
  note d = pv_update_install_def give_def install_failed_def Let_def
  obtain u where u: "pv_update p = Some u" using assms by (auto simp: d split: option.splits)
  have f: "calm p (set_status w UPDATE_FAILED p)" using calm_status by (auto simp: testing_status_def)
  show thesis
  proof (cases "pending_state p u")
    case None
    with u assms that [of "pv_boot p"] show thesis by (simp add: d)
  next
    case (Some pend)
    let ?rv = "s_rev pend"
    let ?q = "log_event (Jsons_expanded ?rv) (log_event (Json_installed ?rv) (log_event (Linked ?rv) p))"
    show thesis
    proof (cases "pv_state p = None \<or> w_link w pend < 0 \<or> \<not> w_json_open w \<or> w_expand w pend = 0")
      case True
      with u Some assms f have "calm p p'"
        by (auto simp: d intro!: calm_logged split: if_splits)
      with that [of "pv_boot p"] same show thesis by simp
    next
      case False
      with u Some assms obtain n b where b: "pv_bootloader_set_installed (pv_ops p) ?rv (pv_boot p) = Some (Done (n, b))"
        and r: "(if n \<noteq> 0 then install_failed ?rv (-1) (?q\<lparr>pv_boot := b\<rparr>)
           else set_install_runlevel (w_link w pend) pend (set_status w UPDATE_INSTALLED (?q\<lparr>pv_boot := b\<rparr>))) = Some (Done (r, p'))"
        by (auto simp: pv_update_install_def Let_def then_do_Some_Done on_boot_Done)
      have q: "calm (p\<lparr>pv_boot := b\<rparr>) (?q\<lparr>pv_boot := b\<rparr>)" by (rule calm_same) (simp_all add: run_rev_def)
      have "calm (?q\<lparr>pv_boot := b\<rparr>) p'"
      proof (cases "n = 0")
        case True
        have "calm (?q\<lparr>pv_boot := b\<rparr>) (set_status w UPDATE_INSTALLED (?q\<lparr>pv_boot := b\<rparr>))"
          by (rule calm_status) (simp add: testing_status_def)
        moreover have "calm (set_status w UPDATE_INSTALLED (?q\<lparr>pv_boot := b\<rparr>)) p'"
          using r True by (auto intro: calm_set_install_runlevel)
        ultimately show ?thesis by (rule calm_trans)
      next
        case False
        with r show ?thesis by (auto simp: install_failed_def give_def calm_log)
      qed
      with q have "calm (p\<lparr>pv_boot := b\<rparr>) p'" by (rule calm_trans)
      with that b pending_rev [OF u Some] show thesis by metis
    qed
  qed
qed

text \<open>\<open>pv_update_finish\<close>: a failed update has its trial removed, a tested one is committed, no other touches
  the boot loader; what is left of the update is not under test unless the commit failed.\<close>

lemma finish_calm:
  assumes "pv_update_finish w p = Some (Done (r, p'))"
  shows "calm p p' \<or>
    (\<exists>b n. pv_bootloader_set_failed (pv_ops p) (pv_boot p) = Some (Done (n, b)) \<and> calm (p\<lparr>pv_boot := b\<rparr>) p' \<and> pv_update p' = None) \<or>
    (\<exists>b n s. in_test p \<and> pv_state p = Some s \<and> pv_bootloader_set_commited (pv_ops p) (s_rev s) (pv_boot p) = Some (Done (n, b)) \<and>
       calm (p\<lparr>pv_boot := b\<rparr>) p' \<and> (n = 0 \<longrightarrow> pv_update p' = None))"
proof (cases "pv_update p")
  case None
  with assms show ?thesis by (simp add: pv_update_finish_def give_def)
next
  case (Some u)
  have t: "in_test p \<longleftrightarrow> testing_status (u_status u)" using Some by (simp add: in_test_def)
  have rem: "calm q (pv_update_remove (set_status w st q))" if "\<not> testing_status st \<or> in_test q" for q st
    using calm_trans [OF calm_status [OF that] calm_remove] .
  have rem2: "calm q (pv_update_remove (log_event e (set_status w st q)))" if "\<not> testing_status st" for q st e
    using that calm_trans [OF calm_trans [OF calm_status calm_log] calm_remove] by blast
  show ?thesis
  proof (cases "u_status u = UPDATE_FAILED \<or> u_status u = UPDATE_TESTING_REBOOT")
    case True
    then show ?thesis
    proof
      assume f: "u_status u = UPDATE_FAILED"
      with assms Some obtain n b where "pv_bootloader_set_failed (pv_ops p) (pv_boot p) = Some (Done (n, b))"
        "p' = pv_update_remove (set_status w UPDATE_FAILED (p\<lparr>pv_boot := b\<rparr>))"
        by (auto simp: pv_update_finish_def give_def then_do_Some_Done on_boot_Done)
      with rem [of UPDATE_FAILED "p\<lparr>pv_boot := b\<rparr>"] show ?thesis by (auto simp: testing_status_def)
    next
      assume c: "u_status u = UPDATE_TESTING_REBOOT"
      with assms Some obtain n b s where b: "pv_state p = Some s"
        "pv_bootloader_set_commited (pv_ops p) (s_rev s) (pv_boot p) = Some (Done (n, b))"
        "p' = (if n \<noteq> 0 then p\<lparr>pv_boot := b\<rparr> else
           pv_update_remove (log_event (Rev_done (s_rev s)) (set_status w UPDATE_DONE (p\<lparr>pv_boot := b\<rparr>))))"
        by (auto simp: pv_update_finish_def give_def then_do_Some_Done on_boot_Done split: option.splits if_splits)
      with c t rem2 [of UPDATE_DONE "p\<lparr>pv_boot := b\<rparr>" "Rev_done (s_rev s)"] show ?thesis
        by (auto simp: testing_status_def)
    qed
  next
    case False
    have "calm p p'"
      using Some assms False rem [of _ p] calm_remove [of p] t
      by (cases "u_status u") (auto simp: pv_update_finish_def give_def testing_status_def split: if_splits)
    then show ?thesis by blast
  qed
qed

text \<open>Parsing gives a revision its name, and the names fit the boot environment.\<close>

definition parser_ok :: "world \<Rightarrow> bool" where
  "parser_ok w \<longleftrightarrow> (\<forall>j r s. w_parse w j r = Some s \<longrightarrow> s_rev s = r \<and> rev_ok r)"

section \<open>New updates\<close>

text \<open>An update that has just begun: its pending revision was parsed.\<close>

definition fresh :: "world \<Rightarrow> 's pv \<Rightarrow> 's pv \<Rightarrow> bool" where
  "fresh w p p' \<longleftrightarrow> pv_ops p' = pv_ops p \<and> pv_boot p' = pv_boot p \<and> run_rev p' = run_rev p \<and>
     (\<exists>u s j rv. pv_update p' = Some u \<and> \<not> testing_status (u_status u) \<and> u_pending u = Own s \<and> map_option s_rev (w_parse w j rv) = Some (s_rev s))"

lemma calm_reject: "calm p (snd (reject w u st p))"
  by (rule calm_same) (simp_all add: reject_def trail_remote_set_status_def Let_def run_rev_def)

lemma process_step_cases:
  assumes "process_step w wrong rv stj retries run p = (r, p')"
  shows "r = 0 \<and> calm p p' \<or> r = 1 \<and> fresh w p p'"
proof -
  let ?u = "pv_update_new (w_creds_id w) rv False"
  show ?thesis
  proof (cases "atoi rv < atoi (s_rev run) \<or> retries = None \<or> stj = None \<or> wrong \<or> w_max_retries w < the retries")
    case True
    then have "(r, p') = reject w ?u UPDATE_FAILED p \<or> (r, p') = reject w ?u UPDATE_NO_PARSE p \<or> (r, p') = reject w ?u UPDATE_NO_DOWNLOAD p"
      using assms by (auto simp: process_step_def Let_def split: if_splits)
    then have "r = 0 \<and> calm p p'" using reject_fields(2) calm_reject by (metis fst_conv snd_conv)
    then show ?thesis by simp
  next
    case False
    then obtain n st where n: "retries = Some n" "stj = Some st" by auto
    obtain x p1 u1 where t: "trail_remote_set_status w p (?u\<lparr>u_retries := n\<rparr>) UPDATE_QUEUED None = (x, p1, u1)"
      by (cases "trail_remote_set_status w p (?u\<lparr>u_retries := n\<rparr>) UPDATE_QUEUED None") auto
    note f = remote_set_status_fields [OF t]
    have c1: "calm p p1" by (rule calm_same) (simp_all add: f run_rev_def)
    have res: "(r, p') = (if \<not> w_sig_ok w stj then reject w u1 UPDATE_NO_SIGNATURE p1
      else case w_parse w stj rv of None \<Rightarrow> reject w u1 UPDATE_NO_PARSE p1
        | Some s \<Rightarrow> (if pv_update p1 = None
            then (1, p1\<lparr>pv_update := Some (u1\<lparr>u_pending := Own s\<rparr>)\<rparr>) else (0, p1)))"
      using assms [symmetric] False n t by (simp add: process_step_def Let_def)
    have rej: "fst (reject w u1 st p1) = 0 \<and> calm p (snd (reject w u1 st p1))" for st
      using calm_trans [OF c1 calm_reject] by simp
    show ?thesis
    proof (cases "w_sig_ok w stj \<and> w_parse w stj rv \<noteq> None \<and> pv_update p1 = None")
      case True
      then obtain s where "w_parse w stj rv = Some s" "r = 1" "p' = p1\<lparr>pv_update := Some (u1\<lparr>u_pending := Own s\<rparr>)\<rparr>"
        using res by auto
      with f show ?thesis by (auto simp: fresh_def testing_status_def run_rev_def)
    next
      case False
      then have "fst (r, p') = 0 \<and> calm p (snd (r, p'))"
        unfolding res using rej c1 by (auto split: option.split)
      then show ?thesis by simp
    qed
  qed
qed

lemma new_steps_cases:
  assumes "trail_get_new_steps w run p = (r, p')"
  shows "r \<le> 0 \<and> calm p p' \<or> r = 1 \<and> fresh w p p'"
proof (cases "\<exists>wrong rv stj retries. process_step w wrong rv stj retries run p = (r, p')")
  case True
  then show ?thesis using process_step_cases by fastforce
next
  case False
  define es where "es = (if pv_update p \<noteq> None then [Ep_new] else [Ep_inprogress, Ep_downloading, Ep_queued, Ep_new])"
  have "r \<le> 0 \<and> p' = p"
    using assms False unfolding trail_get_new_steps_def es_def [symmetric]
    by (cases "first_steps w es") (auto split: if_splits prod.splits steps.splits option.splits)
  then show ?thesis by simp
qed

lemma fresh_calm: "calm p q \<Longrightarrow> fresh w q r \<Longrightarrow> fresh w p r"
  by (auto simp: calm_def fresh_def)

lemma check_for_updates_cases:
  assumes "pv_updater_check_for_updates w run p = (r, p')"
  shows "calm p p' \<and> (0 < r \<longrightarrow> pv_update p' \<noteq> None \<and> \<not> in_test p') \<or> 0 < r \<and> fresh w p p'"
proof -
  let ?p1 = "p\<lparr>pv_remote := True\<rparr>" let ?p2 = "?p1\<lparr>pv_synced := True\<rparr>"
  have c: "calm p ?p1" "calm p ?p2" by (rule calm_same; simp add: run_rev_def)+
  have e: "calm p (?p1\<lparr>pv_events := es\<rparr>)" for es by (rule calm_same) (simp_all add: run_rev_def)
  show ?thesis
  proof (cases "\<exists>x. trail_get_new_steps w run ?p2 = (r, p') \<and> 0 < w_trails w")
    case True
    then have "r \<le> 0 \<and> calm ?p2 p' \<or> r = 1 \<and> fresh w ?p2 p'" using new_steps_cases by blast
    with c(2) calm_trans fresh_calm show ?thesis by (metis not_less zero_less_one)
  next
    case False
    with assms c e show ?thesis
      by (auto simp: pv_updater_check_for_updates_def trail_first_boot_def Let_def in_test_def testing_status_def
          split: if_splits option.splits)
  qed
qed

lemma calm_trail_is_auth: "pv_trail_is_auth w p = (ok, p') \<Longrightarrow> calm p p'"
  by (auto simp: pv_trail_is_auth_def Let_def run_rev_def intro!: calm_same split: if_splits)

lemma step_local_cases:
  assumes "pv_update_get_step_local w rv p = (uo, p')"
  shows "pv_ops p' = pv_ops p \<and> pv_boot p' = pv_boot p \<and> run_rev p' = run_rev p \<and>
    (uo = None \<or> fresh w p (p'\<lparr>pv_update := uo\<rparr>))"
proof (cases "w_sig_ok w (w_state_json w rv)")
  case True
  show ?thesis
  proof (cases "w_parse w (w_state_json w rv) rv")
    case None
    with True assms show ?thesis
      by (auto simp: pv_update_get_step_local_def Let_def trail_remote_set_status_def run_rev_def split: if_splits)
  next
    case (Some s)
    with True assms have e: "p' = p" "uo = Some ((pv_update_new (w_creds_id w) rv True)\<lparr>u_pending := Own (s\<lparr>s_local := True\<rparr>)\<rparr>)"
      by (auto simp: pv_update_get_step_local_def Let_def)
    have "map_option s_rev (w_parse w (w_state_json w rv) rv) = Some (s_rev s)" using Some by simp
    then have "\<exists>j rv. map_option s_rev (w_parse w j rv) = Some (s_rev s)" by blast
    then show ?thesis unfolding e
      by (simp add: fresh_def testing_status_def pv_update_new_def run_rev_def)
  qed
next
  case False
  with assms show ?thesis
    by (auto simp: pv_update_get_step_local_def Let_def trail_remote_set_status_def run_rev_def split: if_splits)
qed

section \<open>The invariant of the state machine\<close>

lemma act_fields [simp]: "c_pv (act a c) = c_pv c" "c_cmd (act a c) = c_cmd c"
  by (simp_all add: act_def)

lemma on_pv_fields [simp]: "c_pv (on_pv f c) = f (c_pv c)"
  by (simp add: on_pv_def)

lemma calm_new_state: "map_option s_rev so = run_rev p \<Longrightarrow> calm p (p\<lparr>pv_state := so\<rparr>)"
  by (rule calm_same) (simp_all add: run_rev_def)

text \<open>A step of the state machine that is calm and goes to a state other than the update.\<close>

definition idle_step :: "'s ctl \<Rightarrow> pv_state_t \<times> 's ctl \<Rightarrow> bool" where
  "idle_step c r \<longleftrightarrow> calm (c_pv c) (c_pv (snd r)) \<and> fst r \<notin> {PV_STATE_INIT, PV_STATE_RUN, PV_STATE_UPDATE}"

lemma start_revision_idle:
  assumes "start_revision k rl s c = Some (Done r)" "run_rev (c_pv c) = Some (s_rev s)"
  shows "idle_step c r"
  using assms
  by (auto simp: start_revision_def idle_step_def give_def Let_def split: outcome.splits prod.splits if_splits
      dest!: mount_rev start_rev intro!: calm_new_state)

lemma enter_revision_fields:
  assumes "enter_revision k s c = (s', c')" "run_rev (c_pv c) = Some (s_rev s)"
  shows "calm (c_pv c) (c_pv c')" "run_rev (c_pv c') = Some (s_rev s')" "s_rev s' = s_rev s"
  using assms by (auto simp: enter_revision_def Let_def run_rev_def intro!: calm_same)

lemma stop_platforms_calm:
  assumes "stop_platforms k rl c = Some (Done (n, c'))"
  shows "calm (c_pv c) (c_pv c')" "pv_update (c_pv c') = pv_update (c_pv c)"
  using assms
  by (auto simp: stop_platforms_def give_def split: option.splits outcome.splits prod.splits dest!: stop_rev
      intro!: calm_new_state simp: run_rev_def)

lemma unmount_volumes_calm:
  "unmount_volumes k rl c = Some (Done (n, c')) \<Longrightarrow> c_pv c' = c_pv c"
  by (auto simp: unmount_volumes_def give_def split: option.splits outcome.splits prod.splits)

lemma do_pv_Done:
  "do_pv f c g = Some (Done r) \<longleftrightarrow> (\<exists>a p. f (c_pv c) = Some (Done (a, p)) \<and> g a (c\<lparr>c_pv := p\<rparr>) = Some (Done r))"
  by (auto simp: do_pv_def then_do_Some_Done)

lemma calm_test: "calm p (pv_update_test w p)"
proof (cases "pv_update p")
  case (Some u)
  have "calm p (set_status w UPDATE_TESTING_REBOOT p)" if "u_status u = UPDATE_TRY"
    by (rule calm_status) (simp add: in_test_def Some that testing_status_def)
  moreover have "calm p (set_status w UPDATE_TESTING_NONREBOOT p)"
    by (rule calm_status) (simp add: testing_status_def)
  ultimately show ?thesis using Some by (simp add: pv_update_test_def split: update_state.split)
qed (simp add: pv_update_test_def)

lemma calm_start_test: "calm (c_pv c) (c_pv (start_test k c))"
  using calm_test by (auto simp: start_test_def)

context bl_client
begin

abbreviation kept_rev :: "'s bootloader \<Rightarrow> string option" where
  "kept_rev b \<equiv> env_rev (env_entries (store b))"

definition pinv :: "'s bootloader \<Rightarrow> 's pv \<Rightarrow> bool" where
  "pinv b0 p \<longleftrightarrow> pv_ops p = Some ops \<and> good (pv_boot p) \<and> pv_rev (pv_boot p) = pv_rev b0 \<and>
     (kept_rev (pv_boot p) = kept_rev b0 \<or> pv_try b0 = Some (pv_rev b0) \<and> kept_rev (pv_boot p) = Some (pv_rev b0)) \<and>
     (\<forall>r. run_rev p = Some r \<or> own_rev p = Some r \<longrightarrow> rev_ok r) \<and>
     (in_test p \<longrightarrow> pv_try b0 = Some (pv_rev b0) \<and> (\<forall>r. run_rev p = Some r \<longrightarrow> r = pv_rev b0))"

lemma calm_pinv: "pinv b0 p \<Longrightarrow> calm p p' \<Longrightarrow> pinv b0 p'"
  unfolding pinv_def calm_def by auto

lemma fresh_pinv: "pinv b0 p \<Longrightarrow> parser_ok w \<Longrightarrow> fresh w p p' \<Longrightarrow> pinv b0 p' \<and> \<not> in_test p'"
  by (auto simp: pinv_def fresh_def parser_ok_def own_rev_def in_test_def)

lemma boot_pinv:
  assumes "pinv b0 p" "good b" "pv_rev b = pv_rev b0" "kept_rev b = kept_rev (pv_boot p)"
  shows "pinv b0 (p\<lparr>pv_boot := b\<rparr>)"
  using assms by (auto simp: pinv_def run_rev_def own_rev_def in_test_def)

lemma finish_pinv:
  assumes "pinv b0 p" "pv_update_finish w p = Some (Done (r, p'))"
  shows "pinv b0 p' \<and> (in_test p' \<longrightarrow> in_test p)"
proof -
  have ops: "pv_ops p = Some ops" and g: "good (pv_boot p)" and rv: "pv_rev (pv_boot p) = pv_rev b0"
    using assms(1) by (simp_all add: pinv_def)
  from finish_calm [OF assms(2)] show ?thesis
  proof (elim disjE exE conjE)
    assume "calm p p'"
    with assms(1) calm_pinv show ?thesis by (auto simp: calm_def)
  next
    fix b n assume b: "pv_bootloader_set_failed (pv_ops p) (pv_boot p) = Some (Done (n, b))" "calm (p\<lparr>pv_boot := b\<rparr>) p'"
      "pv_update p' = None"
    with ops unset_try_step [OF g] have "good b \<and> pv_rev b = pv_rev b0 \<and> kept_rev b = kept_rev (pv_boot p)"
      using rv env_trial_simps(3) by (auto simp: pv_bootloader_set_failed_def env_rev_def env_trial_def)
    with boot_pinv [OF assms(1)] b(2,3) show ?thesis by (auto simp: in_test_def intro: calm_pinv)
  next
    fix b n s assume b: "in_test p" "pv_state p = Some s"
      "pv_bootloader_set_commited (pv_ops p) (s_rev s) (pv_boot p) = Some (Done (n, b))"
      "calm (p\<lparr>pv_boot := b\<rparr>) p'" "n = 0 \<longrightarrow> pv_update p' = None"
    have s: "run_rev p = Some (s_rev s)" using b(2) by (simp add: run_rev_def)
    then have r: "rev_ok (s_rev s)" "s_rev s = pv_rev b0" "pv_try b0 = Some (pv_rev b0)"
      using assms(1) b(1) by (auto simp: pinv_def)
    from commit_step [OF g r(1)] ops b(3) have c: "good b" "pv_rev b = pv_rev b0" "kept_rev b = Some (pv_rev b0)" "n = 0"
      using r(2) by (auto simp: env_trial_def env_rev_def)
    have "pinv b0 (p\<lparr>pv_boot := b\<rparr>)"
      using assms(1) c r by (auto simp: pinv_def run_rev_def own_rev_def in_test_def)
    with b(4,5) c(4) show ?thesis by (auto simp: in_test_def intro: calm_pinv)
  qed
qed

lemma install_pinv:
  assumes "pinv b0 p" "pv_update_install w p = Some (Done (r, p'))"
  shows "pinv b0 p' \<and> (in_test p' \<longrightarrow> in_test p)"
proof -
  have ops: "pv_ops p = Some ops" and g: "good (pv_boot p)" and rv: "pv_rev (pv_boot p) = pv_rev b0"
    using assms(1) by (simp_all add: pinv_def)
  obtain b where b: "calm (p\<lparr>pv_boot := b\<rparr>) p'" "b = pv_boot p \<or>
    (\<exists>rv n. (own_rev p = Some rv \<or> run_rev p = Some rv) \<and> pv_bootloader_set_installed (pv_ops p) rv (pv_boot p) = Some (Done (n, b)))"
    by (rule install_calm [OF assms(2)])
  have "good b \<and> pv_rev b = pv_rev b0 \<and> kept_rev b = kept_rev (pv_boot p)"
    using b(2)
  proof
    assume "b = pv_boot p" then show ?thesis using g rv by simp
  next
    assume "\<exists>rv n. (own_rev p = Some rv \<or> run_rev p = Some rv) \<and> pv_bootloader_set_installed (pv_ops p) rv (pv_boot p) = Some (Done (n, b))"
    then obtain x n where x: "own_rev p = Some x \<or> run_rev p = Some x"
      "pv_bootloader_set_installed (pv_ops p) x (pv_boot p) = Some (Done (n, b))" by blast
    then have "rev_ok x" using assms(1) by (auto simp: pinv_def)
    from set_try_step [OF g this] x(2) ops rv show ?thesis
      using env_trial_simps(2) by (auto simp: pv_bootloader_set_installed_def env_rev_def env_trial_def)
  qed
  then have "pinv b0 (p\<lparr>pv_boot := b\<rparr>)" using boot_pinv [OF assms(1)] by blast
  then have "pinv b0 p'" using b(1) by (rule calm_pinv)
  with b(1) show ?thesis by (auto simp: in_test_def calm_def)
qed

text \<open>The invariant with the state: nothing is loaded before the first run, and no update under test is
  downloaded.\<close>

definition sinv :: "'s bootloader \<Rightarrow> pv_state_t \<Rightarrow> 's ctl \<Rightarrow> bool" where
  "sinv b0 st c \<longleftrightarrow> pinv b0 (c_pv c) \<and>
     (st = PV_STATE_INIT \<longrightarrow> pv_update (c_pv c) = None) \<and>
     ((st = PV_STATE_INIT \<or> st = PV_STATE_RUN) \<and> pv_update (c_pv c) = None \<longrightarrow> pv_boot (c_pv c) = b0 \<and> pv_state (c_pv c) = None) \<and>
     (st = PV_STATE_UPDATE \<longrightarrow> \<not> in_test (c_pv c))"

definition winv :: "'s bootloader \<Rightarrow> pv_state_t \<times> 's ctl \<Rightarrow> bool" where
  "winv b0 r \<longleftrightarrow> pinv b0 (c_pv (snd r)) \<and> fst r \<notin> {PV_STATE_INIT, PV_STATE_RUN} \<and>
     (fst r = PV_STATE_UPDATE \<longrightarrow> \<not> in_test (c_pv (snd r)))"

lemma winv_sinv: "winv b0 (st, c) \<Longrightarrow> sinv b0 st c"
  by (auto simp: winv_def sinv_def)

lemma idle_winv: "pinv b0 (c_pv c) \<Longrightarrow> idle_step c r \<Longrightarrow> winv b0 r"
  by (auto simp: winv_def idle_step_def intro: calm_pinv)

lemma winv_give: "pinv b0 (c_pv c) \<Longrightarrow> st \<notin> {PV_STATE_INIT, PV_STATE_RUN, PV_STATE_UPDATE} \<Longrightarrow> give st c = Some (Done r) \<Longrightarrow> winv b0 r"
  by (auto simp: winv_def give_def)

lemma wait_update_winv:
  assumes "pinv b0 (c_pv c)" "pv_wait_update k c = Some (Done r)"
  shows "winv b0 r"
proof -
  let ?c = "start_test k c"
  have "pinv b0 (c_pv ?c)" using calm_pinv [OF assms(1) calm_start_test] .
  then show ?thesis
    using assms
    by (auto simp: pv_wait_update_def Let_def do_pv_Done split: if_splits dest: finish_pinv intro: winv_give)
      (auto simp: winv_def give_def dest: finish_pinv split: if_splits)
qed

lemma wait_unclaimed_winv:
  assumes "pinv b0 (c_pv c)" "pv_wait_unclaimed k c = Some (Done r)"
  shows "winv b0 r"
  using assms by (auto simp: pv_wait_unclaimed_def register_device_def Let_def winv_def give_def split: if_splits)

lemma wait_offline_winv:
  assumes "pinv b0 (c_pv c)" "wait_offline k c = Some (Done r)"
  shows "winv b0 r"
  using assms by (auto simp: wait_offline_def intro: winv_give split: if_splits)

lemma wait_idle_pv [simp]: "c_pv (wait_idle run c) = c_pv c"
  by (simp add: wait_idle_def Let_def)

lemma wait_network_winv:
  assumes "pinv b0 (c_pv c)" "parser_ok (k_w k)" "pv_wait_network k c = Some (Done r)"
  shows "winv b0 r"
proof -
  obtain ok p where a: "(if k_ph_auth k then pv_trail_is_auth (k_w k) (c_pv c) else (False, c_pv c)) = (ok, p)"
    by (metis prod.exhaust)
  then have p: "pinv b0 p" using calm_pinv [OF assms(1)] calm_trail_is_auth by (metis calm_refl prod.inject)
  show ?thesis
  proof (cases "ok")
    case False
    with assms(3) a have "wait_offline k (c\<lparr>c_pv := p\<rparr>) = Some (Done r)" by (auto simp: pv_wait_network_def)
    with p wait_offline_winv [of b0 "c\<lparr>c_pv := p\<rparr>"] show ?thesis by simp
  next
    case True
    then obtain run where run: "pv_state p = Some run"
      using assms(3) a by (auto simp: pv_wait_network_def Let_def split: option.splits)
    let ?c1 = "act (Logger_toggled (s_rev run)) (c\<lparr>c_pv := p\<rparr>)"
    obtain x p2 where u: "pv_updater_check_for_updates (k_w k) run p = (x, p2)"
      by (cases "pv_updater_check_for_updates (k_w k) run p")
    have i: "pinv b0 p2 \<and> (0 < x \<longrightarrow> \<not> in_test p2)"
      using check_for_updates_cases [OF u] calm_pinv [OF p] fresh_pinv [OF p assms(2)] by blast
    consider "give PV_STATE_FACTORY_UPLOAD ?c1 = Some (Done r)" | "pv_wait_update k ?c1 = Some (Done r)"
      | "0 < x" "give PV_STATE_UPDATE (act (Ph_state PH_STATE_UPDATE) (?c1\<lparr>c_pv := p2\<rparr>)) = Some (Done r)"
      | "pv_wait_update k (wait_idle run (?c1\<lparr>c_pv := p2\<rparr>)) = Some (Done r)"
      using assms(3) a True run u by (auto simp: pv_wait_network_def Let_def split: if_splits)
    then show ?thesis
    proof cases
      case 1 with p show ?thesis by (auto simp: give_def winv_def)
    next
      case 2 with p wait_update_winv [of b0 ?c1] show ?thesis by simp
    next
      case 3 with i show ?thesis by (auto simp: give_def winv_def)
    next
      case 4 with i wait_update_winv [of b0 "wait_idle run (?c1\<lparr>c_pv := p2\<rparr>)"] show ?thesis by simp
    qed
  qed
qed

lemma wait_tail_winv:
  assumes "winv b0 r" "wait_tail k (fst r) (snd r) = Some (Done r')"
  shows "winv b0 r'"
  using assms by (auto simp: wait_tail_def give_def winv_def split: if_splits)

lemma state_wait_winv:
  assumes "pinv b0 (c_pv c)" "parser_ok (k_w k)" "state_wait k c = Some (Done r)"
  shows "winv b0 r"
proof -
  obtain s where s: "pv_state (c_pv c) = Some s" using assms(3) by (auto simp: state_wait_def Let_def split: option.splits)
  show ?thesis
  proof (cases "pv_platforms_check_exited (k_rt k) s 0 (c_hist c) \<noteq> 0")
    case True
    with assms s show ?thesis by (auto simp: state_wait_def Let_def give_def winv_def split: if_splits)
  next
    case False
    with assms(3) s obtain x where x: "wait_tail k (fst x) (snd x) = Some (Done r)"
      and "give PV_STATE_WAIT c = Some (Done x) \<or> pv_wait_update k c = Some (Done x) \<or>
        (\<exists>t. pv_wait_unclaimed k (c\<lparr>timer_wait_delay := t\<rparr>) = Some (Done x) \<or>
             pv_wait_network k (c\<lparr>timer_wait_delay := t\<rparr>) = Some (Done x))"
      by (simp add: state_wait_def then_do_Some_Done Let_def split: if_splits) (metis fst_conv snd_conv)+
    then have "winv b0 x"
      using wait_update_winv [OF assms(1)] wait_unclaimed_winv [of b0 "c\<lparr>timer_wait_delay := _\<rparr>"]
        wait_network_winv [of b0 "c\<lparr>timer_wait_delay := _\<rparr>", OF _ assms(2)] assms(1)
      by (elim disjE exE) (simp_all add: winv_def give_def, auto)
    with x show ?thesis by (rule wait_tail_winv [rotated])
  qed
qed

lemma step_local_winv:
  assumes "pinv b0 (c_pv c)" "parser_ok (k_w k)" "pv_update (c_pv c) = None" "run_step_local k rv c = Some (Done r)"
  shows "winv b0 r"
proof -
  obtain uo p where u: "pv_update_get_step_local (k_w k) rv (c_pv c) = (uo, p)"
    by (cases "pv_update_get_step_local (k_w k) rv (c_pv c)")
  have r: "r = (if uo = None then PV_STATE_WAIT else PV_STATE_UPDATE, c\<lparr>c_pv := p\<lparr>pv_update := uo\<rparr>\<rparr>)"
    using assms(4) u by (auto simp: run_step_local_def give_def)
  note f = step_local_cases [OF u]
  show ?thesis
  proof (cases uo)
    case None
    with f assms(3) have "calm (c_pv c) (p\<lparr>pv_update := uo\<rparr>)" by (intro calm_same) (auto simp: run_rev_def)
    with None r show ?thesis by (auto simp: winv_def intro: calm_pinv [OF assms(1)])
  next
    case (Some u')
    with f fresh_pinv [OF assms(1,2)] r show ?thesis by (auto simp: winv_def)
  qed
qed

lemma state_command_winv:
  assumes "pinv b0 (c_pv c)" "parser_ok (k_w k)" "state_command k c = Some (Done r)"
  shows "winv b0 r"
proof (cases "c_cmd c")
  case None
  with assms show ?thesis by (auto simp: state_command_def give_def winv_def)
next
  case (Some cmd)
  obtain oper payload where cmd: "cmd = (oper, payload)" by (cases cmd)
  with assms(3) Some obtain x where x: "run_command k oper payload c = Some (Done x)" "r = (fst x, (snd x)\<lparr>c_cmd := None\<rparr>)"
    by (auto simp: state_command_def then_do_Some_Done give_def)
  have "winv b0 x"
  proof (cases "oper = CMD_LOCAL_RUN \<and> pv_update (c_pv c) = None")
    case True
    with x(1) show ?thesis by (auto simp: run_command_def intro: step_local_winv [OF assms(1,2)])
  next
    case no: False
    show ?thesis
    proof (cases "oper = CMD_MAKE_FACTORY \<and> pv_update (c_pv c) = None \<and> c_unclaimed c")
      case True
      then have "make_factory k payload c = Some (Done x)" using x(1) by (simp add: run_command_def)
      then obtain rv where "give PV_STATE_WAIT c = Some (Done x) \<or> run_step_local k ''0'' (act (Factory_updated rv) c) = Some (Done x)"
        by (auto simp: make_factory_def split: option.splits if_splits)
      then show ?thesis
      proof
        assume "give PV_STATE_WAIT c = Some (Done x)" with assms(1) show ?thesis by (auto simp: winv_def give_def)
      next
        assume "run_step_local k ''0'' (act (Factory_updated rv) c) = Some (Done x)"
        with step_local_winv [of b0 "act (Factory_updated rv) c" k "''0''" x] assms(1,2) True show ?thesis by simp
      qed
    next
      case False
      with no x(1) assms(1) show ?thesis
        by (cases oper) (auto simp: run_command_def give_def winv_def split: if_splits)
    qed
  qed
  with x(2) show ?thesis by (simp add: winv_def)
qed

lemma download_install_pinv:
  assumes "pinv b0 p" "download_install w p = Some (Done (r, p'))"
  shows "pinv b0 p' \<and> (in_test p' \<longrightarrow> in_test p)"
proof -
  obtain n p1 where d: "pv_update_download w p = Some (Done (n, p1))"
    and i: "p' = p1 \<or> (\<exists>m. pv_update_install w p1 = Some (Done (m, p')))"
    using assms(2) by (auto simp: download_install_def then_do_Some_Done give_def split: if_splits)
  have c: "calm p p1" using calm_download [OF d] .
  then have p1: "pinv b0 p1" using calm_pinv assms(1) by blast
  then have "pinv b0 p' \<and> (in_test p' \<longrightarrow> in_test p1)" using i install_pinv by blast
  with c show ?thesis by (auto simp: calm_def)
qed

lemma requires_reboot_calm:
  assumes "pv_update_requires_reboot w p = Some (Done (r, p'))"
  shows "calm p p'" "pv_update p' \<noteq> None"
proof -
  have st: "calm q (set_status w UPDATE_REBOOT q)" "calm q (set_status w UPDATE_TRANSITION q)" for q
    by (rule calm_status, simp add: testing_status_def)+
  obtain u where u: "pv_update p = Some u"
    using assms by (auto simp: pv_update_requires_reboot_def split: option.splits)
  with assms have p': "p' = set_status w UPDATE_REBOOT (set_runlevel RUNLEVEL_ROOT p) \<or> p' = set_status w UPDATE_TRANSITION p"
    by (auto simp: pv_update_requires_reboot_def give_def split: if_splits)
  show "calm p p'" using p' st calm_trans [OF calm_runlevel] by blast
  have n: "pv_update (set_runlevel RUNLEVEL_ROOT p) \<noteq> None" using u by (simp add: set_runlevel_def)
  show "pv_update p' \<noteq> None"
    using p'
  proof
    assume e: "p' = set_status w UPDATE_REBOOT (set_runlevel RUNLEVEL_ROOT p)"
    show ?thesis unfolding e using n by (simp only: set_status_fields simp_thms)
  next
    assume e: "p' = set_status w UPDATE_TRANSITION p"
    show ?thesis unfolding e using u by (simp only: set_status_fields option.distinct simp_thms)
  qed
qed

lemma update_transition_sinv:
  assumes "pinv b0 (c_pv c)" "update_transition k c = Some (Done (st', c'))"
  shows "sinv b0 st' c'"
proof -
  obtain u n c1 where s: "pv_update (c_pv c) = Some u" "stop_platforms k (u_runlevel u) c = Some (Done (n, c1))"
    "(if n < 0 then give PV_STATE_ROLLBACK c1 else then_do (unmount_volumes k (u_runlevel u) c1) (\<lambda>r c.
       give (if r < 0 then PV_STATE_ROLLBACK else PV_STATE_RUN) c)) = Some (Done (st', c'))"
    using assms(2) by (auto simp: update_transition_def then_do_Some_Done split: option.splits)
  have c1: "pinv b0 (c_pv c1)" "pv_update (c_pv c1) \<noteq> None"
    using stop_platforms_calm [OF s(2)] assms(1) s(1) calm_pinv by auto
  have "c_pv c' = c_pv c1" "st' = PV_STATE_ROLLBACK \<or> st' = PV_STATE_RUN"
    using s(3) unmount_volumes_calm by (auto simp: then_do_Some_Done give_def split: if_splits)
  with c1 show ?thesis by (auto simp: sinv_def)
qed

lemma state_update_sinv:
  assumes "pinv b0 (c_pv c)" "\<not> in_test (c_pv c)" "state_update k c = Some (Done (st', c'))"
  shows "sinv b0 st' c'"
proof -
  obtain r p1 where d: "download_install (k_w k) (c_pv c) = Some (Done (r, p1))"
    and g: "(if r \<noteq> 0 then do_pv (pv_update_finish (k_w k)) ((act (Ph_state PH_STATE_UPDATE) c)\<lparr>c_pv := p1\<rparr>) (\<lambda>_ c. give PV_STATE_WAIT c)
       else do_pv (pv_update_requires_reboot (k_w k)) ((act (Ph_state PH_STATE_UPDATE) c)\<lparr>c_pv := p1\<rparr>) (\<lambda>reboot c.
         if reboot then give PV_STATE_REBOOT c else update_transition k c)) = Some (Done (st', c'))"
    using assms(3) unfolding state_update_def do_pv_Done by auto
  have p1: "pinv b0 p1" "\<not> in_test p1" using download_install_pinv [OF assms(1) d] assms(2) by auto
  show ?thesis
  proof (cases "r = 0")
    case False
    with g p1 show ?thesis by (auto simp: do_pv_Done give_def sinv_def dest: finish_pinv)
  next
    case True
    with g obtain b p2 where q: "pv_update_requires_reboot (k_w k) p1 = Some (Done (b, p2))"
      and g2: "(if b then give PV_STATE_REBOOT ((act (Ph_state PH_STATE_UPDATE) c)\<lparr>c_pv := p2\<rparr>)
         else update_transition k ((act (Ph_state PH_STATE_UPDATE) c)\<lparr>c_pv := p2\<rparr>)) = Some (Done (st', c'))"
      by (auto simp: do_pv_Done)
    have "pinv b0 p2" using requires_reboot_calm(1) [OF q] p1 calm_pinv by auto
    with g2 show ?thesis by (auto simp: give_def sinv_def split: if_splits dest!: update_transition_sinv [rotated])
  qed
qed

lemma state_rollback_winv:
  assumes "pinv b0 (c_pv c)" "state_rollback k c = Some (Done r)"
  shows "winv b0 r"
proof -
  have "calm (c_pv c) (set_status (k_w k) UPDATE_FAILED (c_pv c))"
    by (rule calm_status) (simp add: testing_status_def)
  then have "pinv b0 (set_status (k_w k) UPDATE_FAILED (c_pv c))" using assms(1) calm_pinv by blast
  with assms show ?thesis by (auto simp: state_rollback_def Let_def give_def winv_def split: if_splits)
qed

lemma shutdown_winv:
  assumes "pinv b0 (c_pv c)" "pv_do_shutdown k reboot c = Some (Done r)"
  shows "winv b0 r"
proof -
  have e: "winv b0 r" if "pinv b0 (c_pv c')" "end_shutdown reboot c' = Some (Done r)" for c'
    using that by (auto simp: end_shutdown_def give_def winv_def)
  show ?thesis
  proof (cases "pv_state (c_pv c)")
    case None
    with e assms show ?thesis by (simp add: pv_do_shutdown_def)
  next
    case (Some s)
    with assms(2) obtain n c1 m c2 where s: "stop_platforms k 0 c = Some (Done (n, c1))"
      "unmount_volumes k 0 c1 = Some (Done (m, c2))" "end_shutdown reboot c2 = Some (Done r)"
      by (auto simp: pv_do_shutdown_def then_do_Some_Done)
    then have "pinv b0 (c_pv c2)"
      using stop_platforms_calm(1) [OF s(1)] unmount_volumes_calm [OF s(2)] assms(1) calm_pinv by auto
    with e s(3) show ?thesis by blast
  qed
qed

lemma resume_pinv:
  assumes "pinv b0 p" "pv_update p = None \<longrightarrow> pv_boot p = b0 \<and> pv_state p = None" "pv_update_resume w p = (rl, p')"
  shows "pinv b0 p'"
proof (cases "pv_update p = None \<and> pv_bootloader_update_in_progress (pv_boot p)")
  case False
  then have "p' = p" using assms(3) by (auto simp: pv_update_resume_def split: option.splits)
  with assms(1) show ?thesis by simp
next
  case True
  then obtain t where t: "pv_try (pv_boot p) = Some t"
    by (auto simp: pv_bootloader_update_in_progress_def split: option.splits)
  let ?st = "if pv_bootloader_trying_update (pv_boot p) then UPDATE_TRY else UPDATE_FAILED"
  let ?p1 = "p\<lparr>pv_update := Some (pv_update_new (w_creds_id w) t False)\<rparr>"
  have e: "p' = set_status w ?st ?p1" using True t assms(3) by (auto simp: pv_update_resume_def split: if_splits)
  obtain u' where u': "pv_update p' = Some u'" "u_status u' = ?st" "u_pending u' = No_pending"
    unfolding e by (rule set_status_update [of ?p1 "pv_update_new (w_creds_id w) t False" w ?st])
      (auto simp: pv_update_new_def)
  have f: "pv_ops p' = pv_ops p" "pv_boot p' = pv_boot p" "pv_state p' = pv_state p"
    unfolding e by (simp_all only: set_status_fields) simp_all
  have "pv_try b0 = Some (pv_rev b0)" if "in_test p'"
    using that u' trying_is_booted assms(2) True by (auto simp: in_test_def testing_status_def split: if_splits)
  with assms(1,2) True f u' show ?thesis by (auto simp: pinv_def run_rev_def own_rev_def)
qed

lemma load_transition_pinv:
  assumes "pinv b0 (c_pv c)" "pv_update_is_transitioning (pv_update (c_pv c))" "load_transition c = Some (Done (ok, c'))"
  shows "pinv b0 (c_pv c')"
proof -
  obtain u run pend pend' run' where u: "pv_update (c_pv c) = Some u" "pv_state (c_pv c) = Some run" "u_pending u = Own pend"
    and t: "pv_state_transfer pend run = Done (pend', run')"
    and c': "c_pv c' = (c_pv c)\<lparr>pv_update := Some (u\<lparr>u_pending := Own pend'\<rparr>), pv_state := Some run'\<rparr>"
    using assms(3) by (auto simp: load_transition_def give_def Let_def split: option.splits pending.splits outcome.splits)
  have r: "rev_ok (s_rev pend)" using assms(1) u by (auto simp: pinv_def own_rev_def)
  have "\<not> testing_status (u_status u)" using assms(2) u by (simp add: pv_update_is_transitioning_def testing_status_def)
  with assms(1) u r transfer_revs [OF t] show ?thesis
    unfolding c' by (auto simp: pinv_def run_rev_def own_rev_def in_test_def)
qed

lemma load_booted_pinv:
  assumes "pinv b0 (c_pv c)" "parser_ok (k_w k)" "load_booted k c = Some (Done (ok, c'))"
  shows "pinv b0 (c_pv c')"
proof -
  let ?p = "c_pv c" and ?js = "w_state_json (k_w k) (pv_rev (pv_boot (c_pv c)))"
  let ?s = "w_parse (k_w k) ?js (pv_rev (pv_boot (c_pv c)))"
  show ?thesis
  proof (cases "w_sig_ok (k_w k) ?js")
    case False
    with assms show ?thesis by (simp add: load_booted_def Let_def give_def)
  next
    case True
    then have c': "c_pv c' = ?p\<lparr>pv_state := ?s, pv_update := map_option (\<lambda>u. u\<lparr>u_pending := Running\<rparr>) (pv_update ?p)\<rparr>"
      using assms(3) by (auto simp: load_booted_def Let_def give_def)
    have s: "\<forall>s. ?s = Some s \<longrightarrow> s_rev s = pv_rev b0 \<and> rev_ok (pv_rev b0)"
      using assms(1,2) by (metis parser_ok_def pinv_def)
    obtain so where so: "c_pv c' = ?p\<lparr>pv_state := so, pv_update := map_option (\<lambda>u. u\<lparr>u_pending := Running\<rparr>) (pv_update ?p)\<rparr>"
      "\<forall>r. map_option s_rev so = Some r \<longrightarrow> r = pv_rev b0 \<and> rev_ok (pv_rev b0)" using c' s by auto
    have r: "run_rev (c_pv c') = map_option s_rev so" "own_rev (c_pv c') = None" "in_test (c_pv c') = in_test ?p"
      "pv_ops (c_pv c') = pv_ops ?p" "pv_boot (c_pv c') = pv_boot ?p"
      unfolding so(1) by (cases "pv_update ?p"; simp add: run_rev_def own_rev_def in_test_def)+
    show ?thesis using assms(1) so(2) unfolding pinv_def r by auto
  qed
qed

lemma state_run_winv:
  assumes "pinv b0 (c_pv c)" "pv_update (c_pv c) = None \<longrightarrow> pv_boot (c_pv c) = b0 \<and> pv_state (c_pv c) = None"
    and "parser_ok (k_w k)" "state_run k c = Some (Done r)"
  shows "winv b0 r"
proof -
  obtain rl p where p: "pv_update_resume (k_w k) (c_pv c) = (rl, p)" by (cases "pv_update_resume (k_w k) (c_pv c)")
  have ip: "pinv b0 p" using resume_pinv [OF assms(1,2) p] .
  show ?thesis
  proof (cases "rl < RUNLEVEL_DATA")
    case True
    with assms(4) p ip show ?thesis by (auto simp: state_run_def give_def winv_def)
  next
    case False
    with assms(4) p obtain ok c1 where l: "(if pv_update_is_transitioning (pv_update p) then load_transition (c\<lparr>c_pv := p\<rparr>)
         else load_booted k (c\<lparr>c_pv := p\<rparr>)) = Some (Done (ok, c1))"
      and g: "(case pv_state (c_pv c1) of None \<Rightarrow> give PV_STATE_ROLLBACK c1
          | Some s \<Rightarrow> (if \<not> ok then give PV_STATE_ROLLBACK c1
               else if \<not> k_checksum_ok k s then give PV_STATE_ROLLBACK (act Set_active c1)
               else let (s', c2) = enter_revision k s (act Set_active c1) in start_revision k rl s' c2)) = Some (Done r)"
      by (auto simp: state_run_def then_do_Some_Done Let_def split del: if_split)
    have c1: "pinv b0 (c_pv c1)"
      using l ip load_transition_pinv [of b0 "c\<lparr>c_pv := p\<rparr>"] load_booted_pinv [of b0 "c\<lparr>c_pv := p\<rparr>", OF _ assms(3)]
      by (auto split: if_splits)
    show ?thesis
    proof (cases "\<exists>s. pv_state (c_pv c1) = Some s \<and> ok \<and> k_checksum_ok k s")
      case False
      with g c1 show ?thesis by (auto simp: give_def winv_def split: option.splits if_splits)
    next
      case True
      then obtain s where s: "pv_state (c_pv c1) = Some s" "ok" "k_checksum_ok k s" by blast
      obtain s' c2 where e: "enter_revision k s (act Set_active c1) = (s', c2)" by (cases "enter_revision k s (act Set_active c1)")
      have "run_rev (c_pv (act Set_active c1)) = Some (s_rev s)" using s(1) by (simp add: run_rev_def)
      note f = enter_revision_fields [OF e this]
      have "start_revision k rl s' c2 = Some (Done r)" using g s e by simp
      from start_revision_idle [OF this f(2)] have "idle_step c2 r" .
      moreover have "pinv b0 (c_pv c2)" using f(1) c1 calm_pinv by simp
      ultimately show ?thesis using idle_winv by blast
    qed
  qed
qed

lemma step_sinv:
  assumes "sinv b0 st c" "parser_ok (k_w k)" "pv_step k st c st' c'"
  shows "sinv b0 st' c'"
proof -
  let ?c = "act Wdt_kicked c"
  have r: "st \<noteq> PV_STATE_EXIT" "run_state k st ?c = Some (Done (st', c'))"
    using assms(3) by (auto simp: pv_step_iff pv_run_state_def)
  have p: "pinv b0 (c_pv ?c)" using assms(1) by (simp add: sinv_def)
  show ?thesis
  proof (cases st)
    case PV_STATE_INIT
    with r assms(1) show ?thesis by (auto simp: state_init_def give_def sinv_def split: if_splits)
  next
    case PV_STATE_RUN
    with r(2) assms(1,2) show ?thesis by (intro winv_sinv state_run_winv [OF p]) (auto simp: sinv_def)
  next
    case PV_STATE_WAIT
    with r(2) assms(2) show ?thesis by (intro winv_sinv state_wait_winv [OF p]) auto
  next
    case PV_STATE_COMMAND
    with r(2) assms(2) show ?thesis by (intro winv_sinv state_command_winv [OF p]) auto
  next
    case PV_STATE_UPDATE
    with r(2) assms(1) show ?thesis by (intro state_update_sinv [OF p]) (auto simp: sinv_def)
  next
    case PV_STATE_ROLLBACK
    with r(2) show ?thesis by (intro winv_sinv state_rollback_winv [OF p]) auto
  next
    case PV_STATE_REBOOT
    with r(2) show ?thesis by (intro winv_sinv shutdown_winv [OF p]) auto
  next
    case PV_STATE_POWEROFF
    with r(2) show ?thesis by (intro winv_sinv shutdown_winv [OF p]) auto
  next
    case PV_STATE_FACTORY_UPLOAD
    with r(2) p show ?thesis by (auto simp: state_factory_upload_def give_def sinv_def split: if_splits)
  qed (use r p in \<open>auto simp: give_def sinv_def\<close>)
qed

text \<open>A boot starts with what \<open>pv_pantavisor_init\<close> and \<open>pv_bl_early_init\<close> leave.\<close>

definition boot_start :: "'s ctl \<Rightarrow> bool" where
  "boot_start c \<longleftrightarrow> pv_update (c_pv c) = None \<and> pv_state (c_pv c) = None \<and> pv_ops (c_pv c) = Some ops \<and> good (pv_boot (c_pv c))"

lemma reach_sinv:
  assumes "pv_reach K c0 st c" "boot_start c0" "\<forall>k\<in>K. parser_ok (k_w k)"
  shows "sinv (pv_boot (c_pv c0)) st c"
  using assms(1)
proof induction
  case start
  with assms(2) show ?case by (simp add: boot_start_def sinv_def pinv_def run_rev_def own_rev_def in_test_def)
next
  case (more st c k st' c')
  with assms(3) step_sinv show ?case by blast
qed

lemma reach_kept:
  assumes "pv_reach K c0 st c" "boot_start c0" "\<forall>k\<in>K. parser_ok (k_w k)"
  shows "kept_rev (pv_boot (c_pv c)) = kept_rev (pv_boot (c_pv c0)) \<or>
    pv_try (pv_boot (c_pv c0)) = Some (pv_rev (pv_boot (c_pv c0))) \<and>
    kept_rev (pv_boot (c_pv c)) = Some (pv_rev (pv_boot (c_pv c0)))"
  using reach_sinv [OF assms] by (simp add: sinv_def pinv_def)

end

section \<open>Properties\<close>

text \<open>C1: With a u-boot environment and revision names that fit, whatever the cloud, the kernel, the
  containers and the commands do during one boot, the revision that the environment keeps stays what
  it was, unless the boot loader started the revision on trial: then it may become that one, and no
  other.\<close>
theorem uboot_commits_only_trial:
  assumes "pv_reach K c0 st c" "\<forall>k\<in>K. parser_ok (k_w k)" "pv_update (c_pv c0) = None" "pv_state (c_pv c0) = None"
    and "pv_ops (c_pv c0) = Some uboot_ops" "ub_inv (store (pv_boot (c_pv c0)))"
    and "spare UB_CAP (ub_entries (store (pv_boot (c_pv c0))))"
  shows "env_rev (ub_entries (store (pv_boot (c_pv c)))) = env_rev (ub_entries (store (pv_boot (c_pv c0)))) \<or>
    pv_try (pv_boot (c_pv c0)) = Some (pv_rev (pv_boot (c_pv c0))) \<and>
    env_rev (ub_entries (store (pv_boot (c_pv c)))) = Some (pv_rev (pv_boot (c_pv c0)))"
proof -
  have "bl_uboot.boot_start c0" using assms by (simp add: bl_uboot.boot_start_def bl_uboot.good_def)
  from bl_uboot.reach_kept [OF assms(1) this assms(2)] show ?thesis .
qed

definition ex_cworld :: cworld where
  "ex_cworld = \<lparr>k_w = ex_world\<lparr>w_parse := \<lambda>j r. if rev_ok r then Some (pv_state_new r SPEC_SYSTEM1) else None\<rparr>, k_rt = ex_rt True, k_mk = ex_kernel 0,
     k_init_ok = True, k_factory_ok = True, k_factory_done = True, k_checksum_ok = (\<lambda>s. True), k_control_remote = True,
     k_config_ok = True, k_commit_delay = 60, k_interval = 60, k_network_timeout = 300, k_ph_auth = True, k_meta_ok = True,
     k_has_creds = True, k_register_ok = True, k_owned = True, k_challenge = ''x'', k_cmd = None, k_update_factory = (\<lambda>r. 0)\<rparr>"

definition ex_ctl :: "'s pv \<Rightarrow> 's ctl" where
  "ex_ctl p = \<lparr>c_pv = p, c_unclaimed = False, c_loading = False, c_cmd = None, timer_wait_delay = zero_timer,
     timer_commit = zero_timer, rollback_timer = zero_timer, c_hist = [], c_mounts = [], c_actions = []\<rparr>"

definition ex_boot :: "'s bl_ops \<Rightarrow> 's \<Rightarrow> 's pv" where
  "ex_boot ops st = \<lparr>pv_update = None, pv_state = None,
     pv_boot = \<lparr>pv_rev = ''2'', pv_try = Some ''2'', pv_done = Some ''1'', store = st\<rparr>, pv_ops = Some ops,
     pv_remote_mode = False, pv_online = False, pv_synced = False, pv_remote = False, pv_files = (\<lambda>p. None), pv_events = []\<rparr>"

lemma ex_parser: "\<forall>k\<in>{ex_cworld}. parser_ok (k_w k)"
  by (simp add: ex_cworld_def parser_ok_def pv_state_new_def)

lemma ex_reach: "pv_reach {ex_cworld} (ex_ctl p) PV_STATE_RUN (act Wdt_kicked (ex_ctl p))"
proof -
  have "pv_step ex_cworld PV_STATE_INIT (ex_ctl p) PV_STATE_RUN (act Wdt_kicked (ex_ctl p))"
    by (simp add: pv_step_iff pv_run_state_def state_init_def give_def ex_cworld_def)
  from pv_reach.more [OF pv_reach.start _ this] show ?thesis by simp
qed

lemma ex_room: "spare UB_CAP [''pv_rev=1'', ''pv_try=2'']" "spare GR_CAP [''pv_rev=1'', ''pv_try=2'']"
  by (simp_all add: spare_def UB_CAP_def MTD_ENV_SIZE_def REV_MAX_def drop_key_def has_key_def GR_CAP_def SCAN_END_le)

lemma ex_lookup: "env_rev [''pv_rev=1'', ''pv_try=2''] = Some ''1''"
  by (simp add: env_rev_def lookup_key_def has_key_def)

theorem uboot_commits_only_trial_witness:
  "\<exists>c. pv_reach {ex_cworld} (ex_ctl (ex_boot uboot_ops (ub_fresh [''pv_rev=1'', ''pv_try=2'']))) PV_STATE_RUN c \<and>
     (env_rev (ub_entries (store (pv_boot (c_pv c)))) = Some ''1'' \<or> env_rev (ub_entries (store (pv_boot (c_pv c)))) = Some ''2'')"
proof -
  let ?p = "ex_boot uboot_ops (ub_fresh [''pv_rev=1'', ''pv_try=2''])"
  have e: "ub_inv (ub_fresh [''pv_rev=1'', ''pv_try=2''])" "ub_entries (ub_fresh [''pv_rev=1'', ''pv_try=2'']) = [''pv_rev=1'', ''pv_try=2'']"
    by (simp_all add: ub_fresh entry_ok_def UB_CAP_def MTD_ENV_SIZE_def)
  from uboot_commits_only_trial [OF ex_reach [of ?p] ex_parser] ex_reach [of ?p] ex_room(1) ex_lookup e show ?thesis
    by (intro exI [of _ "act Wdt_kicked (ex_ctl ?p)"]) (simp add: ex_ctl_def ex_boot_def act_def)
qed

text \<open>The same with a grub environment block.\<close>
theorem grub_commits_only_trial:
  assumes "pv_reach K c0 st c" "\<forall>k\<in>K. parser_ok (k_w k)" "pv_update (c_pv c0) = None" "pv_state (c_pv c0) = None"
    and "pv_ops (c_pv c0) = Some grub_ops" "gr_inv (store (pv_boot (c_pv c0)))"
    and "spare GR_CAP (gr_entries (store (pv_boot (c_pv c0))))"
  shows "env_rev (gr_entries (store (pv_boot (c_pv c)))) = env_rev (gr_entries (store (pv_boot (c_pv c0)))) \<or>
    pv_try (pv_boot (c_pv c0)) = Some (pv_rev (pv_boot (c_pv c0))) \<and>
    env_rev (gr_entries (store (pv_boot (c_pv c)))) = Some (pv_rev (pv_boot (c_pv c0)))"
proof -
  have "bl_grub.boot_start c0" using assms by (simp add: bl_grub.boot_start_def bl_grub.good_def)
  from bl_grub.reach_kept [OF assms(1) this assms(2)] show ?thesis .
qed

theorem grub_commits_only_trial_witness:
  "\<exists>c. pv_reach {ex_cworld} (ex_ctl (ex_boot grub_ops (gr_fresh [''pv_rev=1'', ''pv_try=2'']))) PV_STATE_RUN c \<and>
     (env_rev (gr_entries (store (pv_boot (c_pv c)))) = Some ''1'' \<or> env_rev (gr_entries (store (pv_boot (c_pv c)))) = Some ''2'')"
proof -
  let ?p = "ex_boot grub_ops (gr_fresh [''pv_rev=1'', ''pv_try=2''])"
  have e: "gr_inv (gr_fresh [''pv_rev=1'', ''pv_try=2''])" "gr_entries (gr_fresh [''pv_rev=1'', ''pv_try=2'']) = [''pv_rev=1'', ''pv_try=2'']"
    by (simp_all add: gr_fresh line_ok_def GR_CAP_def SCAN_END_le)
  from grub_commits_only_trial [OF ex_reach [of ?p] ex_parser] ex_reach [of ?p] ex_room(2) ex_lookup e show ?thesis
    by (intro exI [of _ "act Wdt_kicked (ex_ctl ?p)"]) (simp add: ex_ctl_def ex_boot_def act_def)
qed

end
