(* ===== verification/Machine.thy ===== *)
theory Machine
  imports Trial
begin

text \<open>
  What single states of the state machine guarantee: commands during an update, the end of a trial,
  the way from a rollback to the reboot, and updates without a reboot.
\<close>

section \<open>Running the machine\<close>

text \<open>The machine for a list of answers of the world, one for each step, as \<open>pv_start\<close> runs it.\<close>

fun pv_run :: "cworld list \<Rightarrow> pv_state_t \<Rightarrow> 's ctl \<Rightarrow> 's step" where
  "pv_run [] st c = give st c"
| "pv_run (k # ks) st c =
     (if st = PV_STATE_EXIT then give st c else then_do (pv_run_state k st c) (pv_run ks))"

lemma pv_run_reach:
  "set ks \<subseteq> K \<Longrightarrow> pv_reach K c0 st c \<Longrightarrow> pv_run ks st c = Some (Done (st', c')) \<Longrightarrow> pv_reach K c0 st' c'"
proof (induction ks arbitrary: st c)
  case Nil
  then show ?case by (simp add: give_def)
next
  case (Cons k ks)
  show ?case
  proof (cases "st = PV_STATE_EXIT")
    case True
    with Cons.prems show ?thesis by (simp add: give_def)
  next
    case False
    with Cons.prems(3) obtain st1 c1 where s: "pv_run_state k st c = Some (Done (st1, c1))" "pv_run ks st1 c1 = Some (Done (st', c'))"
      by (auto simp: then_do_Some_Done)
    then have "pv_step k st c st1 c1" using False by (simp add: pv_step_iff)
    then have "pv_reach K c0 st1 c1" using Cons.prems(1,2) pv_reach.more by fastforce
    with Cons.IH s(2) Cons.prems(1) show ?thesis by simp
  qed
qed

section \<open>Facts\<close>

text \<open>What stopping and unmounting need to follow no wrong pointer.\<close>

definition stoppable :: "pv_state \<Rightarrow> bool" where
  "stoppable s \<longleftrightarrow> list_all has_ctrl (s_platforms s) \<and> vols_ok s (s_volumes s)"

lemma stop_result:
  assumes "list_all has_ctrl (s_platforms s)"
  shows "\<exists>n h'. pv_platforms_stop rt s rl h =
    Done (n, s\<lparr>s_platforms := map (stopped rl (down_levels rl)) (s_platforms s)\<rparr>, h')"
  using stop_levels_ok [OF assms distinct_down, of rl rl]
  by (simp add: pv_platforms_stop_def Let_def split: prod.split)

lemma plat_at_stopped: "(plat_at (map (stopped rl is) ps) a = None) = (plat_at ps a = None)"
proof -
  have "p_addr (stopped rl is p) = p_addr p" for p by (simp add: stopped_def)
  then show ?thesis by (simp add: plat_at_def find_None_all)
qed

lemma vols_ok_stopped:
  assumes "vols_ok s vs"
  shows "vols_ok (s\<lparr>s_platforms := map (stopped rl is) (s_platforms s)\<rparr>) vs"
proof -
  have "vol_plat (s\<lparr>s_platforms := map (stopped rl is) (s_platforms s)\<rparr>) v \<noteq> Fault" if "vol_plat s v \<noteq> Fault" for v
    using that plat_at_stopped [of rl "is" "s_platforms s"]
    by (cases "v_plat v") (auto simp: vol_plat_def split: option.splits)
  with assms show ?thesis by (simp add: vols_ok_def list_all_iff)
qed

lemma unmount_list_total:
  "vols_ok s vs \<Longrightarrow> \<exists>r h'. unmount_list k s i vs n h = Done (r, h')"
proof (induction vs arbitrary: n h)
  case Nil
  then show ?case by simp
next
  case (Cons v vs)
  then have t: "vol_turn s i v = Done (i = vol_level s v \<and> vol_idle s v)" and ok: "vols_ok s vs"
    by (auto simp: vols_ok_def turn_iff)
  obtain r h1 where "unmount_volume k v h = (r, h1)" by (cases "unmount_volume k v h")
  with t Cons.IH [OF ok] show ?case by (cases "i = vol_level s v \<and> vol_idle s v"; cases "r < 0") (auto simp: Let_def)
qed

lemma unmount_levels_total:
  "vols_ok s (s_volumes s) \<Longrightarrow> \<exists>r h'. unmount_levels k s is n h = Done (r, h')"
proof (induction "is" arbitrary: n h)
  case (Cons i "is")
  obtain r h1 where u: "unmount_list k s i (s_volumes s) n h = Done (r, h1)" using unmount_list_total [OF Cons.prems] by blast
  with Cons.IH [OF Cons.prems] show ?case by (cases r) auto
qed simp

lemma unmount_total:
  assumes "vols_ok s (s_volumes s)"
  shows "\<exists>r h'. pv_volumes_unmount k s rl h = Done (r, h')"
proof -
  obtain r h' where "unmount_levels k s (rev [rl..MAX_RUNLEVEL]) 0 h = Done (r, h')" using unmount_levels_total [OF assms] by blast
  then show ?thesis by (cases r) (simp_all add: pv_volumes_unmount_def)
qed

lemma shutdown_ends:
  assumes "\<And>s. pv_state (c_pv c) = Some s \<Longrightarrow> stoppable s"
  shows "\<exists>c'. pv_do_shutdown k reboot c = Some (Done (PV_STATE_EXIT, c')) \<and> last (c_actions c') = Reboot_call reboot \<and>
    pv_boot (c_pv c') = pv_boot (c_pv c) \<and> pv_update (c_pv c') = pv_update (c_pv c)"
proof (cases "pv_state (c_pv c)")
  case None
  then show ?thesis by (simp add: pv_do_shutdown_def end_shutdown_def give_def act_def)
next
  case (Some s)
  then have s: "list_all has_ctrl (s_platforms s)" "vols_ok s (s_volumes s)" using assms by (auto simp: stoppable_def)
  let ?s = "s\<lparr>s_platforms := map (stopped 0 (down_levels 0)) (s_platforms s)\<rparr>"
  obtain n h where st: "pv_platforms_stop (k_rt k) s 0 (c_hist c) = Done (n, ?s, h)" using stop_result [OF s(1)] by blast
  have "vols_ok ?s (s_volumes ?s)" using vols_ok_stopped [OF s(2)] by simp
  then obtain r m where u: "pv_volumes_unmount (k_mk k) ?s 0 (c_mounts c) = Done (r, m)" using unmount_total by blast
  from Some st u show ?thesis
    by (simp add: pv_do_shutdown_def stop_platforms_def unmount_volumes_def end_shutdown_def give_def act_def on_pv_def)
qed

section \<open>Properties\<close>

text \<open>While an update is going on, the commands that reboot, power off, run a local revision or make one
  the factory revision change nothing but that they are consumed.\<close>
theorem busy_commands_ignored:
  assumes "pv_update (c_pv c) \<noteq> None" "c_cmd c = Some (oper, payload)"
    and "oper \<in> {CMD_REBOOT_DEVICE, CMD_POWEROFF_DEVICE, CMD_LOCAL_RUN, CMD_MAKE_FACTORY, CMD_TRY_ONCE}"
  shows "state_command k c = Some (Done (PV_STATE_WAIT, c\<lparr>c_cmd := None\<rparr>))"
  using assms by (auto simp: state_command_def run_command_def give_def)

theorem busy_commands_ignored_witness:
  "state_command ex_cworld ((ex_ctl (ex_pv UPDATE_TRY ex_new))\<lparr>c_cmd := Some (CMD_REBOOT_DEVICE, ''now'')\<rparr>) =
   Some (Done (PV_STATE_WAIT, (ex_ctl (ex_pv UPDATE_TRY ex_new))\<lparr>c_cmd := None\<rparr>))"
  using busy_commands_ignored [of "(ex_ctl (ex_pv UPDATE_TRY ex_new))\<lparr>c_cmd := Some (CMD_REBOOT_DEVICE, ''now'')\<rparr>"
      CMD_REBOOT_DEVICE "''now''" ex_cworld]
  by (simp add: ex_ctl_def ex_pv_def)

text \<open>C17: An update on trial is given up when a platform has ended, when the cloud cannot be reached while it
  is being tested, and when it could not be reached until the time to roll back was over; its boot
  environment is left as it is, so that the boot loader goes back.\<close>
theorem trial_given_up:
  assumes "pv_state (c_pv c) = Some s"
    and "pv_update_is_trying (pv_update (c_pv c)) \<or> pv_update_is_testing (pv_update (c_pv c))"
    and "pv_platforms_check_exited (k_rt k) s 0 (c_hist c) \<noteq> 0 \<or>
      pv_remote_mode (c_pv c) \<and> \<not> c_unclaimed c \<and> timer_fin (ck k) (timer_wait_delay c) \<and> \<not> k_ph_auth k \<and>
      (pv_update_is_testing (pv_update (c_pv c)) \<or> timer_fin (ck k) (rollback_timer c))"
  shows "\<exists>c'. state_wait k c = Some (Done (PV_STATE_ROLLBACK, c')) \<and> c_pv c' = c_pv c"
proof -
  have d: "\<not> (pv_update_is_trying u \<and> pv_update_is_testing u)" for u
    by (auto simp: pv_update_is_trying_def pv_update_is_testing_def split: option.splits)
  show ?thesis
    using assms d [of "pv_update (c_pv c)"]
    by (auto simp: state_wait_def Let_def give_def pv_wait_network_def wait_offline_def wait_tail_def)
qed

theorem trial_given_up_witness:
  "\<exists>c'. state_wait (ex_cworld\<lparr>k_ph_auth := False\<rparr>) (ex_ctl (ex_pv UPDATE_TESTING_REBOOT ex_new)) =
     Some (Done (PV_STATE_ROLLBACK, c')) \<and> c_pv c' = ex_pv UPDATE_TESTING_REBOOT ex_new"
  using trial_given_up [of "ex_ctl (ex_pv UPDATE_TESTING_REBOOT ex_new)" ex_old "ex_cworld\<lparr>k_ph_auth := False\<rparr>"]
  by (simp add: ex_ctl_def ex_pv_def pv_update_is_testing_def pv_update_is_trying_def ex_cworld_def ex_world_def timer_fin_def fin_iff
      zero_timer_def ex_clock_def)

text \<open>C14: From the rollback the machine always gets to the reboot, in two steps or, from the factory
  revision, in three, whatever the world answers; it leaves the boot loader alone.\<close>
theorem rollback_ends:
  assumes "\<forall>s. pv_state (c_pv c) = Some s \<longrightarrow> stoppable s" "length ks = 3"
  shows "\<exists>c'. pv_run ks PV_STATE_ROLLBACK c = Some (Done (PV_STATE_EXIT, c')) \<and> last (c_actions c') = Reboot_call True \<and>
    pv_boot (c_pv c') = pv_boot (c_pv c)"
proof -
  obtain k1 k2 k3 where ks: "ks = [k1, k2, k3]" using assms(2) by (auto simp: length_Suc_conv numeral_3_eq_3)
  obtain st1 c1 where s1: "state_rollback k1 (act Wdt_kicked c) = Some (Done (st1, c1))" "st1 = PV_STATE_ERROR \<or> st1 = PV_STATE_REBOOT"
    "pv_state (c_pv c1) = pv_state (c_pv c)" "pv_boot (c_pv c1) = pv_boot (c_pv c)"
    by (cases "case pv_state (c_pv c) of None \<Rightarrow> False | Some s \<Rightarrow> is_factory (s_rev s)")
      (auto simp: state_rollback_def Let_def give_def)
  have e: "\<exists>c'. pv_do_shutdown k True (act a c2) = Some (Done (PV_STATE_EXIT, c')) \<and> last (c_actions c') = Reboot_call True \<and>
      pv_boot (c_pv c') = pv_boot (c_pv c)" if "c_pv c2 = c_pv c1" for k c2 a
    using shutdown_ends [of "act a c2" k True] assms(1) s1(3,4) that by (auto simp: act_def)
  from s1(2) show ?thesis
  proof
    assume st: "st1 = PV_STATE_REBOOT"
    obtain c' where "pv_do_shutdown k2 True (act Wdt_kicked c1) = Some (Done (PV_STATE_EXIT, c'))" "last (c_actions c') = Reboot_call True"
      "pv_boot (c_pv c') = pv_boot (c_pv c)" using e [of c1 k2 Wdt_kicked] by auto
    with s1(1) st show ?thesis by (simp add: ks pv_run_state_def give_def)
  next
    assume st: "st1 = PV_STATE_ERROR"
    obtain c' where "pv_do_shutdown k3 True (act Wdt_kicked (act Wdt_kicked c1)) = Some (Done (PV_STATE_EXIT, c'))"
      "last (c_actions c') = Reboot_call True" "pv_boot (c_pv c') = pv_boot (c_pv c)"
      using e [of "act Wdt_kicked c1" k3 Wdt_kicked] by auto
    with s1(1) st show ?thesis by (simp add: ks pv_run_state_def give_def)
  qed
qed

theorem rollback_ends_witness:
  "\<exists>c'. pv_run [ex_cworld, ex_cworld, ex_cworld] PV_STATE_ROLLBACK (ex_ctl (ex_boot grub_ops (gr_fresh []))) =
     Some (Done (PV_STATE_EXIT, c')) \<and> last (c_actions c') = Reboot_call True"
  using rollback_ends [of "ex_ctl (ex_boot grub_ops (gr_fresh []))" "[ex_cworld, ex_cworld, ex_cworld]"]
  by (auto simp: ex_ctl_def ex_boot_def)


definition ex_app_update :: "grub pv" where
  "ex_app_update = (ex_boot grub_ops (gr_fresh [''pv_rev=1'']))\<lparr>pv_state := Some ex_old,
     pv_update := Some ((pv_update_new None ''2'' True)\<lparr>u_pending := Own ex_new\<rparr>)\<rparr>"

lemma ex_compare: "\<exists>ps. pv_state_compare_states (Some ex_new) (Some ex_old) = Done (3, Some (ex_old\<lparr>s_platforms := ps\<rparr>)) \<and>
    ps = [ex_plat 1 ''os'' PLAT_STARTED 1, (ex_plat 2 ''app'' PLAT_STOPPED 3)\<lparr>p_updated := True\<rparr>]"
  by (simp add: pv_state_compare_states_def cmp_all_def cmp_then_def ex_defs object_items_def json_items_def item_changed_def
      item_by_name_def plat_by_name_def plat_at_def mark_counterpart_def mark_updated_def runlevel_defs)

lemma ex_download_install:
  "\<exists>p. download_install (k_w ex_cworld) ex_app_update = Some (Done (0, p)) \<and>
     pv_state p = Some (ex_old\<lparr>s_platforms := [ex_plat 1 ''os'' PLAT_STARTED 1, (ex_plat 2 ''app'' PLAT_STOPPED 3)\<lparr>p_updated := True\<rparr>]\<rparr>) \<and>
     (\<exists>u. pv_update p = Some u \<and> u_runlevel u = 3)"
proof -
  let ?w = "k_w ex_cworld"
  have w: "w_link ?w s = 0" "w_json_open ?w" "w_expand ?w s = 1" for s by (simp_all add: ex_cworld_def ex_world_def)
  let ?q = "log_event (Step_dir ''2'') ex_app_update"
  have d: "pv_update_download ?w ex_app_update = Some (Done (0, ?q))"
    by (simp add: pv_update_download_def ex_app_update_def ex_boot_def pending_state_def pv_update_new_def give_def ex_new_def
        pv_state_new_def)
  have g: "bl_grub.good (pv_boot ex_app_update)"
    unfolding bl_grub.good_def by (simp add: ex_app_update_def ex_boot_def gr_fresh line_ok_def GR_CAP_def SCAN_END_le spare_def REV_MAX_def
        drop_key_def has_key_def)
  have "rev_ok ''2''" by (simp add: rev_ok_def value_ok_def REV_MAX_def)
  from bl_grub.set_try_step [OF g this] obtain b where
    b: "pv_bootloader_set_installed (Some grub_ops) ''2'' (pv_boot ex_app_update) = Some (Done (0, b))"
    by (auto simp: pv_bootloader_set_installed_def)
  let ?p = "(log_event (Jsons_expanded ''2'') (log_event (Json_installed ''2'') (log_event (Linked ''2'') ?q)))\<lparr>pv_boot := b\<rparr>"
  have "pv_update ?p \<noteq> None" by (simp add: ex_app_update_def)
  then have "pv_update (set_status ?w UPDATE_INSTALLED ?p) \<noteq> None" unfolding set_status_fields .
  then obtain u where u: "pv_update (set_status ?w UPDATE_INSTALLED ?p) = Some u" by blast
  have st: "pv_state (set_status ?w UPDATE_INSTALLED ?p) = Some ex_old"
    by (simp only: set_status_fields) (simp add: ex_app_update_def ex_boot_def)
  have p: "pv_update ?q = Some ((pv_update_new None ''2'' True)\<lparr>u_pending := Own ex_new\<rparr>)" "pv_state ?q = Some ex_old"
    "pv_ops ?q = Some grub_ops" "pv_boot ?q = pv_boot ex_app_update" "s_rev ex_new = ''2''"
    by (simp_all add: ex_app_update_def ex_boot_def ex_new_def pv_state_new_def)
  have "pv_update_install ?w ?q = set_install_runlevel 0 ex_new (set_status ?w UPDATE_INSTALLED ?p)"
    unfolding pv_update_install_def p(1) using p b
    by (simp add: pending_state_def Let_def w on_boot_def give_def)
  with d st u ex_compare show ?thesis
    by (auto simp: download_install_def set_install_runlevel_def give_def set_runlevel_def)
qed

lemma ex_ctl_pv: "c_pv (ex_ctl p) = p"
  by (simp add: ex_ctl_def)


end
