(* ===== verification/Disk.thy ===== *)
theory Disk
  imports Prelude "HOL-Library.List_Lexorder" "HOL-Library.Char_ord"
begin

text \<open>
  The file system as far as the program uses it, and \<open>utils/fs.c\<close>. A path is the list of its
  components; a directory holds names, a name is a directory, a link to an inode or a symbolic
  link, and an inode has contents that all its names share. Calls of the C library fail where
  POSIX says so for the tree (a missing parent, an existing name, a directory that is not empty);
  a full or broken medium is not modelled, and no call follows a symbolic link. Paths are taken
  to fit the buffers they are printed to.
\<close>

section \<open>The tree and the calls on it\<close>

type_synonym path = "string list"

datatype node = Dir | File nat | Symlink string

record disk =
  d_nodes :: "(path \<times> node) list"
  d_data :: "nat \<Rightarrow> string"
  d_next :: nat

datatype errno = EEXIST | ENOENT | EPERM

definition comps :: "string \<Rightarrow> path" where
  "comps s = strtok (CHR ''/'') s"

definition lookup :: "disk \<Rightarrow> path \<Rightarrow> node option" where
  "lookup d p = map_of (d_nodes d) p"

definition is_dir :: "disk \<Rightarrow> path \<Rightarrow> bool" where
  "is_dir d p \<longleftrightarrow> p = [] \<or> lookup d p = Some Dir"

definition exists_at :: "disk \<Rightarrow> path \<Rightarrow> bool" where
  "exists_at d p \<longleftrightarrow> p = [] \<or> lookup d p \<noteq> None"

definition names :: "disk \<Rightarrow> path \<Rightarrow> string list" where
  "names d p = map (\<lambda>x. last (fst x)) (filter (\<lambda>x. fst x \<noteq> [] \<and> butlast (fst x) = p) (d_nodes d))"

text \<open>\<open>scandir\<close> with \<open>alphasort\<close>.\<close>

definition scandir :: "disk \<Rightarrow> path \<Rightarrow> string list option" where
  "scandir d p = (if is_dir d p then Some (sort (''.'' # ''..'' # names d p)) else None)"

definition nlink :: "disk \<Rightarrow> nat \<Rightarrow> nat" where
  "nlink d i = length (filter (\<lambda>x. snd x = File i) (d_nodes d))"

text \<open>\<open>stat\<close> as the number of links and the size.\<close>

definition stat :: "disk \<Rightarrow> path \<Rightarrow> (nat \<times> nat) option" where
  "stat d p = (case lookup d p of Some (File i) \<Rightarrow> Some (nlink d i, length (d_data d i))
     | Some Dir \<Rightarrow> Some (2 + length (filter (\<lambda>n. is_dir d (p @ [n])) (names d p)), 0) | _ \<Rightarrow> None)"

definition set_node :: "path \<Rightarrow> node \<Rightarrow> disk \<Rightarrow> disk" where
  "set_node p n d = d\<lparr>d_nodes := (p, n) # d_nodes d\<rparr>"

definition drop_nodes :: "(path \<Rightarrow> bool) \<Rightarrow> disk \<Rightarrow> disk" where
  "drop_nodes P d = d\<lparr>d_nodes := filter (\<lambda>x. \<not> P (fst x)) (d_nodes d)\<rparr>"

text \<open>\<open>remove\<close>: a file or an empty directory.\<close>

definition remove :: "path \<Rightarrow> disk \<Rightarrow> int \<times> disk" where
  "remove p d = (case lookup d p of None \<Rightarrow> (-1, d)
     | Some Dir \<Rightarrow> (if names d p = [] then (0, drop_nodes (\<lambda>q. q = p) d) else (-1, d))
     | Some _ \<Rightarrow> (0, drop_nodes (\<lambda>q. q = p) d))"

definition may_add :: "disk \<Rightarrow> path \<Rightarrow> errno option" where
  "may_add d p = (if exists_at d p then Some EEXIST else if is_dir d (butlast p) then None else Some ENOENT)"

definition link :: "path \<Rightarrow> path \<Rightarrow> disk \<Rightarrow> errno option \<times> disk" where
  "link src dst d = (case lookup d src of None \<Rightarrow> (Some ENOENT, d)
     | Some n \<Rightarrow> (case may_add d dst of Some e \<Rightarrow> (Some e, d)
         | None \<Rightarrow> (if n = Dir then (Some EPERM, d) else (None, set_node dst n d))))"

definition symlink :: "string \<Rightarrow> path \<Rightarrow> disk \<Rightarrow> errno option \<times> disk" where
  "symlink target dst d = (case may_add d dst of Some e \<Rightarrow> (Some e, d) | None \<Rightarrow> (None, set_node dst (Symlink target) d))"

definition unlink :: "path \<Rightarrow> disk \<Rightarrow> disk" where
  "unlink p d = (if lookup d p = None \<or> lookup d p = Some Dir then d else drop_nodes (\<lambda>q. q = p) d)"

definition mkdir :: "path \<Rightarrow> disk \<Rightarrow> errno option \<times> disk" where
  "mkdir p d = (case may_add d p of Some e \<Rightarrow> (Some e, d) | None \<Rightarrow> (None, set_node p Dir d))"

text \<open>\<open>open\<close> with \<open>O_CREAT\<close> for writing, without and with \<open>O_TRUNC\<close>: the inode of the descriptor;
  \<open>write\<close> at the start of the file; reading a file.\<close>

definition open_creat :: "path \<Rightarrow> disk \<Rightarrow> (nat \<times> disk) option" where
  "open_creat p d = (case lookup d p of Some (File i) \<Rightarrow> Some (i, d)
     | None \<Rightarrow> (if p \<noteq> [] \<and> is_dir d (butlast p)
                then Some (d_next d, (set_node p (File (d_next d)) d)\<lparr>d_data := (d_data d)(d_next d := []), d_next := d_next d + 1\<rparr>)
                else None)
     | _ \<Rightarrow> None)"

definition open_trunc :: "path \<Rightarrow> disk \<Rightarrow> (nat \<times> disk) option" where
  "open_trunc p d = map_option (\<lambda>(i, d). (i, d\<lparr>d_data := (d_data d)(i := [])\<rparr>)) (open_creat p d)"

definition write_fd :: "nat \<Rightarrow> string \<Rightarrow> disk \<Rightarrow> disk" where
  "write_fd i s d = d\<lparr>d_data := (d_data d)(i := s @ drop (length s) (d_data d i))\<rparr>"

definition read_file :: "disk \<Rightarrow> path \<Rightarrow> string option" where
  "read_file d p = (case lookup d p of Some (File i) \<Rightarrow> Some (d_data d i) | _ \<Rightarrow> None)"

section \<open>utils/fs.c\<close>

definition dir_exist :: "disk \<Rightarrow> path \<Rightarrow> bool" where
  "dir_exist d p = is_dir d p"

definition is_slash :: "char \<Rightarrow> bool" where "is_slash c \<longleftrightarrow> c = CHR ''/''"

text \<open>One round of the loop of \<open>mkdir_p\<close>: \<open>made\<close> is what \<open>strndup\<close> copies, \<open>rest\<close> what
  \<open>tmp\<close> points to.\<close>

function mkdir_p_from :: "string \<Rightarrow> string \<Rightarrow> disk \<Rightarrow> int \<times> disk" where
  "mkdir_p_from made rest d =
     (let m = made @ takeWhile is_slash rest; r = dropWhile is_slash rest;
          w = takeWhile (\<lambda>c. \<not> is_slash c) r; (e, d') = (if m = [] then (None, d) else mkdir (comps m) d) in
      if e \<noteq> None \<and> e \<noteq> Some EEXIST then (-1, d')
      else if w = [] then (0, d')
      else mkdir_p_from (m @ w) (dropWhile (\<lambda>c. \<not> is_slash c) r) d')"
  by pat_completeness auto
termination
proof (relation "measure (\<lambda>(made, rest, d). length rest)", goal_cases)
  case 1
  then show ?case by simp
next
  case (2 made rest d m r w x e d')
  then have "w \<noteq> []" by simp
  then have "length (dropWhile (\<lambda>c. \<not> is_slash c) r) < length r"
    using 2(3) by (cases r) (auto simp: length_dropWhile_le le_imp_less_Suc)
  with 2(2) show ?case
    using length_dropWhile_le [of is_slash rest] by simp
qed

declare mkdir_p_from.simps [simp del]

definition mkdir_p :: "string \<Rightarrow> disk \<Rightarrow> int \<times> disk" where
  "mkdir_p dir d = mkdir_p_from [] dir d"

text \<open>The entries of a directory, last first: a name that \<open>remove\<close> refuses is emptied by \<open>f\<close>.\<close>

fun remove_each :: "(path \<Rightarrow> disk \<Rightarrow> disk option) \<Rightarrow> path \<Rightarrow> string list \<Rightarrow> disk \<Rightarrow> disk option" where
  "remove_each f p [] d = Some d"
| "remove_each f p (c # cs) d =
     (if c = ''.'' \<or> c = ''..'' then remove_each f p cs d
      else let (r, d') = remove (p @ [c]) d in
           if r \<noteq> 0 then (case f (p @ [c]) d' of None \<Rightarrow> None | Some d'' \<Rightarrow> remove_each f p cs d'')
           else remove_each f p cs d')"

text \<open>\<open>remove_in\<close>, with the depth of the recursion bounded by the first argument.\<close>

fun remove_in_upto :: "nat \<Rightarrow> path \<Rightarrow> disk \<Rightarrow> disk option" where
  "remove_in_upto 0 p d = None"
| "remove_in_upto (Suc n) p d =
     (case scandir d p of None \<Rightarrow> Some d
      | Some ns \<Rightarrow> map_option (\<lambda>d. snd (remove p d)) (remove_each (remove_in_upto n) p (rev ns) d))"

definition max_depth :: "disk \<Rightarrow> nat" where
  "max_depth d = foldr (\<lambda>x. max (length (fst x))) (d_nodes d) 0"

definition remove_in :: "path \<Rightarrow> string \<Rightarrow> disk \<Rightarrow> disk option" where
  "remove_in p dirname d = remove_in_upto (Suc (max_depth d)) (p @ comps dirname) d"

text \<open>\<open>pv_fops_copy_and_close\<close> of \<open>utils/fops.c\<close>, from one open file to another.\<close>

definition pv_fops_copy_and_close :: "nat \<Rightarrow> nat \<Rightarrow> disk \<Rightarrow> disk" where
  "pv_fops_copy_and_close s t d = write_fd t (d_data d s) d"

section \<open>Paths\<close>

lemma comps_slash: "comps (a @ CHR ''/'' # b) = comps a @ comps b"
proof -
  have "split_on c (a @ c # b) = split_on c a @ split_on c b" for c
  proof (induction a)
    case Nil
    show ?case by simp
  next
    case (Cons x a)
    show ?case
    proof (cases "split_on c a")
      case Nil
      have "split_on c a \<noteq> []" by (induction a) (auto split: list.splits)
      with Nil show ?thesis by simp
    next
      case (Cons w ws)
      with Cons.IH show ?thesis by simp
    qed
  qed
  then show ?thesis by (simp add: comps_def strtok_def)
qed

lemma comps_name: "CHR ''/'' \<notin> set s \<Longrightarrow> s \<noteq> [] \<Longrightarrow> comps s = [s]"
  by (simp add: comps_def strtok_def split_on_absent)

lemma comps_nil [simp]: "comps [] = []"
  by (simp add: comps_def strtok_def)

section \<open>Well-formed trees\<close>

definition name_ok :: "string \<Rightarrow> bool" where
  "name_ok c \<longleftrightarrow> c \<noteq> [] \<and> c \<noteq> ''.'' \<and> c \<noteq> ''..'' \<and> CHR ''/'' \<notin> set c"

text \<open>Every name is unique, below a directory, and an inode that was given out.\<close>

definition wf_disk :: "disk \<Rightarrow> bool" where
  "wf_disk d \<longleftrightarrow> distinct (map fst (d_nodes d)) \<and>
     (\<forall>(p, n)\<in>set (d_nodes d). p \<noteq> [] \<and> list_all name_ok p \<and> is_dir d (butlast p) \<and>
        (\<forall>i. n = File i \<longrightarrow> i < d_next d))"

lemma wf_disk_nodes:
  assumes "wf_disk d" "d_nodes d' = d_nodes d" "d_next d \<le> d_next d'" shows "wf_disk d'"
  unfolding wf_disk_def
proof (intro conjI ballI)
  show "distinct (map fst (d_nodes d'))" using assms by (simp add: wf_disk_def)
next
  fix x assume "x \<in> set (d_nodes d')"
  then show "case x of (p, n) \<Rightarrow> p \<noteq> [] \<and> list_all name_ok p \<and> is_dir d' (butlast p) \<and> (\<forall>i. n = File i \<longrightarrow> i < d_next d')"
    using assms unfolding wf_disk_def is_dir_def lookup_def by fastforce
qed

lemma lookup_in: "wf_disk d \<Longrightarrow> lookup d p = Some n \<longleftrightarrow> (p, n) \<in> set (d_nodes d)"
  by (simp add: wf_disk_def lookup_def map_of_eq_Some_iff)

lemma lookup_keys: "lookup d p \<noteq> None \<longleftrightarrow> p \<in> fst ` set (d_nodes d)"
  by (simp add: lookup_def map_of_eq_None_iff)

lemma lookup_drop: "lookup (drop_nodes P d) p = (if P p then None else lookup d p)"
proof -
  have "map_of (filter (\<lambda>x. \<not> P (fst x)) xs) p = (if P p then None else map_of xs p)" for xs :: "(path \<times> node) list"
    by (induction xs) auto
  from this [of "d_nodes d"] show ?thesis by (simp add: lookup_def drop_nodes_def)
qed

lemma drop_drop: "drop_nodes P (drop_nodes Q d) = drop_nodes (\<lambda>q. P q \<or> Q q) d"
  by (simp add: drop_nodes_def conj_commute)

lemma drop_data [simp]: "d_data (drop_nodes P d) = d_data d" "d_next (drop_nodes P d) = d_next d"
  by (simp_all add: drop_nodes_def)

lemma in_nodes: "(q, n) \<in> set (d_nodes d) \<Longrightarrow> lookup d q \<noteq> None"
  unfolding lookup_keys by force

lemma drop_cong: "(\<And>q. lookup d q \<noteq> None \<Longrightarrow> P q \<longleftrightarrow> Q q) \<Longrightarrow> drop_nodes P d = drop_nodes Q d"
  unfolding drop_nodes_def
  by (rule arg_cong [where f = "\<lambda>ns. d\<lparr>d_nodes := ns\<rparr>"], rule filter_cong) (auto dest!: in_nodes)

lemma drop_none:
  assumes "\<And>q. lookup d q \<noteq> None \<Longrightarrow> \<not> P q" shows "drop_nodes P d = d"
proof -
  have "filter (\<lambda>x. \<not> P (fst x)) (d_nodes d) = d_nodes d"
    using assms by (auto simp: filter_id_conv dest: in_nodes)
  then show ?thesis by (simp add: drop_nodes_def)
qed

lemma wf_node:
  assumes "wf_disk d" "lookup d p = Some n"
  shows "p \<noteq> []" "list_all name_ok p" "is_dir d (butlast p)"
  using assms by (auto simp: lookup_in) (auto simp: wf_disk_def)

lemma wf_File: "wf_disk d \<Longrightarrow> lookup d p = Some (File i) \<Longrightarrow> i < d_next d"
  by (auto simp: lookup_in) (auto simp: wf_disk_def)

text \<open>A tree is closed under prefixes, so dropping a set closed under extension keeps it well-formed.\<close>

lemma wf_prefix_dir:
  assumes "wf_disk d" "lookup d (p @ q) \<noteq> None" "q \<noteq> []"
  shows "is_dir d p"
  using assms(2,3)
proof (induction q rule: rev_induct)
  case Nil
  then show ?case by simp
next
  case (snoc c q)
  then obtain n where "lookup d ((p @ q) @ [c]) = Some n" by auto
  from wf_node(3) [OF assms(1) this] have dir: "is_dir d (p @ q)" by (simp only: butlast_snoc)
  show ?case
  proof (cases "q = []")
    case True
    with dir show ?thesis by simp
  next
    case False
    with dir snoc.IH show ?thesis by (simp add: is_dir_def)
  qed
qed

lemma wf_drop:
  assumes "wf_disk d" and up: "\<And>p c. P p \<Longrightarrow> P (p @ [c])" and "\<not> P []"
  shows "wf_disk (drop_nodes P d)"
  unfolding wf_disk_def
proof (intro conjI ballI)
  show "distinct (map fst (d_nodes (drop_nodes P d)))"
    using assms(1) by (simp add: wf_disk_def drop_nodes_def distinct_map_filter)
next
  fix x assume x: "x \<in> set (d_nodes (drop_nodes P d))"
  obtain p n where xp: "x = (p, n)" by (cases x)
  with x have h: "lookup d p = Some n" "\<not> P p" using assms(1) by (auto simp: drop_nodes_def lookup_in)
  have ne: "p \<noteq> []" using wf_node(1) [OF assms(1) h(1)] .
  have "\<not> P (butlast p)" using up [of "butlast p" "last p"] ne h(2) by auto
  then have "is_dir (drop_nodes P d) (butlast p)"
    using wf_node(3) [OF assms(1) h(1)] by (auto simp: is_dir_def lookup_drop)
  then show "case x of (p, n) \<Rightarrow> p \<noteq> [] \<and> list_all name_ok p \<and> is_dir (drop_nodes P d) (butlast p) \<and>
      (\<forall>i. n = File i \<longrightarrow> i < d_next (drop_nodes P d))"
    using xp ne wf_node(2) [OF assms(1) h(1)] h(1) by (auto intro: wf_File [OF assms(1)])
qed

lemma names_in: "c \<in> set (names d p) \<longleftrightarrow> lookup d (p @ [c]) \<noteq> None"
proof
  assume "c \<in> set (names d p)"
  then obtain q n where "(q, n) \<in> set (d_nodes d)" "q \<noteq> []" "butlast q = p" "c = last q"
    by (auto simp: names_def)
  then have "(p @ [c], n) \<in> set (d_nodes d)" by (metis append_butlast_last_id)
  then show "lookup d (p @ [c]) \<noteq> None" unfolding lookup_keys by force
next
  assume "lookup d (p @ [c]) \<noteq> None"
  then obtain n where "(p @ [c], n) \<in> set (d_nodes d)" unfolding lookup_keys by auto
  then show "c \<in> set (names d p)" by (force simp: names_def)
qed

lemma distinct_names:
  assumes "wf_disk d" shows "distinct (names d p)"
proof -
  let ?xs = "filter (\<lambda>x. fst x \<noteq> [] \<and> butlast (fst x) = p) (d_nodes d)"
  have "distinct (map fst ?xs)" using assms by (simp add: wf_disk_def distinct_map_filter)
  moreover have "inj_on last (set (map fst ?xs))"
    by (rule inj_onI) (auto, metis append_butlast_last_id)
  ultimately have "distinct (map last (map fst ?xs))" by (simp only: distinct_map)
  then show ?thesis by (simp add: names_def comp_def)
qed

lemma names_ok: "wf_disk d \<Longrightarrow> c \<in> set (names d p) \<Longrightarrow> name_ok c"
  using wf_node(2) by (fastforce simp: names_in)

lemma scandir_Some:
  "scandir d p = Some ns \<longleftrightarrow> is_dir d p \<and> ns = sort (''.'' # ''..'' # names d p)"
  by (auto simp: scandir_def)

lemma scandir_set: "scandir d p = Some ns \<Longrightarrow> set ns = {''.'', ''..''} \<union> set (names d p)"
  unfolding scandir_Some by (simp only: set_sort) auto

lemma scandir_distinct:
  assumes "wf_disk d" "scandir d p = Some ns" shows "distinct ns"
proof -
  have "''.'' \<notin> set (names d p)" "''..'' \<notin> set (names d p)"
    using names_ok [OF assms(1), of _ p] by (auto simp: name_ok_def)
  with distinct_names [OF assms(1), of p] have "distinct (''.'' # ''..'' # names d p)" by simp
  with assms(2) show ?thesis unfolding scandir_Some by (simp only: distinct_sort)
qed

section \<open>\<open>remove_in\<close> removes a subtree\<close>

lemma below_child:
  assumes "wf_disk d" "lookup d q \<noteq> None" "prefix p q" "q \<noteq> p"
  obtains c where "c \<in> set (names d p)" "prefix (p @ [c]) q"
proof -
  obtain r where q: "q = p @ r" using assms(3) by (auto simp: prefix_def)
  with assms(4) obtain c s where r: "r = c # s" by (cases r) auto
  have "lookup d (p @ [c]) \<noteq> None"
  proof (cases "s = []")
    case True
    with assms(2) q r show ?thesis by simp
  next
    case False
    have "is_dir d (p @ [c])"
      using wf_prefix_dir [OF assms(1), of "p @ [c]" s] assms(2) q r False by simp
    then show ?thesis by (simp add: is_dir_def)
  qed
  with that [of c] q r show thesis by (auto simp: names_in)
qed

lemma no_names_leaf:
  assumes "wf_disk d" "names d p = []" "lookup d q \<noteq> None"
  shows "prefix p q \<longleftrightarrow> q = p"
  using below_child [OF assms(1) assms(3), of p] assms(2) by fastforce

lemma names_Dir:
  assumes "wf_disk d" "c \<in> set (names d p)" shows "is_dir d p"
  using assms wf_prefix_dir [OF assms(1), of p "[c]"] by (simp add: names_in)

lemma wf_drop_below: "wf_disk d \<Longrightarrow> p \<noteq> [] \<Longrightarrow> wf_disk (drop_nodes (prefix p) d)"
  by (rule wf_drop) (auto intro: prefix_order.trans)

lemma remove_spec:
  assumes "wf_disk d" "lookup d p \<noteq> None"
  shows "remove p d = (if names d p = [] then (0, drop_nodes (prefix p) d) else (-1, d))"
proof (cases "names d p = []")
  case True
  have "drop_nodes (\<lambda>q. q = p) d = drop_nodes (prefix p) d"
    by (rule drop_cong) (use no_names_leaf [OF assms(1) True] in blast)
  with True assms(2) show ?thesis by (auto simp: remove_def split: option.splits node.splits)
next
  case False
  have "p \<noteq> []" using assms wf_node(1) by fast
  then have "lookup d p = Some Dir"
    using False names_Dir [OF assms(1), of _ p] by (cases "names d p") (auto simp: is_dir_def)
  with False show ?thesis by (simp add: remove_def)
qed

text \<open>The level of the recursion below suffices for what hangs under \<open>p\<close>.\<close>

definition fits :: "nat \<Rightarrow> path \<Rightarrow> disk \<Rightarrow> bool" where
  "fits n p d \<longleftrightarrow> (\<forall>q. lookup d q \<noteq> None \<longrightarrow> prefix p q \<longrightarrow> length q < length p + n)"

lemma fits_drop: "fits n p d \<Longrightarrow> fits n p (drop_nodes P d)"
  by (simp add: fits_def lookup_drop)

lemma fits_child: "fits (Suc n) p d \<Longrightarrow> fits n (p @ [c]) d"
  by (auto simp: fits_def append_prefixD)

lemma remove_each_spec:
  assumes f: "\<And>c d. wf_disk d \<Longrightarrow> lookup d (p @ [c]) = Some Dir \<Longrightarrow> fits n (p @ [c]) d \<Longrightarrow>
      f (p @ [c]) d = Some (drop_nodes (prefix (p @ [c])) d)"
    and "wf_disk d" "fits (Suc n) p d" "distinct cs" "\<And>c. c \<in> set cs \<Longrightarrow> name_ok c \<Longrightarrow> c \<in> set (names d p)"
    and "\<And>c. c \<in> set cs \<Longrightarrow> c = ''.'' \<or> c = ''..'' \<or> name_ok c"
  shows "remove_each f p cs d = Some (drop_nodes (\<lambda>q. \<exists>c\<in>set cs. name_ok c \<and> prefix (p @ [c]) q) d)"
  using assms(2-6)
proof (induction cs arbitrary: d)
  case Nil
  then show ?case by (simp add: drop_none)
next
  case (Cons c cs)
  show ?case
  proof (cases "name_ok c")
    case False
    with Cons.prems(5) have "c = ''.'' \<or> c = ''..''" by auto
    with False Cons show ?thesis by simp
  next
    case True
    let ?q = "p @ [c]" and ?d = "drop_nodes (prefix (p @ [c])) d"
    have there: "lookup d ?q \<noteq> None" using True Cons.prems(4) by (simp add: names_in)
    have wf: "wf_disk ?d" by (rule wf_drop_below) (use Cons.prems(1) in simp_all)
    have other: "c' \<in> set (names ?d p)" if "c' \<in> set cs" "name_ok c'" for c'
      using that Cons.prems(3,4) by (auto simp: names_in lookup_drop)
    have rest: "remove_each f p cs ?d = Some (drop_nodes (\<lambda>q. \<exists>c\<in>set cs. name_ok c \<and> prefix (p @ [c]) q) ?d)"
      by (rule Cons.IH) (use wf other Cons.prems fits_drop in auto)
    have both: "drop_nodes (\<lambda>q. \<exists>c\<in>set cs. name_ok c \<and> prefix (p @ [c]) q) ?d =
        drop_nodes (\<lambda>q. \<exists>c\<in>set (c # cs). name_ok c \<and> prefix (p @ [c]) q) d"
      unfolding drop_drop by (rule drop_cong) (use True in auto)
    have "names d ?q \<noteq> [] \<Longrightarrow> lookup d ?q = Some Dir"
      using names_Dir [OF Cons.prems(1), of _ ?q] by (cases "names d ?q") (auto simp: is_dir_def)
    then have "names d ?q \<noteq> [] \<Longrightarrow> f ?q d = Some ?d"
      using f [OF Cons.prems(1)] fits_child [OF Cons.prems(2)] by blast
    moreover have "c \<noteq> ''.''" "c \<noteq> ''..''" using True by (auto simp: name_ok_def)
    ultimately show ?thesis
      using rest by (simp add: remove_spec [OF Cons.prems(1) there] both)
  qed
qed

lemma remove_in_upto_spec:
  assumes "wf_disk d" "p \<noteq> []" "fits n p d" "0 < n"
  shows "remove_in_upto n p d = Some (if is_dir d p then drop_nodes (prefix p) d else d)"
  using assms
proof (induction n arbitrary: p d)
  case 0
  then show ?case by simp
next
  case (Suc n)
  show ?case
  proof (cases "is_dir d p")
    case False
    then show ?thesis by (simp add: scandir_def)
  next
    case True
    then obtain ns where ns: "scandir d p = Some ns" by (simp add: scandir_def)
    let ?d = "drop_nodes (\<lambda>q. \<exists>c\<in>set (rev ns). name_ok c \<and> prefix (p @ [c]) q) d"
    have f: "remove_in_upto n (p @ [c]) d' = Some (drop_nodes (prefix (p @ [c])) d')"
      if "wf_disk d'" "lookup d' (p @ [c]) = Some Dir" "fits n (p @ [c]) d'" for c d'
    proof -
      have "0 < n" using that(2,3) by (auto simp: fits_def)
      then show ?thesis using Suc.IH [OF that(1) _ that(3)] that(2) by (simp add: is_dir_def)
    qed
    have each: "remove_each (remove_in_upto n) p (rev ns) d = Some ?d"
    proof (rule remove_each_spec)
      show "distinct (rev ns)" using scandir_distinct [OF Suc.prems(1) ns] by simp
      show "c \<in> set (names d p)" if "c \<in> set (rev ns)" "name_ok c" for c
        using that scandir_set [OF ns] by (auto simp: name_ok_def)
      show "c = ''.'' \<or> c = ''..'' \<or> name_ok c" if "c \<in> set (rev ns)" for c
        using that scandir_set [OF ns] names_ok [OF Suc.prems(1)] by auto
    qed (use Suc.prems f in auto)
    have sub: "?d = drop_nodes (\<lambda>q. prefix p q \<and> q \<noteq> p) d"
    proof (rule drop_cong)
      fix q assume q: "lookup d q \<noteq> None"
      show "(\<exists>c\<in>set (rev ns). name_ok c \<and> prefix (p @ [c]) q) \<longleftrightarrow> prefix p q \<and> q \<noteq> p"
      proof
        assume "\<exists>c\<in>set (rev ns). name_ok c \<and> prefix (p @ [c]) q"
        then show "prefix p q \<and> q \<noteq> p" by (auto dest: append_prefixD)
      next
        assume "prefix p q \<and> q \<noteq> p"
        then obtain c where "c \<in> set (names d p)" "prefix (p @ [c]) q"
          using below_child [OF Suc.prems(1) q] by blast
        then show "\<exists>c\<in>set (rev ns). name_ok c \<and> prefix (p @ [c]) q"
          using scandir_set [OF ns] names_ok [OF Suc.prems(1)] by auto
      qed
    qed
    have wf: "wf_disk ?d" unfolding sub using Suc.prems(1,2)
      by (intro wf_drop) (auto simp: prefix_def)
    have there: "lookup ?d p \<noteq> None" unfolding sub using True Suc.prems(2) by (simp add: lookup_drop is_dir_def)
    have "names ?d p = []"
    proof (rule ccontr)
      assume "names ?d p \<noteq> []"
      then obtain c where "c \<in> set (names ?d p)" by (cases "names ?d p") auto
      then show False unfolding names_in sub by (simp add: lookup_drop)
    qed
    then have "remove p ?d = (0, drop_nodes (prefix p) ?d)" using remove_spec [OF wf there] by simp
    moreover have "drop_nodes (prefix p) ?d = drop_nodes (prefix p) d"
      unfolding sub drop_drop by (rule drop_cong) auto
    ultimately show ?thesis using ns each True by simp
  qed
qed

lemma fits_max_depth: "fits (Suc (max_depth d)) p d"
proof -
  have "x \<in> set xs \<Longrightarrow> length (fst x) \<le> foldr (\<lambda>x. max (length (fst x))) xs 0" for x and xs :: "(path \<times> node) list"
    by (induction xs) auto
  then have "lookup d q \<noteq> None \<Longrightarrow> length q \<le> max_depth d" for q
    unfolding lookup_keys max_depth_def by fastforce
  then show ?thesis unfolding fits_def by (meson le_imp_less_Suc trans_less_add2)
qed

text \<open>The recursion always ends, and takes away a directory with all below it.\<close>

lemma remove_in_subtree:
  assumes "wf_disk d" "p @ comps r \<noteq> []"
  shows "remove_in p r d = Some (if is_dir d (p @ comps r) then drop_nodes (prefix (p @ comps r)) d else d)"
  unfolding remove_in_def by (rule remove_in_upto_spec [OF assms(1,2) fits_max_depth]) simp

section \<open>\<open>mkdir_p\<close> makes a path\<close>

lemma lookup_set: "lookup (set_node p n d) q = (if q = p then Some n else lookup d q)"
  by (simp add: lookup_def set_node_def)

lemma set_data [simp]: "d_data (set_node p n d) = d_data d" "d_next (set_node p n d) = d_next d"
  by (simp_all add: set_node_def)

lemma is_dir_set: "lookup d p = None \<Longrightarrow> is_dir d q \<Longrightarrow> is_dir (set_node p n d) q"
  by (auto simp: is_dir_def lookup_set)

lemma wf_set:
  assumes "wf_disk d" "p \<noteq> []" "lookup d p = None" "list_all name_ok p" "is_dir d (butlast p)" "\<And>i. n = File i \<Longrightarrow> i < d_next d"
  shows "wf_disk (set_node p n d)"
  unfolding wf_disk_def
proof (intro conjI ballI)
  have "p \<notin> fst ` set (d_nodes d)" using assms(3) lookup_keys [of d p] by simp
  then show "distinct (map fst (d_nodes (set_node p n d)))"
    using assms(1) by (simp add: set_node_def wf_disk_def)
next
  fix x assume "x \<in> set (d_nodes (set_node p n d))"
  then have "x = (p, n) \<or> x \<in> set (d_nodes d)" by (auto simp: set_node_def)
  then show "case x of (q, m) \<Rightarrow> q \<noteq> [] \<and> list_all name_ok q \<and> is_dir (set_node p n d) (butlast q) \<and>
      (\<forall>i. m = File i \<longrightarrow> i < d_next (set_node p n d))"
  proof
    assume "x = (p, n)"
    then show ?thesis using assms is_dir_set by auto
  next
    assume "x \<in> set (d_nodes d)"
    then show ?thesis using assms(1) is_dir_set [OF assms(3)] unfolding wf_disk_def by fastforce
  qed
qed

lemma comps_slashes: "list_all is_slash s \<Longrightarrow> comps (a @ s) = comps a"
proof (induction s arbitrary: a)
  case (Cons c s)
  then have c: "c = CHR ''/''" by (simp add: is_slash_def)
  have "comps (a @ c # s) = comps a @ comps s" unfolding c by (rule comps_slash)
  also have "comps s = []" using Cons.IH [of "[]"] Cons.prems by simp
  finally show ?case by simp
qed simp

lemma comps_lead: "comps (dropWhile is_slash s) = comps s"
proof (induction s)
  case (Cons c s)
  then show ?case using comps_slash [of "[]" s] by (auto simp: is_slash_def)
qed simp

lemma comps_word:
  assumes "w \<noteq> []" "list_all (\<lambda>c. \<not> is_slash c) w" "r = [] \<or> is_slash (hd r)"
  shows "comps (w @ r) = w # comps r"
proof -
  have w: "comps w = [w]" using assms(1,2) by (intro comps_name) (auto simp: is_slash_def list_all_iff)
  show ?thesis
  proof (cases r)
    case Nil
    with w show ?thesis by simp
  next
    case (Cons c x)
    with assms(3) have "c = CHR ''/''" by (simp add: is_slash_def)
    with Cons w show ?thesis using comps_slash [of w x] comps_slash [of "[]" x] by simp
  qed
qed

lemma comps_after_slashes:
  assumes "s \<noteq> []" "list_all is_slash s" shows "comps (a @ s @ w) = comps a @ comps w"
proof -
  have "s = butlast s @ [last s]" using assms(1) by simp
  moreover have "is_slash (last s)" "list_all is_slash (butlast s)"
    using assms by (auto simp: list_all_iff dest: in_set_butlastD)
  ultimately have "comps (a @ s @ w) = comps (a @ butlast s) @ comps w"
    using comps_slash [of "a @ butlast s" w] by (metis append.assoc append_Cons append_Nil is_slash_def)
  then show ?thesis using comps_slashes [OF \<open>list_all is_slash (butlast s)\<close>] by simp
qed

lemma wf_prefixes:
  assumes "wf_disk d" "is_dir d p" "prefix q p" shows "is_dir d q"
proof (cases "q = p")
  case False
  with assms(3) obtain r where r: "p = q @ r" "r \<noteq> []" by (auto simp: prefix_def)
  with assms(2) have "lookup d (q @ r) \<noteq> None" by (auto simp: is_dir_def)
  then show ?thesis using wf_prefix_dir [OF assms(1) _ r(2)] by blast
qed (use assms in simp)

lemma mkdir_at:
  assumes "wf_disk d" "list_all name_ok p" "p \<noteq> []" "is_dir d (butlast p)" "lookup d p = None \<or> lookup d p = Some Dir"
  shows "\<exists>e d'. mkdir p d = (e, d') \<and> (e = None \<or> e = Some EEXIST) \<and> wf_disk d' \<and> d_data d' = d_data d \<and>
    d_next d' = d_next d \<and> (\<forall>q. lookup d' q = (if q = p then Some Dir else lookup d q))"
proof (cases "lookup d p")
  case None
  then show ?thesis using assms wf_set [OF assms(1,3) None assms(2,4), of Dir]
    by (simp add: mkdir_def may_add_def exists_at_def lookup_set)
next
  case (Some n)
  then show ?thesis using assms by (simp add: mkdir_def may_add_def exists_at_def)
qed

lemma mkdir_p_from_spec:
  assumes "wf_disk d" "list_all name_ok (comps made @ comps rest)" "is_dir d (butlast (comps made))"
    and "rest = [] \<or> is_slash (hd rest) \<or> made = []"
    and "\<And>q. prefix q (comps made @ comps rest) \<Longrightarrow> lookup d q = None \<or> lookup d q = Some Dir"
  shows "\<exists>d'. mkdir_p_from made rest d = (0, d') \<and> wf_disk d' \<and> d_data d' = d_data d \<and> d_next d' = d_next d \<and>
    (\<forall>q. lookup d' q = (if q \<noteq> [] \<and> prefix q (comps made @ comps rest) then Some Dir else lookup d q))"
  using assms
proof (induction made rest d rule: mkdir_p_from.induct)
  case (1 made rest d)
  let ?s = "takeWhile is_slash rest" and ?r = "dropWhile is_slash rest"
  let ?m = "made @ ?s" and ?w = "takeWhile (\<lambda>c. \<not> is_slash c) ?r" and ?r' = "dropWhile (\<lambda>c. \<not> is_slash c) ?r"
  have sl: "list_all is_slash ?s" by (auto simp: list_all_iff dest: set_takeWhileD)
  have wsl: "list_all (\<lambda>c. \<not> is_slash c) ?w" by (auto simp: list_all_iff dest: set_takeWhileD)
  have m: "comps ?m = comps made" by (rule comps_slashes [OF sl])
  have "\<exists>e d1. (if ?m = [] then (None, d) else mkdir (comps ?m) d) = (e, d1) \<and> (e = None \<or> e = Some EEXIST) \<and>
      wf_disk d1 \<and> d_data d1 = d_data d \<and> d_next d1 = d_next d \<and>
      (\<forall>q. lookup d1 q = (if q \<noteq> [] \<and> q = comps made then Some Dir else lookup d q))"
  proof (cases "comps made = []")
    case True
    then show ?thesis using 1(2) m by (auto simp: mkdir_def may_add_def exists_at_def)
  next
    case False
    then have "?m \<noteq> []" using m by auto
    then show ?thesis
      using mkdir_at [OF 1(2) _ False 1(4)] 1(3) 1(6) [of "comps made"] False m by (auto simp: list_all_append)
  qed
  then obtain e d1 where d1: "(if ?m = [] then (None, d) else mkdir (comps ?m) d) = (e, d1)" "e = None \<or> e = Some EEXIST"
      "wf_disk d1" "d_data d1 = d_data d" "d_next d1 = d_next d"
      "\<And>q. lookup d1 q = (if q \<noteq> [] \<and> q = comps made then Some Dir else lookup d q)" by blast
  have here: "is_dir d1 (comps made)" by (simp add: is_dir_def d1(6))
  have step: "mkdir_p_from made rest d = (if ?w = [] then (0, d1) else mkdir_p_from (?m @ ?w) ?r' d1)"
    using d1(1,2) by (subst mkdir_p_from.simps) (auto simp: Let_def)
  show ?case
  proof (cases "?w = []")
    case True
    then have "?r = []" by (metis hd_dropWhile takeWhile_eq_Nil_iff)
    then have "comps rest = []" by (metis comps_lead comps_nil)
    moreover have "lookup d q = Some Dir" if "q \<noteq> []" "prefix q (comps made)" "q \<noteq> comps made" for q
      using wf_prefixes [OF d1(3) here that(2)] that by (simp add: is_dir_def d1(6))
    ultimately show ?thesis using step True d1(3-6) by auto
  next
    case False
    have r': "?r' = [] \<or> is_slash (hd ?r')" using hd_dropWhile [of "\<lambda>c. \<not> is_slash c" ?r] by auto
    have rest: "comps rest = ?w # comps ?r'"
      using comps_word [OF False wsl r'] comps_lead [of rest] by simp
    have new: "comps (?m @ ?w) = comps made @ [?w]"
    proof (cases "?s = []")
      case True
      then have "made = []" using 1(5) False by (cases rest) auto
      with True show ?thesis using comps_word [OF False wsl, of "[]"] by simp
    next
      case nempty: False
      show ?thesis using comps_after_slashes [OF nempty sl, of made ?w] comps_word [OF False wsl, of "[]"] by simp
    qed
    have full: "comps (?m @ ?w) @ comps ?r' = comps made @ comps rest" by (simp only: new rest) simp
    have "\<exists>d'. mkdir_p_from (?m @ ?w) ?r' d1 = (0, d') \<and> wf_disk d' \<and> d_data d' = d_data d1 \<and> d_next d' = d_next d1 \<and>
      (\<forall>q. lookup d' q = (if q \<noteq> [] \<and> prefix q (comps (?m @ ?w) @ comps ?r') then Some Dir else lookup d1 q))"
    proof (rule 1(1) [OF refl refl refl d1(1) [symmetric] refl _ False])
      show "\<not> (e \<noteq> None \<and> e \<noteq> Some EEXIST)" using d1(2) by blast
      show "list_all name_ok (comps (?m @ ?w) @ comps ?r')" unfolding full by (rule 1(3))
      show "is_dir d1 (butlast (comps (?m @ ?w)))" using here by (simp only: new butlast_snoc)
      show "lookup d1 q = None \<or> lookup d1 q = Some Dir" if "prefix q (comps (?m @ ?w) @ comps ?r')" for q
        using 1(6) [of q] that unfolding full d1(6) by auto
    qed (use d1(3) r' in auto)
    then show ?thesis using step False d1(4-6) unfolding full by auto
  qed
qed

lemma mkdir_p_spec:
  assumes "wf_disk d" "list_all name_ok (comps s)" "\<And>q. prefix q (comps s) \<Longrightarrow> lookup d q = None \<or> lookup d q = Some Dir"
  shows "\<exists>d'. mkdir_p s d = (0, d') \<and> wf_disk d' \<and> d_data d' = d_data d \<and> d_next d' = d_next d \<and>
    (\<forall>q. lookup d' q = (if q \<noteq> [] \<and> prefix q (comps s) then Some Dir else lookup d q))"
  unfolding mkdir_p_def using mkdir_p_from_spec [of d "[]" s] assms by (simp add: is_dir_def)

end
