(* ===== verification/Storage.thy ===== *)
theory Storage
  imports Disk Updater
begin

text \<open>
  \<open>storage.c\<close> over the tree of \<open>Disk\<close>: the garbage collection of revisions and objects with its
  thresholds. The files of a revision are in \<open>Trails\<close>.
\<close>

section \<open>Configuration and state\<close>

record sconfig =
  g_mnt :: string
  g_keep_factory :: bool
  g_reserved :: int
  g_threshold :: int
  g_defertime :: int

record storage =
  st_disk :: disk
  threshold_timer :: timer
  loading_objects :: bool

text \<open>\<open>struct pv_storage\<close>, from the block size, the blocks and the free blocks of \<open>statfs\<close>.\<close>

record space =
  sp_total :: int
  sp_free :: int
  sp_free_percentage :: int
  sp_reserved :: int
  sp_reserved_percentage :: int
  sp_real_free :: int
  sp_real_free_percentage :: int
  sp_threshold :: int

type_synonym statfs = "(int \<times> int \<times> int) option"

definition percent_of :: "int \<Rightarrow> int \<Rightarrow> int" where
  "percent_of x tot = (if tot \<noteq> 0 then (x * 100) div tot else 0)"

definition pv_storage_new :: "sconfig \<Rightarrow> statfs \<Rightarrow> space option" where
  "pv_storage_new g fs = (case fs of None \<Rightarrow> None
     | Some (bsize, blocks, bfree) \<Rightarrow>
         (let tot = bsize * blocks; free = bsize * bfree; reserved = (tot * g_reserved g) div 100;
              real = (if free > reserved then free - reserved else 0) in
          Some \<lparr>sp_total = tot, sp_free = free, sp_free_percentage = percent_of free tot, sp_reserved = reserved,
             sp_reserved_percentage = g_reserved g, sp_real_free = real,
             sp_real_free_percentage = percent_of real tot, sp_threshold = g_threshold g\<rparr>))"

definition pv_storage_get_free :: "sconfig \<Rightarrow> statfs \<Rightarrow> int" where
  "pv_storage_get_free g fs = (case pv_storage_new g fs of None \<Rightarrow> 0 | Some sp \<Rightarrow> sp_real_free sp)"

section \<open>Garbage collection\<close>

definition at :: "sconfig \<Rightarrow> string \<Rightarrow> path" where
  "at g s = comps (g_mnt g @ s)"

text \<open>The entries, sorted, go before what the list holds already.\<close>

definition pv_storage_get_subdir :: "disk \<Rightarrow> string \<Rightarrow> string \<Rightarrow> string list \<Rightarrow> string list" where
  "pv_storage_get_subdir d p prefx l =
     (case scandir d (comps (p @ prefx)) of None \<Rightarrow> l | Some ns \<Rightarrow> map (\<lambda>n. prefx @ n) ns @ l)"

definition pv_storage_get_revisions :: "sconfig \<Rightarrow> disk \<Rightarrow> string list" where
  "pv_storage_get_revisions g d =
     pv_storage_get_subdir d (g_mnt g @ ''/trails/'') [] (pv_storage_get_subdir d (g_mnt g @ ''/trails/'') ''locals/'' [])"

definition pv_storage_rm_rev :: "sconfig \<Rightarrow> string \<Rightarrow> disk \<Rightarrow> disk option" where
  "pv_storage_rm_rev g rv d =
     Option.bind (remove_in (at g ''/trails'') rv d) (\<lambda>d.
     Option.bind (remove_in (at g ''/logs'') rv d) (\<lambda>d.
     remove_in (at g ''/disks/rev'') rv d))"

text \<open>What is never collected; \<open>pv_bootloader_get_done()\<close> may be \<open>NULL\<close>.\<close>

definition pending_of :: "'s pv \<Rightarrow> pv_state option" where
  "pending_of p = (case pv_update p of None \<Rightarrow> None | Some u \<Rightarrow> pending_state p u)"

definition special_revs :: "string list" where
  "special_revs = [''..'', ''.'', ''current'', ''locals'', ''locals/..'', ''locals/.'']"

definition gc_keeps :: "sconfig \<Rightarrow> 's pv \<Rightarrow> string \<Rightarrow> bool outcome" where
  "gc_keeps g p r =
     (let same = (\<lambda>x. strneq r x (length r + 1)) in
      if list_ex same special_revs \<or> (case pv_state p of None \<Rightarrow> False | Some s \<Rightarrow> same (s_rev s)) \<or>
         (case pending_of p of None \<Rightarrow> False | Some u \<Rightarrow> same (s_rev u))
      then Done True
      else case pv_done (pv_boot p) of None \<Rightarrow> Fault
       | Some dn \<Rightarrow> Done (same dn \<or> g_keep_factory g \<and> same ''0''))"

fun gc_revisions :: "sconfig \<Rightarrow> 's pv \<Rightarrow> string list \<Rightarrow> disk \<Rightarrow> (unit \<times> disk) outcome option" where
  "gc_revisions g p [] d = give () d"
| "gc_revisions g p (r # rs) d =
     (case gc_keeps g p r of Fault \<Rightarrow> Some Fault
      | Done k \<Rightarrow> (if k then gc_revisions g p rs d
                  else case pv_storage_rm_rev g r d of None \<Rightarrow> None | Some d' \<Rightarrow> gc_revisions g p rs d'))"

text \<open>The bytes are summed in an \<open>int\<close>.\<close>

definition object_path :: "sconfig \<Rightarrow> string \<Rightarrow> path" where
  "object_path g c = at g (''/objects/'' @ c)"

fun gc_each_object :: "sconfig \<Rightarrow> 's pv \<Rightarrow> string list \<Rightarrow> 32 word \<Rightarrow> disk \<Rightarrow> 32 word \<times> disk" where
  "gc_each_object g p [] n d = (n, d)"
| "gc_each_object g p (c # cs) n d =
     (if c = ''..'' \<or> c = ''.'' then gc_each_object g p cs n d
      else let q = object_path g c in
        case stat d q of None \<Rightarrow> gc_each_object g p cs n d
        | Some (links, bytes) \<Rightarrow>
            (if links > 1 \<or> pv_update p \<noteq> None \<and> pv_objects_id_in_step (pending_of p) c
             then gc_each_object g p cs n d
             else gc_each_object g p cs (n + word_of_nat bytes) (snd (remove q d))))"

definition pv_storage_gc_objects :: "sconfig \<Rightarrow> 's pv \<Rightarrow> disk \<Rightarrow> 32 word \<times> disk" where
  "pv_storage_gc_objects g p d =
     gc_each_object g p (pv_storage_get_subdir d (g_mnt g @ ''/objects/'') [] []) 0 d"

definition pv_storage_gc_run :: "sconfig \<Rightarrow> 's pv \<Rightarrow> disk \<Rightarrow> (32 word \<times> disk) outcome option" where
  "pv_storage_gc_run g p d =
     then_do (gc_revisions g p (pv_storage_get_revisions g d) d)
       (\<lambda>_ d. let (n, d') = pv_storage_gc_objects g p d in give n d')"

text \<open>\<open>fs\<close> and \<open>fs'\<close>: what \<open>statfs\<close> says before and after the collection.\<close>

definition pv_storage_gc_run_needed :: "sconfig \<Rightarrow> 's pv \<Rightarrow> statfs \<Rightarrow> (disk \<Rightarrow> statfs) \<Rightarrow> int \<Rightarrow> disk \<Rightarrow> (int \<times> disk) outcome option" where
  "pv_storage_gc_run_needed g p fs fs' needed d =
     (let available = pv_storage_get_free g fs in
      if needed > available
      then then_do (pv_storage_gc_run g p d) (\<lambda>_ d'. give (pv_storage_get_free g (fs' d')) d')
      else give available d)"

definition pv_storage_gc_defer_run_threshold :: "clock \<Rightarrow> sconfig \<Rightarrow> storage \<Rightarrow> storage" where
  "pv_storage_gc_defer_run_threshold ck g st =
     st\<lparr>threshold_timer := timer_start ck (threshold_timer st) (g_defertime g) 0 RELATIV_TIMER, loading_objects := True\<rparr>"

definition pv_storage_gc_run_threshold :: "clock \<Rightarrow> sconfig \<Rightarrow> 's pv \<Rightarrow> statfs \<Rightarrow> storage \<Rightarrow> (unit \<times> storage) outcome option" where
  "pv_storage_gc_run_threshold ck g p fs st =
     (let st = (if loading_objects st \<and> timer_fin ck (threshold_timer st) then st\<lparr>loading_objects := False\<rparr> else st) in
      if g_threshold g = 0 \<or> loading_objects st then give () st
      else case pv_storage_new g fs of None \<Rightarrow> give () st
       | Some sp \<Rightarrow> (if sp_real_free_percentage sp < sp_threshold sp
                    then then_do (pv_storage_gc_run g p (st_disk st)) (\<lambda>_ d. give () (st\<lparr>st_disk := d\<rparr>))
                    else give () st))"

section \<open>Facts about one collection\<close>

lemma strneq_whole [simp]: "strneq r x (Suc (length r)) \<longleftrightarrow> r = x"
  using strneq_full [of r x] by simp

text \<open>The revisions that a collection keeps, when the boot loader has one that is done.\<close>

definition kept :: "sconfig \<Rightarrow> 's pv \<Rightarrow> string \<Rightarrow> bool" where
  "kept g p r \<longleftrightarrow> r \<in> set special_revs \<or> (\<exists>s. pv_state p = Some s \<and> s_rev s = r) \<or>
     (\<exists>u. pending_of p = Some u \<and> s_rev u = r) \<or> pv_done (pv_boot p) = Some r \<or> g_keep_factory g \<and> r = ''0''"

lemma gc_keeps_kept: "pv_done (pv_boot p) \<noteq> None \<Longrightarrow> gc_keeps g p r = Done (kept g p r)"
  by (auto simp: gc_keeps_def kept_def list_ex_iff Let_def split: option.splits)

text \<open>The directories that \<open>pv_storage_rm_rev\<close> removes, and what is in them.\<close>

definition rev_roots :: "sconfig \<Rightarrow> path set" where
  "rev_roots g = {at g ''/trails'', at g ''/logs'', at g ''/disks/rev''}"

definition under_rev :: "sconfig \<Rightarrow> disk \<Rightarrow> string \<Rightarrow> path \<Rightarrow> bool" where
  "under_rev g d r q \<longleftrightarrow> (\<exists>t\<in>rev_roots g. is_dir d (t @ comps r) \<and> prefix (t @ comps r) q)"

lemma at_slash: "at g (CHR ''/'' # s) = comps (g_mnt g) @ comps s"
  by (simp add: at_def comps_slash)

lemma roots: "at g ''/trails'' = comps (g_mnt g) @ [''trails'']" "at g ''/logs'' = comps (g_mnt g) @ [''logs'']"
    "at g ''/disks/rev'' = comps (g_mnt g) @ [''disks'', ''rev'']" "at g ''/objects/'' = comps (g_mnt g) @ [''objects'']"
    "at g ''/trails/'' = comps (g_mnt g) @ [''trails'']"
  by (simp_all add: at_slash comps_def strtok_def)

lemma at_object: "name_ok c \<Longrightarrow> object_path g c = at g ''/objects/'' @ [c]"
  unfolding roots object_path_def using comps_slash [of "''objects''" c]
  by (simp add: at_slash comps_name name_ok_def)

lemma prefix_same_root:
  "prefix (a @ x) q \<Longrightarrow> prefix (a @ y) q \<Longrightarrow> prefix x y \<or> prefix y x"
  by (auto simp: prefix_def) (metis append_eq_append_conv2)

lemma bind_Some: "Option.bind (Some x) f = f x" by simp

lemma rm_rev_spec:
  assumes "wf_disk d"
  shows "pv_storage_rm_rev g r d = Some (drop_nodes (under_rev g d r) d)"
proof -
  let ?p1 = "at g ''/trails'' @ comps r" and ?p2 = "at g ''/logs'' @ comps r" and ?p3 = "at g ''/disks/rev'' @ comps r"
  let ?P1 = "\<lambda>q. is_dir d ?p1 \<and> prefix ?p1 q" and ?P2 = "\<lambda>q. is_dir d ?p2 \<and> prefix ?p2 q"
    and ?P3 = "\<lambda>q. is_dir d ?p3 \<and> prefix ?p3 q"
  have ne: "?p1 \<noteq> []" "?p2 \<noteq> []" "?p3 \<noteq> []" by (simp_all add: roots)
  have one: "remove_in t r e = Some (drop_nodes (\<lambda>q. is_dir e (t @ comps r) \<and> prefix (t @ comps r) q) e)"
    if "wf_disk e" "t @ comps r \<noteq> []" for t e
    using remove_in_subtree [OF that] by (auto simp: drop_none)
  have wf: "wf_disk (drop_nodes (\<lambda>q. is_dir e t \<and> prefix t q) e)" if "wf_disk e" "t \<noteq> []" for t e
    using that by (intro wf_drop) (auto intro: prefix_order.trans)
  let ?d1 = "drop_nodes ?P1 d" and ?d2 = "drop_nodes ?P2 (drop_nodes ?P1 d)"
  have "\<not> prefix ?p1 ?p2" "\<not> prefix ?p1 ?p3" "\<not> prefix ?p2 ?p3"
    by (auto simp: roots)
  then have same: "is_dir ?d1 ?p2 = is_dir d ?p2" "is_dir ?d2 ?p3 = is_dir d ?p3"
    by (simp_all add: is_dir_def lookup_drop)
  have w1: "wf_disk ?d1" using wf [OF assms ne(1)] .
  have w2: "wf_disk ?d2" using wf [OF w1 ne(2)] same by simp
  have "pv_storage_rm_rev g r d = Some (drop_nodes ?P3 ?d2)"
    unfolding pv_storage_rm_rev_def
    by (simp only: one [OF assms ne(1)] one [OF w1 ne(2)] one [OF w2 ne(3)] same bind_Some)
  also have "drop_nodes ?P3 ?d2 = drop_nodes (under_rev g d r) d"
    unfolding drop_drop by (rule drop_cong) (auto simp: under_rev_def rev_roots_def)
  finally show ?thesis .
qed

lemma under_rev_up: "under_rev g d r q \<Longrightarrow> under_rev g d r (q @ [c])"
  unfolding under_rev_def by (blast intro: prefix_order.trans prefixI)

lemma under_rev_not_root: "\<not> under_rev g d r []"
  by (auto simp: under_rev_def rev_roots_def roots)

lemma under_rev_prefix:
  assumes "under_rev g d r p" "prefix p q" shows "under_rev g d r q"
  using assms unfolding under_rev_def by (blast intro: prefix_order.trans)

lemma wf_drop_rev: "wf_disk d \<Longrightarrow> wf_disk (drop_nodes (\<lambda>q. \<exists>r\<in>R. under_rev g d r q) d)"
proof (rule wf_drop)
  show "\<exists>r\<in>R. under_rev g d r (p @ [c])" if "\<exists>r\<in>R. under_rev g d r p" for p c
    using that under_rev_up by blast
qed (simp_all add: under_rev_not_root)

text \<open>What a collection of the revisions takes away.\<close>

definition gone :: "sconfig \<Rightarrow> 's pv \<Rightarrow> disk \<Rightarrow> string list \<Rightarrow> path \<Rightarrow> bool" where
  "gone g p d rs q \<longleftrightarrow> (\<exists>r\<in>set rs. \<not> kept g p r \<and> under_rev g d r q)"

lemma is_dir_drop: "is_dir (drop_nodes P d) x \<longleftrightarrow> x = [] \<or> \<not> P x \<and> is_dir d x"
  by (simp add: is_dir_def lookup_drop)

lemma gone_after:
  assumes "lookup d q \<noteq> None"
  shows "gone g p (drop_nodes (under_rev g d r) d) rs q \<or> under_rev g d r q \<longleftrightarrow>
    gone g p d rs q \<or> under_rev g d r q"
proof -
  let ?d = "drop_nodes (under_rev g d r) d"
  have "under_rev g ?d r' q \<or> under_rev g d r q \<longleftrightarrow> under_rev g d r' q \<or> under_rev g d r q" for r'
  proof
    assume "under_rev g ?d r' q \<or> under_rev g d r q"
    moreover have "is_dir ?d x \<Longrightarrow> is_dir d x" for x by (auto simp: is_dir_def lookup_drop split: if_splits)
    ultimately show "under_rev g d r' q \<or> under_rev g d r q"
      unfolding under_rev_def by blast
  next
    assume h: "under_rev g d r' q \<or> under_rev g d r q"
    show "under_rev g ?d r' q \<or> under_rev g d r q"
    proof (cases "under_rev g d r q")
      case False
      with h obtain t where t: "t \<in> rev_roots g" "is_dir d (t @ comps r')" "prefix (t @ comps r') q"
        by (auto simp: under_rev_def)
      with False have "\<not> under_rev g d r (t @ comps r')" using under_rev_prefix by blast
      with t(2) have "is_dir ?d (t @ comps r')" by (simp add: is_dir_drop)
      with t(1,3) have "under_rev g ?d r' q" unfolding under_rev_def by blast
      then show ?thesis ..
    qed simp
  qed
  then show ?thesis unfolding gone_def by blast
qed

lemma gc_revisions_spec:
  assumes "pv_done (pv_boot p) \<noteq> None" "wf_disk d"
  shows "gc_revisions g p rs d = give () (drop_nodes (gone g p d rs) d)"
  using assms(2)
proof (induction rs arbitrary: d)
  case Nil
  then show ?case by (simp add: gone_def drop_none)
next
  case (Cons r rs)
  show ?case
  proof (cases "kept g p r")
    case True
    then have "gone g p d (r # rs) = gone g p d rs" by (auto simp: gone_def fun_eq_iff)
    with True Cons show ?thesis by (simp add: gc_keeps_kept [OF assms(1)])
  next
    case False
    let ?d = "drop_nodes (under_rev g d r) d"
    have "wf_disk ?d" using wf_drop_rev [OF Cons.prems, of "{r}" g] by simp
    then have "gc_revisions g p rs ?d = give () (drop_nodes (gone g p ?d rs) ?d)" by (rule Cons.IH)
    also have "drop_nodes (gone g p ?d rs) ?d = drop_nodes (gone g p d (r # rs)) d"
      unfolding drop_drop
    proof (rule drop_cong)
      fix q assume "lookup d q \<noteq> None"
      then show "gone g p ?d rs q \<or> under_rev g d r q \<longleftrightarrow> gone g p d (r # rs) q"
        using gone_after [of d q g p r rs] False by (auto simp: gone_def)
    qed
    finally show ?thesis using False by (simp add: gc_keeps_kept [OF assms(1)] rm_rev_spec [OF Cons.prems])
  qed
qed

text \<open>A file with one name only.\<close>

definition alone :: "disk \<Rightarrow> path \<Rightarrow> bool" where
  "alone d q \<longleftrightarrow> (\<exists>i. lookup d q = Some (File i) \<and> (\<forall>q'. lookup d q' = Some (File i) \<longrightarrow> q' = q))"

lemma nlink_alone:
  assumes "wf_disk d" "lookup d q = Some (File i)"
  shows "nlink d i > 1 \<longleftrightarrow> \<not> alone d q"
proof -
  let ?xs = "filter (\<lambda>x. snd x = File i) (d_nodes d)"
  have set: "set ?xs = {(q', File i) | q'. lookup d q' = Some (File i)}"
    using lookup_in [OF assms(1)] by fastforce
  have dist: "distinct ?xs" using assms(1) by (simp add: wf_disk_def distinct_map)
  have "nlink d i \<le> 1 \<longleftrightarrow> card (set ?xs) \<le> 1"
    unfolding nlink_def using distinct_card [OF dist] by simp
  also have "\<dots> \<longleftrightarrow> (\<forall>x\<in>set ?xs. \<forall>y\<in>set ?xs. x = y)"
    using card_le_Suc0_iff_eq [of "set ?xs"] by simp
  also have "\<dots> \<longleftrightarrow> (\<forall>q' q''. lookup d q' = Some (File i) \<longrightarrow> lookup d q'' = Some (File i) \<longrightarrow> q' = q'')"
    unfolding set by blast
  also have "\<dots> \<longleftrightarrow> alone d q"
    unfolding alone_def using assms(2) by (metis node.inject option.inject)
  finally show ?thesis by linarith
qed

lemma alone_drop:
  assumes "alone d x" "y \<noteq> x" shows "alone (drop_nodes (\<lambda>q. q = x) d) y = alone d y"
proof -
  let ?d = "drop_nodes (\<lambda>q. q = x) d"
  obtain i where i: "lookup d x = Some (File i)" "\<And>q. lookup d q = Some (File i) \<Longrightarrow> q = x"
    using assms(1) unfolding alone_def by blast
  have l: "lookup ?d q = (if q = x then None else lookup d q)" for q
    by (simp add: lookup_drop)
  have same: "lookup ?d q = Some (File j) \<longleftrightarrow> lookup d q = Some (File j)" if "j \<noteq> i" for q j
    using that i(1) by (cases "q = x") (simp_all add: l)
  have y: "lookup ?d y = lookup d y" using l assms(2) by simp
  have "j \<noteq> i" if "lookup d y = Some (File j)" for j
    using i(2) [of y] assms(2) that by blast
  then have "(lookup ?d y = Some (File j) \<and> (\<forall>q'. lookup ?d q' = Some (File j) \<longrightarrow> q' = y)) \<longleftrightarrow>
      (lookup d y = Some (File j) \<and> (\<forall>q'. lookup d q' = Some (File j) \<longrightarrow> q' = y))" for j
    by (cases "lookup d y = Some (File j)") (simp_all add: y same)
  then show ?thesis unfolding alone_def by simp
qed

definition orphans :: "sconfig \<Rightarrow> 's pv \<Rightarrow> disk \<Rightarrow> string list \<Rightarrow> path \<Rightarrow> bool" where
  "orphans g p d cs q \<longleftrightarrow> (\<exists>c\<in>set cs. name_ok c \<and> q = at g ''/objects/'' @ [c] \<and> alone d q \<and>
     \<not> pv_objects_id_in_step (pending_of p) c)"

lemma wf_drop_alone:
  assumes "wf_disk d" "alone d x" shows "wf_disk (drop_nodes (\<lambda>q. q = x) d)"
proof -
  obtain i where i: "lookup d x = Some (File i)" using assms(2) unfolding alone_def by blast
  have "x \<noteq> []" by (rule wf_node(1) [OF assms(1) i])
  have "names d x = []"
  proof (rule ccontr)
    assume "names d x \<noteq> []"
    then obtain c where "c \<in> set (names d x)" by (cases "names d x") auto
    then have "is_dir d x" by (rule names_Dir [OF assms(1)])
    with i \<open>x \<noteq> []\<close> show False by (simp add: is_dir_def)
  qed
  then have "drop_nodes (\<lambda>q. q = x) d = drop_nodes (prefix x) d"
    by (intro drop_cong) (use no_names_leaf [OF assms(1)] in blast)
  with \<open>x \<noteq> []\<close> show ?thesis using wf_drop_below [OF assms(1)] by simp
qed

lemma gc_each_object_spec:
  assumes "wf_disk d" "distinct cs" "\<And>c. c \<in> set cs \<Longrightarrow> c = ''.'' \<or> c = ''..'' \<or> name_ok c"
  shows "\<exists>n'. gc_each_object g p cs n d = (n', drop_nodes (orphans g p d cs) d)"
  using assms
proof (induction cs arbitrary: n d)
  case Nil
  then show ?case by (simp add: orphans_def drop_none)
next
  case (Cons c cs)
  have cs: "wf_disk d' \<Longrightarrow> \<exists>n'. gc_each_object g p cs n d' = (n', drop_nodes (orphans g p d' cs) d')" for n d'
    by (rule Cons.IH) (use Cons.prems in auto)
  let ?x = "at g ''/objects/'' @ [c]"
  let ?take = "name_ok c \<and> alone d ?x \<and> \<not> pv_objects_id_in_step (pending_of p) c"
  show ?case
  proof (cases ?take)
    case False
    then have "orphans g p d (c # cs) = orphans g p d cs" by (auto simp: orphans_def fun_eq_iff)
    moreover have "gc_each_object g p (c # cs) n d = gc_each_object g p cs n d"
    proof (cases "c = ''.'' \<or> c = ''..''")
      case nspecial: False
      then have ok: "name_ok c" using Cons.prems(3) by auto
      show ?thesis
      proof (cases "lookup d ?x")
        case None
        with nspecial ok show ?thesis by (simp add: at_object stat_def)
      next
        case (Some nd)
        with nspecial ok show ?thesis
        proof (cases nd)
          case (File i)
          with Some False ok have "nlink d i > 1 \<or> pv_objects_id_in_step (pending_of p) c"
            using nlink_alone [OF Cons.prems(1)] by blast
          moreover have "pv_objects_id_in_step (pending_of p) c \<Longrightarrow> pv_update p \<noteq> None"
            by (auto simp: pv_objects_id_in_step_def pending_of_def split: option.splits)
          ultimately show ?thesis using nspecial ok Some File by (auto simp: at_object stat_def)
        qed (simp_all add: at_object stat_def)
      qed
    qed auto
    ultimately show ?thesis using cs [OF Cons.prems(1)] by simp
  next
    case True
    let ?d = "drop_nodes (\<lambda>q. q = ?x) d"
    obtain i where i: "lookup d ?x = Some (File i)" using True by (auto simp: alone_def)
    have "\<not> nlink d i > 1" using nlink_alone [OF Cons.prems(1) i] True by simp
    then have step: "gc_each_object g p (c # cs) n d =
        gc_each_object g p cs (n + word_of_nat (length (d_data d i))) ?d"
      using True i by (auto simp: at_object stat_def remove_def name_ok_def)
    have "orphans g p ?d cs q \<or> q = ?x \<longleftrightarrow> orphans g p d (c # cs) q" for q
    proof -
      have "q \<noteq> ?x \<Longrightarrow> alone ?d q = alone d q" using alone_drop True by blast
      with True show ?thesis by (auto simp: orphans_def)
    qed
    then have "drop_nodes (orphans g p ?d cs) ?d = drop_nodes (orphans g p d (c # cs)) d"
      unfolding drop_drop by simp
    moreover have "wf_disk ?d" using wf_drop_alone [OF Cons.prems(1)] True by simp
    ultimately show ?thesis using cs [of ?d] step by simp
  qed
qed

section \<open>What a collection leaves\<close>

lemma subdir_names:
  assumes "wf_disk d"
  shows "distinct (pv_storage_get_subdir d q [] [])"
    and "c \<in> set (pv_storage_get_subdir d q [] []) \<Longrightarrow> c = ''.'' \<or> c = ''..'' \<or> name_ok c"
    and "name_ok c \<Longrightarrow> c \<in> set (pv_storage_get_subdir d q [] []) \<longleftrightarrow> lookup d (comps q @ [c]) \<noteq> None"
proof -
  show "distinct (pv_storage_get_subdir d q [] [])"
    using scandir_distinct [OF assms] by (auto simp: pv_storage_get_subdir_def split: option.splits)
  show "c \<in> set (pv_storage_get_subdir d q [] []) \<Longrightarrow> c = ''.'' \<or> c = ''..'' \<or> name_ok c"
    using scandir_set names_ok [OF assms] by (fastforce simp: pv_storage_get_subdir_def split: option.splits)
  have dir: "lookup d (comps q @ [c]) \<noteq> None \<Longrightarrow> is_dir d (comps q)"
    using wf_prefix_dir [OF assms, of "comps q" "[c]"] by simp
  show "name_ok c \<Longrightarrow> c \<in> set (pv_storage_get_subdir d q [] []) \<longleftrightarrow> lookup d (comps q @ [c]) \<noteq> None"
    using dir scandir_set [of d "comps q"] names_in [of c d "comps q"]
    by (auto simp: pv_storage_get_subdir_def scandir_def name_ok_def split: option.splits)
qed

definition all_revs :: "sconfig \<Rightarrow> disk \<Rightarrow> string list" where
  "all_revs g d = pv_storage_get_revisions g d"

text \<open>An object that nothing but a collected revision links to, and that no update waits for.\<close>

definition unused :: "sconfig \<Rightarrow> 's pv \<Rightarrow> disk \<Rightarrow> path \<Rightarrow> bool" where
  "unused g p d q \<longleftrightarrow> (\<exists>c i. q = at g ''/objects/'' @ [c] \<and> lookup d q = Some (File i) \<and>
     (\<forall>q'. lookup d q' = Some (File i) \<longrightarrow> q' = q \<or> gone g p d (all_revs g d) q') \<and>
     \<not> pv_objects_id_in_step (pending_of p) c)"

lemma root_of: "t \<in> rev_roots g \<Longrightarrow> \<exists>x xs. t = comps (g_mnt g) @ x # xs \<and> x \<noteq> ''objects''"
  by (auto simp: rev_roots_def roots)

lemma gone_not_object: "\<not> gone g p d rs (at g ''/objects/'' @ q)"
proof
  assume "gone g p d rs (at g ''/objects/'' @ q)"
  then obtain r t where "t \<in> rev_roots g" "prefix (t @ comps r) (at g ''/objects/'' @ q)"
    by (auto simp: gone_def under_rev_def)
  with root_of [OF this(1)] show False by (auto simp: roots)
qed

lemma gone_up: "gone g p d rs q \<Longrightarrow> gone g p d rs (q @ [c])"
  unfolding gone_def using under_rev_up by blast

lemma wf_drop_gone: "wf_disk d \<Longrightarrow> wf_disk (drop_nodes (gone g p d rs) d)"
  by (rule wf_drop) (auto simp: gone_up, simp add: gone_def under_rev_not_root)

lemma gc_run_result:
  fixes g :: sconfig
  assumes "wf_disk d" "pv_done (pv_boot p) \<noteq> None"
  defines "G \<equiv> gone g p d (all_revs g d)"
  shows "\<exists>n. pv_storage_gc_run g p d = give n (drop_nodes (\<lambda>q. G q \<or> unused g p d q) d)"
proof -
  let ?d = "drop_nodes G d"
  let ?cs = "pv_storage_get_subdir ?d (g_mnt g @ ''/objects/'') [] []"
  have wf: "wf_disk ?d" unfolding G_def by (rule wf_drop_gone [OF assms(1)])
  have "\<exists>n. gc_each_object g p ?cs 0 ?d = (n, drop_nodes (orphans g p ?d ?cs) ?d)"
    by (rule gc_each_object_spec [OF wf subdir_names(1) [OF wf]]) (rule subdir_names(2) [OF wf])
  then obtain n where n: "gc_each_object g p ?cs 0 ?d = (n, drop_nodes (orphans g p ?d ?cs) ?d)" ..
  have "orphans g p ?d ?cs q \<or> G q \<longleftrightarrow> G q \<or> unused g p d q" if q: "lookup d q \<noteq> None" for q
  proof (cases "G q")
    case False
    have in_cs: "c \<in> set ?cs" if "q = at g ''/objects/'' @ [c]" "name_ok c" for c
      using subdir_names(3) [OF wf that(2)] q that(1) False by (simp add: at_def lookup_drop)
    have ok: "name_ok c" if "q = at g ''/objects/'' @ [c]" for c
      using wf_node(2) [OF assms(1)] q that by fastforce
    have al: "alone ?d q \<longleftrightarrow> (\<exists>i. lookup d q = Some (File i) \<and> (\<forall>q'. lookup d q' = Some (File i) \<longrightarrow> q' = q \<or> G q'))"
      using False unfolding alone_def lookup_drop by auto
    have "orphans g p ?d ?cs q \<longleftrightarrow> unused g p d q"
      unfolding orphans_def unused_def al G_def [symmetric] using in_cs ok by blast
    with False show ?thesis by simp
  qed simp
  then have "drop_nodes (orphans g p ?d ?cs) ?d = drop_nodes (\<lambda>q. G q \<or> unused g p d q) d"
    unfolding drop_drop by (rule drop_cong)
  then show ?thesis
    using n gc_revisions_spec [OF assms(2,1), of g "all_revs g d"]
    by (auto simp: pv_storage_gc_run_def pv_storage_gc_objects_def all_revs_def G_def)
qed

text \<open>The names of revisions that the program makes.\<close>

definition rev_name :: "string \<Rightarrow> bool" where
  "rev_name r \<longleftrightarrow> name_ok r \<and> r \<noteq> ''locals'' \<or> (\<exists>n. name_ok n \<and> r = ''locals/'' @ n)"

lemma comps_rev_name:
  "rev_name r \<Longrightarrow> comps r = [r] \<and> r \<noteq> ''locals'' \<or> (\<exists>n. comps r = [''locals'', n] \<and> r = ''locals/'' @ n)"
  using comps_slash [of "''locals''"] by (auto simp: rev_name_def comps_name name_ok_def)

lemma subdir_entry:
  assumes "wf_disk d" "r \<in> set (pv_storage_get_subdir d q prefx l)" "r \<notin> set l"
  shows "\<exists>c. r = prefx @ c \<and> (c = ''.'' \<or> c = ''..'' \<or> name_ok c)"
proof (cases "scandir d (comps (q @ prefx))")
  case None
  with assms(2,3) show ?thesis by (simp add: pv_storage_get_subdir_def)
next
  case (Some ns)
  with assms(2,3) obtain c where "r = prefx @ c" "c \<in> set ns" by (auto simp: pv_storage_get_subdir_def)
  with scandir_set [OF Some] names_ok [OF assms(1)] show ?thesis by blast
qed

lemma revisions_names:
  assumes "wf_disk d" "r \<in> set (all_revs g d)" "r \<notin> set special_revs"
  shows "rev_name r"
proof -
  let ?l = "pv_storage_get_subdir d (g_mnt g @ ''/trails/'') ''locals/'' []"
  have r: "r \<in> set (pv_storage_get_subdir d (g_mnt g @ ''/trails/'') [] ?l)"
    using assms(2) by (simp add: all_revs_def pv_storage_get_revisions_def)
  show ?thesis
  proof (cases "r \<in> set ?l")
    case True
    then obtain c where "r = ''locals/'' @ c" "c = ''.'' \<or> c = ''..'' \<or> name_ok c"
      using subdir_entry [OF assms(1) True] by auto
    with assms(3) show ?thesis by (auto simp: rev_name_def special_revs_def)
  next
    case False
    with subdir_entry [OF assms(1) r] have "r = ''.'' \<or> r = ''..'' \<or> name_ok r" by auto
    with assms(3) show ?thesis by (auto simp: rev_name_def special_revs_def)
  qed
qed

lemma kept_not_gone:
  assumes "wf_disk d" "kept g p r" "rev_name r" "prefix (at g ''/trails'' @ comps r) q"
  shows "\<not> gone g p d (all_revs g d) q"
proof
  assume "gone g p d (all_revs g d) q"
  then obtain r' t where r': "r' \<in> set (all_revs g d)" "\<not> kept g p r'" "t \<in> rev_roots g" "prefix (t @ comps r') q"
    by (auto simp: gone_def under_rev_def)
  then have "r' \<notin> set special_revs" by (auto simp: kept_def)
  then have nm: "rev_name r'" by (rule revisions_names [OF assms(1) r'(1)])
  have "t = at g ''/trails''"
    using r'(3,4) assms(4) unfolding rev_roots_def roots by (auto simp: prefix_def)
  with r'(4) assms(4) have "prefix (comps r) (comps r') \<or> prefix (comps r') (comps r)"
    using prefix_same_root by blast
  then have "r = r'" using comps_rev_name [OF assms(3)] comps_rev_name [OF nm] by auto
  with assms(2) r'(2) show False by simp
qed

lemma unused_not_prefix:
  assumes "wf_disk d" "unused g p d x" "prefix x q" "lookup d q \<noteq> None" shows "q = x"
proof (rule ccontr)
  assume "q \<noteq> x"
  with assms(3) obtain r where "q = x @ r" "r \<noteq> []" by (auto simp: prefix_def)
  then have "is_dir d x" using wf_prefix_dir [OF assms(1), of x r] assms(4) by simp
  then show False using assms(2) by (auto simp: unused_def is_dir_def)
qed

lemma wf_after_gc:
  assumes "wf_disk d" shows "wf_disk (drop_nodes (\<lambda>q. gone g p d rs q \<or> unused g p d q) d)"
proof -
  have "drop_nodes (\<lambda>q. gone g p d rs q \<or> unused g p d q) d =
      drop_nodes (\<lambda>q. gone g p d rs q \<or> (\<exists>x. unused g p d x \<and> prefix x q)) d"
    by (rule drop_cong) (use unused_not_prefix [OF assms] in blast)
  also have "wf_disk \<dots>"
  proof (rule wf_drop [OF assms])
    show "gone g p d rs (q @ [c]) \<or> (\<exists>x. unused g p d x \<and> prefix x (q @ [c]))"
      if "gone g p d rs q \<or> (\<exists>x. unused g p d x \<and> prefix x q)" for q c
      using that gone_up prefix_prefix by blast
  qed (auto simp: gone_def under_rev_not_root unused_def)
  finally show ?thesis .
qed

lemma gc_lookup:
  assumes "wf_disk d" "pv_done (pv_boot p) \<noteq> None"
  shows "\<exists>n d'. pv_storage_gc_run g p d = give n d' \<and> wf_disk d' \<and> d_data d' = d_data d \<and>
    (\<forall>q. lookup d' q = (if gone g p d (all_revs g d) q \<or> unused g p d q then None else lookup d q))"
proof -
  obtain n where "pv_storage_gc_run g p d =
      give n (drop_nodes (\<lambda>q. gone g p d (all_revs g d) q \<or> unused g p d q) d)"
    using gc_run_result [OF assms] by blast
  then show ?thesis
    using wf_after_gc [OF assms(1)] by (intro exI conjI) (assumption, assumption, simp_all add: lookup_drop)
qed

definition ex_disk :: disk where
  "ex_disk = \<lparr>d_nodes = [([''s''], Dir), ([''s'', ''trails''], Dir), ([''s'', ''trails'', ''0''], Dir), ([''s'', ''trails'', ''0'', ''a''], File 0),
     ([''s'', ''trails'', ''1''], Dir), ([''s'', ''trails'', ''1'', ''a''], File 1), ([''s'', ''objects''], Dir),
     ([''s'', ''objects'', ''x''], File 0), ([''s'', ''objects'', ''y''], File 1), ([''s'', ''objects'', ''a''], File 2)],
     d_data = (\<lambda>i. ''data''), d_next = 3\<rparr>"

definition ex_sconfig :: sconfig where
  "ex_sconfig = \<lparr>g_mnt = ''/s'', g_keep_factory = False, g_reserved = 5, g_threshold = 0, g_defertime = 600\<rparr>"

lemma ex_disk_wf: "wf_disk ex_disk"
  by (simp add: wf_disk_def ex_disk_def is_dir_def lookup_def name_ok_def)

lemma ex_all_revs: "all_revs ex_sconfig ex_disk = [''.'', ''..'', ''0'', ''1'']"
  by code_simp



text \<open>C2: What the running, the pending and the done revision are made of survives a collection: all
  names below their directories, and every stored object that one of those names links to.\<close>

theorem gc_keeps_bootable:
  assumes "wf_disk d" "pv_done (pv_boot p) = Some dn"
    and "r = dn \<or> pv_state p = Some s \<and> r = s_rev s \<or> pending_of p = Some u \<and> r = s_rev u" "rev_name r"
    and "pv_storage_gc_run g p d = Some (Done (n, d'))" "prefix (at g ''/trails'' @ comps r) q"
  shows "lookup d' q = lookup d q \<and> read_file d' q = read_file d q \<and>
    (\<forall>i c. lookup d q = Some (File i) \<longrightarrow> lookup d (at g ''/objects/'' @ [c]) = Some (File i) \<longrightarrow>
       lookup d' (at g ''/objects/'' @ [c]) = Some (File i))"
proof -
  have "kept g p r" using assms(2,3) by (auto simp: kept_def)
  then have ng: "\<not> gone g p d (all_revs g d) q" using kept_not_gone assms(1,4,6) by blast
  have lk: "d_data d' = d_data d" "\<And>q. lookup d' q = (if gone g p d (all_revs g d) q \<or> unused g p d q then None else lookup d q)"
    using gc_lookup [OF assms(1), of p g] assms(2,5) by (auto simp: give_def)
  have "\<not> prefix (at g ''/trails'' @ comps r) (at g ''/objects/'' @ [c])" for c by (simp add: roots)
  then have "q \<noteq> at g ''/objects/'' @ [c]" for c using assms(6) by auto
  then have nu: "\<not> unused g p d q" by (auto simp: unused_def)
  have "\<not> unused g p d (at g ''/objects/'' @ [c])" if "lookup d q = Some (File i)" "lookup d (at g ''/objects/'' @ [c]) = Some (File i)" for i c
    using that ng \<open>\<And>c. q \<noteq> at g ''/objects/'' @ [c]\<close> unfolding unused_def by (metis node.inject option.inject)
  with ng nu show ?thesis by (simp add: lk gone_not_object) (simp add: read_file_def lk split: option.split node.split)
qed

theorem gc_keeps_bootable_witness:
  "\<exists>n d'. pv_storage_gc_run ex_sconfig (ex_pv UPDATE_QUEUED ex_pending) ex_disk = Some (Done (n, d')) \<and>
     lookup d' [''s'', ''trails'', ''1'', ''a''] = Some (File 1) \<and> lookup d' [''s'', ''objects'', ''y''] = Some (File 1)"
proof -
  let ?p = "ex_pv UPDATE_QUEUED ex_pending" and ?q = "[''s'', ''trails'', ''1'', ''a'']"
  have done1: "pv_done (pv_boot ?p) = Some ''1''" by (simp add: ex_pv_def)
  then obtain n d' where h: "pv_storage_gc_run ex_sconfig ?p ex_disk = Some (Done (n, d'))"
    using gc_lookup [OF ex_disk_wf, of ?p ex_sconfig] by (auto simp: give_def)
  have "rev_name ''1''" by (simp add: rev_name_def name_ok_def)
  moreover have "prefix (at ex_sconfig ''/trails'' @ comps ''1'') ?q"
    by (simp add: roots ex_sconfig_def comps_def strtok_def)
  ultimately have "lookup d' ?q = lookup ex_disk ?q \<and> read_file d' ?q = read_file ex_disk ?q \<and>
    (\<forall>i c. lookup ex_disk ?q = Some (File i) \<longrightarrow> lookup ex_disk (at ex_sconfig ''/objects/'' @ [c]) = Some (File i) \<longrightarrow>
       lookup d' (at ex_sconfig ''/objects/'' @ [c]) = Some (File i))"
    by (intro gc_keeps_bootable [OF ex_disk_wf done1 _ _ h, where r = "''1''"]) auto
  then show ?thesis using h by (auto simp: roots ex_sconfig_def ex_disk_def lookup_def comps_def strtok_def)
qed

end
