(* ===== verification/Text.thy ===== *)
theory Text
  imports Prelude
begin

text \<open>
  \<open>utils/json.c\<close>, \<open>utils/str.c\<close>, \<open>utils/strrep.c\<close>, \<open>utils/math.c\<close> and \<open>utils/base64.c\<close>: escaping a text for
  JSON, looking values up in the tokens of a JSON text, and replacing in strings. The tokens come
  from the jsmn library and the base 64 codec from mbedtls, which are parameters.
\<close>

section \<open>Characters of JSON strings\<close>

definition nibble_to_hexchar :: "nat \<Rightarrow> char" where
  "nibble_to_hexchar n = (if n \<le> 9 then char_of (of_char (CHR ''0'') + n) else char_of (of_char (CHR ''A'') + (n - 10)))"

definition modify_to_json :: "char \<Rightarrow> string" where
  "modify_to_json ch = (let v = (of_char ch :: nat) in
     BACKSLASH # ''u00'' @ [nibble_to_hexchar (v div 16), nibble_to_hexchar (v mod 16)])"

definition char_is_json_special :: "char \<Rightarrow> bool" where
  "char_is_json_special ch \<longleftrightarrow> (of_char ch :: nat) \<le> 31 \<or> ch = BACKSLASH \<or> ch = DQUOTE"

text \<open>\<open>len\<close> is at most what the buffer holds; an empty text has no buffer and gives \<open>NULL\<close>.\<close>

definition pv_json_format :: "string \<Rightarrow> nat \<Rightarrow> string option" where
  "pv_json_format buf len = (if len = 0 then None
     else Some (concat (map (\<lambda>ch. if char_is_json_special ch then modify_to_json ch else [ch]) (take len buf))))"

section \<open>Values in the tokens\<close>

datatype jsmntype = JSMN_UNDEFINED | JSMN_OBJECT | JSMN_ARRAY | JSMN_STRING | JSMN_PRIMITIVE

record jsmntok =
  tk_type :: jsmntype
  tk_start :: nat
  tk_end :: nat
  tk_size :: nat

definition tok_text :: "string \<Rightarrow> jsmntok \<Rightarrow> string" where
  "tok_text buf t = take (tk_end t - tk_start t) (drop (tk_start t) buf)"

text \<open>\<open>n == m\<close> and \<open>!strncmp(buf + start, key, n)\<close>.\<close>

definition tok_is :: "string \<Rightarrow> jsmntok \<Rightarrow> string \<Rightarrow> bool" where
  "tok_is buf t key \<longleftrightarrow> tk_end t - tk_start t = length key \<and> strneq (drop (tk_start t) buf) key (length key)"

definition pv_json_get_key_count :: "string \<Rightarrow> string \<Rightarrow> jsmntok list \<Rightarrow> nat" where
  "pv_json_get_key_count buf key tok = length (filter (\<lambda>t. tk_type t = JSMN_STRING \<and> tok_is buf t key) tok)"

definition pv_json_get_one_str :: "string \<Rightarrow> jsmntok \<Rightarrow> string" where
  "pv_json_get_one_str buf t = tok_text buf t"

text \<open>The number and the tokens that are left; a token past the end is not there to be read.\<close>

definition pv_json_array_get_one_str :: "string \<Rightarrow> int \<times> jsmntok list \<Rightarrow> (string option \<times> int \<times> jsmntok list) outcome" where
  "pv_json_array_get_one_str buf nt = (case nt of (n, toks) \<Rightarrow>
     (if n = 0 then Done (None, n, toks)
      else case toks of [] \<Rightarrow> Fault | t # ts \<Rightarrow> Done (Some (pv_json_get_one_str buf t), n - 1, ts)))"

text \<open>The strings of an array: as many as it has, from the tokens after the first.\<close>

function array_strings :: "string \<Rightarrow> int \<times> jsmntok list \<Rightarrow> string list outcome" where
  "array_strings json nt = (case pv_json_array_get_one_str json nt of Fault \<Rightarrow> Fault
     | Done (None, rest) \<Rightarrow> Done []
     | Done (Some s, rest) \<Rightarrow> (case array_strings json rest of Fault \<Rightarrow> Fault | Done ss \<Rightarrow> Done (s # ss)))"
  by pat_completeness auto
termination
  by (relation "measure (\<lambda>(json, n, toks). length toks)")
    (auto simp: pv_json_array_get_one_str_def split: if_splits list.splits prod.splits)

declare array_strings.simps [simp del]

text \<open>The token after the last of a run of keys; \<open>seen\<close> is \<open>t == 1\<close>.\<close>

fun value_after :: "(jsmntok \<Rightarrow> bool) \<Rightarrow> bool \<Rightarrow> jsmntok list \<Rightarrow> jsmntok option" where
  "value_after is_key seen [] = None"
| "value_after is_key seen (t # ts) =
     (if is_key t then value_after is_key True ts else if seen then Some t else value_after is_key seen ts)"

definition pv_json_get_value :: "string \<Rightarrow> string \<Rightarrow> jsmntok list \<Rightarrow> string option" where
  "pv_json_get_value buf key tok =
     map_option (tok_text buf) (value_after (\<lambda>t. tk_type t = JSMN_STRING \<and> tok_is buf t key) False tok)"

definition pv_json_get_value_int :: "string \<Rightarrow> string \<Rightarrow> jsmntok list \<Rightarrow> int" where
  "pv_json_get_value_int buf key tok =
     (case value_after (\<lambda>t. tk_type t = JSMN_PRIMITIVE \<and> tok_is buf t key) False tok of
        None \<Rightarrow> 0 | Some t \<Rightarrow> atoi (tok_text buf t))"

section \<open>Strings\<close>

definition pv_str_replace_char :: "string \<Rightarrow> nat \<Rightarrow> char \<Rightarrow> char \<Rightarrow> string" where
  "pv_str_replace_char str len which what = map (\<lambda>c. if c = which then what else c) (take len str) @ drop len str"

fun pv_str_skip_prefix :: "string \<Rightarrow> string \<Rightarrow> string" where
  "pv_str_skip_prefix str [] = str"
| "pv_str_skip_prefix [] (k # key) = []"
| "pv_str_skip_prefix (s # str) (k # key) = (if k \<noteq> s then s # str else pv_str_skip_prefix str key)"

definition pv_str_matches :: "string \<Rightarrow> nat \<Rightarrow> string \<Rightarrow> nat \<Rightarrow> bool" where
  "pv_str_matches str1 len1 str2 len2 \<longleftrightarrow> len1 = len2 \<and> strneq str1 str2 len1"

definition pv_str_startswith :: "string \<Rightarrow> nat \<Rightarrow> string \<Rightarrow> bool" where
  "pv_str_startswith str1 len1 str2 \<longleftrightarrow> strneq str1 str2 len1"

definition pv_str_endswith :: "string \<Rightarrow> nat \<Rightarrow> string \<Rightarrow> nat \<Rightarrow> bool" where
  "pv_str_endswith str1 len1 str2 len2 \<longleftrightarrow> len2 > len1 \<and> strneq str1 (drop (len2 - len1) str2) len1"

text \<open>\<open>pv_str_unescape_to_ascii\<close>: with an empty \<open>code\<close> the loop does not end.\<close>

lemma strstr_shorter [termination_simp]:
  "strstr s k = Some i \<Longrightarrow> k \<noteq> [] \<Longrightarrow> length s - (i + length k) < length s"
proof -
  assume a: "strstr s k = Some i" "k \<noteq> []"
  then have "i + length k \<le> length s" using strstr_prefix [OF a(1)] by blast
  moreover have "0 < length k" using a(2) by simp
  ultimately show ?thesis by linarith
qed

function unescape_loop :: "string \<Rightarrow> string \<Rightarrow> char \<Rightarrow> string \<Rightarrow> string option" where
  "unescape_loop tmp code c new =
     (case strstr tmp code of None \<Rightarrow> Some new
      | Some i \<Rightarrow> (if code = [] then None
                  else unescape_loop (drop (i + length code) tmp) code c (new @ take i tmp @ [c])))"
  by pat_completeness auto
termination
  by (relation "measure (\<lambda>(tmp, code, c, new). length tmp)") (auto simp: strstr_shorter)

declare unescape_loop.simps [simp del]

definition pv_str_unescape_to_ascii :: "string \<Rightarrow> string \<Rightarrow> char \<Rightarrow> string option" where
  "pv_str_unescape_to_ascii buf code c =
     map_option (\<lambda>new. if last new = c then butlast new else new) (unescape_loop (buf @ code) code c [])"

text \<open>\<open>pv_str_replace_str\<close>: the first pass counts, the second replaces that often.\<close>

function occurrences :: "string \<Rightarrow> string \<Rightarrow> nat" where
  "occurrences p s2 = (if s2 = [] then 0 else
     case strstr p s2 of None \<Rightarrow> 0 | Some i \<Rightarrow> Suc (occurrences (drop (i + length s2) p) s2))"
  by pat_completeness auto
termination
  by (relation "measure (\<lambda>(p, s2). length p)") (auto simp: strstr_shorter)

declare occurrences.simps [simp del]

fun replace_times :: "nat \<Rightarrow> string \<Rightarrow> string \<Rightarrow> string \<Rightarrow> string outcome" where
  "replace_times 0 s s2 s3 = Done s"
| "replace_times (Suc n) s s2 s3 =
     (case strstr s s2 of None \<Rightarrow> Fault
      | Some i \<Rightarrow> (case replace_times n (drop (i + length s2) s) s2 s3 of Fault \<Rightarrow> Fault
                  | Done r \<Rightarrow> Done (take i s @ s3 @ r)))"

definition pv_str_replace_str :: "string option \<Rightarrow> string option \<Rightarrow> string option \<Rightarrow> string option outcome" where
  "pv_str_replace_str a b c = (case (a, b, c) of
       (Some s1, Some s2, Some s3) \<Rightarrow>
         (if s1 = [] \<or> s2 = [] then Done (Some s1)
          else let count = occurrences s1 s2 in
            if count = 0 then Done (Some s1)
            else case replace_times count s1 s2 s3 of Fault \<Rightarrow> Fault | Done r \<Rightarrow> Done (Some r))
     | _ \<Rightarrow> Done None)"

text \<open>The digits of a number and one for the terminating NUL.\<close>

function count_digits :: "nat \<Rightarrow> nat" where
  "count_digits n = (if n = 0 then 0 else Suc (count_digits (n div 10)))"
  by pat_completeness auto
termination by (relation "measure id") auto

declare count_digits.simps [simp del]

definition get_digit_count :: "int \<Rightarrow> int" where
  "get_digit_count number = int (count_digits (nat \<bar>number\<bar>)) + 1"

section \<open>Base 64\<close>

text \<open>The padding is appended to a buffer that is grown by the padding only, without a terminating
  NUL: \<open>strlen\<close> then reads on into what lies behind it, \<open>behind\<close>. \<open>decode\<close> is \<open>pv_base64_decode\<close>, which
  hands its argument to mbedtls.\<close>

definition pv_base64_add_padding_multi4 :: "string \<Rightarrow> string \<Rightarrow> string" where
  "pv_base64_add_padding_multi4 behind str =
     (if length str mod 4 = 2 then str @ ''=='' @ cstr behind
      else if length str mod 4 = 3 then str @ ''='' @ cstr behind else str)"

definition pv_base64_remove_padding_multi4 :: "string \<Rightarrow> string" where
  "pv_base64_remove_padding_multi4 str = takeWhile (\<lambda>c. c \<noteq> CHR ''='') str"

definition pv_base64_url_decode :: "(string \<Rightarrow> string option) \<Rightarrow> string \<Rightarrow> string \<Rightarrow> string option" where
  "pv_base64_url_decode decode behind src =
     decode (map (\<lambda>c. if c = CHR ''_'' then CHR ''/'' else if c = CHR ''-'' then CHR ''+'' else c)
       (pv_base64_add_padding_multi4 behind src))"

definition pv_base64_url_encode :: "(string \<Rightarrow> string option) \<Rightarrow> string \<Rightarrow> string option" where
  "pv_base64_url_encode encode src = map_option
     (\<lambda>dst. pv_base64_remove_padding_multi4 (map (\<lambda>c. if c = CHR ''/'' then CHR ''_'' else if c = CHR ''+'' then CHR ''-'' else c) dst))
     (encode src)"

section \<open>The escaped text reads back\<close>

definition xdigit :: "char \<Rightarrow> nat option" where
  "xdigit c = (let n = (of_char c :: nat) in
     if 48 \<le> n \<and> n \<le> 57 then Some (n - 48) else if 65 \<le> n \<and> n \<le> 70 then Some (n - 55)
     else if 97 \<le> n \<and> n \<le> 102 then Some (n - 87) else None)"

text \<open>The characters inside the quotes of a JSON string (RFC 7159, section 7), for code points of one byte.\<close>

fun json_chars :: "string \<Rightarrow> string option" where
  "json_chars [] = Some []"
| "json_chars (c # r) =
     (if c = BACKSLASH
      then (case r of
              x # a # b # d # e # r' \<Rightarrow>
                (if x = CHR ''u''
                 then (case (xdigit a, xdigit b, xdigit d, xdigit e) of
                         (Some 0, Some 0, Some v, Some w) \<Rightarrow> map_option (\<lambda>t. char_of (16 * v + w) # t) (json_chars r')
                       | _ \<Rightarrow> None)
                 else if x = DQUOTE \<or> x = BACKSLASH \<or> x = CHR ''/'' then map_option (\<lambda>t. x # t) (json_chars (a # b # d # e # r'))
                 else None)
            | x # r' \<Rightarrow> (if x = DQUOTE \<or> x = BACKSLASH \<or> x = CHR ''/'' then map_option (\<lambda>t. x # t) (json_chars r') else None)
            | [] \<Rightarrow> None)
      else if c = DQUOTE \<or> (of_char c :: nat) < 32 then None
      else map_option (\<lambda>t. c # t) (json_chars r))"

lemma xdigit_nibble: "n < 16 \<Longrightarrow> xdigit (nibble_to_hexchar n) = Some n"
  by (cases "n \<le> 9") (auto simp: xdigit_def nibble_to_hexchar_def Let_def)

lemma xdigit_0 [simp]: "xdigit (CHR ''0'') = Some 0"
  by (simp add: xdigit_def)

lemma json_chars_escape: "json_chars (modify_to_json ch @ r) = map_option (\<lambda>t. ch # t) (json_chars r)"
proof -
  have b: "(of_char ch :: nat) < 256" by simp
  have "(of_char ch :: nat) = 16 * (of_char ch div 16) + of_char ch mod 16" by simp
  then have "char_of (16 * (of_char ch div 16) + (of_char ch :: nat) mod 16) = ch" by simp
  moreover have "(of_char ch :: nat) div 16 < 16" using b by linarith
  ultimately show ?thesis by (simp add: modify_to_json_def Let_def xdigit_nibble)
qed

lemma json_chars_plain: "\<not> char_is_json_special ch \<Longrightarrow> json_chars (ch # r) = map_option (\<lambda>t. ch # t) (json_chars r)"
  by (simp add: char_is_json_special_def)

text \<open>C1: A text that is not empty, escaped by \<open>pv_json_format\<close> and put between quotes, reads back as
  it was.\<close>

theorem json_format_reads_back:
  assumes "s \<noteq> []"
  shows "\<exists>e. pv_json_format s (length s) = Some e \<and> json_chars e = Some s"
proof -
  have "json_chars (concat (map (\<lambda>ch. if char_is_json_special ch then modify_to_json ch else [ch]) t)) = Some t" for t
  proof (induction t)
    case (Cons c t)
    then show ?case
      by (cases "char_is_json_special c") (simp_all add: json_chars_escape json_chars_plain del: json_chars.simps)
  qed simp
  with assms show ?thesis by (simp add: pv_json_format_def)
qed

theorem json_format_reads_back_witness:
  "\<exists>e. pv_json_format [DQUOTE, LF, CHR ''a''] (length [DQUOTE, LF, CHR ''a'']) = Some e \<and> json_chars e = Some [DQUOTE, LF, CHR ''a'']"
  using json_format_reads_back [of "[DQUOTE, LF, CHR ''a'']"] by simp

section \<open>Replacing\<close>

text \<open>The parts of a string between the places where \<open>k\<close> is found, from the left.\<close>

function parts :: "string \<Rightarrow> string \<Rightarrow> string list" where
  "parts k s = (if k = [] then [s] else
     case strstr s k of None \<Rightarrow> [s] | Some i \<Rightarrow> take i s # parts k (drop (i + length k) s))"
  by pat_completeness auto
termination
  by (relation "measure (\<lambda>(k, s). length s)") (auto simp: strstr_shorter)

declare parts.simps [simp del]

fun join :: "string \<Rightarrow> string list \<Rightarrow> string" where
  "join sep [] = []"
| "join sep [x] = x"
| "join sep (x # y # r) = x @ sep @ join sep (y # r)"

lemma parts_ne: "parts k s \<noteq> []"
  by (subst parts.simps) (simp split: option.split)

lemma join_Cons: "xs \<noteq> [] \<Longrightarrow> join sep (x # xs) = x @ sep @ join sep xs"
  by (cases xs) simp_all

lemma parts_step:
  "k \<noteq> [] \<Longrightarrow> strstr s k = Some i \<Longrightarrow> parts k s = take i s # parts k (drop (i + length k) s)"
  "strstr s k = None \<Longrightarrow> parts k s = [s]"
  by (subst parts.simps, simp)+

lemma occurrences_parts: "k \<noteq> [] \<Longrightarrow> Suc (occurrences s k) = length (parts k s)"
proof (induction k s rule: parts.induct)
  case (1 k s)
  show ?case
  proof (cases "strstr s k")
    case None
    then show ?thesis by (subst occurrences.simps) (simp add: parts_step)
  next
    case (Some i)
    with 1 show ?thesis by (subst occurrences.simps) (simp add: parts_step)
  qed
qed

lemma replace_times_parts: "k \<noteq> [] \<Longrightarrow> replace_times (occurrences s k) s k r = Done (join r (parts k s))"
proof (induction k s rule: parts.induct)
  case (1 k s)
  show ?case
  proof (cases "strstr s k")
    case None
    then show ?thesis by (subst occurrences.simps) (simp add: parts_step)
  next
    case (Some i)
    with 1 show ?thesis by (subst occurrences.simps) (simp add: parts_step join_Cons parts_ne)
  qed
qed

text \<open>The two passes of \<open>pv_str_replace_str\<close> agree with joining the parts of the string: the second
  pass never misses what the first one counted, and the copies fill the buffer exactly.\<close>

theorem replace_str_joins:
  assumes "s2 \<noteq> []"
  shows "pv_str_replace_str (Some s1) (Some s2) (Some s3) = Done (Some (join s3 (parts s2 s1))) \<and>
    length (join s3 (parts s2 s1)) + occurrences s1 s2 * length s2 = length s1 + occurrences s1 s2 * length s3"
proof
  show "pv_str_replace_str (Some s1) (Some s2) (Some s3) = Done (Some (join s3 (parts s2 s1)))"
  proof (cases "s1 = [] \<or> occurrences s1 s2 = 0")
    case True
    have "strstr [] s2 = None" using assms by simp
    moreover have "occurrences s1 s2 = 0 \<Longrightarrow> strstr s1 s2 = None"
      using assms by (subst (asm) occurrences.simps) (simp split: option.splits)
    ultimately have "parts s2 s1 = [s1]" using True by (auto simp: parts_step)
    with True assms show ?thesis by (auto simp: pv_str_replace_str_def)
  next
    case False
    then show ?thesis using assms by (simp add: pv_str_replace_str_def replace_times_parts)
  qed
next
  show "length (join s3 (parts s2 s1)) + occurrences s1 s2 * length s2 = length s1 + occurrences s1 s2 * length s3"
    using assms
  proof (induction s2 s1 rule: parts.induct)
    case (1 k s)
    show ?case
    proof (cases "strstr s k")
      case None
      then show ?thesis by (subst occurrences.simps, subst (2) occurrences.simps) (simp add: parts_step)
    next
      case (Some i)
      then have "i + length k \<le> length s" using strstr_prefix by blast
      moreover have "occurrences s k = Suc (occurrences (drop (i + length k) s) k)"
        using Some 1(2) by (subst occurrences.simps) simp
      ultimately show ?thesis
        using 1(1) [OF 1(2) Some] 1(2) Some by (simp add: parts_step join_Cons parts_ne)
    qed
  qed
qed

theorem replace_str_joins_witness:
  "pv_str_replace_str (Some ''a.b.'') (Some ''.'') (Some ''::'') = Done (Some (join ''::'' (parts ''.'' ''a.b.'')))"
  using replace_str_joins [of "''.''" "''a.b.''" "''::''"] by simp

end
