(* ===== verification/Trails.thy ===== *)
theory Trails
  imports Storage Text
begin

text \<open>
  The files of \<open>storage.c\<close> in the directory of a revision and in the user meta data, the checks of
  stored objects, the lists of revisions and objects as JSON, and \<open>trail_link_objects\<close> of
  \<open>updater.c\<close>, which builds a revision from links into the pool of objects.
\<close>

section \<open>Loading and checking\<close>

text \<open>When there is no such file \<open>stat\<close> leaves the size as it was on the stack (\<open>stale\<close>), and the
  zeroed buffer is returned all the same.\<close>

definition pv_storage_load_file :: "nat \<Rightarrow> disk \<Rightarrow> string \<Rightarrow> nat \<Rightarrow> string option" where
  "pv_storage_load_file stale d p max_size =
     (let content = read_file d (comps p);
          sz = (case content of None \<Rightarrow> stale | Some s \<Rightarrow> length s) in
      if max_size \<noteq> 0 \<and> sz > max_size then None
      else Some (case content of None \<Rightarrow> [] | Some s \<Rightarrow> cstr s))"

text \<open>\<open>!strncmp(a, b, n)\<close> on arrays of \<open>n\<close> bytes, which stops at a zero in both.\<close>

definition bytes_strneq :: "nat list \<Rightarrow> nat list \<Rightarrow> bool" where
  "bytes_strneq a b \<longleftrightarrow> takeWhile (\<lambda>x. x \<noteq> 0) a = takeWhile (\<lambda>x. x \<noteq> 0) b"

definition sha_bytes :: "string \<Rightarrow> nat list" where
  "sha_bytes checksum = map (\<lambda>j. hex_byte (take 2 (drop (2 * j) checksum))) [0..<32]"

text \<open>The loop reads up to index 62 of the checksum, whatever its length.\<close>

definition pv_storage_validate_file_checksum :: "(string \<Rightarrow> nat list) \<Rightarrow> disk \<Rightarrow> string \<Rightarrow> string \<Rightarrow> int outcome" where
  "pv_storage_validate_file_checksum sha256 d p checksum =
     (case read_file d (comps p) of None \<Rightarrow> Done (-1)
      | Some body \<Rightarrow> (if length checksum < 62 then Fault
          else if bytes_strneq (sha_bytes checksum) (sha256 body) then Done 0 else Done (-1)))"

definition succeeded :: "int outcome \<Rightarrow> bool outcome" where
  "succeeded r = (case r of Fault \<Rightarrow> Fault | Done n \<Rightarrow> Done (n = 0))"

definition pv_storage_validate_objects_object_checksum :: "(string \<Rightarrow> nat list) \<Rightarrow> sconfig \<Rightarrow> disk \<Rightarrow> string \<Rightarrow> bool outcome" where
  "pv_storage_validate_objects_object_checksum sha256 g d checksum =
     succeeded (pv_storage_validate_file_checksum sha256 d (g_mnt g @ ''/objects/'' @ checksum) checksum)"

definition in_trail :: "sconfig \<Rightarrow> string \<Rightarrow> string \<Rightarrow> string" where
  "in_trail g rv nm = g_mnt g @ ''/trails/'' @ rv @ ''/'' @ nm"

definition pv_storage_validate_trails_object_checksum :: "(string \<Rightarrow> nat list) \<Rightarrow> sconfig \<Rightarrow> disk \<Rightarrow> string \<Rightarrow> string \<Rightarrow> string \<Rightarrow> bool outcome" where
  "pv_storage_validate_trails_object_checksum sha256 g d rv nm checksum =
     succeeded (pv_storage_validate_file_checksum sha256 d (in_trail g rv nm) checksum)"

definition pv_storage_validate_trails_json_value :: "nat \<Rightarrow> sconfig \<Rightarrow> disk \<Rightarrow> string \<Rightarrow> string \<Rightarrow> string \<Rightarrow> bool" where
  "pv_storage_validate_trails_json_value stale g d rv nm val =
     (case pv_storage_load_file stale d (in_trail g rv nm) 0 of None \<Rightarrow> False
      | Some buf \<Rightarrow> pv_str_matches val (length val) buf (length buf))"

definition pv_storage_get_state_json :: "nat \<Rightarrow> sconfig \<Rightarrow> disk \<Rightarrow> string \<Rightarrow> string option" where
  "pv_storage_get_state_json stale g d rv = pv_storage_load_file stale d (in_trail g rv ''.pvr/json'') 0"

section \<open>Writing\<close>

definition save_at :: "string \<Rightarrow> string \<Rightarrow> disk \<Rightarrow> disk" where
  "save_at p content d = (case open_trunc (comps p) d of None \<Rightarrow> d | Some (i, d') \<Rightarrow> write_fd i content d')"

definition pv_storage_save_file :: "string option \<Rightarrow> string option \<Rightarrow> disk \<Rightarrow> disk" where
  "pv_storage_save_file po co d = (case (po, co) of (Some p, Some content) \<Rightarrow> save_at p content d | _ \<Rightarrow> d)"

definition pv_storage_set_rev_done :: "sconfig \<Rightarrow> string \<Rightarrow> disk \<Rightarrow> disk" where
  "pv_storage_set_rev_done g rv d =
     (case open_creat (comps (in_trail g rv ''.pv/done'')) d of None \<Rightarrow> d | Some (i, d') \<Rightarrow> d')"

definition pv_storage_set_rev_progress :: "sconfig \<Rightarrow> string \<Rightarrow> string \<Rightarrow> disk \<Rightarrow> disk" where
  "pv_storage_set_rev_progress g rv progress d = save_at (in_trail g rv ''.pv/progress'') progress d"

definition pv_storage_meta_set_objdir :: "sconfig \<Rightarrow> pv_state \<Rightarrow> disk \<Rightarrow> disk" where
  "pv_storage_meta_set_objdir g s d =
     (let p = comps (in_trail g (s_rev s) ''.pvr/config'') in
      if exists_at d p then d
      else case open_creat p d of None \<Rightarrow> d
       | Some (i, d') \<Rightarrow> write_fd i (''{'' @ quoted ''ObjectsDir'' @ '': '' @ quoted (g_mnt g @ ''/objects'') @ ''}'') d')"

definition pv_storage_meta_set_tryonce :: "sconfig \<Rightarrow> pv_state \<Rightarrow> int \<Rightarrow> disk \<Rightarrow> disk" where
  "pv_storage_meta_set_tryonce g s v d =
     (let p = comps (in_trail g (s_rev s) ''.pv/.tryonce'') in
      if v \<noteq> 0 then (case open_creat p d of None \<Rightarrow> d | Some (i, d') \<Rightarrow> d') else snd (remove p d))"

definition relink :: "string \<Rightarrow> path \<Rightarrow> disk \<Rightarrow> disk" where
  "relink target cur d = snd (symlink target cur (unlink cur d))"

definition pv_storage_set_active :: "sconfig \<Rightarrow> pv_state \<Rightarrow> disk \<Rightarrow> disk" where
  "pv_storage_set_active g s d =
     relink (s_rev s) (at g ''/logs/current'') (relink (s_rev s) (at g ''/trails/current'') d)"

definition pv_storage_update_factory :: "sconfig \<Rightarrow> string \<Rightarrow> disk \<Rightarrow> (int \<times> disk) option" where
  "pv_storage_update_factory g rv d =
     Option.bind (pv_storage_rm_rev g ''0'' d) (\<lambda>d.
       let d1 = snd (mkdir_p (in_trail g ''0'' ''.pvr'') d) in
       case open_trunc (comps (in_trail g ''0'' ''.pvr/json'')) d1 of None \<Rightarrow> Some (-1, d1)
       | Some (t, d2) \<Rightarrow>
           (case lookup d2 (comps (in_trail g rv ''.pvr/json'')) of
              Some (File s) \<Rightarrow> Some (0, pv_fops_copy_and_close s t d2)
            | _ \<Rightarrow> Some (-1, d2)))"

text \<open>A key with a dot is stored for the platform before the dot as well.\<close>

definition usermeta_key :: "string \<Rightarrow> string" where "usermeta_key key = ''/pv/user-meta/'' @ key"
definition usermeta_plat :: "string \<Rightarrow> string" where "usermeta_plat nm = ''/pv/user-meta.'' @ nm"

definition pv_storage_init_plat_usermeta :: "string \<Rightarrow> disk \<Rightarrow> disk" where
  "pv_storage_init_plat_usermeta nm d =
     (if dir_exist d (comps (usermeta_plat nm)) then d else snd (mkdir_p (usermeta_plat nm) d))"

definition pv_storage_save_usermeta :: "string \<Rightarrow> string option \<Rightarrow> disk \<Rightarrow> disk" where
  "pv_storage_save_usermeta key v d =
     (let d1 = pv_storage_save_file (Some (usermeta_key key)) v d in
      case strchr key CHR ''.'' of None \<Rightarrow> d1
      | Some i \<Rightarrow> (let pname = take i key; pkey = drop (i + 1) key in
          pv_storage_save_file (Some (usermeta_plat pname @ ''/'' @ pkey)) v (pv_storage_init_plat_usermeta pname d1)))"

definition pv_storage_rm_usermeta :: "string \<Rightarrow> disk \<Rightarrow> disk" where
  "pv_storage_rm_usermeta key d =
     (let d1 = snd (remove (comps (usermeta_key key)) d) in
      case strchr key CHR ''.'' of None \<Rightarrow> d1
      | Some i \<Rightarrow> snd (remove (comps (usermeta_plat (take i key) @ ''/'' @ drop (i + 1) key)) d1))"

text \<open>The hints for the platforms; the credentials are those of the configuration.\<close>

definition write_hint :: "string \<Rightarrow> string \<Rightarrow> disk \<Rightarrow> disk" where
  "write_hint p s d = (case open_creat (comps p) d of None \<Rightarrow> d | Some (i, d') \<Rightarrow> write_fd i s d')"

definition pv_storage_init :: "string option \<Rightarrow> string option \<Rightarrow> string option \<Rightarrow> int \<Rightarrow> disk \<Rightarrow> bool \<times> disk" where
  "pv_storage_init prn creds_id host port d =
     (let d1 = write_hint ''/pv/challenge'' [] d;
          unclaimed = (prn = None \<or> prn = Some []);
          d2 = write_hint ''/pv/device-id'' (if unclaimed then [] else opt_str creds_id @ [LF]) d1
      in (unclaimed, write_hint ''/pv/pantahub-host'' (''https://'' @ opt_str host @ '':'' @ show_int port @ [LF]) d2))"

section \<open>The files of the revision's JSON\<close>

definition dirname :: "string \<Rightarrow> string" where
  "dirname p = (case strrchr p CHR ''/'' of None \<Rightarrow> ''.'' | Some i \<Rightarrow> (if i = 0 then ''/'' else take i p))"

definition has_ext :: "string \<Rightarrow> string \<Rightarrow> bool" where
  "has_ext p ext \<longleftrightarrow> (case strrchr p CHR ''.'' of None \<Rightarrow> False | Some i \<Rightarrow> drop i p = ext)"

text \<open>The first file that is there already ends the loop with the result of the parser.\<close>

fun expand_each :: "sconfig \<Rightarrow> string \<Rightarrow> int \<Rightarrow> (string \<times> string) list \<Rightarrow> disk \<Rightarrow> int \<times> disk" where
  "expand_each g rv parsed [] d = (1, d)"
| "expand_each g rv parsed ((key, v) # kvs) d =
     (if \<not> has_ext key ''.json'' then expand_each g rv parsed kvs d
      else let p = in_trail g rv key in
        if exists_at d (comps p) then (parsed, d)
        else let d1 = (if exists_at d (comps (dirname p)) then d else snd (mkdir_p (dirname p) d)) in
          case open_creat (comps p) d1 of None \<Rightarrow> (parsed, d1)
          | Some (i, d2) \<Rightarrow> expand_each g rv parsed kvs (write_fd i v d2))"

text \<open>\<open>parse\<close>: the result of jsmn and the keys of the object with the text of their values.\<close>

definition pv_storage_meta_expand_jsons :: "(string \<Rightarrow> int \<times> (string \<times> string) list) \<Rightarrow> sconfig \<Rightarrow> pv_state \<Rightarrow> disk \<Rightarrow> (int \<times> disk) outcome" where
  "pv_storage_meta_expand_jsons parse g s d = (case s_json s of None \<Rightarrow> Fault
     | Some js \<Rightarrow> (case parse js of (r, kvs) \<Rightarrow> if r < 0 then Done (r, d) else Done (expand_each g (s_rev s) r kvs d)))"

section \<open>Linking a revision\<close>

definition link_fresh :: "string \<Rightarrow> string \<Rightarrow> disk \<Rightarrow> errno option \<times> disk" where
  "link_fresh src dst d = link (comps src) (comps dst) (snd (remove (comps dst) d))"

fun link_addons :: "sconfig \<Rightarrow> string \<Rightarrow> string \<Rightarrow> nat \<Rightarrow> string list \<Rightarrow> disk \<Rightarrow> int \<times> disk" where
  "link_addons g rv prefx i [] d = (0, d)"
| "link_addons g rv prefx i (a # as) d =
     (case link_fresh (in_trail g rv (prefx @ a)) (in_trail g rv (''.pv/pv-initrd.img.'' @ show_nat i)) d of
        (None, d') \<Rightarrow> link_addons g rv prefx (i + 1) as d'
      | (Some e, d') \<Rightarrow> (-1, d'))"

fun link_all :: "sconfig \<Rightarrow> string \<Rightarrow> (string \<times> string) list \<Rightarrow> disk \<Rightarrow> int \<times> disk" where
  "link_all g rv [] d = (0, d)"
| "link_all g rv ((src, dst) # ls) d =
     (case link_fresh (in_trail g rv src) (in_trail g rv dst) d of
        (None, d') \<Rightarrow> link_all g rv ls d' | (Some e, d') \<Rightarrow> (-1, d'))"

text \<open>The images to link, in order; \<open>kernel\<close> and \<open>fit\<close> are one pointer.\<close>

definition boot_links :: "pv_state \<Rightarrow> string \<Rightarrow> (string \<times> string) list" where
  "boot_links s prefx = (let b = s_bsp s in
     case b_initrd b of
       Some initrd \<Rightarrow> (prefx @ initrd, ''.pv/pv-initrd.img'') # (prefx @ opt_str (b_kernel_or_fit b), ''.pv/pv-kernel.img'') #
         (case b_fdt b of None \<Rightarrow> [] | Some fdt \<Rightarrow> [(prefx @ fdt, ''.pv/pv-fdt.dtb'')])
     | None \<Rightarrow> [(prefx @ opt_str (b_kernel_or_fit b), ''.pv/pantavisor.fit'')])"

definition pv_storage_meta_link_boot :: "sconfig \<Rightarrow> pv_state \<Rightarrow> disk \<Rightarrow> int \<times> disk" where
  "pv_storage_meta_link_boot g s d =
     (let prefx = (if s_spec s = SPEC_SYSTEM1 then ''bsp/'' else []); (r, d1) = link_addons g (s_rev s) prefx 0 (s_addons s) d in
      if r < 0 then (-1, d1) else link_all g (s_rev s) (boot_links s prefx) (snd (mkdir_p (in_trail g (s_rev s) ''.pv/'') d1)))"

text \<open>An object becomes a link to the pool, a volume of the kind \<open>bind\<close> a copy.\<close>

definition copy_bind :: "string \<Rightarrow> string \<Rightarrow> disk \<Rightarrow> disk" where
  "copy_bind src dst d = (case open_creat (comps dst) d of None \<Rightarrow> d
     | Some (t, d') \<Rightarrow> (case lookup d (comps src) of Some (File s) \<Rightarrow> pv_fops_copy_and_close s t d' | _ \<Rightarrow> d'))"

fun link_objects :: "object list \<Rightarrow> disk \<Rightarrow> (int \<times> disk) outcome" where
  "link_objects [] d = Done (0, d)"
| "link_objects (ob # obs) d =
     (case strrchr (o_relpath ob) CHR ''/'' of None \<Rightarrow> Fault
      | Some i \<Rightarrow>
          (let d1 = snd (mkdir_p (take i (o_relpath ob)) d) in
           if has_ext (o_relpath ob) ''.bind'' then link_objects obs (copy_bind (o_objpath ob) (o_relpath ob) d1)
           else case link (comps (o_objpath ob)) (comps (o_relpath ob)) d1 of (e, d2) \<Rightarrow>
             (if e \<noteq> None \<and> e \<noteq> Some EEXIST then Done (-1, d2) else link_objects obs d2)))"

definition trail_link_objects :: "sconfig \<Rightarrow> pv_state \<Rightarrow> disk \<Rightarrow> (int \<times> disk) outcome" where
  "trail_link_objects g s d = (case link_objects (s_objects s) d of Fault \<Rightarrow> Fault
     | Done (r, d') \<Rightarrow> (if r < 0 then Done (-1, d') else Done (pv_storage_meta_link_boot g s d')))"

section \<open>Lists as JSON\<close>

text \<open>The last character, the comma of the last line if there is one, gives way to the bracket.\<close>

definition close_list :: "bool \<Rightarrow> string list \<Rightarrow> string" where
  "close_list nothing lines = (if nothing then ''[]'' else butlast (''['' @ concat lines) @ '']'')"

definition rev_line :: "nat \<Rightarrow> sconfig \<Rightarrow> disk \<Rightarrow> (string \<Rightarrow> string) \<Rightarrow> string \<Rightarrow> string" where
  "rev_line stale g d date r =
     (let progress = (case pv_storage_load_file stale d (in_trail g r ''.pv/progress'') 512 of
                        None \<Rightarrow> ''{}'' | Some t \<Rightarrow> (if t = [] then ''{}'' else t));
          esc = (case pv_storage_load_file stale d (in_trail g r ''.pv/commitmsg'') 512 of None \<Rightarrow> []
                 | Some t \<Rightarrow> (case pv_json_format t (length t) of None \<Rightarrow> [] | Some e \<Rightarrow> e))
      in take (length r + length esc + length (date r) + length progress + 52)
           (''{'' @ quoted ''name'' @ '':'' @ quoted r @ '', '' @ quoted ''date'' @ '':'' @ quoted (date r) @ '', '' @
            quoted ''commitmsg'' @ '':'' @ quoted esc @ '', '' @ quoted ''progress'' @ '':'' @ progress @ ''},''))"

definition pv_storage_get_revisions_string :: "nat \<Rightarrow> sconfig \<Rightarrow> disk \<Rightarrow> (string \<Rightarrow> string) \<Rightarrow> string" where
  "pv_storage_get_revisions_string stale g d date =
     (let rs = pv_storage_get_revisions g d in
      close_list (rs = []) (map (rev_line stale g d date) (filter (\<lambda>r. r \<notin> set special_revs) rs)))"

text \<open>The size is an \<open>unsigned int\<close> that is printed as an \<open>int\<close>.\<close>

definition pv_storage_get_file_size :: "disk \<Rightarrow> path \<Rightarrow> 32 word" where
  "pv_storage_get_file_size d p = (case stat d p of None \<Rightarrow> 0 | Some (links, bytes) \<Rightarrow> word_of_nat bytes)"

definition object_line :: "string \<times> 32 word \<Rightarrow> string" where
  "object_line x = (case x of (nm, w) \<Rightarrow>
     take (length nm + nat (get_digit_count (sint w)) + 26)
       (''{'' @ quoted ''sha256'' @ '': '' @ quoted nm @ '', '' @ quoted ''size'' @ '': '' @ quoted (show_int (sint w)) @ ''},''))"

definition listed_objects :: "sconfig \<Rightarrow> disk \<Rightarrow> string list \<Rightarrow> (string \<times> 32 word) list" where
  "listed_objects g d cs = filter (\<lambda>x. snd x \<noteq> 0)
     (map (\<lambda>c. (c, pv_storage_get_file_size d (object_path g c))) (filter (\<lambda>c. length c = 64) cs))"

definition pv_objects_get_list_string :: "sconfig \<Rightarrow> disk \<Rightarrow> string" where
  "pv_objects_get_list_string g d =
     (let cs = pv_storage_get_subdir d (g_mnt g @ ''/objects/'') [] []
      in close_list (cs = []) (map object_line (listed_objects g d cs)))"

section \<open>A linked revision shares the pool without writing to it\<close>

lemma strrchr_snoc:
  assumes "c \<notin> set nm" shows "strrchr (dir @ c # nm) c = Some (length dir)"
proof -
  have "strrchr (c # nm) c = Some 0" using assms by (simp flip: strrchr_None)
  then show ?thesis by (induction dir) simp_all
qed

definition file_name :: "string \<Rightarrow> bool" where
  "file_name r \<longleftrightarrow> (\<exists>dir nm. r = dir @ CHR ''/'' # nm \<and> CHR ''/'' \<notin> set nm \<and> nm \<noteq> [])"

definition rel_ok :: "disk \<Rightarrow> object \<Rightarrow> bool" where
  "rel_ok d ob \<longleftrightarrow> file_name (o_relpath ob) \<and>
     list_all name_ok (comps (o_relpath ob)) \<and> lookup d (comps (o_relpath ob)) = None \<and>
     (\<forall>q. strict_prefix q (comps (o_relpath ob)) \<longrightarrow> lookup d q = None \<or> lookup d q = Some Dir)"

definition stored :: "disk \<Rightarrow> object \<Rightarrow> bool" where
  "stored d ob \<longleftrightarrow> (\<exists>i. lookup d (comps (o_objpath ob)) = Some (File i))"

fun apart :: "object list \<Rightarrow> bool" where
  "apart [] \<longleftrightarrow> True"
| "apart (ob # obs) \<longleftrightarrow> list_all (\<lambda>b. \<not> prefix (comps (o_relpath ob)) (comps (o_relpath b)) \<and>
     \<not> prefix (comps (o_relpath b)) (comps (o_relpath ob))) obs \<and> apart obs"

text \<open>The place of an object holds a link to the pool, or its own copy when it is a bind volume.\<close>

definition placed :: "disk \<Rightarrow> object \<Rightarrow> disk \<Rightarrow> bool" where
  "placed d ob d' \<longleftrightarrow> (\<exists>t i. lookup d' (comps (o_relpath ob)) = Some (File t) \<and>
     lookup d (comps (o_objpath ob)) = Some (File i) \<and>
     (if has_ext (o_relpath ob) ''.bind'' then d_next d \<le> t \<and> d_data d' t = d_data d i else t = i))"

definition keeps_files :: "disk \<Rightarrow> disk \<Rightarrow> bool" where
  "keeps_files d d' \<longleftrightarrow> d_next d \<le> d_next d' \<and> (\<forall>i<d_next d. d_data d' i = d_data d i) \<and>
     (\<forall>q n. lookup d q = Some n \<longrightarrow> lookup d' q = Some n)"

lemma keeps_files_refl [simp]: "keeps_files d d"
  by (simp add: keeps_files_def)

lemma keeps_files_trans: "keeps_files a b \<Longrightarrow> keeps_files b c \<Longrightarrow> keeps_files a c"
  unfolding keeps_files_def by (auto dest: less_le_trans)

lemma link_one:
  assumes "wf_disk d" "rel_ok d ob" "stored d ob"
  defines "rel \<equiv> comps (o_relpath ob)"
  shows "\<exists>d'. link_objects (ob # obs) d = link_objects obs d' \<and> wf_disk d' \<and> keeps_files d d' \<and> placed d ob d' \<and>
    (\<forall>q. q \<noteq> rel \<longrightarrow> lookup d' q = (if q \<noteq> [] \<and> strict_prefix q rel then Some Dir else lookup d q))"
proof -
  obtain dir nm where r: "o_relpath ob = dir @ CHR ''/'' # nm" "CHR ''/'' \<notin> set nm" "nm \<noteq> []"
    using assms(2) by (auto simp: rel_ok_def file_name_def)
  have rel: "rel = comps dir @ [nm]" unfolding rel_def r(1) by (simp add: comps_slash comps_name r)
  have cut: "strrchr (o_relpath ob) CHR ''/'' = Some (length dir)" "take (length dir) (o_relpath ob) = dir"
    unfolding r(1) using strrchr_snoc r(2) by auto
  have ok: "list_all name_ok rel" "lookup d rel = None" "\<And>q. strict_prefix q rel \<Longrightarrow> lookup d q = None \<or> lookup d q = Some Dir"
    using assms(2) by (auto simp: rel_ok_def rel_def)
  have sp: "strict_prefix q rel \<longleftrightarrow> prefix q (comps dir)" for q by (auto simp: rel strict_prefix_def)
  obtain d1 where d1: "mkdir_p dir d = (0, d1)" "wf_disk d1" "d_data d1 = d_data d" "d_next d1 = d_next d"
      "\<And>q. lookup d1 q = (if q \<noteq> [] \<and> prefix q (comps dir) then Some Dir else lookup d q)"
    using mkdir_p_spec [OF assms(1), of dir] ok(1,3) unfolding sp by (auto simp: rel)
  obtain i where i: "lookup d (comps (o_objpath ob)) = Some (File i)" using assms(3) by (auto simp: stored_def)
  have "\<not> prefix (comps (o_objpath ob)) (comps dir)" using ok(3) [unfolded sp] i by fastforce
  then have i1: "lookup d1 (comps (o_objpath ob)) = Some (File i)" by (simp add: d1(5) i)
  have free: "lookup d1 rel = None" "is_dir d1 (butlast rel)" "rel \<noteq> []"
    using ok(2) by (simp_all add: d1(5) rel is_dir_def)
  have lt: "i < d_next d" by (rule wf_File [OF assms(1) i])
  have old: "lookup d1 q = Some n" if "lookup d q = Some n" for q n
    using that ok(3) [of q] unfolding sp d1(5) by auto
  show ?thesis
  proof (cases "has_ext (o_relpath ob) ''.bind''")
    case True
    let ?t = "d_next d" and ?s = "d_data d i"
    let ?d0 = "set_node rel (File ?t) d1"
    define d2 where "d2 = write_fd ?t ?s (?d0\<lparr>d_data := (d_data d1)(?t := []), d_next := ?t + 1\<rparr>)"
    have "copy_bind (o_objpath ob) (o_relpath ob) d1 = d2"
      using free i1 lt by (simp add: copy_bind_def open_creat_def rel_def [symmetric] d1(3,4) pv_fops_copy_and_close_def d2_def)
    then have step: "link_objects (ob # obs) d = link_objects obs d2" using True cut d1(1) by simp
    have lk: "lookup d2 q = (if q = rel then Some (File ?t) else lookup d1 q)" for q
      by (simp add: lookup_def write_fd_def set_node_def d2_def)
    have nodes: "d_nodes d2 = d_nodes (set_node rel (File ?t) (d1\<lparr>d_next := ?t + 1\<rparr>))" "d_next d2 = ?t + 1"
      by (simp_all add: write_fd_def set_node_def d2_def)
    have "wf_disk (d1\<lparr>d_next := ?t + 1\<rparr>)"
      using d1(2,4) by (auto intro: wf_disk_nodes)
    then have "wf_disk (set_node rel (File ?t) (d1\<lparr>d_next := ?t + 1\<rparr>))"
      using free ok(1) by (intro wf_set) (auto simp: is_dir_def lookup_def)
    then have wf: "wf_disk d2" by (rule wf_disk_nodes) (simp_all add: nodes)
    have data: "d_data d2 = (d_data d)(?t := ?s)" by (simp add: write_fd_def d1(3) d2_def)
    have "placed d ob d2" using lk i data True lt by (simp add: placed_def rel_def)
    moreover have "keeps_files d d2"
      using old ok(2) by (auto simp: keeps_files_def nodes(2) data lk)
    ultimately show ?thesis using step wf lk unfolding sp by (auto simp: d1(5))
  next
    case False
    let ?d2 = "set_node rel (File i) d1"
    have "rel \<noteq> []" using free(3) .
    then have "link (comps (o_objpath ob)) (comps (o_relpath ob)) d1 = (None, ?d2)"
      using free i1 by (simp add: link_def may_add_def exists_at_def rel_def [symmetric])
    then have step: "link_objects (ob # obs) d = link_objects obs ?d2" using False cut d1(1) by simp
    have wf: "wf_disk ?d2" using free ok(1) d1(2,4) lt by (intro wf_set) auto
    have "placed d ob ?d2" using i False by (simp add: placed_def rel_def lookup_set)
    moreover have "keeps_files d ?d2"
      using old ok(2) by (auto simp: keeps_files_def d1(3,4) lookup_set)
    ultimately show ?thesis using step wf unfolding sp by (auto simp: d1(5) lookup_set)
  qed
qed

lemma placed_later:
  assumes "placed d ob d'" "keeps_files d' d''" "wf_disk d'" shows "placed d ob d''"
proof -
  obtain t i where t: "lookup d' (comps (o_relpath ob)) = Some (File t)" "lookup d (comps (o_objpath ob)) = Some (File i)"
      "if has_ext (o_relpath ob) ''.bind'' then d_next d \<le> t \<and> d_data d' t = d_data d i else t = i"
    using assms(1) unfolding placed_def by blast
  then have "d_data d'' t = d_data d' t" "lookup d'' (comps (o_relpath ob)) = Some (File t)"
    using assms(2) wf_File [OF assms(3) t(1)] by (auto simp: keeps_files_def)
  with t show ?thesis by (auto simp: placed_def)
qed

lemma placed_earlier:
  assumes "placed d' ob d''" "keeps_files d d'" "stored d ob" "wf_disk d" shows "placed d ob d''"
proof -
  obtain i where i: "lookup d (comps (o_objpath ob)) = Some (File i)" using assms(3) by (auto simp: stored_def)
  then have "lookup d' (comps (o_objpath ob)) = Some (File i)" "d_data d' i = d_data d i" "d_next d \<le> d_next d'"
    using assms(2) wf_File [OF assms(4) i] by (auto simp: keeps_files_def)
  with assms(1) i show ?thesis by (auto simp: placed_def split: if_splits)
qed

lemma link_objects_all:
  assumes "wf_disk d" "apart obs" "\<And>ob. ob \<in> set obs \<Longrightarrow> rel_ok d ob \<and> stored d ob"
  shows "\<exists>d'. link_objects obs d = Done (0, d') \<and> wf_disk d' \<and> keeps_files d d' \<and> (\<forall>ob\<in>set obs. placed d ob d')"
  using assms
proof (induction obs arbitrary: d)
  case Nil
  then show ?case by simp
next
  case (Cons ob obs)
  let ?rel = "comps (o_relpath ob)"
  obtain d1 where d1: "link_objects (ob # obs) d = link_objects obs d1" "wf_disk d1" "keeps_files d d1" "placed d ob d1"
      "\<And>q. q \<noteq> ?rel \<Longrightarrow> lookup d1 q = (if q \<noteq> [] \<and> strict_prefix q ?rel then Some Dir else lookup d q)"
    using link_one [OF Cons.prems(1), of ob obs] Cons.prems(3) [of ob] by auto
  have "rel_ok d1 b \<and> stored d1 b" if b: "b \<in> set obs" for b
  proof
    have ap: "\<not> prefix ?rel (comps (o_relpath b))" "\<not> prefix (comps (o_relpath b)) ?rel"
      using Cons.prems(2) b by (auto simp: list_all_iff)
    have "strict_prefix q (comps (o_relpath b)) \<Longrightarrow> q \<noteq> ?rel" for q using ap(1) by auto
    then show "rel_ok d1 b" using Cons.prems(3) [of b] b ap d1(5)
      unfolding rel_ok_def by (auto simp: strict_prefix_def)
    show "stored d1 b" using Cons.prems(3) [of b] b d1(3) by (auto simp: stored_def keeps_files_def)
  qed
  moreover have "apart obs" using Cons.prems(2) by simp
  ultimately obtain d' where d': "link_objects obs d1 = Done (0, d')" "wf_disk d'" "keeps_files d1 d'" "\<forall>ob\<in>set obs. placed d1 ob d'"
    using Cons.IH [OF d1(2)] by blast
  have "placed d ob d'" using placed_later [OF d1(4) d'(3) d1(2)] .
  moreover have "placed d b d'" if "b \<in> set obs" for b
    using placed_earlier [OF _ d1(3) _ Cons.prems(1)] d'(4) that Cons.prems(3) [of b] by auto
  ultimately show ?case using d1(1,3) d' keeps_files_trans by auto
qed

definition ex_link_disk :: disk where
  "ex_link_disk = \<lparr>d_nodes = [([''s''], Dir), ([''s'', ''objects''], Dir), ([''s'', ''objects'', ''x''], File 0), ([''s'', ''objects'', ''y''], File 1)],
     d_data = (\<lambda>i. if i = 0 then ''image'' else ''volume''), d_next = 2\<rparr>"

definition ex_link_objects :: "object list" where
  "ex_link_objects = s_objects (pv_objects_add (pv_objects_add (pv_state_new ''7'' SPEC_SYSTEM1) ''os/root.img'' ''x'' ''/s'') ''os/etc.bind'' ''y'' ''/s'')"

text \<open>Over a new directory every object of the revision becomes a link to its file in the pool, and
  a bind volume a copy of its own; no file that was there is written to or replaced.\<close>

theorem link_objects_shares_pool:
  assumes "wf_disk d" "apart obs" "\<And>ob. ob \<in> set obs \<Longrightarrow> rel_ok d ob \<and> stored d ob"
  shows "\<exists>d'. link_objects obs d = Done (0, d') \<and> wf_disk d' \<and> keeps_files d d' \<and> (\<forall>ob\<in>set obs. placed d ob d')"
  by (rule link_objects_all [OF assms])

theorem link_objects_shares_pool_witness:
  "\<exists>d'. link_objects ex_link_objects ex_link_disk = Done (0, d') \<and> lookup d' [''s'', ''trails'', ''7'', ''os'', ''root.img''] = Some (File 0)"
proof -
  let ?r = "pv_objects_add (pv_state_new ''7'' SPEC_SYSTEM1)"
  have obs: "ex_link_objects = s_objects (pv_objects_add (pv_state_new ''7'' SPEC_SYSTEM1) ''os/etc.bind'' ''y'' ''/s'') @
      s_objects (pv_objects_add (pv_state_new ''7'' SPEC_SYSTEM1) ''os/root.img'' ''x'' ''/s'')"
    by (simp add: ex_link_objects_def pv_objects_add_def pv_state_new_def)
  have c: "comps ''/s/trails/7/os/etc.bind'' = [''s'', ''trails'', ''7'', ''os'', ''etc.bind'']"
    "comps ''/s/trails/7/os/root.img'' = [''s'', ''trails'', ''7'', ''os'', ''root.img'']"
    "comps ''/s/objects/x'' = [''s'', ''objects'', ''x'']" "comps ''/s/objects/y'' = [''s'', ''objects'', ''y'']"
    by (simp_all add: comps_def strtok_def)
  have wf: "wf_disk ex_link_disk" by (simp add: wf_disk_def ex_link_disk_def is_dir_def lookup_def name_ok_def)
  have "file_name ''/s/trails/7/os/etc.bind''"
    unfolding file_name_def by (rule exI [of _ "''/s/trails/7/os''"], rule exI [of _ "''etc.bind''"]) simp
  moreover have "file_name ''/s/trails/7/os/root.img''"
    unfolding file_name_def by (rule exI [of _ "''/s/trails/7/os''"], rule exI [of _ "''root.img''"]) simp
  ultimately have each: "rel_ok ex_link_disk ob \<and> stored ex_link_disk ob" if "ob \<in> set ex_link_objects" for ob
    using that unfolding obs
    by (auto simp: pv_objects_add_def pv_state_new_def rel_ok_def stored_def c name_ok_def ex_link_disk_def lookup_def)
  have "apart ex_link_objects" unfolding obs by (simp add: pv_objects_add_def pv_state_new_def c)
  from link_objects_shares_pool [OF wf this each] obtain d' where d': "link_objects ex_link_objects ex_link_disk = Done (0, d')"
    "\<forall>ob\<in>set ex_link_objects. placed ex_link_disk ob d'" by blast
  moreover have "has_ext ''/s/trails/7/os/root.img'' ''.bind'' = False" by (simp add: has_ext_def)
  ultimately show ?thesis
    unfolding obs by (auto simp: placed_def pv_objects_add_def pv_state_new_def c ex_link_disk_def lookup_def)
qed

section \<open>Checksums\<close>

lemma bytes_strneq_iff:
  "length a = n \<Longrightarrow> length b = n \<Longrightarrow> bytes_strneq a b \<longleftrightarrow>
     a = b \<or> (\<exists>k<n. take k a = take k b \<and> a ! k = 0 \<and> b ! k = 0)"
proof (induction n arbitrary: a b)
  case 0
  then show ?case by (simp add: bytes_strneq_def)
next
  case (Suc n)
  then obtain x a' y b' where ab: "a = x # a'" "b = y # b'" "length a' = n" "length b' = n"
    by (cases a; cases b) auto
  have IH: "bytes_strneq a' b' \<longleftrightarrow> a' = b' \<or> (\<exists>k<n. take k a' = take k b' \<and> a' ! k = 0 \<and> b' ! k = 0)"
    using Suc.IH ab(3,4) by blast
  have ex: "(\<exists>k<Suc n. P k) \<longleftrightarrow> P 0 \<or> (\<exists>k<n. P (Suc k))" for P :: "nat \<Rightarrow> bool"
    using less_Suc_eq_0_disj by auto
  show ?case
    unfolding ab ex using IH by (auto simp: bytes_strneq_def split: if_splits)
qed

text \<open>A stored file passes the check when its digest is the expected one, or when the two agree
  up to a byte that is zero in both: the comparison stops there.\<close>

theorem checksum_accepts:
  assumes "read_file d (comps p) = Some body" "62 \<le> length checksum" "length (sha256 body) = 32"
  shows "pv_storage_validate_file_checksum sha256 d p checksum = Done 0 \<longleftrightarrow> sha_bytes checksum = sha256 body \<or>
    (\<exists>k<32. take k (sha_bytes checksum) = take k (sha256 body) \<and> sha_bytes checksum ! k = 0 \<and> sha256 body ! k = 0)"
proof -
  have "length (sha_bytes checksum) = 32" by (simp add: sha_bytes_def)
  then show ?thesis
    using bytes_strneq_iff [of _ 32, OF _ assms(3)] assms by (simp add: pv_storage_validate_file_checksum_def)
qed

theorem checksum_accepts_witness:
  "pv_storage_validate_file_checksum (\<lambda>b. 0 # replicate 31 7) ex_link_disk ''/s/objects/x'' (replicate 64 (CHR ''0'')) = Done 0"
proof -
  let ?sha = "\<lambda>b :: string. (0 :: nat) # replicate 31 7"
  have "read_file ex_link_disk (comps ''/s/objects/x'') = Some ''image''"
    by (simp add: read_file_def ex_link_disk_def lookup_def comps_def strtok_def)
  moreover have "sha_bytes (replicate 64 (CHR ''0'')) ! 0 = 0" by (simp add: sha_bytes_def hex_byte_def hex_digit_def numeral_eq_Suc)
  then have "\<exists>k<32. take k (sha_bytes (replicate 64 (CHR ''0''))) = take k (?sha ''image'') \<and>
      sha_bytes (replicate 64 (CHR ''0'')) ! k = 0 \<and> ?sha ''image'' ! k = 0"
    by (intro exI [of _ 0]) simp
  ultimately show ?thesis
    using checksum_accepts [of ex_link_disk "''/s/objects/x''" "''image''" "replicate 64 (CHR ''0'')" ?sha] by simp
qed

section \<open>Lists as JSON\<close>

text \<open>What the writers of the two lists have in common: a line is an element and a comma.\<close>

locale json_lines =
  fixes line :: "'a \<Rightarrow> string" and body :: "'a \<Rightarrow> string" and fine :: "'a \<Rightarrow> bool"
  assumes line_body: "fine x \<Longrightarrow> line x = body x @ '',''"
begin

lemma lines_joined: "xs \<noteq> [] \<Longrightarrow> list_all fine xs \<Longrightarrow> concat (map line xs) = join '','' (map body xs) @ '',''"
proof (induction xs rule: list_nonempty_induct)
  case (single x)
  then show ?case by (simp add: line_body)
next
  case (cons x xs)
  then show ?case by (simp add: line_body join_Cons)
qed

lemma list_closed:
  assumes "xs \<noteq> []" "list_all fine xs"
  shows "close_list False (map line xs) = ''['' @ join '','' (map body xs) @ '']''"
  unfolding close_list_def using lines_joined [OF assms] by (simp add: butlast_append)

end

definition rev_body :: "nat \<Rightarrow> sconfig \<Rightarrow> disk \<Rightarrow> (string \<Rightarrow> string) \<Rightarrow> string \<Rightarrow> string" where
  "rev_body stale g d date r = butlast (rev_line stale g d date r)"

definition object_body :: "string \<times> 32 word \<Rightarrow> string" where
  "object_body x = ''{'' @ quoted ''sha256'' @ '': '' @ quoted (fst x) @ '', '' @ quoted ''size'' @ '': '' @
     quoted (show_int (sint (snd x))) @ ''}''"

lemma take_exact: "length xs = n \<Longrightarrow> take n (xs @ ys) = xs"
  by simp

interpretation rev_lines: json_lines "rev_line stale g d date" "rev_body stale g d date" "\<lambda>r. True"
  for stale g d date
proof
  fix r
  have "\<exists>b. rev_line stale g d date r = b @ '',''"
    by (simp add: rev_line_def Let_def quoted_def del: append_assoc)
  then show "rev_line stale g d date r = rev_body stale g d date r @ '',''"
    by (auto simp: rev_body_def)
qed

lemma length_show_nat: "0 < n \<Longrightarrow> length (show_nat n) = count_digits n"
proof (induction n rule: show_nat.induct)
  case (1 n)
  show ?case
  proof (cases "n < 10")
    case True
    with 1(2) show ?thesis by (subst show_nat.simps, subst count_digits.simps, subst count_digits.simps) simp
  next
    case False
    then have "0 < n div 10" by simp
    with 1 False show ?thesis by (subst show_nat.simps, subst count_digits.simps) simp
  qed
qed

interpretation object_lines: json_lines object_line object_body "\<lambda>x. 0 < sint (snd x)"
proof
  fix x :: "string \<times> 32 word"
  obtain nm w where x: "x = (nm, w)" by (cases x)
  assume "0 < sint (snd x)"
  then have p: "0 < sint w" using x by simp
  then have "length (show_int (sint w)) = count_digits (nat (sint w))" by (simp add: show_int_def length_show_nat)
  then have "length (object_body x @ '','') = length nm + nat (get_digit_count (sint w)) + 26"
    using p by (simp add: object_body_def x quoted_def get_digit_count_def nat_add_distrib)
  then have "take (length nm + nat (get_digit_count (sint w)) + 26) (object_body x @ '','') = object_body x @ '',''"
    by (metis order_refl take_all)
  then show "object_line x = object_body x @ '',''"
    by (simp add: object_line_def object_body_def x)
qed

text \<open>The list of the stored objects is a JSON array of their hashes and sizes when there is one,
  as long as no file reaches two gigabytes; it is empty when there is no directory, and a bracket
  without its opening one when the directory holds no object.\<close>

theorem objects_list_string:
  fixes g :: sconfig and d :: disk
  defines "cs \<equiv> pv_storage_get_subdir d (g_mnt g @ ''/objects/'') [] []"
  defines "obs \<equiv> listed_objects g d cs"
  assumes small: "\<And>x. x \<in> set obs \<Longrightarrow> 0 < sint (snd x)"
  shows "pv_objects_get_list_string g d =
    (if cs = [] then ''[]'' else if obs = [] then '']'' else ''['' @ join '','' (map object_body obs) @ '']'')"
proof (cases "cs = [] \<or> obs = []")
  case True
  have "cs = [] \<Longrightarrow> obs = []" by (simp add: obs_def listed_objects_def)
  with True show ?thesis
    unfolding pv_objects_get_list_string_def cs_def [symmetric] Let_def obs_def [symmetric]
    by (auto simp: close_list_def)
next
  case False
  then have "close_list (cs = []) (map object_line obs) = ''['' @ join '','' (map object_body obs) @ '']''"
    using object_lines.list_closed [of obs] small by (simp add: list_all_iff)
  with False show ?thesis
    unfolding pv_objects_get_list_string_def cs_def [symmetric] Let_def obs_def [symmetric] by simp
qed

theorem objects_list_string_witness: "pv_objects_get_list_string ex_sconfig ex_link_disk = '']''"
proof -
  have cs: "pv_storage_get_subdir ex_link_disk (g_mnt ex_sconfig @ ''/objects/'') [] [] = [''.'', ''..'', ''x'', ''y'']"
    by code_simp
  have none: "listed_objects ex_sconfig ex_link_disk [''.'', ''..'', ''x'', ''y''] = []"
    by (simp add: listed_objects_def)
  show ?thesis using objects_list_string [where d = ex_link_disk and g = ex_sconfig] unfolding cs none by simp
qed

section \<open>User meta data on disk\<close>

lemma save_spec:
  assumes "wf_disk d" "comps s \<noteq> []" "list_all name_ok (comps s)" "is_dir d (butlast (comps s))"
    and "lookup d (comps s) = None \<or> (\<exists>i. lookup d (comps s) = Some (File i))"
  shows "\<exists>i. wf_disk (save_at s v d) \<and> d_data (save_at s v d) = (d_data d)(i := v) \<and>
    (\<forall>q. lookup (save_at s v d) q = (if q = comps s then Some (File i) else lookup d q))"
  using assms(5)
proof
  assume none: "lookup d (comps s) = None"
  let ?t = "d_next d"
  define d2 where "d2 = save_at s v d"
  have d2: "d2 = write_fd ?t v ((set_node (comps s) (File ?t) d)\<lparr>d_next := ?t + 1, d_data := (d_data d)(?t := [])\<rparr>)"
    using none assms(2,4) by (simp add: d2_def save_at_def open_trunc_def open_creat_def)
  have "wf_disk (d\<lparr>d_next := ?t + 1\<rparr>)"
    using assms(1) by (auto intro: wf_disk_nodes)
  then have "wf_disk (set_node (comps s) (File ?t) (d\<lparr>d_next := ?t + 1\<rparr>))"
    using assms none by (intro wf_set) (auto simp: is_dir_def lookup_def)
  then have "wf_disk d2" by (rule wf_disk_nodes) (simp_all add: d2 set_node_def write_fd_def)
  moreover have "lookup d2 q = (if q = comps s then Some (File ?t) else lookup d q)" for q
    by (simp add: d2 lookup_def set_node_def write_fd_def)
  moreover have "d_data d2 = (d_data d)(?t := v)" by (simp add: d2 write_fd_def)
  ultimately show ?thesis unfolding d2_def by blast
next
  assume "\<exists>i. lookup d (comps s) = Some (File i)"
  then obtain i where i: "lookup d (comps s) = Some (File i)" ..
  define d2 where "d2 = save_at s v d"
  have d2: "d2 = d\<lparr>d_data := (d_data d)(i := v)\<rparr>"
    using i by (simp add: d2_def save_at_def open_trunc_def open_creat_def write_fd_def)
  have "wf_disk d2" using assms(1) by (rule wf_disk_nodes) (simp_all add: d2)
  moreover have "lookup d2 q = (if q = comps s then Some (File i) else lookup d q)" for q
    using i by (simp add: d2 lookup_def)
  ultimately show ?thesis unfolding d2_def [symmetric] by (auto simp: d2)
qed

definition free_file :: "disk \<Rightarrow> path \<Rightarrow> bool" where
  "free_file d p \<longleftrightarrow> lookup d p = None \<or> (\<exists>i. lookup d p = Some (File i))"

lemma meta_paths:
  assumes "name_ok key"
  shows "comps (usermeta_key key) = [''pv'', ''user-meta'', key]"
    and "CHR ''/'' \<notin> set nm \<Longrightarrow> comps (usermeta_plat nm) = [''pv'', ''user-meta.'' @ nm]"
proof -
  have pv: "comps ''/pv'' = [''pv'']" and um: "comps ''user-meta'' = [''user-meta'']" by (simp_all add: comps_def strtok_def)
  show "comps (usermeta_key key) = [''pv'', ''user-meta'', key]"
    using comps_slash [of "''/pv''" "''user-meta/'' @ key"] comps_slash [of "''user-meta''" key] assms
    by (simp add: usermeta_key_def pv um comps_name name_ok_def)
  show "CHR ''/'' \<notin> set nm \<Longrightarrow> comps (usermeta_plat nm) = [''pv'', ''user-meta.'' @ nm]"
    using comps_slash [of "''/pv''" "''user-meta.'' @ nm"] by (simp add: usermeta_plat_def pv comps_name)
qed

text \<open>A user meta entry that is saved is read back from its file, and, when its key has the name of
  a platform before a dot, from the file of that platform too; removing it removes both.\<close>

theorem usermeta_saved:
  fixes v :: string
  assumes "wf_disk d" "is_dir d [''pv'', ''user-meta'']" "name_ok key" "free_file d [''pv'', ''user-meta'', key]"
    and "key = pname @ CHR ''.'' # pkey" "CHR ''.'' \<notin> set pname" "name_ok pkey"
    and "lookup d [''pv'', ''user-meta.'' @ pname] = None \<or> lookup d [''pv'', ''user-meta.'' @ pname] = Some Dir"
    and "free_file d [''pv'', ''user-meta.'' @ pname, pkey]"
  defines "d' \<equiv> pv_storage_save_usermeta key (Some v) d"
  shows "read_file d' [''pv'', ''user-meta'', key] = Some v \<and> read_file d' [''pv'', ''user-meta.'' @ pname, pkey] = Some v \<and>
    lookup (pv_storage_rm_usermeta key d') [''pv'', ''user-meta'', key] = None \<and>
    lookup (pv_storage_rm_usermeta key d') [''pv'', ''user-meta.'' @ pname, pkey] = None"
proof -
  let ?kp = "[''pv'', ''user-meta'', key]" and ?dp = "[''pv'', ''user-meta.'' @ pname]"
  let ?pp = "?dp @ [pkey]" and ?ps = "usermeta_plat pname @ ''/'' @ pkey"
  have sl: "CHR ''/'' \<notin> set pname" using assms(3,5) by (auto simp: name_ok_def)
  have kp: "comps (usermeta_key key) = ?kp" and dp: "comps (usermeta_plat pname) = ?dp"
    using meta_paths [OF assms(3)] sl by auto
  have pp: "comps ?ps = ?pp"
    using comps_slash [of "usermeta_plat pname" pkey] assms(7) by (simp add: dp comps_name name_ok_def)
  have ok: "list_all name_ok ?kp" "list_all name_ok ?pp" using assms(3,7) sl by (auto simp: name_ok_def)
  define d1 where "d1 = save_at (usermeta_key key) v d"
  obtain i where d1: "wf_disk d1" "d_data d1 = (d_data d)(i := v)" "\<And>q. lookup d1 q = (if q = ?kp then Some (File i) else lookup d q)"
    using save_spec [OF assms(1), of "usermeta_key key" v] ok(1) assms(2,4) unfolding kp d1_def free_file_def by auto
  have pv: "is_dir d1 [''pv'']" using wf_prefixes [OF assms(1,2), of "[''pv'']"] by (simp add: is_dir_def d1(3))
  have kp_dp: "?dp \<noteq> ?kp" "?pp \<noteq> ?kp" by auto
  define d2 where "d2 = pv_storage_init_plat_usermeta pname d1"
  have "wf_disk d2 \<and> d_data d2 = d_data d1 \<and> (\<forall>q. lookup d2 q = (if q = ?dp then Some Dir else lookup d1 q))"
  proof (cases "is_dir d1 ?dp")
    case True
    then show ?thesis using d1(1) by (auto simp: d2_def pv_storage_init_plat_usermeta_def dir_exist_def dp is_dir_def)
  next
    case False
    have "lookup d1 q = None \<or> lookup d1 q = Some Dir" if "prefix q ?dp" for q
      using that pv assms(8) wf_node(1) [OF d1(1), of "[]"] by (cases "lookup d1 []") (auto simp: prefix_Cons d1(3) is_dir_def)
    then obtain d2' where "mkdir_p (usermeta_plat pname) d1 = (0, d2')" "wf_disk d2'" "d_data d2' = d_data d1"
        "\<And>q. lookup d2' q = (if q \<noteq> [] \<and> prefix q ?dp then Some Dir else lookup d1 q)"
      using mkdir_p_spec [OF d1(1), of "usermeta_plat pname"] ok(2) unfolding dp by auto
    moreover have "lookup d1 [''pv''] = Some Dir" using pv by (simp add: is_dir_def)
    ultimately show ?thesis
      using False by (auto simp: d2_def pv_storage_init_plat_usermeta_def dir_exist_def dp prefix_Cons)
  qed
  then have d2: "wf_disk d2" "d_data d2 = d_data d1" "\<And>q. lookup d2 q = (if q = ?dp then Some Dir else lookup d1 q)" by auto
  define d3 where "d3 = save_at ?ps v d2"
  have free: "lookup d2 ?pp = None \<or> (\<exists>i. lookup d2 ?pp = Some (File i))"
    using assms(9) by (auto simp: d2(3) d1(3) free_file_def)
  obtain j where d3: "wf_disk d3" "d_data d3 = (d_data d2)(j := v)" "\<And>q. lookup d3 q = (if q = ?pp then Some (File j) else lookup d2 q)"
    using save_spec [OF d2(1), of ?ps v] ok(2) free unfolding pp d3_def by (auto simp: d2(3) is_dir_def)
  have chr: "strchr key CHR ''.'' = Some (length pname)" using assms(5,6) by simp
  have d': "d' = d3"
    by (simp add: d'_def pv_storage_save_usermeta_def chr pv_storage_save_file_def d1_def d2_def d3_def)
       (simp add: assms(5))
  have lk: "lookup d3 ?kp = Some (File i)" "lookup d3 ?pp = Some (File j)"
    by (simp_all add: d3(3) d2(3) d1(3))
  have rm: "pv_storage_rm_usermeta key d3 = snd (remove ?pp (snd (remove ?kp d3)))"
    using pp by (simp add: pv_storage_rm_usermeta_def chr kp Let_def) (simp add: assms(5))
  have "snd (remove ?kp d3) = drop_nodes (\<lambda>q. q = ?kp) d3" by (simp add: remove_def lk)
  moreover have "snd (remove ?pp (drop_nodes (\<lambda>q. q = ?kp) d3)) = drop_nodes (\<lambda>q. q = ?pp) (drop_nodes (\<lambda>q. q = ?kp) d3)"
    using lk kp_dp by (simp add: remove_def lookup_drop)
  ultimately show ?thesis unfolding d' rm using lk by (simp add: read_file_def d3(2) d2(2) d1(2) lookup_drop)
qed

definition ex_meta_disk :: disk where
  "ex_meta_disk = \<lparr>d_nodes = [([''pv''], Dir), ([''pv'', ''user-meta''], Dir)], d_data = (\<lambda>i. []), d_next = 0\<rparr>"

theorem usermeta_saved_witness:
  "read_file (pv_storage_save_usermeta ''os.key'' (Some ''v'') ex_meta_disk) [''pv'', ''user-meta.os'', ''key''] = Some ''v''"
proof -
  have "wf_disk ex_meta_disk" by (simp add: wf_disk_def ex_meta_disk_def is_dir_def lookup_def name_ok_def)
  then have "read_file (pv_storage_save_usermeta ''os.key'' (Some ''v'') ex_meta_disk) [''pv'', ''user-meta'', ''os.key''] = Some ''v'' \<and>
      read_file (pv_storage_save_usermeta ''os.key'' (Some ''v'') ex_meta_disk) [''pv'', ''user-meta.'' @ ''os'', ''key''] = Some ''v'' \<and>
      lookup (pv_storage_rm_usermeta ''os.key'' (pv_storage_save_usermeta ''os.key'' (Some ''v'') ex_meta_disk)) [''pv'', ''user-meta'', ''os.key''] = None \<and>
      lookup (pv_storage_rm_usermeta ''os.key'' (pv_storage_save_usermeta ''os.key'' (Some ''v'') ex_meta_disk)) [''pv'', ''user-meta.'' @ ''os'', ''key''] = None"
    by (rule usermeta_saved) (simp_all add: ex_meta_disk_def is_dir_def lookup_def name_ok_def free_file_def)
  then show ?thesis by simp
qed

end
