(* ===== verification/Config.thy ===== *)
theory Config
  imports Text "HOL-Library.Signed_Division"
begin

text \<open>
  \<open>config_parser.c\<close> and \<open>config.c\<close>: lists of keys and values from a file or the command line of the
  kernel, and the configuration that is read from, overridden by and saved to such files. A file is
  its content, \<open>None\<close> when it cannot be opened.
\<close>

section \<open>Lists of keys and values\<close>

type_synonym items = "(string \<times> string) list"

definition config_get_value :: "items \<Rightarrow> string \<Rightarrow> string option" where
  "config_get_value l key = map_option snd (find (\<lambda>x. fst x = key) l)"

fun set_item :: "items \<Rightarrow> string \<Rightarrow> string \<Rightarrow> items" where
  "set_item [] key v = []"
| "set_item (x # xs) key v = (if fst x = key then (key, v) # xs else x # set_item xs key v)"

text \<open>\<open>_config_add_item\<close>: a new item with an empty key is released before its fields are set.\<close>

definition config_add_item :: "items \<Rightarrow> string \<Rightarrow> string \<Rightarrow> items outcome" where
  "config_add_item l key v =
     (if config_get_value l key \<noteq> None then Done (set_item l key v)
      else if key = [] then Fault else Done (l @ [(key, v)]))"

text \<open>\<open>_config_replace_item\<close>: an empty list stays empty.\<close>

definition config_replace_item :: "items \<Rightarrow> string option \<Rightarrow> string \<Rightarrow> items outcome" where
  "config_replace_item l ko v = (case ko of None \<Rightarrow> Done l
     | Some key \<Rightarrow> (if l = [] then Done l
         else if config_get_value l key \<noteq> None then Done (set_item l key v) else config_add_item l key v))"

text \<open>\<open>strtok_r(k, "=")\<close> and what \<open>strtok_r(NULL, "")\<close> leaves of the rest.\<close>

definition cmdline_pair :: "string \<Rightarrow> string option \<times> string" where
  "cmdline_pair k = (let k1 = dropWhile (\<lambda>c. c = CHR ''='') k; key = takeWhile (\<lambda>c. c \<noteq> CHR ''='') k1 in
     (if k1 = [] then None else Some key, takeWhile (\<lambda>c. c \<noteq> LF) (drop (length key + 1) k1)))"

fun replace_tokens :: "string \<Rightarrow> string list \<Rightarrow> items \<Rightarrow> items outcome" where
  "replace_tokens hint [] l = Done l"
| "replace_tokens hint (t # ts) l =
     (if strneq hint t (length hint)
      then (case cmdline_pair (drop (length hint) t) of (ko, v) \<Rightarrow>
              (case config_replace_item l ko v of Fault \<Rightarrow> Fault | Done l' \<Rightarrow> replace_tokens hint ts l'))
      else replace_tokens hint ts l)"

definition config_parse_cmdline :: "string option \<Rightarrow> items \<Rightarrow> string \<Rightarrow> items outcome" where
  "config_parse_cmdline cmdline l hint = (case cmdline of None \<Rightarrow> Done l
     | Some s \<Rightarrow> replace_tokens hint (strtok (CHR '' '') (cstr (take 1024 s))) l)"

text \<open>The lines that \<open>fgets\<close> returns, each with its newline.\<close>

fun lines_of :: "string \<Rightarrow> string list" where
  "lines_of [] = []"
| "lines_of (c # s) = (if c = LF then [c] # lines_of s
     else case lines_of s of [] \<Rightarrow> [[c]] | w # ws \<Rightarrow> (c # w) # ws)"

text \<open>One line: its last character is cut off, whatever it is. The buffer has the size of the file, so
  that a line as long as the file does not fit with its NUL.\<close>

definition parse_line :: "nat \<Rightarrow> string \<Rightarrow> items \<Rightarrow> items outcome" where
  "parse_line fsize t l =
     (if length t \<ge> fsize \<or> cstr t = [] then Fault
      else let buff = butlast (cstr t) in
        case strchr buff (CHR ''='') of None \<Rightarrow> Done l
        | Some i \<Rightarrow> config_add_item l (take i buff) (drop (i + 1) buff))"

fun parse_lines :: "nat \<Rightarrow> string list \<Rightarrow> items \<Rightarrow> items outcome" where
  "parse_lines fsize [] l = Done l"
| "parse_lines fsize (t # ts) l = (case parse_line fsize t l of Fault \<Rightarrow> Fault | Done l' \<Rightarrow> parse_lines fsize ts l')"

definition load_key_value_file :: "string option \<Rightarrow> items \<Rightarrow> (int \<times> items) outcome" where
  "load_key_value_file file l = (case file of None \<Rightarrow> Done (-1, l)
     | Some s \<Rightarrow> (case parse_lines (length s) (lines_of s) l of Fault \<Rightarrow> Fault | Done l' \<Rightarrow> Done (0, l')))"

text \<open>The first item for which the action does not return 0 ends the iteration.\<close>

fun config_iterate_items :: "items \<Rightarrow> (string \<Rightarrow> string \<Rightarrow> 's \<Rightarrow> bool \<times> 's) \<Rightarrow> 's \<Rightarrow> 's" where
  "config_iterate_items [] action s = s"
| "config_iterate_items ((k, v) # l) action s =
     (case action k v s of (stop, s') \<Rightarrow> if stop then s' else config_iterate_items l action s')"

section \<open>The configuration\<close>

datatype bl_type = BL_UBOOT_PLAIN | BL_UBOOT_PVK | BL_GRUB

datatype secureboot_mode = SB_DISABLED | SB_LENIENT | SB_STRICT

record pantavisor_cache =
  metacachedir :: "string option"
  dropbearcachedir :: "string option"

record pantavisor_creds =
  cr_type :: "string option"
  cr_host :: "string option"
  cr_port :: int
  cr_host_proxy :: "string option"
  cr_port_proxy :: int
  cr_noproxyconnect :: int
  cr_id :: "string option"
  cr_prn :: "string option"
  cr_secret :: "string option"
  tpm_key :: "string option"
  tpm_cert :: "string option"

record pantavisor_gc =
  gc_reserved :: int
  gc_keep_factory :: bool
  gc_threshold :: int
  gc_defertime :: int

record pantavisor_storage =
  cs_path :: "string option"
  cs_fstype :: "string option"
  cs_opts :: "string option"
  cs_mntpoint :: "string option"
  cs_mnttype :: "string option"
  cs_logtempsize :: "string option"
  cs_wait :: int
  cs_gc :: pantavisor_gc

record pantavisor_updater =
  cu_interval :: int
  cu_network_timeout :: int
  cu_use_tmp_objects :: bool
  cu_revision_retries :: int
  cu_revision_retry_timeout :: int
  cu_commit_delay :: int

record pantavisor_bootloader =
  cb_type :: bl_type
  cb_mtd_only :: bool
  cb_mtd_path :: "string option"

record pantavisor_watchdog =
  wdt_enabled :: bool
  wdt_timeout :: int

record pantavisor_network =
  brdev :: "string option"
  braddress4 :: "string option"
  brmask4 :: "string option"

record pantavisor_log =
  cl_logdir :: "string option"
  cl_logmax :: int
  cl_loglevel :: int
  cl_logsize :: int
  cl_push :: bool
  cl_capture :: bool
  cl_loggers :: bool

record pantavisor_config =
  cf_cache :: pantavisor_cache
  cf_bl :: pantavisor_bootloader
  cf_creds :: pantavisor_creds
  cf_autotok :: "string option"
  cf_storage :: pantavisor_storage
  cf_updater :: pantavisor_updater
  cf_wdt :: pantavisor_watchdog
  cf_net :: pantavisor_network
  cf_log :: pantavisor_log
  cf_lxc_log_level :: int
  cf_control_remote :: bool
  cf_libthttp_loglevel :: int
  cf_secureboot_mode :: secureboot_mode

section \<open>Values of items\<close>

definition config_get_value_string :: "items \<Rightarrow> string \<Rightarrow> string option \<Rightarrow> string option" where
  "config_get_value_string l key dflt =
     (let item = (case config_get_value l key of None \<Rightarrow> dflt | Some v \<Rightarrow> Some v) in
      if item = Some [] then None else item)"

definition config_get_value_int :: "items \<Rightarrow> string \<Rightarrow> int \<Rightarrow> int" where
  "config_get_value_int l key dflt = (case config_get_value l key of None \<Rightarrow> dflt | Some v \<Rightarrow> atoi v)"

definition config_get_value_bool :: "items \<Rightarrow> string \<Rightarrow> bool \<Rightarrow> bool" where
  "config_get_value_bool l key dflt = (case config_get_value l key of None \<Rightarrow> dflt | Some v \<Rightarrow> atoi v \<noteq> 0)"

definition config_get_value_bl_type :: "items \<Rightarrow> string \<Rightarrow> bl_type \<Rightarrow> bl_type" where
  "config_get_value_bl_type l key dflt = (case config_get_value l key of None \<Rightarrow> dflt
     | Some v \<Rightarrow> (if v = ''uboot'' then BL_UBOOT_PLAIN else if v = ''uboot-pvk'' then BL_UBOOT_PVK
                 else if v = ''grub'' then BL_GRUB else dflt))"

definition config_get_value_sb_mode_type :: "items \<Rightarrow> string \<Rightarrow> secureboot_mode \<Rightarrow> secureboot_mode" where
  "config_get_value_sb_mode_type l key dflt = (case config_get_value l key of None \<Rightarrow> dflt
     | Some v \<Rightarrow> (if v = ''disabled'' then SB_DISABLED else if v = ''lenient'' then SB_LENIENT
                 else if v = ''strict'' then SB_STRICT else dflt))"

definition config_get_value_logsize :: "items \<Rightarrow> string \<Rightarrow> int \<Rightarrow> int" where
  "config_get_value_logsize l key dflt =
     (let v = config_get_value_int l key dflt in if v \<ge> 1024 then dflt else v)"

text \<open>A string that is not in the list is overridden with \<open>NULL\<close>, a number is left.\<close>

definition config_override_value_string :: "items \<Rightarrow> string \<Rightarrow> string option" where
  "config_override_value_string l key =
     (case config_get_value l key of None \<Rightarrow> None | Some v \<Rightarrow> (if v = [] then None else Some v))"

definition config_override_value_int :: "items \<Rightarrow> string \<Rightarrow> int \<Rightarrow> int" where
  "config_override_value_int l key out = (case config_get_value l key of None \<Rightarrow> out | Some v \<Rightarrow> atoi v)"

definition config_override_value_bool :: "items \<Rightarrow> string \<Rightarrow> bool \<Rightarrow> bool" where
  "config_override_value_bool l key out = (case config_get_value l key of None \<Rightarrow> out | Some v \<Rightarrow> atoi v \<noteq> 0)"

definition config_override_value_logsize :: "items \<Rightarrow> string \<Rightarrow> int \<Rightarrow> int" where
  "config_override_value_logsize l key out = (case config_get_value l key of None \<Rightarrow> out | Some v \<Rightarrow> atoi v * 1024)"

section \<open>Loading\<close>

text \<open>The items of a file, overridden from the command line by the tokens with the hint.\<close>

definition load_items :: "string option \<Rightarrow> string option \<Rightarrow> string \<Rightarrow> (int \<times> items) outcome" where
  "load_items file cmdline hint = (case load_key_value_file file [] of Fault \<Rightarrow> Fault
     | Done (r, l) \<Rightarrow> (if r < 0 then Done (-1, l)
         else case config_parse_cmdline cmdline l hint of Fault \<Rightarrow> Fault | Done l' \<Rightarrow> Done (0, l')))"

definition config_of_items :: "items \<Rightarrow> pantavisor_config \<Rightarrow> pantavisor_config" where
  "config_of_items l c =
     c\<lparr>cf_cache := \<lparr>metacachedir = config_get_value_string l ''meta.cache.dir'' (Some ''/storage/cache/meta''),
         dropbearcachedir = config_get_value_string l ''dropbear.cache.dir'' (Some ''/storage/cache/dropbear'')\<rparr>,
       cf_bl := \<lparr>cb_type = config_get_value_bl_type l ''bootloader.type'' BL_UBOOT_PLAIN,
         cb_mtd_only = config_get_value_bool l ''bootloader.mtd_only'' False,
         cb_mtd_path = config_get_value_string l ''bootloader.mtd_env'' None\<rparr>,
       cf_storage := \<lparr>cs_path = config_get_value_string l ''storage.device'' None,
         cs_fstype = config_get_value_string l ''storage.fstype'' None,
         cs_opts = config_get_value_string l ''storage.opts'' None,
         cs_mntpoint = config_get_value_string l ''storage.mntpoint'' None,
         cs_mnttype = config_get_value_string l ''storage.mnttype'' None,
         cs_logtempsize = config_get_value_string l ''storage.logtempsize'' None,
         cs_wait = config_get_value_int l ''storage.wait'' 5,
         cs_gc = \<lparr>gc_reserved = config_get_value_int l ''storage.gc.reserved'' 5,
           gc_keep_factory = config_get_value_bool l ''storage.gc.keep_factory'' False,
           gc_threshold = config_get_value_int l ''storage.gc.threshold'' 0,
           gc_defertime = config_get_value_int l ''storage.gc.threshold.defertime'' 600\<rparr>\<rparr>,
       cf_net := \<lparr>brdev = config_get_value_string l ''net.brdev'' (Some ''lxcbr0''),
         braddress4 = config_get_value_string l ''net.braddress4'' (Some ''10.0.3.1''),
         brmask4 = config_get_value_string l ''net.brmask4'' (Some ''255.255.255.0'')\<rparr>,
       cf_updater := (cf_updater c)\<lparr>cu_use_tmp_objects := config_get_value_bool l ''updater.use_tmp_objects'' False,
         cu_revision_retries := config_get_value_int l ''revision.retries'' 10,
         cu_revision_retry_timeout := config_get_value_int l ''revision.retries.timeout'' (2 * 60)\<rparr>,
       cf_wdt := \<lparr>wdt_enabled = config_get_value_bool l ''wdt.enabled'' True,
         wdt_timeout = config_get_value_int l ''wdt.timeout'' 15\<rparr>,
       cf_lxc_log_level := config_get_value_int l ''lxc.log.level'' 2,
       cf_control_remote := config_get_value_bool l ''control.remote'' True,
       cf_secureboot_mode := config_get_value_sb_mode_type l ''secureboot.mode'' SB_DISABLED\<rparr>"

definition creds_of_items :: "items \<Rightarrow> pantavisor_config \<Rightarrow> pantavisor_config" where
  "creds_of_items l c =
     c\<lparr>cf_creds := \<lparr>cr_type = config_get_value_string l ''creds.type'' (Some ''builtin''),
         cr_host = config_get_value_string l ''creds.host'' (Some ''192.168.53.1''),
         cr_port = config_get_value_int l ''creds.port'' 12365,
         cr_host_proxy = config_get_value_string l ''creds.proxy.host'' None,
         cr_port_proxy = config_get_value_int l ''creds.proxy.port'' 3218,
         cr_noproxyconnect = config_get_value_int l ''creds.proxy.noproxyconnect'' 0,
         cr_id = config_get_value_string l ''creds.id'' None,
         cr_prn = config_get_value_string l ''creds.prn'' None,
         cr_secret = config_get_value_string l ''creds.secret'' None,
         tpm_key = config_get_value_string l ''creds.tpm.key'' None,
         tpm_cert = config_get_value_string l ''creds.tpm.cert'' None\<rparr>,
       cf_autotok := config_get_value_string l ''factory.autotok'' None,
       cf_storage := (cf_storage c)\<lparr>cs_gc := (cs_gc (cf_storage c))\<lparr>gc_keep_factory :=
         config_get_value_bool l ''updater.keep_factory'' False\<rparr>\<rparr>,
       cf_updater := (cf_updater c)\<lparr>cu_interval := config_get_value_int l ''updater.interval'' 60,
         cu_network_timeout := config_get_value_int l ''updater.network_timeout'' (2 * 60),
         cu_commit_delay := config_get_value_int l ''updater.commit.delay'' (3 * 60)\<rparr>,
       cf_log := \<lparr>cl_logdir = config_get_value_string l ''log.dir'' (Some ''/storage/logs/''),
         cl_logmax = config_get_value_int l ''log.maxsize'' (2 ^ 21),
         cl_loglevel = config_get_value_int l ''log.level'' 0,
         cl_logsize = config_get_value_logsize l ''log.buf_nitems'' 128 * 1024,
         cl_push = config_get_value_bool l ''log.push'' True,
         cl_capture = config_get_value_bool l ''log.capture'' True,
         cl_loggers = config_get_value_bool l ''log.loggers'' True\<rparr>,
       cf_libthttp_loglevel := config_get_value_int l ''libthttp.log.level'' 3\<rparr>"

definition override_gc :: "items \<Rightarrow> pantavisor_gc \<Rightarrow> pantavisor_gc" where
  "override_gc l g =
     \<lparr>gc_reserved = config_override_value_int l ''storage.gc.reserved'' (gc_reserved g),
       gc_keep_factory = config_override_value_bool l ''updater.keep_factory''
         (config_override_value_bool l ''storage.gc.keep_factory'' (gc_keep_factory g)),
       gc_threshold = config_override_value_int l ''storage.gc.threshold'' (gc_threshold g),
       gc_defertime = config_override_value_int l ''storage.gc.threshold.defertime'' (gc_defertime g)\<rparr>"

definition override_of_items :: "items \<Rightarrow> pantavisor_config \<Rightarrow> pantavisor_config" where
  "override_of_items l c = (let cr = cf_creds c; u = cf_updater c; lg = cf_log c in
     c\<lparr>cf_creds := cr\<lparr>cr_host_proxy := config_override_value_string l ''creds.proxy.host'',
         cr_port_proxy := config_override_value_int l ''creds.proxy.port'' (cr_port_proxy cr),
         cr_noproxyconnect := config_override_value_int l ''creds.proxy.noproxyconnect'' (cr_noproxyconnect cr)\<rparr>,
       cf_storage := (cf_storage c)\<lparr>cs_gc := override_gc l (cs_gc (cf_storage c))\<rparr>,
       cf_updater := \<lparr>cu_interval = config_override_value_int l ''updater.interval'' (cu_interval u),
         cu_network_timeout = config_override_value_int l ''updater.network_timeout'' (cu_network_timeout u),
         cu_use_tmp_objects = config_override_value_bool l ''updater.use_tmp_objects'' (cu_use_tmp_objects u),
         cu_revision_retries = config_override_value_int l ''revision.retries'' (cu_revision_retries u),
         cu_revision_retry_timeout = config_override_value_int l ''revision.retries.timeout'' (cu_revision_retry_timeout u),
         cu_commit_delay = config_override_value_int l ''updater.commit.delay'' (cu_commit_delay u)\<rparr>,
       cf_log := lg\<lparr>cl_logmax := config_override_value_int l ''log.maxsize'' (cl_logmax lg),
         cl_loglevel := config_override_value_int l ''log.level'' (cl_loglevel lg),
         cl_logsize := config_override_value_logsize l ''log.buf_nitems'' (cl_logsize lg),
         cl_push := config_override_value_bool l ''log.push'' (cl_push lg),
         cl_capture := config_override_value_bool l ''log.capture'' (cl_capture lg),
         cl_loggers := config_override_value_bool l ''log.loggers'' (cl_loggers lg)\<rparr>,
       cf_libthttp_loglevel := config_override_value_int l ''libthttp.log.level'' (cf_libthttp_loglevel c),
       cf_lxc_log_level := config_override_value_int l ''lxc.log.level'' (cf_lxc_log_level c)\<rparr>)"

definition with_items :: "(int \<times> items) outcome \<Rightarrow> (items \<Rightarrow> pantavisor_config \<Rightarrow> pantavisor_config) \<Rightarrow> pantavisor_config \<Rightarrow> (int \<times> pantavisor_config) outcome" where
  "with_items r f c = (case r of Fault \<Rightarrow> Fault | Done (n, l) \<Rightarrow> (if n < 0 then Done (-1, c) else Done (0, f l c)))"

definition pv_config_load_config_from_file :: "string option \<Rightarrow> string option \<Rightarrow> pantavisor_config \<Rightarrow> (int \<times> pantavisor_config) outcome" where
  "pv_config_load_config_from_file file cmdline c = with_items (load_items file cmdline ''pv_'') config_of_items c"

definition pv_config_load_creds_from_file :: "string option \<Rightarrow> string option \<Rightarrow> pantavisor_config \<Rightarrow> (int \<times> pantavisor_config) outcome" where
  "pv_config_load_creds_from_file file cmdline c = with_items (load_items file cmdline ''ph_'') creds_of_items c"

definition pv_config_override_config_from_file :: "string option \<Rightarrow> pantavisor_config \<Rightarrow> (int \<times> pantavisor_config) outcome" where
  "pv_config_override_config_from_file file c = with_items (load_key_value_file file []) override_of_items c"

section \<open>Saving\<close>

definition write_config_tuple_string :: "string \<Rightarrow> string option \<Rightarrow> string" where
  "write_config_tuple_string key vo = (case vo of None \<Rightarrow> [] | Some v \<Rightarrow> key @ ''='' @ v @ [LF])"

definition write_config_tuple_int :: "string \<Rightarrow> int \<Rightarrow> string" where
  "write_config_tuple_int key v = write_config_tuple_string key (Some (show_int v))"

text \<open>The content of the new file.\<close>

definition pv_config_save_creds_to_file :: "pantavisor_config \<Rightarrow> string" where
  "pv_config_save_creds_to_file c = (let cr = cf_creds c; u = cf_updater c in
     write_config_tuple_string ''creds.type'' (cr_type cr) @
     write_config_tuple_string ''creds.host'' (cr_host cr) @
     write_config_tuple_int ''creds.port'' (cr_port cr) @
     (if cr_host_proxy cr \<noteq> None
      then write_config_tuple_string ''creds.proxy.host'' (cr_host_proxy cr) @
           write_config_tuple_int ''creds.proxy.port'' (cr_port_proxy cr) @
           write_config_tuple_int ''creds.proxy.noproxyconnect'' (cr_noproxyconnect cr)
      else []) @
     write_config_tuple_string ''creds.id'' (cr_id cr) @
     write_config_tuple_string ''creds.prn'' (cr_prn cr) @
     write_config_tuple_string ''creds.secret'' (cr_secret cr) @
     write_config_tuple_string ''creds.tpm.key'' (tpm_key cr) @
     write_config_tuple_string ''creds.tpm.cert'' (tpm_cert cr) @
     write_config_tuple_int ''updater.interval'' (cu_interval u) @
     write_config_tuple_int ''updater.network_timeout'' (cu_network_timeout u) @
     write_config_tuple_int ''updater.commit.delay'' (cu_commit_delay u) @
     write_config_tuple_int ''updater.keep_factory'' (if gc_keep_factory (cs_gc (cf_storage c)) then 1 else 0) @
     write_config_tuple_int ''log.level'' (cl_loglevel (cf_log c)) @
     write_config_tuple_int ''log.buf_nitems'' (cl_logsize (cf_log c) sdiv 1024) @
     write_config_tuple_int ''libthttp.log.level'' (cf_libthttp_loglevel c))"

definition creds_path :: "bool \<Rightarrow> string \<Rightarrow> string" where
  "creds_path unclaimed mnt = mnt @ (if unclaimed then ''/config/unclaimed.config'' else ''/config/pantahub.config'')"

text \<open>\<open>pv_config_load_creds\<close>: a file that is not there is not opened.\<close>

definition pv_config_load_creds :: "(string \<Rightarrow> string option) \<Rightarrow> string option \<Rightarrow> bool \<Rightarrow> string \<Rightarrow> pantavisor_config \<Rightarrow> (int \<times> pantavisor_config) outcome" where
  "pv_config_load_creds files cmdline unclaimed mnt c = (case files (creds_path unclaimed mnt) of None \<Rightarrow> Done (-1, c)
     | Some s \<Rightarrow> pv_config_load_creds_from_file (Some s) cmdline c)"

definition pv_config_save_creds :: "bool \<Rightarrow> string \<Rightarrow> pantavisor_config \<Rightarrow> (string \<Rightarrow> string option) \<Rightarrow> (string \<Rightarrow> string option)" where
  "pv_config_save_creds unclaimed mnt c files = files(creds_path unclaimed mnt \<mapsto> pv_config_save_creds_to_file c)"

text \<open>A key of the user meta data that overrides the configuration.\<close>

definition set_gc :: "(pantavisor_gc \<Rightarrow> pantavisor_gc) \<Rightarrow> pantavisor_config \<Rightarrow> pantavisor_config" where
  "set_gc f c = c\<lparr>cf_storage := (cf_storage c)\<lparr>cs_gc := f (cs_gc (cf_storage c))\<rparr>\<rparr>"

definition pv_config_override_value :: "string \<Rightarrow> string \<Rightarrow> pantavisor_config \<Rightarrow> pantavisor_config" where
  "pv_config_override_value key v c =
     (if key = ''storage.gc.reserved'' then set_gc (gc_reserved_update (\<lambda>_. atoi v)) c
      else if key = ''storage.gc.keep_factory'' then set_gc (gc_keep_factory_update (\<lambda>_. atoi v \<noteq> 0)) c
      else if key = ''storage.gc.threshold'' then set_gc (gc_threshold_update (\<lambda>_. atoi v)) c
      else if key = ''storage.gc.threshold.defertime'' then set_gc (gc_defertime_update (\<lambda>_. atoi v)) c
      else if key = ''updater.interval'' then c\<lparr>cf_updater := (cf_updater c)\<lparr>cu_interval := atoi v\<rparr>\<rparr>
      else if key = ''log.level'' then c\<lparr>cf_log := (cf_log c)\<lparr>cl_loglevel := atoi v\<rparr>\<rparr>
      else if key = ''pantahub.log.push'' \<or> key = ''log.push'' then c\<lparr>cf_log := (cf_log c)\<lparr>cl_push := atoi v \<noteq> 0\<rparr>\<rparr>
      else if key = ''libthttp.log.level'' then c\<lparr>cf_libthttp_loglevel := atoi v\<rparr>
      else c)"

text \<open>The steps of the initialization over the files; \<open>state_json\<close> and \<open>config_name\<close> are the storage's and the
  parser's answers for the revision that was booted.\<close>

definition pv_config_init :: "string option \<Rightarrow> (string \<Rightarrow> string option) \<Rightarrow> pantavisor_config \<Rightarrow> (int \<times> pantavisor_config) outcome" where
  "pv_config_init cmdline files c = pv_config_load_config_from_file (files ''/etc/pantavisor.config'') cmdline c"

definition pv_config_creds :: "string option \<Rightarrow> (string \<Rightarrow> string option) \<Rightarrow> string \<Rightarrow> pantavisor_config \<Rightarrow> (int \<times> pantavisor_config) outcome" where
  "pv_config_creds cmdline files mnt c = pv_config_load_creds_from_file (files (creds_path False mnt)) cmdline c"

definition pv_config_trail :: "string option \<Rightarrow> (string \<Rightarrow> string option) \<Rightarrow> (string \<Rightarrow> string option) \<Rightarrow> string \<Rightarrow> string \<Rightarrow> pantavisor_config \<Rightarrow> (int \<times> pantavisor_config) outcome" where
  "pv_config_trail state_json config_name files mnt rv c = (case state_json of None \<Rightarrow> Done (0, c)
     | Some js \<Rightarrow> (case config_name js of None \<Rightarrow> Done (0, c)
         | Some nm \<Rightarrow> (case pv_config_override_config_from_file (files (mnt @ ''/trails/'' @ rv @ ''/bsp/'' @ nm)) c of
             Fault \<Rightarrow> Fault | Done (r, c') \<Rightarrow> Done (if r \<noteq> 0 then -1 else 0, c'))))"

section \<open>A saved file reads back\<close>

definition kv_line :: "string \<times> string \<Rightarrow> string" where
  "kv_line x = fst x @ ''='' @ snd x @ [LF]"

definition kv_ok :: "string \<times> string \<Rightarrow> bool" where
  "kv_ok x \<longleftrightarrow> fst x \<noteq> [] \<and> CHR ''='' \<notin> set (fst x) \<and> LF \<notin> set (fst x @ snd x) \<and> no_nul (fst x @ snd x)"

lemma lines_of_line: "LF \<notin> set t \<Longrightarrow> lines_of (t @ LF # r) = (t @ [LF]) # lines_of r"
  by (induction t) auto

lemma lines_of_kvs: "list_all kv_ok kvs \<Longrightarrow> lines_of (concat (map kv_line kvs)) = map kv_line kvs"
proof (induction kvs)
  case (Cons x kvs)
  then have "LF \<notin> set (fst x @ ''='' @ snd x)" by (simp add: kv_ok_def)
  from lines_of_line [OF this, of "concat (map kv_line kvs)"] Cons show ?case by (simp add: kv_line_def [of x])
qed simp

lemma get_value_None: "config_get_value l k = None \<longleftrightarrow> k \<notin> fst ` set l"
  by (force simp: config_get_value_def find_None_iff)

lemma parse_kv:
  assumes "kv_ok x" "length (kv_line x) < n" "fst x \<notin> fst ` set l"
  shows "parse_line n (kv_line x) l = Done (l @ [x])"
proof -
  have nn: "no_nul (kv_line x)" using assms(1) by (simp add: kv_ok_def kv_line_def)
  have cut: "butlast (kv_line x) = fst x @ CHR ''='' # snd x" by (simp add: kv_line_def butlast_append)
  have "strchr (fst x @ CHR ''='' # snd x) (CHR ''='') = Some (length (fst x))" using assms(1) by (simp add: kv_ok_def)
  then show ?thesis
    using assms get_value_None [of l "fst x"] nn
    by (simp add: parse_line_def cut config_add_item_def Let_def) (simp add: kv_ok_def kv_line_def)
qed

lemma parse_kvs:
  assumes "list_all kv_ok kvs" "\<And>x. x \<in> set kvs \<Longrightarrow> length (kv_line x) < n" "distinct (map fst (l @ kvs))"
  shows "parse_lines n (map kv_line kvs) l = Done (l @ kvs)"
  using assms
proof (induction kvs arbitrary: l)
  case (Cons x kvs)
  then have "parse_line n (kv_line x) l = Done (l @ [x])" by (intro parse_kv) auto
  with Cons show ?case by simp
qed simp

lemma load_saved:
  assumes "list_all kv_ok kvs" "distinct (map fst kvs)" "2 \<le> length kvs"
  shows "load_key_value_file (Some (concat (map kv_line kvs))) [] = Done (0, kvs)"
proof -
  have "length (kv_line x) < length (concat (map kv_line kvs))" if x: "x \<in> set kvs" for x
  proof -
    obtain us vs where u: "kvs = us @ x # vs" using split_list [OF x] by blast
    with assms(3) have "us \<noteq> [] \<or> vs \<noteq> []" by auto
    moreover have "0 < length (kv_line y)" for y by (simp add: kv_line_def)
    then have "zs \<noteq> [] \<Longrightarrow> 0 < length (concat (map kv_line zs))" for zs by (cases zs) auto
    ultimately show ?thesis using u by fastforce
  qed
  then show ?thesis using parse_kvs [of kvs _ "[]"] lines_of_kvs assms by (simp add: load_key_value_file_def)
qed

definition opt_item :: "string \<Rightarrow> string option \<Rightarrow> items" where
  "opt_item k vo = (case vo of None \<Rightarrow> [] | Some v \<Rightarrow> [(k, v)])"

lemma tuple_opt: "write_config_tuple_string k vo = concat (map kv_line (opt_item k vo))"
  by (simp add: write_config_tuple_string_def opt_item_def kv_line_def split: option.split)

lemma get_opt [simp]: "config_get_value (opt_item k vo @ l) key =
    (if k = key \<and> vo \<noteq> None then vo else config_get_value l key)"
  by (simp add: config_get_value_def opt_item_def split: option.split)

lemma get_last_opt [simp]: "config_get_value (opt_item k vo) key = (if k = key then vo else None)"
  by (simp add: config_get_value_def opt_item_def split: option.split)

definition text_ok :: "string option \<Rightarrow> bool" where
  "text_ok vo \<longleftrightarrow> (case vo of None \<Rightarrow> True | Some v \<Rightarrow> v \<noteq> [] \<and> LF \<notin> set v \<and> no_nul v)"

lemma opt_ok: "text_ok vo \<Longrightarrow> k \<noteq> [] \<Longrightarrow> CHR ''='' \<notin> set k \<Longrightarrow> LF \<notin> set k \<Longrightarrow> no_nul k \<Longrightarrow> list_all kv_ok (opt_item k vo)"
  by (cases vo) (simp_all add: opt_item_def text_ok_def kv_ok_def)

lemma show_int_ok [simp]: "text_ok (Some (show_int i))"
proof -
  have "c \<in> set (show_int i) \<Longrightarrow> is_digit c \<or> c = CHR ''-''" for c
    using show_nat_digits by (auto simp: show_int_def split: if_splits)
  then have "LF \<notin> set (show_int i)" "NUL \<notin> set (show_int i)"
    using is_digit_not_special by fastforce+
  moreover have "show_int i \<noteq> []" by (simp add: show_int_def)
  ultimately show ?thesis by (simp add: text_ok_def no_nul_def)
qed

lemma atoi_show_int [simp]: "atoi (show_int i) = i"
proof (cases "i < 0")
  case True
  then show ?thesis by (simp add: show_int_def atoi_def is_space_def digits_val_show_nat)
next
  case False
  then show ?thesis by (simp add: show_int_def atoi_show_nat)
qed

text \<open>The items of a saved file, and the texts among them.\<close>

definition saved_items :: "pantavisor_config \<Rightarrow> items" where
  "saved_items c = (let cr = cf_creds c; u = cf_updater c; proxy = (\<lambda>i. map_option (\<lambda>_. show_int i) (cr_host_proxy cr)) in
     opt_item ''creds.type'' (cr_type cr) @ opt_item ''creds.host'' (cr_host cr) @ opt_item ''creds.port'' (Some (show_int (cr_port cr))) @
     opt_item ''creds.proxy.host'' (cr_host_proxy cr) @ opt_item ''creds.proxy.port'' (proxy (cr_port_proxy cr)) @
     opt_item ''creds.proxy.noproxyconnect'' (proxy (cr_noproxyconnect cr)) @
     opt_item ''creds.id'' (cr_id cr) @ opt_item ''creds.prn'' (cr_prn cr) @ opt_item ''creds.secret'' (cr_secret cr) @
     opt_item ''creds.tpm.key'' (tpm_key cr) @ opt_item ''creds.tpm.cert'' (tpm_cert cr) @
     opt_item ''updater.interval'' (Some (show_int (cu_interval u))) @
     opt_item ''updater.network_timeout'' (Some (show_int (cu_network_timeout u))) @
     opt_item ''updater.commit.delay'' (Some (show_int (cu_commit_delay u))) @
     opt_item ''updater.keep_factory'' (Some (show_int (if gc_keep_factory (cs_gc (cf_storage c)) then 1 else 0))) @
     opt_item ''log.level'' (Some (show_int (cl_loglevel (cf_log c)))) @
     opt_item ''log.buf_nitems'' (Some (show_int (cl_logsize (cf_log c) sdiv 1024))) @
     opt_item ''libthttp.log.level'' (Some (show_int (cf_libthttp_loglevel c))))"

definition texts :: "pantavisor_creds \<Rightarrow> string option list" where
  "texts cr = [cr_type cr, cr_host cr, cr_host_proxy cr, cr_id cr, cr_prn cr, cr_secret cr, tpm_key cr, tpm_cert cr]"

lemma saved_content: "pv_config_save_creds_to_file c = concat (map kv_line (saved_items c))"
  by (cases "cr_host_proxy (cf_creds c)")
     (simp_all add: pv_config_save_creds_to_file_def saved_items_def write_config_tuple_int_def tuple_opt Let_def,
      simp_all add: opt_item_def)

lemma saved_ok:
  assumes "list_all text_ok (texts (cf_creds c))" shows "list_all kv_ok (saved_items c)"
proof -
  have "text_ok (map_option (\<lambda>_. show_int i) vo)" for i and vo :: "string option"
    by (cases vo) (simp_all, simp add: text_ok_def)
  with assms show ?thesis by (simp add: saved_items_def Let_def texts_def opt_ok)
qed

lemma not_in_opt: "k' \<noteq> k \<Longrightarrow> k' \<notin> fst ` set l \<Longrightarrow> k' \<notin> fst ` set (opt_item k vo @ l)"
  by (auto simp: opt_item_def split: option.splits)

lemma distinct_opt: "k \<notin> fst ` set l \<Longrightarrow> distinct (map fst l) \<Longrightarrow> distinct (map fst (opt_item k vo @ l))"
  by (auto simp: opt_item_def split: option.splits)

lemma last_opt: "k' \<noteq> k \<Longrightarrow> k' \<notin> fst ` set (opt_item k vo)" "distinct (map fst (opt_item k vo))"
  by (auto simp: opt_item_def split: option.splits)

lemma saved_distinct: "distinct (map fst (saved_items c))"
  unfolding saved_items_def Let_def by (intro distinct_opt not_in_opt last_opt) simp_all

lemma saved_two: "2 \<le> length (saved_items c)"
  by (simp add: saved_items_def Let_def opt_item_def)

lemma sdiv_exact: "(n * 1024) sdiv 1024 = (n::int)"
  by (simp add: signed_divide_int_def sgn_mult abs_mult sgn_mult_abs)

text \<open>Saved credentials read back with the settings of the updater and the log level; the proxy's port
  only with its host. What is not saved, the token of the factory and the rest of the log settings,
  is reset to the defaults.\<close>

theorem creds_read_back:
  fixes c c' :: pantavisor_config
  assumes "list_all text_ok (texts (cf_creds c))" "cr_type (cf_creds c) \<noteq> None" "cr_host (cf_creds c) \<noteq> None"
    and "cl_logsize (cf_log c) = n * 1024" "n < 1024"
  shows "pv_config_load_creds (pv_config_save_creds unclaimed mnt c files) None unclaimed mnt c' = Done (0,
    c'\<lparr>cf_creds := (cf_creds c)\<lparr>
         cr_port_proxy := (if cr_host_proxy (cf_creds c) = None then 3218 else cr_port_proxy (cf_creds c)),
         cr_noproxyconnect := (if cr_host_proxy (cf_creds c) = None then 0 else cr_noproxyconnect (cf_creds c))\<rparr>,
       cf_autotok := None,
       cf_storage := (cf_storage c')\<lparr>cs_gc := (cs_gc (cf_storage c'))\<lparr>gc_keep_factory := gc_keep_factory (cs_gc (cf_storage c))\<rparr>\<rparr>,
       cf_updater := (cf_updater c')\<lparr>cu_interval := cu_interval (cf_updater c),
         cu_network_timeout := cu_network_timeout (cf_updater c), cu_commit_delay := cu_commit_delay (cf_updater c)\<rparr>,
       cf_log := \<lparr>cl_logdir = Some ''/storage/logs/'', cl_logmax = 2 ^ 21, cl_loglevel = cl_loglevel (cf_log c),
         cl_logsize = cl_logsize (cf_log c), cl_push = True, cl_capture = True, cl_loggers = True\<rparr>,
       cf_libthttp_loglevel := cf_libthttp_loglevel c\<rparr>)"
proof -
  let ?l = "saved_items c" and ?cr = "cf_creds c"
  have items: "load_items (Some (pv_config_save_creds_to_file c)) None ''ph_'' = Done (0, ?l)"
    using load_saved [OF saved_ok [OF assms(1)] saved_distinct saved_two]
    by (simp add: load_items_def saved_content config_parse_cmdline_def)
  have ne: "x \<noteq> Some []" if "x \<in> set (texts ?cr)" for x
    using assms(1) that by (auto simp: list_all_iff text_ok_def split: option.splits)
  have strings: "config_get_value_string ?l ''creds.type'' (Some ''builtin'') = cr_type ?cr"
    "config_get_value_string ?l ''creds.host'' (Some ''192.168.53.1'') = cr_host ?cr"
    "config_get_value_string ?l ''creds.proxy.host'' None = cr_host_proxy ?cr"
    "config_get_value_string ?l ''creds.id'' None = cr_id ?cr" "config_get_value_string ?l ''creds.prn'' None = cr_prn ?cr"
    "config_get_value_string ?l ''creds.secret'' None = cr_secret ?cr" "config_get_value_string ?l ''creds.tpm.key'' None = tpm_key ?cr"
    "config_get_value_string ?l ''creds.tpm.cert'' None = tpm_cert ?cr" "config_get_value_string ?l ''factory.autotok'' None = None"
    "config_get_value_string ?l ''log.dir'' (Some ''/storage/logs/'') = Some ''/storage/logs/''"
    using assms(2,3) ne by (auto simp: config_get_value_string_def saved_items_def Let_def texts_def split: option.split)
  have ints: "config_get_value_int ?l ''creds.port'' 12365 = cr_port ?cr"
    "config_get_value_int ?l ''creds.proxy.port'' 3218 = (if cr_host_proxy ?cr = None then 3218 else cr_port_proxy ?cr)"
    "config_get_value_int ?l ''creds.proxy.noproxyconnect'' 0 = (if cr_host_proxy ?cr = None then 0 else cr_noproxyconnect ?cr)"
    "config_get_value_int ?l ''updater.interval'' 60 = cu_interval (cf_updater c)"
    "config_get_value_int ?l ''updater.network_timeout'' (2 * 60) = cu_network_timeout (cf_updater c)"
    "config_get_value_int ?l ''updater.commit.delay'' (3 * 60) = cu_commit_delay (cf_updater c)"
    "config_get_value_int ?l ''log.maxsize'' (2 ^ 21) = 2 ^ 21" "config_get_value_int ?l ''log.level'' 0 = cl_loglevel (cf_log c)"
    "config_get_value_int ?l ''libthttp.log.level'' 3 = cf_libthttp_loglevel c"
    "config_get_value_int ?l ''log.buf_nitems'' 128 = n"
    using assms(4) by (cases "cr_host_proxy ?cr"; simp add: config_get_value_int_def saved_items_def Let_def sdiv_exact)+
  have bools: "config_get_value_bool ?l ''updater.keep_factory'' False = gc_keep_factory (cs_gc (cf_storage c))"
    "config_get_value_bool ?l ''log.push'' True" "config_get_value_bool ?l ''log.capture'' True" "config_get_value_bool ?l ''log.loggers'' True"
    by (simp_all add: config_get_value_bool_def saved_items_def Let_def)
  have size: "config_get_value_logsize ?l ''log.buf_nitems'' 128 * 1024 = cl_logsize (cf_log c)"
    using assms(4,5) ints by (simp add: config_get_value_logsize_def)
  show ?thesis
    unfolding pv_config_load_creds_def pv_config_save_creds_def pv_config_load_creds_from_file_def fun_upd_same option.case items with_items_def
    using strings ints bools size by (simp add: creds_of_items_def)
qed

definition ex_config :: pantavisor_config where
  "ex_config = creds_of_items [(''creds.id'', ''dev''), (''creds.proxy.host'', ''p''), (''creds.proxy.port'', ''80''), (''log.push'', ''0'')]
     (config_of_items [(''storage.gc.keep_factory'', ''1'')] undefined)"

theorem creds_read_back_witness:
  "\<exists>c. pv_config_load_creds (pv_config_save_creds False ''/s'' ex_config (\<lambda>p. None)) None False ''/s'' ex_config = Done (0, c) \<and>
     cr_id (cf_creds c) = Some ''dev'' \<and> cr_port_proxy (cf_creds c) = 80 \<and> \<not> cl_push (cf_log ex_config) \<and> cl_push (cf_log c)"
proof -
  have cr: "cf_creds ex_config = \<lparr>cr_type = Some ''builtin'', cr_host = Some ''192.168.53.1'', cr_port = 12365,
      cr_host_proxy = Some ''p'', cr_port_proxy = 80, cr_noproxyconnect = 0, cr_id = Some ''dev'', cr_prn = None, cr_secret = None,
      tpm_key = None, tpm_cert = None\<rparr>"
    by (simp add: ex_config_def creds_of_items_def config_get_value_string_def config_get_value_int_def config_get_value_def
        atoi_def is_space_def digits_val_def is_digit_def)
  have lg: "cl_logsize (cf_log ex_config) = 128 * 1024" "\<not> cl_push (cf_log ex_config)"
    by (simp_all add: ex_config_def creds_of_items_def config_get_value_logsize_def config_get_value_int_def config_get_value_bool_def
        config_get_value_def atoi_def is_space_def digits_val_def is_digit_def)
  have "list_all text_ok (texts (cf_creds ex_config))" by (simp add: cr texts_def text_ok_def)
  from creds_read_back [OF this, of 128 False "''/s''" "\<lambda>p. None" ex_config] show ?thesis
    by (simp add: lg cr)
qed

section \<open>Lists as maps\<close>

lemma set_item_get: "config_get_value l key \<noteq> None \<Longrightarrow> config_get_value (set_item l key v) k = (if k = key then Some v else config_get_value l k)"
  by (induction l) (auto simp: config_get_value_def)

text \<open>Adding an item is the update of a map.\<close>

lemma add_item_update:
  assumes "config_add_item l key v = Done l'"
  shows "config_get_value l' k = (if k = key then Some v else config_get_value l k)"
proof (cases "config_get_value l key = None")
  case True
  with assms have "l' = l @ [(key, v)]" by (simp add: config_add_item_def split: if_splits)
  with True show ?thesis by (auto simp: config_get_value_def find_append split: option.splits)
next
  case False
  with assms have "l' = set_item l key v" by (simp add: config_add_item_def)
  with set_item_get [OF False] show ?thesis by simp
qed

end
