(* ===== verification/Metadata.thy ===== *)
theory Metadata
  imports Trails Config
begin

text \<open>
  \<open>metadata.c\<close>: the user meta data that the cloud holds, mirrored in memory, on disk and in the
  configuration, and the meta data of the device that is collected and uploaded. Results of jsmn
  and of the upload are parameters; log buffers are those of \<open>log.c\<close> by their size. The readers
  of system information (\<open>utils/system.c\<close>) take the contents of the files they read.
\<close>

section \<open>State\<close>

record pv_meta =
  m_key :: string
  m_value :: string
  m_updated :: bool

record pv_metadata =
  usermeta :: "pv_meta list"
  devmeta :: "pv_meta list"
  devmeta_uploaded :: bool

record meta_state =
  ms_meta :: pv_metadata
  ms_config :: pantavisor_config
  ms_disk :: disk

section \<open>Entries\<close>

definition pv_metadata_get_by_key :: "pv_meta list \<Rightarrow> string \<Rightarrow> pv_meta option" where
  "pv_metadata_get_by_key l key = find (\<lambda>m. m_key m = key) l"

fun update_first :: "string \<Rightarrow> (pv_meta \<Rightarrow> pv_meta) \<Rightarrow> pv_meta list \<Rightarrow> pv_meta list" where
  "update_first key f [] = []"
| "update_first key f (m # ms) = (if m_key m = key then f m # ms else m # update_first key f ms)"

definition pv_metadata_add :: "pv_meta list \<Rightarrow> string \<Rightarrow> string \<Rightarrow> int \<times> pv_meta list" where
  "pv_metadata_add l key v = (case pv_metadata_get_by_key l key of
       Some m \<Rightarrow> (if m_value m = v then (0, l) else (1, update_first key (m_value_update (\<lambda>_. v)) l))
     | None \<Rightarrow> (1, \<lparr>m_key = key, m_value = v, m_updated = False\<rparr> # l))"

definition pv_metadata_add_usermeta :: "string \<Rightarrow> string \<Rightarrow> meta_state \<Rightarrow> int \<times> meta_state" where
  "pv_metadata_add_usermeta key v st =
     (let (r, l) = pv_metadata_add (usermeta (ms_meta st)) key v;
          l' = (if r \<ge> 0 then update_first key (m_updated_update (\<lambda>_. True)) l else l);
          st' = st\<lparr>ms_meta := (ms_meta st)\<lparr>usermeta := l'\<rparr>\<rparr> in
      if r > 0
      then (0, st'\<lparr>ms_config := pv_config_override_value key v (ms_config st'),
                  ms_disk := pv_storage_save_usermeta key (Some v) (ms_disk st')\<rparr>)
      else (-1, st'))"

fun remove_first :: "string \<Rightarrow> pv_meta list \<Rightarrow> pv_meta list" where
  "remove_first key [] = []"
| "remove_first key (m # ms) = (if m_key m = key then ms else m # remove_first key ms)"

definition pv_metadata_rm_usermeta :: "string \<Rightarrow> meta_state \<Rightarrow> int \<times> meta_state" where
  "pv_metadata_rm_usermeta key st =
     (case pv_metadata_get_by_key (usermeta (ms_meta st)) key of None \<Rightarrow> (-1, st)
      | Some m \<Rightarrow> (0, st\<lparr>ms_meta := (ms_meta st)\<lparr>usermeta := remove_first key (usermeta (ms_meta st))\<rparr>,
                        ms_disk := pv_storage_rm_usermeta (m_key m) (ms_disk st)\<rparr>))"

section \<open>The user meta data of the cloud\<close>

text \<open>The keys of an object with the type and the text of their values, as jsmn finds them. A
  primitive \<open>null\<close> is passed over.\<close>

type_synonym um_items = "(string \<times> jsmntype \<times> string) list"

fun add_all_usermeta :: "um_items \<Rightarrow> meta_state \<Rightarrow> meta_state" where
  "add_all_usermeta [] st = st"
| "add_all_usermeta ((key, ty, v) # kvs) st =
     add_all_usermeta kvs (if ty \<noteq> JSMN_PRIMITIVE \<or> v \<noteq> ''null'' then snd (pv_metadata_add_usermeta key v st) else st)"

definition pv_usermeta_parse :: "(string \<Rightarrow> jsmntok list) \<Rightarrow> (string \<Rightarrow> um_items) \<Rightarrow> string \<Rightarrow> meta_state \<Rightarrow> meta_state" where
  "pv_usermeta_parse toks keys buf st = (case pv_json_get_value buf ''user-meta'' (toks buf) of None \<Rightarrow> st
     | Some um \<Rightarrow> add_all_usermeta (keys um) st)"

text \<open>Over the list as it was at the start: entries that were not updated are removed by their key.\<close>

fun clear_each :: "pv_meta list \<Rightarrow> meta_state \<Rightarrow> meta_state" where
  "clear_each [] st = st"
| "clear_each (m # ms) st =
     clear_each ms (if m_updated m
       then st\<lparr>ms_meta := (ms_meta st)\<lparr>usermeta := update_first (m_key m) (m_updated_update (\<lambda>_. False)) (usermeta (ms_meta st))\<rparr>\<rparr>
       else snd (pv_metadata_rm_usermeta (m_key m) st))"

definition usermeta_clear :: "meta_state \<Rightarrow> meta_state" where
  "usermeta_clear st = clear_each (usermeta (ms_meta st)) st"

definition pv_metadata_parse_usermeta :: "(string \<Rightarrow> jsmntok list) \<Rightarrow> (string \<Rightarrow> um_items) \<Rightarrow> string \<Rightarrow> meta_state \<Rightarrow> meta_state option" where
  "pv_metadata_parse_usermeta toks keys buf st =
     map_option (\<lambda>esc. usermeta_clear (pv_usermeta_parse toks keys esc st)) (pv_str_unescape_to_ascii buf [BACKSLASH, CHR ''n''] LF)"

section \<open>The meta data of the device\<close>

definition pv_metadata_add_devmeta :: "string \<Rightarrow> string \<Rightarrow> pv_metadata \<Rightarrow> pv_metadata" where
  "pv_metadata_add_devmeta key v md =
     (let (r, l) = pv_metadata_add (devmeta md) key v in
      if r > 0 then md\<lparr>devmeta := update_first key (m_updated_update (\<lambda>_. True)) l, devmeta_uploaded := False\<rparr>
      else md\<lparr>devmeta := l\<rparr>)"

text \<open>The first key of the object and its value, when there is one.\<close>

definition pv_metadata_parse_devmeta :: "(string \<Rightarrow> (string \<times> string) option) \<Rightarrow> string \<Rightarrow> pv_metadata \<Rightarrow> pv_metadata" where
  "pv_metadata_parse_devmeta first_key buf md =
     (case first_key buf of None \<Rightarrow> md | Some (k, v) \<Rightarrow> pv_metadata_add_devmeta k v md)"

text \<open>\<open>get_cpu_model\<close>: the text behind \<open>model name\<close> up to the end of its line. Past the prefix one
  more character is skipped. The last character read makes place for the NUL.\<close>

definition PREFIX_MODEL :: string where "PREFIX_MODEL = ''model name'' @ [CHR 0x09] @ '':''"

definition get_cpu_model :: "string option \<Rightarrow> nat \<Rightarrow> string option" where
  "get_cpu_model cpuinfo buflen = (case cpuinfo of None \<Rightarrow> None
     | Some s \<Rightarrow> (let b = take buflen s in
         if b = [] then None
         else let buf = cstr (butlast b) in
           case strstr buf PREFIX_MODEL of None \<Rightarrow> None
           | Some i \<Rightarrow> (let v = drop (i + length PREFIX_MODEL + 1) buf in
               case strchr v LF of None \<Rightarrow> None | Some j \<Rightarrow> Some (take (buflen - 1) (take j v)))))"

text \<open>The file is read over what the buffer holds (\<open>old\<close>).\<close>

definition get_dt_model :: "string option \<Rightarrow> string \<Rightarrow> nat \<Rightarrow> string option" where
  "get_dt_model model old buflen = map_option (\<lambda>s. cstr (take buflen s @ drop (length (take buflen s)) (old @ [NUL]))) model"

record system_info =
  si_arch :: string
  si_bits :: string
  si_little_endian :: bool
  si_version :: string
  si_dtmodel :: "string option"
  si_cpuinfo :: "string option"

text \<open>The readers in the order of \<open>pv_devmeta_readkeys\<close>; a model that cannot be read is the empty text.\<close>

definition or_empty :: "string option \<Rightarrow> string" where
  "or_empty so = (case so of None \<Rightarrow> [] | Some s \<Rightarrow> s)"

definition devmeta_values :: "system_info \<Rightarrow> nat \<Rightarrow> string \<Rightarrow> bool \<Rightarrow> bool \<Rightarrow> bool \<Rightarrow> (string \<times> string) list" where
  "devmeta_values si n rv remote online unclaimed = (let fmt = (\<lambda>s. take (n - 1) s) in
     [(''pantavisor.arch'', fmt (si_arch si @ ''/'' @ si_bits si @ ''/'' @ (if si_little_endian si then ''EL'' else ''EB''))),
      (''pantavisor.version'', fmt (si_version si)),
      (''pantavisor.dtmodel'', or_empty (get_dt_model (si_dtmodel si) (fmt (si_version si)) n)),
      (''pantavisor.cpumodel'', or_empty (get_cpu_model (si_cpuinfo si) n)),
      (''pantavisor.revision'', fmt rv),
      (''pantavisor.mode'', fmt (if remote then ''remote'' else ''local'')),
      (''pantahub.online'', fmt (if online then ''1'' else ''0'')),
      (''pantahub.claimed'', fmt (if unclaimed then ''0'' else ''1''))])"

text \<open>\<open>bufsize\<close>: the size of the log buffer, \<open>None\<close> when there is none to be had.\<close>

definition pv_metadata_init_devmeta :: "nat option \<Rightarrow> system_info \<Rightarrow> string \<Rightarrow> bool \<Rightarrow> bool \<Rightarrow> bool \<Rightarrow> pv_metadata \<Rightarrow> int \<times> pv_metadata" where
  "pv_metadata_init_devmeta bufsize si rv remote online unclaimed md = (case bufsize of None \<Rightarrow> (-1, md)
     | Some n \<Rightarrow> (0, (foldl (\<lambda>md (k, v). pv_metadata_add_devmeta k v md) md
         (if n = 0 then [] else devmeta_values si n rv remote online unclaimed))\<lparr>devmeta_uploaded := False\<rparr>))"

section \<open>Fragments in a buffer\<close>

text \<open>A fragment is appended when it is shorter than what is left of the buffer.\<close>

definition frag_string :: "string \<Rightarrow> string \<Rightarrow> string" where
  "frag_string k v = quoted k @ '':'' @ quoted v @ '',''"

definition frag_json :: "string \<Rightarrow> string \<Rightarrow> string" where
  "frag_json k v = quoted k @ '':'' @ v @ '',''"

definition put_frag :: "string \<Rightarrow> string \<times> int \<Rightarrow> string \<times> int" where
  "put_frag frag ba = (case ba of (b, avail) \<Rightarrow>
     if avail > int (length frag) then (b @ frag, avail - int (length frag)) else (b, avail))"

definition devmeta_frag :: "pv_meta \<Rightarrow> string option" where
  "devmeta_frag m = (case (pv_json_format (m_key m) (length (m_key m)), pv_json_format (m_value m) (length (m_value m))) of
       (Some k, Some v) \<Rightarrow> Some (if hd (m_value m) \<noteq> CHR ''{'' then frag_string k v else frag_json (m_key m) (m_value m))
     | _ \<Rightarrow> None)"

fun put_devmeta :: "pv_meta list \<Rightarrow> string \<times> int \<Rightarrow> string \<times> int" where
  "put_devmeta [] ba = ba"
| "put_devmeta (m # ms) ba =
     put_devmeta ms (if \<not> m_updated m then ba else case devmeta_frag m of None \<Rightarrow> ba | Some f \<Rightarrow> put_frag f ba)"

text \<open>The text that is uploaded: the last comma gives way to the brace.\<close>

definition close_brace :: "string \<Rightarrow> string" where
  "close_brace b = butlast b @ ''}''"

definition devmeta_json :: "nat \<Rightarrow> pv_metadata \<Rightarrow> string" where
  "devmeta_json bufsize md = close_brace (fst (put_devmeta (devmeta md) (''{'', int bufsize - 1)))"

text \<open>\<open>upload\<close>: the result of \<open>pv_ph_upload_metadata\<close>, 0 for success.\<close>

definition pv_metadata_upload_devmeta :: "nat option \<Rightarrow> (string \<Rightarrow> int) \<Rightarrow> pv_metadata \<Rightarrow> int \<times> pv_metadata" where
  "pv_metadata_upload_devmeta bufsize upload md = (case bufsize of None \<Rightarrow> (-1, md)
     | Some n \<Rightarrow> (0, if devmeta_uploaded md \<or> upload (devmeta_json n md) \<noteq> 0 then md
          else md\<lparr>devmeta_uploaded := True, devmeta := map (m_updated_update (\<lambda>_. False)) (devmeta md)\<rparr>))"

section \<open>Factory meta data\<close>

definition basename :: "string \<Rightarrow> string" where
  "basename p = (case strrchr p CHR ''/'' of None \<Rightarrow> p | Some i \<Rightarrow> drop (i + 1) p)"

definition on_factory_meta_iterate :: "string \<Rightarrow> string \<Rightarrow> string \<Rightarrow> string \<times> int \<Rightarrow> bool \<times> string \<times> int" where
  "on_factory_meta_iterate file key v ba =
     (let abs_key = ''factory/'' @ basename file @ ''/'' @ key in
      case (pv_json_format abs_key (length abs_key), pv_json_format v (length v)) of
        (Some k, Some w) \<Rightarrow> (\<not> snd ba > int (length (frag_string k w)), put_frag (frag_string k w) ba)
      | _ \<Rightarrow> (True, ba))"

definition factory_meta_file :: "nat option \<Rightarrow> (string \<Rightarrow> int) \<Rightarrow> disk \<Rightarrow> string \<Rightarrow> int outcome" where
  "factory_meta_file bufsize upload d file =
     (case load_key_value_file (read_file d (comps file)) [] of Fault \<Rightarrow> Fault
      | Done (r, l) \<Rightarrow> (if r < 0 then Done r
          else case bufsize of None \<Rightarrow> Done r
           | Some n \<Rightarrow> Done (upload (close_brace (fst (config_iterate_items l (on_factory_meta_iterate file) (''{'', int n - 1)))))))"

text \<open>The files of the directory, last first, up to the first that fails.\<close>

fun factory_meta_files :: "nat option \<Rightarrow> (string \<Rightarrow> int) \<Rightarrow> disk \<Rightarrow> string \<Rightarrow> string list \<Rightarrow> bool outcome" where
  "factory_meta_files bufsize upload d dir [] = Done False"
| "factory_meta_files bufsize upload d dir (c # cs) =
     (let file = dir @ ''/'' @ c in
      if read_file d (comps file) = None then factory_meta_files bufsize upload d dir cs
      else case factory_meta_file bufsize upload d file of Fault \<Rightarrow> Fault
        | Done r \<Rightarrow> (if r \<noteq> 0 then Done True else factory_meta_files bufsize upload d dir cs))"

definition factory_done :: "sconfig \<Rightarrow> string" where
  "factory_done g = g_mnt g @ ''/trails/0/.pv/factory-meta.done''"

definition pv_metadata_factory_meta :: "nat option \<Rightarrow> (string \<Rightarrow> int) \<Rightarrow> sconfig \<Rightarrow> disk \<Rightarrow> (int \<times> disk) outcome" where
  "pv_metadata_factory_meta bufsize upload g d =
     (let dir = take 127 (g_mnt g @ ''/factory/meta'') in
      case factory_meta_files bufsize upload d dir (case scandir d (comps dir) of None \<Rightarrow> [] | Some ns \<Rightarrow> rev ns) of
        Fault \<Rightarrow> Fault
      | Done failed \<Rightarrow> (if failed then Done (-1, d)
          else Done (0, case open_creat (comps (factory_done g)) d of None \<Rightarrow> d | Some (i, d') \<Rightarrow> d')))"

definition pv_metadata_factory_meta_done :: "sconfig \<Rightarrow> disk \<Rightarrow> pv_state \<Rightarrow> bool" where
  "pv_metadata_factory_meta_done g d s \<longleftrightarrow>
     (if \<not> strneq (s_rev s) ''0'' (length (s_rev s) + 1) then True else exists_at d (comps (factory_done g)))"

section \<open>Starting up, and the lists as JSON\<close>

fun load_each_usermeta :: "nat \<Rightarrow> string list \<Rightarrow> meta_state \<Rightarrow> meta_state" where
  "load_each_usermeta stale [] st = st"
| "load_each_usermeta stale (c # cs) st =
     load_each_usermeta stale cs
       (if strneq c ''..'' 2 \<or> strneq c ''.'' 1 then st
        else case pv_storage_load_file stale (ms_disk st) (usermeta_key c) 4096 of None \<Rightarrow> st
          | Some v \<Rightarrow> snd (pv_metadata_add_usermeta c v st))"

definition pv_metadata_load_usermeta :: "nat \<Rightarrow> meta_state \<Rightarrow> meta_state" where
  "pv_metadata_load_usermeta stale st =
     load_each_usermeta stale (pv_storage_get_subdir (ms_disk st) ''/pv/user-meta'' [] []) st"

definition pv_metadata_init :: "nat \<Rightarrow> meta_state \<Rightarrow> meta_state" where
  "pv_metadata_init stale st =
     pv_metadata_load_usermeta stale (st\<lparr>ms_meta := \<lparr>usermeta = [], devmeta = [], devmeta_uploaded = True\<rparr>\<rparr>)"

definition pv_metadata_init_usermeta :: "pv_state \<Rightarrow> disk \<Rightarrow> disk" where
  "pv_metadata_init_usermeta s d = foldl (\<lambda>d p. pv_storage_init_plat_usermeta (p_name p) d) d (s_platforms s)"

text \<open>The key is not escaped; an empty value has no escaped text and is left out.\<close>

definition meta_line :: "pv_meta \<Rightarrow> string" where
  "meta_line m = (if m_value m \<noteq> [] \<and> hd (m_value m) = CHR ''{'' then frag_json (m_key m) (m_value m)
     else case pv_json_format (m_value m) (length (m_value m)) of None \<Rightarrow> [] | Some e \<Rightarrow> frag_string (m_key m) e)"

definition pv_metadata_get_meta_string :: "pv_meta list \<Rightarrow> string" where
  "pv_metadata_get_meta_string l = (if l = [] then ''{}'' else close_brace (''{'' @ concat (map meta_line l)))"

definition pv_metadata_get_user_meta_string :: "pv_metadata \<Rightarrow> string" where
  "pv_metadata_get_user_meta_string md = pv_metadata_get_meta_string (usermeta md)"

definition pv_metadata_get_device_meta_string :: "pv_metadata \<Rightarrow> string" where
  "pv_metadata_get_device_meta_string md = pv_metadata_get_meta_string (devmeta md)"

section \<open>The mirror follows the cloud\<close>

definition meta_map :: "pv_meta list \<Rightarrow> string \<Rightarrow> string option" where
  "meta_map l k = map_option m_value (pv_metadata_get_by_key l k)"

definition meta_flag :: "pv_meta list \<Rightarrow> string \<Rightarrow> bool" where
  "meta_flag l k \<longleftrightarrow> (\<exists>m. pv_metadata_get_by_key l k = Some m \<and> m_updated m)"

definition keys_of :: "pv_meta list \<Rightarrow> string list" where
  "keys_of l = map m_key l"

lemma get_None: "pv_metadata_get_by_key l k = None \<longleftrightarrow> k \<notin> set (keys_of l)"
  by (auto simp: pv_metadata_get_by_key_def find_None_iff keys_of_def)

lemma get_key: "pv_metadata_get_by_key l k = Some m \<Longrightarrow> m_key m = k"
  by (auto simp: pv_metadata_get_by_key_def dest: find_Some_in)

lemma get_update:
  assumes "\<And>m. m_key (f m) = m_key m"
  shows "pv_metadata_get_by_key (update_first key f l) k =
    (if k = key then map_option f (pv_metadata_get_by_key l k) else pv_metadata_get_by_key l k)"
  by (induction l) (auto simp: pv_metadata_get_by_key_def assms)

lemma keys_update: "(\<And>m. m_key (f m) = m_key m) \<Longrightarrow> keys_of (update_first key f l) = keys_of l"
  by (induction l) (auto simp: keys_of_def)

text \<open>One entry of the cloud.\<close>

lemma add_usermeta_result:
  fixes st :: meta_state and key v :: string
  defines "l \<equiv> usermeta (ms_meta st)" and "l' \<equiv> usermeta (ms_meta (snd (pv_metadata_add_usermeta key v st)))"
  assumes "distinct (keys_of l)"
  shows "distinct (keys_of l')" and "meta_map l' k = (if k = key then Some v else meta_map l k)"
    and "meta_flag l' k \<longleftrightarrow> k = key \<or> meta_flag l k"
proof -
  define a where "a = snd (pv_metadata_add l key v)"
  have r: "fst (pv_metadata_add l key v) \<ge> 0"
    by (simp add: pv_metadata_add_def split: option.split)
  have l': "l' = update_first key (m_updated_update (\<lambda>_. True)) a"
    using r by (simp add: l'_def l_def a_def pv_metadata_add_usermeta_def split_beta Let_def)
  have a: "distinct (keys_of a) \<and> pv_metadata_get_by_key a key \<noteq> None \<and>
      meta_map a k = (if k = key then Some v else meta_map l k) \<and> (k \<noteq> key \<longrightarrow> pv_metadata_get_by_key a k = pv_metadata_get_by_key l k)" for k
  proof (cases "pv_metadata_get_by_key l key")
    case None
    then have "a = \<lparr>m_key = key, m_value = v, m_updated = False\<rparr> # l" by (simp add: a_def pv_metadata_add_def)
    moreover have "key \<notin> set (keys_of l)" using None get_None by simp
    ultimately show ?thesis using assms(3) by (simp add: keys_of_def meta_map_def pv_metadata_get_by_key_def)
  next
    case (Some m)
    then have "a = (if m_value m = v then l else update_first key (m_value_update (\<lambda>_. v)) l)"
      by (simp add: a_def pv_metadata_add_def)
    then show ?thesis using Some assms(3) by (auto simp: get_update keys_update meta_map_def)
  qed
  show "distinct (keys_of l')" using a by (simp add: l' keys_update)
  show "meta_map l' k = (if k = key then Some v else meta_map l k)"
    using a [of k] by (auto simp: l' meta_map_def get_update option.map_comp comp_def)
  show "meta_flag l' k \<longleftrightarrow> k = key \<or> meta_flag l k"
    using a [of k] by (auto simp: l' meta_flag_def get_update)
qed

text \<open>The entries that count, and what they say of a key: the last one wins.\<close>

definition um_entries :: "um_items \<Rightarrow> (string \<times> string) list" where
  "um_entries kvs = map (\<lambda>(k, ty, v). (k, v)) (filter (\<lambda>(k, ty, v). ty \<noteq> JSMN_PRIMITIVE \<or> v \<noteq> ''null'') kvs)"

definition cloud_map :: "um_items \<Rightarrow> string \<Rightarrow> string option" where
  "cloud_map kvs = map_of (rev (um_entries kvs))"

lemma cloud_map_Cons:
  "cloud_map ((k, ty, v) # kvs) x = (case cloud_map kvs x of Some w \<Rightarrow> Some w
     | None \<Rightarrow> if (ty \<noteq> JSMN_PRIMITIVE \<or> v \<noteq> ''null'') \<and> x = k then Some v else None)"
  by (auto simp: cloud_map_def um_entries_def map_add_def split: option.splits)

lemma add_all_result:
  assumes "distinct (keys_of (usermeta (ms_meta st)))"
  shows "distinct (keys_of (usermeta (ms_meta (add_all_usermeta kvs st)))) \<and>
    meta_map (usermeta (ms_meta (add_all_usermeta kvs st))) k =
      (case cloud_map kvs k of Some v \<Rightarrow> Some v | None \<Rightarrow> meta_map (usermeta (ms_meta st)) k) \<and>
    (meta_flag (usermeta (ms_meta (add_all_usermeta kvs st))) k \<longleftrightarrow> cloud_map kvs k \<noteq> None \<or> meta_flag (usermeta (ms_meta st)) k)"
  using assms
proof (induction kvs arbitrary: st)
  case Nil
  then show ?case by (simp add: cloud_map_def um_entries_def)
next
  case (Cons x kvs)
  obtain key ty v where x: "x = (key, ty, v)" by (cases x)
  show ?case
  proof (cases "ty \<noteq> JSMN_PRIMITIVE \<or> v \<noteq> ''null''")
    case True
    let ?st = "snd (pv_metadata_add_usermeta key v st)"
    note r = add_usermeta_result [OF Cons.prems, of key v]
    have step: "add_all_usermeta (x # kvs) st = add_all_usermeta kvs ?st" using True x by auto
    show ?thesis
      unfolding step using Cons.IH [OF r(1)] True by (auto simp: r(2,3) x cloud_map_Cons split: option.splits)
  next
    case False
    then show ?thesis using Cons.IH [OF Cons.prems] by (simp add: x cloud_map_Cons split: option.split)
  qed
qed

text \<open>Clearing keeps the updated entries and takes their flag.\<close>

lemma update_first_mid: "distinct (keys_of (us @ m # vs)) \<Longrightarrow> update_first (m_key m) f (us @ m # vs) = us @ f m # vs"
  by (induction us) (auto simp: keys_of_def)

lemma remove_first_mid: "distinct (keys_of (us @ m # vs)) \<Longrightarrow> remove_first (m_key m) (us @ m # vs) = us @ vs"
  by (induction us) (auto simp: keys_of_def)

lemma get_mid: "distinct (keys_of (us @ m # vs)) \<Longrightarrow> pv_metadata_get_by_key (us @ m # vs) (m_key m) = Some m"
  by (induction us) (auto simp: keys_of_def pv_metadata_get_by_key_def)

lemma clear_each_result:
  assumes "usermeta (ms_meta st) = us @ ms" "distinct (keys_of (us @ ms))"
  shows "usermeta (ms_meta (clear_each ms st)) = us @ map (m_updated_update (\<lambda>_. False)) (filter m_updated ms)"
  using assms
proof (induction ms arbitrary: us st)
  case Nil
  then show ?case by simp
next
  case (Cons m ms)
  let ?m = "m\<lparr>m_updated := False\<rparr>"
  show ?case
  proof (cases "m_updated m")
    case True
    let ?st = "st\<lparr>ms_meta := (ms_meta st)\<lparr>usermeta := update_first (m_key m) (m_updated_update (\<lambda>_. False)) (usermeta (ms_meta st))\<rparr>\<rparr>"
    have "usermeta (ms_meta ?st) = (us @ [?m]) @ ms" using Cons.prems update_first_mid by simp
    moreover have "distinct (keys_of ((us @ [?m]) @ ms))" using Cons.prems(2) by (simp add: keys_of_def)
    ultimately have "usermeta (ms_meta (clear_each ms ?st)) = (us @ [?m]) @ map (m_updated_update (\<lambda>_. False)) (filter m_updated ms)"
      by (rule Cons.IH)
    with True show ?thesis by simp
  next
    case False
    let ?st = "snd (pv_metadata_rm_usermeta (m_key m) st)"
    have "usermeta (ms_meta ?st) = us @ ms"
      using Cons.prems get_mid remove_first_mid by (simp add: pv_metadata_rm_usermeta_def)
    moreover have "distinct (keys_of (us @ ms))" using Cons.prems(2) by (simp add: keys_of_def)
    ultimately have "usermeta (ms_meta (clear_each ms ?st)) = us @ map (m_updated_update (\<lambda>_. False)) (filter m_updated ms)"
      by (rule Cons.IH)
    with False show ?thesis by simp
  qed
qed

lemma get_cleared:
  assumes "distinct (keys_of l)"
  shows "pv_metadata_get_by_key (map (m_updated_update (\<lambda>_. False)) (filter m_updated l)) k =
    (case pv_metadata_get_by_key l k of None \<Rightarrow> None | Some m \<Rightarrow> if m_updated m then Some (m\<lparr>m_updated := False\<rparr>) else None)"
  using assms
proof (induction l)
  case Nil
  then show ?case by (simp add: pv_metadata_get_by_key_def)
next
  case (Cons m l)
  then have IH: "pv_metadata_get_by_key (map (m_updated_update (\<lambda>_. False)) (filter m_updated l)) k =
    (case pv_metadata_get_by_key l k of None \<Rightarrow> None | Some m \<Rightarrow> if m_updated m then Some (m\<lparr>m_updated := False\<rparr>) else None)"
    and "m_key m \<notin> set (keys_of l)" by (simp_all add: keys_of_def)
  then have "pv_metadata_get_by_key l (m_key m) = None" using get_None by simp
  with IH show ?case
    by (cases "m_updated m"; cases "m_key m = k") (auto simp: pv_metadata_get_by_key_def)
qed

lemma clear_map:
  assumes "distinct (keys_of l)"
  shows "meta_map (map (m_updated_update (\<lambda>_. False)) (filter m_updated l)) k = (if meta_flag l k then meta_map l k else None)"
  by (simp add: meta_map_def meta_flag_def get_cleared [OF assms] split: option.split)

text \<open>The state between two answers of the cloud: keys are unique and no flag is set.\<close>

definition meta_settled :: "meta_state \<Rightarrow> bool" where
  "meta_settled st \<longleftrightarrow> distinct (keys_of (usermeta (ms_meta st))) \<and> (\<forall>m\<in>set (usermeta (ms_meta st)). \<not> m_updated m)"

lemma settled_flag: "meta_settled st \<Longrightarrow> \<not> meta_flag (usermeta (ms_meta st)) k"
  by (auto simp: meta_settled_def meta_flag_def pv_metadata_get_by_key_def dest: find_Some_in)

lemma clear_settled:
  assumes "distinct (keys_of (usermeta (ms_meta st)))"
  shows "meta_settled (usermeta_clear st)"
    and "meta_map (usermeta (ms_meta (usermeta_clear st))) k =
      (if meta_flag (usermeta (ms_meta st)) k then meta_map (usermeta (ms_meta st)) k else None)"
proof -
  have u: "usermeta (ms_meta (usermeta_clear st)) = map (m_updated_update (\<lambda>_. False)) (filter m_updated (usermeta (ms_meta st)))"
    unfolding usermeta_clear_def using clear_each_result [of st "[]"] assms by simp
  have "map m_key (map (m_updated_update (\<lambda>_. False)) xs) = map m_key xs" for xs by simp
  then have "keys_of (usermeta (ms_meta (usermeta_clear st))) = map m_key (filter m_updated (usermeta (ms_meta st)))"
    unfolding u keys_of_def .
  then show "meta_settled (usermeta_clear st)"
    using assms unfolding meta_settled_def by (simp add: keys_of_def distinct_map_filter) (auto simp: u)
  show "meta_map (usermeta (ms_meta (usermeta_clear st))) k =
      (if meta_flag (usermeta (ms_meta st)) k then meta_map (usermeta (ms_meta st)) k else None)"
    unfolding u by (rule clear_map [OF assms])
qed


text \<open>An example: one entry goes, one changes, one is new.\<close>

definition ex_meta_state :: meta_state where
  "ex_meta_state = \<lparr>ms_meta = \<lparr>usermeta = [\<lparr>m_key = ''a'', m_value = ''1'', m_updated = False\<rparr>, \<lparr>m_key = ''b'', m_value = ''2'', m_updated = False\<rparr>],
     devmeta = [], devmeta_uploaded = True\<rparr>, ms_config = ex_config, ms_disk = ex_meta_disk\<rparr>"

definition ex_answer :: string where
  "ex_answer = ''{'' @ quoted ''user-meta'' @ '':{'' @ quoted ''b'' @ '':'' @ quoted ''3'' @ '','' @ quoted ''c'' @ '':4,'' @ quoted ''d'' @ '':null}}''"

definition ex_tokens :: "string \<Rightarrow> jsmntok list" where
  "ex_tokens s = [\<lparr>tk_type = JSMN_OBJECT, tk_start = 0, tk_end = 38, tk_size = 1\<rparr>, \<lparr>tk_type = JSMN_STRING, tk_start = 2, tk_end = 11, tk_size = 1\<rparr>,
     \<lparr>tk_type = JSMN_OBJECT, tk_start = 13, tk_end = 37, tk_size = 3\<rparr>]"


section \<open>What is uploaded fits its buffer\<close>

lemma put_frag_room:
  assumes "put_frag f (b, av) = (b', av')" "0 < av"
  shows "0 < av' \<and> int (length b') + av' = int (length b) + av \<and> length b \<le> length b'"
  using assms by (auto simp: put_frag_def split: if_splits)

lemma put_devmeta_room:
  assumes "put_devmeta ms (b, av) = (b', av')" "0 < av"
  shows "0 < av' \<and> int (length b') + av' = int (length b) + av \<and> length b \<le> length b'"
  using assms
proof (induction ms arbitrary: b av)
  case Nil
  then show ?case by simp
next
  case (Cons m ms)
  obtain b1 av1 where one: "(if \<not> m_updated m then (b, av) else case devmeta_frag m of None \<Rightarrow> (b, av) | Some f \<Rightarrow> put_frag f (b, av)) = (b1, av1)"
    by (meson surj_pair)
  then have "0 < av1 \<and> int (length b1) + av1 = int (length b) + av \<and> length b \<le> length b1"
    using put_frag_room [of _ b av b1 av1] Cons.prems(2) by (auto split: if_splits option.splits)
  moreover have "put_devmeta ms (b1, av1) = (b', av')" using Cons.prems(1) one by simp
  ultimately show ?case using Cons.IH [of b1 av1] by auto
qed

text \<open>C2: The text of the device's meta data that is uploaded, with its NUL, fits the log buffer it is
  written to, however many entries there are and however long they get when they are escaped.\<close>

theorem devmeta_fits_buffer:
  assumes "2 \<le> n"
  shows "length (devmeta_json n md) + 1 \<le> n"
proof -
  obtain b av where b: "put_devmeta (devmeta md) (''{'', int n - 1) = (b, av)" by (meson surj_pair)
  then have "0 < av \<and> int (length b) + av = 1 + (int n - 1) \<and> 1 \<le> length b"
    using put_devmeta_room [OF b] assms by simp
  then have "1 \<le> length b" "length b < n" by linarith+
  then show ?thesis by (simp add: devmeta_json_def close_brace_def b)
qed

theorem devmeta_fits_buffer_witness: "length (devmeta_json 2 (ms_meta ex_meta_state)) + 1 \<le> 2"
  using devmeta_fits_buffer [of 2] by simp

section \<open>The lists as JSON objects\<close>

definition meta_body :: "pv_meta \<Rightarrow> string" where
  "meta_body m = butlast (meta_line m)"

interpretation meta_lines: json_lines meta_line meta_body "\<lambda>m. m_value m \<noteq> []"
proof
  fix m :: pv_meta
  assume ne: "m_value m \<noteq> []"
  then obtain e where "pv_json_format (m_value m) (length (m_value m)) = Some e" by (simp add: pv_json_format_def)
  then have "\<exists>b. meta_line m = b @ '',''"
    by (simp add: meta_line_def frag_json_def frag_string_def quoted_def del: append_assoc)
  then show "meta_line m = meta_body m @ '',''" by (auto simp: meta_body_def)
qed

lemma meta_string_object:
  assumes "l \<noteq> []" "list_all (\<lambda>m. m_value m \<noteq> []) l"
  shows "pv_metadata_get_meta_string l = ''{'' @ join '','' (map meta_body l) @ ''}''"
  using meta_lines.lines_joined [OF assms] assms(1)
  by (simp add: pv_metadata_get_meta_string_def close_brace_def butlast_append)

end
