(* ===== verification/Ctrl.thy ===== *)
theory Ctrl
  imports Metadata Controller
begin

text \<open>
  \<open>ctrl.c\<close>: the control socket. A request is a command, or an HTTP request that reads or writes
  objects, revisions and user meta data. The socket is the list of what its reads yield, \<open>None\<close> for a
  read that fails; what is written to it is collected, since a failing write is only logged. The
  HTTP parser picohttpparser and jsmn are parameters. \<open>size_t\<close> has 64 bits.
\<close>

section \<open>The socket\<close>

type_synonym sock = "string option list"

definition sock_read :: "nat \<Rightarrow> sock \<Rightarrow> int \<times> string \<times> sock" where
  "sock_read n s = (case s of [] \<Rightarrow> (0, [], [])
     | None # s' \<Rightarrow> (-1, [], s')
     | Some c # s' \<Rightarrow> (if n = 0 then (0, [], s)
         else (int (length (take n c)), take n c, if length c \<le> n then s' else Some (drop n c) # s')))"

section \<open>State and environment of a request\<close>

text \<open>\<open>path\<close> and \<open>method\<close> point into the request, so that text follows after their length. A header is
  its name's text, the length of the name and its value's text.\<close>

record http_request =
  rq_method :: string
  rq_method_len :: nat
  rq_path :: string
  rq_path_len :: nat
  rq_headers :: "(string \<times> nat \<times> string) list"

record cstate =
  ct_sock :: sock
  ct_out :: string
  ct_storage :: storage
  ct_meta :: pv_metadata
  ct_config :: pantavisor_config

record cenv =
  e_g :: sconfig
  e_phr :: "string \<Rightarrow> http_request option"
  e_toks :: "string \<Rightarrow> jsmntok list"
  e_sha256 :: "string \<Rightarrow> nat list"
  e_clock :: clock
  e_stale :: nat
  e_date :: "string \<Rightarrow> string"
  e_manifest :: string
  e_sent :: "nat list"
  e_remote_mode :: bool
  e_updating :: bool
  e_unclaimed :: bool

definition ct_disk :: "cstate \<Rightarrow> disk" where
  "ct_disk c = st_disk (ct_storage c)"

definition set_disk :: "disk \<Rightarrow> cstate \<Rightarrow> cstate" where
  "set_disk d c = c\<lparr>ct_storage := (ct_storage c)\<lparr>st_disk := d\<rparr>\<rparr>"

definition ct_write :: "string \<Rightarrow> cstate \<Rightarrow> cstate" where
  "ct_write s c = c\<lparr>ct_out := ct_out c @ s\<rparr>"

definition HTTP_REQ_BUFFER_SIZE :: nat where "HTTP_REQ_BUFFER_SIZE = 4096"

definition HTTP_RES_OK :: string where "HTTP_RES_OK = ''HTTP/1.1 200 OK'' @ [CR, LF, CR, LF]"
definition HTTP_RES_CONT :: string where "HTTP_RES_CONT = ''HTTP/1.1 100 Continue'' @ [CR, LF, CR, LF]"

section \<open>Responses\<close>

datatype http_status = HTTP_STATUS_BAD_REQ | HTTP_STATUS_NOT_FOUND | HTTP_STATUS_CONFLICT | HTTP_STATUS_ERROR

fun pv_ctrl_string_http_status_code :: "http_status \<Rightarrow> string" where
  "pv_ctrl_string_http_status_code HTTP_STATUS_BAD_REQ = ''400 Bad Request''"
| "pv_ctrl_string_http_status_code HTTP_STATUS_NOT_FOUND = ''404 Not Found''"
| "pv_ctrl_string_http_status_code HTTP_STATUS_CONFLICT = ''409 Conflict''"
| "pv_ctrl_string_http_status_code HTTP_STATUS_ERROR = ''500 Internal Server Error''"

definition HTTP_RESPONSE :: "string \<Rightarrow> int \<Rightarrow> string \<Rightarrow> string" where
  "HTTP_RESPONSE status len message =
     ''HTTP/1.1 '' @ status @ '' '' @ [CR, LF] @ ''Content-Length: '' @ show_int len @ [CR, LF] @
     ''Content-Type: application/json; charset=utf-8'' @ [CR, LF, CR, LF] @
     ''{'' @ quoted ''Error'' @ '':'' @ quoted message @ ''}'' @ [CR, LF]"

text \<open>\<open>snprintf\<close> leaves one character less than the size, and the whole allocation is written.\<close>

definition response_bytes :: "http_status \<Rightarrow> string \<Rightarrow> string" where
  "response_bytes code message =
     (let st = pv_ctrl_string_http_status_code code; content_len = 12 + int (length message);
          response_len = 91 + length st + nat (get_digit_count content_len) + length message;
          b = take (response_len - 1) (HTTP_RESPONSE st content_len message) in
      if response_len > HTTP_REQ_BUFFER_SIZE then [] else b @ replicate (response_len - length b) NUL)"

definition pv_ctrl_write_response :: "http_status \<Rightarrow> string \<Rightarrow> cstate \<Rightarrow> cstate" where
  "pv_ctrl_write_response code message c = ct_write (response_bytes code message) c"

section \<open>Commands\<close>

fun pv_ctrl_string_cmd_operation :: "cmd_op \<Rightarrow> string" where
  "pv_ctrl_string_cmd_operation CMD_UPDATE_METADATA = ''UPDATE_METADATA''"
| "pv_ctrl_string_cmd_operation CMD_REBOOT_DEVICE = ''REBOOT_DEVICE''"
| "pv_ctrl_string_cmd_operation CMD_POWEROFF_DEVICE = ''POWEROFF_DEVICE''"
| "pv_ctrl_string_cmd_operation CMD_TRY_ONCE = ''TRY_ONCE''"
| "pv_ctrl_string_cmd_operation CMD_LOCAL_RUN = ''LOCAL_RUN''"
| "pv_ctrl_string_cmd_operation CMD_MAKE_FACTORY = ''MAKE_FACTORY''"
| "pv_ctrl_string_cmd_operation CMD_RUN_GC = ''RUN_GC''"

definition pv_ctrl_int_cmd_operation :: "string \<Rightarrow> nat \<Rightarrow> cmd_op option" where
  "pv_ctrl_int_cmd_operation op_string n = find (\<lambda>op. strneq op_string (pv_ctrl_string_cmd_operation op) n)
     [CMD_UPDATE_METADATA, CMD_REBOOT_DEVICE, CMD_POWEROFF_DEVICE, CMD_TRY_ONCE, CMD_LOCAL_RUN, CMD_MAKE_FACTORY, CMD_RUN_GC]"

definition pv_ctrl_parse_command :: "(string \<Rightarrow> jsmntok list) \<Rightarrow> string \<Rightarrow> cmd option" where
  "pv_ctrl_parse_command toks buf =
     (case pv_json_get_value buf ''op'' (toks buf) of None \<Rightarrow> None
      | Some s \<Rightarrow> (case pv_ctrl_int_cmd_operation s (length s) of None \<Rightarrow> None
          | Some op \<Rightarrow> map_option (\<lambda>payload. (op, payload)) (pv_json_get_value buf ''payload'' (toks buf))))"

definition pv_ctrl_process_cmd :: "cenv \<Rightarrow> 64 word \<Rightarrow> cstate \<Rightarrow> cmd option \<times> cstate" where
  "pv_ctrl_process_cmd e content_length c =
     (if unat content_length \<ge> HTTP_REQ_BUFFER_SIZE then (None, c)
      else case sock_read (unat content_length) (ct_sock c) of (r, b, s) \<Rightarrow>
        (if r \<le> 0 then None else pv_ctrl_parse_command (e_toks e) (cstr b), c\<lparr>ct_sock := s\<rparr>))"

text \<open>A command that is refused is answered and dropped.\<close>

definition cmd_conflict :: "cenv \<Rightarrow> cmd_op \<Rightarrow> string option" where
  "cmd_conflict e op =
     (if \<not> e_remote_mode e \<and> op = CMD_UPDATE_METADATA then Some ''Cannot do this operation while on local mode''
      else if e_updating e \<and> op \<in> {CMD_REBOOT_DEVICE, CMD_POWEROFF_DEVICE, CMD_LOCAL_RUN, CMD_MAKE_FACTORY}
        then Some ''Cannot do this operation while update is ongoing''
      else if \<not> e_unclaimed e \<and> op = CMD_MAKE_FACTORY then Some ''Cannot do this operation if device is already claimed''
      else None)"

definition pv_ctrl_check_command :: "cenv \<Rightarrow> cmd option \<Rightarrow> cstate \<Rightarrow> int \<times> cmd option \<times> cstate" where
  "pv_ctrl_check_command e cmd c = (case cmd of None \<Rightarrow> (-1, None, c)
     | Some (op, payload) \<Rightarrow> (case cmd_conflict e op of
           Some msg \<Rightarrow> (-1, None, pv_ctrl_write_response HTTP_STATUS_CONFLICT msg c)
         | None \<Rightarrow> (0, cmd, c)))"

section \<open>Files\<close>

text \<open>\<open>write\<close> at the end of the open file.\<close>

definition append_fd :: "nat \<Rightarrow> string \<Rightarrow> disk \<Rightarrow> disk" where
  "append_fd i s d = d\<lparr>d_data := (d_data d)(i := d_data d i @ s)\<rparr>"

function put_loop :: "nat \<Rightarrow> nat \<Rightarrow> sock \<Rightarrow> disk \<Rightarrow> bool \<times> sock \<times> disk" where
  "put_loop n i s d =
     (if n = 0 then (True, s, d)
      else case sock_read (min n HTTP_REQ_BUFFER_SIZE) s of (r, b, s') \<Rightarrow>
        (if r \<le> 0 then (False, s', d) else put_loop (n - nat r) i s' (append_fd i b d)))"
  by pat_completeness auto
termination by (relation "measure (\<lambda>(n, i, s, d). n)") auto

declare put_loop.simps [simp del]

definition pv_ctrl_process_put_file :: "64 word \<Rightarrow> string \<Rightarrow> cstate \<Rightarrow> int \<times> cstate" where
  "pv_ctrl_process_put_file content_length file_path c0 =
     (let c = ct_write HTTP_RES_CONT c0; p = comps file_path; d = ct_disk c in
      case may_add d p of
        Some err \<Rightarrow> (let c' = pv_ctrl_write_response HTTP_STATUS_ERROR ''Cannot create file'' c in
          (-1, if err = EEXIST then c' else set_disk (snd (remove p d)) c'))
      | None \<Rightarrow> (case open_creat p d of None \<Rightarrow> (-1, pv_ctrl_write_response HTTP_STATUS_ERROR ''Cannot create file'' c)
          | Some (i, d1) \<Rightarrow> (case put_loop (unat content_length) i (ct_sock c) d1 of (ok, s, d2) \<Rightarrow>
              (if ok then (0, set_disk d2 c\<lparr>ct_sock := s\<rparr>)
               else (-1, set_disk (snd (remove p d2))
                  (pv_ctrl_write_response HTTP_STATUS_ERROR ''Cannot read from socket'' c\<lparr>ct_sock := s\<rparr>))))))"

text \<open>\<open>rename\<close> of a file: what had the new name is replaced, but for a directory.\<close>

definition rename :: "path \<Rightarrow> path \<Rightarrow> disk \<Rightarrow> disk" where
  "rename src dst d = (case lookup d src of
       Some (File i) \<Rightarrow> (if lookup d dst = Some (File i) \<or> is_dir d dst \<or> \<not> is_dir d (butlast dst) then d
         else set_node dst (File i) (drop_nodes (\<lambda>q. q = src \<or> q = dst) d))
     | _ \<Rightarrow> d)"

definition pv_ctrl_validate_object_checksum :: "(string \<Rightarrow> nat list) \<Rightarrow> string \<Rightarrow> string \<Rightarrow> string \<Rightarrow> disk \<Rightarrow> (int \<times> disk) outcome" where
  "pv_ctrl_validate_object_checksum sha256 file_path_tmp file_path sha d =
     (case pv_storage_validate_file_checksum sha256 d file_path_tmp sha of Fault \<Rightarrow> Fault
      | Done r \<Rightarrow> Done (if r = 0 then (0, rename (comps file_path_tmp) (comps file_path) d)
                        else (-1, snd (remove (comps file_path_tmp) d))))"

text \<open>The answers of \<open>sendfile\<close> are \<open>e_sent\<close>, 0 for an end or an error.\<close>

fun send_loop :: "nat list \<Rightarrow> string \<Rightarrow> string" where
  "send_loop [] body = []"
| "send_loop (n # ns) body = (if n = 0 \<or> body = [] then [] else take n body @ send_loop ns (drop n body))"

definition pv_ctrl_process_get_file :: "cenv \<Rightarrow> string \<Rightarrow> cstate \<Rightarrow> cstate" where
  "pv_ctrl_process_get_file e file_path c =
     (case read_file (ct_disk c) (comps file_path) of
        Some body \<Rightarrow> ct_write (HTTP_RES_OK @ send_loop (e_sent e) body) c
      | None \<Rightarrow> (if is_dir (ct_disk c) (comps file_path) then ct_write HTTP_RES_OK c
                else pv_ctrl_write_response HTTP_STATUS_NOT_FOUND ''Resource does not exist'' c))"

definition pv_ctrl_process_get_string :: "string \<Rightarrow> cstate \<Rightarrow> cstate" where
  "pv_ctrl_process_get_string buf c = ct_write (HTTP_RES_OK @ buf) c"

definition pv_ctrl_get_body :: "64 word \<Rightarrow> cstate \<Rightarrow> string option \<times> cstate" where
  "pv_ctrl_get_body content_length c =
     (if unat content_length \<ge> HTTP_REQ_BUFFER_SIZE then (None, c)
      else case sock_read (unat content_length) (ct_sock c) of (r, b, s) \<Rightarrow>
        (if r \<le> 0 then None else Some (cstr b), c\<lparr>ct_sock := s\<rparr>))"

section \<open>Headers, names and paths\<close>

text \<open>The loop fills the buffer up to the empty line. The parser is then given one byte more than
  was read when the loop ended otherwise: a zero, or what lies behind a full buffer.\<close>

definition header_end :: "string \<Rightarrow> bool" where
  "header_end buf \<longleftrightarrow> length buf > 4 \<and> drop (length buf - 4) buf = [CR, LF, CR, LF]"

function read_header :: "string \<Rightarrow> sock \<Rightarrow> string outcome \<times> sock" where
  "read_header buf s =
     (if length buf \<ge> HTTP_REQ_BUFFER_SIZE then (Fault, s)
      else case sock_read 1 s of (r, b, s') \<Rightarrow>
        (if r \<noteq> 1 then (Done (buf @ [NUL]), s')
         else if header_end (buf @ b) then (Done (buf @ b), s') else read_header (buf @ b) s'))"
  by pat_completeness auto
termination
  by (relation "measure (\<lambda>(buf, s). HTTP_REQ_BUFFER_SIZE - length buf)")
    (auto simp: sock_read_def split: list.splits option.splits if_splits)

declare read_header.simps [simp del]

definition pv_ctrl_read_parse_request_header :: "cenv \<Rightarrow> string \<Rightarrow> sock \<Rightarrow> http_request option outcome \<times> sock" where
  "pv_ctrl_read_parse_request_header e buf s = (case read_header buf s of
       (Fault, s') \<Rightarrow> (Fault, s') | (Done text, s') \<Rightarrow> (Done (e_phr e text), s'))"

text \<open>The value is an \<open>int\<close> that is returned as a \<open>size_t\<close>, and so is the \<open>-1\<close> for no such header.\<close>

definition pv_ctrl_get_value_header_int :: "(string \<times> nat \<times> string) list \<Rightarrow> string \<Rightarrow> 64 word" where
  "pv_ctrl_get_value_header_int headers name =
     (case find (\<lambda>(nm, len, v). strneq nm name len) headers of None \<Rightarrow> - 1
      | Some (nm, len, v) \<Rightarrow> word_of_int (atoi v))"

text \<open>With a length of -1 nothing is allocated and \<open>strncpy\<close> runs without a bound; below that the
  allocation fails.\<close>

definition pv_ctrl_get_file_name :: "string \<Rightarrow> nat \<Rightarrow> nat \<Rightarrow> string option outcome" where
  "pv_ctrl_get_file_name path buf_index path_len =
     (if path_len + 1 = buf_index then Fault
      else if path_len < buf_index then Done None
      else Done (Some (take (path_len - buf_index) (drop buf_index path))))"

definition pv_ctrl_get_file_path :: "string \<Rightarrow> string \<Rightarrow> sconfig \<Rightarrow> string \<Rightarrow> string" where
  "pv_ctrl_get_file_path before after g nm = g_mnt g @ before @ nm @ after"

definition path_objects_tmp :: "sconfig \<Rightarrow> string \<Rightarrow> string" where "path_objects_tmp = pv_ctrl_get_file_path ''/objects/'' ''.new''"
definition path_objects :: "sconfig \<Rightarrow> string \<Rightarrow> string" where "path_objects = pv_ctrl_get_file_path ''/objects/'' []"
definition path_trails_pvr_parent :: "sconfig \<Rightarrow> string \<Rightarrow> string" where "path_trails_pvr_parent = pv_ctrl_get_file_path ''/trails/'' ''/.pvr''"
definition path_trails_pv_parent :: "sconfig \<Rightarrow> string \<Rightarrow> string" where "path_trails_pv_parent = pv_ctrl_get_file_path ''/trails/'' ''/.pv''"
definition path_trails :: "sconfig \<Rightarrow> string \<Rightarrow> string" where "path_trails = pv_ctrl_get_file_path ''/trails/'' ''/.pvr/json''"
definition path_trails_progress :: "sconfig \<Rightarrow> string \<Rightarrow> string" where "path_trails_progress = pv_ctrl_get_file_path ''/trails/'' ''/.pv/progress''"
definition path_trails_commitmsg :: "sconfig \<Rightarrow> string \<Rightarrow> string" where "path_trails_commitmsg = pv_ctrl_get_file_path ''/trails/'' ''/.pv/commitmsg''"

section \<open>Endpoints\<close>

text \<open>What an endpoint leads to: \<open>None\<close> when the request is done, else the result that is answered
  at the end.\<close>

type_synonym reply = "(int option \<times> cmd option \<times> cstate) outcome"

definition is_method :: "http_request \<Rightarrow> string \<Rightarrow> bool" where
  "is_method q name \<longleftrightarrow> strneq name (rq_method q) (rq_method_len q)"

definition ct_answer :: "int option \<Rightarrow> cstate \<Rightarrow> reply" where
  "ct_answer r c = Done (r, None, c)"

definition bad_request :: "string \<Rightarrow> cstate \<Rightarrow> reply" where
  "bad_request message c = ct_answer None (pv_ctrl_write_response HTTP_STATUS_BAD_REQ message c)"

definition handle_commands :: "cenv \<Rightarrow> http_request \<Rightarrow> 64 word \<Rightarrow> cstate \<Rightarrow> reply" where
  "handle_commands e q len c =
     (if \<not> is_method q ''POST'' then ct_answer (Some (-1)) c
      else case pv_ctrl_process_cmd e len c of
        (None, c1) \<Rightarrow> bad_request ''Command has bad format'' c1
      | (Some cmd, c1) \<Rightarrow> (case pv_ctrl_check_command e (Some cmd) c1 of (r, cmd', c2) \<Rightarrow>
          Done (if r < 0 then None else Some r, cmd', c2)))"

definition get_string :: "http_request \<Rightarrow> string \<Rightarrow> cstate \<Rightarrow> reply" where
  "get_string q text c = (if is_method q ''GET'' then ct_answer None (pv_ctrl_process_get_string text c) else ct_answer (Some (-1)) c)"

text \<open>The upload of an object is checked before it gets its name; the temporary file is removed at
  the end of every request for an object.\<close>

definition put_object :: "cenv \<Rightarrow> 64 word \<Rightarrow> string \<Rightarrow> cstate \<Rightarrow> reply" where
  "put_object e len nm c =
     (case pv_ctrl_process_put_file len (path_objects_tmp (e_g e) nm) c of (r, c1) \<Rightarrow>
        (if r < 0 then ct_answer None c1
         else case pv_ctrl_validate_object_checksum (e_sha256 e) (path_objects_tmp (e_g e) nm) (path_objects (e_g e) nm) nm (ct_disk c1) of
           Fault \<Rightarrow> Fault
         | Done (v, d) \<Rightarrow> (let c2 = set_disk d c1 in
             if v < 0 then bad_request ''Object has bad checksum'' c2
             else ct_answer (Some v) (c2\<lparr>ct_storage := pv_storage_gc_defer_run_threshold (e_clock e) (e_g e) (ct_storage c2)\<rparr>))))"

definition drop_tmp :: "cenv \<Rightarrow> string \<Rightarrow> reply \<Rightarrow> reply" where
  "drop_tmp e nm r = (case r of Fault \<Rightarrow> Fault
     | Done (v, cmd, c) \<Rightarrow> Done (v, cmd, set_disk (snd (remove (comps (path_objects_tmp (e_g e) nm)) (ct_disk c))) c))"

definition handle_object :: "cenv \<Rightarrow> http_request \<Rightarrow> 64 word \<Rightarrow> cstate \<Rightarrow> reply" where
  "handle_object e q len c =
     (case pv_ctrl_get_file_name (rq_path q) 9 (rq_path_len q) of
        Done (Some nm) \<Rightarrow> drop_tmp e nm
          (if length nm \<noteq> 64 then bad_request ''Request has bad object name'' c
           else if is_method q ''PUT'' then put_object e len nm c
           else if is_method q ''GET'' then ct_answer None (pv_ctrl_process_get_file e (path_objects (e_g e) nm) c)
           else ct_answer (Some (-1)) c)
      | _ \<Rightarrow> Fault)"

text \<open>A name that could not be allocated is dereferenced before it is checked.\<close>

definition handle_progress :: "cenv \<Rightarrow> http_request \<Rightarrow> cstate \<Rightarrow> reply" where
  "handle_progress e q c =
     (case pv_ctrl_get_file_name (rq_path q) 7 (rq_path_len q - 9) of
        Done (Some nm) \<Rightarrow> ct_answer None
          (if is_method q ''GET'' then pv_ctrl_process_get_file e (path_trails_progress (e_g e) nm) c else c)
      | _ \<Rightarrow> Fault)"

definition put_below :: "string \<Rightarrow> string \<Rightarrow> 64 word \<Rightarrow> cstate \<Rightarrow> reply" where
  "put_below parent file len c =
     (case pv_ctrl_process_put_file len file (set_disk (snd (mkdir_p parent (ct_disk c))) c) of (r, c1) \<Rightarrow>
        ct_answer (if r < 0 then None else Some r) c1)"

definition handle_commitmsg :: "cenv \<Rightarrow> http_request \<Rightarrow> 64 word \<Rightarrow> cstate \<Rightarrow> reply" where
  "handle_commitmsg e q len c =
     (case pv_ctrl_get_file_name (rq_path q) 7 (rq_path_len q - 10) of
        Done (Some nm) \<Rightarrow>
          (if is_method q ''PUT'' then put_below (path_trails_pv_parent (e_g e) nm) (path_trails_commitmsg (e_g e) nm) len c
           else ct_answer (Some (-1)) c)
      | _ \<Rightarrow> Fault)"

definition handle_step :: "cenv \<Rightarrow> http_request \<Rightarrow> 64 word \<Rightarrow> cstate \<Rightarrow> reply" where
  "handle_step e q len c =
     (case pv_ctrl_get_file_name (rq_path q) 7 (rq_path_len q) of
        Done (Some nm) \<Rightarrow>
          (if is_method q ''PUT''
           then (if is_local_rev nm then put_below (path_trails_pvr_parent (e_g e) nm) (path_trails (e_g e) nm) len c
                 else ct_answer (Some (-1)) c)
           else if is_method q ''GET'' then ct_answer None (pv_ctrl_process_get_file e (path_trails (e_g e) nm) c)
           else ct_answer (Some (-1)) c)
      | _ \<Rightarrow> Fault)"

definition meta_of :: "cstate \<Rightarrow> meta_state" where
  "meta_of c = \<lparr>ms_meta = ct_meta c, ms_config = ct_config c, ms_disk = ct_disk c\<rparr>"

definition set_meta :: "meta_state \<Rightarrow> cstate \<Rightarrow> cstate" where
  "set_meta m c = set_disk (ms_disk m) c\<lparr>ct_meta := ms_meta m, ct_config := ms_config m\<rparr>"

text \<open>A body that cannot be read is no value, and is not stored.\<close>

definition handle_usermeta :: "cenv \<Rightarrow> http_request \<Rightarrow> 64 word \<Rightarrow> cstate \<Rightarrow> reply" where
  "handle_usermeta e q len c =
     (case pv_ctrl_get_file_name (rq_path q) 11 (rq_path_len q) of
        Fault \<Rightarrow> Fault
      | Done None \<Rightarrow> bad_request ''Request has bad metadata key name'' c
      | Done (Some key) \<Rightarrow>
          (if is_method q ''PUT''
           then (case pv_ctrl_get_body len c of
                   (None, c1) \<Rightarrow> ct_answer (Some (-1)) c1
                 | (Some v, c1) \<Rightarrow> (case pv_metadata_add_usermeta key v (meta_of c1) of (r, m) \<Rightarrow> ct_answer (Some r) (set_meta m c1)))
           else if is_method q ''DELETE''
           then (case pv_metadata_rm_usermeta key (meta_of c) of (r, m) \<Rightarrow> ct_answer (Some r) (set_meta m c))
           else ct_answer (Some (-1)) c))"

definition path_is :: "http_request \<Rightarrow> string \<Rightarrow> bool" where
  "path_is q endpoint \<longleftrightarrow> pv_str_matches endpoint (length endpoint) (rq_path q) (rq_path_len q)"

definition path_starts :: "http_request \<Rightarrow> string \<Rightarrow> bool" where
  "path_starts q endpoint \<longleftrightarrow> pv_str_startswith endpoint (length endpoint) (rq_path q)"

definition path_ends :: "http_request \<Rightarrow> string \<Rightarrow> bool" where
  "path_ends q endpoint \<longleftrightarrow> pv_str_endswith endpoint (length endpoint) (rq_path q) (rq_path_len q)"

definition route :: "cenv \<Rightarrow> http_request \<Rightarrow> 64 word \<Rightarrow> cstate \<Rightarrow> reply" where
  "route e q len c = (let g = e_g e; d = ct_disk c in
     if path_starts q ''/commands'' then handle_commands e q len c
     else if path_is q ''/objects'' then get_string q (pv_objects_get_list_string g d) c
     else if path_starts q ''/objects'' then handle_object e q len c
     else if path_is q ''/steps'' then get_string q (pv_storage_get_revisions_string (e_stale e) g d (e_date e)) c
     else if path_starts q ''/steps'' \<and> path_ends q ''/progress'' then handle_progress e q c
     else if path_starts q ''/steps'' \<and> path_ends q ''/commitmsg'' then handle_commitmsg e q len c
     else if path_starts q ''/steps'' then handle_step e q len c
     else if path_is q ''/user-meta'' then get_string q (pv_metadata_get_user_meta_string (ct_meta c)) c
     else if path_is q ''/device-meta'' then get_string q (pv_metadata_get_device_meta_string (ct_meta c)) c
     else if path_is q ''/buildinfo'' then get_string q (e_manifest e) c
     else if path_starts q ''/user-meta'' then handle_usermeta e q len c
     else ct_answer (Some (-1)) c)"

definition answer_result :: "int option \<Rightarrow> cstate \<Rightarrow> cstate" where
  "answer_result r c = (case r of None \<Rightarrow> c
     | Some v \<Rightarrow> (if v < 0 then pv_ctrl_write_response HTTP_STATUS_ERROR ''Unknown request'' c else ct_write HTTP_RES_OK c))"

definition handle_request :: "cenv \<Rightarrow> http_request \<Rightarrow> cstate \<Rightarrow> (cmd option \<times> cstate) outcome" where
  "handle_request e q c =
     (let len = pv_ctrl_get_value_header_int (rq_headers q) ''Content-Length'' in
      if len = 0 then Done (None, pv_ctrl_write_response HTTP_STATUS_BAD_REQ ''Request has empty body'' c)
      else case route e q len c of Fault \<Rightarrow> Fault | Done (r, cmd, c') \<Rightarrow> Done (cmd, answer_result r c'))"

text \<open>The first byte of a request of the old protocol is 3; a socket that is at its end leaves it zero.\<close>

definition pv_ctrl_read_parse_request :: "cenv \<Rightarrow> cstate \<Rightarrow> (cmd option \<times> cstate) outcome" where
  "pv_ctrl_read_parse_request e c =
     (case sock_read 1 (ct_sock c) of (r, b, s) \<Rightarrow>
        (let c1 = c\<lparr>ct_sock := s\<rparr> in
         if r < 0 then Done (None, c1)
         else if b = [CHR 0x03] then Done (pv_ctrl_process_cmd e (of_nat (HTTP_REQ_BUFFER_SIZE - 1)) c1)
         else case pv_ctrl_read_parse_request_header e (if b = [] then [NUL] else b) s of
             (Fault, s') \<Rightarrow> Fault
           | (Done None, s') \<Rightarrow> Done (None, pv_ctrl_write_response HTTP_STATUS_BAD_REQ ''Request has bad format'' (c1\<lparr>ct_sock := s'\<rparr>))
           | (Done (Some q), s') \<Rightarrow> handle_request e q (c1\<lparr>ct_sock := s'\<rparr>)))"

section \<open>Only checked objects get into the pool\<close>

text \<open>An object is stored under the 64 digits of its checksum.\<close>

definition pool_name :: "string \<Rightarrow> bool" where
  "pool_name sha \<longleftrightarrow> length sha = 64 \<and> CHR ''/'' \<notin> set sha \<and> CHR ''.'' \<notin> set sha"

definition own_mount :: "sconfig \<Rightarrow> bool" where
  "own_mount g \<longleftrightarrow> comps (g_mnt g) \<noteq> [] \<and> hd (comps (g_mnt g)) \<noteq> ''pv''"

definition below_pv :: "path \<Rightarrow> bool" where
  "below_pv q \<longleftrightarrow> q \<noteq> [] \<and> hd q = ''pv''"

text \<open>No object shares its inode with a file of the directory of the control socket.\<close>

definition sealed :: "sconfig \<Rightarrow> disk \<Rightarrow> bool" where
  "sealed g d \<longleftrightarrow> (\<forall>sha i. pool_name sha \<and> lookup d (object_path g sha) = Some (File i) \<longrightarrow>
     i < d_next d \<and> (\<forall>q. below_pv q \<longrightarrow> lookup d q \<noteq> Some (File i)))"

definition quiet :: "sconfig \<Rightarrow> disk \<Rightarrow> disk \<Rightarrow> bool" where
  "quiet g d d' \<longleftrightarrow> (sealed g d \<longrightarrow> sealed g d' \<and>
     (\<forall>sha. pool_name sha \<longrightarrow> read_file d' (object_path g sha) = read_file d (object_path g sha)))"

definition pool_checked :: "cenv \<Rightarrow> disk \<Rightarrow> disk \<Rightarrow> bool" where
  "pool_checked e d d' \<longleftrightarrow> (\<forall>sha. pool_name sha \<longrightarrow>
     read_file d' (object_path (e_g e) sha) = read_file d (object_path (e_g e) sha) \<or>
     (\<exists>body. read_file d' (object_path (e_g e) sha) = Some body \<and> bytes_strneq (sha_bytes sha) (e_sha256 e body)))"

lemma quiet_refl [simp]: "quiet g d d"
  by (simp add: quiet_def)

lemma quiet_trans: "quiet g a b \<Longrightarrow> quiet g b c \<Longrightarrow> quiet g a c"
  by (simp add: quiet_def)

lemma quiet_checked: "quiet (e_g e) d d' \<Longrightarrow> sealed (e_g e) d \<Longrightarrow> pool_checked e d d'"
  by (simp add: quiet_def pool_checked_def)

text \<open>Names and paths.\<close>

lemma length_split_on: "length s + 1 = sum_list (map length (split_on c s)) + length (split_on c s)"
proof (induction s)
  case (Cons x s)
  then show ?case by (cases "split_on c s") auto
qed simp

lemma split_on_single: "split_on c s = [t] \<Longrightarrow> s = t"
proof (induction s arbitrary: t)
  case (Cons x s)
  then show ?case by (cases "split_on c s") (auto split: if_splits)
qed simp

lemma comps_exact:
  assumes "comps s = [t]" "length s = length t" shows "s = t"
proof -
  let ?ps = "split_on CHR ''/'' s"
  have "sum_list (map length (filter (\<lambda>t. t \<noteq> []) xs)) = sum_list (map length xs)" for xs :: "string list"
    by (induction xs) auto
  then have "sum_list (map length ?ps) = length t" using assms(1) by (metis comps_def strtok_def list.simps(8,9) sum_list_simps(1,2) add_0_right)
  then have "length ?ps = 1" using length_split_on [of s "CHR ''/''"] assms(2) by simp
  then obtain u where u: "?ps = [u]" by (metis length_0_conv length_Suc_conv One_nat_def)
  then show ?thesis using assms(1) split_on_single [OF u] by (auto simp: comps_def strtok_def split: if_splits)
qed

lemma object_path_eq: "pool_name sha \<Longrightarrow> object_path g sha = comps (g_mnt g) @ [''objects'', sha]"
proof -
  assume "pool_name sha"
  then have "sha \<noteq> []" "CHR ''/'' \<notin> set sha" by (auto simp: pool_name_def)
  then show ?thesis
    using comps_slash [of "g_mnt g" "''objects/'' @ sha"] comps_slash [of "''objects''" sha]
    by (simp add: object_path_def at_def comps_name)
qed

lemma not_pool_pv: "own_mount g \<Longrightarrow> below_pv q \<Longrightarrow> pool_name sha \<Longrightarrow> q \<noteq> object_path g sha"
  by (auto simp: object_path_eq own_mount_def below_pv_def)

lemma not_pool_trails: "pool_name sha \<Longrightarrow> comps (pv_ctrl_get_file_path ''/trails/'' after g nm) \<noteq> object_path g sha"
  using comps_slash [of "g_mnt g" "''trails/'' @ nm @ after"] comps_slash [of "''trails''" "nm @ after"]
  by (simp add: object_path_eq pv_ctrl_get_file_path_def comps_name)

lemma comps_last: "s \<noteq> [] \<Longrightarrow> comps (s @ ''.new'') \<noteq> [] \<Longrightarrow> CHR ''.'' \<in> set (last (comps (s @ ''.new'')))"
proof -
  have "\<exists>us w. split_on c (s @ ''.new'') = us @ [w @ ''.new'']" if "c = CHR ''/''" for s c
  proof (induction s)
    case Nil
    show ?case using that by auto
  next
    case (Cons x s)
    then obtain us w where u: "split_on c (s @ ''.new'') = us @ [w @ ''.new'']" by blast
    show ?case
    proof (cases us)
      case Nil
      with u show ?thesis by (cases "x = c") (force intro: exI [of _ "[[]]"] exI [of _ "[]"])+
    next
      case (Cons v vs)
      with u show ?thesis by (cases "x = c") (force intro: exI [of _ "[] # us"] exI [of _ "(x # v) # vs"])+
    qed
  qed
  from this [OF refl, of s] obtain us w where "split_on CHR ''/'' (s @ ''.new'') = us @ [w @ ''.new'']" by blast
  then show ?thesis by (simp add: comps_def strtok_def)
qed

lemma not_pool_tmp: "nm \<noteq> [] \<Longrightarrow> pool_name sha \<Longrightarrow> comps (path_objects_tmp g nm) \<noteq> object_path g sha"
proof
  assume a: "nm \<noteq> []" "pool_name sha" "comps (path_objects_tmp g nm) = object_path g sha"
  have "comps (path_objects_tmp g nm) = comps (g_mnt g) @ [''objects''] @ comps (nm @ ''.new'')"
    using comps_slash [of "g_mnt g" "''objects/'' @ nm @ ''.new''"] comps_slash [of "''objects''" "nm @ ''.new''"]
    by (simp add: path_objects_tmp_def pv_ctrl_get_file_path_def comps_name)
  with a have c: "comps (nm @ ''.new'') = [sha]" by (simp add: object_path_eq)
  then have "CHR ''.'' \<in> set sha" using comps_last [OF a(1)] by simp
  with a(2) show False by (simp add: pool_name_def)
qed

lemma pool_path_name:
  assumes "length nm = 64" "pool_name sha" "comps (path_objects g nm) = object_path g sha"
  shows "nm = sha"
proof -
  have "comps (path_objects g nm) = comps (g_mnt g) @ [''objects''] @ comps nm"
    using comps_slash [of "g_mnt g" "''objects/'' @ nm"] comps_slash [of "''objects''" nm]
    by (simp add: path_objects_def pv_ctrl_get_file_path_def comps_name)
  with assms have "comps nm = [sha]" by (simp add: object_path_eq)
  with assms show ?thesis by (intro comps_exact) (auto simp: pool_name_def)
qed

text \<open>Steps on the disk that leave the pool alone.\<close>

lemma read_same:
  assumes "\<And>i. lookup d' p = Some (File i) \<longleftrightarrow> lookup d p = Some (File i)"
    and "\<And>i. lookup d p = Some (File i) \<Longrightarrow> d_data d' i = d_data d i"
  shows "read_file d' p = read_file d p"
proof (cases "\<exists>i. lookup d p = Some (File i)")
  case True
  then obtain i where i: "lookup d p = Some (File i)" ..
  then have "lookup d' p = Some (File i)" by (simp only: assms(1))
  with i assms(2) show ?thesis by (simp add: read_file_def)
next
  case False
  with assms(1) show ?thesis by (auto simp: read_file_def split: option.split node.split)
qed

lemma quietI:
  assumes "\<And>sha i. pool_name sha \<Longrightarrow> lookup d' (object_path g sha) = Some (File i) \<longleftrightarrow> lookup d (object_path g sha) = Some (File i)"
    and "\<And>i. i < d_next d \<Longrightarrow> (\<forall>q. below_pv q \<longrightarrow> lookup d q \<noteq> Some (File i)) \<Longrightarrow>
      d_data d' i = d_data d i \<and> (\<forall>q. below_pv q \<longrightarrow> lookup d' q \<noteq> Some (File i))"
    and "d_next d \<le> d_next d'"
  shows "quiet g d d'"
  unfolding quiet_def
proof (intro impI conjI allI)
  assume s: "sealed g d"
  have own: "i < d_next d \<and> (\<forall>q. below_pv q \<longrightarrow> lookup d q \<noteq> Some (File i))"
    if "pool_name sha" "lookup d (object_path g sha) = Some (File i)" for sha i
    using s that unfolding sealed_def by blast
  show "sealed g d'" unfolding sealed_def
  proof (intro allI impI conjI)
    fix sha i assume h: "pool_name sha \<and> lookup d' (object_path g sha) = Some (File i)"
    then have o: "i < d_next d" "\<forall>q. below_pv q \<longrightarrow> lookup d q \<noteq> Some (File i)" using own assms(1) by blast+
    show "i < d_next d'" using o(1) assms(3) by simp
    show "lookup d' q \<noteq> Some (File i)" if "below_pv q" for q using assms(2) [OF o] that by blast
  qed
  show "read_file d' (object_path g sha) = read_file d (object_path g sha)" if "pool_name sha" for sha
    using assms(1) [OF that] assms(2) own [OF that] by (intro read_same) blast+
qed

lemma quiet_files:
  assumes "\<And>q i. lookup d' q = Some (File i) \<longleftrightarrow> lookup d q = Some (File i)" "d_data d' = d_data d" "d_next d' = d_next d"
  shows "quiet g d d'"
  using assms by (intro quietI) auto

lemma quiet_mkdir: "mkdir p d = (e, d') \<Longrightarrow> quiet g d d'"
  by (rule quiet_files) (auto simp: mkdir_def may_add_def exists_at_def lookup_set split: if_splits)

lemma quiet_mkdir_p_from: "quiet g d (snd (mkdir_p_from made rest d))"
proof (induction made rest d rule: mkdir_p_from.induct)
  case (1 made rest d)
  let ?m = "made @ takeWhile is_slash rest"
  obtain e d1 where d1: "(if ?m = [] then (None, d) else mkdir (comps ?m) d) = (e, d1)" by (meson surj_pair)
  then have q: "quiet g d d1" using quiet_mkdir by (auto split: if_splits)
  show ?case
  proof (cases "(e \<noteq> None \<and> e \<noteq> Some EEXIST) \<or> takeWhile (\<lambda>c. \<not> is_slash c) (dropWhile is_slash rest) = []")
    case True
    then show ?thesis using q d1 by (subst mkdir_p_from.simps) (auto simp: Let_def)
  next
    case False
    have "quiet g d1 (snd (mkdir_p_from (?m @ takeWhile (\<lambda>c. \<not> is_slash c) (dropWhile is_slash rest))
        (dropWhile (\<lambda>c. \<not> is_slash c) (dropWhile is_slash rest)) d1))"
      by (rule 1 [OF refl refl refl d1 [symmetric] refl]) (use False in auto)
    then show ?thesis using quiet_trans [OF q] False d1 by (subst mkdir_p_from.simps) (auto simp: Let_def)
  qed
qed

lemma quiet_mkdir_p: "quiet g d (snd (mkdir_p p d))"
  by (simp add: mkdir_p_def quiet_mkdir_p_from)

lemma quiet_remove: "(\<And>sha. pool_name sha \<Longrightarrow> p \<noteq> object_path g sha) \<Longrightarrow> quiet g d (snd (remove p d))"
  by (rule quietI) (auto simp: remove_def lookup_drop split: option.split node.split)

lemma open_creat_frame:
  assumes "open_creat p d = Some (i, d')"
  shows "lookup d p = Some (File i) \<and> d' = d \<or>
    lookup d p = None \<and> i = d_next d \<and> d_next d' = Suc (d_next d) \<and> d_data d' = (d_data d)(i := []) \<and>
    (\<forall>q. lookup d' q = (if q = p then Some (File i) else lookup d q))"
  using assms by (auto simp: open_creat_def lookup_def set_node_def split: option.splits node.splits if_splits)

lemma quiet_save: "below_pv (comps p) \<Longrightarrow> own_mount g \<Longrightarrow> quiet g d (save_at p v d)"
proof -
  assume p: "below_pv (comps p)" and g: "own_mount g"
  show ?thesis
  proof (cases "open_creat (comps p) d")
    case None
    then show ?thesis by (simp add: save_at_def open_trunc_def)
  next
    case (Some x)
    then obtain i d1 where x: "open_creat (comps p) d = Some (i, d1)" by (cases x) simp
    have s: "lookup (save_at p v d) = lookup d1" "d_next (save_at p v d) = d_next d1" "d_data (save_at p v d) = (d_data d1)(i := v)"
      using x by (auto simp: save_at_def open_trunc_def write_fd_def lookup_def fun_eq_iff)
    show ?thesis
    proof (rule quietI)
      show "lookup (save_at p v d) (object_path g sha) = Some (File j) \<longleftrightarrow> lookup d (object_path g sha) = Some (File j)"
        if "pool_name sha" for sha j
        using open_creat_frame [OF x] not_pool_pv [OF g p that] by (auto simp: s)
    next
      fix j assume j: "j < d_next d" "\<forall>q. below_pv q \<longrightarrow> lookup d q \<noteq> Some (File j)"
      then have "j \<noteq> i" using open_creat_frame [OF x] p by auto
      with open_creat_frame [OF x] j
      show "d_data (save_at p v d) j = d_data d j \<and> (\<forall>q. below_pv q \<longrightarrow> lookup (save_at p v d) q \<noteq> Some (File j))"
        unfolding s by (metis fun_upd_other node.inject(1) option.inject)
    next
      show "d_next d \<le> d_next (save_at p v d)" using open_creat_frame [OF x] by (auto simp: s)
    qed
  qed
qed

lemma put_loop_frame:
  "put_loop n i s d = (ok, s', d') \<Longrightarrow> d_nodes d' = d_nodes d \<and> d_next d' = d_next d \<and> (\<forall>j. j \<noteq> i \<longrightarrow> d_data d' j = d_data d j)"
proof (induction n i s d rule: put_loop.induct)
  case (1 n i s d)
  obtain r b t where rd: "sock_read (min n HTTP_REQ_BUFFER_SIZE) s = (r, b, t)" by (metis prod_cases3)
  show ?case
  proof (cases "n = 0 \<or> r \<le> 0")
    case True
    then show ?thesis using 1(2) rd by (subst (asm) put_loop.simps) (auto split: if_splits)
  next
    case False
    then have "put_loop (n - nat r) i t (append_fd i b d) = (ok, s', d')"
      using 1(2) rd by (subst (asm) put_loop.simps) simp
    from 1(1) [OF _ rd [symmetric] refl _ this] False show ?thesis by (auto simp: append_fd_def)
  qed
qed

text \<open>An upload under a name that no object has.\<close>

lemma put_file_frame:
  assumes "pv_ctrl_process_put_file len file c = (r, c')" "\<And>sha. pool_name sha \<Longrightarrow> comps file \<noteq> object_path g sha"
  shows "quiet g (ct_disk c) (ct_disk c')"
proof (cases "may_add (ct_disk c) (comps file)")
  case (Some err)
  have "quiet g (ct_disk c) (snd (remove (comps file) (ct_disk c)))" using assms(2) by (rule quiet_remove)
  then show ?thesis using Some assms(1)
    by (auto simp: pv_ctrl_process_put_file_def Let_def ct_disk_def ct_write_def set_disk_def pv_ctrl_write_response_def)
next
  case None
  show ?thesis
  proof (cases "open_creat (comps file) (ct_disk c)")
    case None
    then show ?thesis using \<open>may_add _ _ = None\<close> assms(1)
      by (auto simp: pv_ctrl_process_put_file_def Let_def ct_disk_def ct_write_def pv_ctrl_write_response_def)
  next
    case (Some x)
    then obtain i d1 where x: "open_creat (comps file) (ct_disk c) = Some (i, d1)" by (cases x) simp
    obtain ok s d2 where l: "put_loop (unat len) i (ct_sock c) d1 = (ok, s, d2)" by (metis prod_cases3)
    have free: "lookup (ct_disk c) (comps file) = None"
      using None by (auto simp: may_add_def exists_at_def split: if_splits)
    have d1: "i = d_next (ct_disk c)" "d_next d1 = Suc (d_next (ct_disk c))" "d_data d1 = (d_data (ct_disk c))(i := [])"
        "\<And>q. lookup d1 q = (if q = comps file then Some (File i) else lookup (ct_disk c) q)"
      using open_creat_frame [OF x] free by auto
    have l2: "lookup d2 = lookup d1" using put_loop_frame [OF l] by (auto simp: lookup_def fun_eq_iff)
    have "quiet g (ct_disk c) d2"
    proof (rule quietI)
      show "lookup d2 (object_path g sha) = Some (File j) \<longleftrightarrow> lookup (ct_disk c) (object_path g sha) = Some (File j)"
        if "pool_name sha" for sha j
        using assms(2) [OF that] by (auto simp: l2 d1(4))
    next
      fix j assume j: "j < d_next (ct_disk c)" "\<forall>q. below_pv q \<longrightarrow> lookup (ct_disk c) q \<noteq> Some (File j)"
      then have "d_data d2 j = d_data (ct_disk c) j" using put_loop_frame [OF l] d1(1,3) by simp
      moreover have "lookup d2 q \<noteq> Some (File j)" if "below_pv q" for q
        using that j d1(1) by (auto simp: l2 d1(4))
      ultimately show "d_data d2 j = d_data (ct_disk c) j \<and> (\<forall>q. below_pv q \<longrightarrow> lookup d2 q \<noteq> Some (File j))" by blast
    next
      show "d_next (ct_disk c) \<le> d_next d2" using put_loop_frame [OF l] d1(2) by simp
    qed
    moreover have "quiet g d2 (snd (remove (comps file) d2))" using assms(2) by (rule quiet_remove)
    moreover have "ct_disk c' = (if ok then d2 else snd (remove (comps file) d2))"
      using None x l assms(1)
      by (auto simp: pv_ctrl_process_put_file_def Let_def ct_disk_def ct_write_def set_disk_def pv_ctrl_write_response_def)
    ultimately show ?thesis by (auto intro: quiet_trans)
  qed
qed

lemma quiet_put_below:
  assumes "put_below parent file len c = Done (r, cmd, c')" "\<And>sha. pool_name sha \<Longrightarrow> comps file \<noteq> object_path g sha"
  shows "quiet g (ct_disk c) (ct_disk c')"
proof -
  let ?c = "set_disk (snd (mkdir_p parent (ct_disk c))) c"
  obtain r1 c1 where p: "pv_ctrl_process_put_file len file ?c = (r1, c1)" by (meson surj_pair)
  then have "c' = c1" using assms(1) by (simp add: put_below_def ct_answer_def)
  moreover have "quiet g (ct_disk c) (ct_disk ?c)" using quiet_mkdir_p by (simp add: ct_disk_def set_disk_def)
  ultimately show ?thesis using put_file_frame [OF p assms(2)] quiet_trans by blast
qed

lemma below_pv_usermeta: "below_pv (comps (usermeta_key k))" "below_pv (comps (usermeta_plat nm @ s))"
  using comps_slash [of "[]" "''pv/user-meta/'' @ k"] comps_slash [of "''pv''" "''user-meta/'' @ k"]
    comps_slash [of "[]" "''pv/user-meta.'' @ nm @ s"] comps_slash [of "''pv''" "''user-meta.'' @ nm @ s"]
  by (simp_all add: below_pv_def usermeta_key_def usermeta_plat_def comps_name)

lemma quiet_init_plat: "quiet g d (pv_storage_init_plat_usermeta nm d)"
  by (simp add: pv_storage_init_plat_usermeta_def quiet_mkdir_p)

lemma quiet_save_usermeta: "own_mount g \<Longrightarrow> quiet g d (pv_storage_save_usermeta k (Some v) d)"
proof -
  assume g: "own_mount g"
  have q1: "quiet g d (save_at (usermeta_key k) v d)" for d by (rule quiet_save [OF below_pv_usermeta(1) g])
  have q2: "quiet g d (save_at (usermeta_plat nm @ s) v d)" for nm s d by (rule quiet_save [OF below_pv_usermeta(2) g])
  show ?thesis
  proof (cases "strchr k CHR ''.''")
    case None
    with q1 show ?thesis by (simp add: pv_storage_save_usermeta_def pv_storage_save_file_def)
  next
    case (Some i)
    then show ?thesis
      using quiet_trans [OF quiet_trans [OF q1 quiet_init_plat] q2 [where nm = "take i k" and s = "CHR ''/'' # drop (Suc i) k"]]
      by (simp add: pv_storage_save_usermeta_def pv_storage_save_file_def Let_def)
  qed
qed

lemma quiet_rm_usermeta: "own_mount g \<Longrightarrow> quiet g d (pv_storage_rm_usermeta k d)"
proof -
  assume g: "own_mount g"
  have rm: "quiet g d (snd (remove p d))" if "below_pv p" for p d
    using not_pool_pv [OF g that] by (intro quiet_remove)
  have q1: "quiet g d (snd (remove (comps (usermeta_key k)) d))" for d by (rule rm [OF below_pv_usermeta(1)])
  have q2: "quiet g d (snd (remove (comps (usermeta_plat nm @ s)) d))" for nm s d by (rule rm [OF below_pv_usermeta(2)])
  show ?thesis
  proof (cases "strchr k CHR ''.''")
    case None
    with q1 show ?thesis by (simp add: pv_storage_rm_usermeta_def)
  next
    case (Some i)
    then show ?thesis
      using quiet_trans [OF q1 q2 [where nm = "take i k" and s = "CHR ''/'' # drop (Suc i) k"]] by (simp add: pv_storage_rm_usermeta_def)
  qed
qed

lemma ct_disk_simps [simp]:
  "ct_disk (ct_write s c) = ct_disk c" "ct_disk (pv_ctrl_write_response code m c) = ct_disk c"
  "ct_disk (c\<lparr>ct_sock := sk\<rparr>) = ct_disk c" "ct_disk (set_disk d c) = d"
  "ct_disk (set_disk d c\<lparr>ct_meta := md, ct_config := cf\<rparr>) = d"
  by (simp_all add: ct_disk_def ct_write_def pv_ctrl_write_response_def set_disk_def)

text \<open>The upload of an object.\<close>

lemma rename_checked:
  assumes "read_file d src = Some body" "\<And>sha. pool_name sha \<Longrightarrow> src \<noteq> object_path (e_g e) sha"
    and "\<And>sha. pool_name sha \<Longrightarrow> dst = object_path (e_g e) sha \<Longrightarrow> bytes_strneq (sha_bytes sha) (e_sha256 e body)"
  shows "pool_checked e d (rename src dst d)"
proof -
  obtain i where i: "lookup d src = Some (File i)" "d_data d i = body"
    using assms(1) by (auto simp: read_file_def split: option.splits node.splits)
  show ?thesis
  proof (cases "lookup d dst = Some (File i) \<or> is_dir d dst \<or> \<not> is_dir d (butlast dst)")
    case True
    with i show ?thesis by (auto simp: rename_def pool_checked_def)
  next
    case False
    then have r: "rename src dst d = set_node dst (File i) (drop_nodes (\<lambda>q. q = src \<or> q = dst) d)" using i by (simp add: rename_def)
    have "read_file (rename src dst d) q = (if q = dst then Some body else if q = src then None else read_file d q)" for q
      by (simp add: r read_file_def lookup_set lookup_drop i split: option.split node.split)
    with assms(2,3) show ?thesis by (auto simp: pool_checked_def)
  qed
qed

lemma put_object_checked:
  assumes "put_object e len nm c = Done (r, cmd, c')" "length nm = 64" "sealed (e_g e) (ct_disk c)"
  shows "pool_checked e (ct_disk c) (ct_disk c')"
proof -
  let ?g = "e_g e" and ?tmp = "path_objects_tmp (e_g e) nm"
  have nm: "nm \<noteq> []" using assms(2) by auto
  note tmp = not_pool_tmp [OF nm]
  obtain r1 c1 where p: "pv_ctrl_process_put_file len ?tmp c = (r1, c1)" by (meson surj_pair)
  then have q: "quiet ?g (ct_disk c) (ct_disk c1)" by (rule put_file_frame) (use tmp in blast)
  show ?thesis
  proof (cases "r1 < 0")
    case True
    then show ?thesis using p q assms(1,3) by (auto simp: put_object_def ct_answer_def intro: quiet_checked)
  next
    case False
    obtain v d where val: "pv_ctrl_validate_object_checksum (e_sha256 e) ?tmp (path_objects ?g nm) nm (ct_disk c1) = Done (v, d)"
        and c': "ct_disk c' = d"
      using False p assms(1)
      by (auto simp: put_object_def ct_answer_def bad_request_def Let_def ct_disk_def set_disk_def ct_write_def pv_ctrl_write_response_def
          pv_storage_gc_defer_run_threshold_def split: outcome.splits if_splits)
    from val have "d = snd (remove (comps ?tmp) (ct_disk c1)) \<or>
        d = rename (comps ?tmp) (comps (path_objects ?g nm)) (ct_disk c1) \<and>
        (\<exists>body. read_file (ct_disk c1) (comps ?tmp) = Some body \<and> bytes_strneq (sha_bytes nm) (e_sha256 e body))"
      by (auto simp: pv_ctrl_validate_object_checksum_def pv_storage_validate_file_checksum_def split: outcome.splits option.splits if_splits)
    then have "pool_checked e (ct_disk c1) d"
    proof
      assume "d = snd (remove (comps ?tmp) (ct_disk c1))"
      moreover have "quiet ?g (ct_disk c1) (snd (remove (comps ?tmp) (ct_disk c1)))" by (rule quiet_remove) (use tmp in blast)
      moreover have "sealed ?g (ct_disk c1)" using q assms(3) by (simp add: quiet_def)
      ultimately show ?thesis by (simp add: quiet_checked)
    next
      assume "d = rename (comps ?tmp) (comps (path_objects ?g nm)) (ct_disk c1) \<and>
        (\<exists>body. read_file (ct_disk c1) (comps ?tmp) = Some body \<and> bytes_strneq (sha_bytes nm) (e_sha256 e body))"
      then show ?thesis
        using rename_checked [of "ct_disk c1" "comps ?tmp"] tmp pool_path_name [OF assms(2)] by blast
    qed
    moreover have "read_file (ct_disk c1) (object_path ?g sha) = read_file (ct_disk c) (object_path ?g sha)" if "pool_name sha" for sha
      using q assms(3) that by (simp add: quiet_def)
    ultimately show ?thesis by (simp add: pool_checked_def c')
  qed
qed

lemma drop_tmp_checked:
  assumes "drop_tmp e nm rep = Done (r, cmd, c')" "\<And>r cmd c1. rep = Done (r, cmd, c1) \<Longrightarrow> pool_checked e d (ct_disk c1)" "nm \<noteq> []"
  shows "pool_checked e d (ct_disk c')"
proof -
  obtain c1 where c1: "rep = Done (r, cmd, c1)" "ct_disk c' = snd (remove (comps (path_objects_tmp (e_g e) nm)) (ct_disk c1))"
    using assms(1) by (auto simp: drop_tmp_def split: outcome.splits)
  have "read_file (snd (remove p x)) q = read_file x q" if "q \<noteq> p" for p q x
    using that by (auto simp: read_file_def remove_def lookup_drop split: option.split node.split)
  then have "read_file (ct_disk c') (object_path (e_g e) sha) = read_file (ct_disk c1) (object_path (e_g e) sha)" if "pool_name sha" for sha
    using not_pool_tmp [OF assms(3) that] by (metis c1(2))
  with assms(2) [OF c1(1)] show ?thesis by (simp add: pool_checked_def)
qed

lemma process_cmd_disk: "pv_ctrl_process_cmd e len c = (cmd, c') \<Longrightarrow> ct_disk c' = ct_disk c"
  by (auto simp: pv_ctrl_process_cmd_def split: if_splits prod.splits)

lemma get_file_disk [simp]: "ct_disk (pv_ctrl_process_get_file e p c) = ct_disk c"
  by (simp add: pv_ctrl_process_get_file_def split: option.split)

lemma get_string_disk [simp]: "ct_disk (pv_ctrl_process_get_string b c) = ct_disk c"
  by (simp add: pv_ctrl_process_get_string_def)

lemma get_body_disk: "pv_ctrl_get_body len c = (v, c') \<Longrightarrow> ct_disk c' = ct_disk c"
  by (auto simp: pv_ctrl_get_body_def split: if_splits prod.splits)

lemma handle_commands_disk: "handle_commands e q len c = Done (r, cmd, c') \<Longrightarrow> ct_disk c' = ct_disk c"
  by (auto simp: handle_commands_def ct_answer_def bad_request_def pv_ctrl_check_command_def
      dest!: process_cmd_disk split: if_splits prod.splits option.splits)

lemma handle_object_checked:
  assumes "handle_object e q len c = Done (r, cmd, c')" "sealed (e_g e) (ct_disk c)" "own_mount (e_g e)"
    and "path_starts q ''/objects''"
  shows "pool_checked e (ct_disk c) (ct_disk c')"
proof -
  obtain nm where nm: "pv_ctrl_get_file_name (rq_path q) 9 (rq_path_len q) = Done (Some nm)"
    and rep: "drop_tmp e nm
          (if length nm \<noteq> 64 then bad_request ''Request has bad object name'' c
           else if is_method q ''PUT'' then put_object e len nm c
           else if is_method q ''GET'' then ct_answer None (pv_ctrl_process_get_file e (path_objects (e_g e) nm) c)
           else ct_answer (Some (-1)) c) = Done (r, cmd, c')"
    using assms(1) by (auto simp: handle_object_def split: outcome.splits option.splits)
  have same: "pool_checked e (ct_disk c) (ct_disk c)" by (simp add: pool_checked_def)
  show ?thesis
  proof (cases "nm = []")
    case True
    have "quiet (e_g e) (ct_disk c) (snd (remove (comps (path_objects_tmp (e_g e) [])) (ct_disk c)))"
    proof (rule quiet_remove)
      fix sha assume "pool_name sha"
      then show "comps (path_objects_tmp (e_g e) []) \<noteq> object_path (e_g e) sha"
        using comps_slash [of "g_mnt (e_g e)" "''objects/.new''"] comps_slash [of "''objects''" "''.new''"]
        by (auto simp: path_objects_tmp_def pv_ctrl_get_file_path_def comps_name object_path_eq pool_name_def)
    qed
    moreover have "ct_disk c' = snd (remove (comps (path_objects_tmp (e_g e) [])) (ct_disk c))"
      using rep True by (auto simp: drop_tmp_def bad_request_def ct_answer_def)
    ultimately show ?thesis using assms(2) by (simp add: quiet_checked)
  next
    case False
    have "pool_checked e (ct_disk c) (ct_disk c1)"
      if "(if length nm \<noteq> 64 then bad_request ''Request has bad object name'' c
           else if is_method q ''PUT'' then put_object e len nm c
           else if is_method q ''GET'' then ct_answer None (pv_ctrl_process_get_file e (path_objects (e_g e) nm) c)
           else ct_answer (Some (-1)) c) = Done (r, cmd, c1)" for r cmd c1
      using that same put_object_checked [OF _ _ assms(2)] by (auto simp: bad_request_def ct_answer_def split: if_splits)
    with drop_tmp_checked [OF rep _ False] show ?thesis by blast
  qed
qed

lemma handle_step_quiet:
  assumes "handle_commitmsg e q len c = Done (r, cmd, c') \<or> handle_step e q len c = Done (r, cmd, c')"
  shows "quiet (e_g e) (ct_disk c) (ct_disk c')"
  using assms quiet_put_below [of _ _ len c _ cmd c' "e_g e"] not_pool_trails
  by (auto simp: handle_commitmsg_def handle_step_def path_trails_def path_trails_commitmsg_def ct_answer_def
      split: outcome.splits option.splits if_splits)

lemma handle_usermeta_quiet:
  assumes "handle_usermeta e q len c = Done (r, cmd, c')" "own_mount g"
  shows "quiet g (ct_disk c) (ct_disk c')"
proof -
  have add: "quiet g (ms_disk m) (ms_disk m')" if "pv_metadata_add_usermeta k v m = (n, m')" for k v m n m'
    using that quiet_save_usermeta [OF assms(2)] by (auto simp: pv_metadata_add_usermeta_def Let_def split: prod.splits if_splits)
  have rm: "quiet g (ms_disk m) (ms_disk m')" if "pv_metadata_rm_usermeta k m = (n, m')" for k m n m'
    using that quiet_rm_usermeta [OF assms(2)] by (auto simp: pv_metadata_rm_usermeta_def split: option.splits)
  show ?thesis
    using assms(1)
    by (auto simp: handle_usermeta_def bad_request_def ct_answer_def meta_of_def set_meta_def
        split: outcome.splits option.splits if_splits prod.splits dest!: get_body_disk add rm)
qed

lemma route_checked:
  assumes "route e q len c = Done (r, cmd, c')" "sealed (e_g e) (ct_disk c)" "own_mount (e_g e)"
  shows "pool_checked e (ct_disk c) (ct_disk c')"
proof -
  have same: "pool_checked e d d" for d by (simp add: pool_checked_def)
  have gs: "ct_disk c' = ct_disk c" if "get_string q b c = Done (r, cmd, c')" for b
    using that by (auto simp: get_string_def ct_answer_def split: if_splits)
  have pg: "ct_disk c' = ct_disk c" if "handle_progress e q c = Done (r, cmd, c')"
    using that by (auto simp: handle_progress_def ct_answer_def split: outcome.splits option.splits if_splits)
  have un: "ct_disk c' = ct_disk c" if "ct_answer (Some (-1)) c = Done (r, cmd, c')"
    using that by (simp add: ct_answer_def)
  have "handle_commands e q len c = Done (r, cmd, c') \<or> path_starts q ''/objects'' \<and> handle_object e q len c = Done (r, cmd, c') \<or>
      (\<exists>b. get_string q b c = Done (r, cmd, c')) \<or> handle_progress e q c = Done (r, cmd, c') \<or>
      (handle_commitmsg e q len c = Done (r, cmd, c') \<or> handle_step e q len c = Done (r, cmd, c')) \<or>
      handle_usermeta e q len c = Done (r, cmd, c') \<or> ct_answer (Some (-1)) c = Done (r, cmd, c')"
    using assms(1) unfolding route_def Let_def by (simp split: if_splits) blast+
  then show ?thesis
  proof (elim disjE conjE exE)
    assume "handle_commands e q len c = Done (r, cmd, c')"
    then show ?thesis using same by (simp add: handle_commands_disk)
  next
    assume "path_starts q ''/objects''" "handle_object e q len c = Done (r, cmd, c')"
    then show ?thesis using handle_object_checked [OF _ assms(2,3)] by blast
  next
    assume "handle_usermeta e q len c = Done (r, cmd, c')"
    then show ?thesis using quiet_checked [OF handle_usermeta_quiet [OF _ assms(3)] assms(2)] by blast
  next
    assume "handle_commitmsg e q len c = Done (r, cmd, c')"
    then show ?thesis using quiet_checked [OF handle_step_quiet [OF disjI1] assms(2)] by blast
  next
    assume "handle_step e q len c = Done (r, cmd, c')"
    then show ?thesis using quiet_checked [OF handle_step_quiet [OF disjI2] assms(2)] by blast
  qed (use same gs pg un in auto)
qed

lemma answer_disk [simp]: "ct_disk (answer_result r c) = ct_disk c"
  by (simp add: answer_result_def split: option.split)


text \<open>An example: an object whose digest is all zero, over an empty pool.\<close>

definition ex_put :: http_request where
  "ex_put = \<lparr>rq_method = ''PUT '', rq_method_len = 3, rq_path = ''/objects/'' @ replicate 64 CHR ''0'', rq_path_len = 73,
     rq_headers = [(''Content-Length: 2'', 14, ''2'')]\<rparr>"

definition ex_env :: cenv where
  "ex_env = \<lparr>e_g = ex_sconfig, e_phr = \<lambda>s. Some ex_put, e_toks = \<lambda>s. [], e_sha256 = \<lambda>s. replicate 32 0, e_clock = \<lambda>t. \<lparr>tv_sec = 0, tv_nsec = 0\<rparr>,
     e_stale = 0, e_date = \<lambda>s. [], e_manifest = [], e_sent = [], e_remote_mode = True, e_updating = False, e_unclaimed = False\<rparr>"

definition ex_pool :: disk where
  "ex_pool = \<lparr>d_nodes = [([''s''], Dir), ([''s'', ''objects''], Dir)], d_data = \<lambda>i. [], d_next = 0\<rparr>"

definition ex_cstate :: cstate where
  "ex_cstate = \<lparr>ct_sock = [Some (''PUT '' @ [CR, LF, CR, LF]), Some ''hi''], ct_out = [],
     ct_storage = \<lparr>st_disk = ex_pool, threshold_timer = \<lparr>t_type = RELATIV_TIMER, t_timeout = \<lparr>tv_sec = 0, tv_nsec = 0\<rparr>\<rparr>, loading_objects = False\<rparr>,
     ct_meta = \<lparr>usermeta = [], devmeta = [], devmeta_uploaded = True\<rparr>, ct_config = ex_config\<rparr>"

lemma ex_sealed: "sealed ex_sconfig ex_pool" and ex_own: "own_mount ex_sconfig"
proof -
  have "lookup ex_pool p \<noteq> Some (File i)" for p i by (simp add: lookup_def ex_pool_def)
  then show "sealed ex_sconfig ex_pool" by (simp add: sealed_def)
  show "own_mount ex_sconfig" by (simp add: own_mount_def ex_sconfig_def comps_def strtok_def)
qed


section \<open>What is answered\<close>

lemma get_digit_count_show: "0 < n \<Longrightarrow> get_digit_count n = int (length (show_int n)) + 1"
  by (simp add: get_digit_count_def show_int_def length_show_nat)

lemma length_show_nat_4: "n < 10000 \<Longrightarrow> length (show_nat n) \<le> 4"
  by (subst show_nat.simps, subst show_nat.simps, subst show_nat.simps, subst show_nat.simps) simp

text \<open>An error is answered with a header, a JSON object of exactly the length that the header gives,
  and one more byte, which is a NUL.\<close>

theorem error_response:
  fixes code :: http_status and message :: string
  defines "body \<equiv> ''{'' @ quoted ''Error'' @ '':'' @ quoted message @ ''}''"
  assumes "length message \<le> 3900"
  shows "response_bytes code message =
    ''HTTP/1.1 '' @ pv_ctrl_string_http_status_code code @ '' '' @ [CR, LF] @ ''Content-Length: '' @ show_int (int (length body)) @ [CR, LF] @
    ''Content-Type: application/json; charset=utf-8'' @ [CR, LF, CR, LF] @ body @ [NUL]"
proof -
  let ?st = "pv_ctrl_string_http_status_code code"
  define digits where "digits = show_int (int (length body))"
  define head where "head = ''HTTP/1.1 '' @ ?st @ '' '' @ [CR, LF] @ ''Content-Length: '' @ digits @ [CR, LF] @
    ''Content-Type: application/json; charset=utf-8'' @ [CR, LF, CR, LF]"
  have len: "int (length body) = 12 + int (length message)" by (simp add: body_def quoted_def)
  have response: "HTTP_RESPONSE ?st (12 + int (length message)) message = (head @ body) @ [CR, LF]"
    by (simp add: HTTP_RESPONSE_def head_def digits_def len) (simp add: body_def)
  have "length (head @ body) = 91 + length ?st + length digits + length message"
    using len by (simp add: head_def)
  moreover have "nat (get_digit_count (12 + int (length message))) = length digits + 1"
    by (simp add: get_digit_count_show digits_def len nat_add_distrib)
  moreover have "length ?st \<le> 25" by (cases code) simp_all
  moreover have "length digits \<le> 4"
    using assms(2) length_show_nat_4 [of "nat (int (length body))"] len by (simp add: digits_def show_int_def)
  ultimately show ?thesis using assms(2)
    by (simp add: response_bytes_def response HTTP_REQ_BUFFER_SIZE_def Let_def) (simp add: head_def digits_def)
qed

lemma path_starts_iff: "path_starts q ep \<longleftrightarrow> prefix ep (rq_path q)"
  using mem_starts_prefix [of "rq_path q" ep] by (auto simp: path_starts_def pv_str_startswith_def strneq_def mem_starts_def)

theorem error_response_witness:
  "response_bytes HTTP_STATUS_NOT_FOUND ''no'' =
    ''HTTP/1.1 404 Not Found '' @ [CR, LF] @ ''Content-Length: '' @ show_int 14 @ [CR, LF] @
    ''Content-Type: application/json; charset=utf-8'' @ [CR, LF, CR, LF] @ ''{'' @ quoted ''Error'' @ '':'' @ quoted ''no'' @ ''}'' @ [NUL]"
  using error_response [of "''no''" HTTP_STATUS_NOT_FOUND] by (simp add: quoted_def)

text \<open>A request for the progress or the commit message of a revision without a name makes the
  program run over its memory.\<close>

theorem unnamed_step_faults:
  assumes "rq_path q = endpoint @ rest" "rq_path_len q = length endpoint" "endpoint = ''/steps/progress'' \<or> endpoint = ''/steps/commitmsg''"
    and "pv_ctrl_get_value_header_int (rq_headers q) ''Content-Length'' \<noteq> 0"
  shows "handle_request e q c = Fault"
proof -
  have no: "\<not> path_starts q ''/commands''" "\<not> path_starts q ''/objects''" and steps: "path_starts q ''/steps''"
    using assms(1,3) by (auto simp: path_starts_iff)
  have len: "rq_path_len q = 15 \<or> rq_path_len q = 16" using assms(2,3) by auto
  then have diff: "\<not> path_is q ''/objects''" "\<not> path_is q ''/steps''" by (auto simp: path_is_def pv_str_matches_def)
  have "route e q len c = Fault" for len
    using assms(3)
  proof
    assume ep: "endpoint = ''/steps/progress''"
    then have "path_ends q ''/progress''" using assms(1,2) by (simp add: path_ends_def pv_str_endswith_def strneq_def)
    then show ?thesis
      using assms(2) ep by (simp add: route_def no diff steps handle_progress_def pv_ctrl_get_file_name_def)
  next
    assume ep: "endpoint = ''/steps/commitmsg''"
    then have "path_ends q ''/commitmsg''" "\<not> path_ends q ''/progress''"
      using assms(1,2) by (simp_all add: path_ends_def pv_str_endswith_def strneq_def)
    then show ?thesis
      using assms(2) ep by (simp add: route_def no diff steps handle_commitmsg_def pv_ctrl_get_file_name_def)
  qed
  with assms(4) show ?thesis by (simp add: handle_request_def Let_def)
qed

theorem unnamed_step_faults_witness:
  "handle_request ex_env (ex_put\<lparr>rq_path := ''/steps/progress HTTP/1.1'', rq_path_len := 15\<rparr>) ex_cstate = Fault"
  by (rule unnamed_step_faults [where endpoint = "''/steps/progress''" and rest = "'' HTTP/1.1''"])
    (simp_all add: ex_put_def pv_ctrl_get_value_header_int_def strneq_def atoi_def is_space_def digits_val_def is_digit_def)

lemma no_command_answer: "ct_answer v c = Done (r, cmd, c') \<Longrightarrow> cmd = None"
  by (simp add: ct_answer_def)

lemma no_command_put_object: "put_object e len nm c = Done (r, cmd, c') \<Longrightarrow> cmd = None"
  by (auto simp: put_object_def bad_request_def Let_def dest: no_command_answer split: prod.splits outcome.splits if_splits)

lemma no_command_handlers:
  "handle_object e q len c = Done (r, cmd, c') \<Longrightarrow> cmd = None"
  "get_string q b c = Done (r, cmd, c') \<Longrightarrow> cmd = None"
  "handle_progress e q c = Done (r, cmd, c') \<Longrightarrow> cmd = None"
  "handle_commitmsg e q len c = Done (r, cmd, c') \<Longrightarrow> cmd = None"
  "handle_step e q len c = Done (r, cmd, c') \<Longrightarrow> cmd = None"
  "handle_usermeta e q len c = Done (r, cmd, c') \<Longrightarrow> cmd = None"
  "ct_answer v c = Done (r, cmd, c') \<Longrightarrow> cmd = None"
  by (auto simp: handle_object_def drop_tmp_def bad_request_def get_string_def handle_progress_def handle_commitmsg_def
      handle_step_def put_below_def handle_usermeta_def
      dest: no_command_answer no_command_put_object split: outcome.splits option.splits if_splits prod.splits)


text \<open>A command whose text is a small JSON object, by HTTP and while nothing is being updated.\<close>

definition ex_post :: http_request where
  "ex_post = ex_put\<lparr>rq_method := ''POST /commands'', rq_method_len := 4, rq_path := ''/commands HTTP'', rq_path_len := 9,
     rq_headers := [(''Content-Length: 28'', 14, ''28'')]\<rparr>"

definition ex_cmd_env :: cenv where
  "ex_cmd_env = ex_env\<lparr>e_phr := \<lambda>s. Some ex_post, e_toks := \<lambda>s.
     [\<lparr>tk_type = JSMN_OBJECT, tk_start = 0, tk_end = 28, tk_size = 2\<rparr>,
      \<lparr>tk_type = JSMN_STRING, tk_start = 2, tk_end = 4, tk_size = 1\<rparr>, \<lparr>tk_type = JSMN_STRING, tk_start = 7, tk_end = 13, tk_size = 0\<rparr>,
      \<lparr>tk_type = JSMN_STRING, tk_start = 16, tk_end = 23, tk_size = 1\<rparr>, \<lparr>tk_type = JSMN_STRING, tk_start = 26, tk_end = 26, tk_size = 0\<rparr>]\<rparr>"

definition ex_cmd_state :: cstate where
  "ex_cmd_state = ex_cstate\<lparr>ct_sock := [Some (''POST '' @ [CR, LF, CR, LF]),
     Some (''{'' @ quoted ''op'' @ '':'' @ quoted ''RUN_GC'' @ '','' @ quoted ''payload'' @ '':'' @ quoted [] @ ''}'')]\<rparr>"


end
