(* ===== verification/Signature.thy ===== *)
theory Signature
  imports Metadata
begin

text \<open>
  \<open>signature.c\<close>: the signatures of a revision. Some values of its JSON are signatures over the JSON of
  the keys that their filters select; in the strict mode every key has to be covered by one. jsmn and
  the calls to mbedtls are parameters, a key is of any type. \<open>fnmatch\<close> of the C library is modelled for
  the flags in use; its brackets hold characters and ranges, no classes and no escapes.
\<close>

section \<open>fnmatch\<close>

text \<open>A bracket expression after its \<open>[\<close> and the negation: whether it has the character, and what
  follows it.\<close>

fun in_bracket :: "bool \<Rightarrow> string \<Rightarrow> char \<Rightarrow> (bool \<times> string) option" where
  "in_bracket first [] x = None"
| "in_bracket first [c] x = (if c = CHR '']'' \<and> \<not> first then Some (False, []) else None)"
| "in_bracket first [c, m] x = (if c = CHR '']'' \<and> \<not> first then Some (False, [m])
     else map_option (\<lambda>(b, r). (b \<or> x = c, r)) (in_bracket False [m] x))"
| "in_bracket first (c # m # d # ds) x = (if c = CHR '']'' \<and> \<not> first then Some (False, m # d # ds)
     else if m = CHR ''-'' \<and> d \<noteq> CHR '']''
       then map_option (\<lambda>(b, r). (b \<or> (of_char c :: nat) \<le> of_char x \<and> (of_char x :: nat) \<le> of_char d, r)) (in_bracket False ds x)
       else map_option (\<lambda>(b, r). (b \<or> x = c, r)) (in_bracket False (m # d # ds) x))"

definition bracket :: "string \<Rightarrow> char \<Rightarrow> (bool \<times> string) option" where
  "bracket ps x = (case ps of [] \<Rightarrow> None
     | c # cs \<Rightarrow> (if c = CHR ''!'' \<or> c = CHR ''^'' then map_option (\<lambda>(b, r). (\<not> b, r)) (in_bracket True cs x) else in_bracket True ps x))"

lemma in_bracket_shorter: "in_bracket first ps x = Some (b, r) \<Longrightarrow> length r < length ps"
proof (induction first ps x arbitrary: b r rule: in_bracket.induct)
  case (3 first c m x)
  then show ?case by (auto split: if_splits)
next
  case (4 first c m d ds x)
  then show ?case by (auto split: if_splits) (fastforce dest: less_SucI)+
qed (auto split: if_splits)

lemma bracket_shorter: "bracket ps x = Some y \<Longrightarrow> length (snd y) < length ps"
  by (cases y) (auto simp: bracket_def split: list.splits if_splits dest!: in_bracket_shorter)

text \<open>\<open>!fnmatch(p, s, FNM_PATHNAME)\<close>, with \<open>FNM_LEADING_DIR\<close> when \<open>dir\<close> is set.\<close>

function fnmatches :: "bool \<Rightarrow> string \<Rightarrow> string \<Rightarrow> bool" where
  "fnmatches dir [] s = (s = [] \<or> dir \<and> hd s = CHR ''/'')"
| "fnmatches dir (p # ps) [] = (p = CHR ''*'' \<and> fnmatches dir ps [])"
| "fnmatches dir (p # ps) (x # xs) =
     (if p = CHR ''?'' then x \<noteq> CHR ''/'' \<and> fnmatches dir ps xs
      else if p = CHR ''*'' then fnmatches dir ps (x # xs) \<or> x \<noteq> CHR ''/'' \<and> fnmatches dir (p # ps) xs
      else if p = BACKSLASH then (case ps of [] \<Rightarrow> False | c # cs \<Rightarrow> x = c \<and> fnmatches dir cs xs)
      else if p = CHR ''['' then (case bracket ps x of None \<Rightarrow> x = p \<and> fnmatches dir ps xs
         | Some br \<Rightarrow> x \<noteq> CHR ''/'' \<and> fst br \<and> fnmatches dir (snd br) xs)
      else x = p \<and> fnmatches dir ps xs)"
  by pat_completeness auto
termination
  by (relation "measure (\<lambda>(dir, ps, s). length ps + length s)") (auto dest!: bracket_shorter)

declare fnmatches.simps(3) [simp del]

section \<open>Signatures and their headers\<close>

record pv_signature_pair =
  pr_key :: string
  pr_value :: string
  pr_included :: bool
  pr_covered :: bool

record pv_signature =
  sg_protected :: "string option"
  sg_signature :: "string option"

record pv_signature_headers_pvs =
  hp_include :: "string option"
  hp_exclude :: "string option"

record pv_signature_headers =
  h_alg :: string
  h_x5c :: "string option"
  h_pvs :: "pv_signature_headers_pvs option"

text \<open>\<open>se_x509\<close> is the key of the first certificate when the chain is parsed and verified, \<open>se_pk\<close> the
  key of the key file, \<open>se_verify\<close> the verification of a hash.\<close>

record 'k sig_env =
  se_parse :: "string \<Rightarrow> jsmntok list option"
  se_count :: "string \<Rightarrow> int"
  se_keys :: "string \<Rightarrow> (string \<times> string) list"
  se_decode :: "string \<Rightarrow> string option"
  se_encode :: "string \<Rightarrow> string option"
  se_behind :: string
  se_x509 :: "string list \<Rightarrow> 'k option"
  se_pk :: "'k option"
  se_pk_ok :: "'k \<Rightarrow> bool"
  se_md :: "string \<Rightarrow> string option"
  se_verify :: "'k \<Rightarrow> string \<Rightarrow> string \<Rightarrow> bool"

text \<open>A text that is no JSON leaves the structure as it was allocated, without the values.\<close>

definition pv_signature_parse_pvs :: "'k sig_env \<Rightarrow> string \<Rightarrow> pv_signature option" where
  "pv_signature_parse_pvs e json = (case se_parse e json of None \<Rightarrow> Some \<lparr>sg_protected = None, sg_signature = None\<rparr>
     | Some toks \<Rightarrow> (case pv_json_get_value json ''#spec'' toks of None \<Rightarrow> None
         | Some spec \<Rightarrow> (if \<not> pv_str_matches spec (length spec) ''pvs@2'' 5 then None
             else case (pv_json_get_value json ''protected'' toks, pv_json_get_value json ''signature'' toks) of
                 (Some p, Some s) \<Rightarrow> Some \<lparr>sg_protected = Some p, sg_signature = Some s\<rparr>
               | _ \<Rightarrow> None)))"

definition pv_signature_parse_headers_pvs :: "'k sig_env \<Rightarrow> string \<Rightarrow> pv_signature_headers_pvs option" where
  "pv_signature_parse_headers_pvs e json = (case se_parse e json of None \<Rightarrow> Some \<lparr>hp_include = None, hp_exclude = None\<rparr>
     | Some toks \<Rightarrow> (case (pv_json_get_value json ''include'' toks, pv_json_get_value json ''exclude'' toks) of
           (Some i, Some x) \<Rightarrow> Some \<lparr>hp_include = Some i, hp_exclude = Some x\<rparr>
         | _ \<Rightarrow> None))"

definition pv_signature_parse_protected :: "'k sig_env \<Rightarrow> string option \<Rightarrow> pv_signature_headers option outcome" where
  "pv_signature_parse_protected e protected = (case protected of None \<Rightarrow> Fault
     | Some p \<Rightarrow> Done (case pv_base64_url_decode (se_decode e) (se_behind e) p of None \<Rightarrow> None
         | Some text \<Rightarrow> (let json = cstr text in case se_parse e json of None \<Rightarrow> None
             | Some toks \<Rightarrow> (case pv_json_get_value json ''typ'' toks of None \<Rightarrow> None
                 | Some typ \<Rightarrow> (if \<not> pv_str_matches typ (length typ) ''PVS'' 3 then None
                     else case (pv_json_get_value json ''pvs'' toks, pv_json_get_value json ''alg'' toks) of
                         (Some pvs, Some alg) \<Rightarrow> Some \<lparr>h_alg = alg, h_x5c = pv_json_get_value json ''x5c'' toks,
                            h_pvs = pv_signature_parse_headers_pvs e pvs\<rparr>
                       | _ \<Rightarrow> None)))))"

section \<open>Filters\<close>

text \<open>The pattern of a filter and whether it matches what is below, too. \<open>dirname\<close> of a path that ends
  in \<open>/**\<close> is the path without it and the slashes before.\<close>

definition filter_pattern :: "string \<Rightarrow> string \<times> bool" where
  "filter_pattern str =
     (if pv_str_matches ''**'' 2 str (length str) then ([], True)
      else if pv_str_endswith ''/**'' 3 str (length str)
        then (let d = rev (dropWhile is_slash (rev (take (length str - 3) str))) in (if d = [] then ''/'' else d), True)
      else (str, False))"

definition filter_matches :: "string \<Rightarrow> string \<Rightarrow> bool" where
  "filter_matches str key = (case filter_pattern str of (path, dir) \<Rightarrow> fnmatches dir path key)"

definition mark_pairs :: "bool \<Rightarrow> string \<Rightarrow> pv_signature_pair list \<Rightarrow> pv_signature_pair list" where
  "mark_pairs inc str ps = map (\<lambda>p. if filter_matches str (pr_key p) then p\<lparr>pr_included := inc, pr_covered := True\<rparr> else p) ps"

definition json_array :: "'k sig_env \<Rightarrow> string \<Rightarrow> string list outcome option" where
  "json_array e json = (case se_parse e json of None \<Rightarrow> None
     | Some toks \<Rightarrow> (if se_count e json \<le> 0 then None else Some (array_strings json (se_count e json, tl toks))))"

definition pv_signature_include_files :: "'k sig_env \<Rightarrow> string option \<Rightarrow> bool \<Rightarrow> pv_signature_pair list \<Rightarrow> pv_signature_pair list outcome" where
  "pv_signature_include_files e json inc ps = (case json of None \<Rightarrow> Fault
     | Some js \<Rightarrow> (case json_array e js of None \<Rightarrow> Done ps
         | Some Fault \<Rightarrow> Fault
         | Some (Done strs) \<Rightarrow> Done (foldl (\<lambda>ps str. mark_pairs inc str ps) ps strs)))"

definition pv_signature_reset_included :: "pv_signature_pair list \<Rightarrow> pv_signature_pair list" where
  "pv_signature_reset_included ps = map (pr_included_update (\<lambda>_. False)) ps"

definition pv_signature_filter_files :: "'k sig_env \<Rightarrow> pv_signature_headers_pvs option \<Rightarrow> pv_signature_pair list \<Rightarrow> pv_signature_pair list outcome" where
  "pv_signature_filter_files e pvs ps = (case pvs of None \<Rightarrow> Fault
     | Some h \<Rightarrow> (case pv_signature_include_files e (hp_include h) True ps of Fault \<Rightarrow> Fault
         | Done ps' \<Rightarrow> pv_signature_include_files e (hp_exclude h) False ps'))"

definition pv_signature_get_certs_raw :: "'k sig_env \<Rightarrow> string option \<Rightarrow> string list option outcome" where
  "pv_signature_get_certs_raw e x5c = (case x5c of None \<Rightarrow> Done (Some [])
     | Some js \<Rightarrow> (case json_array e js of None \<Rightarrow> Done None
         | Some Fault \<Rightarrow> Fault
         | Some (Done strs) \<Rightarrow> Done (Some strs)))"

section \<open>The signed text\<close>

definition pair_line :: "string \<times> string \<Rightarrow> string" where
  "pair_line kv = (case kv of (k, v) \<Rightarrow> if v \<noteq> [] \<and> hd v = CHR ''{'' then frag_json k v else frag_string k v)"

definition files_json :: "(string \<times> string) list \<Rightarrow> string" where
  "files_json kvs = (if kvs = [] then ''{}'' else close_brace (''{'' @ concat (map pair_line kvs)))"

definition pr_kv :: "pv_signature_pair \<Rightarrow> string \<times> string" where
  "pr_kv p = (pr_key p, pr_value p)"

definition pv_signature_get_json_files :: "pv_signature_pair list \<Rightarrow> string" where
  "pv_signature_get_json_files ps = files_json (map pr_kv (filter pr_included ps))"

definition pv_signature_get_filtered_json :: "'k sig_env \<Rightarrow> pv_signature_headers_pvs option \<Rightarrow> pv_signature_pair list \<Rightarrow> (string \<times> pv_signature_pair list) outcome" where
  "pv_signature_get_filtered_json e pvs ps =
     (case pv_signature_filter_files e pvs (pv_signature_reset_included ps) of Fault \<Rightarrow> Fault
      | Done ps' \<Rightarrow> Done (pv_signature_get_json_files ps', ps'))"

section \<open>Verification\<close>

fun decode_certs :: "'k sig_env \<Rightarrow> string list \<Rightarrow> string list option" where
  "decode_certs e [] = Some []"
| "decode_certs e (c # cs) = (case se_decode e c of None \<Rightarrow> None | Some d \<Rightarrow> map_option (\<lambda>ds. d # ds) (decode_certs e cs))"

definition pv_signature_parse_certs :: "'k sig_env \<Rightarrow> string list \<Rightarrow> 'k option" where
  "pv_signature_parse_certs e cs = (case decode_certs e cs of None \<Rightarrow> None | Some ds \<Rightarrow> se_x509 e ds)"

definition sig_key :: "'k sig_env \<Rightarrow> string list \<Rightarrow> 'k option" where
  "sig_key e certs = (if certs \<noteq> [] then pv_signature_parse_certs e certs else se_pk e)"

definition pv_signature_verify_sha256 :: "'k sig_env \<Rightarrow> string \<Rightarrow> string list \<Rightarrow> pv_signature \<Rightarrow> bool outcome" where
  "pv_signature_verify_sha256 e payload certs sig = (case sig_key e certs of None \<Rightarrow> Done False
     | Some pk \<Rightarrow> (if \<not> se_pk_ok e pk then Done False
         else case pv_base64_url_encode (se_encode e) payload of None \<Rightarrow> Done False
           | Some files_encoded \<Rightarrow> (case (sg_protected sig, sg_signature sig) of
               (Some p, Some s) \<Rightarrow> Done (case se_md e (p @ ''.'' @ files_encoded) of None \<Rightarrow> False
                  | Some hash \<Rightarrow> (case pv_base64_url_decode (se_decode e) (se_behind e) s of None \<Rightarrow> False
                      | Some sd \<Rightarrow> se_verify e pk hash sd))
             | _ \<Rightarrow> Fault)))"

text \<open>Without headers the list of certificates is released before it is initialized.\<close>

definition alg_known :: "string \<Rightarrow> bool" where
  "alg_known alg \<longleftrightarrow> pv_str_matches alg (length alg) ''RS256'' 5 \<or> pv_str_matches alg (length alg) ''ES256'' 5"

definition pv_signature_verify_pvs :: "'k sig_env \<Rightarrow> pv_signature \<Rightarrow> pv_signature_pair list \<Rightarrow> (bool \<times> pv_signature_pair list) outcome" where
  "pv_signature_verify_pvs e sig ps = (case pv_signature_parse_protected e (sg_protected sig) of
       Fault \<Rightarrow> Fault
     | Done None \<Rightarrow> Fault
     | Done (Some h) \<Rightarrow> (case pv_signature_get_certs_raw e (h_x5c h) of
           Fault \<Rightarrow> Fault
         | Done None \<Rightarrow> Done (False, ps)
         | Done (Some certs) \<Rightarrow> (case pv_signature_get_filtered_json e (h_pvs h) ps of
               Fault \<Rightarrow> Fault
             | Done (payload, ps') \<Rightarrow>
                 (if alg_known (h_alg h)
                  then (case pv_signature_verify_sha256 e payload certs sig of Fault \<Rightarrow> Fault | Done ok \<Rightarrow> Done (ok, ps'))
                  else Done (False, ps')))))"

text \<open>Over the values of the list; the marks are those of the signatures so far.\<close>

fun verify_each :: "'k sig_env \<Rightarrow> string list \<Rightarrow> pv_signature_pair list \<Rightarrow> (bool \<times> pv_signature_pair list) outcome" where
  "verify_each e [] ps = Done (True, ps)"
| "verify_each e (v # vs) ps = (case pv_signature_parse_pvs e v of
       None \<Rightarrow> verify_each e vs ps
     | Some sig \<Rightarrow> (case pv_signature_verify_pvs e sig ps of Fault \<Rightarrow> Fault
         | Done (ok, ps') \<Rightarrow> (if ok then verify_each e vs ps' else Done (False, ps'))))"

definition pv_signature_verify_pairs :: "'k sig_env \<Rightarrow> pv_signature_pair list \<Rightarrow> (bool \<times> pv_signature_pair list) outcome" where
  "pv_signature_verify_pairs e ps = verify_each e (map pr_value ps) ps"

definition pv_signature_all_covered :: "pv_signature_pair list \<Rightarrow> bool" where
  "pv_signature_all_covered ps = list_all (\<lambda>p. pv_str_startswith ''_sigs/'' 6 (pr_key p) \<or> pr_covered p) ps"

definition pv_signature_parse_json :: "'k sig_env \<Rightarrow> string \<Rightarrow> pv_signature_pair list" where
  "pv_signature_parse_json e json = (case se_parse e json of None \<Rightarrow> []
     | Some toks \<Rightarrow> map (\<lambda>(k, v). \<lparr>pr_key = k, pr_value = v, pr_included = False, pr_covered = False\<rparr>) (se_keys e json))"

definition pv_signature_verify :: "'k sig_env \<Rightarrow> secureboot_mode \<Rightarrow> string \<Rightarrow> bool outcome" where
  "pv_signature_verify e mode json =
     (if mode = SB_DISABLED then Done True
      else case pv_signature_verify_pairs e (pv_signature_parse_json e json) of Fault \<Rightarrow> Fault
        | Done (ok, ps) \<Rightarrow> Done (ok \<and> \<not> (mode = SB_STRICT \<and> \<not> pv_signature_all_covered ps)))"

section \<open>What the filters select\<close>

text \<open>A key is selected when a filter of the first list matches it and none of the second.\<close>

definition selects :: "string list \<Rightarrow> string list \<Rightarrow> string \<Rightarrow> bool" where
  "selects inc exc k \<longleftrightarrow> (\<exists>f \<in> set inc. filter_matches f k) \<and> \<not> (\<exists>f \<in> set exc. filter_matches f k)"

definition touches :: "string list \<Rightarrow> string list \<Rightarrow> string \<Rightarrow> bool" where
  "touches inc exc k \<longleftrightarrow> (\<exists>f \<in> set inc \<union> set exc. filter_matches f k)"

definition filter_list :: "'k sig_env \<Rightarrow> string option \<Rightarrow> string list option" where
  "filter_list e json = (case json of None \<Rightarrow> None
     | Some js \<Rightarrow> (case json_array e js of None \<Rightarrow> Some [] | Some Fault \<Rightarrow> None | Some (Done strs) \<Rightarrow> Some strs))"

definition filtered_pair :: "string list \<Rightarrow> string list \<Rightarrow> pv_signature_pair \<Rightarrow> pv_signature_pair" where
  "filtered_pair inc exc p = p\<lparr>pr_included := selects inc exc (pr_key p), pr_covered := pr_covered p \<or> touches inc exc (pr_key p)\<rparr>"

definition mark :: "bool \<Rightarrow> string list \<Rightarrow> pv_signature_pair \<Rightarrow> pv_signature_pair" where
  "mark inc strs p = (if \<exists>f \<in> set strs. filter_matches f (pr_key p) then p\<lparr>pr_included := inc, pr_covered := True\<rparr> else p)"

lemma pr_key_mark [simp]: "pr_key (mark inc strs p) = pr_key p"
  by (simp add: mark_def)

lemma mark_fold: "foldl (\<lambda>ps str. mark_pairs inc str ps) ps strs = map (mark inc strs) ps"
proof (induction strs arbitrary: ps)
  case Nil
  show ?case by (simp add: map_idI mark_def)
next
  case (Cons f fs)
  have "mark inc fs (if filter_matches f (pr_key p) then p\<lparr>pr_included := inc, pr_covered := True\<rparr> else p) = mark inc (f # fs) p" for p
    by (simp add: mark_def)
  then show ?case by (simp add: Cons [unfolded mark_pairs_def] mark_pairs_def)
qed

lemma mark_none: "map (mark inc []) ps = ps"
  by (rule map_idI) (simp add: mark_def)

lemma include_files_filter: "pv_signature_include_files e json inc ps
    = (case filter_list e json of None \<Rightarrow> Fault | Some strs \<Rightarrow> Done (map (mark inc strs) ps))"
  by (auto simp: pv_signature_include_files_def filter_list_def mark_fold mark_none split: option.splits outcome.splits)

lemma mark_twice: "mark False exc (mark True inc (p\<lparr>pr_included := False\<rparr>)) = filtered_pair inc exc p"
  by (cases p) (auto simp: mark_def filtered_pair_def selects_def touches_def)

lemma filtered_pair_sel [simp]: "pr_key (filtered_pair inc exc p) = pr_key p" "pr_value (filtered_pair inc exc p) = pr_value p" "pr_kv (filtered_pair inc exc p) = pr_kv p"
    "pr_included (filtered_pair inc exc p) = selects inc exc (pr_key p)"
    "pr_covered (filtered_pair inc exc p) \<longleftrightarrow> pr_covered p \<or> touches inc exc (pr_key p)"
  by (simp_all add: filtered_pair_def pr_kv_def)

lemma filtered_json:
  assumes "pv_signature_get_filtered_json e pvs ps = Done (payload, ps')"
  obtains h inc exc where "pvs = Some h" "filter_list e (hp_include h) = Some inc" "filter_list e (hp_exclude h) = Some exc"
    "ps' = map (filtered_pair inc exc) ps"
    "payload = files_json (filter (\<lambda>kv. selects inc exc (fst kv)) (map pr_kv ps))"
proof -
  obtain h inc exc where h: "pvs = Some h" "filter_list e (hp_include h) = Some inc" "filter_list e (hp_exclude h) = Some exc"
      and ps: "ps' = map (mark False exc) (map (mark True inc) (pv_signature_reset_included ps))"
      and pay: "payload = pv_signature_get_json_files ps'"
    using assms by (auto simp: pv_signature_get_filtered_json_def pv_signature_filter_files_def include_files_filter split: option.splits outcome.splits)
  have 1: "ps' = map (filtered_pair inc exc) ps"
    by (simp add: ps pv_signature_reset_included_def mark_twice[unfolded pv_signature_pair.defs] o_def)
  have "map pr_kv (filter pr_included ps') = filter (\<lambda>kv. selects inc exc (fst kv)) (map pr_kv ps)"
    by (simp add: 1 filter_map o_def pr_kv_def)
  then have "payload = files_json (filter (\<lambda>kv. selects inc exc (fst kv)) (map pr_kv ps))"
    by (simp add: pay pv_signature_get_json_files_def)
  from that [OF h 1 this] show ?thesis .
qed

section \<open>What is verified\<close>

text \<open>A signature is valid over a payload when the key that it is for verifies the hash of its header
  and the encoded payload.\<close>

definition sig_valid :: "'k sig_env \<Rightarrow> pv_signature \<Rightarrow> string list \<Rightarrow> string \<Rightarrow> bool" where
  "sig_valid e sig certs payload \<longleftrightarrow> (\<exists>pk enc p s hash sd. sig_key e certs = Some pk \<and> se_pk_ok e pk
     \<and> pv_base64_url_encode (se_encode e) payload = Some enc \<and> sg_protected sig = Some p \<and> sg_signature sig = Some s
     \<and> se_md e (p @ ''.'' @ enc) = Some hash \<and> pv_base64_url_decode (se_decode e) (se_behind e) s = Some sd
     \<and> se_verify e pk hash sd)"

text \<open>The value is a signature with these filters, valid over what they select of the pairs.\<close>

definition signs :: "'k sig_env \<Rightarrow> (string \<times> string) list \<Rightarrow> string \<Rightarrow> string list \<Rightarrow> string list \<Rightarrow> bool" where
  "signs e kvs v inc exc \<longleftrightarrow> (\<exists>sig h p certs. pv_signature_parse_pvs e v = Some sig
     \<and> pv_signature_parse_protected e (sg_protected sig) = Done (Some h) \<and> alg_known (h_alg h)
     \<and> pv_signature_get_certs_raw e (h_x5c h) = Done (Some certs) \<and> h_pvs h = Some p
     \<and> filter_list e (hp_include p) = Some inc \<and> filter_list e (hp_exclude p) = Some exc
     \<and> sig_valid e sig certs (files_json (filter (\<lambda>kv. selects inc exc (fst kv)) kvs)))"

lemma verify_sha256_valid: "pv_signature_verify_sha256 e payload certs sig = Done True \<Longrightarrow> sig_valid e sig certs payload"
  by (auto simp: pv_signature_verify_sha256_def sig_valid_def split: option.splits if_splits)

lemma verify_pvs_signs:
  assumes p: "pv_signature_parse_pvs e v = Some sig" and r: "pv_signature_verify_pvs e sig ps = Done (True, ps')"
  obtains inc exc where "signs e (map pr_kv ps) v inc exc" "ps' = map (filtered_pair inc exc) ps"
proof -
  obtain h certs payload where h: "pv_signature_parse_protected e (sg_protected sig) = Done (Some h)" "alg_known (h_alg h)"
      "pv_signature_get_certs_raw e (h_x5c h) = Done (Some certs)"
      and f: "pv_signature_get_filtered_json e (h_pvs h) ps = Done (payload, ps')"
      and s: "pv_signature_verify_sha256 e payload certs sig = Done True"
    using r by (auto simp: pv_signature_verify_pvs_def split: outcome.splits option.splits if_splits prod.splits)
  from f show ?thesis
  proof (rule filtered_json)
    fix q inc exc
    assume q: "h_pvs h = Some q" "filter_list e (hp_include q) = Some inc" "filter_list e (hp_exclude q) = Some exc"
      and ps': "ps' = map (filtered_pair inc exc) ps"
      and pay: "payload = files_json (filter (\<lambda>kv. selects inc exc (fst kv)) (map pr_kv ps))"
    have "signs e (map pr_kv ps) v inc exc"
      using p h q verify_sha256_valid [OF s] unfolding signs_def pay by blast
    from that [OF this ps'] show ?thesis .
  qed
qed

text \<open>After the whole list every signature of it is valid, and what is marked was marked or is touched
  by a filter of one of them.\<close>

lemma verify_each_signs:
  assumes "verify_each e vs ps = Done (True, ps')"
  shows "(\<forall>v \<in> set vs. pv_signature_parse_pvs e v \<noteq> None \<longrightarrow> (\<exists>inc exc. signs e (map pr_kv ps) v inc exc))
    \<and> map pr_kv ps' = map pr_kv ps
    \<and> (\<forall>p \<in> set ps'. pr_covered p \<longrightarrow> (\<exists>q \<in> set ps. pr_key q = pr_key p \<and> pr_covered q)
         \<or> (\<exists>v \<in> set vs. \<exists>inc exc. signs e (map pr_kv ps) v inc exc \<and> touches inc exc (pr_key p)))"
  using assms
proof (induction vs arbitrary: ps)
  case Nil
  then show ?case by auto
next
  case (Cons v vs)
  show ?case
  proof (cases "pv_signature_parse_pvs e v")
    case None
    then have "verify_each e vs ps = Done (True, ps')" using Cons.prems by simp
    from Cons.IH [OF this] None show ?thesis by fastforce
  next
    case (Some sig)
    then obtain ps1 where 1: "pv_signature_verify_pvs e sig ps = Done (True, ps1)" and r: "verify_each e vs ps1 = Done (True, ps')"
      using Cons.prems by (auto split: outcome.splits prod.splits if_splits)
    from Some 1 show ?thesis
    proof (rule verify_pvs_signs)
      fix inc exc
      assume s: "signs e (map pr_kv ps) v inc exc" and p1: "ps1 = map (filtered_pair inc exc) ps"
      have kv: "map pr_kv ps1 = map pr_kv ps" by (simp add: p1)
      note ih = Cons.IH [OF r, unfolded kv]
      have "(\<exists>q \<in> set ps. pr_key q = pr_key p \<and> pr_covered q)
          \<or> (\<exists>v \<in> set (v # vs). \<exists>inc exc. signs e (map pr_kv ps) v inc exc \<and> touches inc exc (pr_key p))"
        if p: "p \<in> set ps'" "pr_covered p" for p
      proof -
        have "(\<exists>q \<in> set ps1. pr_key q = pr_key p \<and> pr_covered q)
            \<or> (\<exists>v \<in> set vs. \<exists>inc exc. signs e (map pr_kv ps) v inc exc \<and> touches inc exc (pr_key p))"
          using ih p by blast
        then show ?thesis using s by (fastforce simp: p1)
      qed
      with ih s show ?thesis by auto
    qed
  qed
qed

lemma parse_json_kv: "se_parse e json \<noteq> None \<Longrightarrow> map pr_kv (pv_signature_parse_json e json) = se_keys e json"
    "p \<in> set (pv_signature_parse_json e json) \<Longrightarrow> \<not> pr_covered p"
  by (auto simp: pv_signature_parse_json_def pr_kv_def o_def case_prod_beta split: option.splits)

lemma parse_json_values: "se_parse e json \<noteq> None \<Longrightarrow> map pr_value (pv_signature_parse_json e json) = map snd (se_keys e json)"
  by (auto simp: pv_signature_parse_json_def case_prod_beta)

lemma verify_accepts:
  assumes "pv_signature_verify e mode json = Done True" "mode \<noteq> SB_DISABLED" "se_parse e json \<noteq> None"
  obtains ps' where "verify_each e (map snd (se_keys e json)) (pv_signature_parse_json e json) = Done (True, ps')"
    "mode = SB_STRICT \<longrightarrow> pv_signature_all_covered ps'"
  using assms by (auto simp: pv_signature_verify_def pv_signature_verify_pairs_def parse_json_values split: outcome.splits prod.splits)

section \<open>Properties\<close>

definition no_sig :: "string \<Rightarrow> bool" where
  "no_sig k \<longleftrightarrow> \<not> pv_str_startswith ''_sigs/'' 6 k"

lemma covered_by:
  assumes "pv_signature_verify e SB_STRICT json = Done True" "se_parse e json \<noteq> None" "(k, v) \<in> set (se_keys e json)" "no_sig k"
  shows "\<exists>sv \<in> snd ` set (se_keys e json). \<exists>inc exc. signs e (se_keys e json) sv inc exc \<and> touches inc exc k"
proof -
  from assms(1) _ assms(2) obtain ps' where r: "verify_each e (map snd (se_keys e json)) (pv_signature_parse_json e json) = Done (True, ps')"
      and c: "pv_signature_all_covered ps'" by (rule verify_accepts) simp_all
  note kv = parse_json_kv(1) [OF assms(2)]
  note each = verify_each_signs [OF r, unfolded kv]
  have "(k, v) \<in> pr_kv ` set ps'"
    using each assms(3) by (metis list.set_map)
  then obtain p where p: "p \<in> set ps'" "pr_key p = k" by (auto simp: pr_kv_def)
  then have "pr_covered p" using c assms(4) by (auto simp: pv_signature_all_covered_def no_sig_def list_all_iff)
  then have "(\<exists>q \<in> set (pv_signature_parse_json e json). pr_key q = pr_key p \<and> pr_covered q)
       \<or> (\<exists>v \<in> set (map snd (se_keys e json)). \<exists>inc exc. signs e (se_keys e json) v inc exc \<and> touches inc exc (pr_key p))"
    using each p(1) by blast
  then show ?thesis using p(2) by (auto dest: parse_json_kv(2))
qed

lemma files_json_all: "kv \<in> set kvs \<Longrightarrow> \<exists>a b. files_json kvs = close_brace (''{'' @ a @ pair_line kv @ b)"
proof -
  assume "kv \<in> set kvs"
  then obtain xs ys where "kvs = xs @ kv # ys" by (auto simp: in_set_conv_decomp)
  then have "files_json kvs = close_brace (''{'' @ concat (map pair_line xs) @ pair_line kv @ concat (map pair_line ys))"
    by (simp add: files_json_def)
  then show ?thesis by blast
qed

text \<open>An example: \<open>app/x\<close> is signed, \<open>etc/x\<close> is excluded. The hash and the codes are the identity.\<close>

definition ex_include :: string where
  "ex_include = ''['' @ quoted ''app/**'' @ '']''"

definition ex_exclude :: string where
  "ex_exclude = ''['' @ quoted ''etc/**'' @ '']''"

definition ex_filters :: string where
  "ex_filters = ''{'' @ quoted ''include'' @ '':['' @ quoted ''app/**'' @ ''],'' @ quoted ''exclude'' @ '':['' @ quoted ''etc/**'' @ '']}''"

definition ex_header :: string where
  "ex_header = ''{'' @ quoted ''typ'' @ '':'' @ quoted ''PVS'' @ '','' @ quoted ''alg'' @ '':'' @ quoted ''RS256'' @ '','' @ quoted ''pvs'' @ '':{'' @ quoted ''include'' @ '':['' @ quoted ''app/**'' @ ''],'' @ quoted ''exclude'' @ '':['' @ quoted ''etc/**'' @ '']}}''"

definition ex_signature :: string where
  "ex_signature = ''{'' @ quoted ''#spec'' @ '':'' @ quoted ''pvs@2'' @ '','' @ quoted ''protected'' @ '':'' @ quoted ''cHJv'' @ '','' @ quoted ''signature'' @ '':'' @ quoted ''c2ln'' @ ''}''"

definition ex_sig_toks :: "string \<Rightarrow> jsmntok list option" where
  "ex_sig_toks s =
     (if s = ex_include then Some [\<lparr>tk_type = JSMN_ARRAY, tk_start = 0, tk_end = 10, tk_size = 1\<rparr>, \<lparr>tk_type = JSMN_STRING, tk_start = 2, tk_end = 8, tk_size = 0\<rparr>] else
     (if s = ex_exclude then Some [\<lparr>tk_type = JSMN_ARRAY, tk_start = 0, tk_end = 10, tk_size = 1\<rparr>, \<lparr>tk_type = JSMN_STRING, tk_start = 2, tk_end = 8, tk_size = 0\<rparr>] else
     (if s = ex_filters then Some [\<lparr>tk_type = JSMN_OBJECT, tk_start = 0, tk_end = 43, tk_size = 2\<rparr>, \<lparr>tk_type = JSMN_STRING, tk_start = 2, tk_end = 9, tk_size = 0\<rparr>, \<lparr>tk_type = JSMN_ARRAY, tk_start = 11, tk_end = 21, tk_size = 1\<rparr>, \<lparr>tk_type = JSMN_STRING, tk_start = 13, tk_end = 19, tk_size = 0\<rparr>, \<lparr>tk_type = JSMN_STRING, tk_start = 23, tk_end = 30, tk_size = 0\<rparr>, \<lparr>tk_type = JSMN_ARRAY, tk_start = 32, tk_end = 42, tk_size = 1\<rparr>, \<lparr>tk_type = JSMN_STRING, tk_start = 34, tk_end = 40, tk_size = 0\<rparr>] else
     (if s = ex_header then Some [\<lparr>tk_type = JSMN_OBJECT, tk_start = 0, tk_end = 77, tk_size = 3\<rparr>, \<lparr>tk_type = JSMN_STRING, tk_start = 2, tk_end = 5, tk_size = 0\<rparr>, \<lparr>tk_type = JSMN_STRING, tk_start = 8, tk_end = 11, tk_size = 0\<rparr>, \<lparr>tk_type = JSMN_STRING, tk_start = 14, tk_end = 17, tk_size = 0\<rparr>, \<lparr>tk_type = JSMN_STRING, tk_start = 20, tk_end = 25, tk_size = 0\<rparr>, \<lparr>tk_type = JSMN_STRING, tk_start = 28, tk_end = 31, tk_size = 0\<rparr>, \<lparr>tk_type = JSMN_OBJECT, tk_start = 33, tk_end = 76, tk_size = 2\<rparr>, \<lparr>tk_type = JSMN_STRING, tk_start = 35, tk_end = 42, tk_size = 0\<rparr>, \<lparr>tk_type = JSMN_ARRAY, tk_start = 44, tk_end = 54, tk_size = 1\<rparr>, \<lparr>tk_type = JSMN_STRING, tk_start = 46, tk_end = 52, tk_size = 0\<rparr>, \<lparr>tk_type = JSMN_STRING, tk_start = 56, tk_end = 63, tk_size = 0\<rparr>, \<lparr>tk_type = JSMN_ARRAY, tk_start = 65, tk_end = 75, tk_size = 1\<rparr>, \<lparr>tk_type = JSMN_STRING, tk_start = 67, tk_end = 73, tk_size = 0\<rparr>] else
     (if s = ex_signature then Some [\<lparr>tk_type = JSMN_OBJECT, tk_start = 0, tk_end = 55, tk_size = 3\<rparr>, \<lparr>tk_type = JSMN_STRING, tk_start = 2, tk_end = 7, tk_size = 0\<rparr>, \<lparr>tk_type = JSMN_STRING, tk_start = 10, tk_end = 15, tk_size = 0\<rparr>, \<lparr>tk_type = JSMN_STRING, tk_start = 18, tk_end = 27, tk_size = 0\<rparr>, \<lparr>tk_type = JSMN_STRING, tk_start = 30, tk_end = 34, tk_size = 0\<rparr>, \<lparr>tk_type = JSMN_STRING, tk_start = 37, tk_end = 46, tk_size = 0\<rparr>, \<lparr>tk_type = JSMN_STRING, tk_start = 49, tk_end = 53, tk_size = 0\<rparr>] else
      Some [])))))"

definition ex_sig_env :: "string \<Rightarrow> unit sig_env" where
  "ex_sig_env v = \<lparr>se_parse = ex_sig_toks, se_count = \<lambda>s. 1,
     se_keys = \<lambda>s. [(''_sigs/app'', ex_signature), (''app/x'', ''1''), (''etc/x'', v)],
     se_decode = \<lambda>s. Some (if s = ''cHJv'' then ex_header else ''{'' @ quoted ''app_x'' @ '':'' @ quoted ''1'' @ ''}''),
     se_encode = \<lambda>s. Some s, se_behind = [], se_x509 = \<lambda>cs. None, se_pk = Some (), se_pk_ok = \<lambda>k. True, se_md = \<lambda>s. Some s,
     se_verify = \<lambda>k hash sig. hash = ''cHJv.'' @ sig\<rparr>"

lemma ex_accepts: "pv_signature_verify (ex_sig_env ''1'') SB_STRICT ''state'' = Done True"
    "pv_signature_verify (ex_sig_env ''2'') SB_STRICT ''state'' = Done True"
  by code_simp+

text \<open>C40: A revision that the strict mode accepts: every key outside of \<open>_sigs/\<close> is matched by the filters of
  a signature of the revision that is valid over what its filters select; when they select the key, its
  line is in the signed text. Otherwise one of the filters that exclude matches it.\<close>

theorem strict_revision_signed:
  assumes "pv_signature_verify e SB_STRICT json = Done True" "se_parse e json \<noteq> None" "(k, v) \<in> set (se_keys e json)" "no_sig k"
  shows "\<exists>sv \<in> snd ` set (se_keys e json). \<exists>inc exc. signs e (se_keys e json) sv inc exc \<and>
     ((\<exists>a b. files_json (filter (\<lambda>kv. selects inc exc (fst kv)) (se_keys e json)) = close_brace (''{'' @ a @ pair_line (k, v) @ b))
      \<or> (\<exists>f \<in> set exc. filter_matches f k))"
proof -
  from covered_by [OF assms] obtain sv inc exc where s: "sv \<in> snd ` set (se_keys e json)" "signs e (se_keys e json) sv inc exc"
      and t: "touches inc exc k" by blast
  show ?thesis
  proof (cases "\<exists>f \<in> set exc. filter_matches f k")
    case True
    with s show ?thesis by blast
  next
    case False
    with t have "selects inc exc k" by (auto simp: touches_def selects_def)
    with assms(3) have "(k, v) \<in> set (filter (\<lambda>kv. selects inc exc (fst kv)) (se_keys e json))" by simp
    from files_json_all [OF this] s show ?thesis by blast
  qed
qed

theorem strict_revision_signed_witness:
  "\<exists>sv \<in> {ex_signature, ''1'', ''2''}. \<exists>inc exc. signs (ex_sig_env ''2'') (se_keys (ex_sig_env ''2'') ''state'') sv inc exc \<and>
     ((\<exists>a b. files_json (filter (\<lambda>kv. selects inc exc (fst kv)) (se_keys (ex_sig_env ''2'') ''state'')) = close_brace (''{'' @ a @ pair_line (''app/x'', ''1'') @ b))
      \<or> (\<exists>f \<in> set exc. filter_matches f ''app/x''))"
proof -
  have 1: "se_parse (ex_sig_env ''2'') ''state'' \<noteq> None" by code_simp
  have 2: "(''app/x'', ''1'') \<in> set (se_keys (ex_sig_env ''2'') ''state'')" by (simp add: ex_sig_env_def)
  have 3: "no_sig ''app/x''" by code_simp
  have "snd ` set (se_keys (ex_sig_env ''2'') ''state'') = {ex_signature, ''1'', ''2''}" by (simp add: ex_sig_env_def)
  with strict_revision_signed [OF ex_accepts(2) 1 2 3] show ?thesis by simp
qed

text \<open>C41: In the other modes, too, every value of the revision that is read as a signature is valid over
  what its filters select; a revision with a wrong signature is not accepted.\<close>

theorem signatures_all_valid:
  assumes "pv_signature_verify e mode json = Done True" "mode \<noteq> SB_DISABLED" "(k, v) \<in> set (se_keys e json)" "se_parse e json \<noteq> None"
    "pv_signature_parse_pvs e v \<noteq> None"
  shows "\<exists>inc exc. signs e (se_keys e json) v inc exc"
proof -
  from assms(1,2,4) obtain ps' where r: "verify_each e (map snd (se_keys e json)) (pv_signature_parse_json e json) = Done (True, ps')"
    by (rule verify_accepts)
  have "v \<in> set (map snd (se_keys e json))" using assms(3) by force
  with verify_each_signs [OF r, unfolded parse_json_kv(1) [OF assms(4)]] assms(5) show ?thesis by blast
qed

theorem signatures_all_valid_witness:
  "\<exists>inc exc. signs (ex_sig_env ''1'') (se_keys (ex_sig_env ''1'') ''state'') ex_signature inc exc"
proof (rule signatures_all_valid)
  show "pv_signature_verify (ex_sig_env ''1'') SB_STRICT ''state'' = Done True" by (rule ex_accepts)
  show "(''_sigs/app'', ex_signature) \<in> set (se_keys (ex_sig_env ''1'') ''state'')" by (simp add: ex_sig_env_def)
  show "pv_signature_parse_pvs (ex_sig_env ''1'') ex_signature \<noteq> None" by code_simp
qed (simp_all add: ex_sig_env_def ex_sig_toks_def)


section \<open>The filters\<close>

lemma fnmatches_plain:
  assumes "\<forall>c \<in> set p. c \<noteq> CHR ''?'' \<and> c \<noteq> CHR ''*'' \<and> c \<noteq> BACKSLASH \<and> c \<noteq> CHR ''[''"
  shows "fnmatches dir p k \<longleftrightarrow> k = p \<or> dir \<and> (\<exists>r. k = p @ CHR ''/'' # r)"
  using assms
proof (induction p arbitrary: k)
  case Nil
  then show ?case by (cases k) auto
next
  case (Cons c p)
  then show ?case by (cases k) (auto simp: fnmatches.simps(3))
qed

definition plain :: "string \<Rightarrow> bool" where
  "plain p \<longleftrightarrow> (\<forall>c \<in> set p. c \<noteq> CHR ''?'' \<and> c \<noteq> CHR ''*'' \<and> c \<noteq> BACKSLASH \<and> c \<noteq> CHR ''['')"

definition below :: "string \<Rightarrow> string" where
  "below p = p @ ''/**''"

lemma filter_pattern_plain:
  assumes "plain p"
  shows "filter_pattern p = (p, False)"
proof -
  have n: "p \<noteq> ''**''" "\<not> pv_str_endswith ''/**'' 3 p (length p)"
  proof -
    have star: "CHR ''*'' \<notin> set p" using assms unfolding plain_def by blast
    show "p \<noteq> ''**''"
    proof
      assume "p = ''**''"
      then have "CHR ''*'' \<in> set p" by simp
      with star show False by blast
    qed
    show "\<not> pv_str_endswith ''/**'' 3 p (length p)"
    proof
      assume "pv_str_endswith ''/**'' 3 p (length p)"
      then have "length p > 3" "take 3 (drop (length p - 3) p) = ''/**''" by (simp_all add: pv_str_endswith_def strneq_def)
      moreover have "length (drop (length p - 3) p) = 3" using \<open>length p > 3\<close> by simp
      ultimately have "drop (length p - 3) p = ''/**''" by simp
      then have "CHR ''*'' \<in> set (drop (length p - 3) p)" by simp
      with star show False by (blast dest: in_set_dropD)
    qed
  qed
  then show ?thesis by (auto simp: filter_pattern_def pv_str_matches_def strneq_def)
qed

lemma filter_pattern_below:
  assumes "p \<noteq> []" "last p \<noteq> CHR ''/''"
  shows "filter_pattern (below p) = (p, True)"
proof -
  have "pv_str_endswith ''/**'' 3 (below p) (length (below p))" using assms(1) by (simp add: pv_str_endswith_def below_def strneq_def)
  moreover have "\<not> pv_str_matches ''**'' 2 (below p) (length (below p))" by (simp add: pv_str_matches_def below_def)
  moreover have "dropWhile is_slash (rev p) = rev p" using assms by (cases p rule: rev_cases) (auto simp: is_slash_def)
  ultimately show ?thesis using assms(1) by (simp add: filter_pattern_def below_def)
qed

text \<open>A filter without special characters selects the key itself; with \<open>/**\<close> after it, the key and all
  below it. The filter \<open>**\<close> does not select every key: only the empty one and those that start with a
  slash, which no key of a revision does.\<close>

theorem filter_meaning:
  assumes "plain p" "p \<noteq> []" "last p \<noteq> CHR ''/''"
  shows "(filter_matches p k \<longleftrightarrow> k = p) \<and> (filter_matches (below p) k \<longleftrightarrow> k = p \<or> (\<exists>r. k = p @ ''/'' @ r))
    \<and> (filter_matches ''**'' k \<longleftrightarrow> k = [] \<or> hd k = CHR ''/'')"
proof -
  have 1: "\<forall>c \<in> set p. c \<noteq> CHR ''?'' \<and> c \<noteq> CHR ''*'' \<and> c \<noteq> BACKSLASH \<and> c \<noteq> CHR ''[''" using assms(1) by (simp add: plain_def)
  have 2: "filter_pattern ''**'' = ([], True)" by code_simp
  show ?thesis
    by (simp add: filter_matches_def filter_pattern_plain [OF assms(1)] filter_pattern_below [OF assms(2,3)] fnmatches_plain [OF 1] 2)
qed

theorem filter_meaning_witness:
  "(filter_matches ''app'' ''app/x'' \<longleftrightarrow> False) \<and> filter_matches (below ''app'') ''app/x'' \<and> \<not> filter_matches ''**'' ''app/x''"
  using filter_meaning [of "''app''" "''app/x''"] by (simp add: plain_def)

end
