(* ===== verification/Parser.thy ===== *)
theory Parser
  imports Text StateOps Platforms
begin

text \<open>
  \<open>parser/parser.c\<close>, \<open>parser/parser_system1.c\<close> and \<open>parser/parser_multi1.c\<close>: a revision from its JSON text.
  The tokens and the positions of the keys and elements come from jsmn, whose calls are the parameters of
  \<open>parse_env\<close>; a key is the list of the tokens from it on, so that the code can step to its value. A
  variable that was not set is \<open>None\<close>, and using it is a \<open>Fault\<close>.
\<close>

section \<open>What the parsers call\<close>

text \<open>The answer of \<open>jsmnutil_parse_json\<close> and the tokens it leaves, which some callers use in any case;
  the address of a new platform when these are in use.\<close>

record parse_env =
  pe_parse :: "string \<Rightarrow> int \<times> jsmntok list"
  pe_keys :: "string \<Rightarrow> jsmntok list \<Rightarrow> jsmntok list list option"
  pe_array :: "string \<Rightarrow> jsmntok list \<Rightarrow> jsmntok list list option"
  pe_array_count :: "string \<Rightarrow> jsmntok list \<Rightarrow> int"
  pe_key_count :: "string \<Rightarrow> jsmntok list \<Rightarrow> nat"
  pe_alloc :: "nat list \<Rightarrow> nat"
  pe_mnt :: string

text \<open>A key and its value; the code takes it that there is a token after a key.\<close>

definition key_value :: "jsmntok list \<Rightarrow> (jsmntok \<times> jsmntok) outcome" where
  "key_value k = (case k of t # v # _ \<Rightarrow> Done (t, v) | _ \<Rightarrow> Fault)"

definition add_volume :: "pv_state \<Rightarrow> string \<Rightarrow> nat option \<Rightarrow> volume_type \<Rightarrow> pv_state" where
  "add_volume s n plat ty = (let vs = s_volumes (pv_volume_add s n) in
     s\<lparr>s_volumes := butlast vs @ [(last vs)\<lparr>v_plat := plat, v_type := ty\<rparr>]\<rparr>)"

definition set_platform :: "nat \<Rightarrow> (platform \<Rightarrow> platform) \<Rightarrow> pv_state \<Rightarrow> pv_state" where
  "set_platform a f s = s\<lparr>s_platforms := map (\<lambda>p. if p_addr p = a then f p else p) (s_platforms s)\<rparr>"

section \<open>The base system\<close>

text \<open>The strings of the array at the first key that starts with the name.\<close>

fun array_at :: "string \<Rightarrow> string \<Rightarrow> jsmntok list list \<Rightarrow> string list outcome" where
  "array_at buf name [] = Done []"
| "array_at buf name (k # ks) = bind_o (key_value k) (\<lambda>(t, v).
     if strneq name (drop (tk_start t) buf) (length name) then array_strings buf (int (tk_size v), drop 2 k)
     else array_at buf name ks)"

text \<open>\<open>fit\<close> and \<open>kernel\<close> are one pointer, so the second test is the first again.\<close>

definition image_of :: "string \<Rightarrow> jsmntok list \<Rightarrow> bsp" where
  "image_of buf toks = (case pv_json_get_value buf ''fit'' toks of
       Some fit \<Rightarrow> empty_bsp\<lparr>b_kernel_or_fit := Some fit\<rparr>
     | None \<Rightarrow> empty_bsp\<lparr>b_kernel_or_fit := pv_json_get_value buf ''linux'' toks, b_fdt := pv_json_get_value buf ''fdt'' toks,
         b_initrd := pv_json_get_value buf ''initrd'' toks\<rparr>)"

definition no_image :: "bsp \<Rightarrow> bool" where
  "no_image b \<longleftrightarrow> (b_kernel_or_fit b = None \<or> b_initrd b = None) \<and> b_kernel_or_fit b = None"

definition volume_if :: "string option \<Rightarrow> pv_state \<Rightarrow> pv_state" where
  "volume_if f s = (case f of None \<Rightarrow> s | Some n \<Rightarrow> add_volume s n None VOL_LOOPIMG)"

definition parse_bsp :: "parse_env \<Rightarrow> pv_state \<Rightarrow> string \<Rightarrow> (bool \<times> pv_state) outcome" where
  "parse_bsp e s buf = (let toks = snd (pe_parse e buf);
       b = (image_of buf toks)\<lparr>b_firmware := pv_json_get_value buf ''firmware'' toks, b_modules := pv_json_get_value buf ''modules'' toks\<rparr>;
       s1 = volume_if (b_modules b) (volume_if (b_firmware b) (s\<lparr>s_bsp := b\<rparr>))
     in if no_image b then Done (False, s1)
        else case pe_keys e buf toks of None \<Rightarrow> Done (False, s1)
          | Some ks \<Rightarrow> bind_o (array_at buf ''addons'' ks) (\<lambda>as. Done (True, foldl pv_addon_add s1 as)))"

section \<open>Keys and their actions\<close>

text \<open>What the actions of a platform work on: the state, the platform, and what is saved.\<close>

record pctx =
  pc_state :: pv_state
  pc_this :: "nat option"
  pc_config :: "string option"
  pc_shares :: "string option"

text \<open>An action is given the buffer, the token and the value of its \<open>struct json_key_action\<close>.\<close>

record json_key_action =
  jk_key :: string
  jk_type :: jsmntype
  jk_save :: "(string \<Rightarrow> pctx \<Rightarrow> pctx) option"
  jk_action :: "(string \<Rightarrow> jsmntok list \<Rightarrow> string option \<Rightarrow> pctx \<Rightarrow> (int \<times> pctx) outcome) option"

type_synonym jka_action = "string \<Rightarrow> jsmntok list \<Rightarrow> string option \<Rightarrow> pctx \<Rightarrow> (int \<times> pctx) outcome"

definition do_json_key_action_object :: "jka_action option \<Rightarrow> string \<Rightarrow> jsmntok list \<Rightarrow> pctx \<Rightarrow> (int \<times> pctx) outcome" where
  "do_json_key_action_object act buf toks c = (case act of None \<Rightarrow> Done (0, c) | Some a \<Rightarrow> a buf toks None c)"

fun array_actions :: "jka_action \<Rightarrow> string \<Rightarrow> nat \<Rightarrow> jsmntok list list \<Rightarrow> pctx \<Rightarrow> (int \<times> pctx) outcome" where
  "array_actions a buf 0 arr c = Done (0, c)"
| "array_actions a buf (Suc n) [] c = Fault"
| "array_actions a buf (Suc n) (t # arr) c = bind_o (a buf t None c)
     (\<lambda>(r, c'). if r \<noteq> 0 then Done (r, c') else array_actions a buf n arr c')"

text \<open>The tokens are those of the array; without an action nothing is done for its elements.\<close>

definition do_json_key_action_array :: "parse_env \<Rightarrow> jka_action option \<Rightarrow> string \<Rightarrow> jsmntok list \<Rightarrow> pctx \<Rightarrow> (int \<times> pctx) outcome" where
  "do_json_key_action_array e act buf toks c = (case toks of [] \<Rightarrow> Fault
     | t # _ \<Rightarrow> (case pe_array e buf toks of None \<Rightarrow> Done (-1, c)
         | Some arr \<Rightarrow> (case act of None \<Rightarrow> Done (0, c) | Some a \<Rightarrow> array_actions a buf (tk_size t) arr c)))"

definition do_one_jka_action :: "parse_env \<Rightarrow> json_key_action \<Rightarrow> string \<Rightarrow> jsmntok list \<Rightarrow> pctx \<Rightarrow> (int \<times> pctx) outcome" where
  "do_one_jka_action e jka buf toks c = (case jk_type jka of
       JSMN_STRING \<Rightarrow> bind_o (key_value toks) (\<lambda>(t, v).
         let value = pv_json_get_one_str buf v;
             c1 = (case jk_save jka of None \<Rightarrow> c | Some save \<Rightarrow> save value c)
         in case jk_action jka of None \<Rightarrow> Done (0, c1) | Some a \<Rightarrow> a buf toks (Some value) c1)
     | JSMN_ARRAY \<Rightarrow> do_json_key_action_array e (jk_action jka) buf (tl toks) c
     | JSMN_OBJECT \<Rightarrow> bind_o (key_value toks) (\<lambda>(t, v). do_json_key_action_object (jk_action jka) (tok_text buf v) toks c)
     | _ \<Rightarrow> Done (0, c))"

text \<open>The first key that starts with the name.\<close>

definition do_lookup_json_key :: "jsmntok list list \<Rightarrow> string \<Rightarrow> string \<Rightarrow> jsmntok list option" where
  "do_lookup_json_key keys buf key =
     find (\<lambda>k. case k of [] \<Rightarrow> False | t # _ \<Rightarrow> strneq (tok_text buf t) key (length key)) keys"

fun jka_actions :: "parse_env \<Rightarrow> json_key_action list \<Rightarrow> jsmntok list list \<Rightarrow> string \<Rightarrow> pctx \<Rightarrow> (int \<times> pctx) outcome" where
  "jka_actions e [] keys buf c = Done (0, c)"
| "jka_actions e (j # js) keys buf c = (case do_lookup_json_key keys buf (jk_key j) of
       None \<Rightarrow> jka_actions e js keys buf c
     | Some toks \<Rightarrow> bind_o (do_one_jka_action e j buf toks c)
         (\<lambda>(r, c'). if r \<noteq> 0 then Done (r, c') else jka_actions e js keys buf c'))"

definition do_action_for_array :: "parse_env \<Rightarrow> json_key_action list \<Rightarrow> jka_action" where
  "do_action_for_array e js buf toks value c = (case pe_keys e buf toks of None \<Rightarrow> Done (-1, c)
     | Some keys \<Rightarrow> jka_actions e js keys buf c)"

definition start_json_parsing_with_action :: "parse_env \<Rightarrow> string \<Rightarrow> json_key_action list \<Rightarrow> jsmntype \<Rightarrow> pctx \<Rightarrow> (int \<times> pctx) outcome" where
  "start_json_parsing_with_action e buf js ty c = (case pe_parse e buf of (r, toks) \<Rightarrow>
     if r \<le> 0 then Done (r, c)
     else if ty = JSMN_ARRAY then do_json_key_action_array e (Some (do_action_for_array e js)) buf toks c
     else if ty \<noteq> JSMN_OBJECT then Done (-1, c)
     else case pe_keys e buf toks of None \<Rightarrow> Done (-1, c) | Some keys \<Rightarrow> jka_actions e js keys buf c)"

section \<open>The actions of a platform\<close>

definition with_this :: "pctx \<Rightarrow> (nat \<Rightarrow> (int \<times> pctx) outcome) \<Rightarrow> (int \<times> pctx) outcome" where
  "with_this c f = (case pc_this c of None \<Rightarrow> Fault | Some a \<Rightarrow> f a)"

declare with_this_def [code_unfold]

definition set_this :: "nat \<Rightarrow> (platform \<Rightarrow> platform) \<Rightarrow> pctx \<Rightarrow> pctx" where
  "set_this a f c = c\<lparr>pc_state := set_platform a f (pc_state c)\<rparr>"

definition do_action_for_name :: "parse_env \<Rightarrow> jka_action" where
  "do_action_for_name e buf toks value c = (case value of None \<Rightarrow> Done (-1, c)
     | Some n \<Rightarrow> (let a = pe_alloc e (map p_addr (s_platforms (pc_state c)))
         in Done (0, c\<lparr>pc_state := pv_platform_add a (pc_state c) n, pc_this := Some a\<rparr>)))"

definition do_action_for_type :: jka_action where
  "do_action_for_type buf toks value c = with_this c (\<lambda>a. case value of None \<Rightarrow> Done (-1, c)
     | Some v \<Rightarrow> Done (0, set_this a (p_type_update (\<lambda>_. Some v)) c))"

definition runlevel_of :: "string \<Rightarrow> int option" where
  "runlevel_of v = (if v = ''data'' then Some RUNLEVEL_DATA else if v = ''root'' then Some RUNLEVEL_ROOT
     else if v = ''app'' then Some RUNLEVEL_APP else if v = ''platform'' then Some RUNLEVEL_PLATFORM else None)"

definition do_action_for_runlevel :: jka_action where
  "do_action_for_runlevel buf toks value c = with_this c (\<lambda>a. case value of None \<Rightarrow> Done (-1, c)
     | Some v \<Rightarrow> (case runlevel_of v of None \<Rightarrow> Done (0, c)
         | Some r \<Rightarrow> Done (0, set_this a (p_runlevel_update (\<lambda>_. r)) c)))"

definition do_action_for_roles_object :: jka_action where
  "do_action_for_roles_object buf toks value c = with_this c (\<lambda>a. Done (0, set_this a (p_mgmt_update (\<lambda>_. False)) c))"

text \<open>Of an array the value is the element.\<close>

definition element_value :: "string \<Rightarrow> jsmntok list \<Rightarrow> string option \<Rightarrow> string outcome" where
  "element_value buf toks value = (case value of Some v \<Rightarrow> Done v
     | None \<Rightarrow> (case toks of [] \<Rightarrow> Fault | t # _ \<Rightarrow> Done (pv_json_get_one_str buf t)))"

definition do_action_for_roles_array :: jka_action where
  "do_action_for_roles_array buf toks value c = bind_o (element_value buf toks value) (\<lambda>v. with_this c (\<lambda>a.
     Done (0, if v = ''mgmt'' then set_this a (p_mgmt_update (\<lambda>_. True)) c else c)))"

definition do_action_for_one_volume :: jka_action where
  "do_action_for_one_volume buf toks value c = bind_o (element_value buf toks value) (\<lambda>v. with_this c (\<lambda>a.
     Done (0, c\<lparr>pc_state := add_volume (pc_state c) v (Some a) VOL_LOOPIMG\<rparr>)))"

fun log_pairs :: "string \<Rightarrow> jsmntok list list \<Rightarrow> logger_config outcome" where
  "log_pairs buf [] = Done []"
| "log_pairs buf (k # ks) = bind_o (key_value k) (\<lambda>(t, v). bind_o (log_pairs buf ks) (\<lambda>ps.
     Done ((pv_json_get_one_str buf t, Some (pv_json_get_one_str buf v)) # ps)))"

definition do_action_for_one_log :: "parse_env \<Rightarrow> jka_action" where
  "do_action_for_one_log e buf toks value c = with_this c (\<lambda>a. case pe_keys e buf toks of None \<Rightarrow> Done (-1, c)
     | Some keys \<Rightarrow> (if pe_key_count e buf toks = 0 then Done (-1, c)
         else bind_o (log_pairs buf (take (pe_key_count e buf toks + 1) keys)) (\<lambda>ps.
           Done (0, set_this a (\<lambda>p. p\<lparr>p_logger_configs := ps # p_logger_configs p\<rparr>) c))))"

section \<open>Storage of a platform\<close>

definition persistence :: "string \<Rightarrow> volume_type" where
  "persistence pt = (if pt = ''permanent'' then VOL_PERMANENT else if pt = ''revision'' then VOL_REVISION else VOL_BOOT)"

fun storage_keys :: "parse_env \<Rightarrow> nat \<Rightarrow> string \<Rightarrow> jsmntok list list \<Rightarrow> pv_state \<Rightarrow> pv_state outcome" where
  "storage_keys e a buf [] s = Done s"
| "storage_keys e a buf (k # ks) s = bind_o (key_value k) (\<lambda>(t, v). let value = tok_text buf v in
     storage_keys e a buf ks (case pv_json_get_value value ''persistence'' (snd (pe_parse e value)) of
         None \<Rightarrow> s | Some pt \<Rightarrow> add_volume s (tok_text buf t) (Some a) (persistence pt)))"

definition parse_storage :: "parse_env \<Rightarrow> pv_state \<Rightarrow> nat \<Rightarrow> string \<Rightarrow> pv_state outcome" where
  "parse_storage e s a buf = (case pe_keys e buf (snd (pe_parse e buf)) of None \<Rightarrow> Done s
     | Some keys \<Rightarrow> storage_keys e a buf keys s)"

definition do_action_for_storage :: "parse_env \<Rightarrow> jka_action" where
  "do_action_for_storage e buf toks value c = with_this c (\<lambda>a.
     bind_o (parse_storage e (pc_state c) a buf) (\<lambda>s. Done (0, c\<lparr>pc_state := s\<rparr>)))"

section \<open>A platform\<close>

definition jka :: "string \<Rightarrow> jsmntype \<Rightarrow> jka_action \<Rightarrow> json_key_action" where
  "jka key ty act = \<lparr>jk_key = key, jk_type = ty, jk_save = None, jk_action = Some act\<rparr>"

definition jka_saved :: "string \<Rightarrow> (string \<Rightarrow> pctx \<Rightarrow> pctx) \<Rightarrow> json_key_action" where
  "jka_saved key save = \<lparr>jk_key = key, jk_type = JSMN_STRING, jk_save = Some save, jk_action = None\<rparr>"

definition system1_platform_key_action :: "parse_env \<Rightarrow> json_key_action list" where
  "system1_platform_key_action e =
     [jka ''name'' JSMN_STRING (do_action_for_name e),
      jka ''type'' JSMN_STRING do_action_for_type,
      jka ''runlevel'' JSMN_STRING do_action_for_runlevel,
      jka ''roles'' JSMN_OBJECT do_action_for_roles_object,
      jka ''roles'' JSMN_ARRAY do_action_for_roles_array,
      jka_saved ''config'' (\<lambda>v. pc_config_update (\<lambda>_. Some v)),
      jka_saved ''share'' (\<lambda>v. pc_shares_update (\<lambda>_. Some v)),
      jka ''root-volume'' JSMN_STRING do_action_for_one_volume,
      jka ''volumes'' JSMN_ARRAY do_action_for_one_volume,
      jka ''logs'' JSMN_ARRAY (do_action_for_one_log e),
      jka ''storage'' JSMN_OBJECT (do_action_for_storage e)]"

definition platform_ctx :: "pv_state \<Rightarrow> pctx" where
  "platform_ctx s = \<lparr>pc_state = s, pc_this = None, pc_config = None, pc_shares = None\<rparr>"

definition platform_done :: "string option \<Rightarrow> platform \<Rightarrow> platform" where
  "platform_done config p = (case config of None \<Rightarrow> p | Some c \<Rightarrow> p\<lparr>p_configs := Some [c]\<rparr>)\<lparr>p_status := PLAT_INSTALLED\<rparr>"

definition system1_parse_platform :: "parse_env \<Rightarrow> pv_state \<Rightarrow> string \<Rightarrow> (int \<times> pv_state) outcome" where
  "system1_parse_platform e s buf =
     bind_o (start_json_parsing_with_action e buf (system1_platform_key_action e) JSMN_OBJECT (platform_ctx s)) (\<lambda>(r, c).
       if r \<noteq> 0 then Done (r, pc_state c)
       else case pc_this c of None \<Rightarrow> Fault
         | Some a \<Rightarrow> Done (0, set_platform a (platform_done (pc_config c)) (pc_state c)))"

section \<open>The platforms of objects and jsons\<close>

text \<open>Whether the element stays, and its platform. Without a first part of the name, and without a second
  one when there are platforms, \<open>NULL\<close> is compared.\<close>

definition link_of :: "platform list \<Rightarrow> string \<Rightarrow> (bool \<times> nat option) outcome" where
  "link_of ps name = (case strtok CHR ''/'' name of [] \<Rightarrow> Fault
     | dir # rest \<Rightarrow> (if dir = ''_config''
         then (case rest of [] \<Rightarrow> if ps = [] then Done (False, None) else Fault
            | dir2 # _ \<Rightarrow> Done (plat_by_name ps dir2 \<noteq> None, map_option p_addr (plat_by_name ps dir2)))
         else Done (True, map_option p_addr (plat_by_name ps dir))))"

fun link_all :: "platform list \<Rightarrow> ('a \<Rightarrow> string) \<Rightarrow> (nat option \<Rightarrow> 'a \<Rightarrow> 'a) \<Rightarrow> 'a list \<Rightarrow> 'a list outcome" where
  "link_all ps name set_plat [] = Done []"
| "link_all ps name set_plat (x # xs) = bind_o (link_of ps (name x)) (\<lambda>(stays, pl).
     bind_o (link_all ps name set_plat xs) (\<lambda>ys. Done (if stays then set_plat pl x # ys else ys)))"

definition system1_link_object_json_platforms :: "pv_state \<Rightarrow> pv_state outcome" where
  "system1_link_object_json_platforms s =
     bind_o (link_all (s_platforms s) o_name (\<lambda>pl. o_plat_update (\<lambda>_. pl)) (s_objects s)) (\<lambda>os.
     bind_o (link_all (s_platforms s) j_name (\<lambda>pl. j_plat_update (\<lambda>_. pl)) (s_jsons s)) (\<lambda>js.
       Done (s\<lparr>s_objects := os, s_jsons := js\<rparr>)))"

section \<open>A revision of the system format\<close>

text \<open>\<open>!strncmp(lit, buf + start, n)\<close> with the length of the key: a key that is a prefix of \<open>lit\<close>, too.\<close>

definition key_skipped :: "string \<Rightarrow> string \<Rightarrow> jsmntok \<Rightarrow> bool" where
  "key_skipped lit buf t \<longleftrightarrow> strneq lit (drop (tk_start t) buf) (tk_end t - tk_start t)"

definition ext_at :: "char \<Rightarrow> string \<Rightarrow> string option" where
  "ext_at c key = map_option (\<lambda>i. drop i key) (strrchr key c)"

text \<open>One item; \<open>None\<close> when the revision is given up.\<close>

definition system1_item :: "parse_env \<Rightarrow> string \<Rightarrow> string \<Rightarrow> pv_state \<Rightarrow> pv_state option outcome" where
  "system1_item e key value s =
     (if ext_at CHR ''/'' key = Some ''/run.json''
      then bind_o (system1_parse_platform e s value) (\<lambda>(r, s'). Done (if r \<noteq> 0 then None else Some (pv_jsons_add s' key value)))
      else if ext_at CHR ''/'' key = Some ''/src.json'' \<or> ext_at CHR ''/'' key = Some ''/build.json'' then Done (Some s)
      else if ext_at CHR ''.'' key = Some ''.json'' then Done (Some (pv_jsons_add s key value))
      else Done (Some (pv_objects_add s key value (pe_mnt e))))"

fun system1_items :: "parse_env \<Rightarrow> string \<Rightarrow> jsmntok list list \<Rightarrow> pv_state \<Rightarrow> pv_state option outcome" where
  "system1_items e buf [] s = Done (Some s)"
| "system1_items e buf (k # ks) s = bind_o (key_value k) (\<lambda>(t, v).
     if key_skipped ''bsp/run.json'' buf t \<or> key_skipped ''#spec'' buf t then system1_items e buf ks s
     else bind_o (system1_item e (tok_text buf t) (tok_text buf v) s) (\<lambda>r.
       case r of None \<Rightarrow> Done None | Some s' \<Rightarrow> system1_items e buf ks s'))"

text \<open>Up to the links of the items.\<close>

definition system1_load :: "parse_env \<Rightarrow> pv_state \<Rightarrow> string \<Rightarrow> pv_state option outcome" where
  "system1_load e s buf = (let toks = snd (pe_parse e buf) in
     if pv_json_get_key_count buf ''bsp/run.json'' toks \<noteq> 1 then Done None
     else case pv_json_get_value buf ''bsp/run.json'' toks of None \<Rightarrow> Done None
       | Some value \<Rightarrow> bind_o (parse_bsp e (pv_jsons_add s ''bsp/run.json'' value) value) (\<lambda>(ok, s1).
           if \<not> ok then Done None
           else case pe_keys e buf toks of None \<Rightarrow> Done None
             | Some keys \<Rightarrow> bind_o (system1_items e buf keys s1) (\<lambda>r. case r of None \<Rightarrow> Done None
                 | Some s2 \<Rightarrow> bind_o (system1_link_object_json_platforms (s2\<lparr>s_json := Some buf\<rparr>))
                     (\<lambda>s3. Done (Some s3)))))"

definition system1_parse :: "parse_env \<Rightarrow> pv_state \<Rightarrow> string \<Rightarrow> pv_state option outcome" where
  "system1_parse e s buf = bind_o (system1_load e s buf) (\<lambda>r. Done (map_option pv_state_validate r))"

definition parse_config_name :: "parse_env \<Rightarrow> string \<Rightarrow> string option" where
  "parse_config_name e buf = (case pe_parse e buf of (r, toks) \<Rightarrow>
     if r < 0 then None else pv_json_get_value buf ''initrd_config'' toks)"

definition system1_parse_initrd_config_name :: "parse_env \<Rightarrow> string \<Rightarrow> string option" where
  "system1_parse_initrd_config_name e buf = (case pe_parse e buf of (r, toks) \<Rightarrow>
     if r < 0 \<or> pv_json_get_key_count buf ''bsp/run.json'' toks \<noteq> 1 then None
     else Option.bind (pv_json_get_value buf ''bsp/run.json'' toks) (parse_config_name e))"

section \<open>A revision of the older format\<close>

definition ns_share :: "(string \<times> nat) list" where
  "ns_share = [(''NETWORK'', 1), (''UTS'', 2), (''IPC'', 4)]"

definition ns_share_flag :: "string \<Rightarrow> nat" where
  "ns_share_flag key = (case map_of ns_share key of None \<Rightarrow> 0 | Some v \<Rightarrow> v)"

text \<open>A missing list of keys is followed.\<close>

definition strings_at :: "parse_env \<Rightarrow> string \<Rightarrow> jsmntok list \<Rightarrow> string \<Rightarrow> string list outcome" where
  "strings_at e buf toks name = (case pe_keys e buf toks of None \<Rightarrow> Fault | Some ks \<Rightarrow> array_at buf name ks)"

definition add_platforms :: "parse_env \<Rightarrow> pv_state \<Rightarrow> string list \<Rightarrow> pv_state" where
  "add_platforms e s ns = foldl (\<lambda>s n. pv_platform_add (pe_alloc e (map p_addr (s_platforms s))) s n) s ns"

definition parse_pantavisor :: "parse_env \<Rightarrow> pv_state \<Rightarrow> string \<Rightarrow> (bool \<times> pv_state) outcome" where
  "parse_pantavisor e s buf = (let toks = snd (pe_parse e buf);
       b = (image_of buf toks)\<lparr>b_firmware := pv_json_get_value buf ''firmware'' toks\<rparr>;
       s1 = s\<lparr>s_bsp := b\<rparr>
     in if no_image b then Done (False, s1)
        else bind_o (strings_at e buf toks ''addons'') (\<lambda>as. bind_o (strings_at e buf toks ''platforms'') (\<lambda>ns.
             bind_o (strings_at e buf toks ''volumes'') (\<lambda>vs.
               Done (True, foldl (\<lambda>s n. add_volume s n None VOL_LOOPIMG) (add_platforms e (foldl pv_addon_add s1 as) ns) vs)))))"

text \<open>\<open>NULL\<close> is compared with the names, or parsed, when a value is missing; the array of configurations
  is as long as the array count says.\<close>

definition find_platform :: "pv_state \<Rightarrow> string option \<Rightarrow> platform option outcome" where
  "find_platform s name = (case name of Some n \<Rightarrow> Done (pv_platform_get_by_name s n)
     | None \<Rightarrow> if s_platforms s = [] then Done None else Fault)"

definition multi1_parse_platform :: "parse_env \<Rightarrow> pv_state \<Rightarrow> string \<Rightarrow> pv_state outcome" where
  "multi1_parse_platform e s buf = (let toks = snd (pe_parse e buf) in
     bind_o (find_platform s (pv_json_get_value buf ''name'' toks)) (\<lambda>p. case p of None \<Rightarrow> Done s
       | Some p \<Rightarrow> (case (pv_json_get_value buf ''configs'' toks, pv_json_get_value buf ''share'' toks) of
           (Some configs, Some shares) \<Rightarrow> (let ctoks = snd (pe_parse e configs); stoks = snd (pe_parse e shares) in
              if pe_array_count e buf ctoks < 0 then Fault
              else bind_o (array_strings configs (pe_array_count e buf ctoks, tl ctoks)) (\<lambda>cs.
                   bind_o (array_strings shares (pe_array_count e shares stoks, tl stoks)) (\<lambda>ss.
                     Done (set_platform (p_addr p) (\<lambda>q. q\<lparr>p_type := pv_json_get_value buf ''type'' toks,
                       p_exec := pv_json_get_value buf ''exec'' toks, p_configs := Some cs,
                       p_ns_share := foldl (\<lambda>m n. or m (ns_share_flag n)) 0 ss, p_status := PLAT_INSTALLED\<rparr>) s))))
         | _ \<Rightarrow> Fault)))"

text \<open>Whether any key is left is needed after the loop: only then is \<open>value\<close> not released a second time.\<close>

fun multi1_items :: "parse_env \<Rightarrow> string \<Rightarrow> jsmntok list list \<Rightarrow> bool \<times> pv_state \<Rightarrow> (bool \<times> pv_state) outcome" where
  "multi1_items e buf [] r = Done r"
| "multi1_items e buf (k # ks) r = bind_o (key_value k) (\<lambda>(t, v).
     if key_skipped ''pantavisor.json'' buf t \<or> key_skipped ''#spec'' buf t then multi1_items e buf ks r
     else bind_o (if ext_at CHR ''.'' (tok_text buf t) = Some ''.json''
         then multi1_parse_platform e (snd r) (tok_text buf v)
         else Done (pv_objects_add (snd r) (tok_text buf t) (tok_text buf v) (pe_mnt e)))
       (\<lambda>s. multi1_items e buf ks (True, s)))"

text \<open>\<open>None\<close> when the state was released.\<close>

definition multi1_parse :: "parse_env \<Rightarrow> pv_state \<Rightarrow> string \<Rightarrow> pv_state option outcome" where
  "multi1_parse e s buf = (let toks = snd (pe_parse e buf) in
     if pv_json_get_key_count buf ''pantavisor.json'' toks \<noteq> 1 then Done (Some s)
     else case pv_json_get_value buf ''pantavisor.json'' toks of None \<Rightarrow> Done (Some s)
       | Some value \<Rightarrow> bind_o (parse_pantavisor e s value) (\<lambda>(ok, s1).
           if \<not> ok then Done None
           else case pe_keys e buf toks of None \<Rightarrow> Fault
             | Some keys \<Rightarrow> bind_o (multi1_items e buf keys (False, s1)) (\<lambda>(any, s2).
                 if \<not> any then Fault
                 else Done (Some (pv_platforms_remove_not_installed (s2\<lparr>s_json := Some buf\<rparr>))))))"

definition multi1_parse_initrd_config_name :: "string \<Rightarrow> string option" where
  "multi1_parse_initrd_config_name buf = None"

section \<open>The parser of a revision\<close>

definition parsers :: "string list" where
  "parsers = [''pantavisor-multi-platform@1'', ''pantavisor-service-system@1'']"

definition pv_parser_convert_spec :: "string \<Rightarrow> state_spec" where
  "pv_parser_convert_spec spec = (if spec = parsers ! 0 then SPEC_MULTI1 else if spec = parsers ! 1 then SPEC_SYSTEM1 else SPEC_UNKNOWN)"

text \<open>A state that its parser gave up is released; \<open>multi1_parse\<close> has done that before.\<close>

definition pv_parser_get_state :: "parse_env \<Rightarrow> string \<Rightarrow> string \<Rightarrow> pv_state option outcome" where
  "pv_parser_get_state e buf r = (case pe_parse e buf of (res, toks) \<Rightarrow>
     if res < 0 then Done None
     else case pv_json_get_value buf ''#spec'' toks of None \<Rightarrow> Done None
       | Some spec \<Rightarrow> (case pv_parser_convert_spec spec of
           SPEC_UNKNOWN \<Rightarrow> Done None
         | SPEC_SYSTEM1 \<Rightarrow> system1_parse e (pv_state_new r SPEC_SYSTEM1) buf
         | SPEC_MULTI1 \<Rightarrow> bind_o (multi1_parse e (pv_state_new r SPEC_MULTI1) buf)
             (\<lambda>s. if s = None then Fault else Done s)))"

definition pv_parser_get_initrd_config_name :: "parse_env \<Rightarrow> string \<Rightarrow> string option" where
  "pv_parser_get_initrd_config_name e buf = (case pe_parse e buf of (res, toks) \<Rightarrow>
     if res < 0 then None
     else Option.bind (pv_json_get_value buf ''#spec'' toks) (\<lambda>spec. case pv_parser_convert_spec spec of
           SPEC_UNKNOWN \<Rightarrow> None
         | SPEC_SYSTEM1 \<Rightarrow> system1_parse_initrd_config_name e buf
         | SPEC_MULTI1 \<Rightarrow> multi1_parse_initrd_config_name buf))"

section \<open>What the actions keep\<close>

text \<open>While a platform is parsed the rest of the state stays, and so do the other platforms; only the
  platform itself is not yet installed.\<close>

definition same_items :: "pv_state \<Rightarrow> pv_state \<Rightarrow> bool" where
  "same_items s s' \<longleftrightarrow> s_objects s' = s_objects s \<and> s_jsons s' = s_jsons s \<and> s_rev s' = s_rev s \<and> s_bsp s' = s_bsp s"

definition plats_ok :: "nat option \<Rightarrow> pv_state \<Rightarrow> bool" where
  "plats_ok this s \<longleftrightarrow> distinct (map p_addr (s_platforms s)) \<and> links_ok (s_platforms s) (map v_plat (s_volumes s)) \<and>
     (\<forall>a. this = Some a \<longrightarrow> a \<in> p_addr ` set (s_platforms s)) \<and>
     (\<forall>p \<in> set (s_platforms s). (p_status p = PLAT_INSTALLED \<or> this = Some (p_addr p)) \<and> p_runlevel p \<in> {-1..3})"

definition ctx_ok :: "pv_state \<Rightarrow> nat \<times> nat option \<Rightarrow> pctx \<Rightarrow> bool" where
  "ctx_ok s0 n c \<longleftrightarrow> same_items s0 (pc_state c) \<and> plats_ok (pc_this c) (pc_state c) \<and> (length (s_platforms (pc_state c)), pc_this c) = n"

lemma ctx_ok_saved [simp]: "ctx_ok s0 n (pc_config_update f c) = ctx_ok s0 n c" "ctx_ok s0 n (pc_shares_update f c) = ctx_ok s0 n c"
  by (simp_all add: ctx_ok_def)

lemma set_platform_addrs [simp]: "(\<And>p. p_addr (f p) = p_addr p) \<Longrightarrow> map p_addr (s_platforms (set_platform a f s)) = map p_addr (s_platforms s)"
  by (simp add: set_platform_def o_def)

lemma set_platform_rest [simp]: "s_volumes (set_platform a f s) = s_volumes s" "same_items s0 (set_platform a f s) = same_items s0 s"
    "length (s_platforms (set_platform a f s)) = length (s_platforms s)"
  by (simp_all add: set_platform_def same_items_def)

lemma links_ok_addrs: "links_ok ps ls \<longleftrightarrow> (\<forall>l \<in> set ls. \<forall>a. l = Some a \<longrightarrow> a \<in> set (map p_addr ps))"
  by (auto simp: links_ok_def list_all_iff split: option.splits)

lemma ctx_ok_set_this:
  assumes "ctx_ok s0 n c" "\<And>p. p_addr (f p) = p_addr p" "\<And>p. p_status (f p) = p_status p"
    "\<And>p. p_runlevel p \<in> {-1..3} \<Longrightarrow> p_runlevel (f p) \<in> {-1..3}"
  shows "ctx_ok s0 n (set_this a f c)"
proof -
  have addrs: "map p_addr (s_platforms (set_platform a f (pc_state c))) = map p_addr (s_platforms (pc_state c))"
    using assms(2) by simp
  let ?ok = "\<lambda>p. (p_status p = PLAT_INSTALLED \<or> pc_this c = Some (p_addr p)) \<and> p_runlevel p \<in> {-1..3}"
  have "?ok q \<and> ?ok (f q)" if "q \<in> set (s_platforms (pc_state c))" for q
  proof -
    have q: "?ok q" using assms(1) that by (simp add: ctx_ok_def plats_ok_def)
    then show ?thesis using assms(2,3) assms(4) [of q] by (simp del: atLeastAtMost_iff)
  qed
  then have "\<forall>p \<in> set (s_platforms (set_platform a f (pc_state c))). ?ok p" by (auto simp: set_platform_def simp del: atLeastAtMost_iff)
  moreover have "p_addr ` set (s_platforms (set_platform a f (pc_state c))) = p_addr ` set (s_platforms (pc_state c))"
    using addrs by (metis list.set_map)
  ultimately show ?thesis
    using assms(1) addrs by (simp add: ctx_ok_def plats_ok_def set_this_def links_ok_addrs)
qed

lemma add_volume_fields [simp]: "s_volumes (add_volume s m pl ty) = s_volumes s @ [\<lparr>v_name = m, v_mode = None, v_src = None, v_dest = None,
      v_type = ty, v_loop_fd = 0, v_file_fd = 0, v_plat = pl\<rparr>]"
    "s_platforms (add_volume s m pl ty) = s_platforms s" "same_items s0 (add_volume s m pl ty) = same_items s0 s"
    "s_objects (add_volume s m pl ty) = s_objects s" "s_jsons (add_volume s m pl ty) = s_jsons s"
    "s_rev (add_volume s m pl ty) = s_rev s" "s_bsp (add_volume s m pl ty) = s_bsp s" "s_spec (add_volume s m pl ty) = s_spec s"
  by (simp_all add: add_volume_def pv_volume_add_def same_items_def)

lemma plats_ok_add_volume: "plats_ok this s \<Longrightarrow> (\<forall>a. pl = Some a \<longrightarrow> a \<in> p_addr ` set (s_platforms s)) \<Longrightarrow> plats_ok this (add_volume s m pl ty)"
  by (auto simp: plats_ok_def links_ok_addrs)

definition act_ok :: "jka_action \<Rightarrow> bool" where
  "act_ok a \<longleftrightarrow> (\<forall>s0 n buf toks v c r c'. a buf toks v c = Done (r, c') \<longrightarrow> ctx_ok s0 n c \<longrightarrow> ctx_ok s0 n c')"

lemma act_okI: "(\<And>s0 n buf toks v c r c'. a buf toks v c = Done (r, c') \<Longrightarrow> ctx_ok s0 n c \<Longrightarrow> ctx_ok s0 n c') \<Longrightarrow> act_ok a"
  by (auto simp: act_ok_def)

lemma with_this_Done: "with_this c f = Done y \<Longrightarrow> (\<And>a. pc_this c = Some a \<Longrightarrow> f a = Done y \<Longrightarrow> thesis) \<Longrightarrow> thesis"
  by (auto simp: with_this_def split: option.splits)

lemma act_ok_type: "act_ok do_action_for_type"
  by (rule act_okI) (auto simp: do_action_for_type_def elim!: with_this_Done split: option.splits intro!: ctx_ok_set_this)

lemma act_ok_runlevel: "act_ok do_action_for_runlevel"
proof (rule act_okI)
  fix s0 n buf toks v c r c'
  assume d: "do_action_for_runlevel buf toks v c = Done (r, c')" and c: "ctx_ok s0 n c"
  show "ctx_ok s0 n c'"
  proof (cases "c' = c")
    case False
    with d obtain a w k where "runlevel_of w = Some k" "c' = set_this a (p_runlevel_update (\<lambda>_. k)) c"
      unfolding do_action_for_runlevel_def by (auto elim!: with_this_Done split: option.splits)
    moreover from this(1) have "k \<in> {-1..3}" by (auto simp: runlevel_of_def runlevel_defs split: if_splits)
    ultimately show ?thesis using c by (auto intro!: ctx_ok_set_this)
  qed (use c in simp)
qed

lemma act_ok_roles_object: "act_ok do_action_for_roles_object"
  by (rule act_okI) (auto simp: do_action_for_roles_object_def elim!: with_this_Done intro!: ctx_ok_set_this)

lemma act_ok_roles_array: "act_ok do_action_for_roles_array"
  by (rule act_okI)
    (auto simp: do_action_for_roles_array_def elim!: with_this_Done bind_o_Done split: if_splits intro!: ctx_ok_set_this)

lemma ctx_ok_volume: "ctx_ok s0 n c \<Longrightarrow> pc_this c = Some a \<Longrightarrow> ctx_ok s0 n (c\<lparr>pc_state := add_volume (pc_state c) m (Some a) ty\<rparr>)"
  by (auto simp: ctx_ok_def intro!: plats_ok_add_volume) (auto simp: plats_ok_def)

lemma act_ok_volume: "act_ok do_action_for_one_volume"
  by (rule act_okI) (auto simp: do_action_for_one_volume_def elim!: with_this_Done bind_o_Done intro!: ctx_ok_volume)

lemma act_ok_log: "act_ok (do_action_for_one_log e)"
  by (rule act_okI) (auto simp: do_action_for_one_log_def elim!: with_this_Done bind_o_Done split: option.splits if_splits intro!: ctx_ok_set_this)

lemma storage_keys_ok:
  "storage_keys e a buf ks s = Done s' \<Longrightarrow> ctx_ok s0 n (c\<lparr>pc_state := s\<rparr>) \<Longrightarrow> pc_this c = Some a \<Longrightarrow> ctx_ok s0 n (c\<lparr>pc_state := s'\<rparr>)"
proof (induction ks arbitrary: s)
  case (Cons k ks)
  from Cons.prems(1) obtain t v where k: "key_value k = Done (t, v)" by (auto elim!: bind_o_Done)
  let ?s = "case pv_json_get_value (tok_text buf v) ''persistence'' (snd (pe_parse e (tok_text buf v))) of
      None \<Rightarrow> s | Some pt \<Rightarrow> add_volume s (tok_text buf t) (Some a) (persistence pt)"
  have "ctx_ok s0 n (c\<lparr>pc_state := ?s\<rparr>)"
    using Cons.prems(2,3) ctx_ok_volume [of s0 n "c\<lparr>pc_state := s\<rparr>" a] by (simp split: option.splits)
  then show ?case using Cons.IH [of ?s] Cons.prems(1,3) k by (simp add: Let_def)
qed simp

lemma act_ok_storage: "act_ok (do_action_for_storage e)"
proof (rule act_okI)
  fix s0 n buf toks v c r c'
  assume d: "do_action_for_storage e buf toks v c = Done (r, c')" and c: "ctx_ok s0 n c"
  then obtain a s where a: "pc_this c = Some a" and s: "parse_storage e (pc_state c) a buf = Done s" and c': "c' = c\<lparr>pc_state := s\<rparr>"
    by (auto simp: do_action_for_storage_def elim!: with_this_Done bind_o_Done)
  show "ctx_ok s0 n c'"
  proof (cases "pe_keys e buf (snd (pe_parse e buf))")
    case None
    then show ?thesis using s c c' by (cases c) (simp add: parse_storage_def)
  next
    case (Some ks)
    then show ?thesis using s c c' a storage_keys_ok [of e a buf ks "pc_state c" s s0 n c] by (simp add: parse_storage_def)
  qed
qed

definition jka_ok :: "json_key_action \<Rightarrow> bool" where
  "jka_ok j \<longleftrightarrow> (\<forall>a. jk_action j = Some a \<longrightarrow> act_ok a) \<and> (\<forall>f v s0 n c. jk_save j = Some f \<longrightarrow> ctx_ok s0 n (f v c) = ctx_ok s0 n c)"

lemma act_okD: "act_ok a \<Longrightarrow> a buf toks v c = Done (r, c') \<Longrightarrow> ctx_ok s0 n c \<Longrightarrow> ctx_ok s0 n c'"
  unfolding act_ok_def by blast

lemma array_actions_ok:
  "act_ok a \<Longrightarrow> array_actions a buf m arr c = Done (r, c') \<Longrightarrow> ctx_ok s0 n c \<Longrightarrow> ctx_ok s0 n c'"
  by (induction a buf m arr c rule: array_actions.induct) (auto elim!: bind_o_Done split: if_splits dest: act_okD)

lemma one_action_ok:
  assumes "jka_ok j" "do_one_jka_action e j buf toks c = Done (r, c')" "ctx_ok s0 n c"
  shows "ctx_ok s0 n c'"
proof (cases "jk_type j")
  case JSMN_STRING
  obtain t v where k: "key_value toks = Done (t, v)"
    using assms(2) JSMN_STRING by (auto simp: do_one_jka_action_def elim!: bind_o_Done)
  define c1 where "c1 = (case jk_save j of None \<Rightarrow> c | Some save \<Rightarrow> save (pv_json_get_one_str buf v) c)"
  have c1: "ctx_ok s0 n c1" using assms(1,3) unfolding c1_def jka_ok_def by (cases n) (auto split: option.splits)
  show ?thesis
  proof (cases "jk_action j")
    case None
    with assms(2) k JSMN_STRING c1 show ?thesis by (simp add: do_one_jka_action_def c1_def [symmetric] Let_def)
  next
    case (Some a)
    then have "a buf toks (Some (pv_json_get_one_str buf v)) c1 = Done (r, c')"
      using assms(2) k JSMN_STRING by (simp add: do_one_jka_action_def c1_def Let_def)
    with Some assms(1) c1 act_okD show ?thesis unfolding jka_ok_def by blast
  qed
next
  case JSMN_ARRAY
  then show ?thesis using assms
    by (auto simp: do_one_jka_action_def do_json_key_action_array_def jka_ok_def split: option.splits list.splits dest: array_actions_ok)
next
  case JSMN_OBJECT
  then show ?thesis using assms
    by (auto simp: do_one_jka_action_def do_json_key_action_object_def jka_ok_def elim!: bind_o_Done split: option.splits dest: act_okD)
qed (use assms in \<open>auto simp: do_one_jka_action_def\<close>)

lemma jka_actions_ok:
  "list_all jka_ok js \<Longrightarrow> jka_actions e js keys buf c = Done (r, c') \<Longrightarrow> ctx_ok s0 n c \<Longrightarrow> ctx_ok s0 n c'"
proof (induction js arbitrary: c)
  case (Cons j js)
  show ?case
  proof (cases "do_lookup_json_key keys buf (jk_key j)")
    case None
    then show ?thesis using Cons by simp
  next
    case (Some toks)
    then obtain r1 c1 where 1: "do_one_jka_action e j buf toks c = Done (r1, c1)" "r1 \<noteq> 0 \<longrightarrow> c' = c1"
        "r1 = 0 \<longrightarrow> jka_actions e js keys buf c1 = Done (r, c')"
      using Cons.prems(2) by (auto elim!: bind_o_Done split: if_splits)
    with Cons.prems one_action_ok [OF _ 1(1)] Cons.IH [of c1] show ?thesis by (cases "r1 = 0") auto
  qed
qed simp

text \<open>The actions after the first one, which makes the platform.\<close>

lemma later_actions_ok: "list_all jka_ok (tl (system1_platform_key_action e))"
  by (simp add: system1_platform_key_action_def jka_ok_def jka_def jka_saved_def act_ok_type act_ok_runlevel
      act_ok_roles_object act_ok_roles_array act_ok_volume act_ok_log act_ok_storage)

definition fresh_alloc :: "parse_env \<Rightarrow> bool" where
  "fresh_alloc e \<longleftrightarrow> (\<forall>as. pe_alloc e as \<notin> set as)"

lemma plats_ok_add: "plats_ok None s \<Longrightarrow> a \<notin> set (map p_addr (s_platforms s)) \<Longrightarrow> plats_ok (Some a) (pv_platform_add a s nm)"
  by (auto simp: plats_ok_def pv_platform_add_def new_platform_def links_ok_addrs)

lemma name_action:
  assumes "fresh_alloc e" "plats_ok None s"
    "do_one_jka_action e (jka ''name'' JSMN_STRING (do_action_for_name e)) buf toks (platform_ctx s) = Done (r, c)"
  shows "r = 0 \<and> (\<exists>a. ctx_ok s (Suc (length (s_platforms s)), Some a) c)"
proof -
  let ?a = "pe_alloc e (map p_addr (s_platforms s))"
  from assms(3) obtain v where c: "r = 0" "c = platform_ctx s\<lparr>pc_state := pv_platform_add ?a s v, pc_this := Some ?a\<rparr>"
    by (auto simp: do_one_jka_action_def jka_def do_action_for_name_def Let_def platform_ctx_def elim!: bind_o_Done)
  have "?a \<notin> set (map p_addr (s_platforms s))" using assms(1) unfolding fresh_alloc_def by blast
  then have "plats_ok (Some ?a) (pv_platform_add ?a s v)" by (rule plats_ok_add [OF assms(2)])
  then show ?thesis by (simp add: c ctx_ok_def same_items_def pv_platform_add_def platform_ctx_def)
qed

lemma platform_done_fields [simp]: "p_addr (platform_done cfg p) = p_addr p" "p_status (platform_done cfg p) = PLAT_INSTALLED"
    "p_runlevel (platform_done cfg p) = p_runlevel p"
  by (simp_all add: platform_done_def split: option.splits)

lemma plats_ok_done:
  assumes "plats_ok (Some a) s"
  shows "plats_ok None (set_platform a (platform_done cfg) s)"
proof -
  let ?g = "\<lambda>p. if p_addr p = a then platform_done cfg p else p"
  have plats: "s_platforms (set_platform a (platform_done cfg) s) = map ?g (s_platforms s)" by (simp add: set_platform_def)
  have "p_status (?g q) = PLAT_INSTALLED \<and> p_runlevel (?g q) \<in> {-1..3}" if "q \<in> set (s_platforms s)" for q
    using assms that by (cases "p_addr q = a") (auto simp: plats_ok_def)
  then have "\<forall>p \<in> set (s_platforms (set_platform a (platform_done cfg) s)). p_status p = PLAT_INSTALLED \<and> p_runlevel p \<in> {-1..3}"
    unfolding plats set_map by blast
  then show ?thesis using assms by (simp add: plats_ok_def links_ok_addrs)
qed

lemma actions_name: "system1_platform_key_action e = jka ''name'' JSMN_STRING (do_action_for_name e) # tl (system1_platform_key_action e)"
  by (simp add: system1_platform_key_action_def)

lemma parse_platform_actions:
  assumes "fresh_alloc e" "plats_ok None s" "jka_actions e (system1_platform_key_action e) keys buf (platform_ctx s) = Done (0, c)"
  shows "\<exists>a. ctx_ok s (Suc (length (s_platforms s)), Some a) c \<or> pc_this c = None"
proof (cases "do_lookup_json_key keys buf ''name''")
  case None
  with assms(3) have "jka_actions e (tl (system1_platform_key_action e)) keys buf (platform_ctx s) = Done (0, c)"
    by (subst (asm) actions_name) (simp add: jka_def)
  moreover have "ctx_ok s (length (s_platforms s), None) (platform_ctx s)"
    using assms(2) by (simp add: ctx_ok_def same_items_def platform_ctx_def)
  ultimately show ?thesis using jka_actions_ok [OF later_actions_ok] by (fastforce simp: ctx_ok_def)
next
  case (Some toks)
  have key: "jk_key (jka ''name'' JSMN_STRING (do_action_for_name e)) = ''name''" by (simp add: jka_def)
  obtain r1 c1 where 3: "do_one_jka_action e (jka ''name'' JSMN_STRING (do_action_for_name e)) buf toks (platform_ctx s) = Done (r1, c1)"
      and 4: "r1 = 0 \<longrightarrow> jka_actions e (tl (system1_platform_key_action e)) keys buf c1 = Done (0, c)"
    using assms(3) Some by (subst (asm) actions_name) (auto simp: key elim!: bind_o_Done split: if_splits)
  from name_action [OF assms(1,2) 3] 4 jka_actions_ok [OF later_actions_ok] show ?thesis by blast
qed

lemma parse_platform_ok:
  assumes "fresh_alloc e" "plats_ok None s" "system1_parse_platform e s buf = Done (0, s')"
  shows "same_items s s' \<and> plats_ok None s' \<and> length (s_platforms s') = Suc (length (s_platforms s))"
proof -
  from assms(3) obtain c a where p: "start_json_parsing_with_action e buf (system1_platform_key_action e) JSMN_OBJECT (platform_ctx s) = Done (0, c)"
      and a: "pc_this c = Some a" and s': "s' = set_platform a (platform_done (pc_config c)) (pc_state c)"
    by (auto simp: system1_parse_platform_def elim!: bind_o_Done split: if_splits option.splits)
  have "c \<noteq> platform_ctx s" using a by (auto simp: platform_ctx_def)
  with p obtain keys where "jka_actions e (system1_platform_key_action e) keys buf (platform_ctx s) = Done (0, c)"
    by (auto simp: start_json_parsing_with_action_def split: prod.splits if_splits option.splits)
  from parse_platform_actions [OF assms(1,2) this] a
  have c: "ctx_ok s (Suc (length (s_platforms s)), Some a) c" by (auto simp: ctx_ok_def)
  then have "plats_ok (Some a) (pc_state c)" by (auto simp: ctx_ok_def)
  from plats_ok_done [OF this] c show ?thesis by (simp add: s' ctx_ok_def)
qed

section \<open>The items of a revision\<close>

text \<open>What the walk over the keys keeps: the platforms are complete, and the objects and jsons are those of
  the items so far, in reverse order and not linked.\<close>

definition item_of :: "string \<Rightarrow> jsmntok list \<Rightarrow> string \<times> string" where
  "item_of buf k = (tok_text buf (k ! 0), tok_text buf (k ! 1))"

definition skipped :: "string \<Rightarrow> jsmntok list \<Rightarrow> bool" where
  "skipped buf k \<longleftrightarrow> key_skipped ''bsp/run.json'' buf (k ! 0) \<or> key_skipped ''#spec'' buf (k ! 0)"

definition listed :: "string \<Rightarrow> jsmntok list list \<Rightarrow> (string \<times> string) list" where
  "listed buf keys = map (item_of buf) (filter (\<lambda>k. \<not> skipped buf k) keys)"

definition is_run :: "string \<Rightarrow> bool" where
  "is_run key \<longleftrightarrow> ext_at CHR ''/'' key = Some ''/run.json''"

definition is_ignored :: "string \<Rightarrow> bool" where
  "is_ignored key \<longleftrightarrow> ext_at CHR ''/'' key = Some ''/src.json'' \<or> ext_at CHR ''/'' key = Some ''/build.json''"

definition is_json :: "string \<Rightarrow> bool" where
  "is_json key \<longleftrightarrow> is_run key \<or> \<not> is_ignored key \<and> ext_at CHR ''.'' key = Some ''.json''"

definition is_object :: "string \<Rightarrow> bool" where
  "is_object key \<longleftrightarrow> \<not> is_run key \<and> \<not> is_ignored key \<and> \<not> is_json key"

definition state_objects :: "pv_state \<Rightarrow> (string \<times> string) list" where
  "state_objects s = map (\<lambda>ob. (o_name ob, o_id ob)) (s_objects s)"

definition state_jsons :: "pv_state \<Rightarrow> (string \<times> string) list" where
  "state_jsons s = map (\<lambda>j. (j_name j, j_value j)) (s_jsons s)"

definition unlinked :: "pv_state \<Rightarrow> bool" where
  "unlinked s \<longleftrightarrow> (\<forall>ob \<in> set (s_objects s). o_plat ob = None) \<and> (\<forall>j \<in> set (s_jsons s). j_plat j = None)"

lemma item_platforms:
  assumes "fresh_alloc e" "plats_ok None s" "system1_item e key value s = Done (Some s')"
  shows "plats_ok None s' \<and> s_rev s' = s_rev s \<and> s_bsp s' = s_bsp s
    \<and> state_objects s' = (if is_object key then (key, value) # state_objects s else state_objects s)
    \<and> state_jsons s' = (if is_json key then (key, value) # state_jsons s else state_jsons s)
    \<and> length (s_platforms s') = length (s_platforms s) + (if is_run key then 1 else 0)"
proof (cases "is_run key")
  case True
  then obtain s1 where p: "system1_parse_platform e s value = Done (0, s1)" and s': "s' = pv_jsons_add s1 key value"
    using assms(3) by (auto simp: system1_item_def is_run_def elim!: bind_o_Done split: if_splits)
  from parse_platform_ok [OF assms(1,2) p] have "same_items s s1" "plats_ok None s1" "length (s_platforms s1) = Suc (length (s_platforms s))"
    by auto
  moreover have "is_json key" "\<not> is_object key" using True by (auto simp: is_json_def is_object_def)
  ultimately show ?thesis using True
    by (auto simp: s' pv_jsons_add_def state_objects_def state_jsons_def same_items_def plats_ok_def)
next
  case False
  then show ?thesis using assms(2,3)
    by (auto simp: system1_item_def is_run_def is_json_def is_object_def is_ignored_def pv_jsons_add_def pv_objects_add_def
        state_objects_def state_jsons_def plats_ok_def split: if_splits)
qed

lemma key_value_nth: "key_value k = Done (t, v) \<Longrightarrow> k ! 0 = t \<and> k ! 1 = v"
  by (auto simp: key_value_def split: list.splits)

lemma items_walk:
  assumes "fresh_alloc e"
  shows "system1_items e buf keys s = Done (Some s') \<Longrightarrow> plats_ok None s \<Longrightarrow>
    plats_ok None s' \<and> s_rev s' = s_rev s \<and> s_bsp s' = s_bsp s
    \<and> state_objects s' = rev (filter (is_object \<circ> fst) (listed buf keys)) @ state_objects s
    \<and> state_jsons s' = rev (filter (is_json \<circ> fst) (listed buf keys)) @ state_jsons s
    \<and> length (s_platforms s') = length (s_platforms s) + length (filter (is_run \<circ> fst) (listed buf keys))"
proof (induction keys arbitrary: s)
  case Nil
  then show ?case by (simp add: listed_def)
next
  case (Cons k ks)
  obtain t v where k: "key_value k = Done (t, v)" using Cons.prems(1) by (auto elim!: bind_o_Done)
  note kn = key_value_nth [OF k]
  show ?case
  proof (cases "skipped buf k")
    case True
    then have "system1_items e buf ks s = Done (Some s')" using Cons.prems(1) k kn by (simp add: skipped_def)
    from Cons.IH [OF this Cons.prems(2)] True show ?thesis by (simp add: listed_def)
  next
    case False
    then obtain s1 where 1: "system1_item e (tok_text buf t) (tok_text buf v) s = Done (Some s1)"
        and 2: "system1_items e buf ks s1 = Done (Some s')"
      using Cons.prems(1) k kn by (auto simp: skipped_def elim!: bind_o_Done split: option.splits)
    have l: "listed buf (k # ks) = (tok_text buf t, tok_text buf v) # listed buf ks" using False kn by (simp add: listed_def item_of_def)
    from item_platforms [OF assms Cons.prems(2) 1] Cons.IH [OF 2] show ?thesis by (simp add: l)
  qed
qed

section \<open>Links and the finished state\<close>

text \<open>The platform that a name belongs to: its first part, or the second below \<open>_config\<close>.\<close>

definition owner :: "string \<Rightarrow> string option" where
  "owner name = (case strtok CHR ''/'' name of [] \<Rightarrow> None
     | d # ds \<Rightarrow> (if d = ''_config'' then (case ds of [] \<Rightarrow> None | d2 # _ \<Rightarrow> Some d2) else Some d))"

definition link_to :: "platform list \<Rightarrow> string \<Rightarrow> nat option" where
  "link_to ps name = (case owner name of None \<Rightarrow> None | Some d \<Rightarrow> map_of (map (\<lambda>p. (p_name p, p_addr p)) ps) d)"

definition in_config :: "string \<Rightarrow> bool" where
  "in_config name \<longleftrightarrow> (case strtok CHR ''/'' name of [] \<Rightarrow> False | d # _ \<Rightarrow> d = ''_config'')"

definition stays :: "platform list \<Rightarrow> string \<Rightarrow> bool" where
  "stays ps name \<longleftrightarrow> (in_config name \<longrightarrow> link_to ps name \<noteq> None)"

lemma plat_by_name_map_of: "map_option p_addr (plat_by_name ps d) = map_of (map (\<lambda>p. (p_name p, p_addr p)) ps) d"
  by (induction ps) (auto simp: plat_by_name_def)

lemma plat_by_name_map_of_None: "plat_by_name ps d = None \<longleftrightarrow> map_of (map (\<lambda>p. (p_name p, p_addr p)) ps) d = None"
  by (metis plat_by_name_map_of option.map_disc_iff)

lemma link_of_Done: "link_of ps name = Done (b, pl) \<Longrightarrow> b = stays ps name \<and> pl = link_to ps name"
  by (auto simp: link_of_def stays_def link_to_def owner_def in_config_def plat_by_name_map_of plat_by_name_map_of_None
      split: list.splits if_splits)

lemma link_all_Done:
  "link_all ps name set_plat xs = Done ys \<Longrightarrow>
     ys = map (\<lambda>x. set_plat (link_to ps (name x)) x) (filter (\<lambda>x. stays ps (name x)) xs)"
proof (induction xs arbitrary: ys)
  case (Cons x xs)
  obtain b pl zs where l: "link_of ps (name x) = Done (b, pl)" and z: "link_all ps name set_plat xs = Done zs"
      and ys: "ys = (if b then set_plat pl x # zs else zs)"
    using Cons.prems by (auto elim!: bind_o_Done)
  from link_of_Done [OF l] Cons.IH [OF z] ys show ?case by simp
qed simp

lemma link_to_addr: "link_to ps name = Some a \<Longrightarrow> a \<in> p_addr ` set ps"
  by (auto simp: link_to_def split: option.splits dest!: map_of_SomeD)

lemma validate_rest [simp]: "s_objects (pv_state_validate s) = s_objects s" "s_jsons (pv_state_validate s) = s_jsons s"
    "s_volumes (pv_state_validate s) = s_volumes s" "s_rev (pv_state_validate s) = s_rev s" "s_bsp (pv_state_validate s) = s_bsp s"
    "s_json (pv_state_validate s) = s_json s"
  by (simp_all add: pv_state_validate_def pv_platforms_add_all_loggers_def pv_platforms_default_runlevel_def
      pv_platforms_remove_not_installed_def Let_def)

lemma set_first_unset_map: "(\<And>p. g (p\<lparr>p_runlevel := r\<rparr>) = g p) \<Longrightarrow> map g (set_first_unset r ps) = map g ps"
  by (induction ps) auto

text \<open>Validation keeps the platforms that are installed, with their names and addresses.\<close>

definition plat_ident :: "platform \<Rightarrow> string \<times> nat \<times> plat_status" where
  "plat_ident p = (p_name p, p_addr p, p_status p)"

lemma validate_plats:
  "map plat_ident (s_platforms (pv_state_validate s)) = map plat_ident (filter (\<lambda>p. p_status p = PLAT_INSTALLED) (s_platforms s))"
proof -
  have loggers: "map plat_ident (map add_loggers ps) = map plat_ident ps" for ps
    by (induction ps) (auto simp: plat_ident_def)
  have level: "map plat_ident (map (\<lambda>p. if c p then p\<lparr>p_runlevel := r\<rparr> else p) ps) = map plat_ident ps" for c r ps
    by (induction ps) (auto simp: plat_ident_def)
  have first: "map plat_ident (set_first_unset r ps) = map plat_ident ps" for r ps
    by (rule set_first_unset_map) (simp add: plat_ident_def)
  have dflt: "map plat_ident (s_platforms (pv_platforms_default_runlevel t)) = map plat_ident (s_platforms t)" for t
  proof -
    have "s_platforms (pv_platforms_default_runlevel t) = map (\<lambda>p. if p_runlevel p < RUNLEVEL_DATA then p\<lparr>p_runlevel := RUNLEVEL_PLATFORM\<rparr> else p)
        (if list_ex (\<lambda>p. p_runlevel p = RUNLEVEL_ROOT) (s_platforms t) then s_platforms t else set_first_unset RUNLEVEL_ROOT (s_platforms t))"
      by (simp add: pv_platforms_default_runlevel_def Let_def)
    then show ?thesis by (simp only: level) (simp only: first split: if_split, simp)
  qed
  have "s_platforms (pv_state_validate s) = map add_loggers (s_platforms (pv_platforms_default_runlevel (pv_platforms_remove_not_installed s)))"
    by (simp add: pv_state_validate_def pv_platforms_add_all_loggers_def)
  then show ?thesis by (simp only: loggers dflt) (simp add: pv_platforms_remove_not_installed_def)
qed

lemma validated_levels:
  assumes "\<forall>p \<in> set (s_platforms s). p_runlevel p \<in> {-1..3}" "p \<in> set (s_platforms (pv_state_validate s))"
  shows "p_runlevel p \<in> {0..3}"
proof -
  define rs where "rs = map p_runlevel (filter (\<lambda>p. p_status p = PLAT_INSTALLED) (s_platforms s))"
  have rs: "set rs \<subseteq> {-1..3}" using assms(1) by (auto simp: rs_def)
  let ?us = "takeWhile (\<lambda>r. r \<noteq> -1) rs"
  have "set ?us \<subseteq> set rs" "set (drop (length ?us + 1) rs) \<subseteq> set rs" by (auto dest: set_takeWhileD in_set_dropD)
  with rs have all: "set (?us @ 1 # drop (length ?us + 1) rs) \<subseteq> {-1..3}" by (simp only: set_append set_simps) auto
  define qs where "qs = (if 1 \<in> set rs \<or> length ?us = length rs then rs else ?us @ 1 # drop (length ?us + 1) rs)"
  have "set qs \<subseteq> {-1..3}" using rs all unfolding qs_def by presburger
  moreover have "map p_runlevel (s_platforms (pv_state_validate s)) = map (\<lambda>r. if r < 0 then 2 else r) qs"
    unfolding validate_runlevels rs_def [symmetric] Let_def qs_def ..
  moreover have "p_runlevel p \<in> set (map p_runlevel (s_platforms (pv_state_validate s)))" using assms(2) by simp
  ultimately have "p_runlevel p \<in> (\<lambda>r. if r < 0 then 2 else r) ` set qs" by (simp only: set_map)
  with \<open>set qs \<subseteq> {-1..3}\<close> show ?thesis by (auto split: if_splits)
qed

lemma parse_bsp_ok:
  assumes "parse_bsp e s buf = Done (True, s')"
  shows "s_platforms s' = s_platforms s \<and> s_objects s' = s_objects s \<and> s_jsons s' = s_jsons s \<and> s_rev s' = s_rev s
    \<and> b_kernel_or_fit (s_bsp s') \<noteq> None \<and> (\<forall>v \<in> set (s_volumes s') - set (s_volumes s). v_plat v = None)"
proof -
  have addons: "s_platforms (foldl pv_addon_add s as) = s_platforms s \<and> s_objects (foldl pv_addon_add s as) = s_objects s
      \<and> s_jsons (foldl pv_addon_add s as) = s_jsons s \<and> s_rev (foldl pv_addon_add s as) = s_rev s
      \<and> s_bsp (foldl pv_addon_add s as) = s_bsp s \<and> s_volumes (foldl pv_addon_add s as) = s_volumes s" for s as
    by (induction as arbitrary: s) (auto simp: pv_addon_add_def)
  show ?thesis using assms
    by (auto simp: parse_bsp_def Let_def addons volume_if_def no_image_def elim!: bind_o_Done split: if_splits option.splits)
qed

section \<open>Properties\<close>

lemma system1_parse_parts:
  assumes "system1_parse e s buf = Done (Some s')"
  obtains bspv keys s1 s2 s3 where "pv_json_get_value buf ''bsp/run.json'' (snd (pe_parse e buf)) = Some bspv"
    "parse_bsp e (pv_jsons_add s ''bsp/run.json'' bspv) bspv = Done (True, s1)"
    "pe_keys e buf (snd (pe_parse e buf)) = Some keys" "system1_items e buf keys s1 = Done (Some s2)"
    "system1_link_object_json_platforms (s2\<lparr>s_json := Some buf\<rparr>) = Done s3" "s' = pv_state_validate s3"
  using assms by (auto simp: system1_parse_def system1_load_def Let_def elim!: bind_o_Done split: if_splits option.splits)

definition link_object :: "platform list \<Rightarrow> object \<Rightarrow> object" where
  "link_object ps ob = ob\<lparr>o_plat := link_to ps (o_name ob)\<rparr>"

definition link_json :: "platform list \<Rightarrow> json \<Rightarrow> json" where
  "link_json ps j = j\<lparr>j_plat := link_to ps (j_name j)\<rparr>"

lemma linked_state:
  assumes "system1_link_object_json_platforms s = Done s'"
  shows "s' = s\<lparr>s_objects := map (link_object (s_platforms s)) (filter (\<lambda>ob. stays (s_platforms s) (o_name ob)) (s_objects s)),
    s_jsons := map (link_json (s_platforms s)) (filter (\<lambda>j. stays (s_platforms s) (j_name j)) (s_jsons s))\<rparr>"
proof -
  from assms obtain os js where o: "link_all (s_platforms s) o_name (\<lambda>pl. o_plat_update (\<lambda>_. pl)) (s_objects s) = Done os"
      and j: "link_all (s_platforms s) j_name (\<lambda>pl. j_plat_update (\<lambda>_. pl)) (s_jsons s) = Done js"
      and s': "s' = s\<lparr>s_objects := os, s_jsons := js\<rparr>"
    by (auto simp: system1_link_object_json_platforms_def elim!: bind_o_Done)
  have lo: "(\<lambda>x. o_plat_update (\<lambda>_. link_to (s_platforms s) (o_name x)) x) = link_object (s_platforms s)"
    and lj: "(\<lambda>x. j_plat_update (\<lambda>_. link_to (s_platforms s) (j_name x)) x) = link_json (s_platforms s)"
    by (auto simp: link_object_def link_json_def)
  show ?thesis using link_all_Done [OF o] link_all_Done [OF j] by (simp only: s' lo lj)
qed

lemma link_to_cong: "map plat_ident ps = map plat_ident qs \<Longrightarrow> link_to ps = link_to qs"
proof -
  assume h: "map plat_ident ps = map plat_ident qs"
  have m: "map (\<lambda>p. (p_name p, p_addr p)) xs = map (\<lambda>(a, b, c). (a, b)) (map plat_ident xs)" for xs
    by (simp add: plat_ident_def)
  have "map (\<lambda>p. (p_name p, p_addr p)) ps = map (\<lambda>p. (p_name p, p_addr p)) qs" unfolding m h ..
  then show ?thesis by (auto simp: link_to_def fun_eq_iff split: option.splits)
qed

lemma addrs_cong: "map plat_ident ps = map plat_ident qs \<Longrightarrow> map p_addr ps = map p_addr qs"
proof -
  assume h: "map plat_ident ps = map plat_ident qs"
  have m: "map p_addr xs = map (\<lambda>(a, b, c). b) (map plat_ident xs)" for xs by (simp add: plat_ident_def)
  show ?thesis unfolding m h ..
qed

text \<open>What a revision is after it was parsed, from its items.\<close>

lemma system1_parsed:
  assumes "system1_parse e (pv_state_new r SPEC_SYSTEM1) buf = Done (Some s)" "fresh_alloc e"
  obtains bspv keys s2 where "pv_json_get_value buf ''bsp/run.json'' (snd (pe_parse e buf)) = Some bspv"
    "pe_keys e buf (snd (pe_parse e buf)) = Some keys"
    "plats_ok None s2" "map plat_ident (s_platforms s) = map plat_ident (s_platforms s2)"
    "s_objects s = map (link_object (s_platforms s)) (filter (\<lambda>ob. stays (s_platforms s) (o_name ob)) (s_objects s2))"
    "s_jsons s = map (link_json (s_platforms s)) (filter (\<lambda>j. stays (s_platforms s) (j_name j)) (s_jsons s2))"
    "state_objects s2 = rev (filter (is_object \<circ> fst) (listed buf keys))"
    "state_jsons s2 = rev ((''bsp/run.json'', bspv) # filter (is_json \<circ> fst) (listed buf keys))"
    "length (s_platforms s2) = length (filter (is_run \<circ> fst) (listed buf keys))"
    "s_volumes s = s_volumes s2" "s_rev s = r" "s_json s = Some buf" "b_kernel_or_fit (s_bsp s) \<noteq> None"
    "\<forall>p \<in> set (s_platforms s). p_runlevel p \<in> {0..3}"
proof -
  from system1_parse_parts [OF assms(1)] obtain bspv keys s1 s2 s3
    where v: "pv_json_get_value buf ''bsp/run.json'' (snd (pe_parse e buf)) = Some bspv"
      and b: "parse_bsp e (pv_jsons_add (pv_state_new r SPEC_SYSTEM1) ''bsp/run.json'' bspv) bspv = Done (True, s1)"
      and k: "pe_keys e buf (snd (pe_parse e buf)) = Some keys" and w: "system1_items e buf keys s1 = Done (Some s2)"
      and l: "system1_link_object_json_platforms (s2\<lparr>s_json := Some buf\<rparr>) = Done s3" and s: "s = pv_state_validate s3" .
  note bsp = parse_bsp_ok [OF b]
  have s1: "plats_ok None s1" "state_objects s1 = []" "state_jsons s1 = [(''bsp/run.json'', bspv)]" "s_platforms s1 = []" "s_rev s1 = r"
    using bsp by (auto simp: plats_ok_def links_ok_addrs pv_jsons_add_def pv_state_new_def state_objects_def state_jsons_def)
  note walk = items_walk [OF assms(2) w s1(1)]
  define t where "t = s2\<lparr>s_json := Some buf\<rparr>"
  note s3 = linked_state [OF l [folded t_def]]
  have t: "s_platforms s3 = s_platforms s2" "s_platforms t = s_platforms s2" "s_objects t = s_objects s2" "s_jsons t = s_jsons s2"
    by (simp_all add: s3 t_def)
  have inst: "\<forall>p \<in> set (s_platforms s2). p_status p = PLAT_INSTALLED \<and> p_runlevel p \<in> {-1..3}"
    using walk by (auto simp: plats_ok_def)
  then have id: "map plat_ident (s_platforms s) = map plat_ident (s_platforms s2)"
    unfolding s validate_plats t(1) by (simp add: filter_id_conv)
  note lk = link_to_cong [OF id]
  have st: "stays (s_platforms s) = stays (s_platforms s2)" "link_object (s_platforms s) = link_object (s_platforms s2)"
      "link_json (s_platforms s) = link_json (s_platforms s2)"
    by (auto simp: fun_eq_iff stays_def link_object_def link_json_def lk)
  have "\<forall>p \<in> set (s_platforms s). p_runlevel p \<in> {0..3}"
    using inst t(1) by (auto simp: s simp del: atLeastAtMost_iff intro!: validated_levels [of s3])
  moreover have "s_objects s = map (link_object (s_platforms s)) (filter (\<lambda>ob. stays (s_platforms s) (o_name ob)) (s_objects s2))"
    unfolding st by (simp add: s s3 t)
  moreover have "s_jsons s = map (link_json (s_platforms s)) (filter (\<lambda>j. stays (s_platforms s) (j_name j)) (s_jsons s2))"
    unfolding st by (simp add: s s3 t)
  moreover have "s_volumes s = s_volumes s2" "s_rev s = r" "s_json s = Some buf" "b_kernel_or_fit (s_bsp s) \<noteq> None"
    using walk bsp s1(5) by (simp_all add: s s3 t_def)
  ultimately show ?thesis
    using that [OF v k _ id] walk s1 by simp
qed

text \<open>Examples, with the tokens that jsmn gives for them.\<close>

definition ex_bsp_json :: string where
  "ex_bsp_json = ''{'' @ quoted ''linux'' @ '':'' @ quoted ''k'' @ '','' @ quoted ''initrd'' @ '':'' @ quoted ''i'' @ ''}''"

definition ex_run_json :: string where
  "ex_run_json = ''{'' @ quoted ''name'' @ '':'' @ quoted ''app'' @ '','' @ quoted ''config'' @ '':'' @ quoted ''c'' @ '','' @ quoted ''storage'' @ '':{'' @ quoted ''d'' @ '':{'' @ quoted ''persistence'' @ '':'' @ quoted ''boot'' @ ''}}}''"

definition ex_storage_json :: string where
  "ex_storage_json = ''{'' @ quoted ''d'' @ '':{'' @ quoted ''persistence'' @ '':'' @ quoted ''boot'' @ ''}}''"

definition ex_volume_json :: string where
  "ex_volume_json = ''{'' @ quoted ''persistence'' @ '':'' @ quoted ''boot'' @ ''}''"

definition ex_system1_json :: string where
  "ex_system1_json = ''{'' @ quoted ''bsp/run.json'' @ '':{'' @ quoted ''linux'' @ '':'' @ quoted ''k'' @ '','' @ quoted ''initrd'' @ '':'' @ quoted ''i'' @ ''},'' @ quoted ''app/run.json'' @ '':{'' @ quoted ''name'' @ '':'' @ quoted ''app'' @ '','' @ quoted ''config'' @ '':'' @ quoted ''c'' @ '','' @ quoted ''storage'' @ '':{'' @ quoted ''d'' @ '':{'' @ quoted ''persistence'' @ '':'' @ quoted ''boot'' @ ''}}},'' @ quoted ''app/r'' @ '':'' @ quoted ''h'' @ '','' @ quoted ''_config/x/f'' @ '':'' @ quoted ''h'' @ ''}''"

definition ex_pantavisor_json :: string where
  "ex_pantavisor_json = ''{'' @ quoted ''linux'' @ '':'' @ quoted ''k'' @ '','' @ quoted ''initrd'' @ '':'' @ quoted ''i'' @ '','' @ quoted ''platforms'' @ '':['' @ quoted ''app'' @ ''],'' @ quoted ''volumes'' @ '':[]}''"

definition ex_configs_json :: string where
  "ex_configs_json = ''['' @ quoted ''c'' @ '']''"

definition ex_shares_json :: string where
  "ex_shares_json = ''['' @ quoted ''UTS'' @ '']''"

definition ex_app_json :: string where
  "ex_app_json = ''{'' @ quoted ''name'' @ '':'' @ quoted ''app'' @ '','' @ quoted ''type'' @ '':'' @ quoted ''lxc'' @ '','' @ quoted ''configs'' @ '':['' @ quoted ''c'' @ ''],'' @ quoted ''share'' @ '':['' @ quoted ''UTS'' @ '']}''"

definition ex_multi1_json :: string where
  "ex_multi1_json = ''{'' @ quoted ''#spec'' @ '':'' @ quoted ''pantavisor-multi-platform@1'' @ '','' @ quoted ''pantavisor.json'' @ '':{'' @ quoted ''linux'' @ '':'' @ quoted ''k'' @ '','' @ quoted ''initrd'' @ '':'' @ quoted ''i'' @ '','' @ quoted ''platforms'' @ '':['' @ quoted ''app'' @ ''],'' @ quoted ''volumes'' @ '':[]},'' @ quoted ''app.json'' @ '':{'' @ quoted ''name'' @ '':'' @ quoted ''app'' @ '','' @ quoted ''type'' @ '':'' @ quoted ''lxc'' @ '','' @ quoted ''configs'' @ '':['' @ quoted ''c'' @ ''],'' @ quoted ''share'' @ '':['' @ quoted ''UTS'' @ '']}}''"

definition tok :: "jsmntype \<Rightarrow> nat \<Rightarrow> nat \<Rightarrow> nat \<Rightarrow> jsmntok" where
  "tok ty s e n = \<lparr>tk_type = ty, tk_start = s, tk_end = e, tk_size = n\<rparr>"

definition ex_toks :: "string \<Rightarrow> jsmntok list" where
  "ex_toks s = (
     if s = ex_bsp_json then [tok JSMN_OBJECT 0 26 2, tok JSMN_STRING 2 7 0, tok JSMN_STRING 10 11 0, tok JSMN_STRING 14 20 0, tok JSMN_STRING 23 24 0] else
     if s = ex_run_json then [tok JSMN_OBJECT 0 66 3, tok JSMN_STRING 2 6 0, tok JSMN_STRING 9 12 0, tok JSMN_STRING 15 21 0, tok JSMN_STRING 24 25 0, tok JSMN_STRING 28 35 0, tok JSMN_OBJECT 37 65 1, tok JSMN_STRING 39 40 0, tok JSMN_OBJECT 42 64 1, tok JSMN_STRING 44 55 0, tok JSMN_STRING 58 62 0] else
     if s = ex_storage_json then [tok JSMN_OBJECT 0 28 1, tok JSMN_STRING 2 3 0, tok JSMN_OBJECT 5 27 1, tok JSMN_STRING 7 18 0, tok JSMN_STRING 21 25 0] else
     if s = ex_volume_json then [tok JSMN_OBJECT 0 22 1, tok JSMN_STRING 2 13 0, tok JSMN_STRING 16 20 0] else
     if s = ex_system1_json then [tok JSMN_OBJECT 0 155 4, tok JSMN_STRING 2 14 0, tok JSMN_OBJECT 16 42 2, tok JSMN_STRING 18 23 0, tok JSMN_STRING 26 27 0, tok JSMN_STRING 30 36 0, tok JSMN_STRING 39 40 0, tok JSMN_STRING 44 56 0, tok JSMN_OBJECT 58 124 3, tok JSMN_STRING 60 64 0, tok JSMN_STRING 67 70 0, tok JSMN_STRING 73 79 0, tok JSMN_STRING 82 83 0, tok JSMN_STRING 86 93 0, tok JSMN_OBJECT 95 123 1, tok JSMN_STRING 97 98 0, tok JSMN_OBJECT 100 122 1, tok JSMN_STRING 102 113 0, tok JSMN_STRING 116 120 0, tok JSMN_STRING 126 131 0, tok JSMN_STRING 134 135 0, tok JSMN_STRING 138 149 0, tok JSMN_STRING 152 153 0] else
     if s = ex_pantavisor_json then [tok JSMN_OBJECT 0 59 4, tok JSMN_STRING 2 7 0, tok JSMN_STRING 10 11 0, tok JSMN_STRING 14 20 0, tok JSMN_STRING 23 24 0, tok JSMN_STRING 27 36 0, tok JSMN_ARRAY 38 45 1, tok JSMN_STRING 40 43 0, tok JSMN_STRING 47 54 0, tok JSMN_ARRAY 56 58 0] else
     if s = ex_configs_json then [tok JSMN_ARRAY 0 5 1, tok JSMN_STRING 2 3 0] else
     if s = ex_shares_json then [tok JSMN_ARRAY 0 7 1, tok JSMN_STRING 2 5 0] else
     if s = ex_app_json then [tok JSMN_OBJECT 0 59 4, tok JSMN_STRING 2 6 0, tok JSMN_STRING 9 12 0, tok JSMN_STRING 15 19 0, tok JSMN_STRING 22 25 0, tok JSMN_STRING 28 35 0, tok JSMN_ARRAY 37 42 1, tok JSMN_STRING 39 40 0, tok JSMN_STRING 44 49 0, tok JSMN_ARRAY 51 58 1, tok JSMN_STRING 53 56 0] else
     if s = ex_multi1_json then [tok JSMN_OBJECT 0 188 3, tok JSMN_STRING 2 7 0, tok JSMN_STRING 10 37 0, tok JSMN_STRING 40 55 0, tok JSMN_OBJECT 57 116 4, tok JSMN_STRING 59 64 0, tok JSMN_STRING 67 68 0, tok JSMN_STRING 71 77 0, tok JSMN_STRING 80 81 0, tok JSMN_STRING 84 93 0, tok JSMN_ARRAY 95 102 1, tok JSMN_STRING 97 100 0, tok JSMN_STRING 104 111 0, tok JSMN_ARRAY 113 115 0, tok JSMN_STRING 118 126 0, tok JSMN_OBJECT 128 187 4, tok JSMN_STRING 130 134 0, tok JSMN_STRING 137 140 0, tok JSMN_STRING 143 147 0, tok JSMN_STRING 150 153 0, tok JSMN_STRING 156 163 0, tok JSMN_ARRAY 165 170 1, tok JSMN_STRING 167 168 0, tok JSMN_STRING 172 177 0, tok JSMN_ARRAY 179 186 1, tok JSMN_STRING 181 184 0] else
     [])"

text \<open>The keys and elements that start right after a token, each with the tokens from it on.\<close>

fun ex_pairs :: "nat \<Rightarrow> jsmntok list \<Rightarrow> jsmntok list list" where
  "ex_pairs (Suc n) (k # v # r) = (k # v # r) # ex_pairs n (dropWhile (\<lambda>t. tk_start t < tk_end v) r)"
| "ex_pairs _ _ = []"

fun ex_elements :: "nat \<Rightarrow> jsmntok list \<Rightarrow> jsmntok list list" where
  "ex_elements (Suc n) (v # r) = (v # r) # ex_elements n (dropWhile (\<lambda>t. tk_start t < tk_end v) r)"
| "ex_elements _ _ = []"

definition ex_parse_env :: parse_env where
  "ex_parse_env = \<lparr>pe_parse = \<lambda>s. (if ex_toks s = [] then -1 else int (length (ex_toks s)), ex_toks s),
     pe_keys = \<lambda>s ts. (case ts of [] \<Rightarrow> None | t # r \<Rightarrow> if tk_type t = JSMN_OBJECT then Some (ex_pairs (tk_size t) r) else None),
     pe_array = \<lambda>s ts. (case ts of [] \<Rightarrow> None | t # r \<Rightarrow> if tk_type t = JSMN_ARRAY then Some (ex_elements (tk_size t) r) else None),
     pe_array_count = \<lambda>s ts. (case ts of [] \<Rightarrow> -1 | t # r \<Rightarrow> int (tk_size t)),
     pe_key_count = \<lambda>s ts. (case ts of [] \<Rightarrow> 0 | t # r \<Rightarrow> tk_size t),
     pe_alloc = \<lambda>as. Suc (sum_list as), pe_mnt = ''/s''\<rparr>"

lemma ex_fresh: "fresh_alloc ex_parse_env"
proof -
  have "a \<le> sum_list as" if "a \<in> set as" for a :: nat and as using that by (simp add: member_le_sum_list)
  then show ?thesis by (fastforce simp: fresh_alloc_def ex_parse_env_def)
qed

lemma ex_load: "case system1_load ex_parse_env (pv_state_new ''1'' SPEC_SYSTEM1) ex_system1_json of
    Done (Some s) \<Rightarrow> map plat_ident (s_platforms s) = [(''app'', 1, PLAT_INSTALLED)] \<and> map v_name (s_volumes s) = [''d''] \<and>
      map o_name (s_objects s) = [''app/r''] \<and> map j_name (s_jsons s) = [''app/run.json'', ''bsp/run.json'']
  | _ \<Rightarrow> False"
  by code_simp

lemma ex_system1:
  obtains s where "system1_parse ex_parse_env (pv_state_new ''1'' SPEC_SYSTEM1) ex_system1_json = Done (Some s)"
    "map plat_ident (s_platforms s) = [(''app'', 1, PLAT_INSTALLED)]" "map v_name (s_volumes s) = [''d'']"
    "map o_name (s_objects s) = [''app/r'']"
proof -
  obtain t where t: "system1_load ex_parse_env (pv_state_new ''1'' SPEC_SYSTEM1) ex_system1_json = Done (Some t)"
      "map plat_ident (s_platforms t) = [(''app'', 1, PLAT_INSTALLED)]" "map v_name (s_volumes t) = [''d'']" "map o_name (s_objects t) = [''app/r'']"
    using ex_load by (auto split: outcome.splits option.splits)
  have "filter (\<lambda>p. p_status p = PLAT_INSTALLED) (s_platforms t) = s_platforms t"
    using t(2) by (auto simp: plat_ident_def filter_id_conv)
  then have "map plat_ident (s_platforms (pv_state_validate t)) = [(''app'', 1, PLAT_INSTALLED)]"
    unfolding validate_plats using t(2) by simp
  with t show ?thesis by (intro that [of "pv_state_validate t"]) (simp_all add: system1_parse_def)
qed

lemma ex_multi1: "case multi1_parse ex_parse_env (pv_state_new ''1'' SPEC_MULTI1) ex_multi1_json of
    Done (Some s) \<Rightarrow> map p_name (s_platforms s) = [''app''] \<and> map p_ns_share (s_platforms s) = [2] | _ \<Rightarrow> False"
  by code_simp

text \<open>C50: A revision of the system format that was parsed is well-formed: it has an image; every platform is
  installed, has a runlevel and an address of its own; every object, json and volume has the platform that
  its name says or none, and what is below \<open>_config\<close> has one.\<close>

theorem parsed_well_formed:
  assumes "system1_parse e (pv_state_new r SPEC_SYSTEM1) buf = Done (Some s)" "fresh_alloc e"
  shows "state_wf s \<and> b_kernel_or_fit (s_bsp s) \<noteq> None \<and> s_rev s = r \<and> s_json s = Some buf \<and>
    list_all (\<lambda>p. p_status p = PLAT_INSTALLED \<and> p_runlevel p \<in> {RUNLEVEL_DATA..RUNLEVEL_APP}) (s_platforms s) \<and>
    list_all (\<lambda>ob. o_plat ob = link_to (s_platforms s) (o_name ob) \<and> (in_config (o_name ob) \<longrightarrow> o_plat ob \<noteq> None)) (s_objects s) \<and>
    list_all (\<lambda>j. j_plat j = link_to (s_platforms s) (j_name j) \<and> (in_config (j_name j) \<longrightarrow> j_plat j \<noteq> None)) (s_jsons s)"
  using assms
proof (rule system1_parsed)
  fix bspv keys s2
  assume ok: "plats_ok None s2" and id: "map plat_ident (s_platforms s) = map plat_ident (s_platforms s2)"
    and os: "s_objects s = map (link_object (s_platforms s)) (filter (\<lambda>ob. stays (s_platforms s) (o_name ob)) (s_objects s2))"
    and js: "s_jsons s = map (link_json (s_platforms s)) (filter (\<lambda>j. stays (s_platforms s) (j_name j)) (s_jsons s2))"
    and vs: "s_volumes s = s_volumes s2" and rest: "s_rev s = r" "s_json s = Some buf" "b_kernel_or_fit (s_bsp s) \<noteq> None"
    and lv: "\<forall>p \<in> set (s_platforms s). p_runlevel p \<in> {0..3}"
  have o: "list_all (\<lambda>ob. o_plat ob = link_to (s_platforms s) (o_name ob) \<and> (in_config (o_name ob) \<longrightarrow> o_plat ob \<noteq> None)) (s_objects s)"
    by (subst os) (auto simp: list_all_iff link_object_def stays_def)
  have j: "list_all (\<lambda>j. j_plat j = link_to (s_platforms s) (j_name j) \<and> (in_config (j_name j) \<longrightarrow> j_plat j \<noteq> None)) (s_jsons s)"
    by (subst js) (auto simp: list_all_iff link_json_def stays_def)
  have "plat_ident p \<in> set (map plat_ident (s_platforms s2))" if "p \<in> set (s_platforms s)" for p
    using that by (simp flip: id)
  then have inst: "\<forall>p \<in> set (s_platforms s). p_status p = PLAT_INSTALLED"
    using ok unfolding plats_ok_def plat_ident_def by fastforce
  have addrs: "map p_addr (s_platforms s) = map p_addr (s_platforms s2)" by (rule addrs_cong [OF id])
  have "links_ok (s_platforms s) (map v_plat (s_volumes s))" using ok unfolding plats_ok_def links_ok_addrs addrs vs by blast
  moreover have "links_ok (s_platforms s) (map o_plat (s_objects s))" "links_ok (s_platforms s) (map j_plat (s_jsons s))"
    using o j link_to_addr [of "s_platforms s"] unfolding links_ok_def list_all_iff by (fastforce split: option.splits)+
  ultimately have "state_wf s"
    using ok by (auto simp: state_wf_def state_links_def links_ok_def plats_ok_def addrs)
  moreover have "list_all (\<lambda>p. p_status p = PLAT_INSTALLED \<and> p_runlevel p \<in> {RUNLEVEL_DATA..RUNLEVEL_APP}) (s_platforms s)"
    using inst lv by (simp add: list_all_iff runlevel_defs)
  ultimately show ?thesis using o j rest by blast
qed

theorem parsed_well_formed_witness:
  "\<exists>s :: pv_state. map plat_ident (s_platforms s) = [(''app'', 1, PLAT_INSTALLED)] \<and> map v_name (s_volumes s) = [''d''] \<and> state_wf s"
proof -
  obtain s where s: "system1_parse ex_parse_env (pv_state_new ''1'' SPEC_SYSTEM1) ex_system1_json = Done (Some s)"
      "map plat_ident (s_platforms s) = [(''app'', 1, PLAT_INSTALLED)]" "map v_name (s_volumes s) = [''d'']"
    by (rule ex_system1)
  from parsed_well_formed [OF s(1) ex_fresh] s(2,3) show ?thesis by (intro exI [of _ s]) simp
qed



section \<open>The older format\<close>

definition unlevelled :: "pv_state \<Rightarrow> bool" where
  "unlevelled s \<longleftrightarrow> list_all (\<lambda>p. p_runlevel p = -1 \<and> p_loggers p = []) (s_platforms s)"

lemma unlevelled_set: "unlevelled s \<Longrightarrow> (\<And>p. p_runlevel (f p) = p_runlevel p \<and> p_loggers (f p) = p_loggers p) \<Longrightarrow> unlevelled (set_platform a f s)"
  by (auto simp: unlevelled_def set_platform_def list_all_iff)

lemma unlevelled_platform: "multi1_parse_platform e s buf = Done s' \<Longrightarrow> unlevelled s \<Longrightarrow> unlevelled s'"
  by (auto simp: multi1_parse_platform_def Let_def elim!: bind_o_Done split: option.splits if_splits intro!: unlevelled_set)

lemma unlevelled_items: "multi1_items e buf ks r = Done r' \<Longrightarrow> unlevelled (snd r) \<Longrightarrow> unlevelled (snd r')"
proof (induction ks arbitrary: r)
  case (Cons k ks)
  obtain t v where k: "key_value k = Done (t, v)" using Cons.prems(1) by (auto elim!: bind_o_Done)
  show ?case
  proof (cases "key_skipped ''pantavisor.json'' buf t \<or> key_skipped ''#spec'' buf t")
    case True
    then show ?thesis using Cons k by simp
  next
    case False
    then obtain s where s: "(if ext_at CHR ''.'' (tok_text buf t) = Some ''.json'' then multi1_parse_platform e (snd r) (tok_text buf v)
         else Done (pv_objects_add (snd r) (tok_text buf t) (tok_text buf v) (pe_mnt e))) = Done s"
        and r': "multi1_items e buf ks (True, s) = Done r'"
      using Cons.prems(1) k by (auto elim!: bind_o_Done)
    from s Cons.prems(2) have "unlevelled s"
      by (auto simp: pv_objects_add_def unlevelled_def [of "s_objects_update _ _"] split: if_splits dest!: unlevelled_platform) (simp add: unlevelled_def)
    then show ?thesis using Cons.IH [OF r'] by simp
  qed
qed simp

lemma unlevelled_pantavisor: "parse_pantavisor e s buf = Done (b, s') \<Longrightarrow> unlevelled s \<Longrightarrow> unlevelled s'"
proof -
  have a: "unlevelled (foldl pv_addon_add s as) = unlevelled s" for s as
    by (induction as arbitrary: s) (auto simp: pv_addon_add_def unlevelled_def)
  have v: "unlevelled (foldl (\<lambda>s n. add_volume s n None VOL_LOOPIMG) s vs) = unlevelled s" for s vs
    by (induction vs arbitrary: s) (auto simp: unlevelled_def)
  have p: "unlevelled (add_platforms e s ns) = unlevelled s" for s ns
    unfolding add_platforms_def by (induction ns arbitrary: s) (auto simp: unlevelled_def pv_platform_add_def new_platform_def)
  show "parse_pantavisor e s buf = Done (b, s') \<Longrightarrow> unlevelled s \<Longrightarrow> unlevelled s'"
    by (auto simp: parse_pantavisor_def Let_def a v p elim!: bind_o_Done split: if_splits) (auto simp: unlevelled_def)
qed

lemma multi1_unlevelled:
  assumes "multi1_parse e (pv_state_new r SPEC_MULTI1) buf = Done (Some s)"
  shows "unlevelled s"
proof -
  have new: "unlevelled (pv_state_new r SPEC_MULTI1)" by (simp add: unlevelled_def pv_state_new_def)
  show ?thesis
  proof (cases "s = pv_state_new r SPEC_MULTI1")
    case False
    then obtain val keys s1 s2 where 1: "parse_pantavisor e (pv_state_new r SPEC_MULTI1) val = Done (True, s1)"
        and 2: "multi1_items e buf keys (False, s1) = Done (True, s2)" and s: "s = pv_platforms_remove_not_installed (s2\<lparr>s_json := Some buf\<rparr>)"
      using assms by (auto simp: multi1_parse_def Let_def elim!: bind_o_Done split: if_splits option.splits)
    from unlevelled_items [OF 2] unlevelled_pantavisor [OF 1 new] have "unlevelled s2" by simp
    then show ?thesis by (auto simp: s unlevelled_def pv_platforms_remove_not_installed_def list_all_iff)
  qed (use new in simp)
qed

lemma start_list_none: "\<forall>p \<in> set ps. p_runlevel p \<noteq> i \<Longrightarrow> start_list rt s i ps = Done (True, ps, [])"
  by (induction ps) auto

lemma start_levels_none: "\<forall>p \<in> set ps. p_runlevel p \<notin> set is \<Longrightarrow> start_levels rt s is ps = Done (True, ps, [])"
  by (induction "is") (auto simp: start_list_none)

lemma start_loggers_none: "p_loggers p = [] \<Longrightarrow> start_loggers rt p = p"
  by (simp add: start_loggers_def)

text \<open>No platform of a revision of the older format ever runs: its parser gives none of them a runlevel,
  so that starting them from any runlevel starts nothing and reports success.\<close>

theorem multi1_never_starts:
  assumes "multi1_parse e (pv_state_new r SPEC_MULTI1) buf = Done (Some s)" "RUNLEVEL_DATA \<le> runlevel"
  shows "pv_platforms_start rt s runlevel = Done (0, s, [])"
proof -
  have u: "\<forall>p \<in> set (s_platforms s). p_runlevel p = -1 \<and> p_loggers p = []"
    using multi1_unlevelled [OF assms(1)] by (simp add: unlevelled_def list_all_iff)
  have "map (start_loggers rt) (s_platforms s) = s_platforms s"
    using u start_loggers_none by (intro map_idI) blast
  moreover have "start_levels rt s [runlevel..MAX_RUNLEVEL] (s_platforms s) = Done (True, s_platforms s, [])"
    using u assms(2) by (intro start_levels_none) (auto simp: runlevel_defs)
  ultimately show ?thesis by (simp add: pv_platforms_start_def)
qed

theorem multi1_never_starts_witness:
  "\<exists>s :: pv_state. map p_name (s_platforms s) = [''app''] \<and> (\<forall>rt. pv_platforms_start rt s 0 = Done (0, s, []))"
proof -
  obtain s where s: "multi1_parse ex_parse_env (pv_state_new ''1'' SPEC_MULTI1) ex_multi1_json = Done (Some s)" "map p_name (s_platforms s) = [''app'']"
    using ex_multi1 by (auto split: outcome.splits option.splits)
  have "pv_platforms_start rt s 0 = Done (0, s, [])" for rt
    using multi1_never_starts [OF s(1), of 0 rt] by (simp add: runlevel_defs)
  with s(2) show ?thesis by (intro exI [of _ s] conjI allI)
qed

end
