(* ===== verification/LogMsg.thy ===== *)
theory LogMsg
  imports Config
begin

text \<open>
  The messages of the loggers: \<open>ph_logger/ph_logger_v1.c\<close>, which packs and unpacks them, \<open>__ph_log\<close> of
  \<open>ph_logger/ph_logger.c\<close>, the writer of the log files, and \<open>pvlogger.c\<close>, which cuts the output of a
  container into messages. A buffer is the list of its bytes; writing or reading past its end is a \<open>Fault\<close>.
\<close>

section \<open>Buffers\<close>

definition put_at :: "nat \<Rightarrow> string \<Rightarrow> string \<Rightarrow> string outcome" where
  "put_at off bytes mem = (if off + length bytes \<le> length mem
     then Done (take off mem @ bytes @ drop (off + length bytes) mem) else Fault)"

text \<open>\<open>snprintf(mem + off, n, \<dots>)\<close> of a text; a negative \<open>n\<close> is a huge size.\<close>

definition snprintf_at :: "nat \<Rightarrow> int \<Rightarrow> string \<Rightarrow> string \<Rightarrow> string outcome" where
  "snprintf_at off n full mem = (if n = 0 then Done mem
     else put_at off ((if n < 0 then full else take (nat n - 1) full) @ [NUL]) mem)"

definition memcpy_at :: "nat \<Rightarrow> int \<Rightarrow> string \<Rightarrow> string \<Rightarrow> string outcome" where
  "memcpy_at off n src mem = (if n < 0 \<or> int (length src) < n then Fault else put_at off (take (nat n) src) mem)"

definition str_at :: "nat \<Rightarrow> string \<Rightarrow> string outcome" where
  "str_at off mem = (if NUL \<in> set (drop off mem) then Done (cstr (drop off mem)) else Fault)"

section \<open>Packing and unpacking\<close>

datatype log_level = FATAL | ERROR | WARN | INFO | DEBUG

text \<open>The result is the length that was copied, the new \<open>len\<close> and the buffer. What is written so far is
  subtracted from the rest each time, so that the level counts three times.\<close>

definition ph_logger_write_handler_v1 :: "string \<Rightarrow> int \<Rightarrow> string \<Rightarrow> int \<Rightarrow> string \<Rightarrow> string \<Rightarrow> int \<Rightarrow> (int \<times> int \<times> string) outcome" where
  "ph_logger_write_handler_v1 mem len buf level platform source data_len =
     (let l = show_int level @ [NUL]; p = platform @ [NUL]; s = source @ [NUL];
          w1 = length l; w2 = w1 + length p; w3 = w2 + length s;
          a1 = len - int w1; a2 = a1 - int w2; a3 = a2 - int w3;
          to_copy = (if data_len \<le> a3 then data_len else a3)
      in case snprintf_at 0 len l mem of Fault \<Rightarrow> Fault
       | Done m1 \<Rightarrow> (case snprintf_at w1 a1 p m1 of Fault \<Rightarrow> Fault
         | Done m2 \<Rightarrow> (case snprintf_at w2 a2 s m2 of Fault \<Rightarrow> Fault
           | Done m3 \<Rightarrow> (case memcpy_at w3 to_copy buf m3 of Fault \<Rightarrow> Fault
             | Done m4 \<Rightarrow> Done (to_copy, int w3 + to_copy, m4)))))"

record log_parts =
  lp_level :: int
  lp_platform :: string
  lp_source :: string
  lp_data :: nat
  lp_len :: int

text \<open>Without an output buffer the data stays where it is; \<open>lp_data\<close> is its offset.\<close>

definition ph_logger_read_handler_v1 :: "string \<Rightarrow> int \<Rightarrow> log_parts outcome" where
  "ph_logger_read_handler_v1 mem len =
     (case str_at 0 mem of Fault \<Rightarrow> Fault
      | Done l \<Rightarrow> (case str_at (length l + 1) mem of Fault \<Rightarrow> Fault
        | Done p \<Rightarrow> (case str_at (length l + length p + 2) mem of Fault \<Rightarrow> Fault
          | Done s \<Rightarrow> (let off = length l + length p + length s + 3 in
              Done \<lparr>lp_level = atoi l, lp_platform = p, lp_source = s, lp_data = off, lp_len = len - int off\<rparr>))))"

section \<open>Writing to the log files\<close>

text \<open>Making the directory of a file, opening it, and its size; what is written to which file.\<close>

record log_files =
  lf_mkdir :: "string \<Rightarrow> bool"
  lf_open :: "string \<Rightarrow> bool"
  lf_size :: "string \<Rightarrow> int"

record log_write =
  lw_path :: string
  lw_truncate :: bool
  lw_text :: string

definition level_names :: "string list" where
  "level_names = [''FATAL'', ''ERROR'', ''WARN'', ''INFO'', ''DEBUG'']"

text \<open>\<open>%.*s\<close>: at most \<open>n\<close> bytes, up to a NUL; a negative \<open>n\<close> is none.\<close>

definition precise_at :: "nat \<Rightarrow> int \<Rightarrow> string \<Rightarrow> string outcome" where
  "precise_at off n mem = (if n < 0 then str_at off mem
     else if NUL \<in> set (take (nat n) (drop off mem)) \<or> nat n \<le> length (drop off mem) then Done (cstr (take (nat n) (drop off mem)))
     else Fault)"

definition ph_logger_write_to_file_handler_v1 :: "log_files \<Rightarrow> string \<Rightarrow> string \<Rightarrow> string \<Rightarrow> int \<Rightarrow> (int \<times> log_write option) outcome" where
  "ph_logger_write_to_file_handler_v1 f log_dir rv mem len =
     (case ph_logger_read_handler_v1 mem len of Fault \<Rightarrow> Fault
      | Done m \<Rightarrow> (let path = take 4095 (log_dir @ ''/'' @ rv @ ''/'' @ lp_platform m @ ''/'' @ lp_source m) in
          if \<not> lf_mkdir f path \<or> \<not> lf_open f path then Done (-1, None)
          else if lp_level m < 0 \<or> 5 \<le> lp_level m then Fault
          else case precise_at (lp_data m) (lp_len m) mem of Fault \<Rightarrow> Fault
            | Done d \<Rightarrow> Done (0, Some \<lparr>lw_path = path, lw_truncate = 2 * 1024 * 1024 \<le> lf_size f path,
                 lw_text = level_names ! nat (lp_level m) @ '' -- '' @ d @ ''\<newline>''\<rparr>)))"

text \<open>Of the versions only the first is known.\<close>

definition ph_logger_write_to_log_file :: "log_files \<Rightarrow> string \<Rightarrow> int \<Rightarrow> string \<Rightarrow> int \<Rightarrow> (int \<times> log_write option) outcome" where
  "ph_logger_write_to_log_file f rv version mem len =
     (if version \<noteq> 0 then Done (0, None) else ph_logger_write_to_file_handler_v1 f ''/pv/logs'' rv mem len)"

section \<open>Logging of the loggers themselves\<close>

text \<open>\<open>sz\<close> is the size of both buffers, \<open>mem\<close> what the second has behind the header of 8 bytes. The result is
  what is sent behind a header with this length.\<close>

definition ph_log_max :: "nat \<Rightarrow> int" where
  "ph_log_max len = int (len + 1) + 9 + 14 + 6 + 4"

definition level_num :: "log_level \<Rightarrow> int" where
  "level_num l = (case l of FATAL \<Rightarrow> 0 | ERROR \<Rightarrow> 1 | WARN \<Rightarrow> 2 | INFO \<Rightarrow> 3 | DEBUG \<Rightarrow> 4)"

definition ph_log :: "nat \<Rightarrow> string \<Rightarrow> log_level \<Rightarrow> string \<Rightarrow> (int \<times> string) option outcome" where
  "ph_log sz mem level msg = (let buffer = take (sz - 1) msg; len = length buffer; max_size = ph_log_max len in
     if max_size > int sz then Done None
     else case ph_logger_write_handler_v1 mem (8 + max_size) (buffer @ [NUL])
         (level_num level) ''ph_logger'' ''/ph_logger.log'' (int (len + 1)) of
       Fault \<Rightarrow> Fault | Done (_, len', mem') \<Rightarrow> Done (Some (len', take (nat len') mem')))"

text \<open>Levels are ordered as the enum orders them, the most severe first; a message is dropped when its level is above
  the configured one. What the HTTP library logs is passed on as \<open>DEBUG\<close>, whatever its own level is.\<close>

instantiation log_level :: linorder
begin

definition less_eq_log_level :: "log_level \<Rightarrow> log_level \<Rightarrow> bool" where
  "a \<le> b \<longleftrightarrow> level_num a \<le> level_num b"

definition less_log_level :: "log_level \<Rightarrow> log_level \<Rightarrow> bool" where
  "a < b \<longleftrightarrow> level_num a < level_num b"

instance
proof
  fix a b :: log_level
  show "a \<le> b \<Longrightarrow> b \<le> a \<Longrightarrow> a = b"
    by (cases a; cases b) (simp_all add: less_eq_log_level_def level_num_def)
qed (auto simp: less_eq_log_level_def less_log_level_def)

end

definition ph_log_checked :: "int \<Rightarrow> nat \<Rightarrow> string \<Rightarrow> log_level \<Rightarrow> string \<Rightarrow> (int \<times> string) option outcome" where
  "ph_log_checked loglevel sz mem level msg = (if level_num level > loglevel then Done None else ph_log sz mem level msg)"

definition log_libthttp :: "int \<Rightarrow> nat \<Rightarrow> string \<Rightarrow> int \<Rightarrow> string \<Rightarrow> (int \<times> string) option outcome" where
  "log_libthttp loglevel sz mem level msg = (if level > loglevel then Done None else ph_log sz mem DEBUG msg)"

text \<open>A threshold that lets a level pass lets every more severe one pass; one that stops a level stops every less
  severe one.\<close>
lemma severe_passes:
  assumes "a \<le> b"
  shows "level_num b \<le> loglevel \<Longrightarrow> ph_log_checked loglevel sz mem a msg = ph_log sz mem a msg"
    and "loglevel < level_num a \<Longrightarrow> ph_log_checked loglevel sz mem b msg = Done None"
  using assms by (auto simp: ph_log_checked_def less_eq_log_level_def)

section \<open>The loggers of the platforms\<close>

text \<open>\<open>pv_log\<close> of \<open>pvlogger.c\<close>: the messages that are sent for a text, each of the bytes behind its header. The
  buffer is reused; the length that was copied is not negative.\<close>

lemma written_nonneg: "ph_logger_write_handler_v1 mem len buf level platform source n = Done (w, len', mem') \<Longrightarrow> 0 \<le> w"
  by (auto simp: ph_logger_write_handler_v1_def memcpy_at_def Let_def split: outcome.splits if_splits)

definition MSG_ROOM :: int where
  "MSG_ROOM = 4096 + 4096 div 2 - 8"

function send_chunks :: "string \<Rightarrow> int \<Rightarrow> string \<Rightarrow> string \<Rightarrow> string \<Rightarrow> (int \<times> string) list outcome" where
  "send_chunks mem level platform source text =
     (if text = [] then Done []
      else case ph_logger_write_handler_v1 mem MSG_ROOM text level platform source (int (length text)) of
        Fault \<Rightarrow> Fault
      | Done (w, len', mem') \<Rightarrow>
          (if w = 0 then Done [(len', take (nat len') mem')]
           else case send_chunks mem' level platform source (drop (nat w) text) of Fault \<Rightarrow> Fault
             | Done ms \<Rightarrow> Done ((len', take (nat len') mem') # ms)))"
  by pat_completeness auto
termination
  by (relation "measure (\<lambda>(mem, level, platform, source, text). length text)") (auto dest!: written_nonneg)

declare send_chunks.simps [simp del]

definition pvlogger_log :: "string \<Rightarrow> int \<Rightarrow> string \<Rightarrow> string \<Rightarrow> string \<Rightarrow> (int \<times> string) list outcome" where
  "pvlogger_log mem level platform source msg = send_chunks mem level platform source (take (4096 + 4096 div 2 - 1) msg @ [NUL])"

text \<open>\<open>pvlogger_flush\<close>: the lines that are logged for the output of a container, and what is kept in \<open>logger_cmd\<close>. A
  NUL follows the output.\<close>

definition line_end :: "string \<Rightarrow> nat option" where
  "line_end buf = (case strchr (cstr buf) CHR ''\<newline>'' of Some i \<Rightarrow> Some i | None \<Rightarrow> strchr (cstr buf) CR)"

definition kept_cmd :: "string \<Rightarrow> string" where
  "kept_cmd cmd = (if length cmd = 4095 then [] else cmd)"

definition flush_written :: "string \<Rightarrow> string \<Rightarrow> nat" where
  "flush_written buf cmd = min (case line_end buf of Some i \<Rightarrow> i | None \<Rightarrow> length buf) (4095 - length (kept_cmd cmd))"

function pvlogger_flush :: "string \<Rightarrow> string \<Rightarrow> string list \<times> string" where
  "pvlogger_flush buf cmd =
     (if buf = [] then ([], cmd)
      else let full = (if length cmd = 4095 then [cstr cmd] else []);
               w = flush_written buf cmd; text = take w (cstr buf);
               cmd1 = kept_cmd cmd @ text @ replicate (w - length text) NUL
           in if w = 0 \<and> line_end buf = None then (full, kept_cmd cmd)
              else if line_end buf = None then (case pvlogger_flush (drop w buf) cmd1 of (ls, c) \<Rightarrow> (full @ ls, c))
              else (case pvlogger_flush (drop (w + 1) buf) [] of (ls, c) \<Rightarrow> (full @ cstr cmd1 # ls, c)))"
  by pat_completeness auto
termination
  by (relation "measure (\<lambda>(buf, cmd). length buf)") auto

declare pvlogger_flush.simps [simp del]

section \<open>Facts\<close>

lemma put_at_fits:
  assumes "off + length bytes \<le> length m"
  obtains r where "put_at off bytes m = Done (take off m @ bytes @ r)" "length (take off m @ bytes @ r) = length m"
  using assms that [of "drop (off + length bytes) m"] by (simp add: put_at_def)

text \<open>A text that fits is written, with a second NUL behind it.\<close>

lemma snprintf_fits:
  assumes "off + length full < length m" "int (length full) < n"
  obtains r where "snprintf_at off n full m = Done (take off m @ full @ r)" "length (take off m @ full @ r) = length m"
proof -
  have "snprintf_at off n full m = put_at off (full @ [NUL]) m" using assms(2) by (simp add: snprintf_at_def)
  moreover obtain r where "put_at off (full @ [NUL]) m = Done (take off m @ (full @ [NUL]) @ r)" "length (take off m @ (full @ [NUL]) @ r) = length m"
    using put_at_fits [of off "full @ [NUL]" m] assms(1) by auto
  ultimately show ?thesis using that [of "NUL # r"] by simp
qed

lemma take_exactly: "length a = n \<Longrightarrow> take n (a @ b) = a"
  by simp

text \<open>What the writer counts for the head, and what is written when the length allows for some of the data:
  the four parts one after the other.\<close>

definition head_count :: "int \<Rightarrow> string \<Rightarrow> string \<Rightarrow> nat" where
  "head_count level platform source = 3 * length (show_int level) + 2 * length platform + length source + 6"

lemma write_some:
  assumes c: "int c = min (int (length data)) (len - int (head_count level platform source))" "0 < c"
    and room: "length (show_int level) + length platform + length source + 3 + c \<le> length mem"
  obtains r where "ph_logger_write_handler_v1 mem len data level platform source (int (length data)) =
    Done (int c, int (length (show_int level) + length platform + length source + 3 + c),
      show_int level @ [NUL] @ platform @ [NUL] @ source @ [NUL] @ take c data @ r)"
    "length (show_int level @ [NUL] @ platform @ [NUL] @ source @ [NUL] @ take c data @ r) = length mem"
proof -
  let ?l = "show_int level @ [NUL]" and ?p = "platform @ [NUL]" and ?s = "source @ [NUL]"
  let ?w1 = "length ?l" let ?w2 = "?w1 + length ?p" let ?w3 = "?w2 + length ?s"
  let ?a1 = "len - int ?w1" let ?a2 = "?a1 - int ?w2" let ?a3 = "?a2 - int ?w3"
  have len: "int (head_count level platform source) + int c \<le> len" and cd: "c \<le> length data" using c by auto
  note hc = head_count_def
  obtain r1 where 1: "snprintf_at 0 len ?l mem = Done (?l @ r1)" "length (?l @ r1) = length mem"
    using snprintf_fits [of 0 ?l mem len] len room c(2) by (auto simp: hc)
  obtain r2 where 2: "snprintf_at ?w1 ?a1 ?p (?l @ r1) = Done (?l @ ?p @ r2)" "length (?l @ ?p @ r2) = length mem"
  proof (rule snprintf_fits [of ?w1 ?p "?l @ r1" ?a1])
    show "?w1 + length ?p < length (?l @ r1)" using 1(2) room c(2) by simp
    show "int (length ?p) < ?a1" using len c(2) by (simp add: hc)
    fix r assume "snprintf_at ?w1 ?a1 ?p (?l @ r1) = Done (take ?w1 (?l @ r1) @ ?p @ r)" "length (take ?w1 (?l @ r1) @ ?p @ r) = length (?l @ r1)"
    then show ?thesis using that [of r] 1(2) by (simp only: take_exactly)
  qed
  obtain r3 where 3: "snprintf_at ?w2 ?a2 ?s (?l @ ?p @ r2) = Done (?l @ ?p @ ?s @ r3)" "length (?l @ ?p @ ?s @ r3) = length mem"
  proof (rule snprintf_fits [of ?w2 ?s "(?l @ ?p) @ r2" ?a2])
    show "?w2 + length ?s < length ((?l @ ?p) @ r2)" using 2(2) room c(2) by simp
    show "int (length ?s) < ?a2" using len c(2) by (simp add: hc)
    have w: "take ?w2 ((?l @ ?p) @ r2) = ?l @ ?p" by (rule take_exactly) simp
    fix r assume "snprintf_at ?w2 ?a2 ?s ((?l @ ?p) @ r2) = Done (take ?w2 ((?l @ ?p) @ r2) @ ?s @ r)"
      "length (take ?w2 ((?l @ ?p) @ r2) @ ?s @ r) = length ((?l @ ?p) @ r2)"
    then show ?thesis using that [of r] 2(2) unfolding w by simp
  qed
  have td: "length (take c data) = c" using cd by simp
  obtain r4 where 4: "put_at ?w3 (take c data) (?l @ ?p @ ?s @ r3) = Done (?l @ ?p @ ?s @ take c data @ r4)"
      "length (?l @ ?p @ ?s @ take c data @ r4) = length mem"
  proof (rule put_at_fits [of ?w3 "take c data" "(?l @ ?p @ ?s) @ r3"])
    show "?w3 + length (take c data) \<le> length ((?l @ ?p @ ?s) @ r3)" using 3(2) room td by simp
    have w: "take ?w3 ((?l @ ?p @ ?s) @ r3) = ?l @ ?p @ ?s" by (rule take_exactly) simp
    fix r assume "put_at ?w3 (take c data) ((?l @ ?p @ ?s) @ r3) = Done (take ?w3 ((?l @ ?p @ ?s) @ r3) @ take c data @ r)"
      "length (take ?w3 ((?l @ ?p @ ?s) @ r3) @ take c data @ r) = length ((?l @ ?p @ ?s) @ r3)"
    then show ?thesis using that [of r] 3(2) unfolding w by simp
  qed
  have a3: "(if int (length data) \<le> ?a3 then int (length data) else ?a3) = int c" using c by (auto simp: hc min_def)
  have "memcpy_at ?w3 (int c) data (?l @ ?p @ ?s @ r3) = Done (?l @ ?p @ ?s @ take c data @ r4)"
    using 4(1) cd by (simp add: memcpy_at_def)
  with 1(1) 2(1) 3(1) have "ph_logger_write_handler_v1 mem len data level platform source (int (length data)) =
      Done (int c, int ?w3 + int c, ?l @ ?p @ ?s @ take c data @ r4)"
    unfolding ph_logger_write_handler_v1_def Let_def a3 by (simp only: outcome.case)
  then show ?thesis using that [of r4] 4(2) by simp
qed

lemma write_parts:
  assumes "int (head_count level platform source) + int (length data) \<le> len"
    "length (show_int level) + length platform + length source + 3 + length data \<le> length mem" "data \<noteq> []"
  obtains r where "ph_logger_write_handler_v1 mem len data level platform source (int (length data)) =
    Done (int (length data), int (length (show_int level) + length platform + length source + 3 + length data),
      show_int level @ [NUL] @ platform @ [NUL] @ source @ [NUL] @ data @ r)"
proof -
  have "int (length data) = min (int (length data)) (len - int (head_count level platform source))" "0 < length data"
    using assms(1,3) by auto
  from write_some [OF this assms(2)] obtain r where "ph_logger_write_handler_v1 mem len data level platform source (int (length data)) =
    Done (int (length data), int (length (show_int level) + length platform + length source + 3 + length data),
      show_int level @ [NUL] @ platform @ [NUL] @ source @ [NUL] @ take (length data) data @ r)" .
  with that [of r] show ?thesis by simp
qed

lemma str_at_part: "no_nul s \<Longrightarrow> length a = off \<Longrightarrow> str_at off (a @ s @ NUL # r) = Done s"
  by (simp add: str_at_def cstr_append)

lemma no_nul_show_int [simp]: "no_nul (show_int i)"
  by (simp add: show_int_def)

lemma read_parts:
  assumes "no_nul platform" "no_nul source"
  shows "ph_logger_read_handler_v1 (show_int level @ [NUL] @ platform @ [NUL] @ source @ [NUL] @ r) len =
    Done \<lparr>lp_level = level, lp_platform = platform, lp_source = source, lp_data = length (show_int level) + length platform + length source + 3,
      lp_len = len - int (length (show_int level) + length platform + length source + 3)\<rparr>"
proof -
  let ?m = "show_int level @ [NUL] @ platform @ [NUL] @ source @ [NUL] @ r"
  have 1: "str_at 0 ?m = Done (show_int level)" using str_at_part [of "show_int level" "[]"] by simp
  have 2: "str_at (length (show_int level) + 1) ?m = Done platform"
    using str_at_part [OF assms(1), of "show_int level @ [NUL]"] by simp
  have 3: "str_at (length (show_int level) + length platform + 2) ?m = Done source"
    using str_at_part [OF assms(2), of "show_int level @ [NUL] @ platform @ [NUL]"] by simp
  show ?thesis by (simp only: ph_logger_read_handler_v1_def 1 2 3 outcome.case Let_def atoi_show_int)
qed

section \<open>Properties\<close>

text \<open>A message of a logger reads back as it was written, when the length that the writer is given counts the
  level three times, the platform twice and the rest once, and the buffer holds each once.\<close>

theorem log_message_reads_back:
  assumes "int (head_count level platform source) + int (length data) \<le> len"
    "length (show_int level) + length platform + length source + 3 + length data \<le> length mem" "data \<noteq> []"
    "no_nul platform" "no_nul source"
  shows "\<exists>len' mem' off. ph_logger_write_handler_v1 mem len data level platform source (int (length data)) = Done (int (length data), len', mem') \<and>
    ph_logger_read_handler_v1 mem' len' = Done \<lparr>lp_level = level, lp_platform = platform, lp_source = source, lp_data = off, lp_len = int (length data)\<rparr> \<and>
    take (length data) (drop off mem') = data"
proof -
  obtain r where w: "ph_logger_write_handler_v1 mem len data level platform source (int (length data)) =
    Done (int (length data), int (length (show_int level) + length platform + length source + 3 + length data),
      show_int level @ [NUL] @ platform @ [NUL] @ source @ [NUL] @ data @ r)"
    using write_parts [OF assms(1-3)] .
  let ?head = "show_int level @ [NUL] @ platform @ [NUL] @ source @ [NUL]"
  have "take (length data) (drop (length (show_int level) + length platform + length source + 3) (?head @ data @ r)) = data"
    by (subst drop_append) simp
  then show ?thesis unfolding w using read_parts [OF assms(4,5), of level "data @ r"] by simp
qed

theorem log_message_reads_back_witness:
  "\<exists>len' mem' off. ph_logger_write_handler_v1 (replicate 30 CHR ''x'') 60 ''hi'' 3 ''app'' ''/log'' 2 = Done (2, len', mem') \<and>
    ph_logger_read_handler_v1 mem' len' = Done \<lparr>lp_level = 3, lp_platform = ''app'', lp_source = ''/log'', lp_data = off, lp_len = 2\<rparr> \<and>
    take 2 (drop off mem') = ''hi''"
proof -
  have "length (show_int 3) = 1" by (simp add: show_int_def show_nat.simps)
  then show ?thesis
    using log_message_reads_back [of 3 "''app''" "''/log''" "''hi''" 60 "replicate 30 CHR ''x''"] by (simp add: numeral_2_eq_2 head_count_def)
qed

lemma put_at_length: "put_at off bytes m = Done m' \<Longrightarrow> length m' = length m"
  by (auto simp: put_at_def split: if_splits)

lemma snprintf_length: "snprintf_at off n full m = Done m' \<Longrightarrow> length m' = length m"
  by (auto simp: snprintf_at_def split: if_splits dest: put_at_length)

text \<open>When the parts are longer than the buffer the writer runs over it.\<close>

lemma write_overruns:
  assumes "length (show_int level) + length platform + length source + 3 + length data > length mem"
    "int (head_count level platform source) + int (length data) \<le> len"
  shows "ph_logger_write_handler_v1 mem len data level platform source (int (length data)) = Fault"
proof (rule ccontr)
  let ?l = "show_int level @ [NUL]" and ?p = "platform @ [NUL]" and ?s = "source @ [NUL]"
  let ?w1 = "length ?l" let ?w2 = "?w1 + length ?p" let ?w3 = "?w2 + length ?s"
  let ?a1 = "len - int ?w1" let ?a2 = "?a1 - int ?w2"
  assume n: "\<not> ?thesis"
  have c: "int (length data) \<le> ?a2 - int ?w3" using assms(2) by (simp add: head_count_def)
  from n c obtain m1 m2 m3 m4 where "snprintf_at 0 len ?l mem = Done m1" "snprintf_at ?w1 ?a1 ?p m1 = Done m2"
      "snprintf_at ?w2 ?a2 ?s m2 = Done m3" and 4: "memcpy_at ?w3 (int (length data)) data m3 = Done m4"
    unfolding ph_logger_write_handler_v1_def Let_def by (auto simp del: length_append split: outcome.splits)
  then have "length m3 = length mem" by (auto dest!: snprintf_length)
  with 4 assms(1) show False by (simp add: memcpy_at_def put_at_def)
qed

lemma level_num_digit: "length (show_int (level_num l)) = 1"
  by (cases l) (simp_all add: level_num_def show_int_def show_nat.simps)

text \<open>A message that the logger service logs itself, of \<open>n\<close> bytes after it was cut to its buffer: when the
  buffers have 36 bytes more, it is sent whole with its NUL; when they have less than 34 more, it is dropped; in
  between, with 34 or 35 more, the writer runs over the buffer.\<close>
theorem ph_log_overruns:
  fixes sz :: nat and mem msg :: string
  defines "n \<equiv> length (take (sz - 1) msg)"
  assumes "length mem = sz - 8" "8 \<le> sz"
  shows "(n + 36 \<le> sz \<longrightarrow> (\<exists>bytes r. ph_log sz mem level msg = Done (Some (int n + 28, bytes)) \<and>
        ph_logger_read_handler_v1 bytes (int n + 28) = Done \<lparr>lp_level = level_num level, lp_platform = ''ph_logger'',
          lp_source = ''/ph_logger.log'', lp_data = 27, lp_len = int n + 1\<rparr> \<and> drop 27 bytes = take (sz - 1) msg @ [NUL])) \<and>
    (sz < n + 36 \<and> n + 34 \<le> sz \<longrightarrow> ph_log sz mem level msg = Fault) \<and> (sz < n + 34 \<longrightarrow> ph_log sz mem level msg = Done None)"
proof -
  define data where "data = take (sz - 1) msg @ [NUL]"
  let ?p = "''ph_logger''" and ?s = "''/ph_logger.log''"
  have ld: "int (length data) = int n + 1" "length data = n + 1" by (simp_all add: data_def n_def)
  have ne: "data \<noteq> []" by (simp add: data_def)
  have len: "int (head_count (level_num level) ?p ?s) + int (length data) \<le> 8 + ph_log_max n"
    by (simp add: level_num_digit ph_log_max_def ld head_count_def)
  have run: "ph_log sz mem level msg = (if ph_log_max n > int sz then Done None
     else case ph_logger_write_handler_v1 mem (8 + ph_log_max n) data (level_num level) ?p ?s (int (length data)) of
       Fault \<Rightarrow> Fault | Done (_, len', mem') \<Rightarrow> Done (Some (len', take (nat len') mem')))"
    unfolding ph_log_def Let_def n_def [symmetric] data_def [symmetric] by (simp add: ld)
  have fits: "\<exists>bytes r. ph_log sz mem level msg = Done (Some (int n + 28, bytes)) \<and>
      ph_logger_read_handler_v1 bytes (int n + 28) = Done \<lparr>lp_level = level_num level, lp_platform = ?p,
        lp_source = ?s, lp_data = 27, lp_len = int n + 1\<rparr> \<and> drop 27 bytes = data" if "n + 36 \<le> sz"
  proof -
    have room: "length (show_int (level_num level)) + length ?p + length ?s + 3 + length data \<le> length mem"
      using that assms(2) by (simp add: level_num_digit ld)
    define head where "head = show_int (level_num level) @ [NUL] @ ?p @ [NUL] @ ?s @ [NUL]"
    have h: "length head = 27" by (simp add: head_def level_num_digit)
    have cat: "head @ xs = show_int (level_num level) @ [NUL] @ ?p @ [NUL] @ ?s @ [NUL] @ xs" for xs by (simp add: head_def)
    obtain r where w: "ph_logger_write_handler_v1 mem (8 + ph_log_max n) data (level_num level) ?p ?s (int (length data)) =
        Done (int (length data), int (length (show_int (level_num level)) + length ?p + length ?s + 3 + length data), head @ data @ r)"
      using write_parts [OF len room ne] unfolding cat .
    have sum: "int (length (show_int (level_num level)) + length ?p + length ?s + 3 + length data) = int n + 28" by (simp add: level_num_digit ld)
    have "length (head @ data) = nat (int n + 28)" using h ld(2) by simp
    from take_exactly [OF this, of r] have t: "take (nat (int n + 28)) (head @ data @ r) = head @ data" by simp
    have "ph_log sz mem level msg = Done (Some (int n + 28, head @ data))"
      using that t unfolding run w sum by (simp add: ph_log_max_def)
    moreover have "ph_logger_read_handler_v1 (head @ data) (int n + 28) = Done \<lparr>lp_level = level_num level, lp_platform = ?p,
        lp_source = ?s, lp_data = 27, lp_len = int n + 1\<rparr>"
      using read_parts [of ?p ?s "level_num level" data "int n + 28"] unfolding cat by (simp add: level_num_digit)
    moreover have "drop 27 (head @ data) = data" using h by simp
    ultimately show ?thesis by blast
  qed
  have over: "ph_log sz mem level msg = Fault" if "sz < n + 36" "n + 34 \<le> sz"
  proof -
    have "length (show_int (level_num level)) + length ?p + length ?s + 3 + length data > length mem"
      using that assms(2) by (simp add: level_num_digit ld)
    from write_overruns [OF this len] that show ?thesis unfolding run by (simp add: ph_log_max_def)
  qed
  have "ph_log sz mem level msg = Done None" if "sz < n + 34" using that unfolding run by (simp add: ph_log_max_def)
  with fits over show ?thesis by (simp add: data_def)
qed

theorem ph_log_overruns_witness:
  "ph_log 100 (replicate 92 CHR ''x'') INFO (replicate 66 CHR ''a'') = Fault \<and>
   (\<exists>bytes. ph_log 100 (replicate 92 CHR ''x'') INFO (replicate 64 CHR ''a'') = Done (Some (92, bytes)))"
  using ph_log_overruns [of "replicate 92 CHR ''x''" 100 "replicate 66 CHR ''a''" INFO]
    ph_log_overruns [of "replicate 92 CHR ''x''" 100 "replicate 64 CHR ''a''" INFO] by auto

text \<open>A message with a level that is none of the five brings the writer of the log files down, whoever sent it.\<close>

theorem unknown_level_faults:
  assumes "no_nul platform" "no_nul source" "level < 0 \<or> 5 \<le> level"
    "lf_mkdir f (take 4095 (''/pv/logs/'' @ rv @ ''/'' @ platform @ ''/'' @ source))" "lf_open f (take 4095 (''/pv/logs/'' @ rv @ ''/'' @ platform @ ''/'' @ source))"
  shows "ph_logger_write_to_log_file f rv 0 (show_int level @ [NUL] @ platform @ [NUL] @ source @ [NUL] @ data) len = Fault"
proof -
  have "''/pv/logs'' @ ''/'' @ rv @ ''/'' @ platform @ ''/'' @ source = ''/pv/logs/'' @ rv @ ''/'' @ platform @ ''/'' @ source" by simp
  with assms(3-5) show ?thesis
    unfolding ph_logger_write_to_log_file_def ph_logger_write_to_file_handler_v1_def read_parts [OF assms(1,2)]
    by (simp add: Let_def)
qed

theorem unknown_level_faults_witness:
  "ph_logger_write_to_log_file \<lparr>lf_mkdir = \<lambda>p. True, lf_open = \<lambda>p. True, lf_size = \<lambda>p. 0\<rparr> ''3'' 0
     (show_int 7 @ [NUL] @ ''app'' @ [NUL] @ ''/log'' @ [NUL] @ ''hi'') 2 = Fault"
  using unknown_level_faults [where level = 7 and platform = "''app''" and source = "''/log''" and data = "''hi''" and len = 2 and rv = "''3''"
    and f = "\<lparr>lf_mkdir = \<lambda>p. True, lf_open = \<lambda>p. True, lf_size = \<lambda>p. 0\<rparr>"] by simp

text \<open>C63: A platform logger cuts a message into chunks that read back with its level, platform and source, and whose
  data together is the message with its NUL.\<close>

definition chunk_data :: "int \<Rightarrow> string \<Rightarrow> string \<Rightarrow> int \<times> string \<Rightarrow> string \<Rightarrow> bool" where
  "chunk_data level platform source m d \<longleftrightarrow> (\<exists>off. ph_logger_read_handler_v1 (snd m) (fst m) =
     Done \<lparr>lp_level = level, lp_platform = platform, lp_source = source, lp_data = off, lp_len = int (length d)\<rparr> \<and> drop off (snd m) = d)"

lemma chunk_read:
  assumes "no_nul platform" "no_nul source" "n = int (length (show_int level) + length platform + length source + 3 + length d)"
  shows "chunk_data level platform source (n, show_int level @ [NUL] @ platform @ [NUL] @ source @ [NUL] @ d) d"
proof -
  let ?o = "length (show_int level) + length platform + length source + 3"
  have "drop ?o ((show_int level @ [NUL] @ platform @ [NUL] @ source @ [NUL]) @ d) = d" by (subst drop_append) simp
  then show ?thesis unfolding chunk_data_def using read_parts [OF assms(1,2), of level d n] assms(3) by simp
qed

lemma chunks_join:
  assumes "no_nul platform" "no_nul source" "int (head_count level platform source) < MSG_ROOM"
  shows "length mem = nat MSG_ROOM \<Longrightarrow> \<exists>ms ds. send_chunks mem level platform source bs = Done ms \<and>
    list_all2 (chunk_data level platform source) ms ds \<and> concat ds = bs"
proof (induction "length bs" arbitrary: mem bs rule: less_induct)
  case less
  show ?case
  proof (cases "bs = []")
    case True
    then show ?thesis by (subst send_chunks.simps) (auto intro: exI [of _ "[]"])
  next
    case False
    define c where "c = nat (min (int (length bs)) (MSG_ROOM - int (head_count level platform source)))"
    have c: "int c = min (int (length bs)) (MSG_ROOM - int (head_count level platform source))" "0 < c"
      using assms(3) False by (auto simp: c_def)
    have cl: "c \<le> length bs" using c(1) by linarith
    have room: "length (show_int level) + length platform + length source + 3 + c \<le> length mem"
      using c(1) less.prems unfolding head_count_def by linarith
    let ?n = "length (show_int level) + length platform + length source + 3 + c"
    let ?head = "show_int level @ [NUL] @ platform @ [NUL] @ source @ [NUL]"
    obtain r where w: "ph_logger_write_handler_v1 mem MSG_ROOM bs level platform source (int (length bs)) =
        Done (int c, int ?n, show_int level @ [NUL] @ platform @ [NUL] @ source @ [NUL] @ take c bs @ r)"
        and l: "length (show_int level @ [NUL] @ platform @ [NUL] @ source @ [NUL] @ take c bs @ r) = length mem"
      using write_some [OF c room] .
    have hl: "length (?head @ take c bs) = nat (int ?n)" using cl by simp
    have t: "take (nat (int ?n)) (show_int level @ [NUL] @ platform @ [NUL] @ source @ [NUL] @ take c bs @ r) = ?head @ take c bs"
      using take_exactly [OF hl, of r] by (simp only: append_assoc)
    have "length (drop c bs) < length bs" using c(2) cl by simp
    from less.hyps [OF this] l less.prems obtain ms ds
      where ms: "send_chunks (show_int level @ [NUL] @ platform @ [NUL] @ source @ [NUL] @ take c bs @ r) level platform source (drop c bs) = Done ms"
        and ds: "list_all2 (chunk_data level platform source) ms ds" "concat ds = drop c bs" by metis
    define m1 where "m1 = show_int level @ [NUL] @ platform @ [NUL] @ source @ [NUL] @ take c bs @ r"
    have "send_chunks mem level platform source bs = Done ((int ?n, take (nat (int ?n)) m1) # ms)"
      using False c(2) ms w unfolding m1_def [symmetric] by (subst send_chunks.simps) simp
    then have "send_chunks mem level platform source bs = Done ((int ?n, ?head @ take c bs) # ms)"
      by (simp only: t m1_def)
    moreover have "chunk_data level platform source (int ?n, ?head @ take c bs) (take c bs)"
      using chunk_read [OF assms(1,2), of "int ?n" level "take c bs"] cl by simp
    ultimately show ?thesis using ds by (intro exI [of _ "(int ?n, ?head @ take c bs) # ms"] exI [of _ "take c bs # ds"]) simp
  qed
qed

theorem pvlogger_chunks_join:
  assumes "no_nul platform" "no_nul source" "int (head_count level platform source) < MSG_ROOM" "length mem = nat MSG_ROOM"
  shows "\<exists>ms ds. pvlogger_log mem level platform source msg = Done ms \<and> list_all2 (chunk_data level platform source) ms ds \<and>
    concat ds = take 6143 msg @ [NUL]"
  using chunks_join [OF assms, of "take 6143 msg @ [NUL]"] by (simp add: pvlogger_log_def)

theorem pvlogger_chunks_join_witness:
  "\<exists>ms ds. pvlogger_log (replicate 6136 CHR ''x'') 3 ''app'' ''/log'' (replicate 6143 CHR ''a'') = Done ms \<and>
     list_all2 (chunk_data 3 ''app'' ''/log'') ms ds \<and> concat ds = replicate 6143 CHR ''a'' @ [NUL]"
proof -
  have "length (show_int 3) = 1" by (simp add: show_int_def show_nat.simps)
  then show ?thesis
    using pvlogger_chunks_join [of "''app''" "''/log''" 3 "replicate 6136 CHR ''x''" "replicate 6143 CHR ''a''"]
    by (simp add: head_count_def MSG_ROOM_def)
qed

section \<open>Lines of the output\<close>

lemma split_on_first: "c \<notin> set a \<Longrightarrow> split_on c (a @ c # b) = a # split_on c b"
  by (induction a) auto

lemma line_end_first: "no_nul a \<Longrightarrow> LF \<notin> set a \<Longrightarrow> no_nul b \<Longrightarrow> line_end (a @ LF # b) = Some (length a)"
  by (simp add: line_end_def)

lemma line_end_none: "no_nul a \<Longrightarrow> LF \<notin> set a \<Longrightarrow> CR \<notin> set a \<Longrightarrow> line_end a = None"
  by (simp add: line_end_def)

text \<open>A line that fits is logged with what was kept; a longer one is cut at the end of the buffer, and the
  byte there is passed over in place of the end of the line.\<close>

lemma flush_line:
  assumes "no_nul a" "LF \<notin> set a" "no_nul b" "no_nul cmd" "length cmd + length a \<le> 4094"
  shows "pvlogger_flush (a @ LF # b) cmd = (let r = pvlogger_flush b [] in ((cmd @ a) # fst r, snd r))"
proof -
  have w: "flush_written (a @ LF # b) cmd = length a"
    using assms(5) by (simp add: flush_written_def line_end_first [OF assms(1-3)] kept_cmd_def)
  have "length cmd \<noteq> 4095" using assms(5) by simp
  then show ?thesis
    using assms by (subst pvlogger_flush.simps) (simp add: w line_end_first kept_cmd_def Let_def split: prod.splits)
qed

lemma flush_long_line:
  assumes "no_nul a" "LF \<notin> set a" "no_nul b" "4095 < length a"
  shows "pvlogger_flush (a @ LF # b) [] = (let r = pvlogger_flush (drop 4096 a @ LF # b) [] in (take 4095 a # fst r, snd r))"
proof -
  have w: "flush_written (a @ LF # b) [] = 4095"
    using assms(4) by (simp add: flush_written_def line_end_first [OF assms(1-3)] kept_cmd_def)
  have t: "take 4095 (a @ LF # b) = take 4095 a" "drop 4096 (a @ LF # b) = drop 4096 a @ LF # b" using assms(4) by simp_all
  have "no_nul (take 4095 a)" using assms(1) by (auto simp: no_nul_def dest: in_set_takeD)
  then show ?thesis
    using assms by (subst pvlogger_flush.simps) (simp add: w t line_end_first kept_cmd_def Let_def split: prod.splits)
qed

lemma flush_rest:
  assumes "no_nul a" "LF \<notin> set a" "CR \<notin> set a" "length cmd + length a \<le> 4094"
  shows "pvlogger_flush a cmd = ([], cmd @ a)"
proof (cases "a = []")
  case True
  then show ?thesis by (subst pvlogger_flush.simps) simp
next
  case False
  have w: "flush_written a cmd = length a"
    using assms by (simp add: flush_written_def line_end_none kept_cmd_def)
  have "length cmd \<noteq> 4095" using assms(4) by simp
  moreover have "pvlogger_flush [] c = ([], c)" for c by (subst pvlogger_flush.simps) simp
  ultimately show ?thesis
    using assms False by (subst pvlogger_flush.simps) (simp add: w line_end_none kept_cmd_def Let_def)
qed

lemma flush_all:
  assumes "no_nul buf" "CR \<notin> set buf" "no_nul cmd" "LF \<notin> set cmd" "list_all (\<lambda>l. length l \<le> 4094) (split_on LF (cmd @ buf))"
  shows "pvlogger_flush buf cmd = (butlast (split_on LF (cmd @ buf)), last (split_on LF (cmd @ buf)))"
  using assms
proof (induction "length buf" arbitrary: buf cmd rule: less_induct)
  case less
  show ?case
  proof (cases "LF \<in> set buf")
    case True
    then obtain a b where ab: "buf = a @ LF # b" "LF \<notin> set a" by (auto dest: split_list_first)
    have s: "split_on LF (cmd @ buf) = (cmd @ a) # split_on LF b"
      using split_on_first [of LF "cmd @ a" b] ab less.prems(4) by simp
    have "pvlogger_flush b [] = (butlast (split_on LF b), last (split_on LF b))"
      using less.hyps [of b "[]"] less.prems s ab(1) by simp
    moreover have "pvlogger_flush buf cmd = (let r = pvlogger_flush b [] in ((cmd @ a) # fst r, snd r))"
      unfolding ab(1) using less.prems s ab by (intro flush_line) simp_all
    ultimately show ?thesis unfolding s using split_on_ne [of LF b] by simp
  next
    case False
    then have s: "split_on LF (cmd @ buf) = [cmd @ buf]" using less.prems(4) by (intro split_on_absent) simp
    with less.prems False show ?thesis by (simp add: flush_rest)
  qed
qed

text \<open>Output of short lines is logged line by line, the first one with what was kept before, and what follows the
  last line is kept.\<close>

theorem flush_lines:
  assumes "no_nul buf" "CR \<notin> set buf" "no_nul cmd" "LF \<notin> set cmd" "list_all (\<lambda>l. length l \<le> 4094) (split_on LF (cmd @ buf))"
  shows "pvlogger_flush buf cmd = (butlast (split_on LF (cmd @ buf)), last (split_on LF (cmd @ buf)))"
  using assms by (rule flush_all)

theorem flush_lines_witness:
  "pvlogger_flush (''b'' @ [LF] @ ''c'' @ [LF] @ ''d'') ''a'' = ([''ab'', ''c''], ''d'')"
  using flush_lines [of "''b'' @ [LF] @ ''c'' @ [LF] @ ''d''" "''a''"] by (simp add: no_nul_def)

text \<open>A line of 4096 bytes or more loses its byte 4095: it is logged as two lines without it.\<close>

theorem long_line_loses_byte:
  assumes "no_nul line" "LF \<notin> set line" "4095 < length line" "length line \<le> 8190"
  shows "pvlogger_flush (line @ [LF]) [] = ([take 4095 line, drop 4096 line], [])"
proof -
  have e: "pvlogger_flush [] [] = ([], [])" by (subst pvlogger_flush.simps) simp
  have "no_nul (drop 4096 line)" "LF \<notin> set (drop 4096 line)" using assms(1,2) by (auto simp: no_nul_def dest: in_set_dropD)
  then have "pvlogger_flush (drop 4096 line @ [LF]) [] = ([drop 4096 line], [])"
    using assms(4) flush_line [of "drop 4096 line" "[]" "[]"] by (simp add: e)
  then show ?thesis using flush_long_line [of line "[]"] assms by simp
qed

theorem long_line_loses_byte_witness:
  "pvlogger_flush (replicate 4096 CHR ''a'' @ [LF]) [] = ([replicate 4095 CHR ''a'', []], [])"
  using long_line_loses_byte [of "replicate 4096 CHR ''a''"] by (simp add: no_nul_def)

end
