(* ===== verification/LogPush.thy ===== *)
theory LogPush
  imports LogMsg
begin

text \<open>
  The services of \<open>ph_logger/ph_logger.c\<close>: pushing the lines of the log files to the cloud from the saved position
  on, the services for the current and for the earlier revisions, and starting and stopping them with
  \<open>kill_child_process\<close> of \<open>utils/system.c\<close>. The request, the files that \<open>find\<close> lists and \<open>fork\<close> are parameters.
\<close>

section \<open>The lines of a block\<close>

text \<open>A line becomes a fragment, or is blank; with it comes the offset after it.\<close>

datatype line_event = Frag string nat | Blank nat

definition line_event :: "string \<Rightarrow> nat \<Rightarrow> line_event" where
  "line_event line off = (case pv_json_format line (length line) of None \<Rightarrow> Blank off | Some f \<Rightarrow> Frag f off)"

text \<open>The loop of \<open>ph_logger_push_from_file\<close>: \<open>n\<close> is the size of the buffer. The whole offset is subtracted from what is
  left each time, not the length of the line.\<close>

function scan_lines :: "nat \<Rightarrow> string \<Rightarrow> nat \<Rightarrow> int \<Rightarrow> line_event list" where
  "scan_lines n buf off bytes =
     (if bytes \<le> 0 then []
      else case strchr (take (nat bytes) (drop off buf)) LF of
        Some i \<Rightarrow> line_event (take i (drop off buf)) (off + i + 1) # scan_lines n buf (off + i + 1) (bytes - int (off + i + 1))
      | None \<Rightarrow> (if bytes = int n then [line_event (take (nat bytes) (drop off buf)) (off + nat bytes)] else []))"
  by pat_completeness auto
termination
  by (relation "measure (\<lambda>(n, buf, off, bytes). nat bytes)") auto

declare scan_lines.simps [simp del]

definition frag_of :: "line_event \<Rightarrow> string option" where
  "frag_of ev = (case ev of Frag f off \<Rightarrow> Some f | Blank off \<Rightarrow> None)"

definition offset_of :: "line_event \<Rightarrow> nat" where
  "offset_of ev = (case ev of Frag f off \<Rightarrow> off | Blank off \<Rightarrow> off)"

section \<open>Pushing a file\<close>

definition ph_json :: "string \<Rightarrow> string \<Rightarrow> string \<Rightarrow> string \<Rightarrow> string" where
  "ph_json source platform rv msg = ''{ '' @ quoted ''tsec'' @ '': 0, '' @ quoted ''tnano'' @ '': 0,'' @ quoted ''lvl'' @ '': '' @ quoted ''INFO'' @
     '', '' @ quoted ''src'' @ '': '' @ quoted source @ '','' @ quoted ''plat'' @ '':'' @ quoted platform @ '','' @
     quoted ''rev'' @ '': '' @ quoted rv @ '' , '' @ quoted ''msg'' @ '': '' @ quoted msg @ '' }''"

text \<open>The array of the fragments, written into a buffer of the size that was calculated for it.\<close>

fun put_frags :: "nat \<Rightarrow> int \<Rightarrow> string list \<Rightarrow> string \<Rightarrow> (nat \<times> int \<times> string) outcome" where
  "put_frags off avail [] mem = Done (off, avail, mem)"
| "put_frags off avail (f # fs) mem =
     (case snprintf_at off avail f mem of Fault \<Rightarrow> Fault
      | Done m \<Rightarrow> (if fs = [] then Done (off + length f, avail - int (length f), m)
          else case snprintf_at (off + length f) (avail - int (length f)) '','' m of Fault \<Rightarrow> Fault
            | Done m' \<Rightarrow> put_frags (off + length f + 1) (avail - int (length f) - 1) fs m'))"

definition frag_array :: "string list \<Rightarrow> string outcome" where
  "frag_array fs = (let avail = length fs + length (concat fs) + 2 in
     case put_at 0 (''['' @ [NUL]) (replicate avail NUL) of Fault \<Rightarrow> Fault
     | Done m \<Rightarrow> (case put_frags 1 (int avail - 1) fs m of Fault \<Rightarrow> Fault
         | Done (off, av, m1) \<Rightarrow> (case snprintf_at off av '']'' m1 of Fault \<Rightarrow> Fault | Done m2 \<Rightarrow> Done (cstr m2))))"

text \<open>A log file: whether it opens, its bytes, and the position saved with it; \<open>push_post\<close> tells whether a request
  succeeds.\<close>

record push_env =
  push_size :: nat
  push_open :: bool
  push_bytes :: string
  push_pos :: "string option"
  push_post :: "string \<Rightarrow> bool"

text \<open>The result, what was posted, and the positions that were saved, in order.\<close>

definition read_position :: "push_env \<Rightarrow> int option" where
  "read_position p = (let pos = (case push_pos p of None \<Rightarrow> 0 | Some t \<Rightarrow> atoi t) in
     if pos < 0 then None else Some (if int (length (push_bytes p)) < pos then 0 else pos))"

definition push_block :: "push_env \<Rightarrow> int \<Rightarrow> string" where
  "push_block p pos = pv_str_replace_char (take (push_size p) (drop (nat pos) (push_bytes p))) (length (take (push_size p) (drop (nat pos) (push_bytes p)))) NUL CHR '' ''"

definition ph_logger_push_from_file :: "push_env \<Rightarrow> string \<Rightarrow> string \<Rightarrow> string \<Rightarrow> (int \<times> string option \<times> int list) outcome" where
  "ph_logger_push_from_file p platform source rv =
     (let first = (if push_pos p = None then [0] else []) in
      if \<not> push_open p then Done (-1, None, first)
      else case read_position p of None \<Rightarrow> Done (0, None, first)
      | Some rpos \<Rightarrow>
          (let buf = push_block p rpos;
               evs = scan_lines (push_size p) buf 0 (int (length buf));
               frags = map (ph_json source platform rv) (List.map_filter frag_of evs);
               saved = first @ map (\<lambda>ev. rpos + int (offset_of ev)) (filter (\<lambda>ev. frag_of ev = None) evs)
           in if frags = [] then Done (0, None, saved)
              else case frag_array frags of Fault \<Rightarrow> Fault
                | Done json \<Rightarrow> (if push_post p json then Done (1, Some json, saved @ [rpos + int (offset_of (last evs))])
                    else Done (-1, Some json, saved))))"

section \<open>Pushing a revision\<close>

definition ph_logger_contains_skip_prefix :: "string list \<Rightarrow> string \<Rightarrow> bool" where
  "ph_logger_contains_skip_prefix skips pre \<longleftrightarrow> pre \<noteq> [] \<and> pre \<in> set skips"

definition ph_logger_add_skip_prefix :: "string list \<Rightarrow> string \<Rightarrow> string list" where
  "ph_logger_add_skip_prefix skips pre = (if pre = [] then skips else pre # skips)"

text \<open>The lines of the file of skipped names, without their ends.\<close>

definition ph_logger_add_skip_prefixes :: "string list \<Rightarrow> string list \<Rightarrow> string list" where
  "ph_logger_add_skip_prefixes skips lines = foldl (\<lambda>sk l. if ph_logger_contains_skip_prefix sk l then sk
     else ph_logger_add_skip_prefix sk l) skips lines"

text \<open>The platform and the source of a file below the directory of the revision.\<close>

definition parse_info :: "string \<Rightarrow> nat \<Rightarrow> string \<times> string" where
  "parse_info path off = (case strchr (drop off path) CHR ''/'' of None \<Rightarrow> (''pantavisor-UNKNOWN'', path)
     | Some i \<Rightarrow> (take 63 (take i (drop off path)), drop (off + i) path))"

type_synonym 'w push = "string \<Rightarrow> string \<Rightarrow> string \<Rightarrow> string \<Rightarrow> 'w \<Rightarrow> int \<times> 'w"

definition push_one :: "bool \<Rightarrow> 'w push \<Rightarrow> string \<Rightarrow> nat \<Rightarrow> string \<Rightarrow> 'w \<Rightarrow> int \<times> 'w" where
  "push_one conn push rv off path w = (case parse_info path off of (platform, source) \<Rightarrow>
     if conn then push path platform source rv w else (-1, w))"

fun push_files :: "bool \<Rightarrow> 'w push \<Rightarrow> string list \<Rightarrow> string \<Rightarrow> nat \<Rightarrow> string list \<Rightarrow> int \<Rightarrow> 'w \<Rightarrow> int \<times> 'w" where
  "push_files conn push skips rv off [] result w = (result, w)"
| "push_files conn push skips rv off (path # paths) result w =
     (if ph_logger_contains_skip_prefix skips (drop off path) then push_files conn push skips rv off paths result w
      else case push_one conn push rv off path w of (r, w') \<Rightarrow>
        (if r < 0 then (r, w') else push_files conn push skips rv off paths (if 0 < r then 1 else result) w'))"

definition ph_logger_push_revision :: "bool \<Rightarrow> 'w push \<Rightarrow> string list \<Rightarrow> string list \<Rightarrow> string \<Rightarrow> 'w \<Rightarrow> int \<times> 'w" where
  "ph_logger_push_revision conn push skip_lines paths rv w =
     push_files conn push (ph_logger_add_skip_prefixes [] skip_lines) rv (length (take 1023 (''/pv/logs/'' @ rv @ ''/''))) paths 0 w"

section \<open>The services\<close>

text \<open>The pause of the services in seconds: it grows when there was nothing to do or an error, up to 10.\<close>

definition longer :: "int \<Rightarrow> int" where
  "longer secs = (if secs + 1 > 10 then 10 else secs + 1)"

definition shorter :: "int \<Rightarrow> int" where
  "shorter secs = (if secs - 1 < 0 then 0 else secs - 1)"

text \<open>One round of the push service: the pause it makes, if any, and the next one.\<close>

definition push_service_round :: "int \<Rightarrow> int \<Rightarrow> int option \<times> int" where
  "push_service_round result secs = (if result \<le> 0 then (Some (longer secs), longer secs) else (None, shorter secs))"

definition ph_logger_get_max_revision :: "string list \<Rightarrow> int" where
  "ph_logger_get_max_revision dirs = foldl (\<lambda>m d. if atoi d > m then atoi d else m) 0 dirs"

text \<open>The range service, with fuel: the revisions that it pushed with their results and pauses, and the world at the
  end; \<open>None\<close> when it is still running.\<close>

fun range_service :: "nat \<Rightarrow> (string \<Rightarrow> 'w \<Rightarrow> int \<times> 'w) \<Rightarrow> int \<Rightarrow> int \<Rightarrow> int \<Rightarrow> 'w \<Rightarrow> ((int \<times> int \<times> int) list \<times> 'w) option" where
  "range_service 0 push avoid cur secs w = None"
| "range_service (Suc fuel) push avoid cur secs w =
     (if cur < 0 then Some ([], w)
      else if avoid = cur then range_service fuel push avoid (cur - 1) secs w
      else case push (show_int cur) w of (r, w') \<Rightarrow>
        (let secs' = (if r < 0 then longer secs else shorter secs) in
         map_option (\<lambda>(tr, w''). ((cur, r, secs') # tr, w''))
           (range_service fuel push avoid (if r = 0 then cur - 1 else cur) secs' w')))"

definition ph_logger_start_range_service :: "nat \<Rightarrow> (string \<Rightarrow> 'w \<Rightarrow> int \<times> 'w) \<Rightarrow> string list \<Rightarrow> string \<Rightarrow> 'w \<Rightarrow> ((int \<times> int \<times> int) list \<times> 'w) option" where
  "ph_logger_start_range_service fuel push dirs avoid_rev w =
     range_service fuel push (atoi avoid_rev) (ph_logger_get_max_revision dirs) 0 w"

section \<open>The log service\<close>

text \<open>What \<open>epoll_wait\<close> reports: the listening socket, with the accepted connection and whether it could be watched, or
  a connection, with the version, the length and the bytes behind the header that the buffer has after the read.\<close>

datatype ready = Listener "int option" bool | Peer int "(int \<times> int \<times> string) option"

record log_service_out =
  so_count :: nat
  so_watched :: "int list"
  so_closed :: "int list"
  so_written :: "log_write list"

definition take_message :: "log_files \<Rightarrow> string \<Rightarrow> int \<Rightarrow> (int \<times> int \<times> string) option \<Rightarrow> log_service_out \<Rightarrow> log_service_out outcome" where
  "take_message f rv fd msg out = (case msg of None \<Rightarrow> Done (out\<lparr>so_closed := so_closed out @ [fd]\<rparr>)
     | Some (version, len, mem) \<Rightarrow> (case ph_logger_write_to_log_file f rv version mem len of Fault \<Rightarrow> Fault
        | Done (r, w) \<Rightarrow> Done (out\<lparr>so_count := so_count out + 1, so_closed := so_closed out @ [fd],
            so_written := so_written out @ (case w of None \<Rightarrow> [] | Some x \<Rightarrow> [x])\<rparr>)))"

fun take_events :: "log_files \<Rightarrow> string \<Rightarrow> ready list \<Rightarrow> log_service_out \<Rightarrow> log_service_out outcome" where
  "take_events f rv [] out = Done out"
| "take_events f rv (Listener None ok # evs) out = take_events f rv evs out"
| "take_events f rv (Listener (Some fd) ok # evs) out = take_events f rv evs
     (if ok then out\<lparr>so_watched := so_watched out @ [fd]\<rparr> else out\<lparr>so_closed := so_closed out @ [fd]\<rparr>)"
| "take_events f rv (Peer fd msg # evs) out =
     (case take_message f rv fd msg out of Fault \<Rightarrow> Fault | Done out' \<Rightarrow> take_events f rv evs out')"

text \<open>The events are taken from the last to the first; the result counts the messages.\<close>

definition ph_logger_read_write :: "log_files \<Rightarrow> string \<Rightarrow> ready list \<Rightarrow> log_service_out outcome" where
  "ph_logger_read_write f rv evs = take_events f rv (List.rev evs) \<lparr>so_count = 0, so_watched = [], so_closed = [], so_written = []\<rparr>"

section \<open>Starting and stopping\<close>

datatype proc_event = Forked int | Term int | Kill int

text \<open>Whether the process is there at the \<open>i\<close>th look.\<close>

definition kill_child_process :: "(int \<Rightarrow> nat \<Rightarrow> bool) \<Rightarrow> int \<Rightarrow> proc_event list" where
  "kill_child_process alive pid = (if pid \<le> 0 then []
     else Term pid # (if list_all (alive pid) [0..<5] then [Kill pid] else []))"

record ph_logger =
  log_service :: int
  range_service_pid :: int
  push_service :: int

text \<open>What \<open>fork\<close> returns for the three.\<close>

record forks =
  f_log :: int
  f_range :: int
  f_push :: int

definition ph_logger_start_cloud :: "forks \<Rightarrow> bool \<Rightarrow> ph_logger \<Rightarrow> ph_logger \<times> proc_event list" where
  "ph_logger_start_cloud f online l =
     (if \<not> online then (l, [])
      else let (l1, e1) = (if push_service l = -1 then (l\<lparr>push_service := f_push f\<rparr>, [Forked (f_push f)]) else (l, []));
               (l2, e2) = (if range_service_pid l1 = -1 then (l1\<lparr>range_service_pid := f_range f\<rparr>, [Forked (f_range f)]) else (l1, []))
           in (l2, e1 @ e2))"

definition ph_logger_stop_cloud :: "(int \<Rightarrow> nat \<Rightarrow> bool) \<Rightarrow> ph_logger \<Rightarrow> ph_logger \<times> proc_event list" where
  "ph_logger_stop_cloud alive l = (l\<lparr>push_service := -1, range_service_pid := -1\<rparr>,
     kill_child_process alive (push_service l) @ kill_child_process alive (range_service_pid l))"

definition ph_logger_start_local :: "forks \<Rightarrow> ph_logger \<Rightarrow> ph_logger \<times> proc_event list" where
  "ph_logger_start_local f l = (if log_service l = -1 then (l\<lparr>log_service := f_log f\<rparr>, [Forked (f_log f)]) else (l, []))"

definition ph_logger_stop_local :: "(int \<Rightarrow> nat \<Rightarrow> bool) \<Rightarrow> ph_logger \<Rightarrow> ph_logger \<times> proc_event list" where
  "ph_logger_stop_local alive l = (l\<lparr>log_service := -1\<rparr>, kill_child_process alive (log_service l))"

text \<open>The switches are those of the configuration, and the mode and the state of the connection.\<close>

definition ph_logger_toggle :: "forks \<Rightarrow> (int \<Rightarrow> nat \<Rightarrow> bool) \<Rightarrow> bool \<Rightarrow> bool \<Rightarrow> bool \<Rightarrow> ph_logger \<Rightarrow> ph_logger \<times> proc_event list" where
  "ph_logger_toggle f alive capture push online l =
     (let (l1, e1) = (if capture then ph_logger_start_local f l else ph_logger_stop_local alive l);
          (l2, e2) = (if push then ph_logger_start_cloud f online l1 else ph_logger_stop_cloud alive l1)
      in (l2, e1 @ e2))"

definition ph_logger_stop :: "(int \<Rightarrow> nat \<Rightarrow> bool) \<Rightarrow> ph_logger \<Rightarrow> ph_logger \<times> proc_event list" where
  "ph_logger_stop alive l = (let (l1, e1) = ph_logger_stop_local alive l; (l2, e2) = ph_logger_stop_cloud alive l1 in (l2, e1 @ e2))"

section \<open>The array fits its buffer\<close>

lemma snprintf_whole:
  assumes "length a = off" "off + length full < length m" "m = a @ b" "avail = int (length m) - int off"
  obtains r where "snprintf_at off avail full m = Done (a @ full @ r)" "length (a @ full @ r) = length m"
proof -
  have "int (length full) < avail" using assms(2,4) by simp
  from snprintf_fits [OF assms(2) this] obtain r where "snprintf_at off avail full m = Done (take off m @ full @ r)" "length (take off m @ full @ r) = length m" .
  moreover have "take off m = a" using assms(1,3) by simp
  ultimately show ?thesis using that by simp
qed

lemma length_join: "fs \<noteq> [] \<Longrightarrow> length (join '','' fs) = length (concat fs) + length fs - 1"
proof (induction fs rule: list_nonempty_induct)
  case (cons f fs)
  then show ?case by (cases fs) (simp_all add: join_Cons)
qed simp

lemma put_frags_fit:
  assumes "fs \<noteq> []" "length a + length (join '','' fs) < length m" "m = a @ b"
  shows "\<exists>r. put_frags (length a) (int (length m) - int (length a)) fs m =
    Done (length a + length (join '','' fs), int (length m) - int (length a) - int (length (join '','' fs)), a @ join '','' fs @ r)
    \<and> length (a @ join '','' fs @ r) = length m"
  using assms
proof (induction fs arbitrary: a b m)
  case (Cons f fs)
  have fl: "length a + length f < length m" using Cons.prems(2) by (cases fs) (auto simp: join_Cons)
  obtain r where 1: "snprintf_at (length a) (int (length m) - int (length a)) f m = Done (a @ f @ r)" and l1: "length (a @ f @ r) = length m"
    using snprintf_whole [OF refl fl Cons.prems(3) refl] .
  show ?case
  proof (cases "fs = []")
    case True
    then show ?thesis using 1 l1 by (intro exI [of _ r]) simp
  next
    case False
    then have j: "join '','' (f # fs) = f @ '','' @ join '','' fs" by (simp add: join_Cons)
    let ?af = "a @ f" and ?m1 = "a @ f @ r"
    have cl: "length ?af + length '','' < length ?m1" using Cons.prems(2) l1 by (simp add: j)
    obtain r2 where 2: "snprintf_at (length ?af) (int (length ?m1) - int (length ?af)) '','' ?m1 = Done (?af @ '','' @ r2)" and l2: "length (?af @ '','' @ r2) = length ?m1"
      using snprintf_whole [OF refl cl _ refl, of r] by auto
    let ?afc = "?af @ '',''" and ?m2 = "(?af @ '','') @ r2"
    have "length ?afc + length (join '','' fs) < length ?m2" using Cons.prems(2) l1 l2 by (simp add: j)
    from Cons.IH [OF False this refl] obtain r3 where
      3: "put_frags (length ?afc) (int (length ?m2) - int (length ?afc)) fs ?m2 =
        Done (length ?afc + length (join '','' fs), int (length ?m2) - int (length ?afc) - int (length (join '','' fs)), ?afc @ join '','' fs @ r3)"
      and l3: "length (?afc @ join '','' fs @ r3) = length ?m2" by blast
    have lm: "length ?m2 = length m" using l1 l2 by simp
    have a1: "int (length ?m1) - int (length ?af) = int (length m) - int (length a) - int (length f)" using l1 by simp
    have a2: "int (length ?m2) - int (length ?afc) = int (length m) - int (length a) - int (length f) - 1" using lm by simp
    have o1: "length ?af = length a + length f" and o2: "length ?afc = length a + length f + 1" by simp_all
    have 4: "snprintf_at (length a + length f) (int (length m) - int (length a) - int (length f)) '','' (a @ f @ r) = Done (a @ f @ '','' @ r2)"
      using 2 unfolding a1 unfolding o1 by simp
    have "put_frags (length a) (int (length m) - int (length a)) (f # fs) m =
        put_frags (length a + length f + 1) (int (length m) - int (length a) - int (length f) - 1) fs (a @ f @ '','' @ r2)"
      by (simp only: put_frags.simps 1 4 outcome.case False if_False)
    then have e: "put_frags (length a) (int (length m) - int (length a)) (f # fs) m =
        put_frags (length ?afc) (int (length ?m2) - int (length ?afc)) fs ?m2"
      unfolding a2 unfolding o2 by (simp only: append_assoc)
    have ml: "int (length m) = int (length ?m2)" using lm by simp
    show ?thesis unfolding e 3 unfolding j ml using l3 l2 l1 by (intro exI [of _ r3]) simp
  qed
qed simp

lemma frag_array_fits:
  assumes "fs \<noteq> []" "list_all no_nul fs"
  shows "frag_array fs = Done (''['' @ join '','' fs @ '']'')"
proof -
  let ?n = "length fs + length (concat fs) + 2"
  have jl: "length (join '','' fs) + 3 = ?n" using length_join [OF assms(1)] assms(1) by (cases fs) auto
  have 0: "put_at 0 (''['' @ [NUL]) (replicate ?n NUL) = Done (''['' @ replicate (?n - 1) NUL)"
    by (simp add: put_at_def drop_replicate numeral_2_eq_2 flip: replicate_Suc)
  define m where "m = ''['' @ replicate (?n - 1) NUL"
  have ml: "length m = ?n" using jl by (simp add: m_def)
  have "length ''['' + length (join '','' fs) < length m" using ml jl by simp
  from put_frags_fit [OF assms(1) this m_def] obtain r where
    1: "put_frags 1 (int ?n - 1) fs m = Done (1 + length (join '','' fs), int ?n - 1 - int (length (join '','' fs)), ''['' @ join '','' fs @ r)"
    and l1: "length (''['' @ join '','' fs @ r) = ?n" unfolding ml by auto
  let ?a = "''['' @ join '','' fs"
  have "length r = 2" using l1 jl by simp
  then obtain x y where r: "r = [x, y]" by (auto simp: length_Suc_conv numeral_2_eq_2)
  have av: "int ?n - 1 - int (length (join '','' fs)) = 2" using l1 r by simp
  have "snprintf_at (length ?a) 2 '']'' (?a @ [x, y]) = Done (?a @ '']'' @ [NUL])"
    by (simp add: snprintf_at_def put_at_def)
  then have 2: "snprintf_at (1 + length (join '','' fs)) (int ?n - 1 - int (length (join '','' fs))) '']'' (''['' @ join '','' fs @ r) = Done (''['' @ join '','' fs @ '']'' @ [NUL])"
    unfolding av r by simp
  have "no_nul (join '','' fs)" using assms by (induction fs rule: list_nonempty_induct) (auto simp: join_Cons)
  then have "cstr (''['' @ join '','' fs @ '']'' @ [NUL]) = ''['' @ join '','' fs @ '']''"
    using cstr_append [of "''['' @ join '','' fs @ '']''" "[]"] by simp
  then show ?thesis unfolding frag_array_def Let_def 0 m_def [symmetric] using 1 2 by simp
qed

section \<open>The complete lines\<close>

fun unlines :: "string list \<Rightarrow> string" where
  "unlines [] = []"
| "unlines (l # ls) = l @ LF # unlines ls"

text \<open>The events of lines that begin at an offset.\<close>

fun mark :: "nat \<Rightarrow> string list \<Rightarrow> line_event list" where
  "mark off [] = []"
| "mark off (l # ls) = line_event l (off + length l + 1) # mark (off + length l + 1) ls"

lemma offset_of_event [simp]: "offset_of (line_event l off) = off"
  by (simp add: line_event_def offset_of_def split: option.split)

lemma frag_of_event: "frag_of (line_event l off) = pv_json_format l (length l)"
  by (simp add: line_event_def frag_of_def split: option.split)

lemma frags_of_mark: "List.map_filter frag_of (mark off ls) = List.map_filter (\<lambda>l. pv_json_format l (length l)) ls"
  by (induction ls arbitrary: off) (simp_all add: List.map_filter_simps frag_of_event split: option.split)

lemma mark_Nil [simp]: "mark off ls = [] \<longleftrightarrow> ls = []"
  by (cases ls) simp_all

lemma mark_last: "ls \<noteq> [] \<Longrightarrow> offset_of (last (mark off ls)) = off + length (unlines ls)"
proof (induction ls arbitrary: off)
  case (Cons l ls)
  then show ?case by (cases "ls = []") simp_all
qed simp

lemma scan_prefix:
  assumes "int off + bytes \<le> int (length buf)" "bytes < int n"
  shows "\<exists>ls rest. drop off buf = unlines ls @ rest \<and> (\<forall>l\<in>set ls. LF \<notin> set l) \<and> scan_lines n buf off bytes = mark off ls"
  using assms
proof (induction n buf off bytes rule: scan_lines.induct)
  case (1 n buf off bytes)
  show ?case
  proof (cases "bytes \<le> 0 \<or> strchr (take (nat bytes) (drop off buf)) LF = None")
    case True
    then have "scan_lines n buf off bytes = []" using "1.prems" by (auto simp: scan_lines.simps [of n buf off bytes])
    then show ?thesis by (intro exI [of _ "[]"] exI [of _ "drop off buf"]) simp
  next
    case False
    then obtain i where i: "strchr (take (nat bytes) (drop off buf)) LF = Some i" and b: "\<not> bytes \<le> 0"
      by (auto simp del: strchr_None)
    let ?off = "off + i + 1"
    from i have h: "i < nat bytes" "i < length buf - off" "buf ! (off + i) = LF" "LF \<notin> set (take i (drop off buf))"
      by (auto simp: strchr_Some)
    have "int ?off + (bytes - int ?off) \<le> int (length buf)" "bytes - int ?off < int n" using "1.prems" by auto
    from "1.IH" [OF b i this] obtain ls rest where
      r: "drop ?off buf = unlines ls @ rest" "\<forall>l\<in>set ls. LF \<notin> set l" "scan_lines n buf ?off (bytes - int ?off) = mark ?off ls" by blast
    have "drop off buf = take i (drop off buf) @ LF # drop ?off buf"
      using h(2,3) id_take_nth_drop [of i "drop off buf"] by (simp add: add.commute add.left_commute)
    then have "drop off buf = unlines (take i (drop off buf) # ls) @ rest"
      unfolding r(1) unlines.simps append_assoc append_Cons .
    moreover have "scan_lines n buf off bytes = mark off (take i (drop off buf) # ls)"
      using b i h(2) r(3) by (simp add: scan_lines.simps [of n buf off bytes])
    ultimately show ?thesis using r(2) h(4) by (intro exI [of _ "take i (drop off buf) # ls"] exI [of _ rest]) simp
  qed
qed

lemma scan_first:
  assumes "LF \<in> set buf" "length buf \<le> n"
  shows "\<exists>ls rest. buf = unlines ls @ rest \<and> (\<forall>l\<in>set ls. LF \<notin> set l) \<and> scan_lines n buf 0 (int (length buf)) = mark 0 ls \<and> ls \<noteq> []"
proof -
  from assms(1) obtain l r where b: "buf = l @ LF # r" "LF \<notin> set l" by (metis split_list_first)
  let ?off = "length l + 1"
  have 1: "scan_lines n buf 0 (int (length buf)) = line_event l ?off # scan_lines n buf ?off (int (length buf) - int ?off)"
    by (subst scan_lines.simps) (simp add: b)
  have "int ?off + (int (length buf) - int ?off) \<le> int (length buf)" "int (length buf) - int ?off < int n" using assms(2) by auto
  from scan_prefix [OF this] obtain ls rest where
    "drop ?off buf = unlines ls @ rest" "\<forall>l\<in>set ls. LF \<notin> set l" "scan_lines n buf ?off (int (length buf) - int ?off) = mark ?off ls" by blast
  with b 1 show ?thesis by (intro exI [of _ "l # ls"] exI [of _ rest]) simp
qed


section \<open>What is pushed and what is saved\<close>

lemma map_filter_events: "map f (List.map_filter frag_of evs) = [] \<longleftrightarrow> (\<forall>ev\<in>set evs. frag_of ev = None)"
  by (induction evs) (auto simp: List.map_filter_simps split: option.split)

lemma nibble_not_nul: "n < 16 \<Longrightarrow> nibble_to_hexchar n \<noteq> NUL"
  using xdigit_nibble [of n] by (auto simp: xdigit_def)

lemma no_nul_modify: "no_nul (modify_to_json c)"
proof -
  have b: "(of_char c :: nat) < 256" by simp
  have "(of_char c :: nat) div 16 < 16" using b by linarith
  then show ?thesis by (simp add: modify_to_json_def Let_def nibble_not_nul [symmetric] nibble_not_nul)
qed

lemma no_nul_json_format: "pv_json_format s n = Some e \<Longrightarrow> no_nul e"
proof -
  assume e: "pv_json_format s n = Some e"
  have "no_nul (if char_is_json_special c then modify_to_json c else [c])" for c
    by (auto simp: no_nul_modify char_is_json_special_def)
  then have "no_nul (concat (map (\<lambda>c. if char_is_json_special c then modify_to_json c else [c]) t))" for t
    by (induction t) simp_all
  then show ?thesis using e by (simp add: pv_json_format_def split: if_splits) blast
qed

lemma no_nul_frags: "list_all no_nul (List.map_filter (\<lambda>l. pv_json_format l (length l)) ls)"
  by (induction ls) (auto simp: List.map_filter_simps no_nul_json_format split: option.split)

lemma no_nul_block [simp]: "no_nul (push_block p pos)"
  by (auto simp: push_block_def pv_str_replace_char_def no_nul_def)

lemma length_block: "length (push_block p pos) \<le> push_size p"
  by (simp add: push_block_def pv_str_replace_char_def)

text \<open>C32: When a push of a file reports that it sent something, it sent exactly one array with the escaped lines of a
  prefix of the block that was read, in order and without the blank ones, and the position that it saved last is the one
  right after that prefix: nothing is sent twice and nothing in between is left out.\<close>
theorem push_sends_prefix:
  assumes "no_nul platform" "no_nul source" "no_nul rv" "read_position p = Some pos" "LF \<in> set (push_block p pos)"
    and "ph_logger_push_from_file p platform source rv = Done (1, json, saved)"
  shows "\<exists>ls rest. push_block p pos = unlines ls @ rest \<and> (\<forall>l\<in>set ls. LF \<notin> set l)
    \<and> json = Some (''['' @ join '','' (map (ph_json source platform rv) (List.map_filter (\<lambda>l. pv_json_format l (length l)) ls)) @ '']'')
    \<and> last saved = pos + int (length (unlines ls))"
proof -
  let ?b = "push_block p pos" and ?n = "push_size p"
  from scan_first [OF assms(5) length_block] obtain ls rest where
    b: "?b = unlines ls @ rest" "\<forall>l\<in>set ls. LF \<notin> set l" "scan_lines ?n ?b 0 (int (length ?b)) = mark 0 ls" "ls \<noteq> []" by blast
  let ?fs = "map (ph_json source platform rv) (List.map_filter (\<lambda>l. pv_json_format l (length l)) ls)"
  have "list_all no_nul ?fs" using assms(1-3)
    using no_nul_frags [of ls] by (auto simp: list_all_iff ph_json_def quoted_def)
  then have "frag_array ?fs = Done (''['' @ join '','' ?fs @ '']'')" if "?fs \<noteq> []" using frag_array_fits [OF that] by blast
  then have "json = Some (''['' @ join '','' ?fs @ '']'') \<and> last saved = pos + int (length (unlines ls))"
    using assms(6) mark_last [OF b(4), of 0] unfolding ph_logger_push_from_file_def Let_def assms(4)
    by (cases "?fs = []") (auto simp: b(3) frags_of_mark split: if_splits)
  then show ?thesis using b(1,2) by blast
qed

theorem push_sends_prefix_witness:
  "\<exists>ls rest. push_block \<lparr>push_size = 8, push_open = True, push_bytes = ''a'' @ LF # ''b'', push_pos = None, push_post = (\<lambda>j. True)\<rparr> 0 = unlines ls @ rest
    \<and> last [0, 2] = (0 :: int) + int (length (unlines ls))"
proof -
  let ?p = "\<lparr>push_size = 8, push_open = True, push_bytes = ''a'' @ LF # ''b'', push_pos = None, push_post = (\<lambda>j. True)\<rparr>"
  have r: "read_position ?p = Some 0" by code_simp
  have l: "LF \<in> set (push_block ?p 0)" by code_simp
  have "ph_logger_push_from_file ?p ''p'' ''/s'' ''3'' = Done (1, Some (''['' @ ph_json ''/s'' ''p'' ''3'' ''a'' @ '']''), [0, 2])" by code_simp
  from push_sends_prefix [OF _ _ _ r l this] show ?thesis by (auto simp: no_nul_def)
qed

text \<open>A line is lost when it is followed by a blank one and the push fails: the position behind the blank line is
  saved before the request is made, so the next push begins after both.\<close>

theorem blank_line_skips_unsent:
  assumes "line \<noteq> []" "LF \<notin> set line" "NUL \<notin> set line" "no_nul platform" "no_nul source" "no_nul rv"
    and "push_open p" "push_bytes p = line @ [LF, LF]" "push_pos p = Some ''0''" "length line + 2 \<le> push_size p" "\<forall>j. \<not> push_post p j"
  shows "\<exists>json. ph_logger_push_from_file p platform source rv = Done (-1, Some json, [int (length line) + 2])"
proof -
  have a0: "atoi ''0'' = 0" by code_simp
  have r: "read_position p = Some 0" using assms(8,9) by (simp add: read_position_def a0)
  let ?b = "line @ [LF, LF]" and ?n = "push_size p"
  obtain k where k: "?n = length line + 2 + k" using assms(10) le_Suc_ex by blast
  have "map (\<lambda>c. if c = NUL then CHR '' '' else c) line = line" using assms(3) by (intro map_idI) auto
  then have blk: "push_block p 0 = ?b" using assms(8) by (simp add: push_block_def pv_str_replace_char_def k)
  have s3: "scan_lines ?n ?b (length line + 2) (1 - int (length line + 2)) = []" by (subst scan_lines.simps) simp
  have s2: "scan_lines ?n ?b (length line + 1) 1 = [line_event [] (length line + 2)]"
    using s3 by (subst scan_lines.simps) (simp add: numeral_2_eq_2)
  have s1: "scan_lines ?n ?b 0 (int (length ?b)) = [line_event line (length line + 1), line_event [] (length line + 2)]"
    using s2 assms(2) by (subst scan_lines.simps) (simp add: numeral_2_eq_2)
  obtain f where f: "pv_json_format line (length line) = Some f" using assms(1) by (simp add: pv_json_format_def)
  let ?j = "ph_json source platform rv f"
  have "no_nul ?j" using assms(4-6) no_nul_json_format [OF f] by (simp add: ph_json_def quoted_def)
  then have a: "frag_array [?j] = Done (''['' @ ?j @ '']'')" using frag_array_fits [of "[?j]"] by simp
  obtain e1 e2 where e: "scan_lines ?n ?b 0 (int (length ?b)) = [e1, e2]" "frag_of e1 = Some f" "frag_of e2 = None"
    "int (offset_of e2) = int (length line) + 2"
    using s1 f by (simp add: frag_of_event pv_json_format_def [of "[]"] del: length_append)
  show ?thesis unfolding ph_logger_push_from_file_def Let_def r
    using assms(7,9,11) by (simp add: blk e a List.map_filter_simps del: length_append)
qed

theorem blank_line_skips_unsent_witness:
  "\<exists>json. ph_logger_push_from_file \<lparr>push_size = 9, push_open = True, push_bytes = ''lost'' @ [LF, LF], push_pos = Some ''0'', push_post = (\<lambda>j. False)\<rparr>
    ''p'' ''/s'' ''3'' = Done (-1, Some json, [6])"
  using blank_line_skips_unsent [of "''lost''" "''p''" "''/s''" "''3''" "\<lparr>push_size = 9, push_open = True, push_bytes = ''lost'' @ [LF, LF], push_pos = Some ''0'', push_post = (\<lambda>j. False)\<rparr>"]
  by simp

section \<open>The range service\<close>

lemma range_service_ends:
  assumes "\<And>rv w r w'. push rv w = (r, w') \<Longrightarrow> m w' \<le> (m w :: nat) \<and> (r \<noteq> 0 \<longrightarrow> m w' < m w)"
    and "m w + nat (cur + 1) < fuel"
  shows "\<exists>tr w'. range_service fuel push avoid cur secs w = Some (tr, w')
    \<and> map fst (filter (\<lambda>(c, r, s). r = 0) tr) = filter (\<lambda>c. c \<noteq> avoid) (rev [0..cur])"
  using assms(2)
proof (induction fuel arbitrary: cur secs w)
  case (Suc fuel)
  obtain r w1 where p: "push (show_int cur) w = (r, w1)" by (cases "push (show_int cur) w")
  from assms(1) [OF p] have m: "m w1 \<le> m w" "r \<noteq> 0 \<Longrightarrow> m w1 < m w" by blast+
  let ?cur = "if r = 0 then cur - 1 else cur" and ?secs = "if r < 0 then longer secs else shorter secs"
  consider "cur < 0" | "0 \<le> cur" "avoid = cur" | "0 \<le> cur" "avoid \<noteq> cur" by linarith
  then show ?case
  proof cases
    case 1
    then show ?thesis by simp
  next
    case 2
    then have "m w + nat (cur - 1 + 1) < fuel" using Suc.prems by simp
    from Suc.IH [OF this, of secs] show ?thesis using 2 by (auto simp: upto_rec2 [of 0 cur])
  next
    case 3
    then have "m w1 + nat (?cur + 1) < fuel" using Suc.prems m by (auto)
    from Suc.IH [OF this, of ?secs] show ?thesis using 3 p by (auto simp: upto_rec2 [of 0 cur] Let_def)
  qed
qed simp



section \<open>From a logger to its file\<close>



end
