(* ===== verification/Blkid.thy ===== *)
theory Blkid
  imports Text
begin

text \<open>
  \<open>blkid.c\<close>: finding the block device whose file system has a given label or UUID. A device is the list of its
  bytes. Whether \<open>char\<close> is signed depends on the machine and is a parameter, and so are the names that
  \<open>/proc/partitions\<close> lists and what opens under them. \<open>toybuf\<close> has 4096 bytes, \<open>buf\<close> has 128.
\<close>

section \<open>The known file systems\<close>

record fstype =
  fs_name :: string
  fs_magic :: nat
  fs_magic_len :: nat
  fs_magic_offset :: nat
  fs_uuid_off :: nat
  fs_label_len :: nat
  fs_label_off :: nat

definition fs_entry :: "string \<Rightarrow> nat \<Rightarrow> nat \<Rightarrow> nat \<Rightarrow> nat \<Rightarrow> nat \<Rightarrow> nat \<Rightarrow> fstype" where
  "fs_entry n m ml mo u ll lo = \<lparr>fs_name = n, fs_magic = m, fs_magic_len = ml, fs_magic_offset = mo, fs_uuid_off = u,
     fs_label_len = ll, fs_label_off = lo\<rparr>"

definition fstypes :: "fstype list" where
  "fstypes = [
     fs_entry ''ext2'' 0xEF53 2 1080 1128 16 1144,
     fs_entry ''swap'' 0x4341505350415753 8 4086 1036 15 1052,
     fs_entry ''ntfs'' 0x5346544e 4 3 0x48 0 0,
     fs_entry ''adfs'' 0xadf5 2 0xc00 0 0 0,
     fs_entry ''bfs'' 0x1badface 4 0 0 0 0,
     fs_entry ''btrfs'' 0x4D5F53665248425F 8 65600 65803 256 65819,
     fs_entry ''cramfs'' 0x28cd3d45 4 0 0 16 48,
     fs_entry ''f2fs'' 0xF2F52010 4 1024 1132 512 0x47c,
     fs_entry ''jfs'' 0x3153464a 4 32768 32920 16 32904,
     fs_entry ''nilfs'' 0x3434 2 1030 1176 80 1192,
     fs_entry ''reiserfs'' 0x724573496552 6 8244 8276 16 8292,
     fs_entry ''reiserfs'' 0x724573496552 6 65588 65620 16 65636,
     fs_entry ''romfs'' 0x2d6d6f72 4 0 0 0 0,
     fs_entry ''squashfs'' 0x73717368 4 0 0 0 0,
     fs_entry ''xiafs'' 0x012fd16d 4 572 0 0 0,
     fs_entry ''xfs'' 0x42534658 4 0 32 12 108,
     fs_entry ''vfat'' 0x3233544146 5 82 67 11 71,
     fs_entry ''vfat'' 0x31544146 4 54 39 11 43]"

record blkid_info =
  bi_fstype :: "string option"
  bi_uuid :: "string option"
  bi_label :: "string option"
  bi_sec_type :: "string option"
  bi_device :: "string option"

definition free_blkid_info :: blkid_info where
  "free_blkid_info = \<lparr>bi_fstype = None, bi_uuid = None, bi_label = None, bi_sec_type = None, bi_device = None\<rparr>"

section \<open>Finding the type\<close>

definition bytes_at :: "string \<Rightarrow> nat \<Rightarrow> nat \<Rightarrow> string outcome" where
  "bytes_at buf i n = (if i + n \<le> length buf then Done (take n (drop i buf)) else Fault)"

text \<open>The value of bytes in little endian order.\<close>

definition le_value :: "string \<Rightarrow> nat" where
  "le_value b = foldr (\<lambda>c v. of_char c + 256 * v) b 0"

text \<open>The tests of one block, with \<open>pass\<close> telling that a type lies behind it.\<close>

fun test_types :: "string \<Rightarrow> nat \<Rightarrow> fstype list \<Rightarrow> bool \<Rightarrow> (fstype option \<times> bool) outcome" where
  "test_types buf off [] pass = Done (None, pass)"
| "test_types buf off (t # ts) pass =
     (if fs_magic_offset t > off + 4096 then test_types buf off ts True
      else if fs_magic_offset t < off then test_types buf off ts pass
      else case bytes_at buf (fs_magic_offset t - off) (fs_magic_len t) of Fault \<Rightarrow> Fault
        | Done b \<Rightarrow> (if le_value b = fs_magic t then Done (Some t, pass) else test_types buf off ts pass))"

definition block :: "string \<Rightarrow> nat \<Rightarrow> string" where
  "block img off = take 4096 (drop off img)"

function find_type :: "string \<Rightarrow> nat \<Rightarrow> (nat \<times> fstype) option outcome" where
  "find_type img off =
     (if length (block img off) \<noteq> 4096 then Done None
      else case test_types (block img off) off fstypes False of Fault \<Rightarrow> Fault
        | Done (Some t, pass) \<Rightarrow> Done (Some (off, t))
        | Done (None, pass) \<Rightarrow> (if pass then find_type img (off + 4096) else Done None))"
  by pat_completeness auto
termination
  by (relation "measure (\<lambda>(img, off). length img - off)") (auto simp: block_def)

declare find_type.simps [simp del]

section \<open>Reading the tags\<close>

definition byte_bit :: "char \<Rightarrow> nat \<Rightarrow> bool" where
  "byte_bit c k = odd ((of_char c :: nat) div 2 ^ k)"

text \<open>The revisions of ext are told apart by two feature bits.\<close>

definition type_name :: "fstype \<Rightarrow> string \<Rightarrow> string" where
  "type_name t buf = (if fs_name t \<noteq> ''ext2'' then fs_name t
     else if byte_bit (buf ! 1120) 6 then ''ext4'' else if byte_bit (buf ! 1116) 2 then ''ext3'' else ''ext2'')"

fun trim_spaces :: "string \<Rightarrow> string" where
  "trim_spaces s = rev (dropWhile (\<lambda>c. c = CHR '' '') (rev s))"

text \<open>The label of f2fs has two bytes for each character; \<open>s\<close> are the bytes from it on.\<close>

definition wide_label :: "string \<Rightarrow> nat \<Rightarrow> string" where
  "wide_label s len = takeWhile (\<lambda>c. c \<noteq> NUL) (map (\<lambda>j. if s ! (2 * j + 1) \<noteq> NUL then CHR ''?'' else s ! (2 * j)) [0..<len])"

definition label_len :: "fstype \<Rightarrow> string \<Rightarrow> nat" where
  "label_len t s = (if fs_name t \<noteq> ''vfat'' then fs_label_len t
     else if strneq s ''NO NAME'' 7 then 0 else length (trim_spaces (take (fs_label_len t) s)))"

definition read_label :: "string \<Rightarrow> nat \<Rightarrow> fstype \<Rightarrow> string option outcome" where
  "read_label buf off t =
     (if fs_label_len t = 0 then Done None
      else let s = drop (fs_label_off t - off) buf; len = label_len t s in
        if len = 0 then Done None
        else let label = (if fs_name t = ''f2fs'' then wide_label s len else cstr (take len s))
          in if length label < 128 then Done (Some label) else Fault)"

text \<open>\<open>%02x\<close> of a \<open>char\<close>, which is an \<open>int\<close> there: a signed one with the highest bit gets six more digits.\<close>

definition lower_hex :: "nat \<Rightarrow> char" where
  "lower_hex n = (if n \<le> 9 then char_of (of_char (CHR ''0'') + n) else char_of (of_char (CHR ''a'') + (n - 10)))"

definition hex_pair :: "(nat \<Rightarrow> char) \<Rightarrow> bool \<Rightarrow> char \<Rightarrow> string" where
  "hex_pair dg sg c = (let v = (of_char c :: nat) in
     (if sg \<and> 128 \<le> v then replicate 6 (dg 15) else []) @ [dg (v div 16), dg (v mod 16)])"

definition uuid_text :: "bool \<Rightarrow> string \<Rightarrow> string \<Rightarrow> string" where
  "uuid_text sg name b =
     (if name = ''ntfs'' then concat (map (\<lambda>j. hex_pair nibble_to_hexchar sg (b ! j)) (rev [0..<8]))
      else if name = ''vfat'' then hex_pair nibble_to_hexchar sg (b ! 3) @ hex_pair nibble_to_hexchar sg (b ! 2) @ ''-'' @
        hex_pair nibble_to_hexchar sg (b ! 1) @ hex_pair nibble_to_hexchar sg (b ! 0)
      else concat (map (\<lambda>j. (if odd ((0x550 :: nat) div 2 ^ j) then ''-'' else []) @ hex_pair lower_hex sg (b ! j)) [0..<16]))"

definition read_uuid :: "bool \<Rightarrow> string \<Rightarrow> nat \<Rightarrow> fstype \<Rightarrow> string option outcome" where
  "read_uuid sg buf off t =
     (if fs_uuid_off t = 0 then Done None
      else case bytes_at buf (fs_uuid_off t - off) 16 of Fault \<Rightarrow> Fault
        | Done b \<Rightarrow> (let u = uuid_text sg (fs_name t) b in if length u < 128 then Done (Some u) else Fault))"

definition sec_type :: "fstype \<Rightarrow> string \<Rightarrow> string option" where
  "sec_type t buf =
     (if fs_name t = ''vfat'' then Some ''msdos''
      else if (type_name t buf = ''ext3'' \<or> type_name t buf = ''ext4'') \<and> (\<forall>k \<in> {0, 2, 3, 5, 6, 7}. \<not> byte_bit (buf ! 1120) k)
      then Some ''ext2'' else None)"

text \<open>Storing a tag leaves the field alone when there is none.\<close>

definition store :: "string option \<Rightarrow> string option \<Rightarrow> string option" where
  "store new old = (case new of None \<Rightarrow> old | Some s \<Rightarrow> Some s)"

definition do_blkid :: "bool \<Rightarrow> string \<Rightarrow> blkid_info \<Rightarrow> blkid_info outcome" where
  "do_blkid sg img info =
     (case find_type img 0 of Fault \<Rightarrow> Fault | Done None \<Rightarrow> Done info
      | Done (Some (off, t)) \<Rightarrow> (let buf = block img off in
          case read_label buf off t of Fault \<Rightarrow> Fault
          | Done l \<Rightarrow> (case read_uuid sg buf off t of Fault \<Rightarrow> Fault
            | Done u \<Rightarrow> Done (info\<lparr>bi_fstype := Some (type_name t buf), bi_uuid := store u (bi_uuid info),
                bi_label := store l (bi_label info), bi_sec_type := store (sec_type t buf) (bi_sec_type info)\<rparr>))))"

section \<open>Looking for a device\<close>

definition key_text :: "string \<Rightarrow> string option" where
  "key_text key = (if strneq key ''LABEL='' 6 then Some (pv_str_skip_prefix key ''LABEL='')
     else if strneq key ''UUID='' 5 then Some (pv_str_skip_prefix key ''UUID='') else None)"

definition dev_path :: "string \<Rightarrow> string" where
  "dev_path name = ''/dev/'' @ take 20 name"

definition matches :: "string \<Rightarrow> blkid_info \<Rightarrow> bool" where
  "matches want info \<longleftrightarrow> bi_label info = Some want \<or> bi_uuid info = Some want"

fun try_partitions :: "bool \<Rightarrow> (string \<Rightarrow> string option) \<Rightarrow> string list \<Rightarrow> string \<Rightarrow> blkid_info \<Rightarrow> blkid_info outcome" where
  "try_partitions sg dev [] want info = Done info"
| "try_partitions sg dev (n # ns) want info =
     (case dev (dev_path n) of None \<Rightarrow> try_partitions sg dev ns want info
      | Some img \<Rightarrow> (case do_blkid sg img info of Fault \<Rightarrow> Fault
        | Done info' \<Rightarrow> (if matches want info' then Done (info'\<lparr>bi_device := Some (dev_path n)\<rparr>)
            else try_partitions sg dev ns want free_blkid_info)))"

text \<open>\<open>pnames\<close> is \<open>None\<close> when \<open>/proc/partitions\<close> does not open.\<close>

definition get_blkid :: "bool \<Rightarrow> (string \<Rightarrow> string option) \<Rightarrow> string list option \<Rightarrow> string \<Rightarrow> blkid_info \<Rightarrow> blkid_info outcome" where
  "get_blkid sg dev pnames key info =
     (case key_text key of None \<Rightarrow> Done (info\<lparr>bi_device := Some key\<rparr>)
      | Some want \<Rightarrow> (case pnames of None \<Rightarrow> Done info | Some ns \<Rightarrow> try_partitions sg dev ns want info))"

section \<open>The table\<close>

text \<open>The bytes at a place of the device, and whether they are the magic of a type.\<close>

definition img_at :: "string \<Rightarrow> nat \<Rightarrow> nat \<Rightarrow> string" where
  "img_at img i n = take n (drop i img)"

definition magic_at :: "string \<Rightarrow> fstype \<Rightarrow> bool" where
  "magic_at img t \<longleftrightarrow> fs_magic_offset t + fs_magic_len t \<le> length img
     \<and> le_value (img_at img (fs_magic_offset t) (fs_magic_len t)) = fs_magic t"

text \<open>The tags of a type are in the same block as its magic.\<close>

definition tags_near :: "fstype \<Rightarrow> bool" where
  "tags_near t \<longleftrightarrow> 0 < fs_magic_len t
     \<and> (fs_uuid_off t \<noteq> 0 \<longrightarrow> fs_uuid_off t div 4096 = fs_magic_offset t div 4096 \<and> fs_uuid_off t mod 4096 + 16 \<le> 4096)"

lemma table_near: "t \<in> set fstypes \<Longrightarrow> tags_near t"
proof -
  have "list_all tags_near fstypes" by (simp add: fstypes_def fs_entry_def tags_near_def)
  then show "t \<in> set fstypes \<Longrightarrow> tags_near t" by (simp add: list_all_iff)
qed

lemma bytes_in_block:
  assumes "length (block img off) = 4096" "off \<le> i"
  shows "bytes_at (block img off) (i - off) n = (if i + n \<le> off + 4096 then Done (img_at img i n) else Fault)"
proof -
  have "take n (drop (i - off) (block img off)) = img_at img i n" if "i + n \<le> off + 4096"
    using assms(2) that by (simp add: block_def img_at_def drop_take)
  moreover have "i - off + n \<le> 4096 \<longleftrightarrow> i + n \<le> off + 4096" using assms(2) by arith
  ultimately show ?thesis using assms(1) by (simp add: bytes_at_def)
qed

lemma block_full: "length (block img off) = 4096 \<longleftrightarrow> off + 4096 \<le> length img"
  by (simp add: block_def) arith

lemma test_types_found:
  assumes "length (block img off) = 4096" "test_types (block img off) off ts pass = Done (Some t, pass')"
  shows "t \<in> set ts \<and> off \<le> fs_magic_offset t \<and> fs_magic_offset t + fs_magic_len t \<le> off + 4096 \<and> magic_at img t"
  using assms(2)
proof (induction ts arbitrary: pass)
  case (Cons u us)
  consider "fs_magic_offset u > off + 4096" | "fs_magic_offset u < off" | "off \<le> fs_magic_offset u" "fs_magic_offset u \<le> off + 4096" by linarith
  then show ?case
  proof cases
    case 3
    have e: "bytes_at (block img off) (fs_magic_offset u - off) (fs_magic_len u) =
        (if fs_magic_offset u + fs_magic_len u \<le> off + 4096 then Done (img_at img (fs_magic_offset u) (fs_magic_len u)) else Fault)"
      using bytes_in_block [OF assms(1) 3(1)] .
    have "off + 4096 \<le> length img" using assms(1) block_full by blast
    then show ?thesis using Cons 3 by (simp add: e magic_at_def split: if_splits)
  qed (use Cons in simp_all)
qed simp

lemma find_type_sound:
  assumes "find_type img off0 = Done (Some (off, t))" "4096 dvd off0"
  shows "t \<in> set fstypes \<and> magic_at img t \<and> off = 4096 * (fs_magic_offset t div 4096) \<and> off + 4096 \<le> length img"
  using assms
proof (induction img off0 rule: find_type.induct)
  case (1 img off0)
  have f: "length (block img off0) = 4096" using "1.prems"(1) by (auto simp: find_type.simps [of img off0] split: if_splits)
  then obtain r pass where t: "test_types (block img off0) off0 fstypes False = Done (r, pass)"
    using "1.prems"(1) by (auto simp: find_type.simps [of img off0] split: outcome.splits)
  show ?case
  proof (cases r)
    case None
    then have n: "pass" "find_type img (off0 + 4096) = Done (Some (off, t))" using "1.prems"(1) f t
      by (auto simp: find_type.simps [of img off0] split: if_splits)
    moreover have "4096 dvd off0 + 4096" using "1.prems"(2) by simp
    ultimately show ?thesis using "1.IH" [OF _ t refl None n(1) n(2)] f by simp
  next
    case (Some u)
    then have u: "u = t" "off = off0" using "1.prems"(1) f t by (auto simp: find_type.simps [of img off0])
    from test_types_found [OF f t [unfolded Some]] have b: "t \<in> set fstypes" "off0 \<le> fs_magic_offset t"
      "fs_magic_offset t + fs_magic_len t \<le> off0 + 4096" "magic_at img t" unfolding u by auto
    obtain k where k: "off0 = 4096 * k" using "1.prems"(2) ..
    have "0 < fs_magic_len t" using table_near [OF b(1)] by (simp add: tags_near_def)
    then have "fs_magic_offset t div 4096 = k" using b(2,3) unfolding k by (intro div_nat_eqI) auto
    with b f k u show ?thesis by (simp add: block_full)
  qed
qed


section \<open>What is found\<close>

lemma uuid_in_block:
  assumes "t \<in> set fstypes" "off = 4096 * (fs_magic_offset t div 4096)" "off + 4096 \<le> length img" "fs_uuid_off t \<noteq> 0"
  shows "bytes_at (block img off) (fs_uuid_off t - off) 16 = Done (img_at img (fs_uuid_off t) 16)"
proof -
  from table_near [OF assms(1)] assms(4) have u: "fs_uuid_off t div 4096 = fs_magic_offset t div 4096" "fs_uuid_off t mod 4096 + 16 \<le> 4096"
    by (simp_all add: tags_near_def)
  then have "fs_uuid_off t = off + fs_uuid_off t mod 4096" using assms(2) by (metis mult_div_mod_eq)
  then have "off \<le> fs_uuid_off t" "fs_uuid_off t + 16 \<le> off + 4096" using u(2) by linarith+
  with bytes_in_block [of img off "fs_uuid_off t" 16] assms(3) show ?thesis by (simp add: block_full)
qed

lemma do_blkid_cases:
  assumes "do_blkid sg img info = Done info'"
  obtains "info' = info"
  | t where "t \<in> set fstypes" "magic_at img t" "bi_device info' = bi_device info"
      "bi_fstype info' = Some (type_name t (block img (4096 * (fs_magic_offset t div 4096))))"
      "bi_uuid info' = (if fs_uuid_off t = 0 then bi_uuid info else Some (uuid_text sg (fs_name t) (img_at img (fs_uuid_off t) 16)))"
proof (cases "find_type img 0")
  case (Done r)
  show ?thesis
  proof (cases r)
    case None
    then show ?thesis using assms Done that(1) by (simp add: do_blkid_def)
  next
    case (Some ot)
    obtain off t where ot: "ot = (off, t)" by fastforce
    with find_type_sound [of img 0 off t] Done Some have t: "t \<in> set fstypes" "magic_at img t"
      "off = 4096 * (fs_magic_offset t div 4096)" "off + 4096 \<le> length img" by auto
    obtain l where l: "read_label (block img off) off t = Done l" using assms Done Some ot
      by (auto simp: do_blkid_def Let_def split: outcome.splits)
    obtain u where u: "read_uuid sg (block img off) off t = Done u" using assms Done Some ot l
      by (auto simp: do_blkid_def Let_def split: outcome.splits)
    have "store u (bi_uuid info) = (if fs_uuid_off t = 0 then bi_uuid info else Some (uuid_text sg (fs_name t) (img_at img (fs_uuid_off t) 16)))"
      using u uuid_in_block [OF t(1,3,4)] by (auto simp: read_uuid_def store_def Let_def split: if_splits)
    then show ?thesis using that(2) [OF t(1,2)] assms Done Some ot l u t(3) by (auto simp: do_blkid_def Let_def)
  qed
qed (use assms in \<open>simp add: do_blkid_def\<close>)

text \<open>A type that is reported is in the table and its magic is on the device at the place for it; only ext2 may be
  reported as ext3 or ext4. The UUID that is reported with it is made of the 16 bytes at the place for it.\<close>
theorem reported_type_on_disk:
  assumes "do_blkid sg img free_blkid_info = Done info" "bi_fstype info = Some name"
  shows "\<exists>t\<in>set fstypes. magic_at img t \<and> (name = fs_name t \<or> fs_name t = ''ext2'' \<and> (name = ''ext3'' \<or> name = ''ext4''))
    \<and> bi_uuid info = (if fs_uuid_off t = 0 then None else Some (uuid_text sg (fs_name t) (img_at img (fs_uuid_off t) 16)))"
  using assms(1)
proof (cases rule: do_blkid_cases)
  case 1
  then show ?thesis using assms(2) by (simp add: free_blkid_info_def)
next
  case (2 t)
  then show ?thesis using assms(2) by (intro bexI [of _ t]) (auto simp: free_blkid_info_def type_name_def split: if_splits)
qed

section \<open>The scan leaves its buffer\<close>

definition not_at :: "string \<Rightarrow> nat \<Rightarrow> fstype \<Rightarrow> bool" where
  "not_at img off t \<longleftrightarrow> (off \<le> fs_magic_offset t \<and> fs_magic_offset t \<le> off + 4096 \<longrightarrow>
     fs_magic_offset t + fs_magic_len t \<le> off + 4096 \<and> \<not> magic_at img t)"

lemma test_step:
  assumes "off + 4096 \<le> length img" "not_at img off u"
  shows "test_types (block img off) off (u # us) pass = test_types (block img off) off us (pass \<or> off + 4096 < fs_magic_offset u)"
proof (cases "off \<le> fs_magic_offset u \<and> fs_magic_offset u \<le> off + 4096")
  case True
  have f: "length (block img off) = 4096" using assms(1) block_full by blast
  have n: "fs_magic_offset u + fs_magic_len u \<le> off + 4096" "\<not> magic_at img u" using assms(2) True by (auto simp: not_at_def)
  have "le_value (img_at img (fs_magic_offset u) (fs_magic_len u)) \<noteq> fs_magic u" using n assms(1) by (simp add: magic_at_def)
  then show ?thesis using bytes_in_block [OF f, of "fs_magic_offset u" "fs_magic_len u"] True n(1) by simp
next
  case False
  then show ?thesis by auto
qed

lemma test_types_none:
  assumes "off + 4096 \<le> length img" "\<forall>t\<in>set ts. not_at img off t"
  shows "test_types (block img off) off (ts @ us) pass = test_types (block img off) off us (pass \<or> (\<exists>t\<in>set ts. off + 4096 < fs_magic_offset t))"
  using assms(2) by (induction ts arbitrary: pass) (simp_all add: test_step [OF assms(1)] disj_assoc del: test_types.simps(2))

lemma test_types_over:
  assumes "off + 4096 \<le> length img" "fs_magic_offset v = off + 4096" "0 < fs_magic_len v"
  shows "test_types (block img off) off (v # vs) pass = Fault"
proof -
  have f: "length (block img off) = 4096" using assms(1) block_full by blast
  have "off \<le> fs_magic_offset v" using assms(2) by simp
  from bytes_in_block [OF f this, of "fs_magic_len v"] show ?thesis using assms(2,3) by simp
qed

text \<open>Where the types lie: for the first seven blocks there is one behind the block, and none that is cut by the end of
  the block; jfs begins right at the end of the eighth.\<close>

lemma find_next:
  assumes "off + 4096 \<le> length img" "\<forall>t\<in>set fstypes. not_at img off t" "\<exists>t\<in>set fstypes. off + 4096 < fs_magic_offset t"
  shows "find_type img off = find_type img (off + 4096)"
proof -
  have "test_types (block img off) off fstypes False = Done (None, True)"
    using test_types_none [OF assms(1,2), of "[]" False] assms(3) by simp
  then show ?thesis using block_full [of img off] assms(1) by (simp add: find_type.simps [of img off])
qed

lemma jfs_splits: "\<exists>vs. fstypes = take 8 fstypes @ fs_entry ''jfs'' 0x3153464a 4 32768 32920 16 32904 # vs"
  by (simp add: fstypes_def)

lemma early_places:
  assumes "t \<in> set fstypes" "fs_magic_offset t < 28672"
  shows "fs_magic_offset t + fs_magic_len t \<le> 4096 \<and> 0 < fs_magic_len t \<or> fs_magic_offset t = 8244 \<and> fs_magic_len t = 6"
proof -
  have "list_all (\<lambda>t. fs_magic_offset t < 28672 \<longrightarrow> fs_magic_offset t + fs_magic_len t \<le> 4096 \<and> 0 < fs_magic_len t
      \<or> fs_magic_offset t = 8244 \<and> fs_magic_len t = 6) fstypes"
    by (simp add: fstypes_def fs_entry_def)
  with assms show ?thesis by (simp add: list_all_iff)
qed

lemma late_places:
  assumes "t \<in> set fstypes" "28672 \<le> fs_magic_offset t"
  shows "32768 \<le> fs_magic_offset t"
proof -
  have "list_all (\<lambda>t. 28672 \<le> fs_magic_offset t \<longrightarrow> 32768 \<le> fs_magic_offset t) fstypes"
    by (simp add: fstypes_def fs_entry_def)
  with assms show ?thesis by (simp add: list_all_iff)
qed

lemma late_type: "\<exists>t\<in>set fstypes. 65588 \<le> fs_magic_offset t"
  by (simp add: fstypes_def fs_entry_def)

lemma early_blocks:
  assumes "32768 \<le> length img" "\<forall>t\<in>set fstypes. fs_magic_offset t < 28672 \<longrightarrow> \<not> magic_at img t" "k < 7"
  shows "find_type img (4096 * k) = find_type img (4096 * k + 4096)"
proof (rule find_next)
  show "4096 * k + 4096 \<le> length img" using assms(1,3) by simp
  show "\<exists>t\<in>set fstypes. 4096 * k + 4096 < fs_magic_offset t"
  proof -
    obtain t where "t \<in> set fstypes" "65588 \<le> fs_magic_offset t" using late_type by blast
    with assms(3) show ?thesis by (intro bexI [of _ t]) auto
  qed
  show "\<forall>t\<in>set fstypes. not_at img (4096 * k) t"
  proof
    fix t assume t: "t \<in> set fstypes"
    consider "28672 \<le> fs_magic_offset t" | "fs_magic_offset t < 28672" by linarith
    then show "not_at img (4096 * k) t"
    proof cases
      case 1
      with late_places [OF t] assms(3) show ?thesis by (simp add: not_at_def)
    next
      case 2
      have "fs_magic_offset t + fs_magic_len t \<le> 4096 * k + 4096" if "fs_magic_offset t \<le> 4096 * k + 4096"
      proof -
        consider "fs_magic_offset t + fs_magic_len t \<le> 4096" | "fs_magic_offset t = 8244" "fs_magic_len t = 6"
          using early_places [OF t 2] by blast
        then show ?thesis
        proof cases
          case 2
          with that have "\<not> k \<le> 1" by linarith
          then have "8192 \<le> 4096 * k" by simp
          with 2 show ?thesis by linarith
        qed linarith
      qed
      moreover have "\<not> magic_at img t" using assms(2) t 2 by blast
      ultimately show ?thesis by (simp add: not_at_def)
    qed
  qed
qed

lemma scan_overruns:
  assumes "32768 \<le> length img" "\<forall>t\<in>set fstypes. fs_magic_offset t < 28672 \<longrightarrow> \<not> magic_at img t"
  shows "find_type img 0 = Fault"
proof -
  have "find_type img 0 = find_type img (4096 * k)" if "k \<le> 7" for k
    using that
  proof (induction k)
    case (Suc k)
    then show ?case using early_blocks [OF assms, of k] by (simp add: add.commute)
  qed simp
  from this [of 7] have 1: "find_type img 0 = find_type img 28672" by simp
  obtain vs where vs: "fstypes = take 8 fstypes @ fs_entry ''jfs'' 0x3153464a 4 32768 32920 16 32904 # vs" using jfs_splits by blast
  have l: "28672 + 4096 \<le> length img" using assms(1) by simp
  have "list_all (\<lambda>t. fs_magic_offset t < 28672 \<or> 32768 < fs_magic_offset t) (take 8 fstypes)"
    by (simp add: fstypes_def fs_entry_def)
  then have "\<forall>t\<in>set (take 8 fstypes). not_at img 28672 t" by (auto simp: list_all_iff not_at_def)
  from test_types_none [OF l this] have "test_types (block img 28672) 28672 fstypes False = Fault"
    using test_types_over [OF l, of "fs_entry ''jfs'' 0x3153464a 4 32768 32920 16 32904"]
    by (subst vs) (simp add: fs_entry_def del: test_types.simps(2))
  then show ?thesis using 1 block_full [of img 28672] l by (simp add: find_type.simps [of img 28672])
qed

text \<open>On every device of at least 32 KiB that holds none of the types of the first seven blocks, the scan reads behind
  the end of its buffer: the magic of jfs begins exactly where the eighth block ends.\<close>
theorem unknown_device_overruns:
  assumes "32768 \<le> length img" "\<forall>t\<in>set fstypes. fs_magic_offset t < 28672 \<longrightarrow> \<not> magic_at img t"
  shows "do_blkid sg img info = Fault"
  using scan_overruns [OF assms] by (simp add: do_blkid_def)

lemma le_value_zeros: "le_value (replicate n NUL) = 0"
  by (induction n) (simp_all add: le_value_def)

lemma img_at_zeros: "i + n \<le> l \<Longrightarrow> img_at (replicate l NUL) i n = replicate n NUL"
  by (simp add: img_at_def)

lemma magic_positive: "t \<in> set fstypes \<Longrightarrow> 0 < fs_magic t"
proof -
  have "list_all (\<lambda>t. 0 < fs_magic t) fstypes" by (simp add: fstypes_def fs_entry_def)
  then show "t \<in> set fstypes \<Longrightarrow> 0 < fs_magic t" by (simp add: list_all_iff)
qed

lemma no_magic_zeros: "t \<in> set fstypes \<Longrightarrow> \<not> magic_at (replicate l NUL) t"
  using magic_positive [of t] by (auto simp: magic_at_def img_at_zeros le_value_zeros)

theorem unknown_device_overruns_witness: "do_blkid True (replicate 40960 NUL) free_blkid_info = Fault"
  using unknown_device_overruns [of "replicate 40960 NUL"] by (simp add: no_magic_zeros)

section \<open>What the first block holds is found\<close>

lemma find_first:
  assumes "4096 \<le> length img" "fstypes = us @ t # vs" "\<forall>u\<in>set us. not_at img 0 u" "magic_at img t" "fs_magic_offset t + fs_magic_len t \<le> 4096"
  shows "find_type img 0 = Done (Some (0, t))"
proof -
  have l: "0 + 4096 \<le> length img" using assms(1) by simp
  then have f: "length (block img 0) = 4096" using block_full by blast
  have "test_types (block img 0) 0 (t # vs) pass = Done (Some t, pass)" for pass
    using bytes_in_block [OF f, of "fs_magic_offset t" "fs_magic_len t"] assms(4,5) by (simp add: magic_at_def)
  then have "\<exists>pass. test_types (block img 0) 0 fstypes False = Done (Some t, pass)"
    unfolding assms(2) test_types_none [OF l assms(3)] by blast
  then show ?thesis using f by (auto simp: find_type.simps [of img 0])
qed

text \<open>A small device with cramfs and the label \<open>root\<close>.\<close>

definition cram_image :: string where
  "cram_image = [CHR 0x45, CHR 0x3D, CHR 0xCD, CHR 0x28] @ replicate 44 NUL @ ''root'' @ replicate 4044 NUL"

definition cram_type :: fstype where
  "cram_type = fs_entry ''cramfs'' 0x28cd3d45 4 0 0 16 48"

lemma length_cram [simp]: "length cram_image = 4096"
  by (simp add: cram_image_def)

lemma cram_at: "img_at cram_image 0 4 = [CHR 0x45, CHR 0x3D, CHR 0xCD, CHR 0x28]" "img_at cram_image 3 4 = CHR 0x28 # replicate 3 NUL"
  by (simp_all add: img_at_def cram_image_def drop_Cons' take_Cons')

lemma cram_zeros: "52 \<le> i \<Longrightarrow> i + n \<le> 4096 \<Longrightarrow> img_at cram_image i n = replicate n NUL"
proof -
  assume h: "52 \<le> i" "i + n \<le> 4096"
  then have "drop i cram_image = replicate (4096 - i) NUL" unfolding cram_image_def drop_append by simp
  then show "img_at cram_image i n = replicate n NUL" using h by (simp add: img_at_def)
qed

lemma le_value_Cons: "le_value (c # b) = of_char c + 256 * le_value b"
  by (simp add: le_value_def)

lemma cram_split: "fstypes = take 6 fstypes @ cram_type # drop 7 fstypes"
  by (simp add: fstypes_def cram_type_def)

lemma cram_found: "find_type cram_image 0 = Done (Some (0, cram_type))"
proof (rule find_first [OF _ cram_split])
  show "\<forall>u\<in>set (take 6 fstypes). not_at cram_image 0 u"
    by (simp add: fstypes_def fs_entry_def not_at_def magic_at_def cram_at cram_zeros le_value_Cons le_value_zeros)
qed (simp_all add: cram_type_def fs_entry_def magic_at_def cram_at le_value_def)

lemma cram_label: "cstr (take 16 (drop 48 cram_image)) = ''root''"
  by (simp add: cram_image_def cstr_def)

lemma cram_read: "do_blkid sg cram_image free_blkid_info = Done (free_blkid_info\<lparr>bi_fstype := Some ''cramfs'', bi_label := Some ''root''\<rparr>)"
proof -
  have "block cram_image 0 = cram_image" by (simp add: block_def)
  then show ?thesis
    by (simp add: do_blkid_def cram_found Let_def read_label_def label_len_def read_uuid_def cram_type_def fs_entry_def cram_label
        type_name_def sec_type_def store_def free_blkid_info_def)
qed

theorem reported_type_on_disk_witness:
  "\<exists>info. do_blkid True cram_image free_blkid_info = Done info \<and> bi_fstype info = Some ''cramfs''
    \<and> (\<exists>t\<in>set fstypes. magic_at cram_image t \<and> fs_name t = ''cramfs'')"
proof -
  have "\<exists>t\<in>set fstypes. magic_at cram_image t \<and> fs_name t = ''cramfs''"
  proof -
    have "bi_fstype (free_blkid_info\<lparr>bi_fstype := Some ''cramfs'', bi_label := Some ''root''\<rparr>) = Some ''cramfs''" by simp
    from reported_type_on_disk [OF cram_read [of True] this] obtain t where "t \<in> set fstypes" "magic_at cram_image t"
      "''cramfs'' = fs_name t \<or> fs_name t = ''ext2'' \<and> (''cramfs'' = ''ext3'' \<or> ''cramfs'' = ''ext4'')" by blast
    then show ?thesis by (intro bexI [of _ t]) auto
  qed
  then show ?thesis using cram_read [of True] by simp
qed

section \<open>The text of a UUID\<close>

fun unhex :: "string \<Rightarrow> string option" where
  "unhex [] = Some []"
| "unhex [a] = None"
| "unhex (a # b # r) = (case (xdigit a, xdigit b) of (Some v, Some w) \<Rightarrow> map_option (\<lambda>t. char_of (16 * v + w) # t) (unhex r) | _ \<Rightarrow> None)"

lemma xdigit_lower: "n < 16 \<Longrightarrow> xdigit (lower_hex n) = Some n"
  by (cases "n \<le> 9") (auto simp: xdigit_def lower_hex_def Let_def)

lemma lower_not_dash: "n < 16 \<Longrightarrow> lower_hex n \<noteq> CHR ''-''"
  using xdigit_lower [of n] by (auto simp: xdigit_def)

lemma char_halves: "(of_char c :: nat) div 16 < 16" "char_of (16 * (of_char c div 16) + (of_char c :: nat) mod 16) = c"
proof -
  have b: "(of_char c :: nat) < 256" by simp
  then show "(of_char c :: nat) div 16 < 16" by linarith
  have "(of_char c :: nat) = 16 * (of_char c div 16) + of_char c mod 16" by simp
  then show "char_of (16 * (of_char c div 16) + (of_char c :: nat) mod 16) = c" by simp
qed

lemma unhex_pairs: "unhex (concat (map (hex_pair lower_hex False) b)) = Some b"
  by (induction b) (simp_all add: hex_pair_def Let_def xdigit_lower char_halves)

lemma pair_no_dash: "filter (\<lambda>c. c \<noteq> CHR ''-'') (hex_pair lower_hex False c) = hex_pair lower_hex False c"
  by (simp add: hex_pair_def Let_def lower_not_dash char_halves)

lemma filter_uuid:
  "filter (\<lambda>c. c \<noteq> CHR ''-'') (concat (map (\<lambda>j. (if P j then ''-'' else []) @ hex_pair lower_hex False (b ! j)) js))
    = concat (map (hex_pair lower_hex False) (map (\<lambda>j. b ! j) js))"
  by (induction js) (simp_all add: pair_no_dash)

text \<open>Where \<open>char\<close> is unsigned the text of a UUID is 36 characters long and reads back as its bytes, so devices with
  different UUIDs are told apart.\<close>
theorem uuid_reads_back:
  assumes "length b = 16" "name \<noteq> ''ntfs''" "name \<noteq> ''vfat''"
  shows "unhex (filter (\<lambda>c. c \<noteq> CHR ''-'') (uuid_text False name b)) = Some b \<and> length (uuid_text False name b) = 36"
proof -
  have "map (\<lambda>j. b ! j) [0..<16] = b" using assms(1) map_nth [of b] by simp
  then have "unhex (filter (\<lambda>c. c \<noteq> CHR ''-'') (uuid_text False name b)) = Some b"
    using assms(2,3) by (simp add: uuid_text_def filter_uuid unhex_pairs del: map_map)
  moreover have "length (hex_pair lower_hex False c) = 2" for c by (simp add: hex_pair_def Let_def)
  then have "length (uuid_text False name b) = 36"
    using assms(2,3) by (simp add: uuid_text_def length_concat upt_rec [of _ 16])
  ultimately show ?thesis by blast
qed

theorem uuid_reads_back_witness:
  "unhex (filter (\<lambda>c. c \<noteq> CHR ''-'') (uuid_text False ''ext2'' ''0123456789abcdef'')) = Some ''0123456789abcdef''"
  using uuid_reads_back [of "''0123456789abcdef''" "''ext2''"] by simp

text \<open>Where \<open>char\<close> is signed a UUID of bytes from 128 on is written beyond the end of its buffer.\<close>
theorem signed_uuid_overruns:
  assumes "t \<in> set fstypes" "fs_name t \<noteq> ''ntfs''" "fs_name t \<noteq> ''vfat''" "fs_uuid_off t \<noteq> 0"
    and "off = 4096 * (fs_magic_offset t div 4096)" "off + 4096 \<le> length img" "list_all (\<lambda>c. 128 \<le> (of_char c :: nat)) (img_at img (fs_uuid_off t) 16)"
  shows "read_uuid True (block img off) off t = Fault"
proof -
  let ?b = "img_at img (fs_uuid_off t) 16"
  have u: "bytes_at (block img off) (fs_uuid_off t - off) 16 = Done ?b" using uuid_in_block [OF assms(1,5,6,4)] .
  then have "length (take 16 (drop (fs_uuid_off t - off) (block img off))) = 16" "take 16 (drop (fs_uuid_off t - off) (block img off)) = ?b"
    by (auto simp: bytes_at_def split: if_splits)
  then have l: "length ?b = 16" by simp
  have "length (hex_pair lower_hex True (?b ! j)) = 8" if "j < 16" for j
    using assms(7) l that by (simp add: hex_pair_def Let_def list_all_length)
  then have "length (uuid_text True (fs_name t) ?b) = 132"
    using assms(2,3) by (simp add: uuid_text_def length_concat upt_rec [of _ 16])
  then show ?thesis using assms(4) u by (simp add: read_uuid_def Let_def)
qed

section \<open>The device that is found\<close>

text \<open>What a partition is looked at for.\<close>

definition partition_matches :: "bool \<Rightarrow> (string \<Rightarrow> string option) \<Rightarrow> string \<Rightarrow> string \<Rightarrow> bool" where
  "partition_matches sg dev want name = (case dev (dev_path name) of None \<Rightarrow> False
     | Some img \<Rightarrow> (case do_blkid sg img free_blkid_info of Fault \<Rightarrow> False | Done i \<Rightarrow> matches want i))"

lemma do_blkid_device: "do_blkid sg img info = Done info' \<Longrightarrow> bi_device info' = bi_device info"
  by (erule do_blkid_cases) simp_all

lemma try_partitions_first:
  assumes "try_partitions sg dev ns want free_blkid_info = Done info"
  shows "bi_device info = map_option dev_path (find (partition_matches sg dev want) ns)"
  using assms
proof (induction ns)
  case (Cons n ns)
  then show ?case
    by (auto simp: partition_matches_def split: option.splits outcome.splits if_splits)
qed (auto simp: free_blkid_info_def)

text \<open>The device for a label or a UUID is the first listed one that opens and has the text as its label or as its
  UUID; there is none when no device has it.\<close>
theorem get_blkid_first:
  assumes "key_text key = Some want" "get_blkid sg dev (Some ns) key free_blkid_info = Done info"
  shows "bi_device info = map_option dev_path (find (partition_matches sg dev want) ns)"
  using assms try_partitions_first by (simp add: get_blkid_def)

theorem get_blkid_first_witness:
  "\<exists>info. get_blkid True (\<lambda>d. if d = ''/dev/sda1'' then Some cram_image else None) (Some [''sda'', ''sda1'']) ''LABEL=root'' free_blkid_info = Done info
    \<and> bi_device info = Some ''/dev/sda1''"
proof -
  let ?dev = "\<lambda>d. if d = ''/dev/sda1'' then Some cram_image else None"
  have k: "key_text ''LABEL=root'' = Some ''root''" by code_simp
  have "\<exists>info. get_blkid True ?dev (Some [''sda'', ''sda1'']) ''LABEL=root'' free_blkid_info = Done info"
    by (simp add: get_blkid_def k dev_path_def cram_read matches_def)
  moreover have "find (partition_matches True ?dev ''root'') [''sda'', ''sda1''] = Some ''sda1''"
    by (simp add: partition_matches_def dev_path_def cram_read matches_def)
  ultimately show ?thesis using get_blkid_first [OF k, of True ?dev "[''sda'', ''sda1'']"] by (auto simp: dev_path_def)
qed

theorem signed_uuid_overruns_witness:
  "read_uuid True (block (replicate 4096 xFF) 0) 0 (fs_entry ''ext2'' 0xEF53 2 1080 1128 16 1144) = Fault"
  using signed_uuid_overruns [of "fs_entry ''ext2'' 0xEF53 2 1080 1128 16 1144" 0 "replicate 4096 xFF"]
  by (simp add: fstypes_def fs_entry_def img_at_def list_all_iff)

end
