(* ===== verification/Startup.thy ===== *)
theory Startup
  imports Blkid Config
begin

text \<open>
  How the program starts: \<open>mount.c\<close>, \<open>init.c\<close>, \<open>wdt.c\<close> and \<open>tsh.c\<close>. What the kernel answers to mounts and forks, and the
  devices as they are at each moment, are parameters; what is asked of it is a list of requests.
\<close>

section \<open>Commands\<close>

text \<open>The words of a command; the array has room for 32, its end mark included.\<close>

definition cmd_words :: "string \<Rightarrow> string list" where
  "cmd_words cmd = strtok CHR '' '' (map (\<lambda>c. if c \<in> {CHR '' '', CHR 0x09, CR, LF, CHR 0x07} then CHR '' '' else c) cmd)"

definition tsh_split_cmd :: "string \<Rightarrow> string list outcome" where
  "tsh_split_cmd cmd = (let ts = take 32 (cmd_words cmd) in if length ts + 1 \<le> 32 then Done ts else Fault)"

text \<open>What \<open>fork\<close> returns is given; the parent gets it, the child runs the words.\<close>

definition tsh_run :: "int \<Rightarrow> string \<Rightarrow> (int \<times> string list) outcome" where
  "tsh_run forked cmd = (case tsh_split_cmd cmd of Fault \<Rightarrow> Fault | Done argv \<Rightarrow> Done (forked, argv))"

section \<open>Mounting the storage\<close>

datatype request = R_mkdir string nat | R_run "string list" | R_mount string string string "string option" | R_bind string string
  | R_wait | R_exit

text \<open>The devices and what is there at the \<open>i\<close>th look, and the results of mounting and of \<open>fork\<close>.\<close>

record mount_env =
  me_signed :: bool
  me_device :: "nat \<Rightarrow> string \<Rightarrow> string option"
  me_partitions :: "nat \<Rightarrow> string list option"
  me_stat :: "nat \<Rightarrow> string \<Rightarrow> bool"
  me_mount :: "string \<Rightarrow> string \<Rightarrow> string \<Rightarrow> string option \<Rightarrow> int"
  me_fork :: int

text \<open>Looking for the device, at most \<open>n\<close> times, from the \<open>i\<close>th look on.\<close>

fun wait_device :: "mount_env \<Rightarrow> string \<Rightarrow> nat \<Rightarrow> nat \<Rightarrow> blkid_info \<Rightarrow> (nat \<times> blkid_info) outcome" where
  "wait_device e key 0 i info = Done (i, info)"
| "wait_device e key (Suc n) i info =
     (case get_blkid (me_signed e) (me_device e i) (me_partitions e i) key info of Fault \<Rightarrow> Fault
      | Done info' \<Rightarrow> (if (case bi_device info' of None \<Rightarrow> False | Some d \<Rightarrow> me_stat e i d) then Done (i, info')
          else wait_device e key n (i + 1) info'))"

definition mount_storage :: "mount_env \<Rightarrow> pantavisor_storage \<Rightarrow> string \<Rightarrow> string \<Rightarrow> string \<Rightarrow> (int \<times> request list) outcome" where
  "mount_storage e c dev mnt fs = (case cs_mnttype c of
       None \<Rightarrow> Done (me_mount e dev mnt fs None, [R_mount dev mnt fs None])
     | Some ty \<Rightarrow> (case tsh_run (me_fork e) (''/btools/pvmnt.'' @ ty @ '' '' @ mnt) of Fault \<Rightarrow> Fault
        | Done (r, argv) \<Rightarrow> Done (r, [R_run argv])))"

definition mount_logs :: "mount_env \<Rightarrow> pantavisor_storage \<Rightarrow> string \<Rightarrow> int \<Rightarrow> int \<times> request list" where
  "mount_logs e c mnt r = (case cs_logtempsize c of None \<Rightarrow> (r, [])
     | Some sz \<Rightarrow> (let dir = mnt @ ''/logs''; opts = ''size='' @ sz in
         (me_mount e ''none'' dir ''tmpfs'' (Some opts), [R_mkdir dir 0x1ED, R_mount ''none'' dir ''tmpfs'' (Some opts)])))"

text \<open>\<open>exit_error\<close> ends the process. The result tells whether the function returned, which is with 0.\<close>

definition pv_mount_init :: "mount_env \<Rightarrow> pantavisor_storage \<Rightarrow> (bool \<times> request list) outcome" where
  "pv_mount_init e c = (case (cs_mntpoint c, cs_path c, cs_fstype c) of
       (Some mnt, Some key, Some fs) \<Rightarrow>
         (case wait_device e key (nat (cs_wait c)) 0 free_blkid_info of Fault \<Rightarrow> Fault
          | Done (i, info) \<Rightarrow> (let early = R_mkdir mnt 0x1ED # replicate i R_wait in
              case bi_device info of None \<Rightarrow> Done (False, early @ [R_exit])
              | Some dev \<Rightarrow>
                  (case (if fs = ''ext4'' then tsh_run (me_fork e) (''/lib/pv/pv_e2fsgrow '' @ dev) else Done (0, [])) of Fault \<Rightarrow> Fault
                   | Done (_, grow) \<Rightarrow>
                      (case mount_storage e c dev mnt fs of Fault \<Rightarrow> Fault
                       | Done (r, ms) \<Rightarrow>
                          (let front = early @ (if fs = ''ext4'' then [R_run grow] else []) @ ms in
                           if cs_mnttype c = None \<and> r < 0 then Done (False, front @ [R_exit])
                           else let (r', ls) = mount_logs e c mnt r in
                             if r' < 0 then Done (False, front @ ls @ [R_exit]) else Done (True, front @ ls))))))
     | _ \<Rightarrow> Fault)"

text \<open>\<open>ph_mount_init\<close>: \<open>there\<close> tells which directories exist.\<close>

definition ph_mount_init :: "(string \<Rightarrow> bool) \<Rightarrow> pantavisor_cache \<Rightarrow> string option \<Rightarrow> (int \<times> request list) outcome" where
  "ph_mount_init there c logdir = (case (logdir, metacachedir c, dropbearcachedir c) of
       (Some l, Some m, Some d) \<Rightarrow> Done (0,
         map (\<lambda>p. R_mkdir p 0x140) (filter (\<lambda>p. \<not> there p) [''/pv'', l, m, d]) @
         [R_mkdir ''/pv/user-meta/'' 0x1ED, R_bind m ''/pv/user-meta'', R_mkdir ''/etc/dropbear/'' 0x1ED, R_bind d ''/etc/dropbear''])
     | _ \<Rightarrow> Fault)"

section \<open>Initialisation\<close>

text \<open>The table in its order, with the flag for one that may fail; \<open>run_init\<close> gives what each of them returns.\<close>

datatype init_step = Init_config | Init_mount | Init_creds | Init_ph_mount | Init_bl | Init_config_trail | Init_log | Init_storage
  | Init_metadata | Init_ctrl | Init_network | Init_platform | Init_pantavisor

definition pv_init_tbl :: "init_step list" where
  "pv_init_tbl = [Init_config, Init_mount, Init_creds, Init_ph_mount, Init_bl, Init_config_trail, Init_log, Init_storage,
     Init_metadata, Init_ctrl, Init_network, Init_platform, Init_pantavisor]"

definition can_fail :: "init_step \<Rightarrow> bool" where
  "can_fail s \<longleftrightarrow> s = Init_network"

text \<open>The result, what was run with what it returned, and the world at the end.\<close>

fun execute_init :: "(init_step \<Rightarrow> 'w \<Rightarrow> int \<times> 'w) \<Rightarrow> init_step list \<Rightarrow> 'w \<Rightarrow> int \<times> (init_step \<times> int) list \<times> 'w" where
  "execute_init f [] w = (0, [], w)"
| "execute_init f (s # ss) w = (case f s w of (r, w') \<Rightarrow>
     (if r \<noteq> 0 \<and> \<not> can_fail s then (-1, [(s, r)], w')
      else case execute_init f ss w' of (r', tr, w'') \<Rightarrow> (r', (s, r) # tr, w'')))"

definition pv_do_execute_init :: "(init_step \<Rightarrow> 'w \<Rightarrow> int \<times> 'w) \<Rightarrow> 'w \<Rightarrow> int \<times> (init_step \<times> int) list \<times> 'w" where
  "pv_do_execute_init f w = execute_init f pv_init_tbl w"

section \<open>The first process\<close>

text \<open>The mounts that the rest needs end the program when they fail; the control groups do not.\<close>

datatype early = E_mount string string string "string option" | E_cgroup string | E_mkdir string | E_ptmx | E_fstab | E_exports

definition early_tbl :: "early list" where
  "early_tbl = [E_mount ''none'' ''/proc'' ''proc'' None, E_mount ''none'' ''/dev'' ''devtmpfs'' (Some ''size=10240k,mode=0755''),
     E_mount ''none'' ''/sys'' ''sysfs'' None, E_mkdir ''/dev/pts'', E_mount ''none'' ''/dev/pts'' ''devpts'' None, E_ptmx,
     E_mkdir ''/sys/fs/cgroup'', E_mount ''none'' ''/sys/fs/cgroup'' ''tmpfs'' None, E_mkdir ''/sys/fs/cgroup/systemd'',
     E_mount ''cgroup'' ''/sys/fs/cgroup/systemd'' ''cgroup'' (Some ''none,name=systemd''),
     E_cgroup ''blkio'', E_cgroup ''cpu,cpuacct'', E_cgroup ''cpu'', E_cgroup ''cpuset'', E_cgroup ''devices'', E_cgroup ''freezer'',
     E_cgroup ''hugetlb'', E_cgroup ''memory'', E_cgroup ''net_cls,net_prio'', E_cgroup ''net_cls'', E_cgroup ''net_prio'',
     E_cgroup ''perf_event'', E_cgroup ''pids'', E_cgroup ''rdma'', E_mkdir ''/writable'', E_fstab,
     E_mkdir ''/root'', E_mount ''none'' ''/root'' ''tmpfs'' None, E_mkdir ''/run'', E_mount ''none'' ''/run'' ''tmpfs'' None,
     E_mkdir ''/exports'', E_exports]"

definition mkcgroup :: "(string \<Rightarrow> string \<Rightarrow> string \<Rightarrow> string option \<Rightarrow> int) \<Rightarrow> string \<Rightarrow> request list" where
  "mkcgroup mnt g = [R_mkdir (''/sys/fs/cgroup/'' @ g) 0x16D, R_mount ''cgroup'' (''/sys/fs/cgroup/'' @ g) ''cgroup'' (Some g)]"

text \<open>One entry: what is asked, and whether the program goes on. \<open>shared\<close> is the second mount of \<open>/exports\<close>.\<close>

definition early_step :: "(string \<Rightarrow> string \<Rightarrow> string \<Rightarrow> string option \<Rightarrow> int) \<Rightarrow> int \<Rightarrow> bool \<Rightarrow> early \<Rightarrow> request list \<times> bool" where
  "early_step mnt shared fstab e = (case e of
       E_mount dev dir fs opts \<Rightarrow> ([R_mount dev dir fs opts], \<not> mnt dev dir fs opts < 0)
     | E_cgroup g \<Rightarrow> (mkcgroup mnt g, True)
     | E_mkdir d \<Rightarrow> ([R_mkdir d (if d = ''/root'' then 0x1C0 else if d = ''/sys/fs/cgroup/systemd'' then 0x16D else 0x1ED)], True)
     | E_ptmx \<Rightarrow> ([], True)
     | E_fstab \<Rightarrow> ((if fstab then [R_run [''mount'', ''-a'']] else []), True)
     | E_exports \<Rightarrow> (let r = mnt ''none'' ''/exports'' ''tmpfs'' None in
         if r = 0 then ([R_mount ''none'' ''/exports'' ''tmpfs'' None, R_mount ''none'' ''/exports'' ''tmpfs'' None], \<not> shared < 0)
         else ([R_mount ''none'' ''/exports'' ''tmpfs'' None], \<not> r < 0)))"

fun run_early :: "(string \<Rightarrow> string \<Rightarrow> string \<Rightarrow> string option \<Rightarrow> int) \<Rightarrow> int \<Rightarrow> bool \<Rightarrow> early list \<Rightarrow> request list" where
  "run_early mnt shared fstab [] = []"
| "run_early mnt shared fstab (e # es) = (case early_step mnt shared fstab e of (rs, go) \<Rightarrow>
     rs @ (if go then run_early mnt shared fstab es else [R_exit]))"

definition early_mounts :: "(string \<Rightarrow> string \<Rightarrow> string \<Rightarrow> string option \<Rightarrow> int) \<Rightarrow> int \<Rightarrow> bool \<Rightarrow> request list" where
  "early_mounts mnt shared fstab = run_early mnt shared fstab early_tbl"

text \<open>The executable files of the directory of hooks, in the order they are read.\<close>

definition early_spawns :: "(string \<Rightarrow> bool) \<Rightarrow> string list \<Rightarrow> string list" where
  "early_spawns executable names = filter executable
     (map (\<lambda>n. ''/lib/pv/hooks_early.spawn/'' @ n) (filter (\<lambda>n. n \<noteq> ''..'' \<and> n \<noteq> ''.'') names))"

definition is_arg :: "string list \<Rightarrow> string \<Rightarrow> bool" where
  "is_arg argv arg \<longleftrightarrow> arg \<in> set (drop 1 argv)"

record arg_flags =
  pv_standalone :: bool
  pv_debug :: bool
  pv_debug_sh :: bool

definition parse_args :: "string list \<Rightarrow> arg_flags" where
  "parse_args argv = \<lparr>pv_standalone = is_arg argv ''pv_standalone'', pv_debug = True, pv_debug_sh = \<not> is_arg argv ''splash''\<rparr>"

datatype main_step = Print_version | Print_manifest | Redirect_io | Pv_init | Early_mounts | Set_handler | Debug_shell | Debug_telnet
  | Fork | Early_spawns | Pause

text \<open>The steps of the process that runs \<open>main\<close>, and of its child if there is one. \<open>Pv_init\<close> does not return.\<close>

definition debug_tools :: "arg_flags \<Rightarrow> main_step list" where
  "debug_tools a = (if pv_debug a then (if pv_debug_sh a then [Debug_shell] else []) @ [Debug_telnet] else [])"

definition pv_main :: "bool \<Rightarrow> string list \<Rightarrow> int \<Rightarrow> main_step list \<times> main_step list option" where
  "pv_main pid1 argv forked = (let a = parse_args argv; run = debug_tools a @ [Redirect_io, Early_spawns, Pv_init] in
     if \<not> pid1 then ((if is_arg argv ''--version'' then [Print_version] else if is_arg argv ''--manifest'' then [Print_manifest]
        else [Redirect_io, Pv_init]), None)
     else if pv_standalone a \<and> pv_debug a then ([Early_mounts, Set_handler] @ debug_tools a @ [Redirect_io, Pause], None)
     else if 0 < forked then ([Early_mounts, Set_handler, Fork, Redirect_io, Pause], Some run)
     else ([Early_mounts, Set_handler, Fork] @ run, None))"

text \<open>The handler of the first process: the children that \<open>waitpid\<close> yields, each with whether it ended.\<close>

datatype reap_step = Pv_stop | Sync | Sleep nat | Reboot

definition signal_handler :: "bool \<Rightarrow> int \<Rightarrow> (int \<times> bool) list \<Rightarrow> reap_step list" where
  "signal_handler chld pv_pid reaped = (if \<not> chld then [] else
     concat (map (\<lambda>(pid, ended). if pv_pid = 0 then [] else Pv_stop # (if ended then [Sync, Sleep 10, Reboot] else []))
       (takeWhile (\<lambda>(pid, ended). 0 < pid) reaped)))"

section \<open>The watchdog\<close>

text \<open>\<open>fd\<close>, which is -1 at first; what \<open>open\<close> returns; and the requests to the device.\<close>

datatype wdt_request = Set_timeout int int | Get_timeout int | Keep_alive int

definition pv_wdt_start :: "pantavisor_watchdog \<Rightarrow> int \<Rightarrow> int \<Rightarrow> int \<times> int \<times> wdt_request list" where
  "pv_wdt_start c opened fd = (if \<not> wdt_enabled c \<or> 0 < fd then (0, fd, [])
     else if opened < 0 then (-1, opened, []) else (0, opened, [Set_timeout opened (wdt_timeout c), Get_timeout opened]))"

definition pv_wdt_kick :: "int \<Rightarrow> wdt_request list" where
  "pv_wdt_kick fd = (if fd = 0 then [] else [Keep_alive fd])"

section \<open>Facts about the storage\<close>

definition device_there :: "mount_env \<Rightarrow> nat \<Rightarrow> blkid_info \<Rightarrow> bool" where
  "device_there e i info \<longleftrightarrow> (case bi_device info of None \<Rightarrow> False | Some d \<Rightarrow> me_stat e i d)"

lemma wait_device_looks:
  assumes "wait_device e key n i info = Done (j, info')"
  shows "i \<le> j \<and> j \<le> i + n \<and> (j < i + n \<longrightarrow> device_there e j info') \<and> (0 < n \<and> j = i + n \<longrightarrow> \<not> device_there e (j - 1) info')"
  using assms
proof (induction n arbitrary: i info)
  case (Suc n)
  obtain info1 where g: "get_blkid (me_signed e) (me_device e i) (me_partitions e i) key info = Done info1"
    using Suc.prems by (auto split: outcome.splits)
  show ?case
  proof (cases "device_there e i info1")
    case True
    then show ?thesis using Suc.prems g by (auto simp: device_there_def)
  next
    case False
    then have w: "wait_device e key n (i + 1) info1 = Done (j, info')" using Suc.prems g by (simp add: device_there_def)
    show ?thesis
    proof (cases n)
      case 0
      then show ?thesis using w False by auto
    next
      case (Suc m)
      then show ?thesis using Suc.IH [OF w] by auto
    qed
  qed
qed simp

definition init_ok :: "init_step \<times> int \<Rightarrow> bool" where
  "init_ok st \<longleftrightarrow> snd st = 0 \<or> can_fail (fst st)"

lemma execute_init_runs:
  assumes "execute_init f ss w = (r, tr, w')"
  shows "(r = 0 \<and> map fst tr = ss \<and> list_all init_ok tr)
    \<or> (r = -1 \<and> (\<exists>pre st. tr = pre @ [st] \<and> list_all init_ok pre \<and> \<not> init_ok st) \<and> prefix (map fst tr) ss)"
  using assms
proof (induction ss arbitrary: w r tr w')
  case (Cons s ss)
  obtain x w1 where f: "f s w = (x, w1)" by fastforce
  show ?case
  proof (cases "x \<noteq> 0 \<and> \<not> can_fail s")
    case True
    then show ?thesis using Cons.prems f by (auto simp: init_ok_def)
  next
    case False
    obtain r1 tr1 w2 where e: "execute_init f ss w1 = (r1, tr1, w2)" using prod_cases3 by blast
    have ok: "init_ok (s, x)" using False by (auto simp: init_ok_def)
    have tr: "r = r1" "tr = (s, x) # tr1" using Cons.prems f e False by auto
    from Cons.IH [OF e] show ?thesis
    proof
      assume "r1 = 0 \<and> map fst tr1 = ss \<and> list_all init_ok tr1"
      then show ?thesis using tr ok by simp
    next
      assume h: "r1 = -1 \<and> (\<exists>pre st. tr1 = pre @ [st] \<and> list_all init_ok pre \<and> \<not> init_ok st) \<and> prefix (map fst tr1) ss"
      then obtain pre st where "tr1 = pre @ [st]" "list_all init_ok pre" "\<not> init_ok st" by blast
      then have "tr = ((s, x) # pre) @ [st]" "list_all init_ok ((s, x) # pre)" "\<not> init_ok st" using tr ok by simp_all
      then show ?thesis using h tr by (metis Cons_prefix_Cons fst_conv list.simps(9))
    qed
  qed
qed simp

text \<open>The initialisation runs the components in the order of the table. It succeeds exactly when all of them ran and
  none failed that may not, and else it stops at the first of these.\<close>
theorem init_runs_in_order:
  assumes "pv_do_execute_init f w = (r, tr, w')"
  shows "(r = 0 \<and> map fst tr = pv_init_tbl \<and> list_all init_ok tr)
    \<or> (r = -1 \<and> (\<exists>pre st. tr = pre @ [st] \<and> list_all init_ok pre \<and> \<not> init_ok st) \<and> prefix (map fst tr) pv_init_tbl)"
  using assms unfolding pv_do_execute_init_def by (rule execute_init_runs)

theorem init_runs_in_order_witness:
  "pv_do_execute_init (\<lambda>s w. (if s = Init_creds then -1 else 0, w)) () = (-1, [(Init_config, 0), (Init_mount, 0), (Init_creds, -1)], ())
    \<and> prefix [Init_config, Init_mount, Init_creds] pv_init_tbl"
proof -
  have e: "pv_do_execute_init (\<lambda>s w. (if s = Init_creds then -1 else 0, w)) () = (-1, [(Init_config, 0), (Init_mount, 0), (Init_creds, -1)], ())"
    by code_simp
  from init_runs_in_order [OF e] e show ?thesis by simp
qed

text \<open>When mounting the storage lets the program go on without a helper, the device was looked for until it was there
  or the time was over, and it was mounted at the configured place.\<close>
theorem storage_mounted:
  assumes "pv_mount_init e c = Done (True, rs)" "cs_mnttype c = None"
  shows "\<exists>mnt key fs i info dev. cs_mntpoint c = Some mnt \<and> cs_path c = Some key \<and> cs_fstype c = Some fs
    \<and> wait_device e key (nat (cs_wait c)) 0 free_blkid_info = Done (i, info) \<and> bi_device info = Some dev
    \<and> 0 \<le> me_mount e dev mnt fs None \<and> R_mount dev mnt fs None \<in> set rs
    \<and> (me_stat e i dev \<or> i = nat (cs_wait c))"
proof -
  obtain mnt key fs where k: "cs_mntpoint c = Some mnt" "cs_path c = Some key" "cs_fstype c = Some fs"
    using assms(1) by (auto simp: pv_mount_init_def split: option.splits)
  obtain i info where w: "wait_device e key (nat (cs_wait c)) 0 free_blkid_info = Done (i, info)"
    using assms(1) k by (auto simp: pv_mount_init_def split: outcome.splits)
  obtain dev where d: "bi_device info = Some dev"
    using assms(1) k w by (auto simp: pv_mount_init_def Let_def split: option.splits)
  obtain g where g: "(if fs = ''ext4'' then tsh_run (me_fork e) (''/lib/pv/pv_e2fsgrow '' @ dev) else Done (0, [])) = Done g"
    using assms(1) k w d by (auto simp: pv_mount_init_def Let_def split: outcome.splits)
  have "0 \<le> me_mount e dev mnt fs None \<and> R_mount dev mnt fs None \<in> set rs"
    using assms k w d g by (auto simp: pv_mount_init_def Let_def mount_storage_def split: prod.splits if_splits)
  moreover have "me_stat e i dev \<or> i = nat (cs_wait c)"
    using wait_device_looks [OF w] d by (auto simp: device_there_def split: if_splits)
  ultimately show ?thesis using k w d by blast
qed

theorem storage_mounted_witness:
  "\<exists>rs. R_mount ''/dev/sda1'' ''/storage'' ''ext2'' None \<in> set rs \<and> pv_mount_init
     \<lparr>me_signed = True, me_device = (\<lambda>i d. None), me_partitions = (\<lambda>i. None), me_stat = (\<lambda>i d. i = 1), me_mount = (\<lambda>a b c d. 0), me_fork = 7\<rparr>
     \<lparr>cs_path = Some ''/dev/sda1'', cs_fstype = Some ''ext2'', cs_opts = None, cs_mntpoint = Some ''/storage'', cs_mnttype = None,
       cs_logtempsize = None, cs_wait = 5,
       cs_gc = \<lparr>gc_reserved = 5, gc_keep_factory = False, gc_threshold = 0, gc_defertime = 0\<rparr>\<rparr> = Done (True, rs)"
proof -
  let ?e = "\<lparr>me_signed = True, me_device = (\<lambda>i d. None), me_partitions = (\<lambda>i. None), me_stat = (\<lambda>i d. i = 1),
    me_mount = (\<lambda>a b c d. 0), me_fork = 7\<rparr>"
  let ?c = "\<lparr>cs_path = Some ''/dev/sda1'', cs_fstype = Some ''ext2'', cs_opts = None, cs_mntpoint = Some ''/storage'', cs_mnttype = None,
    cs_logtempsize = None, cs_wait = 5,
       cs_gc = \<lparr>gc_reserved = 5, gc_keep_factory = False, gc_threshold = 0, gc_defertime = 0\<rparr>\<rparr>"
  have k: "key_text ''/dev/sda1'' = None" by code_simp
  have "wait_device ?e ''/dev/sda1'' 5 0 free_blkid_info = Done (1, free_blkid_info\<lparr>bi_device := Some ''/dev/sda1''\<rparr>)"
    by (simp add: numeral_eq_Suc get_blkid_def k free_blkid_info_def)
  then have "pv_mount_init ?e ?c = Done (True, [R_mkdir ''/storage'' 0x1ED, R_wait, R_mount ''/dev/sda1'' ''/storage'' ''ext2'' None])"
    by (simp add: pv_mount_init_def Let_def mount_storage_def mount_logs_def)
  from storage_mounted [OF this] this show ?thesis by auto
qed

end
