(* ===== verification/Files.thy ===== *)
theory Files
  imports Config StateData
begin

text \<open>
  \<open>utils/fops.c\<close>: attributes of files, reading and writing that goes on after interruptions, locks, compressing and copying;
  and from \<open>pvlogger.c\<close> the position that a logger saves in an attribute and how it starts. What the
  kernel answers is a parameter: the answers come in a list, and \<open>None\<close> is that it ends before the function does.
\<close>

section \<open>Attributes\<close>

datatype xattr = Present string | No_data | Xattr_error int

text \<open>\<open>failed\<close> is the error number of setting the attribute. The result, whether it was to be created, and the attribute.\<close>

definition pv_fops_set_file_xattr :: "int option \<Rightarrow> string \<Rightarrow> xattr \<Rightarrow> int \<times> bool \<times> xattr" where
  "pv_fops_set_file_xattr failed v a = (case failed of Some e \<Rightarrow> (- e, a = No_data, a) | None \<Rightarrow> (0, a = No_data, Present v))"

text \<open>\<open>room\<close> is what \<open>dst\<close> points to; with \<open>alloc\<close> it is made by it, unless that fails. The result and the bytes that were put there: no NUL
  follows them.\<close>

definition pv_fops_get_file_xattr :: "nat \<Rightarrow> (nat \<Rightarrow> bool) option \<Rightarrow> xattr \<Rightarrow> (int \<times> string) outcome" where
  "pv_fops_get_file_xattr room alloc a = (case a of No_data \<Rightarrow> Done (-61, []) | Xattr_error e \<Rightarrow> Done (- e, [])
     | Present v \<Rightarrow> (if v = [] then Done (0, [])
         else case alloc of None \<Rightarrow> (if length v \<le> room then Done (int (length v), v) else Fault)
           | Some f \<Rightarrow> Done (int (length v), if f (length v + 1) then v else [])))"

section \<open>Reading and writing\<close>

text \<open>What a write returns: a number of bytes, an interruption or an error.\<close>

datatype write_result = Wrote nat | Interrupted | Write_error

text \<open>What was written and what is left.\<close>

fun write_all :: "string \<Rightarrow> write_result list \<Rightarrow> (string \<times> string) option" where
  "write_all buf rs = (if buf = [] then Some ([], [])
     else case rs of [] \<Rightarrow> None
       | Write_error # _ \<Rightarrow> Some ([], buf)
       | Interrupted # rs' \<Rightarrow> write_all buf rs'
       | Wrote n # rs' \<Rightarrow> map_option (\<lambda>(sent, left). (take n buf @ sent, left)) (write_all (drop n buf) rs'))"

declare write_all.simps [simp del]

definition pv_fops_write_nointr :: "string \<Rightarrow> write_result list \<Rightarrow> int option" where
  "pv_fops_write_nointr buf rs = map_option (\<lambda>(sent, left). int (length sent)) (write_all buf rs)"

datatype read_result = Got string | Read_interrupted | Read_error

fun pv_fops_read_nointr :: "nat \<Rightarrow> read_result list \<Rightarrow> string option" where
  "pv_fops_read_nointr len rs = (if len = 0 then Some []
     else case rs of [] \<Rightarrow> None
       | Read_error # _ \<Rightarrow> Some []
       | Read_interrupted # rs' \<Rightarrow> pv_fops_read_nointr len rs'
       | Got b # rs' \<Rightarrow> (if b = [] then Some [] else map_option ((@) b) (pv_fops_read_nointr (len - length b) rs')))"

declare pv_fops_read_nointr.simps [simp del]

section \<open>Locks, compressing, opening, copying\<close>

text \<open>The results of \<open>fcntl\<close>, each with whether it was interrupted.\<close>

fun pv_fops_lock_file :: "(int \<times> bool) list \<Rightarrow> int option" where
  "pv_fops_lock_file [] = None"
| "pv_fops_lock_file ((r, intr) # rs) = (if r < 0 \<and> intr then pv_fops_lock_file rs else Some r)"

definition pv_fops_unlock_file :: "(int \<times> bool) list \<Rightarrow> int option" where
  "pv_fops_unlock_file rs = pv_fops_lock_file rs"

text \<open>The descriptor, and the ones that are closed.\<close>

definition pv_fops_open_and_lock_file :: "int \<Rightarrow> (int \<times> bool) list \<Rightarrow> (int \<times> int list) option" where
  "pv_fops_open_and_lock_file fd rs = (if fd < 0 then Some (-1, [fd])
     else map_option (\<lambda>r. if r \<noteq> 0 then (-1, [fd]) else (fd, [])) (pv_fops_lock_file rs))"

text \<open>What the command \<open>gzip\<close> does to a file: what it prints, which goes to the target, and the file after it. The result,
  the target if it could be opened, and the file.\<close>

type_synonym gzip_cmd = "string option \<Rightarrow> string \<times> string option"

definition pv_fops_gzip_file :: "gzip_cmd \<Rightarrow> bool \<Rightarrow> string option \<Rightarrow> int \<times> string option \<times> string option" where
  "pv_fops_gzip_file gz opens file = (if opens then (0, Some (fst (gz file)), snd (gz file)) else (-1, None, file))"

definition pv_fops_check_and_open_file :: "string option \<Rightarrow> (string \<Rightarrow> bool) \<Rightarrow> (string \<Rightarrow> int) \<Rightarrow> int" where
  "pv_fops_check_and_open_file fname there opened = (case fname of None \<Rightarrow> -1 | Some f \<Rightarrow> (if there f then opened f else -1))"

text \<open>The blocks that are read, each with the number of bytes that the write of it takes, and whether reading ended with an
  error. The result, and what is in the target.\<close>

definition pv_fops_copy_and_close :: "(string \<times> nat) list \<Rightarrow> bool \<Rightarrow> int \<times> string" where
  "pv_fops_copy_and_close blocks failed = (if failed then -1 else 0, concat (map (\<lambda>(b, n). take n b) blocks))"

section \<open>The position of a logger\<close>

definition pv_logger_get_logfile :: "log_info \<Rightarrow> string" where
  "pv_logger_get_logfile l = (case l_logfile l of None \<Rightarrow> ''/var/log/messages'' | Some f \<Rightarrow> f)"

definition set_logger_xattr :: "int option \<Rightarrow> int \<Rightarrow> xattr \<Rightarrow> int \<times> xattr" where
  "set_logger_xattr failed pos a = (if pos < 0 then (0, a)
     else case pv_fops_set_file_xattr failed (take 31 (show_int pos)) a of (r, _, a') \<Rightarrow> (r, a'))"

text \<open>\<open>junk\<close> is what the 32 bytes of \<open>buf\<close> hold before. The number is read from whatever stands there.\<close>

definition get_logger_xattr :: "string \<Rightarrow> xattr \<Rightarrow> int outcome" where
  "get_logger_xattr junk a = (case pv_fops_get_file_xattr 32 None a of Fault \<Rightarrow> Fault
     | Done (r, v) \<Rightarrow> (if r < 0 then Done 0
         else let buf = v @ drop (length v) junk in
           if NUL \<notin> set buf \<and> list_all is_digit (dropWhile is_space buf) then Fault else Done (atoi (cstr buf))))"

text \<open>Where the log file is read from; \<open>flen\<close> is its length if that is known.\<close>

definition pvlogger_start :: "string \<Rightarrow> xattr \<Rightarrow> int option \<Rightarrow> bool \<Rightarrow> (bool \<times> int option) outcome" where
  "pvlogger_start junk a flen was_init_ok = (if \<not> was_init_ok then Done (False, None)
     else case get_logger_xattr junk a of Fault \<Rightarrow> Fault
     | Done pos \<Rightarrow> Done (True, Some (case flen of None \<Rightarrow> pos | Some n \<Rightarrow> if n < pos then 0 else pos)))"

text \<open>The name of the file: the one behind the last slash.\<close>

definition file_name :: "string \<Rightarrow> string" where
  "file_name p = (case strrchr p CHR ''/'' of None \<Rightarrow> p | Some i \<Rightarrow> drop (i + 1) p)"

text \<open>Whether the file is there; and whether a second was waited.\<close>

definition wait_for_logfile :: "(string \<Rightarrow> bool) \<Rightarrow> string option \<Rightarrow> bool \<times> bool" where
  "wait_for_logfile there logfile = (case logfile of None \<Rightarrow> (False, False)
     | Some f \<Rightarrow> (let n = file_name f in
         if n = [] \<or> hd n = CHR ''/'' \<or> hd n = CHR ''.'' then (False, False)
         else if there f then (True, False) else (False, True)))"

text \<open>The loop of a logger: it sets up the log, waits for the file, or reads it; it never ends. Each answer is of the call that
  is made at that point.\<close>

datatype logger_at = At_init | At_wait | At_flush

fun logger_step :: "logger_at \<Rightarrow> bool \<Rightarrow> logger_at" where
  "logger_step At_init good = (if good then At_flush else At_wait)"
| "logger_step At_wait good = (if good then At_init else At_wait)"
| "logger_step At_flush good = (if good then At_flush else At_init)"

text \<open>The result when the logger ends at once: -1 for a path that is not absolute, 0 without a description.\<close>

definition start_pvlogger :: "log_info option \<Rightarrow> bool list \<Rightarrow> int option \<times> logger_at" where
  "start_pvlogger lo answers = (case lo of None \<Rightarrow> (Some 0, At_init)
     | Some l \<Rightarrow> (if pv_logger_get_logfile l = [] \<or> hd (pv_logger_get_logfile l) \<noteq> CHR ''/'' then (Some (-1), At_init)
         else (None, foldl logger_step At_init answers)))"

section \<open>Facts\<close>

lemma write_all_split: "write_all buf rs = Some (sent, left) \<Longrightarrow> sent @ left = buf"
proof (induction buf rs arbitrary: sent left rule: write_all.induct)
  case (1 buf rs)
  show ?case
  proof (cases "buf = []")
    case False
    with 1 show ?thesis
      by (cases rs) (auto simp: write_all.simps [of buf] split: write_result.splits)
  qed (use 1 in \<open>simp add: write_all.simps\<close>)
qed

text \<open>Reading yields at most what was asked for when the kernel does, and all of it unless the file ends or fails.\<close>

lemma read_nointr_length:
  "list_all (\<lambda>r. case r of Got b \<Rightarrow> length b \<le> len | _ \<Rightarrow> True) rs \<Longrightarrow> len = 0 \<Longrightarrow> pv_fops_read_nointr len rs = Some []"
  by (simp add: pv_fops_read_nointr.simps)

lemma digits_val_append: "ds = [] \<or> \<not> is_digit (hd ds) \<Longrightarrow> list_all is_digit v \<Longrightarrow> digits_val (v @ ds) = digits_val v"
proof -
  assume a: "ds = [] \<or> \<not> is_digit (hd ds)" "list_all is_digit v"
  then have "takeWhile is_digit (v @ ds) = v" "takeWhile is_digit v = v"
    by (cases ds; simp add: list_all_iff takeWhile_eq_all_conv)+
  then show ?thesis by (simp only: digits_val_def)
qed

lemma atoi_show_append:
  assumes "0 \<le> pos" "ds = [] \<or> \<not> is_digit (hd ds)"
  shows "atoi (show_int pos @ ds) = pos"
proof -
  obtain c r where v: "show_nat (nat pos) = c # r" by (cases "show_nat (nat pos)") auto
  have d: "list_all is_digit (c # r)" using show_nat_digits [of _ "nat pos"] by (simp add: list_all_iff flip: v)
  then have "\<not> is_space c" "c \<noteq> CHR ''-''" "c \<noteq> CHR ''+''" using is_digit_not_special [of c] by auto
  then have "atoi (show_int pos @ ds) = int (digits_val (show_nat (nat pos) @ ds))" using assms(1) by (simp add: atoi_def show_int_def v)
  also have "\<dots> = int (digits_val (show_nat (nat pos)))" using digits_val_append [OF assms(2), of "c # r"] d by (simp add: v)
  finally show ?thesis using assms(1) by (simp add: digits_val_show_nat)
qed

lemma length_show_nat_8: "n < 10 ^ k \<Longrightarrow> 0 < k \<Longrightarrow> length (show_nat n) \<le> k"
proof (induction k arbitrary: n)
  case (Suc k)
  show ?case
  proof (cases "n < 10")
    case True
    then show ?thesis by (subst show_nat.simps) simp
  next
    case False
    then have "n div 10 < 10 ^ k" "0 < k" using Suc.prems(1) by (cases k; auto)+
    from Suc.IH [OF this] False show ?thesis by (subst show_nat.simps) simp
  qed
qed simp

text \<open>A logger goes on where it stopped: the position that it saved is the one from which it reads after a restart, or the
  beginning when the file has become shorter; provided that no digit happens to stand in the uninitialised buffer behind the number.\<close>
theorem logger_resumes:
  assumes "0 \<le> pos" "pos < 10 ^ 18" "length junk = 32" "\<not> is_digit (junk ! length (show_int pos))"
  shows "fst (set_logger_xattr None pos a) = 0
    \<and> pvlogger_start junk (snd (set_logger_xattr None pos a)) (Some flen) True = Done (True, Some (if flen < pos then 0 else pos))"
proof -
  have len: "length (show_int pos) \<le> 18" using assms(1,2) length_show_nat_8 [of "nat pos" 18] by (simp add: show_int_def nat_less_iff)
  then have t: "take 31 (show_int pos) = show_int pos" by simp
  let ?c = "junk ! length (show_int pos)"
  obtain ds where rest: "drop (length (show_int pos)) junk = ?c # ds"
  proof -
    have "length (show_int pos) < length junk" using len assms(3) by linarith
    from Cons_nth_drop_Suc [OF this, symmetric] show ?thesis by (rule that)
  qed
  have nn: "\<forall>c\<in>set (show_int pos). c \<noteq> NUL" using assms(1) no_nul_show_nat [of "nat pos"] by (auto simp: show_int_def no_nul_def)
  have "cstr (show_int pos @ ?c # ds) = show_int pos @ cstr (?c # ds)" using nn by (simp add: cstr_def)
  then have v: "atoi (cstr (show_int pos @ ?c # ds)) = pos"
    using atoi_show_append [OF assms(1), of "cstr (?c # ds)"] assms(4) by (simp add: cstr_def)
  have "\<not> list_all is_digit (dropWhile is_space (show_int pos @ ?c # ds))"
    using assms(4) is_digit_not_special [of "hd (show_int pos)"] show_nat_digits [of "hd (show_nat (nat pos))" "nat pos"] assms(1)
    by (cases "show_nat (nat pos)") (auto simp: show_int_def list_all_iff)
  moreover have "show_int pos \<noteq> []" using assms(1) by (simp add: show_int_def)
  ultimately show ?thesis
    using assms(1) len v
    by (simp add: set_logger_xattr_def pv_fops_set_file_xattr_def t pvlogger_start_def get_logger_xattr_def pv_fops_get_file_xattr_def Let_def rest)
qed

theorem logger_resumes_witness:
  "pvlogger_start (replicate 32 NUL) (snd (set_logger_xattr None 4096 No_data)) (Some 5000) True = Done (True, Some 4096)
    \<and> pvlogger_start (replicate 32 NUL) (snd (set_logger_xattr None 4096 No_data)) (Some 10) True = Done (True, Some 0)"
proof -
  have "length (show_int 4096) \<le> 18" using length_show_nat_8 [of "nat 4096" 18] by (simp add: show_int_def)
  then have "\<not> is_digit (replicate 32 NUL ! length (show_int 4096))" by (simp add: is_digit_def)
  then show ?thesis
    using logger_resumes [of 4096 "replicate 32 NUL" No_data 5000] logger_resumes [of 4096 "replicate 32 NUL" No_data 10] by simp
qed

text \<open>A digit that happens to stand there becomes part of the position.\<close>

lemma position_with_junk:
  "get_logger_xattr (CHR ''9'' # CHR ''9'' # CHR ''9'' # replicate 29 NUL) (Present ''12'') = Done 129"
  by (simp add: get_logger_xattr_def pv_fops_get_file_xattr_def cstr_def Let_def atoi_def digits_val_def is_digit_def is_space_def)

text \<open>Copying reports success although the writes were short.\<close>

lemma short_copy_succeeds: "pv_fops_copy_and_close [(''abcd'', 1)] False = (0, ''a'')"
  by (simp add: pv_fops_copy_and_close_def)

lemma full_copy: "\<forall>(b, n) \<in> set blocks. length b \<le> n \<Longrightarrow> pv_fops_copy_and_close blocks False = (0, concat (map fst blocks))"
  by (induction blocks) (auto simp: pv_fops_copy_and_close_def)

end
