(* ===== verification/Logs.thy ===== *)
theory Logs
  imports LogMsg Files
begin

text \<open>
  \<open>log.c\<close>: the pool of buffers that the program shares, and its own log file with its archives. A buffer is an
  address with its size; the free lists are lists in their order, and a buffer that is on none is held by somebody.
\<close>

section \<open>The pool of buffers\<close>

record log_buffer =
  lb_addr :: nat
  lb_size :: int

record log_pool =
  log_buffer_list :: "log_buffer list"
  log_buffer_list_double :: "log_buffer list"

definition pv_log_get_buffer :: "bool \<Rightarrow> log_pool \<Rightarrow> log_buffer option \<times> log_pool" where
  "pv_log_get_buffer large p =
     (if large then (case log_buffer_list_double p of [] \<Rightarrow> (None, p) | b # bs \<Rightarrow> (Some b, p\<lparr>log_buffer_list_double := bs\<rparr>))
      else case log_buffer_list p of [] \<Rightarrow> (None, p) | b # bs \<Rightarrow> (Some b, p\<lparr>log_buffer_list := bs\<rparr>))"

definition pv_log_put_buffer :: "int \<Rightarrow> log_buffer option \<Rightarrow> log_pool \<Rightarrow> log_pool" where
  "pv_log_put_buffer logsize bo p = (case bo of None \<Rightarrow> p
     | Some b \<Rightarrow> (if b \<in> set (log_buffer_list p) \<union> set (log_buffer_list_double p) then p
         else if logsize = lb_size b then p\<lparr>log_buffer_list := b # log_buffer_list p\<rparr>
         else p\<lparr>log_buffer_list_double := b # log_buffer_list_double p\<rparr>))"

definition pv_log_alloc_buffer :: "nat \<Rightarrow> int \<Rightarrow> log_buffer option" where
  "pv_log_alloc_buffer addr sz = (if sz \<le> 0 then None else Some \<lparr>lb_addr = addr, lb_size = sz\<rparr>)"

definition MAX_BUFFER_COUNT :: nat where "MAX_BUFFER_COUNT = 10"

text \<open>The new list of buffers, at the addresses from \<open>addr\<close> on; the old ones are released.\<close>

definition pv_log_init_buf_cache :: "nat \<Rightarrow> int \<Rightarrow> nat \<Rightarrow> log_buffer list" where
  "pv_log_init_buf_cache items sz addr =
     rev (take MAX_BUFFER_COUNT (List.map_filter (\<lambda>i. pv_log_alloc_buffer (addr + i) sz) [0..<items]))"

definition log_pool_init :: "int \<Rightarrow> log_pool" where
  "log_pool_init logsize = \<lparr>log_buffer_list = pv_log_init_buf_cache MAX_BUFFER_COUNT logsize 0,
     log_buffer_list_double = pv_log_init_buf_cache MAX_BUFFER_COUNT (logsize * 2) MAX_BUFFER_COUNT\<rparr>"

section \<open>The log file\<close>

definition LOG_MAX_FILE_SIZE :: int where "LOG_MAX_FILE_SIZE = 2 * 1024 * 1024"

text \<open>The file if it is there, what is in its three archives, and the notes of those that did not get the lock.\<close>

record log_state =
  lg_dir :: "string option"
  lg_file :: "string option"
  lg_gzip :: "string option list"
  lg_errors :: "string list"

definition log_line :: "string \<Rightarrow> string \<Rightarrow> string \<Rightarrow> string \<Rightarrow> string" where
  "log_line stamp level module msg = ''[pantavisor] '' @ stamp @ level @ CHR 0x09 # '' -- ['' @ module @ '']: '' @ msg @ [LF]"

definition level_text :: "int \<Rightarrow> string outcome" where
  "level_text level = (if level < 0 \<or> 5 \<le> level then Fault else Done (level_names ! nat level))"

text \<open>The file is compressed into every archive that is not there yet, one after the other, with the command \<open>gz\<close>.\<close>

fun fill_archives :: "gzip_cmd \<Rightarrow> string option list \<Rightarrow> string option \<Rightarrow> string option list \<times> string option" where
  "fill_archives gz [] file = ([], file)"
| "fill_archives gz (Some t # gs) file = (case fill_archives gz gs file of (gs', file') \<Rightarrow> (Some t # gs', file'))"
| "fill_archives gz (None # gs) file = (case pv_fops_gzip_file gz True file of (r, g, file1) \<Rightarrow>
     (case fill_archives gz gs file1 of (gs', file') \<Rightarrow> (g # gs', file')))"

text \<open>Only an open file is cut; it may have gone from its place.\<close>

definition rotate_log :: "gzip_cmd \<Rightarrow> int \<Rightarrow> bool \<Rightarrow> log_state \<Rightarrow> log_state" where
  "rotate_log gz maxsize opens st = (case lg_file st of None \<Rightarrow> st
     | Some t \<Rightarrow> (if int (length t) < maxsize then st
         else case fill_archives gz (lg_gzip st) (Some t) of (gs, file) \<Rightarrow>
           st\<lparr>lg_gzip := gs, lg_file := (if opens then map_option (\<lambda>_. []) file else file)\<rparr>))"

text \<open>\<open>opens\<close>: the file opens; \<open>locked\<close>: the lock was taken; \<open>fresh\<close>: the file for a note could be created.\<close>

record log_call =
  lc_opens :: bool
  lc_locked :: bool
  lc_fresh :: bool
  lc_now :: int
  lc_name :: string
  lc_error :: "int \<times> string"

text \<open>The note of a process that did not get the lock begins with its name and the error.\<close>

definition error_note :: "log_call \<Rightarrow> string" where
  "error_note k = ''process '' @ lc_name k @ '' couldn'' @ CHR 0x27 # ''t acquire pantavisor.log lock'' @ [LF] @
     ''error code '' @ show_int (fst (lc_error k)) @ '': '' @ snd (lc_error k) @ [LF]"

definition vlog :: "gzip_cmd \<Rightarrow> int \<Rightarrow> log_call \<Rightarrow> string \<Rightarrow> int \<Rightarrow> string \<Rightarrow> log_state \<Rightarrow> log_state outcome" where
  "vlog gz maxsize k module level msg st =
     (if lg_dir st = None then Done st
      else if \<not> lc_opens k then Done (rotate_log gz maxsize False st)
      else let st1 = st\<lparr>lg_file := Some (case lg_file st of None \<Rightarrow> [] | Some t \<Rightarrow> t)\<rparr> in
        if \<not> lc_locked k \<and> \<not> lc_fresh k then Done st1
        else case level_text level of Fault \<Rightarrow> Fault
        | Done l \<Rightarrow>
           (if \<not> lc_locked k then Done (st1\<lparr>lg_errors := lg_errors st @ [error_note k @ log_line [] l module msg]\<rparr>)
            else let st2 = rotate_log gz maxsize True st1 in
              Done (st2\<lparr>lg_file := map_option (\<lambda>t. t @ log_line (show_int (lc_now k) @ '' '') l module msg) (lg_file st2)\<rparr>)))"

definition pv_log :: "gzip_cmd \<Rightarrow> int \<Rightarrow> bool \<Rightarrow> int \<Rightarrow> log_call \<Rightarrow> string \<Rightarrow> int \<Rightarrow> string \<Rightarrow> log_state \<Rightarrow> log_state outcome" where
  "pv_log gz loglevel own_pid maxsize k module level msg st =
     (if level > loglevel \<or> \<not> own_pid then Done st else vlog gz maxsize k module level msg st)"

text \<open>What the HTTP library logs is written as \<open>DEBUG\<close>.\<close>

definition libthttp_log :: "gzip_cmd \<Rightarrow> int \<Rightarrow> bool \<Rightarrow> int \<Rightarrow> log_call \<Rightarrow> int \<Rightarrow> string \<Rightarrow> log_state \<Rightarrow> log_state outcome" where
  "libthttp_log gz loglevel own_pid maxsize k level msg st =
     (if level > loglevel \<or> \<not> own_pid then Done st else vlog gz maxsize k ''libthttp'' 4 msg st)"

definition pv_log_level_name :: "int \<Rightarrow> string" where
  "pv_log_level_name level = (if level < 0 \<or> 5 \<le> level then ''UNDEFINED'' else level_names ! nat level)"

text \<open>The directory has 128 bytes, but is written with the size of a path.\<close>

definition pv_log_set_log_dir :: "(string \<Rightarrow> bool) \<Rightarrow> string \<Rightarrow> log_state \<Rightarrow> (int \<times> log_state) outcome" where
  "pv_log_set_log_dir mkdir rv st = (let dir = ''/pv/logs/'' @ rv @ ''/pantavisor'' in
     if 128 < length dir + 1 then Fault
     else Done (if mkdir dir then 0 else -1, st\<lparr>lg_dir := Some dir\<rparr>))"

definition pv_log_start :: "bool \<Rightarrow> (string \<Rightarrow> bool) \<Rightarrow> string \<Rightarrow> log_state \<Rightarrow> (int \<times> log_state) outcome" where
  "pv_log_start capture mkdir rv st = (if \<not> capture then Done (0, st) else pv_log_set_log_dir mkdir rv st)"

section \<open>Buffers are not shared\<close>

text \<open>Users of the pool: taking a buffer and giving one back, which may happen twice by mistake.\<close>

datatype pool_op = Get bool | Put log_buffer

fun pool_step :: "int \<Rightarrow> pool_op \<Rightarrow> log_pool \<times> log_buffer set \<Rightarrow> log_pool \<times> log_buffer set" where
  "pool_step n (Get large) (p, held) = (case pv_log_get_buffer large p of (None, p') \<Rightarrow> (p', held) | (Some b, p') \<Rightarrow> (p', insert b held))"
| "pool_step n (Put b) (p, held) = (pv_log_put_buffer n (Some b) p, held - {b})"

definition pool_run :: "int \<Rightarrow> pool_op list \<Rightarrow> log_pool \<times> log_buffer set \<Rightarrow> log_pool \<times> log_buffer set" where
  "pool_run n ops s = foldl (\<lambda>s x. pool_step n x s) s ops"

definition pool_all :: "int \<Rightarrow> log_buffer set" where
  "pool_all n = set (log_buffer_list (log_pool_init n)) \<union> set (log_buffer_list_double (log_pool_init n))"

definition pool_ok :: "int \<Rightarrow> log_pool \<times> log_buffer set \<Rightarrow> bool" where
  "pool_ok n s \<longleftrightarrow> (case s of (p, held) \<Rightarrow>
     distinct (log_buffer_list p @ log_buffer_list_double p)
     \<and> set (log_buffer_list p) \<union> set (log_buffer_list_double p) \<union> held = pool_all n
     \<and> held \<inter> (set (log_buffer_list p) \<union> set (log_buffer_list_double p)) = {}
     \<and> (\<forall>b\<in>set (log_buffer_list p). lb_size b = n) \<and> (\<forall>b\<in>set (log_buffer_list_double p). lb_size b = n * 2))"

lemma cache_init: "0 < sz \<Longrightarrow> pv_log_init_buf_cache 10 sz addr = rev (map (\<lambda>i. \<lparr>lb_addr = addr + i, lb_size = sz\<rparr>) [0..<10])"
proof -
  assume "0 < sz"
  then have "List.map_filter (\<lambda>i. pv_log_alloc_buffer (addr + i) sz) js = map (\<lambda>i. \<lparr>lb_addr = addr + i, lb_size = sz\<rparr>) js" for js
    by (induction js) (simp_all add: List.map_filter_simps pv_log_alloc_buffer_def)
  then show ?thesis by (simp add: pv_log_init_buf_cache_def MAX_BUFFER_COUNT_def)
qed

lemma pool_init_lists:
  assumes "0 < n"
  shows "log_buffer_list (log_pool_init n) = rev (map (\<lambda>i. \<lparr>lb_addr = i, lb_size = n\<rparr>) [0..<10])"
    "log_buffer_list_double (log_pool_init n) = rev (map (\<lambda>i. \<lparr>lb_addr = 10 + i, lb_size = n * 2\<rparr>) [0..<10])"
  using assms cache_init [of n 0] cache_init [of "n * 2" 10] by (simp_all add: log_pool_init_def MAX_BUFFER_COUNT_def)

lemma pool_init_ok:
  assumes "0 < n"
  shows "pool_ok n (log_pool_init n, {})"
proof -
  have "distinct (rev (map (\<lambda>i. \<lparr>lb_addr = i, lb_size = n\<rparr>) [0..<10]))"
    "distinct (rev (map (\<lambda>i. \<lparr>lb_addr = 10 + i, lb_size = n * 2\<rparr>) [0..<10]))"
    by (simp_all only: distinct_rev distinct_map) (auto simp: inj_on_def)
  then show ?thesis unfolding pool_ok_def pool_all_def pool_init_lists [OF assms] prod.case distinct_append
    by (auto simp del: upt_Suc)
qed

lemma pool_sizes: "0 < n \<Longrightarrow> b \<in> pool_all n \<Longrightarrow> lb_size b = n \<or> lb_size b = n * 2"
  unfolding pool_all_def using pool_init_lists [of n] by auto

definition op_known :: "int \<Rightarrow> pool_op \<Rightarrow> bool" where
  "op_known n x \<longleftrightarrow> (case x of Get l \<Rightarrow> True | Put b \<Rightarrow> b \<in> pool_all n)"

lemma pool_take:
  assumes "distinct (xs @ b # ys)" "set xs \<union> set (b # ys) \<union> held = A" "held \<inter> (set xs \<union> set (b # ys)) = {}"
  shows "distinct (xs @ ys)" "set xs \<union> set ys \<union> insert b held = A" "insert b held \<inter> (set xs \<union> set ys) = {}"
proof -
  show "distinct (xs @ ys)" using assms(1) by simp
  show "set xs \<union> set ys \<union> insert b held = A" using assms(2) by auto
  have "b \<notin> set xs" "b \<notin> set ys" using assms(1) by auto
  then show "insert b held \<inter> (set xs \<union> set ys) = {}" using assms(3) by auto
qed

lemma pool_give:
  assumes "distinct (xs @ ys)" "set xs \<union> set ys \<union> held = A" "held \<inter> (set xs \<union> set ys) = {}" "b \<in> A" "b \<notin> set xs \<union> set ys"
  shows "distinct (xs @ b # ys)" "set xs \<union> set (b # ys) \<union> (held - {b}) = A" "(held - {b}) \<inter> (set xs \<union> set (b # ys)) = {}"
proof -
  show "distinct (xs @ b # ys)" using assms(1,5) by simp
  show "set xs \<union> set (b # ys) \<union> (held - {b}) = A" using assms(2,4) by auto
  show "(held - {b}) \<inter> (set xs \<union> set (b # ys)) = {}" using assms(3) by auto
qed

lemma pool_swap: "distinct (xs @ ys) \<longleftrightarrow> distinct (ys @ xs)"
  by (auto simp: disjoint_iff)

lemma pool_get_ok:
  assumes "pool_ok n (p, held)"
  shows "pool_ok n (pool_step n (Get large) (p, held))"
proof -
  let ?S = "log_buffer_list p" and ?D = "log_buffer_list_double p"
  have ok: "distinct (?S @ ?D)" "set ?S \<union> set ?D \<union> held = pool_all n" "held \<inter> (set ?S \<union> set ?D) = {}"
    "\<forall>b\<in>set ?S. lb_size b = n" "\<forall>b\<in>set ?D. lb_size b = n * 2" using assms unfolding pool_ok_def prod.case by blast+
  show ?thesis
  proof (cases large)
    case True
    show ?thesis
    proof (cases ?D)
      case Nil
      then show ?thesis using True assms by (simp add: pv_log_get_buffer_def)
    next
      case (Cons b bs)
      then have e: "pool_step n (Get large) (p, held) = (p\<lparr>log_buffer_list_double := bs\<rparr>, insert b held)"
        using True by (simp add: pv_log_get_buffer_def)
      show ?thesis using pool_take [OF ok(1-3) [unfolded Cons]] ok(4,5) Cons unfolding e pool_ok_def prod.case by simp
    qed
  next
    case False
    show ?thesis
    proof (cases ?S)
      case Nil
      then show ?thesis using False assms by (simp add: pv_log_get_buffer_def)
    next
      case (Cons b bs)
      then have e: "pool_step n (Get large) (p, held) = (p\<lparr>log_buffer_list := bs\<rparr>, insert b held)"
        using False by (simp add: pv_log_get_buffer_def)
      have "distinct (?D @ b # bs)" using ok(1) Cons pool_swap by metis
      from pool_take [OF this, of held "pool_all n"] ok(2,3) Cons
      have "distinct (?D @ bs)" "set ?D \<union> set bs \<union> insert b held = pool_all n" "insert b held \<inter> (set ?D \<union> set bs) = {}"
        by (simp_all add: Un_commute Un_left_commute)
      then show ?thesis using ok(4,5) Cons pool_swap [of bs ?D] unfolding e pool_ok_def prod.case
        by (simp add: Un_commute Un_left_commute)
    qed
  qed
qed

lemma pool_put_ok:
  assumes "0 < n" "pool_ok n (p, held)" "b \<in> pool_all n"
  shows "pool_ok n (pool_step n (Put b) (p, held))"
proof -
  let ?S = "log_buffer_list p" and ?D = "log_buffer_list_double p"
  have ok: "distinct (?S @ ?D)" "set ?S \<union> set ?D \<union> held = pool_all n" "held \<inter> (set ?S \<union> set ?D) = {}"
    "\<forall>b\<in>set ?S. lb_size b = n" "\<forall>b\<in>set ?D. lb_size b = n * 2" using assms(2) unfolding pool_ok_def prod.case by blast+
  show ?thesis
  proof (cases "b \<in> set ?S \<union> set ?D")
    case True
    then have "pool_step n (Put b) (p, held) = (p, held)" using ok(3) by (auto simp: pv_log_put_buffer_def)
    then show ?thesis using assms(2) by simp
  next
    case False
    note give = pool_give [OF ok(1-3) assms(3) False]
    show ?thesis
    proof (cases "lb_size b = n")
      case True
      have e: "pool_step n (Put b) (p, held) = (p\<lparr>log_buffer_list := b # ?S\<rparr>, held - {b})" using True False by (simp add: pv_log_put_buffer_def)
      show ?thesis using give ok(4,5) True unfolding e pool_ok_def prod.case by auto
    next
      case F: False
      then have s: "lb_size b = n * 2" using pool_sizes [OF assms(1,3)] by simp
      have e: "pool_step n (Put b) (p, held) = (p\<lparr>log_buffer_list_double := b # ?D\<rparr>, held - {b})" using F False by (simp add: pv_log_put_buffer_def)
      show ?thesis using give ok(4,5) s unfolding e pool_ok_def prod.case by simp
    qed
  qed
qed

lemma pool_step_ok: "0 < n \<Longrightarrow> pool_ok n s \<Longrightarrow> op_known n x \<Longrightarrow> pool_ok n (pool_step n x s)"
  by (cases s, cases x) (auto simp: op_known_def simp del: pool_step.simps intro: pool_get_ok pool_put_ok)

lemma pool_run_ok:
  "0 < n \<Longrightarrow> list_all (op_known n) ops \<Longrightarrow> pool_ok n s \<Longrightarrow> pool_ok n (pool_run n ops s)"
  by (induction ops arbitrary: s) (simp_all add: pool_run_def pool_step_ok)

text \<open>C36: Whatever is taken and given back, also twice, no buffer is free and held at once, none gets lost, and a buffer
  that is taken has the size that was asked for, as long as the configured size does not change.\<close>
theorem buffers_not_shared:
  assumes "0 < n" "list_all (op_known n) ops" "pool_run n ops (log_pool_init n, {}) = (p, held)"
  shows "held \<inter> (set (log_buffer_list p) \<union> set (log_buffer_list_double p)) = {}
    \<and> set (log_buffer_list p) \<union> set (log_buffer_list_double p) \<union> held = pool_all n
    \<and> (\<forall>large b p'. pv_log_get_buffer large p = (Some b, p') \<longrightarrow> b \<notin> held \<and> lb_size b = (if large then n * 2 else n))"
proof -
  have "pool_ok n (p, held)" using pool_run_ok [OF assms(1,2) pool_init_ok [OF assms(1)]] assms(3) by simp
  then have ok: "held \<inter> (set (log_buffer_list p) \<union> set (log_buffer_list_double p)) = {}"
    "set (log_buffer_list p) \<union> set (log_buffer_list_double p) \<union> held = pool_all n"
    "\<forall>b\<in>set (log_buffer_list p). lb_size b = n" "\<forall>b\<in>set (log_buffer_list_double p). lb_size b = n * 2"
    unfolding pool_ok_def prod.case by blast+
  have "b \<notin> held \<and> lb_size b = (if large then n * 2 else n)" if "pv_log_get_buffer large p = (Some b, p')" for large b p'
    using that ok(1,3,4) by (cases "log_buffer_list p"; cases "log_buffer_list_double p") (auto simp: pv_log_get_buffer_def split: if_splits)
  with ok show ?thesis by blast
qed

theorem buffers_not_shared_witness:
  "\<exists>p held. pool_run 16 [Get True, Put \<lparr>lb_addr = 19, lb_size = 32\<rparr>, Put \<lparr>lb_addr = 19, lb_size = 32\<rparr>, Get False] (log_pool_init 16, {}) = (p, held)
    \<and> held \<inter> (set (log_buffer_list p) \<union> set (log_buffer_list_double p)) = {}"
proof -
  let ?ops = "[Get True, Put \<lparr>lb_addr = 19, lb_size = 32\<rparr>, Put \<lparr>lb_addr = 19, lb_size = 32\<rparr>, Get False]"
  obtain p held where r: "pool_run 16 ?ops (log_pool_init 16, {}) = (p, held)" by fastforce
  have "\<lparr>lb_addr = 19, lb_size = 32\<rparr> \<in> pool_all 16"
    unfolding pool_all_def using pool_init_lists [of 16] by (simp add: upt_rec)
  then have "list_all (op_known 16) ?ops" by (simp add: op_known_def)
  from buffers_not_shared [OF _ this r] r show ?thesis by auto
qed

text \<open>When the configured size changes, a small buffer that is given back afterwards is handed out as a large one.\<close>

lemma resized_pool_mixes:
  assumes "0 < n" "m \<noteq> n"
  shows "\<exists>b p p'. pv_log_get_buffer False (log_pool_init n) = (Some b, p) \<and> lb_size b = n
    \<and> pv_log_get_buffer True (pv_log_put_buffer m (Some b) p) = (Some b, p')"
proof -
  let ?b = "\<lparr>lb_addr = 9, lb_size = n\<rparr>" and ?p = "log_pool_init n"
  have s: "log_buffer_list ?p = ?b # rev (map (\<lambda>i. \<lparr>lb_addr = i, lb_size = n\<rparr>) [0..<9])"
    unfolding pool_init_lists [OF assms(1)] by (simp add: upt_rec)
  let ?p1 = "?p\<lparr>log_buffer_list := rev (map (\<lambda>i. \<lparr>lb_addr = i, lb_size = n\<rparr>) [0..<9])\<rparr>"
  have g: "pv_log_get_buffer False ?p = (Some ?b, ?p1)" by (simp add: pv_log_get_buffer_def s)
  have "?b \<notin> set (log_buffer_list ?p1) \<union> set (log_buffer_list_double ?p1)"
    using pool_init_lists(2) [OF assms(1)] by auto
  then have "pv_log_put_buffer m (Some ?b) ?p1 = ?p1\<lparr>log_buffer_list_double := ?b # log_buffer_list_double ?p1\<rparr>"
    using assms(2) by (simp add: pv_log_put_buffer_def)
  then show ?thesis using g by (intro exI [of _ ?b] exI [of _ ?p1]) (simp add: pv_log_get_buffer_def)
qed

section \<open>Archives\<close>

text \<open>\<open>gzip\<close> with the name of a file prints nothing and puts a file with another name in its place.\<close>

definition gzip_in_place :: gzip_cmd where "gzip_in_place f = ([], None)"

lemma fill_empty: "f = None \<or> f = Some t \<Longrightarrow> fill_archives gzip_in_place gs f =
    (map (\<lambda>g. Some (case g of None \<Rightarrow> [] | Some t \<Rightarrow> t)) gs, if None \<in> set gs then None else f)"
  by (induction gs arbitrary: f rule: list.induct)
    (auto simp: pv_fops_gzip_file_def gzip_in_place_def split: option.splits prod.splits)

text \<open>A full log is not archived: the command that is run prints nothing, so that the first time the log is full
  each archive that is missing is made empty and the line that is written is lost with the file it goes to; and
  once all archives are there, the log is cut and what it held is nowhere.\<close>
theorem full_log_lost:
  assumes "lg_dir st \<noteq> None" "lg_file st = Some t" "n \<le> int (length t)" "0 \<le> level" "level < 5"
  shows "vlog gzip_in_place n \<lparr>lc_opens = True, lc_locked = True, lc_fresh = False, lc_now = now, lc_name = [], lc_error = (0, [])\<rparr> module level msg st =
    Done (if None \<in> set (lg_gzip st)
      then st\<lparr>lg_gzip := map (\<lambda>g. Some (case g of None \<Rightarrow> [] | Some t \<Rightarrow> t)) (lg_gzip st), lg_file := None\<rparr>
      else st\<lparr>lg_file := Some (log_line (show_int now @ '' '') (level_names ! nat level) module msg)\<rparr>)"
proof -
  have "None \<notin> set (lg_gzip st) \<Longrightarrow> map (\<lambda>g. Some (case g of None \<Rightarrow> [] | Some t \<Rightarrow> t)) (lg_gzip st) = lg_gzip st"
    by (intro map_idI) (metis not_None_eq option.simps(5))
  then show ?thesis
    using assms by (auto simp: vlog_def level_text_def rotate_log_def fill_empty Let_def)
qed

theorem full_log_lost_witness:
  "\<exists>st st' l. st = \<lparr>lg_dir = Some ''d'', lg_file = Some ''old'', lg_gzip = [None, None, None], lg_errors = []\<rparr>
    \<and> vlog gzip_in_place 1 \<lparr>lc_opens = True, lc_locked = True, lc_fresh = False, lc_now = 7, lc_name = [], lc_error = (0, [])\<rparr> ''m'' 3 ''a'' st =
        Done (st\<lparr>lg_gzip := [Some [], Some [], Some []], lg_file := None\<rparr>)
    \<and> vlog gzip_in_place 1 \<lparr>lc_opens = True, lc_locked = True, lc_fresh = False, lc_now = 8, lc_name = [], lc_error = (0, [])\<rparr> ''m'' 3 ''b''
        (st\<lparr>lg_gzip := [Some [], Some [], Some []]\<rparr>) = Done st' \<and> lg_gzip st' = [Some [], Some [], Some []] \<and> lg_file st' = Some l"
  using full_log_lost [of "\<lparr>lg_dir = Some ''d'', lg_file = Some ''old'', lg_gzip = [None, None, None], lg_errors = []\<rparr>" "''old''" 1 3 7 "''m''" "''a''"]
    full_log_lost [of "\<lparr>lg_dir = Some ''d'', lg_file = Some ''old'', lg_gzip = [Some [], Some [], Some []], lg_errors = []\<rparr>" "''old''" 1 3 8 "''m''" "''b''"]
  by simp

end
