(* ===== verification/Hub.thy ===== *)
theory Hub
  imports Metadata Machine Blkid
begin

text \<open>
  The client of the cloud: \<open>pantahub.c\<close>, \<open>trestclient.c\<close>, and the part of \<open>updater.c\<close> that opens the trail of a device
  and uploads the objects of the factory revision. The HTTP library, its answers, the certificates and the handlers on
  the disk are parameters.
\<close>

section \<open>What is asked and what is answered\<close>

text \<open>An answer has a code, whether the session is still authorised, and a body.\<close>

datatype answer = No_answer | Answer int bool string

text \<open>The body of an answer that is taken: both branches of the code that refuse it come first.\<close>

definition ok_body :: "answer \<Rightarrow> string option" where
  "ok_body a = (case a of No_answer \<Rightarrow> None
     | Answer code auth body \<Rightarrow> (if code = 0 \<and> \<not> auth then None else if code \<noteq> 200 then None else Some body))"

text \<open>Whether a client can be made and the session is authorised; the files in the directory of certificates in
  alphabetical order; for a path whether it is there, and then whether it is executable; the tokens of a JSON text.\<close>

record hub_env =
  he_client :: bool
  he_auth :: bool
  he_certs :: "string list option"
  he_stat :: "string \<Rightarrow> bool option"
  he_toks :: "string \<Rightarrow> jsmntok list"
  he_hint_opens :: bool

record hub =
  hb_client :: bool
  hb_endpoint :: "string option"
  hb_online :: bool
  hb_hint :: bool
  hb_meta :: pv_metadata

section \<open>Connecting\<close>

definition pv_ph_get_certs :: "string list option \<Rightarrow> string list option" where
  "pv_ph_get_certs files = map_option (\<lambda>fs. map (\<lambda>f. ''/certs/'' @ f) (filter (\<lambda>f. \<not> strneq f ''.'' 1) (rev fs))) files"

datatype creds_kind = Builtin | External | Refused

text \<open>The kind of credentials; an external one needs an executable handler. Without a type the code compares \<open>NULL\<close>.\<close>

definition creds_kind :: "(string \<Rightarrow> bool option) \<Rightarrow> string \<Rightarrow> string option \<Rightarrow> creds_kind outcome" where
  "creds_kind there ext ty = (case ty of None \<Rightarrow> Fault
     | Some t \<Rightarrow> Done (if t = ''builtin'' then Builtin
         else if 4 \<le> length t \<and> strneq t ''ext-'' 4 then (if there (''/btools/'' @ t @ ext) = Some True then External else Refused)
         else Refused))"

definition set_and_filled :: "string option \<Rightarrow> bool" where
  "set_and_filled so \<longleftrightarrow> so \<noteq> None \<and> so \<noteq> Some []"

definition pv_get_trest_client :: "hub_env \<Rightarrow> pantavisor_creds \<Rightarrow> bool outcome" where
  "pv_get_trest_client e c =
     (if \<not> set_and_filled (cr_host c) then Done False
      else case creds_kind (he_stat e) ''.login'' (cr_type c) of Fault \<Rightarrow> Fault
      | Done k \<Rightarrow> Done (k \<noteq> Refused \<and> pv_ph_get_certs (he_certs e) \<noteq> None
          \<and> (k = Builtin \<longrightarrow> set_and_filled (cr_prn c) \<and> set_and_filled (cr_secret c)) \<and> he_client e))"

text \<open>The output of an external login handler in the pieces that are read, up to 4096 bytes each; the body grows in
  steps of 4096 and gets a NUL at the end.\<close>

definition grow_body :: "nat \<Rightarrow> nat \<Rightarrow> nat" where
  "grow_body body_s need = (if need \<le> body_s then body_s else body_s + 4096 * ((need - body_s + 4095) div 4096))"

fun read_login :: "nat \<Rightarrow> string \<Rightarrow> string list \<Rightarrow> nat \<times> string" where
  "read_login body_s body [] = (body_s, body)"
| "read_login body_s body (s # ss) = (if s = [] then (body_s, body)
     else read_login (grow_body body_s (length body + length s)) (body @ s) ss)"

definition external_login_handler :: "string list \<Rightarrow> string outcome" where
  "external_login_handler pieces = (case read_login 4096 [] pieces of (body_s, body) \<Rightarrow>
     if length body < body_s then Done (cstr body) else Fault)"

definition ph_client_init :: "hub_env \<Rightarrow> pantavisor_creds \<Rightarrow> hub \<Rightarrow> (bool \<times> hub) outcome" where
  "ph_client_init e c h =
     (case (if hb_client h then Done True else pv_get_trest_client e c) of Fault \<Rightarrow> Fault
      | Done ok \<Rightarrow> Done (if \<not> ok then (False, h)
          else if \<not> he_auth e then (False, h\<lparr>hb_client := False\<rparr>)
          else (True, h\<lparr>hb_client := True, hb_endpoint := (case hb_endpoint h of Some p \<Rightarrow> Some p
              | None \<Rightarrow> map_option (\<lambda>i. ''/devices/'' @ i) (cr_id c))\<rparr>)))"

definition pv_ph_set_online :: "hub_env \<Rightarrow> bool \<Rightarrow> hub \<Rightarrow> hub" where
  "pv_ph_set_online e online h = h\<lparr>hb_online := online, hb_hint := (if online then hb_hint h \<or> he_hint_opens e else False),
     hb_meta := pv_metadata_add_devmeta ''pantahub.online'' (if online then ''1'' else ''0'') (hb_meta h)\<rparr>"

definition connected :: "hub \<Rightarrow> bool" where
  "connected h \<longleftrightarrow> hb_client h \<and> hb_endpoint h \<noteq> None"

definition pv_ph_is_auth :: "hub_env \<Rightarrow> pantavisor_creds \<Rightarrow> hub \<Rightarrow> (bool \<times> hub) outcome" where
  "pv_ph_is_auth e c h =
     (if connected h then Done (True, pv_ph_set_online e True h)
      else case ph_client_init e c h of Fault \<Rightarrow> Fault
      | Done (_, h') \<Rightarrow> Done (connected h', pv_ph_set_online e (connected h') h'))"

definition pv_ph_release_client :: "hub \<Rightarrow> hub" where
  "pv_ph_release_client h = h\<lparr>hb_client := False, hb_endpoint := None\<rparr>"

definition pv_get_instance_connection :: "pantavisor_creds \<Rightarrow> (string \<times> int) outcome" where
  "pv_get_instance_connection c = (case cr_host c of None \<Rightarrow> Fault
     | Some host \<Rightarrow> Done (if host = [] then ''api.pantahub.com'' else host, if cr_port c = 0 then 443 else cr_port c))"

section \<open>Requests about the device\<close>

text \<open>Each asks \<open>cloud\<close> with the method and the path. Without a connection nothing is asked.\<close>

type_synonym cloud = "string \<Rightarrow> string option \<Rightarrow> answer"

definition ask :: "hub_env \<Rightarrow> pantavisor_creds \<Rightarrow> cloud \<Rightarrow> string \<Rightarrow> (hub \<Rightarrow> string option) \<Rightarrow> hub \<Rightarrow> (string option \<times> hub) outcome" where
  "ask e c cloud meth path h = (case ph_client_init e c h of Fault \<Rightarrow> Fault
     | Done (ok, h') \<Rightarrow> Done (if ok then ok_body (cloud meth (path h')) else None, h'))"

text \<open>The result, and the body that goes to \<open>pv_metadata_parse_usermeta\<close>.\<close>

definition pv_ph_device_get_meta :: "hub_env \<Rightarrow> pantavisor_creds \<Rightarrow> cloud \<Rightarrow> hub \<Rightarrow> (int \<times> string option \<times> hub) outcome" where
  "pv_ph_device_get_meta e c cloud h = (case ask e c cloud ''GET'' hb_endpoint h of Fault \<Rightarrow> Fault
     | Done (body, h') \<Rightarrow> Done (if body = None then -1 else 0, body, h'))"

definition pv_ph_device_exists :: "hub_env \<Rightarrow> pantavisor_creds \<Rightarrow> cloud \<Rightarrow> hub \<Rightarrow> (int \<times> hub) outcome" where
  "pv_ph_device_exists e c cloud h = (case ask e c cloud ''GET'' hb_endpoint h of Fault \<Rightarrow> Fault
     | Done (body, h') \<Rightarrow> Done (case body of None \<Rightarrow> 0
         | Some b \<Rightarrow> (if set_and_filled (pv_json_get_value b ''id'' (he_toks e b)) then 1 else 0), h'))"

text \<open>The challenge is copied to a buffer of 128 bytes.\<close>

definition pv_ph_device_is_owned :: "hub_env \<Rightarrow> pantavisor_creds \<Rightarrow> cloud \<Rightarrow> string \<Rightarrow> hub \<Rightarrow> (int \<times> string \<times> hub) outcome" where
  "pv_ph_device_is_owned e c cloud chal h = (case ask e c cloud ''GET'' hb_endpoint h of Fault \<Rightarrow> Fault
     | Done (None, h') \<Rightarrow> Done (0, chal, h')
     | Done (Some b, h') \<Rightarrow> (if set_and_filled (pv_json_get_value b ''owner'' (he_toks e b)) then Done (1, chal, h')
         else case pv_json_get_value b ''challenge'' (he_toks e b) of None \<Rightarrow> Fault
           | Some s \<Rightarrow> (if length s < 128 then Done (0, s, h') else Fault)))"

text \<open>The result is a \<open>uint8_t\<close>, so that a failure is 255. The path is put together in 256 bytes.\<close>

definition pv_ph_upload_metadata :: "hub_env \<Rightarrow> pantavisor_creds \<Rightarrow> cloud \<Rightarrow> hub \<Rightarrow> (int \<times> hub) outcome" where
  "pv_ph_upload_metadata e c cloud h = (case ph_client_init e c h of Fault \<Rightarrow> Fault
     | Done (ok, h') \<Rightarrow> (if \<not> ok then Done (255, h')
         else let path = (case hb_endpoint h' of None \<Rightarrow> ''(null)'' | Some p \<Rightarrow> p) @ ''/device-meta'' in
           if 256 < length path + 1 then Fault
           else Done (if ok_body (cloud ''PATCH'' (Some path)) = None then 255 else 0, h')))"

text \<open>The files that are written, each if it opens.\<close>

definition hint_text :: "string option \<Rightarrow> string outcome" where
  "hint_text so = (let t = (case so of None \<Rightarrow> ''(null)'' | Some s \<Rightarrow> s) @ [LF] in if 256 < length t + 1 then Fault else Done t)"

definition pv_ph_update_hint_file :: "(string \<Rightarrow> bool) \<Rightarrow> pantavisor_creds \<Rightarrow> string option \<Rightarrow> (string \<times> string) list outcome" where
  "pv_ph_update_hint_file opens c chal =
     (if \<not> opens ''/pv/device-id'' then Done []
      else case hint_text (cr_id c) of Fault \<Rightarrow> Fault
      | Done t \<Rightarrow> (if chal = None \<or> \<not> opens ''/pv/challenge'' then Done [(''/pv/device-id'', t)]
          else case hint_text chal of Fault \<Rightarrow> Fault
            | Done u \<Rightarrow> Done [(''/pv/device-id'', t), (''/pv/challenge'', u)]))"

section \<open>Registering\<close>

text \<open>The URL and the header with the token are written into buffers of the size that was calculated for them.\<close>

definition base_url :: "string \<Rightarrow> int \<Rightarrow> string outcome" where
  "base_url host port = (let u = ''https://'' @ host @ '':'' @ show_int port in
     if length u + 1 \<le> 8 + length host + 1 + 5 + 2 then Done u else Fault)"

definition token_header :: "string option \<Rightarrow> string option outcome" where
  "token_header tok = (if \<not> set_and_filled tok then Done None
     else let t = ''Pantahub-Devices-Auto-Token-V1: '' @ the tok in if length t + 1 \<le> 35 + 64 then Done (Some t) else Fault)"

definition pv_ph_register_self_builtin :: "hub_env \<Rightarrow> (string \<Rightarrow> string option \<Rightarrow> answer) \<Rightarrow> string option \<Rightarrow> pantavisor_creds \<Rightarrow> (int \<times> pantavisor_creds) outcome" where
  "pv_ph_register_self_builtin e post tok c = (case cr_host c of None \<Rightarrow> Fault
     | Some host \<Rightarrow> (case base_url host (cr_port c) of Fault \<Rightarrow> Fault
       | Done url \<Rightarrow> (case token_header tok of Fault \<Rightarrow> Fault
         | Done hdr \<Rightarrow> (case post url hdr of No_answer \<Rightarrow> Done (0, c)
           | Answer code auth b \<Rightarrow> Done (if code = 200 then (1, c\<lparr>cr_id := pv_json_get_value b ''id'' (he_toks e b),
                 cr_prn := pv_json_get_value b ''prn'' (he_toks e b), cr_secret := pv_json_get_value b ''secret'' (he_toks e b)\<rparr>)
               else (0, c))))))"

text \<open>\<open>forked\<close> is what running the handler returns, \<open>loaded\<close> the credentials that are read back after it.\<close>

definition pv_ph_register_self_ext :: "int \<Rightarrow> pantavisor_creds option \<Rightarrow> pantavisor_creds \<Rightarrow> int \<times> pantavisor_creds" where
  "pv_ph_register_self_ext forked loaded c = (if forked < 0 then (0, c) else case loaded of None \<Rightarrow> (0, c) | Some c' \<Rightarrow> (1, c'))"

definition pv_ph_register_self :: "hub_env \<Rightarrow> (string \<Rightarrow> string option \<Rightarrow> answer) \<Rightarrow> string option \<Rightarrow> int \<Rightarrow> pantavisor_creds option
    \<Rightarrow> pantavisor_creds \<Rightarrow> (int \<times> pantavisor_creds) outcome" where
  "pv_ph_register_self e post tok forked loaded c = (case creds_kind (he_stat e) ''.register'' (cr_type c) of Fault \<Rightarrow> Fault
     | Done Builtin \<Rightarrow> pv_ph_register_self_builtin e post tok c
     | Done External \<Rightarrow> Done (pv_ph_register_self_ext forked loaded c)
     | Done Refused \<Rightarrow> Done (1, c))"

section \<open>The trail of a device\<close>

record trail_remote =
  tr_queued :: string
  tr_new :: string
  tr_downloading :: string
  tr_inprogress :: string

definition trail_endpoints :: "string \<Rightarrow> trail_remote" where
  "trail_endpoints i = (let t = ''/trails/'' @ i @ ''/steps'' in
     \<lparr>tr_queued = t @ ''?progress.status=QUEUED'', tr_new = t @ ''?progress.status=NEW'',
      tr_downloading = t @ ''?progress.status=DOWNLOADING'', tr_inprogress = t @ ''?progress.status=INPROGRESS''\<rparr>)"

text \<open>Nothing is done when there is a remote or the device has no identity yet.\<close>

definition trail_remote_init :: "hub_env \<Rightarrow> pantavisor_creds \<Rightarrow> trail_remote option \<Rightarrow> (int \<times> trail_remote option) outcome" where
  "trail_remote_init e c remote = (case (remote, cr_id c) of (None, Some i) \<Rightarrow>
       (case pv_get_trest_client e c of Fault \<Rightarrow> Fault
        | Done ok \<Rightarrow> Done (if ok \<and> he_auth e then (0, Some (trail_endpoints i)) else (-1, None)))
     | _ \<Rightarrow> Done (0, remote))"

text \<open>\<open>count\<close> is jsmn's number of elements of an array.\<close>

definition trail_is_available :: "(string \<Rightarrow> int) \<Rightarrow> answer \<Rightarrow> trail_remote option \<Rightarrow> int" where
  "trail_is_available count a remote = (case remote of None \<Rightarrow> -1
     | Some r \<Rightarrow> (case ok_body a of None \<Rightarrow> -1 | Some b \<Rightarrow> count b))"

definition unescape_utf8_to_apvii :: "string \<Rightarrow> string \<Rightarrow> char \<Rightarrow> string option" where
  "unescape_utf8_to_apvii buf code c =
     map_option (\<lambda>new. if last new = c then butlast new else new) (unescape_loop (buf @ code) code c [])"

section \<open>Uploading the objects\<close>

text \<open>The content of a stored file and the answers: to the announcement of an object, and to its upload to a URL.\<close>

record upload_env =
  ue_file :: "string \<Rightarrow> string option"
  ue_sha :: "string \<Rightarrow> nat list"
  ue_announce :: "string \<Rightarrow> answer"
  ue_put :: "string \<Rightarrow> string \<Rightarrow> answer"

definition hex_of :: "nat list \<Rightarrow> string" where
  "hex_of bs = concat (map (\<lambda>b. [lower_hex (b div 16), lower_hex (b mod 16)]) bs)"

definition announce_json :: "string \<Rightarrow> nat \<Rightarrow> string \<Rightarrow> string" where
  "announce_json name sz sha = ''{ '' @ quoted ''objectname'' @ '': '' @ quoted name @ '', '' @ quoted ''size'' @ '': '' @ quoted (show_nat sz) @
     '', '' @ quoted ''sha256sum'' @ '': '' @ quoted sha @ '' }''"

text \<open>What happened: an object was announced with a text, or its content was sent to a path.\<close>

datatype upload_event = Announced string | Sent string string

definition trail_put_object :: "hub_env \<Rightarrow> upload_env \<Rightarrow> object \<Rightarrow> (int \<times> upload_event list) outcome" where
  "trail_put_object e u ob = (case ue_file u (o_objpath ob) of None \<Rightarrow> Done (-1, [])
     | Some content \<Rightarrow>
        (let sha = hex_of (ue_sha u content); body = announce_json (o_name ob) (length content) sha in
         if 512 < length body + 1 then Fault
         else if o_id ob \<noteq> sha then Done (-1, [])
         else case ue_announce u body of No_answer \<Rightarrow> Done (-1, [Announced body])
         | Answer code auth b \<Rightarrow>
            (if code = 409 then Done (0, [Announced body])
             else case ok_body (Answer code auth b) of None \<Rightarrow> Done (-1, [Announced body])
             | Some b \<Rightarrow> (case pv_json_get_value b ''signed-puturl'' (he_toks e b) of None \<Rightarrow> Done (-1, [Announced body])
                | Some url \<Rightarrow> (let path = map_option (\<lambda>i. drop i url) (strstr url ''/local-s3'') in
                    Done (case ue_put u (or_empty path) content of No_answer \<Rightarrow> -1
                        | Answer code auth b \<Rightarrow> if code = 200 then 0 else -1,
                      [Announced body, Sent (or_empty path) content]))))))"

text \<open>The number of objects that are left when one could not be uploaded.\<close>

fun put_all :: "hub_env \<Rightarrow> upload_env \<Rightarrow> object list \<Rightarrow> int \<Rightarrow> (int \<times> upload_event list) outcome" where
  "put_all e u [] n = Done (n, [])"
| "put_all e u (ob # obs) n = (case trail_put_object e u ob of Fault \<Rightarrow> Fault
     | Done (r, ev) \<Rightarrow> (if r < 0 then Done (n, ev)
         else case put_all e u obs (n - 1) of Fault \<Rightarrow> Fault | Done (n', ev') \<Rightarrow> Done (n', ev @ ev')))"

definition trail_put_objects :: "hub_env \<Rightarrow> upload_env \<Rightarrow> pv_state \<Rightarrow> (int \<times> upload_event list) outcome" where
  "trail_put_objects e u s = put_all e u (s_objects s) (int (length (s_objects s)))"

section \<open>Progress of a download\<close>

text \<open>The totals of the object and of the update, the timer, and the texts that are posted. While the timer runs every
  piece is reported and starts the timer again.\<close>

record progress =
  pg_object :: object_update
  pg_total :: object_update
  pg_timer :: timer
  pg_posted :: "string list"

definition add_downloaded :: "nat \<Rightarrow> object_update \<Rightarrow> object_update" where
  "add_downloaded n ou = ou\<lparr>ou_downloaded := ou_downloaded ou + n\<rparr>"

definition trail_download_object_progress :: "clock \<Rightarrow> nat \<Rightarrow> (object_update \<Rightarrow> string) \<Rightarrow> int \<Rightarrow> nat \<Rightarrow> progress \<Rightarrow> progress" where
  "trail_download_object_progress clk now json written chunk p =
     (let p1 = p\<lparr>pg_object := add_downloaded chunk (pg_object p), pg_total := add_downloaded chunk (pg_total p)\<rparr> in
      if written \<noteq> int chunk then p
      else if timer_fin clk (pg_timer p) then p1
      else let ou = (pg_object p1)\<lparr>ou_current_time := now\<rparr> in
        p1\<lparr>pg_object := ou, pg_timer := timer_start clk (pg_timer p) 3 0 RELATIV_TIMER, pg_posted := pg_posted p @ [json ou]\<rparr>)"

section \<open>Being online\<close>

lemma update_first_value:
  "pv_metadata_get_by_key (update_first k (m_updated_update f) l) k = map_option (m_updated_update f) (pv_metadata_get_by_key l k)"
  by (induction l) (auto simp: pv_metadata_get_by_key_def)

lemma update_first_set:
  "pv_metadata_get_by_key l k \<noteq> None \<Longrightarrow>
    map_option m_value (pv_metadata_get_by_key (update_first k (m_value_update (\<lambda>_. v)) l) k) = Some v"
  by (induction l) (auto simp: pv_metadata_get_by_key_def)

lemma metadata_add_value: "map_option m_value (pv_metadata_get_by_key (snd (pv_metadata_add l k v)) k) = Some v"
proof (cases "pv_metadata_get_by_key l k")
  case None
  then show ?thesis by (simp add: pv_metadata_add_def) (simp add: pv_metadata_get_by_key_def)
next
  case (Some m)
  then show ?thesis using update_first_set [of l k v] by (simp add: pv_metadata_add_def)
qed

lemma add_devmeta_value: "map_option m_value (pv_metadata_get_by_key (devmeta (pv_metadata_add_devmeta k v md)) k) = Some v"
  using metadata_add_value [of "devmeta md" k v]
  by (cases "pv_metadata_add (devmeta md) k v") (auto simp: pv_metadata_add_devmeta_def update_first_value)

text \<open>C37: What the check of the connection returns is what the program, the file \<open>/pv/online\<close> and the meta data of the
  device then say, and it is only positive with a client and an endpoint.\<close>
theorem auth_is_online:
  assumes "pv_ph_is_auth e c h = Done (r, h')"
  shows "hb_online h' = r \<and> r = connected h' \<and> (r \<longrightarrow> he_hint_opens e \<longrightarrow> hb_hint h') \<and> (\<not> r \<longrightarrow> \<not> hb_hint h')
    \<and> map_option m_value (pv_metadata_get_by_key (devmeta (hb_meta h')) ''pantahub.online'') = Some (if r then ''1'' else ''0'')"
proof -
  have on: "hb_online (pv_ph_set_online e x g) = x" "connected (pv_ph_set_online e x g) = connected g"
    "x \<longrightarrow> he_hint_opens e \<longrightarrow> hb_hint (pv_ph_set_online e x g)" "\<not> x \<longrightarrow> \<not> hb_hint (pv_ph_set_online e x g)"
    "map_option m_value (pv_metadata_get_by_key (devmeta (hb_meta (pv_ph_set_online e x g))) ''pantahub.online'') = Some (if x then ''1'' else ''0'')" for x g
    using add_devmeta_value [of "''pantahub.online''" "if x then ''1'' else ''0''" "hb_meta g"]
    by (auto simp: pv_ph_set_online_def connected_def)
  obtain g where "h' = pv_ph_set_online e r g" "r = connected g"
    using assms by (auto simp: pv_ph_is_auth_def split: if_splits outcome.splits)
  then show ?thesis using on [of r g] by simp
qed

theorem auth_is_online_witness:
  "\<exists>h'. pv_ph_is_auth \<lparr>he_client = True, he_auth = False, he_certs = Some [], he_stat = (\<lambda>p. None), he_toks = (\<lambda>b. []), he_hint_opens = True\<rparr>
      \<lparr>cr_type = Some ''builtin'', cr_host = Some ''h'', cr_port = 443, cr_host_proxy = None, cr_port_proxy = 0, cr_noproxyconnect = 0,
       cr_id = Some ''d'', cr_prn = Some ''p'', cr_secret = Some ''s'', tpm_key = None, tpm_cert = None\<rparr>
      \<lparr>hb_client = True, hb_endpoint = None, hb_online = True, hb_hint = True,
       hb_meta = \<lparr>usermeta = [], devmeta = [], devmeta_uploaded = True\<rparr>\<rparr> = Done (False, h')
    \<and> \<not> hb_online h' \<and> \<not> hb_hint h'"
proof -
  let ?e = "\<lparr>he_client = True, he_auth = False, he_certs = Some [], he_stat = (\<lambda>p. None), he_toks = (\<lambda>b. []), he_hint_opens = True\<rparr>"
  let ?c = "\<lparr>cr_type = Some ''builtin'', cr_host = Some ''h'', cr_port = 443, cr_host_proxy = None, cr_port_proxy = 0, cr_noproxyconnect = 0,
       cr_id = Some ''d'', cr_prn = Some ''p'', cr_secret = Some ''s'', tpm_key = None, tpm_cert = None\<rparr>"
  let ?h = "\<lparr>hb_client = True, hb_endpoint = None, hb_online = True, hb_hint = True,
       hb_meta = \<lparr>usermeta = [], devmeta = [], devmeta_uploaded = True\<rparr>\<rparr>"
  have "\<exists>h'. pv_ph_is_auth ?e ?c ?h = Done (False, h')" by (simp add: pv_ph_is_auth_def connected_def ph_client_init_def)
  then obtain h' where "pv_ph_is_auth ?e ?c ?h = Done (False, h')" ..
  then show ?thesis using auth_is_online [of ?e ?c ?h False h'] by auto
qed

section \<open>Registering without a handler\<close>

text \<open>With a type of credentials that is not known, registering changes nothing and reports success; the program then
  saves the credentials and goes on as registered.\<close>
theorem unknown_type_registers:
  assumes "cr_type c = Some t" "t \<noteq> ''builtin''" "\<not> (4 \<le> length t \<and> strneq t ''ext-'' 4 \<and> he_stat e (''/btools/'' @ t @ ''.register'') = Some True)"
    and "pv_ph_register_self e post tok forked loaded c = Done (r, c')" "\<not> k_has_creds k"
  shows "r = 1 \<and> c' = c \<and> fst (register_device (k\<lparr>k_register_ok := r \<noteq> 0\<rparr>) ctl)
    \<and> Creds_saved \<in> set (c_actions (snd (register_device (k\<lparr>k_register_ok := r \<noteq> 0\<rparr>) ctl)))"
proof -
  have "creds_kind (he_stat e) ''.register'' (cr_type c) = Done Refused" using assms(1-3) by (auto simp: creds_kind_def)
  then have "r = 1" "c' = c" using assms(4) by (simp_all add: pv_ph_register_self_def)
  then show ?thesis using assms(5) by (simp add: register_device_def act_def Let_def)
qed

theorem unknown_type_registers_witness:
  "pv_ph_register_self \<lparr>he_client = True, he_auth = True, he_certs = None, he_stat = (\<lambda>p. None), he_toks = (\<lambda>b. []), he_hint_opens = True\<rparr>
      (\<lambda>u t. No_answer) None 0 None
      \<lparr>cr_type = Some ''custom'', cr_host = Some ''h'', cr_port = 443, cr_host_proxy = None, cr_port_proxy = 0, cr_noproxyconnect = 0,
       cr_id = None, cr_prn = None, cr_secret = None, tpm_key = None, tpm_cert = None\<rparr> = Done (1,
      \<lparr>cr_type = Some ''custom'', cr_host = Some ''h'', cr_port = 443, cr_host_proxy = None, cr_port_proxy = 0, cr_noproxyconnect = 0,
       cr_id = None, cr_prn = None, cr_secret = None, tpm_key = None, tpm_cert = None\<rparr>)
    \<and> Creds_saved \<in> set (c_actions (snd (register_device (ex_cworld\<lparr>k_has_creds := False, k_register_ok := True\<rparr>) (ex_ctl (ex_pv UPDATE_TRY ex_new)))))"
proof -
  let ?e = "\<lparr>he_client = True, he_auth = True, he_certs = None, he_stat = (\<lambda>p. None), he_toks = (\<lambda>b. []), he_hint_opens = True\<rparr>"
  let ?c = "\<lparr>cr_type = Some ''custom'', cr_host = Some ''h'', cr_port = 443, cr_host_proxy = None, cr_port_proxy = 0, cr_noproxyconnect = 0,
       cr_id = None, cr_prn = None, cr_secret = None, tpm_key = None, tpm_cert = None\<rparr>"
  have r: "pv_ph_register_self ?e (\<lambda>u t. No_answer) None 0 None ?c = Done (1, ?c)"
    by (simp add: pv_ph_register_self_def creds_kind_def)
  have "Creds_saved \<in> set (c_actions (snd (register_device ((ex_cworld\<lparr>k_has_creds := False\<rparr>)\<lparr>k_register_ok := (1 :: int) \<noteq> 0\<rparr>) (ex_ctl (ex_pv UPDATE_TRY ex_new)))))"
    using unknown_type_registers [OF _ _ _ r, of "''custom''" "ex_cworld\<lparr>k_has_creds := False\<rparr>" "ex_ctl (ex_pv UPDATE_TRY ex_new)"] by simp
  with r show ?thesis by simp
qed

section \<open>What the upload leaves in the cloud\<close>

definition uploaded :: "upload_env \<Rightarrow> upload_event list \<Rightarrow> object \<Rightarrow> bool" where
  "uploaded u ev ob \<longleftrightarrow> (\<exists>content body. ue_file u (o_objpath ob) = Some content \<and> hex_of (ue_sha u content) = o_id ob
     \<and> body = announce_json (o_name ob) (length content) (o_id ob) \<and> Announced body \<in> set ev
     \<and> ((\<exists>auth b. ue_announce u body = Answer 409 auth b) \<or> (\<exists>path. Sent path content \<in> set ev)))"

lemma put_object_uploads: "trail_put_object e u ob = Done (r, ev) \<Longrightarrow> 0 \<le> r \<Longrightarrow> uploaded u ev ob"
  by (auto simp: trail_put_object_def uploaded_def Let_def split: option.splits if_splits answer.splits)

lemma uploaded_more: "uploaded u ev ob \<Longrightarrow> set ev \<subseteq> set ev' \<Longrightarrow> uploaded u ev' ob"
  unfolding uploaded_def by blast

lemma put_all_uploads:
  assumes "put_all e u obs n = Done (n', ev)"
  shows "n - int (length obs) \<le> n' \<and> (n' = n - int (length obs) \<longrightarrow> (\<forall>ob\<in>set obs. uploaded u ev ob))"
  using assms
proof (induction obs arbitrary: n ev)
  case (Cons ob obs)
  obtain r ev1 where 1: "trail_put_object e u ob = Done (r, ev1)" using Cons.prems by (auto split: outcome.splits)
  show ?case
  proof (cases "r < 0")
    case True
    then show ?thesis using Cons.prems 1 by simp
  next
    case False
    then obtain ev2 where 2: "put_all e u obs (n - 1) = Done (n', ev2)" "ev = ev1 @ ev2"
      using Cons.prems 1 by (auto split: outcome.splits)
    have "uploaded u ev ob" using put_object_uploads [OF 1] False uploaded_more 2(2) by fastforce
    moreover have "\<forall>ob\<in>set obs. uploaded u ev2 ob \<longrightarrow> uploaded u ev ob" using uploaded_more 2(2) by fastforce
    ultimately show ?thesis using Cons.IH [OF 2(1)] by auto
  qed
qed simp



text \<open>An object whose file has changed is meant to be skipped, but ends the upload: those behind it stay away and the first
  boot fails.\<close>

lemma changed_object_ends_upload:
  assumes "s_objects s = pre @ ob # post" "trail_put_objects e u s = Done (n, ev)"
    and "\<forall>content. ue_file u (o_objpath ob) = Some content \<longrightarrow> hex_of (ue_sha u content) \<noteq> o_id ob"
  shows "0 < n"
proof (rule ccontr)
  assume "\<not> 0 < n"
  then have "uploaded u ev ob"
    using put_all_uploads [of e u "s_objects s" "int (length (s_objects s))" n ev] assms(1,2) by (simp add: trail_put_objects_def)
  with assms(3) show False by (auto simp: uploaded_def)
qed

section \<open>The output of a login handler\<close>

definition steps_of :: "nat \<Rightarrow> nat" where
  "steps_of n = max 4096 (4096 * ((n + 4095) div 4096))"

lemma ceil_4096: "((n :: nat) + 4095) div 4096 = n div 4096 + (if n mod 4096 = 0 then 0 else 1)"
proof -
  have "(4096 * (n div 4096) + (n mod 4096 + 4095)) div 4096 = n div 4096 + (n mod 4096 + 4095) div 4096"
    by (rule div_mult_self4) simp
  moreover have "4096 * (n div 4096) + (n mod 4096 + 4095) = n + 4095" by simp
  moreover have "(n mod 4096 + 4095) div 4096 = 1" if "n mod 4096 \<noteq> 0"
  proof (rule div_nat_eqI)
    have "n mod 4096 < 4096" by simp
    then show "n mod 4096 + 4095 < 4096 * Suc 1" by simp
  qed (use that in simp)
  ultimately show ?thesis by (cases "n mod 4096 = 0") simp_all
qed

text \<open>The size is the least multiple of 4096 from the length on, but at least 4096.\<close>

lemma steps_of_bounds:
  obtains q where "steps_of n = 4096 * q" "0 < q" "n \<le> 4096 * q" "4096 * q < n + 4096 \<or> q = 1"
proof -
  define q r where "q = n div 4096" and "r = n mod 4096"
  have n: "n = 4096 * q + r" "r < 4096" by (simp_all add: q_def r_def)
  let ?c = "q + (if r = 0 then 0 else 1)"
  have s: "steps_of n = max 4096 (4096 * ?c)" unfolding steps_of_def ceil_4096 q_def r_def ..
  show thesis
  proof (cases "?c = 0")
    case True
    then have "steps_of n = 4096 * 1" "n = 0" using s n by (auto split: if_splits)
    then show thesis using that [of 1] by simp
  next
    case False
    then have "1 \<le> ?c" by linarith
    then have "4096 * 1 \<le> 4096 * ?c" by (rule mult_le_mono2)
    then have "steps_of n = 4096 * ?c" using s by linarith
    moreover have "n \<le> 4096 * ?c" "4096 * ?c < n + 4096" using n by auto
    ultimately show thesis using that [of ?c] False by blast
  qed
qed

lemma steps_unique:
  assumes "0 < q" "n \<le> 4096 * q" "4096 * q < n + 4096 \<or> q = 1"
  shows "steps_of n = 4096 * q"
proof -
  obtain p where p: "steps_of n = 4096 * p" "0 < p" "n \<le> 4096 * p" "4096 * p < n + 4096 \<or> p = 1" by (rule steps_of_bounds)
  have "p = q" using assms p(2-4) by linarith
  then show ?thesis using p(1) by simp
qed

lemma grow_steps:
  assumes "l \<le> need"
  shows "grow_body (steps_of l) need = steps_of need"
proof -
  obtain q where q: "steps_of l = 4096 * q" "0 < q" "l \<le> 4096 * q" "4096 * q < l + 4096 \<or> q = 1" by (rule steps_of_bounds)
  show ?thesis
  proof (cases "need \<le> 4096 * q")
    case True
    then have "steps_of need = 4096 * q" using q(2,4) assms by (intro steps_unique) auto
    then show ?thesis using True q(1) by (simp add: grow_body_def)
  next
    case False
    define d where "d = need - 4096 * q"
    have d: "need = 4096 * q + d" "0 < d" using False by (simp_all add: d_def)
    let ?c = "d div 4096 + (if d mod 4096 = 0 then 0 else 1)"
    define a r where "a = d div 4096" and "r = d mod 4096"
    have dm: "d = 4096 * a + r" "r < 4096" by (simp_all add: a_def r_def)
    have c: "d \<le> 4096 * ?c" "4096 * ?c < d + 4096" using dm unfolding a_def [symmetric] r_def [symmetric] by auto
    have "steps_of need = 4096 * (q + ?c)" using q(2) d c by (intro steps_unique) (auto simp: distrib_left)
    then show ?thesis using False unfolding grow_body_def q(1) d_def [symmetric] ceil_4096 by (simp add: distrib_left)
  qed
qed

lemma read_login_size:
  assumes "list_all (\<lambda>s. s \<noteq> []) ss" "body_s = steps_of (length body)"
  shows "read_login body_s body ss = (steps_of (length (body @ concat ss)), body @ concat ss)"
  using assms
proof (induction ss arbitrary: body_s body)
  case (Cons s ss)
  then have "grow_body body_s (length body + length s) = steps_of (length (body @ s))"
    using grow_steps [of "length body" "length body + length s"] by simp
  moreover have "list_all (\<lambda>s. s \<noteq> []) ss" "s \<noteq> []" using Cons.prems(1) by simp_all
  ultimately show ?case using Cons.IH [of "steps_of (length (body @ s))" "body @ s"] Cons.prems(2) by simp
qed simp

text \<open>The output of a login handler is taken as it is, unless its length is a multiple of 4096: then the NUL is written
  behind the buffer.\<close>
theorem login_output:
  assumes "list_all (\<lambda>s. s \<noteq> []) pieces"
  shows "external_login_handler pieces =
    (if concat pieces \<noteq> [] \<and> 4096 dvd length (concat pieces) then Fault else Done (cstr (concat pieces)))"
proof -
  have r: "read_login 4096 [] pieces = (steps_of (length (concat pieces)), concat pieces)"
    using read_login_size [OF assms, of 4096 "[]"] by (simp add: steps_of_def)
  have "length x < steps_of (length x) \<longleftrightarrow> \<not> (x \<noteq> [] \<and> 4096 dvd length x)" for x :: string
  proof -
    obtain q where q: "steps_of (length x) = 4096 * q" "0 < q" "length x \<le> 4096 * q" "4096 * q < length x + 4096 \<or> q = 1"
      by (rule steps_of_bounds)
    show ?thesis
    proof
      assume l: "length x < steps_of (length x)"
      show "\<not> (x \<noteq> [] \<and> 4096 dvd length x)"
      proof
        assume h: "x \<noteq> [] \<and> 4096 dvd length x"
        then obtain k where k: "length x = 4096 * k" by blast
        then have "0 < k" using h by (cases k) auto
        moreover have "k < q" using l q(1) k by simp
        then have "4096 * (k + 1) \<le> 4096 * q" by (intro mult_le_mono2) simp
        then have "4096 * k + 4096 \<le> 4096 * q" by simp
        ultimately show False using q(4) k \<open>k < q\<close> by linarith
      qed
    next
      assume "\<not> (x \<noteq> [] \<and> 4096 dvd length x)"
      then have "length x \<noteq> 4096 * q" using q(2) by (cases x) auto
      then show "length x < steps_of (length x)" using q(1,3) by simp
    qed
  qed
  then show ?thesis by (simp add: external_login_handler_def r)
qed

theorem login_output_witness: "external_login_handler [replicate 4000 CHR ''a'', replicate 96 CHR ''b''] = Fault"
  using login_output [of "[replicate 4000 CHR ''a'', replicate 96 CHR ''b'']"] by simp

section \<open>Reports that stop\<close>

text \<open>Time goes on between the pieces.\<close>

fun progress_run :: "(object_update \<Rightarrow> string) \<Rightarrow> (clock \<times> nat \<times> int \<times> nat) list \<Rightarrow> progress \<Rightarrow> progress" where
  "progress_run json [] p = p"
| "progress_run json ((clk, now, written, chunk) # xs) p = progress_run json xs (trail_download_object_progress clk now json written chunk p)"

text \<open>The condition on the timer is the wrong way round: after a pause in which it ran out nothing is reported any more.\<close>

lemma progress_stops:
  assumes "list_all (\<lambda>(clk, now, written, chunk). timer_fin clk (pg_timer p)) xs"
  shows "pg_posted (progress_run json xs p) = pg_posted p"
  using assms
proof (induction json xs p rule: progress_run.induct)
  case (2 json clk now written chunk xs p)
  let ?p = "trail_download_object_progress clk now json written chunk p"
  have "timer_fin clk (pg_timer p)" using "2.prems" by simp
  then have "pg_timer ?p = pg_timer p" "pg_posted ?p = pg_posted p" by (simp_all add: trail_download_object_progress_def Let_def)
  with 2 show ?case by simp
qed simp

end
