(* ===== verification/Network.thy ===== *)
theory Network
  imports Files
begin

text \<open>
  \<open>network.c\<close>: the addresses of the interfaces as JSON for the meta data of the device, and setting up the bridge.
  \<open>pvctl_utils.c\<close>: writing a message to a socket. What the kernel yields is a parameter.
\<close>

section \<open>The addresses of the interfaces\<close>

text \<open>An entry of \<open>getifaddrs\<close>; one may be without an address.\<close>

datatype family = Inet | Inet6 | Packet

record ifentry =
  if_name :: string
  if_family :: "family option"
  if_host :: string

definition if_label :: "ifentry \<Rightarrow> string" where
  "if_label e = if_name e @ (if if_family e = Some Inet then ''.ipv4'' else ''.ipv6'')"

text \<open>The texts with the sizes of their blocks: the addresses of the label \<open>ifn\<close>, and all so far.\<close>

record ifaces =
  ic_ifn :: string
  ic_addrs :: string
  ic_ilen :: nat
  ic_text :: string
  ic_len :: nat

definition add_addr :: "ifentry \<Rightarrow> ifaces \<Rightarrow> ifaces outcome" where
  "add_addr e s = (let same = (ic_ifn s = if_label e);
       ilen = (if same then ic_ilen s else 0) + length (if_host e) + 4;
       addrs = (if same then ic_addrs s @ '','' else []) @ quoted (if_host e)
     in if (same \<and> ic_addrs s = []) \<or> ilen < length addrs + 1 then Fault else Done (s\<lparr>ic_ifn := if_label e, ic_ilen := ilen, ic_addrs := addrs\<rparr>))"

text \<open>The group is closed, with a comma when the list has another entry.\<close>

definition put_iface :: "bool \<Rightarrow> ifaces \<Rightarrow> ifaces outcome" where
  "put_iface another s = (let buf = quoted (ic_ifn s) @ '':['' @ ic_addrs s @ '']''; len = ic_len s + length buf + 1;
       txt = ic_text s @ buf @ (if another then '','' else [])
     in if len < length txt + 1 then Fault else Done (s\<lparr>ic_len := len, ic_text := txt\<rparr>))"

fun walk_ifaces :: "ifentry list \<Rightarrow> ifaces \<Rightarrow> ifaces outcome" where
  "walk_ifaces [] s = Done s"
| "walk_ifaces (e # es) s =
     (if if_family e = None \<or> if_family e = Some Packet then walk_ifaces es s
      else case add_addr e s of Fault \<Rightarrow> Fault
      | Done s1 \<Rightarrow>
         (case es of [] \<Rightarrow> put_iface False s1
          | e' # _ \<Rightarrow> (if if_family e' = None then Fault
              else if ic_ifn s1 = if_label e' then walk_ifaces es s1
              else case put_iface True s1 of Fault \<Rightarrow> Fault | Done s2 \<Rightarrow> walk_ifaces es s2)))"

text \<open>\<open>ifn\<close> is what stands in the array before it is written.\<close>

definition pv_network_update_meta :: "string \<Rightarrow> ifentry list option \<Rightarrow> string option outcome" where
  "pv_network_update_meta ifn entries = (case entries of None \<Rightarrow> Done None
     | Some es \<Rightarrow> (case walk_ifaces es \<lparr>ic_ifn = ifn, ic_addrs = [], ic_ilen = 0, ic_text = ''{'', ic_len = 2\<rparr> of Fault \<Rightarrow> Fault
        | Done s \<Rightarrow> (if ic_len s + 1 < length (ic_text s) + 2 then Fault else Done (Some (ic_text s @ ''}'')))))"

text \<open>What the walk is meant to write: the runs of entries with one label, each with its addresses.\<close>

fun runs :: "ifentry list \<Rightarrow> (string \<times> string list) list" where
  "runs [] = []"
| "runs (e # es) = (case runs es of [] \<Rightarrow> [(if_label e, [if_host e])]
     | (l, hs) # rs \<Rightarrow> (if l = if_label e then (l, if_host e # hs) # rs else (if_label e, [if_host e]) # (l, hs) # rs))"

definition run_json :: "string \<times> string list \<Rightarrow> string" where
  "run_json g = quoted (fst g) @ '':['' @ join '','' (map quoted (snd g)) @ '']''"

lemma runs_hd: "runs (e # es) = (l, hs) # rs \<Longrightarrow> l = if_label e \<and> hs \<noteq> []"
  by (auto split: list.splits prod.splits if_splits)

lemma runs_ne: "\<exists>l hs rs. runs (e # es) = (l, hs) # rs"
  by (auto split: list.splits)

lemma runs_same:
  "if_label e' = if_label e \<Longrightarrow> runs (e' # es) = (l, hs) # rs \<Longrightarrow> runs (e # e' # es) = (l, if_host e # hs) # rs"
  using runs_hd [of e' es l hs rs] by simp

lemma runs_other:
  "if_label e' \<noteq> if_label e \<Longrightarrow> runs (e # e' # es) = (if_label e, [if_host e]) # runs (e' # es)"
  using runs_ne [of e' es] runs_hd [of e' es] by (auto simp del: runs.simps simp: runs.simps(2) [of e])

text \<open>The blocks are long enough, and a label that is pending has addresses.\<close>

definition room :: "ifaces \<Rightarrow> bool" where
  "room s \<longleftrightarrow> (ic_addrs s \<noteq> [] \<longrightarrow> length (ic_addrs s) < ic_ilen s) \<and> length (ic_text s) < ic_len s"

definition pending :: "ifentry \<Rightarrow> ifaces \<Rightarrow> string" where
  "pending e s = (if ic_ifn s = if_label e then ic_addrs s @ '','' else [])"

lemma add_addr_done:
  assumes "room s" "ic_ifn s = if_label e \<longrightarrow> ic_addrs s \<noteq> []"
  obtains s' where "add_addr e s = Done s'" "room s'" "ic_ifn s' = if_label e" "ic_text s' = ic_text s"
    "ic_addrs s' = pending e s @ quoted (if_host e)" "ic_addrs s' \<noteq> []"
  using assms by (cases "ic_ifn s = if_label e") (auto simp: add_addr_def room_def pending_def quoted_def Let_def)

lemma put_iface_done:
  assumes "room s"
  obtains s' where "put_iface another s = Done s'" "room s'" "ic_ifn s' = ic_ifn s" "ic_addrs s' = ic_addrs s"
    "ic_text s' = ic_text s @ quoted (ic_ifn s) @ '':['' @ ic_addrs s @ '']'' @ (if another then '','' else [])"
  using assms by (cases another) (auto simp: put_iface_def room_def Let_def)

lemma walk_runs:
  assumes "\<forall>e \<in> set (e # es). if_family e = Some Inet \<or> if_family e = Some Inet6"
    "room s" "ic_ifn s = if_label e \<longrightarrow> ic_addrs s \<noteq> []" "runs (e # es) = (l, hs) # rs"
  shows "\<exists>s'. walk_ifaces (e # es) s = Done s' \<and> room s' \<and> ic_text s' = ic_text s @
    join '','' ((quoted l @ '':['' @ pending e s @ join '','' (map quoted hs) @ '']'') # map run_json rs)"
  using assms
proof (induction es arbitrary: e s l hs rs)
  case Nil
  from add_addr_done [OF Nil(2,3)] obtain s1 where s1: "add_addr e s = Done s1" "room s1" "ic_ifn s1 = if_label e"
    "ic_text s1 = ic_text s" "ic_addrs s1 = pending e s @ quoted (if_host e)" by metis
  obtain s2 where "put_iface False s1 = Done s2" "room s2"
    "ic_text s2 = ic_text s1 @ quoted (ic_ifn s1) @ '':['' @ ic_addrs s1 @ '']'' @ (if False then '','' else [])"
    using put_iface_done [OF s1(2), of False] by metis
  with s1 Nil show ?case by auto
next
  case (Cons e' es)
  from add_addr_done [OF Cons.prems(2,3)] obtain s1 where s1: "add_addr e s = Done s1" "room s1" "ic_ifn s1 = if_label e"
    "ic_text s1 = ic_text s" "ic_addrs s1 = pending e s @ quoted (if_host e)" "ic_addrs s1 \<noteq> []" by metis
  obtain l' hs' rs' where r: "runs (e' # es) = (l', hs') # rs'" using runs_ne by blast
  note hd = runs_hd [OF r]
  have fam: "\<forall>e \<in> set (e' # es). if_family e = Some Inet \<or> if_family e = Some Inet6" using Cons.prems(1) by simp
  show ?case
  proof (cases "if_label e' = if_label e")
    case True
    have g: "l = l'" "hs = if_host e # hs'" "rs = rs'" using runs_same [OF True r] Cons.prems(4) by simp_all
    have "\<exists>s'. walk_ifaces (e' # es) s1 = Done s' \<and> room s' \<and> ic_text s' = ic_text s1 @
      join '','' ((quoted l' @ '':['' @ pending e' s1 @ join '','' (map quoted hs') @ '']'') # map run_json rs')"
      using Cons.IH [OF fam s1(2) _ r] s1(6) by simp
    moreover have "walk_ifaces (e # e' # es) s = walk_ifaces (e' # es) s1" using s1(1,3) True fam Cons.prems(1) by auto
    moreover have "pending e' s1 @ join '','' (map quoted hs') = pending e s @ join '','' (map quoted hs)"
      using s1(3,5) True g(2) hd by (simp add: pending_def [of e'] join_Cons)
    ultimately show ?thesis using s1(4) g(1,3) by (metis append_assoc)
  next
    case False
    have g: "l = if_label e" "hs = [if_host e]" "rs = (l', hs') # rs'" using runs_other [OF False] Cons.prems(4) r by simp_all
    obtain s2 where s2: "put_iface True s1 = Done s2" "room s2" "ic_ifn s2 = ic_ifn s1"
      "ic_text s2 = ic_text s1 @ quoted (ic_ifn s1) @ '':['' @ ic_addrs s1 @ '']'' @ (if True then '','' else [])"
      using put_iface_done [OF s1(2), of True] by metis
    have "\<exists>s'. walk_ifaces (e' # es) s2 = Done s' \<and> room s' \<and> ic_text s' = ic_text s2 @
      join '','' ((quoted l' @ '':['' @ pending e' s2 @ join '','' (map quoted hs') @ '']'') # map run_json rs')"
      using Cons.IH [OF fam s2(2) _ r] s2(3) s1(3) False by simp
    moreover have "walk_ifaces (e # e' # es) s = walk_ifaces (e' # es) s2" using s1(1,3) s2(1) False fam Cons.prems(1) by auto
    moreover have "pending e' s2 = []" using False s1(3) s2(3) by (simp add: pending_def)
    moreover have "run_json (l', hs') = quoted l' @ '':['' @ [] @ join '','' (map quoted hs') @ '']''" by (simp add: run_json_def)
    ultimately show ?thesis using s1(3,4,5) s2(4) g
      by (auto simp: join_Cons simp del: walk_ifaces.simps runs.simps)
  qed
qed

text \<open>C35: The meta data of the interfaces is right: when the addresses follow the packet entries and every
  entry has an address, the text is a JSON object with one array for each run of entries of one
  interface and family, with the addresses of that run in their order, and no block is overrun.\<close>
theorem interfaces_as_runs:
  assumes "\<forall>e \<in> set ps. if_family e = Some Packet" "es \<noteq> []"
    "\<forall>e \<in> set es. if_family e = Some Inet \<or> if_family e = Some Inet6" "ifn \<noteq> if_label (hd es)"
  shows "pv_network_update_meta ifn (Some (ps @ es)) = Done (Some (''{'' @ join '','' (map run_json (runs es)) @ ''}''))"
proof -
  obtain e es' where es: "es = e # es'" using assms(2) by (cases es) auto
  obtain l hs rs where r: "runs (e # es') = (l, hs) # rs" using runs_ne by blast
  let ?s = "\<lparr>ic_ifn = ifn, ic_addrs = [], ic_ilen = 0, ic_text = ''{'', ic_len = 2\<rparr>"
  have "\<exists>s'. walk_ifaces es ?s = Done s' \<and> room s' \<and> ic_text s' = ic_text ?s @
      join '','' ((quoted l @ '':['' @ pending e ?s @ join '','' (map quoted hs) @ '']'') # map run_json rs)"
    unfolding es by (rule walk_runs) (use assms es r in \<open>auto simp: room_def\<close>)
  moreover have "walk_ifaces (ps @ es) ?s = walk_ifaces es ?s" using assms(1) by (induction ps) auto
  ultimately show ?thesis using r assms(4) es
    by (auto simp: pv_network_update_meta_def pending_def run_json_def room_def simp del: runs.simps)
qed

definition wlan :: "family \<Rightarrow> string \<Rightarrow> ifentry" where "wlan f a = \<lparr>if_name = ''w'', if_family = Some f, if_host = a\<rparr>"

theorem interfaces_as_runs_witness:
  "pv_network_update_meta [] (Some ([wlan Packet []] @ [wlan Inet ''1'', wlan Inet ''2'', wlan Inet6 ''::1''])) =
     Done (Some (''{'' @ quoted ''w.ipv4'' @ '':['' @ quoted ''1'' @ '','' @ quoted ''2'' @ ''],'' @
       quoted ''w.ipv6'' @ '':['' @ quoted ''::1'' @ '']}''))"
  using interfaces_as_runs [of "[wlan Packet []]" "[wlan Inet ''1'', wlan Inet ''2'', wlan Inet6 ''::1'']" "[]"]
  by (simp add: wlan_def if_label_def run_json_def)

text \<open>Otherwise not: a packet entry at the end leaves a comma before the brace, and an entry without an address
  is skipped only where no address stands before it.\<close>

lemma interfaces_trailing_comma:
  "pv_network_update_meta [] (Some [wlan Inet ''1'', wlan Packet []]) = Done (Some (''{'' @ run_json (''w.ipv4'', [''1'']) @ '',}''))"
  by (simp add: pv_network_update_meta_def wlan_def if_label_def add_addr_def put_iface_def run_json_def quoted_def)

lemma interfaces_null_address:
  "pv_network_update_meta [] (Some [wlan Inet ''1'', (wlan Inet ''2'')\<lparr>if_family := None\<rparr>]) = Fault"
  by (simp add: pv_network_update_meta_def wlan_def if_label_def add_addr_def quoted_def)

section \<open>The bridge\<close>

datatype bridge_step = Add_bridge | Get_flags | Set_flags | Set_address | Set_netmask

text \<open>The steps that are made until one fails; that the bridge cannot be added is only logged.\<close>

fun bridge_steps :: "(bridge_step \<Rightarrow> int) \<Rightarrow> bridge_step list \<Rightarrow> int \<times> bridge_step list" where
  "bridge_steps f [] = (0, [])"
| "bridge_steps f (b # bs) = (if f b < 0 then (f b, [b]) else case bridge_steps f bs of (r, l) \<Rightarrow> (if bs = [] then f b else r, b # l))"



text \<open>The name is copied with the size of the field, whatever its own length is.\<close>

definition pv_network_early_init :: "bool \<Rightarrow> (bridge_step \<Rightarrow> int) \<Rightarrow> pantavisor_network \<Rightarrow> (int \<times> bridge_step list) outcome" where
  "pv_network_early_init sock f c = (case brdev c of None \<Rightarrow> Done (-1, [])
     | Some dev \<Rightarrow> (if \<not> sock then Done (-1, [])
         else if length dev + 1 < 16 then Fault
         else case bridge_steps f [Get_flags, Set_flags, Set_address, Set_netmask] of (r, l) \<Rightarrow> Done (r, Add_bridge # l)))"

section \<open>Writing to a socket\<close>

text \<open>The \<open>i\<close>th try to connect: no socket, refused with an error number, or connected. Between two tries two seconds pass.\<close>

datatype try_connect = No_socket int | Refused int | Connected int

fun open_socket :: "(nat \<Rightarrow> try_connect) \<Rightarrow> nat \<Rightarrow> nat \<Rightarrow> int \<times> nat" where
  "open_socket con retries i = (case con i of No_socket fd \<Rightarrow> (fd, 0)
     | Connected fd \<Rightarrow> (fd, 0)
     | Refused errno \<Rightarrow> (case retries of 0 \<Rightarrow> (- errno, 0)
         | Suc n \<Rightarrow> (case open_socket con n (i + 1) of (r, waited) \<Rightarrow> (r, waited + 2))))"

declare open_socket.simps [simp del]

text \<open>The result is the number of bytes that are left, with what was sent.\<close>

definition pvctl_write_to_path :: "(nat \<Rightarrow> try_connect) \<Rightarrow> string \<Rightarrow> write_result list \<Rightarrow> (int \<times> string) option" where
  "pvctl_write_to_path con buf rs = (if fst (open_socket con 5 0) < 0 then Some (-1, [])
     else map_option (\<lambda>(sent, left). (int (length left), sent)) (write_all buf rs))"

lemma open_socket_waits: "snd (open_socket con n i) \<le> 2 * n"
proof (induction n arbitrary: i)
  case (Suc n)
  show ?case using Suc [of "i + 1"]
    by (subst open_socket.simps) (auto split: try_connect.splits prod.splits)
qed (subst open_socket.simps, auto split: try_connect.splits)

text \<open>What \<open>pvctl_write_to_path\<close> returns tells the truth: when it returns, what it sent is the beginning
  of the message; the result is zero exactly when all was sent, else the number of bytes left, or
  minus one when there was no connection, and then nothing was sent.\<close>
theorem write_result_exact:
  assumes "pvctl_write_to_path con buf rs = Some (r, sent)" "buf \<noteq> []"
  shows "(r = 0 \<longleftrightarrow> sent = buf) \<and> (r = -1 \<longrightarrow> sent = []) \<and> (0 \<le> r \<longrightarrow> sent = take (length buf - nat r) buf)"
proof (cases "fst (open_socket con 5 0) < 0")
  case False
  then obtain left where w: "write_all buf rs = Some (sent, left)" "r = int (length left)"
    using assms(1) by (auto simp: pvctl_write_to_path_def)
  from write_all_split [OF w(1)] have "buf = sent @ left" by simp
  with w(2) show ?thesis by auto
qed (use assms in \<open>auto simp: pvctl_write_to_path_def\<close>)

theorem write_result_exact_witness:
  "pvctl_write_to_path (\<lambda>i. if i = 0 then Refused 111 else Connected 3) ''hello'' [Wrote 2, Interrupted, Write_error] = Some (3, ''he'') \<and>
   ''he'' = take (length ''hello'' - nat 3) ''hello''"
proof -
  have o5: "open_socket (\<lambda>i. if i = 0 then Refused 111 else Connected 3) (Suc 4) 0 = (3, 2)"
    by (subst open_socket.simps, simp, subst open_socket.simps, simp)
  have w: "write_all ''hello'' [Wrote 2, Interrupted, Write_error] = Some (''he'', ''llo'')"
    by (subst write_all.simps, simp add: numeral_eq_Suc, subst write_all.simps, simp, subst write_all.simps, simp)
  have p: "pvctl_write_to_path (\<lambda>i. if i = 0 then Refused 111 else Connected 3) ''hello'' [Wrote 2, Interrupted, Write_error] = Some (3, ''he'')"
    using o5 w by (simp add: pvctl_write_to_path_def)
  have "''he'' = take (length ''hello'' - nat 3) ''hello''" using write_result_exact [OF p] by (simp only: list.simps) auto
  with p show ?thesis by (rule conjI)
qed

end
