(* ===== verification/Container.thy ===== *)
theory Container
  imports Platforms Text
begin

text \<open>
  \<open>plugins/pv_lxc.c\<close>: the plugin that starts a platform as a container. The library liblxc, the files of the
  host and the results of \<open>fork\<close> are parameters; what is set in the configuration of the container is a list of keys and
  values in the order in which it is set.
\<close>

type_synonym items = "(string \<times> string) list"

text \<open>What the library answers about a key after some items were set: its text, empty when there is none, and
  whether asking for its length yields another number than 0. What the host has: files, the release of the kernel, the command line and the hooks.\<close>

record lxc_env =
  xe_get :: "items \<Rightarrow> string \<Rightarrow> string"
  xe_nonzero :: "items \<Rightarrow> string \<Rightarrow> bool"
  xe_stat :: "string \<Rightarrow> bool"
  xe_size :: "string \<Rightarrow> int option"
  xe_release :: "string option"
  xe_cmdline :: "string option"
  xe_hooks :: "string list option"
  xe_level :: int
  xe_capture :: bool
  xe_running :: string

section \<open>The files that are bound into a container\<close>

text \<open>A name of a directory: one that cannot be looked at, one that is no directory, or a directory.\<close>

datatype centry = Gone string | Leaf string | Folder string "centry list"

fun centry_name :: "centry \<Rightarrow> string" where
  "centry_name (Gone n) = n"
| "centry_name (Leaf n) = n"
| "centry_name (Folder n es) = n"

definition mount_line :: "string \<Rightarrow> string \<Rightarrow> string \<times> string" where
  "mount_line path inpath = (''lxc.mount.entry'', path @ '' '' @ inpath @ '' none bind,rw,create=file 0 0'')"

fun bind_entry :: "string \<Rightarrow> string \<Rightarrow> centry \<Rightarrow> items outcome"
  and bind_entries :: "string \<Rightarrow> string \<Rightarrow> centry list \<Rightarrow> items outcome" where
  "bind_entry src base e =
     (if centry_name e = ''.'' \<or> centry_name e = ''..'' then Done []
      else let path = src @ ''/'' @ centry_name e in
        if 512 < length path + 1 then Fault
        else case e of Gone n \<Rightarrow> Done []
          | Leaf n \<Rightarrow> Done [mount_line path (dropWhile (\<lambda>c. c = CHR ''/'') (drop (length base) path))]
          | Folder n es \<Rightarrow> bind_entries path base es)"
| "bind_entries src base [] = Done []"
| "bind_entries src base (e # es) = (case bind_entry src base e of Fault \<Rightarrow> Fault
     | Done a \<Rightarrow> (case bind_entries src base es of Fault \<Rightarrow> Fault | Done b \<Rightarrow> Done (a @ b)))"

text \<open>\<open>None\<close>: the directory does not open.\<close>

definition pv_setup_config_bindmounts :: "string \<Rightarrow> centry list option \<Rightarrow> (bool \<times> items) outcome" where
  "pv_setup_config_bindmounts srcdir tree = (case tree of None \<Rightarrow> Done (False, [])
     | Some es \<Rightarrow> (case bind_entries srcdir srcdir es of Fault \<Rightarrow> Fault | Done is \<Rightarrow> Done (True, is)))"

section \<open>Setting up a container\<close>

text \<open>The command line without consoles. Both buffers have 1024 bytes.\<close>

definition strip_consoles :: "string \<Rightarrow> string outcome" where
  "strip_consoles cmdline = (if NUL \<notin> set (take 1024 cmdline) \<and> 1024 \<le> length cmdline then Fault
     else let new = concat (map (\<lambda>t. t @ '' '') (filter (\<lambda>t. \<not> strneq t ''console='' 8) (strtok CHR '' '' (cstr (take 1024 cmdline)))))
       in if 1024 < length new + 1 then Fault else Done new)"

definition container_type :: "int \<Rightarrow> string" where
  "container_type rl = (if rl = RUNLEVEL_DATA then ''pv-data'' else if rl = RUNLEVEL_ROOT then ''pv-root''
     else if rl = RUNLEVEL_PLATFORM then ''pv-platform'' else if rl = RUNLEVEL_APP then ''pv-app'' else ''pv-unknown'')"

definition control_mounts :: "platform \<Rightarrow> string \<Rightarrow> items outcome" where
  "control_mounts p rv =
     (if p_mgmt p then Done [(''lxc.mount.entry'', ''/pv pantavisor none bind,ro,create=dir 0 0''),
        (''lxc.mount.entry'', ''/pv/logs pantavisor/logs none bind,ro,create=dir 0 0''),
        (''lxc.mount.entry'', ''/pv/user-meta pantavisor/user-meta none bind,ro,create=dir 0 0'')]
      else let logs = ''/pv/logs/'' @ rv @ ''/'' @ p_name p @ '' pantavisor/logs none bind,ro,create=dir 0 0'';
             meta = ''/pv/user-meta.'' @ p_name p @ '' pantavisor/user-meta none bind,ro,create=dir 0 0'' in
        if 1024 < length logs + 1 \<or> 1024 < length meta + 1 then Fault
        else Done [(''lxc.mount.entry'', ''/pv/pv-ctrl-log pantavisor/pv-ctrl-log none bind,rw,create=file 0 0''),
          (''lxc.mount.entry'', logs), (''lxc.mount.entry'', meta)])"

definition module_mounts :: "lxc_env \<Rightarrow> items outcome" where
  "module_mounts x = (case xe_release x of None \<Rightarrow> Done []
     | Some rel \<Rightarrow> (if \<not> xe_stat x ''/volumes/modules.squashfs'' then Done []
         else let e = ''/volumes/modules.squashfs lib/modules/'' @ rel @ '' none bind,ro,create=dir 0 0'' in
           if 1024 < length e + 1 then Fault else Done [(''lxc.mount.entry'', e)]))"

definition console_items :: "lxc_env \<Rightarrow> string \<Rightarrow> items \<Rightarrow> items" where
  "console_items x name is = is
     @ (if xe_capture x \<and> xe_get x is ''lxc.console.logfile'' = [] then
          [(''lxc.console.logfile'', take 1023 (''/pv/logs/'' @ xe_running x @ ''/'' @ name @ ''/lxc/console.log''))] else [])"

definition size_items :: "lxc_env \<Rightarrow> items \<Rightarrow> items" where
  "size_items x is = is @ (if xe_nonzero x is ''lxc.console.size'' then [(''lxc.console.size'', ''2MB'')] else [])"

definition hook_items :: "lxc_env \<Rightarrow> items" where
  "hook_items x = (case xe_hooks x of None \<Rightarrow> []
     | Some ns \<Rightarrow> map (\<lambda>n. (''lxc.hook.mount'', ''/lib/pv/hooks_lxc-mount.d/'' @ n)) (filter (\<lambda>n. n \<noteq> ''.'' \<and> n \<noteq> ''..'') ns))"

text \<open>The items, the type, and the command line that is written to a temporary file.\<close>

definition pv_setup_lxc_container :: "lxc_env \<Rightarrow> platform \<Rightarrow> string \<Rightarrow> (items \<times> string \<times> string option) outcome" where
  "pv_setup_lxc_container x p rv =
     (let level = (if xe_nonzero x [] ''lxc.log.level'' then [(''lxc.log.level'', take 31 (show_int (xe_level x)))] else []) in
      case control_mounts p rv of Fault \<Rightarrow> Fault
      | Done ctl \<Rightarrow> (case module_mounts x of Fault \<Rightarrow> Fault
        | Done mods \<Rightarrow>
           (let firm = (if xe_stat x ''/lib/firmware'' then [(''lxc.mount.entry'', ''/lib/firmware lib/firmware none bind,ro,create=dir 0 0'')] else []);
                is = size_items x (console_items x (p_name p) (level @ ctl @ firm @ mods)) @ hook_items x in
            case xe_cmdline x of None \<Rightarrow> Done (is, container_type (p_runlevel p), None)
            | Some l \<Rightarrow> (case strip_consoles l of Fault \<Rightarrow> Fault
               | Done new \<Rightarrow> Done (is, container_type (p_runlevel p), Some new)))))"

section \<open>Loggers of a container\<close>

text \<open>A default logger is added at the front, unless a configuration has the key or there is no console.\<close>

definition has_key :: "logger_config \<Rightarrow> string \<Rightarrow> bool" where
  "has_key c k \<longleftrightarrow> list_ex (\<lambda>(k', v). strneq k' k (length k)) c"

definition pv_setup_default_log :: "lxc_env \<Rightarrow> items \<Rightarrow> string \<Rightarrow> logger_config list \<Rightarrow> logger_config list" where
  "pv_setup_default_log x is key cs =
     (if strneq ''console'' key 7 \<and> xe_get x is ''lxc.console.path'' = ''none'' then cs
      else if list_ex (\<lambda>c. has_key c key) cs then cs else [(key, Some ''enable'')] # cs)"

text \<open>Files under the directory of the revision are pushed without a logger.\<close>

definition pv_setup_lxc_log :: "lxc_env \<Rightarrow> items \<Rightarrow> string \<Rightarrow> log_info \<Rightarrow> log_info option" where
  "pv_setup_lxc_log x is key l =
     (let file = xe_get x is key; pre = take 4095 (''/pv/logs/'' @ xe_running x @ ''/'') in
      if file = [] \<or> strneq pre file (length pre) then None
      else Some (l\<lparr>l_logfile := Some file, l_truncate_size := 2 * 1024 * 1024\<rparr>))"

definition log_key :: "logger_config \<Rightarrow> string option" where
  "log_key c = (if has_key c ''lxc'' then Some ''lxc.log.file''
     else if has_key c ''console'' then Some ''lxc.console.logfile'' else None)"

definition pv_create_lxc_log :: "lxc_env \<Rightarrow> items \<Rightarrow> platform \<Rightarrow> logger_config \<Rightarrow> log_info option" where
  "pv_create_lxc_log x is p c = (case log_key c of None \<Rightarrow> None
     | Some key \<Rightarrow>
        (case pv_new_log True c (Some (take 127 (p_name p @ ''-'' @ (if key = ''lxc.console.logfile'' then ''console'' else ''lxc'')))) of None \<Rightarrow> None
         | Some l \<Rightarrow> pv_setup_lxc_log x is key l))"

text \<open>The file that is cut, if any; a threshold of zero always cuts.\<close>

definition pv_truncate_lxc_log :: "lxc_env \<Rightarrow> items \<Rightarrow> int \<Rightarrow> string \<Rightarrow> string list" where
  "pv_truncate_lxc_log x is threshold key =
     (let file = (if xe_get x is key = [] then ''/pv/logs/'' @ xe_running x @ ''/lxc.log'' else xe_get x is key) in
      if threshold = 0 then [file]
      else case xe_size x file of None \<Rightarrow> [] | Some n \<Rightarrow> (if threshold \<le> n then [file] else []))"

text \<open>\<open>sscanf\<close> leaves the number alone when there is none.\<close>

definition scan_size :: "string option \<Rightarrow> int \<Rightarrow> int" where
  "scan_size so old = (case so of None \<Rightarrow> old
     | Some t \<Rightarrow> (case dropWhile is_space t of [] \<Rightarrow> old
         | c # r \<Rightarrow> (if is_digit c \<or> (c \<in> {CHR ''+'', CHR ''-''} \<and> r \<noteq> [] \<and> is_digit (hd r)) then atoi t else old)))"

text \<open>The loggers in front of the old ones, the configurations that stay, and the files that were cut.\<close>

fun lxc_loggers :: "lxc_env \<Rightarrow> items \<Rightarrow> platform \<Rightarrow> logger_config list \<Rightarrow> log_info list \<Rightarrow> log_info list \<times> logger_config list \<times> string list" where
  "lxc_loggers x is p [] ls = (ls, [], [])"
| "lxc_loggers x is p (c # cs) ls = (case pv_create_lxc_log x is p c of
       None \<Rightarrow> (case lxc_loggers x is p cs ls of (ls', cs', fs) \<Rightarrow> (ls', c # cs', fs))
     | Some l0 \<Rightarrow>
        (let l = l0\<lparr>l_truncate_size := scan_size (config_item c ''maxsize'') (l_truncate_size l0)\<rparr>;
             cut = (if config_item c ''lxc'' \<noteq> None then pv_truncate_lxc_log x is (l_truncate_size l) ''lxc.log.file''
               else if config_item c ''console'' \<noteq> None then pv_truncate_lxc_log x is (l_truncate_size l) ''lxc.console.logfile'' else [])
         in case lxc_loggers x is p cs (l # ls) of (ls', cs', fs) \<Rightarrow> (ls', cs', cut @ fs)))"

section \<open>Starting and stopping\<close>

text \<open>The results of the calls: making a container, the pipe and \<open>fork\<close> in the parent; in the child making and loading a
  container, whether it started and its error number, and its process; and loading in the parent. \<open>None\<close> for the
  tree of \<open>/configs/<name>\<close> when it does not open.\<close>

record start_env =
  se_new :: bool
  se_pipe :: bool
  se_fork :: int
  se_child_new :: bool
  se_child_load :: bool
  se_started :: bool
  se_error_num :: int
  se_init_pid :: int
  se_parent_load :: bool
  se_tree :: "centry list option"

text \<open>What the child does: the items the container is started with, if it is, and the number sent to the parent. A child that faults
  sends none, which the parent takes for -1.\<close>

definition lxc_child :: "lxc_env \<Rightarrow> start_env \<Rightarrow> platform \<Rightarrow> string \<Rightarrow> (items option \<times> int) outcome" where
  "lxc_child x s p rv =
     (if \<not> se_child_new s \<or> \<not> se_child_load s then Done (None, -1)
      else case pv_setup_lxc_container x p rv of Fault \<Rightarrow> Fault
      | Done (is, ty, cmd) \<Rightarrow>
         (let is1 = is @ (case p_exec p of None \<Rightarrow> [] | Some e \<Rightarrow> [(''lxc.init.cmd'', e)]) in
          case pv_setup_config_bindmounts (''/configs/'' @ p_name p) (se_tree s) of Fault \<Rightarrow> Fault
          | Done (_, bs) \<Rightarrow> Done (Some (is1 @ bs),
              if \<not> se_started s \<and> se_error_num s \<noteq> 1 then -1 else se_init_pid s)))"

definition child_pid :: "lxc_env \<Rightarrow> start_env \<Rightarrow> platform \<Rightarrow> string \<Rightarrow> int" where
  "child_pid x s p rv = (case lxc_child x s p rv of Fault \<Rightarrow> -1 | Done (_, pid) \<Rightarrow> pid)"

text \<open>The container in the parent: whether it is there, the number that is stored for the platform, the platform with its loggers, the
  processes that are killed and the files that are cut.\<close>

record lxc_result =
  lr_container :: bool
  lr_pid :: "int option"
  lr_platform :: platform
  lr_killed :: "int list"
  lr_cut :: "string list"

definition lxc_none :: "int option \<Rightarrow> platform \<Rightarrow> int list \<Rightarrow> lxc_result" where
  "lxc_none pid p killed = \<lparr>lr_container = False, lr_pid = pid, lr_platform = p, lr_killed = killed, lr_cut = []\<rparr>"

definition pv_start_container :: "lxc_env \<Rightarrow> start_env \<Rightarrow> platform \<Rightarrow> string \<Rightarrow> lxc_result outcome" where
  "pv_start_container x s p rv =
     (if \<not> se_new s \<or> \<not> se_pipe s \<or> se_fork s < 0 then Done (lxc_none None p [])
      else let pid = child_pid x s p rv in
        if pid \<le> 0 then Done (lxc_none None p [])
        else if \<not> se_parent_load s then Done (lxc_none (Some pid) p [pid])
        else case pv_setup_lxc_container x p rv of Fault \<Rightarrow> Fault
        | Done (is, ty, cmd) \<Rightarrow>
           (if \<not> xe_capture x then Done \<lparr>lr_container = True, lr_pid = Some pid, lr_platform = p, lr_killed = [], lr_cut = []\<rparr>
            else case lxc_loggers x is p (pv_setup_default_log x is ''console'' (pv_setup_default_log x is ''lxc'' (p_logger_configs p)))
                (p_loggers p) of (ls, cs, fs) \<Rightarrow>
              Done \<lparr>lr_container = True, lr_pid = Some pid, lr_platform = p\<lparr>p_loggers := ls, p_logger_configs := cs\<rparr>,
                lr_killed = [], lr_cut = fs\<rparr>))"

text \<open>Stopping shuts down and releases a container that is there.\<close>

datatype stop_call = Shutdown | Put_container

definition pv_stop_container :: "bool \<Rightarrow> stop_call list" where
  "pv_stop_container data = (if data then [Shutdown, Put_container] else [])"

section \<open>What is bound into a container\<close>

text \<open>The paths of the files below a directory, as lists of names.\<close>

fun leaf_paths :: "centry \<Rightarrow> string list list" where
  "leaf_paths (Gone n) = []"
| "leaf_paths (Leaf n) = (if n = ''.'' \<or> n = ''..'' then [] else [[n]])"
| "leaf_paths (Folder n es) = (if n = ''.'' \<or> n = ''..'' then [] else map ((#) n) (concat (map leaf_paths es)))"

fun names_ok :: "centry \<Rightarrow> bool" where
  "names_ok (Gone n) \<longleftrightarrow> n \<noteq> [] \<and> CHR ''/'' \<notin> set n"
| "names_ok (Leaf n) \<longleftrightarrow> n \<noteq> [] \<and> CHR ''/'' \<notin> set n"
| "names_ok (Folder n es) \<longleftrightarrow> n \<noteq> [] \<and> CHR ''/'' \<notin> set n \<and> list_all names_ok es"

definition slashed :: "string list \<Rightarrow> string" where
  "slashed ds = concat (map ((#) CHR ''/'') ds)"

lemma slashed_simps [simp]: "slashed [] = []" "slashed (d # ds) = CHR ''/'' # d @ slashed ds"
  by (simp_all add: slashed_def)

lemma slashed_append [simp]: "slashed (ds @ es) = slashed ds @ slashed es"
  by (simp add: slashed_def)

lemma drop_slashes:
  "ds \<noteq> [] \<Longrightarrow> hd ds \<noteq> [] \<Longrightarrow> CHR ''/'' \<notin> set (hd ds) \<Longrightarrow> dropWhile (\<lambda>c. c = CHR ''/'') (slashed ds) = tl (slashed ds)"
  by (cases ds; cases "hd ds") auto

definition bound_at :: "string \<Rightarrow> string list \<Rightarrow> string \<times> string" where
  "bound_at base ds = mount_line (base @ slashed ds) (tl (slashed ds))"

definition names_front :: "string list \<Rightarrow> bool" where
  "names_front ds \<longleftrightarrow> ds \<noteq> [] \<longrightarrow> hd ds \<noteq> [] \<and> CHR ''/'' \<notin> set (hd ds)"

lemma names_ok_name: "names_ok e \<Longrightarrow> centry_name e \<noteq> [] \<and> CHR ''/'' \<notin> set (centry_name e)"
  by (cases e) auto

lemma bind_leaves:
  "src = base @ slashed ds \<Longrightarrow> names_front ds \<Longrightarrow> names_ok e \<Longrightarrow> bind_entry src base e = Done is \<Longrightarrow>
     is = map (\<lambda>r. bound_at base (ds @ r)) (leaf_paths e)"
  "src = base @ slashed ds \<Longrightarrow> names_front ds \<Longrightarrow> list_all names_ok es \<Longrightarrow> bind_entries src base es = Done is \<Longrightarrow>
     is = map (\<lambda>r. bound_at base (ds @ r)) (concat (map leaf_paths es))"
proof (induction src base e and src base es arbitrary: ds "is" and ds "is" rule: bind_entry_bind_entries.induct)
  case (1 src base e)
  note nm = names_ok_name [OF 1(4)]
  show ?case
  proof (cases "centry_name e = ''.'' \<or> centry_name e = ''..''")
    case True
    then show ?thesis using 1(5) by (cases e) auto
  next
    case False
    have len: "\<not> 512 < length (src @ ''/'' @ centry_name e) + 1" using 1(5) False by (auto simp: Let_def split: if_splits)
    have front: "names_front (ds @ [centry_name e])" using 1(3) nm by (cases ds) (auto simp: names_front_def)
    show ?thesis
    proof (cases e)
      case (Gone n)
      then show ?thesis using 1(5) False len by (auto simp: Let_def split: if_splits)
    next
      case (Leaf n)
      have "dropWhile (\<lambda>c. c = CHR ''/'') (slashed (ds @ [n])) = tl (slashed (ds @ [n]))"
        using front Leaf by (intro drop_slashes) (auto simp: names_front_def)
      then show ?thesis using 1(2,5) False len Leaf by (auto simp: bound_at_def Let_def split: if_splits)
    next
      case (Folder n es)
      have "bind_entries (src @ ''/'' @ n) base es = Done is" using 1(5) False len Folder by (auto simp: Let_def split: if_splits)
      moreover have "src @ ''/'' @ n = base @ slashed (ds @ [n])" using 1(2) by simp
      ultimately have "is = map (\<lambda>r. bound_at base ((ds @ [n]) @ r)) (concat (map leaf_paths es))"
        using 1(1) [of _ n es "ds @ [n]" "is"] False len front Folder 1(4) by auto
      then show ?thesis using Folder False by (simp add: comp_def)
    qed
  qed
next
  case (3 src base e es)
  then show ?case by (auto split: outcome.splits)
qed simp

text \<open>C38: The files below the directory of a platform's configuration are bound into its container, each once and at its own
  path below that directory; directories and names that cannot be looked at are not.\<close>
theorem config_files_bound:
  assumes "pv_setup_config_bindmounts dir (Some es) = Done (ok, is)" "list_all names_ok es"
  shows "ok \<and> is = map (\<lambda>r. mount_line (dir @ slashed r) (tl (slashed r))) (concat (map leaf_paths es))"
proof -
  have "bind_entries dir dir es = Done is" and ok: ok
    using assms(1) by (auto simp: pv_setup_config_bindmounts_def split: outcome.splits)
  then have "is = map (\<lambda>r. bound_at dir ([] @ r)) (concat (map leaf_paths es))"
    by (intro bind_leaves(2)) (use assms(2) in \<open>auto simp: names_front_def\<close>)
  with ok show ?thesis by (simp add: bound_at_def)
qed

theorem config_files_bound_witness:
  "\<exists>is. pv_setup_config_bindmounts ''/configs/a'' (Some [Leaf ''.'', Folder ''etc'' [Leaf ''hosts'', Gone ''x''], Leaf ''b'']) = Done (True, is)
    \<and> map snd is = [''/configs/a/etc/hosts etc/hosts none bind,rw,create=file 0 0'', ''/configs/a/b b none bind,rw,create=file 0 0'']"
proof -
  let ?es = "[Leaf ''.'', Folder ''etc'' [Leaf ''hosts'', Gone ''x''], Leaf ''b'']"
  obtain "is" where r: "pv_setup_config_bindmounts ''/configs/a'' (Some ?es) = Done (True, is)"
    by (simp add: pv_setup_config_bindmounts_def)
  have n: "list_all names_ok ?es" by simp
  from config_files_bound [OF r n] r show ?thesis by (simp add: mount_line_def)
qed

section \<open>Facts about starting\<close>

text \<open>The set-up fails in the same way in the parent as in the child, which goes first.\<close>

lemma child_setup: "0 < child_pid x s p rv \<Longrightarrow> \<exists>r. pv_setup_lxc_container x p rv = Done r"
  by (auto simp: child_pid_def lxc_child_def split: outcome.splits if_splits)

text \<open>The parent never faults, also where the child does; a container that is returned has a process, whose number is
  stored; and when none is returned although the child reported a process, that process is killed.\<close>

lemma container_or_killed:
  "\<exists>r. pv_start_container x s p rv = Done r
    \<and> (lr_container r \<longrightarrow> lr_pid r = Some (child_pid x s p rv) \<and> 0 < child_pid x s p rv \<and> lr_killed r = [])
    \<and> (\<not> lr_container r \<and> se_new s \<and> se_pipe s \<and> 0 \<le> se_fork s \<and> 0 < child_pid x s p rv \<longrightarrow> lr_killed r = [child_pid x s p rv])"
proof (cases "0 < child_pid x s p rv")
  case True
  then obtain "is" ty cmd where "pv_setup_lxc_container x p rv = Done (is, ty, cmd)" using child_setup by (metis prod_cases3)
  with True show ?thesis by (auto simp: pv_start_container_def lxc_none_def Let_def split: prod.splits)
qed (auto simp: pv_start_container_def lxc_none_def Let_def)

text \<open>The plugin as the runtime of \<open>platforms.c\<close>: a container is given by an address, and the number of its process is -1
  when none was stored.\<close>

definition lxc_start :: "(platform \<Rightarrow> lxc_env) \<Rightarrow> (platform \<Rightarrow> start_env) \<Rightarrow> nat \<Rightarrow> platform \<Rightarrow> string \<Rightarrow> string \<Rightarrow> nat option \<times> int" where
  "lxc_start env start addr p rv conf = (case pv_start_container (env p) (start p) p rv of Fault \<Rightarrow> (None, -1)
     | Done r \<Rightarrow> (if lr_container r then Some addr else None, case lr_pid r of None \<Rightarrow> -1 | Some pid \<Rightarrow> pid))"

definition lxc_killed :: "(platform \<Rightarrow> lxc_env) \<Rightarrow> (platform \<Rightarrow> start_env) \<Rightarrow> platform \<Rightarrow> string \<Rightarrow> int list" where
  "lxc_killed env start p rv = (case pv_start_container (env p) (start p) p rv of Fault \<Rightarrow> [] | Done r \<Rightarrow> lr_killed r)"

definition forked :: "start_env \<Rightarrow> bool" where
  "forked s \<longleftrightarrow> se_new s \<and> se_pipe s \<and> 0 \<le> se_fork s"

text \<open>C12: A platform is started whole or not at all: with this plugin the start succeeds exactly with a process of the
  container, whose number the platform then has; when it fails the platform is unchanged, and a
  process that the child had reported is killed. A crash of the child is a failed start.\<close>
theorem platform_whole_or_killed:
  assumes "rt_start rt = lxc_start env start addr" "pv_platforms_start_platform rt s p = Done (r, p')"
  shows "(r = 0 \<and> p_status p' = PLAT_STARTED \<and> p_init_pid p' = child_pid (env p) (start p) p (s_rev s) \<and> 0 < p_init_pid p'
       \<and> lxc_killed env start p (s_rev s) = [])
    \<or> (r = -1 \<and> p' = p \<and> (forked (start p) \<and> 0 < child_pid (env p) (start p) p (s_rev s) \<longrightarrow>
         lxc_killed env start p (s_rev s) = [child_pid (env p) (start p) p (s_rev s)]))"
proof -
  obtain x where x: "pv_start_container (env p) (start p) p (s_rev s) = Done x"
    "lr_container x \<longrightarrow> lr_pid x = Some (child_pid (env p) (start p) p (s_rev s)) \<and> 0 < child_pid (env p) (start p) p (s_rev s) \<and> lr_killed x = []"
    "\<not> lr_container x \<and> se_new (start p) \<and> se_pipe (start p) \<and> 0 \<le> se_fork (start p) \<and> 0 < child_pid (env p) (start p) p (s_rev s) \<longrightarrow>
       lr_killed x = [child_pid (env p) (start p) p (s_rev s)]"
    using container_or_killed by blast
  show ?thesis
    using assms(2) x
    by (cases "lr_container x")
      (auto simp: pv_platforms_start_platform_def assms(1) lxc_start_def lxc_killed_def forked_def Let_def split: if_splits option.splits)
qed

definition ex_env :: lxc_env where
  "ex_env = \<lparr>xe_get = (\<lambda>is k. []), xe_nonzero = (\<lambda>is k. False), xe_stat = (\<lambda>f. False), xe_size = (\<lambda>f. None), xe_release = None,
     xe_cmdline = None, xe_hooks = None, xe_level = 2, xe_capture = False, xe_running = ''1''\<rparr>"

definition ex_start :: "bool \<Rightarrow> start_env" where
  "ex_start load = \<lparr>se_new = True, se_pipe = True, se_fork = 7, se_child_new = True, se_child_load = True, se_started = True, se_error_num = 0,
     se_init_pid = 9, se_parent_load = load, se_tree = None\<rparr>"

definition ex_platform :: platform where
  "ex_platform = (new_platform 1 ''os'')\<lparr>p_type := Some ''lxc'', p_configs := Some [''c'']\<rparr>"

definition ex_runtime :: "bool \<Rightarrow> runtime" where
  "ex_runtime load = \<lparr>rt_mnt = ''/s'', rt_loggers = False, rt_start = lxc_start (\<lambda>p. ex_env) (\<lambda>p. ex_start load) 5,
     rt_fork = (\<lambda>a b. 1), rt_alive = (\<lambda>h i. False)\<rparr>"

lemma ex_child: "child_pid ex_env (ex_start load) ex_platform rv = 9"
  by (simp add: child_pid_def lxc_child_def ex_start_def pv_setup_lxc_container_def control_mounts_def module_mounts_def ex_env_def
      ex_platform_def new_platform_def pv_setup_config_bindmounts_def Let_def)

lemma ex_result:
  "pv_start_container ex_env (ex_start load) ex_platform rv = Done (if load
     then \<lparr>lr_container = True, lr_pid = Some 9, lr_platform = ex_platform, lr_killed = [], lr_cut = []\<rparr> else lxc_none (Some 9) ex_platform [9])"
  by (simp add: pv_start_container_def ex_child) (simp add: ex_start_def pv_setup_lxc_container_def control_mounts_def module_mounts_def ex_env_def
      ex_platform_def new_platform_def Let_def)

theorem platform_whole_or_killed_witness:
  "(\<exists>p'. pv_platforms_start_platform (ex_runtime True) (pv_state_new ''1'' SPEC_MULTI1) ex_platform = Done (0, p') \<and> p_status p' = PLAT_STARTED \<and> p_init_pid p' = 9)
    \<and> pv_platforms_start_platform (ex_runtime False) (pv_state_new ''1'' SPEC_MULTI1) ex_platform = Done (-1, ex_platform)
    \<and> lxc_killed (\<lambda>p. ex_env) (\<lambda>p. ex_start False) ex_platform ''1'' = [9]"
proof -
  let ?s = "pv_state_new ''1'' SPEC_MULTI1"
  have rt: "rt_start (ex_runtime load) = lxc_start (\<lambda>p. ex_env) (\<lambda>p. ex_start load) 5" for load by (simp add: ex_runtime_def)
  have st: "\<exists>p'. pv_platforms_start_platform (ex_runtime load) ?s ex_platform = Done (if load then 0 else -1, p')" for load
    unfolding pv_platforms_start_platform_def rt lxc_start_def ex_result
    by (simp add: ex_platform_def new_platform_def has_ctrl_def pv_state_new_def lxc_none_def)
  obtain p1 where p1: "pv_platforms_start_platform (ex_runtime True) ?s ex_platform = Done (0, p1)" using st [of True] by auto
  obtain p2 where p2: "pv_platforms_start_platform (ex_runtime False) ?s ex_platform = Done (-1, p2)" using st [of False] by auto
  have f: "forked (ex_start False)" by (simp add: forked_def ex_start_def)
  have rv: "s_rev ?s = ''1''" by (simp add: pv_state_new_def)
  from platform_whole_or_killed [OF rt p1] platform_whole_or_killed [OF rt p2] p1 p2 f
  show ?thesis unfolding rv ex_child by auto
qed

text \<open>The default configurations that a platform has without any of its own.\<close>

definition default_configs :: "lxc_env \<Rightarrow> items \<Rightarrow> logger_config list" where
  "default_configs x is = (if xe_get x is ''lxc.console.path'' = ''none'' then [] else [[(''console'', Some ''enable'')]]) @ [[(''lxc'', Some ''enable'')]]"

text \<open>What a revision configures for the logs of its containers never reaches the plugin: validating the revision
  has already used up the configurations of every platform, so that the plugin adds its defaults and both
  logs are enabled, whatever was configured.\<close>
theorem container_logs_always_default:
  assumes "p \<in> set (s_platforms (pv_state_validate s))"
  shows "pv_setup_default_log x is ''console'' (pv_setup_default_log x is ''lxc'' (p_logger_configs p)) = default_configs x is"
proof -
  have "p_logger_configs p = []" using validate_loggers [of s] assms by (simp add: list_all_iff)
  then show ?thesis by (simp add: pv_setup_default_log_def default_configs_def strneq_def has_key_def)
qed

definition ex_disabled :: pv_state where
  "ex_disabled = (pv_state_new ''1'' SPEC_SYSTEM1)\<lparr>s_platforms :=
     [ex_platform\<lparr>p_status := PLAT_INSTALLED, p_logger_configs := [[(''lxc'', Some ''disable'')]]\<rparr>]\<rparr>"

theorem container_logs_always_default_witness:
  "\<exists>p. s_platforms (pv_state_validate ex_disabled) = [p]
    \<and> pv_setup_default_log ex_env [] ''console'' (pv_setup_default_log ex_env [] ''lxc'' (p_logger_configs p))
      = [[(''console'', Some ''enable'')], [(''lxc'', Some ''enable'')]]"
proof -
  have "length (s_platforms (pv_state_validate ex_disabled)) = 1"
    by (simp add: pv_state_validate_def pv_platforms_add_all_loggers_def pv_platforms_default_runlevel_def pv_platforms_remove_not_installed_def
        ex_disabled_def ex_platform_def new_platform_def pv_state_new_def Let_def)
  then obtain p where p: "s_platforms (pv_state_validate ex_disabled) = [p]" by (auto simp: length_Suc_conv)
  then have "p \<in> set (s_platforms (pv_state_validate ex_disabled))" by simp
  from container_logs_always_default [OF this, of ex_env "[]"] p show ?thesis by (auto simp: default_configs_def ex_env_def)
qed

end
