(* ===== verification/Integrity.thy ===== *)
theory Integrity
  imports Machine Trails
begin

text \<open>
  The check of a revision before it runs: \<open>pv_state_validate_checksum\<close> of \<open>state.c\<close> on the files of the revision and of the
  pool, and what it means for the state machine.
\<close>

section \<open>The check\<close>

text \<open>Every object is checked in the directory of the revision and then in the pool, up to the first that fails.\<close>

fun check_objects :: "(string \<Rightarrow> nat list) \<Rightarrow> sconfig \<Rightarrow> disk \<Rightarrow> string \<Rightarrow> object list \<Rightarrow> bool outcome" where
  "check_objects sha256 g d rv [] = Done True"
| "check_objects sha256 g d rv (ob # obs) =
     (case pv_storage_validate_trails_object_checksum sha256 g d rv (o_name ob) (o_id ob) of Fault \<Rightarrow> Fault
      | Done False \<Rightarrow> Done False
      | Done True \<Rightarrow> (case pv_storage_validate_objects_object_checksum sha256 g d (o_id ob) of Fault \<Rightarrow> Fault
          | Done False \<Rightarrow> Done False
          | Done True \<Rightarrow> check_objects sha256 g d rv obs))"

definition pv_state_validate_checksum :: "(string \<Rightarrow> nat list) \<Rightarrow> nat \<Rightarrow> sconfig \<Rightarrow> disk \<Rightarrow> pv_state \<Rightarrow> bool outcome" where
  "pv_state_validate_checksum sha256 stale g d s = (case check_objects sha256 g d (s_rev s) (s_objects s) of Fault \<Rightarrow> Fault
     | Done False \<Rightarrow> Done False
     | Done True \<Rightarrow> Done (list_all (\<lambda>j. pv_storage_validate_trails_json_value stale g d (s_rev s) (j_name j) (j_value j)) (s_jsons s)))"

section \<open>What it means\<close>

text \<open>The file of an object in the revision and its file in the pool are there, and both have the digest that is its name, as far as
  the comparison goes, which stops at a zero.\<close>

definition object_intact :: "(string \<Rightarrow> nat list) \<Rightarrow> sconfig \<Rightarrow> disk \<Rightarrow> string \<Rightarrow> object \<Rightarrow> bool" where
  "object_intact sha256 g d rv ob =
     (case (read_file d (comps (in_trail g rv (o_name ob))), read_file d (comps (g_mnt g @ ''/objects/'' @ o_id ob))) of
        (Some a, Some b) \<Rightarrow> bytes_strneq (sha_bytes (o_id ob)) (sha256 a) \<and> bytes_strneq (sha_bytes (o_id ob)) (sha256 b)
      | _ \<Rightarrow> False)"

text \<open>The file of a value holds it; no file is as good as an empty one.\<close>

definition json_intact :: "sconfig \<Rightarrow> disk \<Rightarrow> string \<Rightarrow> json \<Rightarrow> bool" where
  "json_intact g d rv j = (case read_file d (comps (in_trail g rv (j_name j))) of None \<Rightarrow> j_value j = []
     | Some b \<Rightarrow> cstr b = j_value j)"

lemma succeeded_check:
  "succeeded (pv_storage_validate_file_checksum sha256 d p checksum) = Done True \<longleftrightarrow>
     62 \<le> length checksum \<and> (case read_file d (comps p) of None \<Rightarrow> False | Some a \<Rightarrow> bytes_strneq (sha_bytes checksum) (sha256 a))"
  by (auto simp: succeeded_def pv_storage_validate_file_checksum_def split: option.splits)

lemma check_objects_intact:
  "check_objects sha256 g d rv obs = Done True \<longleftrightarrow> list_all (\<lambda>ob. 62 \<le> length (o_id ob) \<and> object_intact sha256 g d rv ob) obs"
proof (induction obs)
  case (Cons ob obs)
  let ?t = "pv_storage_validate_trails_object_checksum sha256 g d rv (o_name ob) (o_id ob)"
    and ?p = "pv_storage_validate_objects_object_checksum sha256 g d (o_id ob)"
  have c: "check_objects sha256 g d rv (ob # obs) = Done True \<longleftrightarrow> ?t = Done True \<and> ?p = Done True \<and> check_objects sha256 g d rv obs = Done True"
    by (simp split: outcome.split bool.split)
  have "?t = Done True \<and> ?p = Done True \<longleftrightarrow> 62 \<le> length (o_id ob) \<and> object_intact sha256 g d rv ob"
    by (auto simp: pv_storage_validate_trails_object_checksum_def pv_storage_validate_objects_object_checksum_def succeeded_check
        object_intact_def split: option.splits)
  then show ?case unfolding c Cons by auto
qed simp

lemma strneq_all: "strneq a b (length b) \<Longrightarrow> length a = length b \<Longrightarrow> no_nul a \<Longrightarrow> no_nul b \<Longrightarrow> a = b"
  by (simp add: strneq_def no_nul_def cstr_def takeWhile_eq_all_conv)

lemma json_check_intact:
  "no_nul (j_value j) \<Longrightarrow> pv_storage_validate_trails_json_value stale g d rv (j_name j) (j_value j) \<Longrightarrow> json_intact g d rv j"
  by (auto simp: pv_storage_validate_trails_json_value_def pv_storage_load_file_def json_intact_def pv_str_matches_def split: option.splits
      intro!: strneq_all [OF _ _ _ no_nul_cstr, symmetric])

lemma validated_intact:
  assumes "pv_state_validate_checksum sha256 stale g d s = Done True" "list_all (\<lambda>j. no_nul (j_value j)) (s_jsons s)"
  shows "list_all (object_intact sha256 g d (s_rev s)) (s_objects s) \<and> list_all (json_intact g d (s_rev s)) (s_jsons s)"
  using assms check_objects_intact [of sha256 g d "s_rev s" "s_objects s"] json_check_intact
  by (auto simp: pv_state_validate_checksum_def list_all_iff split: outcome.splits bool.splits)

section \<open>The state machine\<close>

definition content :: "pv_state \<Rightarrow> string \<times> object list \<times> json list" where
  "content s = (s_rev s, s_objects s, s_jsons s)"

lemma mount_content: "pv_volumes_mount k s rl h = Done ((r, s'), h') \<Longrightarrow> content s' = content s"
  by (auto simp: pv_volumes_mount_def content_def Let_def split: outcome.splits if_splits prod.splits)

lemma start_content: "pv_platforms_start rt s rl = Done (r, s', ns) \<Longrightarrow> content s' = content s"
  by (auto simp: pv_platforms_start_def content_def split: outcome.splits if_splits)

lemma start_revision_content:
  assumes "start_revision k rl s c = Some (Done (PV_STATE_WAIT, c'))"
  shows "\<exists>s'. pv_state (c_pv c') = Some s' \<and> content s' = content s"
  using assms mount_content start_content
  by (fastforce simp: start_revision_def give_def on_pv_def Let_def split: outcome.splits if_splits prod.splits)

lemma enter_content: "enter_revision k s c = (s', c') \<Longrightarrow> content s' = content s"
  by (auto simp: enter_revision_def content_def Let_def)

lemma state_run_checked:
  assumes "state_run k c = Some (Done (PV_STATE_WAIT, c'))"
  shows "\<exists>s s'. k_checksum_ok k s \<and> pv_state (c_pv c') = Some s' \<and> content s' = content s"
proof -
  obtain rl p where r: "pv_update_resume (k_w k) (c_pv c) = (rl, p)" by fastforce
  obtain ok c1 where l: "(if pv_update_is_transitioning (pv_update p) then load_transition (c\<lparr>c_pv := p\<rparr>) else load_booted k (c\<lparr>c_pv := p\<rparr>)) = Some (Done (ok, c1))"
    using assms r by (auto simp: state_run_def then_do_Some_Done give_def Let_def split: if_splits)
  obtain s where s: "pv_state (c_pv c1) = Some s" "k_checksum_ok k s"
    and w: "start_revision k rl (fst (enter_revision k s (act Set_active c1))) (snd (enter_revision k s (act Set_active c1))) = Some (Done (PV_STATE_WAIT, c'))"
    using assms r l by (auto simp: state_run_def then_do_Some_Done give_def Let_def split: if_splits option.splits prod.splits)
  obtain s2 c2 where e: "enter_revision k s (act Set_active c1) = (s2, c2)" by fastforce
  from start_revision_content [OF w] enter_content [OF e] s e show ?thesis by auto
qed


definition ones :: "string \<Rightarrow> nat list" where "ones b = replicate 32 1"

definition ex_id :: string where "ex_id = concat (replicate 32 ''01'')"

definition ex_intact :: pv_state where
  "ex_intact = (pv_state_new ''2'' SPEC_SYSTEM1)\<lparr>s_objects := [\<lparr>o_name = ''a'', o_id = ex_id, o_geturl = None, o_objpath = [], o_relpath = [],
     o_size = 0, o_sha256 = None, o_plat = None\<rparr>], s_jsons := [\<lparr>j_name = ''j'', j_value = ''{}'', j_plat = None\<rparr>]\<rparr>"

definition ex_files :: disk where
  "ex_files = \<lparr>d_nodes = [([''s'', ''trails'', ''2'', ''a''], File 0), ([''s'', ''objects'', ex_id], File 0), ([''s'', ''trails'', ''2'', ''j''], File 1)],
     d_data = (\<lambda>i. if i = 0 then ''image'' else ''{}''), d_next = 2\<rparr>"

definition ex_storage :: sconfig where
  "ex_storage = \<lparr>g_mnt = ''/s'', g_keep_factory = False, g_reserved = 0, g_threshold = 0, g_defertime = 0\<rparr>"

definition ex_checked :: cworld where
  "ex_checked = ex_cworld\<lparr>k_w := (k_w ex_cworld)\<lparr>w_parse := \<lambda>j r. Some ex_intact\<rparr>,
     k_checksum_ok := \<lambda>s. pv_state_validate_checksum ones 0 ex_storage ex_files s = Done True\<rparr>"

lemma ex_id_facts: "length ex_id = 64" "sha_bytes ex_id = replicate 32 1"
  by (simp_all add: ex_id_def sha_bytes_def hex_byte_def hex_digit_def numeral_eq_Suc)

lemma ex_validates: "pv_state_validate_checksum ones 0 ex_storage ex_files ex_intact = Done True"
proof -
  have n: "CHR ''/'' \<notin> set ex_id" "ex_id \<noteq> []" by (simp_all add: ex_id_def)
  have "object_intact ones ex_storage ex_files ''2'' ob" if "ob \<in> set (s_objects ex_intact)" for ob
    using that n
    by (simp add: ex_intact_def pv_state_new_def object_intact_def split_on_absent ex_id_facts ones_def bytes_strneq_def read_file_def lookup_def comps_def strtok_def in_trail_def ex_storage_def ex_files_def)
  then have "check_objects ones ex_storage ex_files ''2'' (s_objects ex_intact) = Done True"
    unfolding check_objects_intact by (simp add: list_all_iff ex_id_facts) (simp add: ex_intact_def pv_state_new_def ex_id_facts)
  moreover have "list_all (\<lambda>j. pv_storage_validate_trails_json_value 0 ex_storage ex_files ''2'' (j_name j) (j_value j)) (s_jsons ex_intact)"
    by (simp add: ex_intact_def pv_state_new_def pv_storage_validate_trails_json_value_def pv_storage_load_file_def read_file_def lookup_def
        comps_def strtok_def in_trail_def ex_storage_def ex_files_def cstr_def pv_str_matches_def strneq_def)
  ultimately show ?thesis by (simp add: pv_state_validate_checksum_def) (simp add: ex_intact_def pv_state_new_def)
qed

definition ex_booted :: "grub ctl" where
  "ex_booted = ex_ctl ((ex_boot grub_ops (gr_fresh [''pv_rev=2'']))\<lparr>pv_boot :=
     \<lparr>pv_rev = ''2'', pv_try = None, pv_done = Some ''2'', store = gr_fresh [''pv_rev=2'']\<rparr>\<rparr>)"

lemma levels_empty: "mount_levels k s ls [] h = Done ((0, []), h)"
  by (induction ls) simp_all

lemma start_levels_empty: "start_levels rt s ls [] = Done (True, [], [])"
  by (induction ls) simp_all

lemma ex_run: "\<exists>c'. state_run ex_checked ex_booted = Some (Done (PV_STATE_WAIT, c'))"
proof -
  have b: "pv_update (c_pv ex_booted) = None" "pv_try (pv_boot (c_pv ex_booted)) = None" by (simp_all add: ex_booted_def ex_ctl_def ex_boot_def)
  have r: "pv_update_resume (k_w ex_checked) (c_pv ex_booted) = (RUNLEVEL_DATA, c_pv ex_booted)"
    using b by (simp add: pv_update_resume_def pv_bootloader_update_in_progress_def)
  have l: "load_booted ex_checked (ex_booted\<lparr>c_pv := c_pv ex_booted\<rparr>) = Some (Done (True, ex_booted\<lparr>c_pv := (c_pv ex_booted)\<lparr>pv_state := Some ex_intact\<rparr>\<rparr>))"
    using b by (simp add: load_booted_def ex_checked_def ex_cworld_def ex_world_def give_def)
  have k: "k_checksum_ok ex_checked ex_intact" using ex_validates by (simp add: ex_checked_def)
  have e: "s_volumes (fst (enter_revision ex_checked ex_intact c)) = [] \<and> s_platforms (fst (enter_revision ex_checked ex_intact c)) = []
    \<and> b_firmware (s_bsp (fst (enter_revision ex_checked ex_intact c))) = None \<and> b_modules (s_bsp (fst (enter_revision ex_checked ex_intact c))) = None" for c :: "grub ctl"
    by (simp add: enter_revision_def ex_intact_def pv_state_new_def empty_bsp_def Let_def)
  have "\<exists>c'. start_revision ex_checked RUNLEVEL_DATA s c = Some (Done (PV_STATE_WAIT, c'))"
    if "s_volumes s = []" "s_platforms s = []" "b_firmware (s_bsp s) = None" "b_modules (s_bsp s) = None" for s and c :: "grub ctl"
    using that
    by (simp add: start_revision_def pv_volumes_mount_def levels_empty pv_volumes_mount_firmware_modules_def mount_modules_def
        pv_platforms_start_def start_levels_empty ex_checked_def ex_cworld_def give_def Let_def)
  with e have st: "\<exists>c'. start_revision ex_checked RUNLEVEL_DATA (fst (enter_revision ex_checked ex_intact c)) (snd (enter_revision ex_checked ex_intact c)) = Some (Done (PV_STATE_WAIT, c'))"
    for c :: "grub ctl" by blast
  show ?thesis
    using st b r l k by (simp add: state_run_def runlevel_defs pv_update_is_transitioning_def split: prod.split) (metis fst_conv snd_conv)
qed


end
