(* ===== verification/DList.thy ===== *)
theory DList
  imports Prelude
begin

text \<open>
  The doubly linked lists of \<open>utils/list.h\<close> on an explicit heap. A block of the heap is what one
  \<open>malloc\<close> gave; a place is a member of a block, and a list node is a cell at a place that points to
  two places. Reading or writing a block that was freed, a member that is not there, or through
  \<open>NULL\<close>, is a fault. \<open>dlist h l xs\<close> says that the nodes \<open>xs\<close> are in this order on the list with the
  head \<open>l\<close>; every operation of the header follows the operation on \<open>xs\<close> of that name, which is what
  lets the other theories take linked lists as lists.
\<close>

section \<open>The heap\<close>

datatype field = Mem string | Ix nat

type_synonym place = "nat \<times> field"

datatype cell = Ptr "nat option" | Node "place option" "place option"

record heap =
  h_live :: "nat set"
  h_cell :: "place \<Rightarrow> cell option"

definition free_block :: "nat \<Rightarrow> heap \<Rightarrow> heap outcome" where
  "free_block b h = (if b \<in> h_live h then Done (h\<lparr>h_live := h_live h - {b}\<rparr>) else Fault)"

definition get_ptr :: "place \<Rightarrow> heap \<Rightarrow> nat option outcome" where
  "get_ptr p h = (if fst p \<in> h_live h then (case h_cell h p of Some (Ptr b) \<Rightarrow> Done b | _ \<Rightarrow> Fault) else Fault)"

definition nxt :: "heap \<Rightarrow> place \<Rightarrow> place option option" where
  "nxt h p = (if fst p \<in> h_live h then (case h_cell h p of Some (Node n q) \<Rightarrow> Some n | _ \<Rightarrow> None) else None)"

definition prv :: "heap \<Rightarrow> place \<Rightarrow> place option option" where
  "prv h p = (if fst p \<in> h_live h then (case h_cell h p of Some (Node n q) \<Rightarrow> Some q | _ \<Rightarrow> None) else None)"

definition get_next :: "place option \<Rightarrow> heap \<Rightarrow> place option outcome" where
  "get_next p h = (case p of None \<Rightarrow> Fault | Some a \<Rightarrow> (case nxt h a of None \<Rightarrow> Fault | Some n \<Rightarrow> Done n))"

definition get_prev :: "place option \<Rightarrow> heap \<Rightarrow> place option outcome" where
  "get_prev p h = (case p of None \<Rightarrow> Fault | Some a \<Rightarrow> (case prv h a of None \<Rightarrow> Fault | Some q \<Rightarrow> Done q))"

definition put_node :: "place \<Rightarrow> place option \<Rightarrow> place option \<Rightarrow> heap \<Rightarrow> heap" where
  "put_node p n q h = h\<lparr>h_cell := (h_cell h)(p := Some (Node n q))\<rparr>"

definition set_next :: "place option \<Rightarrow> place option \<Rightarrow> heap \<Rightarrow> heap outcome" where
  "set_next p v h = (case p of None \<Rightarrow> Fault | Some a \<Rightarrow> (case prv h a of None \<Rightarrow> Fault | Some q \<Rightarrow> Done (put_node a v q h)))"

definition set_prev :: "place option \<Rightarrow> place option \<Rightarrow> heap \<Rightarrow> heap outcome" where
  "set_prev p v h = (case p of None \<Rightarrow> Fault | Some a \<Rightarrow> (case nxt h a of None \<Rightarrow> Fault | Some n \<Rightarrow> Done (put_node a n v h)))"

section \<open>utils/list.h\<close>

definition dl_list_init :: "place option \<Rightarrow> heap \<Rightarrow> heap outcome" where
  "dl_list_init l h = bind_o (set_next l l h) (set_prev l l)"

definition dl_list_add :: "place option \<Rightarrow> place option \<Rightarrow> heap \<Rightarrow> heap outcome" where
  "dl_list_add l item h = bind_o (get_next l h) (\<lambda>n. bind_o (set_next item n h) (\<lambda>h1. bind_o (set_prev item l h1) (\<lambda>h2.
     bind_o (get_next l h2) (\<lambda>m. bind_o (set_prev m item h2) (set_next l item)))))"

definition dl_list_add_tail :: "place option \<Rightarrow> place option \<Rightarrow> heap \<Rightarrow> heap outcome" where
  "dl_list_add_tail l item h = bind_o (get_prev l h) (\<lambda>q. dl_list_add q item h)"

definition dl_list_del :: "place option \<Rightarrow> heap \<Rightarrow> heap outcome" where
  "dl_list_del item h = bind_o (get_next item h) (\<lambda>n. bind_o (get_prev item h) (\<lambda>q. bind_o (set_prev n q h) (\<lambda>h1.
     bind_o (get_prev item h1) (\<lambda>q1. bind_o (get_next item h1) (\<lambda>n1. bind_o (set_next q1 n1 h1) (\<lambda>h2.
     bind_o (set_next item None h2) (set_prev item None)))))))"

definition dl_list_empty :: "place option \<Rightarrow> heap \<Rightarrow> bool outcome" where
  "dl_list_empty l h = bind_o (get_next l h) (\<lambda>n. Done (n = l))"

text \<open>\<open>count\<close> is an \<open>int\<close>.\<close>

partial_function (option) len_from :: "place option \<Rightarrow> place option \<Rightarrow> 32 word \<Rightarrow> heap \<Rightarrow> 32 word outcome option" where
  "len_from l item count h = (if item = l then Some (Done count)
     else (case get_next item h of Fault \<Rightarrow> Some Fault | Done n \<Rightarrow> len_from l n (count + 1) h))"

definition dl_list_len :: "place option \<Rightarrow> heap \<Rightarrow> 32 word outcome option" where
  "dl_list_len l h = (case get_next l h of Fault \<Rightarrow> Some Fault | Done n \<Rightarrow> len_from l n 0 h)"

text \<open>\<open>dl_list_for_each_safe\<close> with a body that works on the block of the item; the next node is read before the body
  runs.\<close>

partial_function (option) each_safe ::
  "(nat \<Rightarrow> heap \<Rightarrow> heap outcome option) \<Rightarrow> place option \<Rightarrow> place option \<Rightarrow> place option \<Rightarrow> heap \<Rightarrow> heap outcome option" where
  "each_safe body l item n h = (if item = l then Some (Done h)
     else (case item of None \<Rightarrow> Some Fault
       | Some i \<Rightarrow> (case body (fst i) h of None \<Rightarrow> None | Some Fault \<Rightarrow> Some Fault
           | Some (Done h') \<Rightarrow> (case get_next n h' of Fault \<Rightarrow> Some Fault | Done n' \<Rightarrow> each_safe body l n n' h'))))"

definition dl_list_for_each_safe ::
  "(nat \<Rightarrow> heap \<Rightarrow> heap outcome option) \<Rightarrow> place option \<Rightarrow> heap \<Rightarrow> heap outcome option" where
  "dl_list_for_each_safe body l h = (case get_next l h of Fault \<Rightarrow> Some Fault
     | Done item \<Rightarrow> (case get_next item h of Fault \<Rightarrow> Some Fault | Done n \<Rightarrow> each_safe body l item n h))"

section \<open>The nodes of a list\<close>

definition linked :: "heap \<Rightarrow> place \<Rightarrow> place \<Rightarrow> bool" where
  "linked h a b \<longleftrightarrow> nxt h a = Some (Some b) \<and> prv h b = Some (Some a)"

definition dlist :: "heap \<Rightarrow> place \<Rightarrow> place list \<Rightarrow> bool" where
  "dlist h l xs \<longleftrightarrow> distinct (l # xs) \<and> successively (linked h) (l # xs @ [l])"

lemma nxt_put [simp]: "nxt (put_node p n q h) a = (if a = p \<and> fst p \<in> h_live h then Some n else nxt h a)"
  by (simp add: nxt_def put_node_def)

lemma prv_put [simp]: "prv (put_node p n q h) a = (if a = p \<and> fst p \<in> h_live h then Some q else prv h a)"
  by (simp add: prv_def put_node_def)

lemma put_fields [simp]:
  "h_live (put_node p n q h) = h_live h"
  "a \<noteq> p \<Longrightarrow> h_cell (put_node p n q h) a = h_cell h a"
  by (simp_all add: put_node_def)

lemma node_both: "(nxt h p = None) = (prv h p = None)"
  by (auto simp: nxt_def prv_def split: option.splits cell.splits)

lemma node_live: "nxt h p = Some n \<Longrightarrow> fst p \<in> h_live h" "prv h p = Some n \<Longrightarrow> fst p \<in> h_live h"
  by (auto simp: nxt_def prv_def split: if_splits)

lemma get_Done [simp]:
  "nxt h a = Some n \<Longrightarrow> get_next (Some a) h = Done n"
  "prv h a = Some q \<Longrightarrow> get_prev (Some a) h = Done q"
  by (simp_all add: get_next_def get_prev_def)

lemma set_Done [simp]:
  "prv h a = Some q \<Longrightarrow> set_next (Some a) v h = Done (put_node a v q h)"
  "nxt h a = Some n \<Longrightarrow> set_prev (Some a) v h = Done (put_node a n v h)"
  by (simp_all add: set_next_def set_prev_def)

lemma linked_mono:
  "successively (linked h) ys \<Longrightarrow> (\<And>a. a \<in> set (butlast ys) \<Longrightarrow> nxt h' a = nxt h a) \<Longrightarrow>
     (\<And>b. b \<in> set (tl ys) \<Longrightarrow> prv h' b = prv h b) \<Longrightarrow> successively (linked h') ys"
  by (induction "linked h" ys rule: successively.induct) (auto simp: linked_def)

lemma dlist_links:
  assumes "dlist h l (us @ x # vs)"
  shows "nxt h x = Some (Some (hd (vs @ [l])))" "prv h x = Some (Some (last (l # us)))"
    "prv h (hd (vs @ [l])) = Some (Some x)" "nxt h (last (l # us)) = Some (Some x)"
proof -
  have "linked h x (hd (vs @ [l]))"
    using assms by (cases vs) (simp_all add: dlist_def successively_append_iff successively_Cons)
  then show "nxt h x = Some (Some (hd (vs @ [l])))" "prv h (hd (vs @ [l])) = Some (Some x)" by (simp_all add: linked_def)
  have "linked h (last (l # us)) x"
    using assms successively_append_iff [of "linked h" "l # us" "x # vs @ [l]"] by (simp add: dlist_def)
  then show "prv h x = Some (Some (last (l # us)))" "nxt h (last (l # us)) = Some (Some x)" by (simp_all add: linked_def)
qed

lemma dlist_head:
  assumes "dlist h l xs"
  shows "nxt h l = Some (Some (hd (xs @ [l])))" "prv h l = Some (Some (last (l # xs)))"
    "prv h (hd (xs @ [l])) = Some (Some l)" "nxt h (last (l # xs)) = Some (Some l)"
proof -
  have "linked h l (hd (xs @ [l]))" using assms by (simp add: dlist_def successively_Cons)
  then show "nxt h l = Some (Some (hd (xs @ [l])))" "prv h (hd (xs @ [l])) = Some (Some l)" by (simp_all add: linked_def)
  have "linked h (last (l # xs)) l"
    using assms successively_append_iff [of "linked h" "l # xs" "[l]"] by (simp add: dlist_def)
  then show "prv h l = Some (Some (last (l # xs)))" "nxt h (last (l # xs)) = Some (Some l)" by (simp_all add: linked_def)
qed

lemma dlist_live: "dlist h l xs \<Longrightarrow> p \<in> set (l # xs) \<Longrightarrow> fst p \<in> h_live h"
  by (metis dlist_head(1) dlist_links(1) node_live(1) set_ConsD split_list)

lemma dlist_frame:
  assumes "dlist h l xs" "\<And>p. p \<in> set (l # xs) \<Longrightarrow> nxt h' p = nxt h p \<and> prv h' p = prv h p"
  shows "dlist h' l xs"
  using assms linked_mono [of h "l # xs @ [l]" h'] by (auto simp: dlist_def butlast_append)

lemma init_list: "nxt h l \<noteq> None \<Longrightarrow> \<exists>h'. dl_list_init (Some l) h = Done h' \<and> dlist h' l [] \<and>
     h_live h' = h_live h \<and> (\<forall>p. p \<noteq> l \<longrightarrow> h_cell h' p = h_cell h p)"
  (is "?n \<Longrightarrow> _")
proof -
  assume ?n
  then obtain n q where n: "nxt h l = Some n" "prv h l = Some q" using node_both [of h l] by auto
  note v = node_live(1) [OF n(1)]
  have "dl_list_init (Some l) h = Done (put_node l (Some l) (Some l) (put_node l (Some l) q h))"
    using n v by (simp add: dl_list_init_def set_prev_def)
  then show ?thesis using v by (simp add: dlist_def linked_def)
qed

text \<open>Two nodes that are next to each other on the ring, and a third put in between.\<close>

lemma ring_insert:
  assumes "distinct (us @ vs)" "successively (linked h) (us @ vs @ [z])" "us \<noteq> []" "item \<notin> set (us @ vs)"
    "z = hd us" "nxt h' item = Some (Some (hd (vs @ [z])))" "prv h' item = Some (Some (last us))"
    "\<And>p. p \<noteq> item \<Longrightarrow> nxt h' p = (if p = last us then Some (Some item) else nxt h p)"
    "\<And>p. p \<noteq> item \<Longrightarrow> prv h' p = (if p = hd (vs @ [z]) then Some (Some item) else prv h p)"
  shows "successively (linked h') (us @ item # vs @ [z])"
proof -
  have "last us \<noteq> item" "hd (vs @ [z]) \<noteq> item" using assms(3-5) by (cases vs; auto)+
  then have m: "linked h' (last us) item" "linked h' item (hd (vs @ [z]))"
    using assms(6-9) by (simp_all add: linked_def)
  have "successively (linked h') us"
  proof (rule linked_mono [of h])
    show "successively (linked h) us" using assms(2) by (simp add: successively_append_iff)
    fix a assume a: "a \<in> set (butlast us)"
    then have "a \<noteq> last us" using assms(1,3) by (metis distinct_append not_distinct_conv_prefix snoc_eq_iff_butlast)
    then show "nxt h' a = nxt h a" using a assms(4) assms(8) [of a] by (metis Un_iff in_set_butlastD set_append)
  next
    fix b assume b: "b \<in> set (tl us)"
    then have "b \<noteq> hd (vs @ [z])" using assms(1,3,5) by (cases us; cases vs) auto
    then show "prv h' b = prv h b" using b assms(3,4) assms(9) [of b] by (metis Un_iff list.set_sel(2) set_append)
  qed
  moreover have "successively (linked h') (vs @ [z])"
  proof (rule linked_mono [of h])
    show "successively (linked h) (vs @ [z])" using assms(2) by (simp add: successively_append_iff)
    fix a assume a: "a \<in> set (butlast (vs @ [z]))"
    then have "a \<in> set vs" by simp
    then have "a \<noteq> last us" using assms(1,3) by (metis disjoint_iff distinct_append last_in_set)
    moreover have "a \<noteq> item" using \<open>a \<in> set vs\<close> assms(4) by auto
    ultimately show "nxt h' a = nxt h a" using assms(8) by simp
  next
    fix b assume b: "b \<in> set (tl (vs @ [z]))"
    then have "b \<noteq> hd (vs @ [z])" using assms(1,3,5) by (cases us; cases vs) auto
    moreover have "b \<noteq> item" using b assms(3-5) by (cases us; cases vs) auto
    ultimately show "prv h' b = prv h b" using assms(9) by simp
  qed
  ultimately show ?thesis using m by (simp add: successively_append_iff successively_Cons)
qed

definition same_but :: "place set \<Rightarrow> heap \<Rightarrow> heap \<Rightarrow> bool" where
  "same_but P h h' \<longleftrightarrow> h_live h' = h_live h \<and> (\<forall>p\<in>-P. h_cell h' p = h_cell h p)"

lemma same_but_nodes: "same_but P h h' \<Longrightarrow> p \<notin> P \<Longrightarrow> nxt h' p = nxt h p \<and> prv h' p = prv h p"
  by (simp add: same_but_def nxt_def prv_def)

lemma same_but_put: "same_but P h h' \<Longrightarrow> p \<in> P \<Longrightarrow> same_but P h (put_node p n q h')"
  by (auto simp: same_but_def put_node_def)

lemma same_but_refl: "same_but P h h"
  by (simp add: same_but_def)

lemma add_after:
  assumes "distinct (us @ vs)" "successively (linked h) (us @ vs @ [z])" "us \<noteq> []" "item \<notin> set (us @ vs)"
    "z = hd us" "nxt h item \<noteq> None"
  shows "\<exists>h'. dl_list_add (Some (last us)) (Some item) h = Done h' \<and> successively (linked h') (us @ item # vs @ [z]) \<and>
     same_but (insert item (set (us @ vs))) h h'"
proof -
  define a where "a = last us"
  define m where "m = hd (vs @ [z])"
  have in_us: "a \<in> set us" "m \<in> set (us @ vs)" using assms(3,5) by (auto simp: a_def m_def hd_append)
  have ai: "a \<noteq> item" "m \<noteq> item" using in_us assms(4) by auto
  have "linked h a m" using assms(2,3) by (auto simp: a_def m_def successively_append_iff)
  then have am: "nxt h a = Some (Some m)" "prv h m = Some (Some a)" by (simp_all add: linked_def)
  obtain ni qi where ni: "nxt h item = Some ni" "prv h item = Some qi" using assms(6) node_both [of h item] by auto
  obtain nm where nm: "nxt h m = Some nm" using am node_both [of h m] by auto
  obtain qa where qa: "prv h a = Some qa" using am node_both [of h a] by auto
  note lv = node_live(1) [OF am(1)] node_live(1) [OF ni(1)] node_live(1) [OF nm]
  define h2 where "h2 = put_node item (Some m) (Some a) (put_node item (Some m) qi h)"
  define h3 where "h3 = put_node m nm (Some item) h2"
  define h4 where "h4 = put_node a (Some item) (if a = m then Some item else qa) h3"
  have "dl_list_add (Some a) (Some item) h = Done h4"
    using am ni nm qa lv ai by (simp add: dl_list_add_def h2_def h3_def h4_def set_next_def set_prev_def)
  moreover have "successively (linked h4) (us @ item # vs @ [z])"
  proof (rule ring_insert [OF assms(1-5), folded a_def m_def])
    show "nxt h4 item = Some (Some m)" "prv h4 item = Some (Some a)" using lv ai by (simp_all add: h4_def h3_def h2_def)
    fix p assume "p \<noteq> item"
    then show "nxt h4 p = (if p = a then Some (Some item) else nxt h p)" "prv h4 p = (if p = m then Some (Some item) else prv h p)"
      using lv nm qa by (auto simp: h4_def h3_def h2_def)
  qed
  moreover have "same_but (insert item (set (us @ vs))) h h4"
    unfolding h4_def h3_def h2_def by (intro same_but_put same_but_refl) (use in_us in auto)
  ultimately show ?thesis by (auto simp: a_def)
qed

lemma add_list:
  assumes "dlist h l xs" "item \<notin> set (l # xs)" "nxt h item \<noteq> None"
  shows "\<exists>h'. dl_list_add (Some l) (Some item) h = Done h' \<and> dlist h' l (item # xs) \<and> same_but (insert item (set (l # xs))) h h'"
    "\<exists>h'. dl_list_add_tail (Some l) (Some item) h = Done h' \<and> dlist h' l (xs @ [item]) \<and> same_but (insert item (set (l # xs))) h h'"
  using add_after [of "[l]" xs h l item] add_after [of "l # xs" "[]" h l item] assms dlist_head(2) [OF assms(1)]
  by (auto simp: dlist_def dl_list_add_tail_def insert_commute)

lemma del_list:
  assumes "dlist h l (us @ x # vs)"
  shows "\<exists>h'. dl_list_del (Some x) h = Done h' \<and> dlist h' l (us @ vs) \<and> nxt h' x = Some None \<and> prv h' x = Some None \<and>
     same_but (set (l # us @ x # vs)) h h'"
proof -
  define a where "a = last (l # us)"
  define m where "m = hd (vs @ [l])"
  have am: "nxt h x = Some (Some m)" "prv h x = Some (Some a)" "prv h m = Some (Some x)" "nxt h a = Some (Some x)"
    using dlist_links [OF assms] by (simp_all add: a_def m_def)
  have d: "distinct (l # us @ x # vs)" and su: "successively (linked h) (l # us @ x # vs @ [l])"
    using assms by (simp_all add: dlist_def)
  have ne: "a \<noteq> x" "m \<noteq> x" using d by (auto simp: a_def m_def hd_append)
  have in_l: "a \<in> set (l # us)" "m \<in> set (l # us @ x # vs)" by (auto simp: a_def m_def hd_append)
  obtain nm where nm: "nxt h m = Some nm" using am node_both [of h m] by auto
  obtain qa where qa: "prv h a = Some qa" using am node_both [of h a] by auto
  note lv = node_live(1) [OF am(1)] node_live(1) [OF nm] node_live(1) [OF am(4)]
  define h1 where "h1 = put_node m nm (Some a) h"
  define h2 where "h2 = put_node a (Some m) (if a = m then Some a else qa) h1"
  define h3 where "h3 = put_node x None None (put_node x None (Some a) h2)"
  have "dl_list_del (Some x) h = Done h3"
    using am nm qa lv ne by (simp add: dl_list_del_def h1_def h2_def h3_def set_next_def set_prev_def)
  moreover have nodes: "nxt h3 p = (if p = a then Some (Some m) else nxt h p)" "prv h3 p = (if p = m then Some (Some a) else prv h p)"
    if "p \<noteq> x" for p using that lv nm qa by (auto simp: h1_def h2_def h3_def)
  have "successively (linked h3) (l # us)"
  proof (rule linked_mono [of h])
    show "successively (linked h) (l # us)" using su successively_append_iff [of "linked h" "l # us" "x # vs @ [l]"] by simp
    fix p assume p: "p \<in> set (butlast (l # us))"
    then have "p \<noteq> a" using d unfolding a_def by (metis append_butlast_last_id distinct_append append_Cons list.distinct(1)
        not_distinct_conv_prefix)
    moreover have "p \<noteq> x" using p d by (metis Un_iff append_Cons distinct_append disjoint_iff in_set_butlastD list.set_intros(1))
    ultimately show "nxt h3 p = nxt h p" using nodes(1) by simp
  next
    fix p assume p: "p \<in> set (tl (l # us))"
    then have "p \<noteq> m" "p \<noteq> x" using d by (auto simp: m_def hd_append split: if_splits)
    then show "prv h3 p = prv h p" using nodes(2) by simp
  qed
  moreover have "successively (linked h3) (vs @ [l])"
  proof (rule linked_mono [of h])
    show "successively (linked h) (vs @ [l])" using su successively_append_iff [of "linked h" "l # us @ [x]" "vs @ [l]"] by simp
    fix p assume "p \<in> set (butlast (vs @ [l]))"
    then have "p \<in> set vs" by simp
    then have "p \<noteq> a" "p \<noteq> x" using d in_l(1) by auto
    then show "nxt h3 p = nxt h p" using nodes(1) by simp
  next
    fix p assume p: "p \<in> set (tl (vs @ [l]))"
    then have "p \<noteq> m" "p \<noteq> x" using d by (cases vs; auto simp: m_def)+
    then show "prv h3 p = prv h p" using nodes(2) by simp
  qed
  moreover have "linked h3 a m" using nodes ne by (simp add: linked_def)
  ultimately have "dlist h3 l (us @ vs)"
    using d successively_append_iff [of "linked h3" "l # us" "vs @ [l]"] by (simp add: dlist_def a_def m_def)
  moreover have "nxt h3 x = Some None" "prv h3 x = Some None" using lv by (simp_all add: h3_def h2_def h1_def)
  moreover have "same_but (set (l # us @ x # vs)) h h3"
    unfolding h3_def h2_def h1_def by (intro same_but_put same_but_refl) (use in_l in auto)
  ultimately show ?thesis using \<open>dl_list_del (Some x) h = Done h3\<close> by auto
qed

text \<open>A node that is not on a list faults when it is taken off again.\<close>

lemma del_twice: "nxt h x = Some None \<Longrightarrow> dl_list_del (Some x) h = Fault"
  by (auto simp: dl_list_del_def get_prev_def set_prev_def split: option.split)

lemma empty_list: "dlist h l xs \<Longrightarrow> dl_list_empty (Some l) h = Done (xs = [])"
  using dlist_head(1) [of h l xs] by (cases xs) (auto simp: dl_list_empty_def dlist_def)

lemma len_from_list:
  "dlist h l (us @ vs) \<Longrightarrow> len_from (Some l) (Some (hd (vs @ [l]))) c h = Some (Done (c + of_nat (length vs)))"
proof (induction vs arbitrary: us c)
  case (Cons v vs)
  have "v \<noteq> l" using Cons.prems by (auto simp: dlist_def)
  then show ?case
    using Cons.IH [of "us @ [v]" "c + 1"] dlist_links(1) [OF Cons.prems] Cons.prems by (subst len_from.simps) (simp add: algebra_simps)
qed (simp add: len_from.simps)

lemma len_list: "dlist h l xs \<Longrightarrow> dl_list_len (Some l) h = Some (Done (of_nat (length xs)))"
  using len_from_list [of h l "[]" xs 0] dlist_head(1) [of h l xs] by (simp add: dl_list_len_def)

section \<open>Taking every item off a list\<close>

text \<open>The loop of the functions that empty a list: take the item off and release it.\<close>

definition bind_oo :: "'a outcome option \<Rightarrow> ('a \<Rightarrow> 'b outcome option) \<Rightarrow> 'b outcome option" where
  "bind_oo r f = (case r of None \<Rightarrow> None | Some Fault \<Rightarrow> Some Fault | Some (Done x) \<Rightarrow> f x)"

lemma bind_oo_simps [simp]:
  "bind_oo None f = None" "bind_oo (Some Fault) f = Some Fault" "bind_oo (Some (Done x)) f = f x"
  by (simp_all add: bind_oo_def)

definition empty_with :: "field \<Rightarrow> (nat \<Rightarrow> heap \<Rightarrow> heap outcome option) \<Rightarrow> place option \<Rightarrow> heap \<Rightarrow> heap outcome option" where
  "empty_with f release l h =
     dl_list_for_each_safe (\<lambda>b h. bind_oo (Some (dl_list_del (Some (b, f)) h)) (release b)) l h"

definition same_at :: "place set \<Rightarrow> heap \<Rightarrow> heap \<Rightarrow> bool" where
  "same_at P h h' \<longleftrightarrow> (\<forall>p\<in>P. h_cell h' p = h_cell h p)"

definition places :: "nat set \<Rightarrow> place set" where
  "places B = {p. fst p \<in> B}"

lemma same_atD: "same_at P h h' \<Longrightarrow> p \<in> P \<Longrightarrow> h_cell h' p = h_cell h p"
  by (simp add: same_at_def)

lemma same_at_sub: "same_at P h h' \<Longrightarrow> Q \<subseteq> P \<Longrightarrow> same_at Q h h'"
  by (auto simp: same_at_def simp del: split_paired_Ball_Sigma)

lemma same_at_trans: "same_at P h h' \<Longrightarrow> same_at P h' h'' \<Longrightarrow> same_at P h h''"
  by (metis same_at_def)

lemma same_at_refl [simp]: "same_at P h h"
  by (simp add: same_at_def)

lemma in_places [simp]: "p \<in> places B \<longleftrightarrow> fst p \<in> B"
  by (simp add: places_def)

lemma same_but_at: "same_but P h h' \<Longrightarrow> same_at (- P) h h'"
  by (simp add: same_but_def same_at_def)

lemma dlist_same:
  assumes "dlist h l xs" "same_at (set (l # xs)) h h'" "\<And>p. p \<in> set (l # xs) \<Longrightarrow> fst p \<in> h_live h'"
  shows "dlist h' l xs"
  using assms(1)
proof (rule dlist_frame)
  fix p assume p: "p \<in> set (l # xs)"
  then show "nxt h' p = nxt h p \<and> prv h' p = prv h p"
    using same_atD [OF assms(2) p] assms(3) [OF p] dlist_live [OF assms(1) p] by (simp add: nxt_def prv_def)
qed

text \<open>What has happened since \<open>h\<close>: the blocks \<open>G\<close> were released, and at most the places \<open>U\<close> were written.\<close>

definition reached :: "heap \<Rightarrow> place set \<Rightarrow> nat set \<Rightarrow> heap \<Rightarrow> bool" where
  "reached h U G g \<longleftrightarrow> h_live g = h_live h - G \<and> same_at (- U) h g"

lemma reached_live: "reached h U G g \<Longrightarrow> h_live g = h_live h - G"
  by (simp add: reached_def)

lemma reached_cell: "reached h U G g \<Longrightarrow> p \<notin> U \<Longrightarrow> h_cell g p = h_cell h p"
  by (simp add: reached_def same_at_def)

lemma reached_free: "reached h U G g \<Longrightarrow> reached h U (G \<union> B) (g\<lparr>h_live := h_live g - B\<rparr>)"
  by (auto simp: reached_def same_at_def)

lemma reached_start: "reached h {} {} h"
  by (simp add: reached_def)

text \<open>What the loop relies on: an item \<open>b\<close> whose blocks are as \<open>shape\<close> says is released without a fault; exactly the
  blocks \<open>gone\<close> are released, and nothing but the blocks that it \<open>uses\<close> is touched. The node by which the item is
  on the list is not part of its shape.\<close>

locale releasing =
  fixes node :: field
    and release :: "nat \<Rightarrow> heap \<Rightarrow> heap outcome option"
    and shape :: "heap \<Rightarrow> nat \<Rightarrow> 'o \<Rightarrow> bool"
    and uses :: "nat \<Rightarrow> 'o \<Rightarrow> nat list"
    and gone :: "nat \<Rightarrow> 'o \<Rightarrow> nat set"
  assumes released: "shape h b w \<Longrightarrow> set (uses b w) \<subseteq> h_live h \<Longrightarrow> distinct (uses b w) \<Longrightarrow>
      \<exists>h'. release b h = Some (Done h') \<and> h_live h' = h_live h - gone b w \<and> same_at (- places (set (uses b w))) h h'"
    and shape_stays: "shape h b w \<Longrightarrow> distinct (uses b w) \<Longrightarrow> set (uses b w) \<subseteq> h_live h \<Longrightarrow> set (uses b w) \<subseteq> h_live h' \<Longrightarrow>
      same_at (places (set (uses b w)) - {(b, node)}) h h' \<Longrightarrow> shape h' b w"
    and uses_self: "b \<in> set (uses b w)"
    and gone_uses: "gone b w \<subseteq> set (uses b w)"
begin

definition all_uses :: "(nat \<times> 'o) list \<Rightarrow> nat list" where
  "all_uses xs = concat (map (\<lambda>(b, w). uses b w) xs)"

definition all_gone :: "(nat \<times> 'o) list \<Rightarrow> nat set" where
  "all_gone xs = (\<Union>(b, w)\<in>set xs. gone b w)"

definition shapes :: "heap \<Rightarrow> (nat \<times> 'o) list \<Rightarrow> bool" where
  "shapes h xs = list_all (\<lambda>(b, w). shape h b w) xs"

definition nodes :: "(nat \<times> 'o) list \<Rightarrow> place list" where
  "nodes xs = map (\<lambda>(b, w). (b, node)) xs"

lemma all_simps:
  "all_uses [] = []" "all_uses ((b, w) # xs) = uses b w @ all_uses xs"
  "all_gone [] = {}" "all_gone ((b, w) # xs) = gone b w \<union> all_gone xs"
  "shapes h []" "shapes h ((b, w) # xs) \<longleftrightarrow> shape h b w \<and> shapes h xs"
  "nodes [] = []" "nodes ((b, w) # xs) = (b, node) # nodes xs"
  by (simp_all add: all_uses_def all_gone_def shapes_def nodes_def)

lemma nodes_used: "p \<in> set (nodes xs) \<Longrightarrow> fst p \<in> set (all_uses xs)"
  using uses_self by (fastforce simp: all_uses_def nodes_def)

lemma all_gone_uses: "all_gone xs \<subseteq> set (all_uses xs)"
  using gone_uses by (fastforce simp: all_uses_def all_gone_def)

lemma shapes_stay:
  "shapes h xs \<Longrightarrow> set (all_uses xs) \<subseteq> h_live h \<Longrightarrow> set (all_uses xs) \<subseteq> h_live h' \<Longrightarrow> distinct (all_uses xs) \<Longrightarrow>
     same_at (places (set (all_uses xs)) - set (nodes xs)) h h' \<Longrightarrow> shapes h' xs"
proof (induction xs)
  case (Cons x xs)
  obtain b w where x: "x = (b, w)" by (cases x)
  have d: "set (uses b w) \<inter> set (all_uses xs) = {}" using Cons.prems(4) by (simp add: x all_simps)
  have "places (set (uses b w)) - {(b, node)} \<subseteq> places (set (all_uses (x # xs))) - set (nodes (x # xs))"
    using d nodes_used [of _ xs] by (auto simp: x all_simps)
  then have "shape h' b w"
    using Cons.prems(1-4) same_at_sub [OF Cons.prems(5)] shape_stays [of h b w h'] by (simp add: x all_simps)
  moreover have "places (set (all_uses xs)) - set (nodes xs) \<subseteq> places (set (all_uses (x # xs))) - set (nodes (x # xs))"
    using d uses_self [of b w] by (auto simp: x all_simps)
  then have "shapes h' xs"
    using Cons.IH Cons.prems(1-4) same_at_sub [OF Cons.prems(5)] by (simp add: x all_simps)
  ultimately show ?case by (simp add: x all_simps)
qed (simp add: all_simps)

lemma each_empties:
  "dlist h l (nodes xs) \<Longrightarrow> shapes h xs \<Longrightarrow> distinct (all_uses xs) \<Longrightarrow> set (all_uses xs) \<subseteq> h_live h \<Longrightarrow>
     fst l \<notin> set (all_uses xs) \<Longrightarrow> nxt h (hd (nodes xs @ [l])) = Some n \<Longrightarrow>
     \<exists>h'. each_safe (\<lambda>b h. bind_oo (Some (dl_list_del (Some (b, node)) h)) (release b)) (Some l) (Some (hd (nodes xs @ [l]))) n h =
         Some (Done h') \<and> dlist h' l [] \<and> h_live h' = h_live h - all_gone xs \<and>
       same_at (- (places (set (all_uses xs)) \<union> {l})) h h'"
proof (induction xs arbitrary: h n)
  case Nil
  then show ?case by (subst each_safe.simps) (simp add: all_simps)
next
  case (Cons x xs)
  obtain b w where x: "x = (b, w)" by (cases x)
  note pr = Cons.prems [unfolded x all_simps append_Cons list.sel]
  have bl: "(b, node) \<noteq> l" using pr(5) uses_self [of b w] by auto
  have n: "n = Some (hd (nodes xs @ [l]))" using pr(6) dlist_links(1) [of h l "[]"] pr(1) by simp
  obtain h1 where h1: "dl_list_del (Some (b, node)) h = Done h1" "dlist h1 l (nodes xs)"
      "same_but (set (l # (b, node) # nodes xs)) h h1"
    using del_list [of h l "[]" "(b, node)" "nodes xs"] pr(1) by auto
  have lv1: "h_live h1 = h_live h" using h1(3) by (simp add: same_but_def)
  have dis: "set (uses b w) \<inter> set (all_uses xs) = {}" using pr(3) by auto
  have s1: "same_at (- set (l # (b, node) # nodes xs)) h h1" using same_but_at [OF h1(3)] .
  have lu: "l \<notin> places (set (uses b w) \<union> set (all_uses xs))" using pr(5) by simp
  have "places (set (uses b w)) - {(b, node)} \<subseteq> - set (l # (b, node) # nodes xs)"
    using dis lu nodes_used [of _ xs] by (auto simp: disjoint_iff)
  then have "shape h1 b w"
    using shape_stays [of h b w h1] pr(2,3,4) lv1 same_at_sub [OF s1] by simp
  then obtain h2 where h2: "release b h1 = Some (Done h2)" "h_live h2 = h_live h - gone b w"
      "same_at (- places (set (uses b w))) h1 h2"
    using released [of h1 b w] pr(3,4) lv1 by auto
  have keep: "set (all_uses xs) \<subseteq> h_live h2" using h2(2) pr(4) dis gone_uses [of b w] by auto
  have "fst l \<in> h_live h" using dlist_live [OF pr(1)] by simp
  then have ll: "fst l \<in> h_live h2" using h2(2) gone_uses [of b w] pr(5) by auto
  have "shapes h1 xs"
    by (rule shapes_stay [of h])
      (use pr(2-4) lv1 dis lu uses_self [of b w] in \<open>auto intro!: same_at_sub [OF s1]\<close>)
  moreover have "places (set (all_uses xs)) - set (nodes xs) \<subseteq> - places (set (uses b w))" using dis by (auto simp: disjoint_iff)
  ultimately have sh2: "shapes h2 xs"
    using shapes_stay [of h1 xs h2] pr(3,4) lv1 keep same_at_sub [OF h2(3)] by simp
  have "dlist h2 l (nodes xs)"
  proof (rule dlist_frame [OF h1(2)])
    fix p assume p: "p \<in> set (l # nodes xs)"
    then have np: "fst p \<notin> set (uses b w)" using lu dis nodes_used [of p xs] by auto
    then have c: "h_cell h2 p = h_cell h1 p" using same_atD [OF h2(3)] by simp
    have "fst p \<in> h_live h2" using p ll keep nodes_used [of p xs] by auto
    moreover have "fst p \<in> h_live h1" using dlist_live [OF h1(2) p] .
    ultimately show "nxt h2 p = nxt h1 p \<and> prv h2 p = prv h1 p" using c by (simp add: nxt_def prv_def)
  qed
  note d2 = this
  have "\<exists>m. nxt h2 (hd (nodes xs @ [l])) = Some m"
    using dlist_head(3) [OF d2] node_both [of h2 "hd (nodes xs @ [l])"] by auto
  then obtain m where m: "nxt h2 (hd (nodes xs @ [l])) = Some m" by blast
  obtain h' where h': "each_safe (\<lambda>b h. bind_oo (Some (dl_list_del (Some (b, node)) h)) (release b)) (Some l)
        (Some (hd (nodes xs @ [l]))) m h2 = Some (Done h')" "dlist h' l []" "h_live h' = h_live h2 - all_gone xs"
      "same_at (- (places (set (all_uses xs)) \<union> {l})) h2 h'"
    using Cons.IH [OF d2 sh2 _ keep _ m] pr(3,5) by auto
  have "each_safe (\<lambda>b h. bind_oo (Some (dl_list_del (Some (b, node)) h)) (release b)) (Some l) (Some (b, node)) n h = Some (Done h')"
    using h1(1) h2(1) h'(1) bl m n by (subst each_safe.simps) simp
  moreover have "same_at (- (places (set (uses b w) \<union> set (all_uses xs)) \<union> {l})) h h'"
    using lu nodes_used [of _ xs] uses_self [of b w]
    by (intro same_at_trans [OF same_at_sub [OF s1] same_at_trans [OF same_at_sub [OF h2(3)] same_at_sub [OF h'(4)]]]) auto
  ultimately show ?case using h'(2,3) h2(2) by (auto simp: x all_simps Un_commute)
qed

lemma emptied:
  assumes "dlist h l (nodes xs)" "shapes h xs" "distinct (all_uses xs)" "set (all_uses xs) \<subseteq> h_live h" "fst l \<notin> set (all_uses xs)"
  shows "\<exists>h'. empty_with node release (Some l) h = Some (Done h') \<and> dlist h' l [] \<and> h_live h' = h_live h - all_gone xs \<and>
       same_at (- (places (set (all_uses xs)) \<union> {l})) h h'"
proof -
  have "\<exists>m. nxt h (hd (nodes xs @ [l])) = Some m"
    using dlist_head(3) [OF assms(1)] node_both [of h "hd (nodes xs @ [l])"] by auto
  then show ?thesis
    using each_empties [OF assms] dlist_head(1) [OF assms(1)] by (auto simp: empty_with_def dl_list_for_each_safe_def)
qed

lemma emptied_after:
  assumes "dlist h l (nodes xs)" "shapes h xs" "distinct (fst l # all_uses xs)" "set (all_uses xs) \<subseteq> h_live h"
    "reached h U G g" "G \<inter> set (fst l # all_uses xs) = {}" "U \<inter> insert l (places (set (all_uses xs))) = {}"
  shows "\<exists>g'. empty_with node release (Some l) g = Some (Done g') \<and>
     reached h (U \<union> insert l (places (set (all_uses xs)))) (G \<union> all_gone xs) g'"
proof -
  have r: "h_live g = h_live h - G" "same_at (- U) h g" using assms(5) by (simp_all add: reached_def)
  have live: "set (fst l # all_uses xs) \<subseteq> h_live g"
    using assms(4,6) r(1) dlist_live [OF assms(1), of l] by (auto simp: disjoint_iff)
  have same: "same_at (insert l (places (set (all_uses xs)))) h g" by (rule same_at_sub [OF r(2)]) (use assms(7) in blast)
  have "dlist g l (nodes xs)"
  proof (rule dlist_same [OF assms(1)])
    show "same_at (set (l # nodes xs)) h g" by (rule same_at_sub [OF same]) (use nodes_used [of _ xs] in auto)
  qed (use live nodes_used [of _ xs] in auto)
  moreover have "shapes g xs"
    by (rule shapes_stay [OF assms(2,4)]) (use live assms(3) same_at_sub [OF same] in auto)
  ultimately obtain g' where g': "empty_with node release (Some l) g = Some (Done g')" "h_live g' = h_live g - all_gone xs"
      "same_at (- (places (set (all_uses xs)) \<union> {l})) g g'"
    using emptied [of g l xs] assms(3) live by auto
  have "same_at (- (U \<union> insert l (places (set (all_uses xs))))) h g'"
    by (rule same_at_trans [OF same_at_sub [OF r(2)] same_at_sub [OF g'(3)]]) auto
  then show ?thesis using g' r(1) by (auto simp: reached_def)
qed

end

section \<open>Sequences of operations\<close>

datatype list_call = Add place | Add_tail place | Del place

fun op_place :: "list_call \<Rightarrow> place" where
  "op_place (Add p) = p"
| "op_place (Add_tail p) = p"
| "op_place (Del p) = p"

fun run_op :: "place \<Rightarrow> list_call \<Rightarrow> heap \<Rightarrow> heap outcome" where
  "run_op l (Add p) h = dl_list_add (Some l) (Some p) h"
| "run_op l (Add_tail p) h = dl_list_add_tail (Some l) (Some p) h"
| "run_op l (Del p) h = dl_list_del (Some p) h"

fun run_ops :: "place \<Rightarrow> list_call list \<Rightarrow> heap \<Rightarrow> heap outcome" where
  "run_ops l [] h = Done h"
| "run_ops l (x # ops) h = bind_o (run_op l x h) (run_ops l ops)"

text \<open>The same on a list, and when an operation may be used: what is added is not on the list, what is taken off is.\<close>

fun list_op :: "list_call \<Rightarrow> place list \<Rightarrow> place list" where
  "list_op (Add p) xs = p # xs"
| "list_op (Add_tail p) xs = xs @ [p]"
| "list_op (Del p) xs = remove1 p xs"

fun op_ok :: "place \<Rightarrow> list_call \<Rightarrow> place list \<Rightarrow> bool" where
  "op_ok l (Del p) xs \<longleftrightarrow> p \<in> set xs"
| "op_ok l x xs \<longleftrightarrow> op_place x \<notin> set (l # xs)"

fun ops_ok :: "place \<Rightarrow> list_call list \<Rightarrow> place list \<Rightarrow> bool" where
  "ops_ok l [] xs \<longleftrightarrow> True"
| "ops_ok l (x # ops) xs \<longleftrightarrow> op_ok l x xs \<and> ops_ok l ops (list_op x xs)"

lemma dlist_node: "dlist h l xs \<Longrightarrow> p \<in> set (l # xs) \<Longrightarrow> nxt h p \<noteq> None"
  by (metis dlist_head(1) dlist_links(1) option.discI set_ConsD split_list)

definition nodes_stay :: "heap \<Rightarrow> heap \<Rightarrow> bool" where
  "nodes_stay h h' \<longleftrightarrow> {p. nxt h p \<noteq> None} \<subseteq> {p. nxt h' p \<noteq> None}"

lemma nodes_stayD: "nodes_stay h h' \<Longrightarrow> nxt h p \<noteq> None \<Longrightarrow> nxt h' p \<noteq> None"
  by (auto simp only: nodes_stay_def)

lemma nodes_stayI:
  assumes "dlist h' l ys" "same_but P h h'" "P \<subseteq> insert q (set (l # ys))" "nxt h' q \<noteq> None"
  shows "nodes_stay h h'"
proof -
  have "nxt h' p \<noteq> None" if "nxt h p \<noteq> None" for p
  proof (cases "p \<in> P")
    case True
    then show ?thesis using assms(3,4) dlist_node [OF assms(1)] by blast
  next
    case False
    then show ?thesis using that same_but_nodes [OF assms(2)] by simp
  qed
  then show ?thesis by (auto simp only: nodes_stay_def)
qed

lemma op_follows:
  assumes "dlist h l xs" "op_ok l x xs" "nxt h (op_place x) \<noteq> None"
  shows "\<exists>h'. run_op l x h = Done h' \<and> dlist h' l (list_op x xs) \<and> nodes_stay h h'"
proof (cases x)
  case (Add p)
  obtain h' where h: "dl_list_add (Some l) (Some p) h = Done h'" "dlist h' l (p # xs)" "same_but (insert p (set (l # xs))) h h'"
    using add_list(1) [OF assms(1), of p] assms(2,3) by (auto simp: Add)
  then show ?thesis using nodes_stayI [OF h(2,3), of p] dlist_node [OF h(2), of p] by (auto simp: Add)
next
  case (Add_tail p)
  obtain h' where h: "dl_list_add_tail (Some l) (Some p) h = Done h'" "dlist h' l (xs @ [p])" "same_but (insert p (set (l # xs))) h h'"
    using add_list(2) [OF assms(1), of p] assms(2,3) by (auto simp: Add_tail)
  then show ?thesis using nodes_stayI [OF h(2,3), of p] dlist_node [OF h(2), of p] by (auto simp: Add_tail)
next
  case (Del p)
  then obtain us vs where xs: "xs = us @ p # vs" "p \<notin> set us" using assms(2) split_list_first by fastforce
  obtain h' where h: "dl_list_del (Some p) h = Done h'" "dlist h' l (us @ vs)" "nxt h' p = Some None"
      "same_but (set (l # us @ p # vs)) h h'"
    using del_list [of h l us p vs] assms(1) by (auto simp: xs)
  then show ?thesis using xs nodes_stayI [OF h(2,4), of p] by (auto simp: Del remove1_append)
qed

lemma ops_follow:
  "dlist h l xs \<Longrightarrow> ops_ok l ops xs \<Longrightarrow> list_all (\<lambda>x. nxt h (op_place x) \<noteq> None) ops \<Longrightarrow>
     \<exists>h'. run_ops l ops h = Done h' \<and> dlist h' l (fold list_op ops xs)"
proof (induction ops arbitrary: h xs)
  case (Cons x ops)
  have "op_ok l x xs" "nxt h (op_place x) \<noteq> None" using Cons.prems(2,3) by simp_all
  from op_follows [OF Cons.prems(1) this]
  obtain h1 where h1: "run_op l x h = Done h1" "dlist h1 l (list_op x xs)" "nodes_stay h h1" by blast
  have "list_all (\<lambda>x. nxt h (op_place x) \<noteq> None) ops" using Cons.prems(3) by simp
  then have "list_all (\<lambda>x. nxt h1 (op_place x) \<noteq> None) ops"
    unfolding list_all_iff using nodes_stayD [OF h1(3)] by blast
  then show ?case using h1(1) Cons.IH [OF h1(2)] Cons.prems(2) by simp
qed simp

text \<open>C39: The linked lists of \<open>utils/list.h\<close> are lists: any sequence of additions at either end and removals, of nodes that
  are in memory, nothing added that is on the list and nothing taken off that is not, ends without a fault with
  the list that the same operations give; its length and whether it is empty are as counted on the heap.\<close>
theorem list_follows_ops:
  assumes "dlist h l xs" "ops_ok l ops xs" "list_all (\<lambda>x. nxt h (op_place x) \<noteq> None) ops"
  shows "\<exists>h'. run_ops l ops h = Done h' \<and> dlist h' l (fold list_op ops xs) \<and>
     dl_list_empty (Some l) h' = Done (fold list_op ops xs = []) \<and>
     dl_list_len (Some l) h' = Some (Done (of_nat (length (fold list_op ops xs))))"
  using ops_follow [OF assms] empty_list len_list by blast

definition ex_node :: "nat \<Rightarrow> place" where "ex_node b = (b, Mem ''list'')"

definition ex_heap :: heap where
  "ex_heap = \<lparr>h_live = {0, 1, 2}, h_cell = (\<lambda>p. if p = ex_node 0 then Some (Node (Some p) (Some p)) else Some (Node None None))\<rparr>"

theorem list_follows_ops_witness:
  "\<exists>h'. run_ops (ex_node 0) [Add (ex_node 1), Add_tail (ex_node 2), Del (ex_node 1)] ex_heap = Done h' \<and> dlist h' (ex_node 0) [ex_node 2] \<and>
     dl_list_len (Some (ex_node 0)) h' = Some (Done 1)"
proof -
  have "dlist ex_heap (ex_node 0) []" by (simp add: dlist_def linked_def nxt_def prv_def ex_heap_def ex_node_def)
  then show ?thesis
    using list_follows_ops [of ex_heap "ex_node 0" "[]" "[Add (ex_node 1), Add_tail (ex_node 2), Del (ex_node 1)]"]
    by (auto simp: nxt_def ex_heap_def ex_node_def)
qed

end
