(* ===== verification/Release.thy ===== *)
theory Release
  imports DList
begin

text \<open>
  How the program gives back its memory, on the heap of \<open>DList\<close>: the functions that free one structure,
  the loops that empty its lists, and the shutdown in \<open>pantavisor.c\<close>. Structures are blocks, their
  pointer members are cells with the member's name. The lemmas show that a structure of the expected shape,
  whose blocks are all different, is released without touching a freed block and without freeing one twice,
  and which of its blocks are left: the laws of the locale \<open>releasing\<close> are what one level of the
  structure relies on of the level below.
\<close>

section \<open>Members\<close>

text \<open>\<open>if (b->m) free(b->m)\<close>; where the code frees without the test this is the same, as \<open>free(NULL)\<close> does nothing.\<close>

definition free_member :: "field \<Rightarrow> nat \<Rightarrow> heap \<Rightarrow> heap outcome" where
  "free_member m b h = bind_o (get_ptr (b, m) h) (\<lambda>p. case p of None \<Rightarrow> Done h | Some c \<Rightarrow> free_block c h)"

fun free_members :: "field list \<Rightarrow> nat \<Rightarrow> heap \<Rightarrow> heap outcome" where
  "free_members [] b h = Done h"
| "free_members (m # ms) b h = bind_o (free_member m b h) (free_members ms b)"

definition free_struct :: "field list \<Rightarrow> nat \<Rightarrow> heap \<Rightarrow> heap outcome option" where
  "free_struct ms b h = Some (bind_o (free_members ms b h) (free_block b))"

definition put_ptr :: "place \<Rightarrow> nat option \<Rightarrow> heap \<Rightarrow> heap outcome" where
  "put_ptr p v h = bind_o (get_ptr p h) (\<lambda>_. Done (h\<lparr>h_cell := (h_cell h)(p := Some (Ptr v))\<rparr>))"

text \<open>A pointer that may be \<open>NULL\<close>.\<close>

definition if_set :: "(nat \<Rightarrow> heap \<Rightarrow> heap outcome option) \<Rightarrow> nat option \<Rightarrow> heap \<Rightarrow> heap outcome option" where
  "if_set f p h = (case p of None \<Rightarrow> Some (Done h) | Some b \<Rightarrow> f b h)"

section \<open>Volumes, addons, objects and json files\<close>

definition pv_volume_free :: "nat \<Rightarrow> heap \<Rightarrow> heap outcome option" where
  "pv_volume_free = free_struct [Mem ''name'', Mem ''mode'', Mem ''src'', Mem ''dest'']"

definition pv_volumes_empty :: "nat \<Rightarrow> heap \<Rightarrow> heap outcome option" where
  "pv_volumes_empty s = empty_with (Mem ''list'') pv_volume_free (Some (s, Mem ''volumes''))"

definition pv_addon_free :: "nat option \<Rightarrow> heap \<Rightarrow> heap outcome option" where
  "pv_addon_free = if_set (free_struct [Mem ''name''])"

definition pv_addons_empty :: "nat \<Rightarrow> heap \<Rightarrow> heap outcome option" where
  "pv_addons_empty s = empty_with (Mem ''list'') (\<lambda>a. pv_addon_free (Some a)) (Some (s, Mem ''addons''))"

definition pv_object_free :: "nat \<Rightarrow> heap \<Rightarrow> heap outcome option" where
  "pv_object_free = free_struct [Mem ''name'', Mem ''id'', Mem ''geturl'', Mem ''objpath'', Mem ''relpath'', Mem ''sha256'']"

definition pv_objects_empty :: "nat \<Rightarrow> heap \<Rightarrow> heap outcome option" where
  "pv_objects_empty s = empty_with (Mem ''list'') pv_object_free (Some (s, Mem ''objects''))"

definition pv_objects_remove :: "nat \<Rightarrow> heap \<Rightarrow> heap outcome option" where
  "pv_objects_remove b h = bind_oo (Some (dl_list_del (Some (b, Mem ''list'')) h)) (pv_object_free b)"

definition pv_jsons_free :: "nat \<Rightarrow> heap \<Rightarrow> heap outcome option" where
  "pv_jsons_free = free_struct [Mem ''name'', Mem ''value'']"

definition pv_jsons_empty :: "nat \<Rightarrow> heap \<Rightarrow> heap outcome option" where
  "pv_jsons_empty s = empty_with (Mem ''list'') pv_jsons_free (Some (s, Mem ''jsons''))"

definition pv_jsons_remove :: "nat \<Rightarrow> heap \<Rightarrow> heap outcome option" where
  "pv_jsons_remove b h = bind_oo (Some (dl_list_del (Some (b, Mem ''list'')) h)) (pv_jsons_free b)"

section \<open>Platforms and their loggers\<close>

definition pv_log_info_free :: "nat \<Rightarrow> heap \<Rightarrow> heap outcome option" where
  "pv_log_info_free = free_struct [Mem ''logfile'', Mem ''name'']"

text \<open>The pairs of a logger configuration: \<open>pair[i][0]\<close> is a key, \<open>pair[i][1]\<close> its value; the pair without a key ends
  the loop and is freed behind it. The array \<open>pair\<close> itself is not.\<close>

partial_function (option) free_pairs :: "nat \<Rightarrow> nat \<Rightarrow> heap \<Rightarrow> heap outcome option" where
  "free_pairs pair i h = (case get_ptr (pair, Ix i) h of Fault \<Rightarrow> Some Fault | Done None \<Rightarrow> Some Fault
     | Done (Some q) \<Rightarrow> (case get_ptr (q, Ix 0) h of Fault \<Rightarrow> Some Fault
         | Done None \<Rightarrow> Some (free_block q h)
         | Done (Some k) \<Rightarrow> (case bind_o (free_members [Ix 1, Ix 0] q h) (free_block q) of Fault \<Rightarrow> Some Fault
             | Done h' \<Rightarrow> free_pairs pair (Suc i) h')))"

definition pv_logger_config_free :: "nat option \<Rightarrow> heap \<Rightarrow> heap outcome option" where
  "pv_logger_config_free = if_set (\<lambda>b h. bind_oo (Some (get_ptr (b, Mem ''pair'') h)) (\<lambda>p. case p of None \<Rightarrow> Some Fault
     | Some pair \<Rightarrow> bind_oo (free_pairs pair 0 h) (\<lambda>h1. Some (free_block b h1))))"

definition pv_platform_empty_logger_list :: "nat \<Rightarrow> heap \<Rightarrow> heap outcome option" where
  "pv_platform_empty_logger_list p = empty_with (Mem ''next'') pv_log_info_free (Some (p, Mem ''logger_list''))"

definition pv_platform_empty_logger_configs :: "nat \<Rightarrow> heap \<Rightarrow> heap outcome option" where
  "pv_platform_empty_logger_configs p =
     empty_with (Mem ''item_list'') (\<lambda>b. pv_logger_config_free (Some b)) (Some (p, Mem ''logger_configs''))"

text \<open>The strings up to the first \<open>NULL\<close> of an array.\<close>

partial_function (option) free_strings :: "nat \<Rightarrow> nat \<Rightarrow> heap \<Rightarrow> heap outcome option" where
  "free_strings c i h = (case get_ptr (c, Ix i) h of Fault \<Rightarrow> Some Fault | Done None \<Rightarrow> Some (Done h)
     | Done (Some x) \<Rightarrow> (case free_block x h of Fault \<Rightarrow> Some Fault | Done h' \<Rightarrow> free_strings c (Suc i) h'))"

definition pv_platform_free :: "nat \<Rightarrow> heap \<Rightarrow> heap outcome option" where
  "pv_platform_free p h =
     bind_oo (Some (free_members [Mem ''name'', Mem ''type''] p h)) (\<lambda>h1.
     bind_oo (Some (get_ptr (p, Mem ''configs'') h1)) (\<lambda>c.
     bind_oo (if_set (\<lambda>c. free_strings c 0) c h1) (\<lambda>h2.
     bind_oo (Some (free_members [Mem ''exec'', Mem ''data''] p h2)) (\<lambda>h3.
     bind_oo (pv_platform_empty_logger_list p h3) (\<lambda>h4.
     bind_oo (pv_platform_empty_logger_configs p h4) (\<lambda>h5. Some (free_block p h5)))))))"

definition pv_platforms_empty :: "nat \<Rightarrow> heap \<Rightarrow> heap outcome option" where
  "pv_platforms_empty s = empty_with (Mem ''list'') pv_platform_free (Some (s, Mem ''platforms''))"

section \<open>Revisions, updates and the rest\<close>

text \<open>\<open>img.ut.fit\<close> and \<open>img.std.kernel\<close> are one place, the first of a union.\<close>

definition bsp_images :: "nat \<Rightarrow> heap \<Rightarrow> field list outcome" where
  "bsp_images s h = bind_o (get_ptr (s, Mem ''initrd'') h) (\<lambda>p. Done (case p of None \<Rightarrow> [Mem ''kernel'']
     | Some _ \<Rightarrow> [Mem ''kernel'', Mem ''fdt'', Mem ''initrd'']))"

definition pv_state_free :: "nat option \<Rightarrow> heap \<Rightarrow> heap outcome option" where
  "pv_state_free = if_set (\<lambda>s h.
     bind_oo (Some (free_member (Mem ''rev'') s h)) (\<lambda>h1.
     bind_oo (Some (bsp_images s h1)) (\<lambda>ms.
     bind_oo (Some (free_members (ms @ [Mem ''firmware'', Mem ''modules'']) s h1)) (\<lambda>h2.
     bind_oo (pv_platforms_empty s h2) (\<lambda>h3.
     bind_oo (pv_volumes_empty s h3) (\<lambda>h4.
     bind_oo (pv_addons_empty s h4) (\<lambda>h5.
     bind_oo (pv_objects_empty s h5) (\<lambda>h6.
     bind_oo (pv_jsons_empty s h6) (free_struct [Mem ''json''] s)))))))))"

definition pv_update_free :: "nat option \<Rightarrow> heap \<Rightarrow> heap outcome option" where
  "pv_update_free = if_set (\<lambda>u h.
     bind_oo (Some (free_member (Mem ''endpoint'') u h)) (\<lambda>h1.
     bind_oo (Some (get_ptr (u, Mem ''pending'') h1)) (\<lambda>s.
     bind_oo (bind_oo (pv_state_free s h1) (\<lambda>h2. Some (if s = None then Done h2 else put_ptr (u, Mem ''pending'') None h2)))
       (free_struct [Mem ''progress_objects'', Mem ''total_update''] u))))"

definition pv_ctrl_free_cmd :: "nat option \<Rightarrow> heap \<Rightarrow> heap outcome option" where
  "pv_ctrl_free_cmd = if_set (free_struct [Mem ''payload''])"

definition pv_trail_remote_free :: "nat option \<Rightarrow> heap \<Rightarrow> heap outcome option" where
  "pv_trail_remote_free = if_set (free_struct [Mem ''endpoint_trail_queued'', Mem ''endpoint_trail_new'',
     Mem ''endpoint_trail_queued'', Mem ''endpoint_trail_inprogress''])"

definition pv_metadata_free :: "nat \<Rightarrow> heap \<Rightarrow> heap outcome option" where
  "pv_metadata_free = free_struct [Mem ''key'', Mem ''value'']"

definition pv_usermeta_remove :: "nat \<Rightarrow> heap \<Rightarrow> heap outcome option" where
  "pv_usermeta_remove m = empty_with (Mem ''list'') pv_metadata_free (Some (m, Mem ''usermeta''))"

definition pv_devmeta_remove :: "nat \<Rightarrow> heap \<Rightarrow> heap outcome option" where
  "pv_devmeta_remove m = empty_with (Mem ''list'') pv_metadata_free (Some (m, Mem ''devmeta''))"

definition config_clear_items :: "place option \<Rightarrow> heap \<Rightarrow> heap outcome option" where
  "config_clear_items l h = bind_oo (Some (dl_list_empty l h)) (\<lambda>e. if e then Some (Done h)
     else empty_with (Mem ''list'') (free_struct [Mem ''key'', Mem ''value'']) l h)"

definition pv_storage_free_subdir :: "place option \<Rightarrow> heap \<Rightarrow> heap outcome option" where
  "pv_storage_free_subdir = empty_with (Mem ''list'') (free_struct [Mem ''path''])"

text \<open>The functions of \<open>signature.c\<close> free what a structure points to, but not the structure.\<close>

definition pv_signature_free_headers_pvs :: "nat option \<Rightarrow> heap \<Rightarrow> heap outcome option" where
  "pv_signature_free_headers_pvs = if_set (\<lambda>b h. Some (free_members [Mem ''include'', Mem ''exclude''] b h))"

definition pv_signature_free_headers :: "nat option \<Rightarrow> heap \<Rightarrow> heap outcome option" where
  "pv_signature_free_headers = if_set (\<lambda>b h. bind_oo (Some (get_ptr (b, Mem ''pvs'') h)) (\<lambda>p.
     bind_oo (pv_signature_free_headers_pvs p h) (\<lambda>h1. Some (free_members [Mem ''alg'', Mem ''x5c''] b h1))))"

definition pv_signature_free :: "nat option \<Rightarrow> heap \<Rightarrow> heap outcome option" where
  "pv_signature_free = if_set (\<lambda>b h. Some (free_members [Mem ''protected'', Mem ''signature''] b h))"

definition pv_signature_free_cert_raw :: "nat option \<Rightarrow> heap \<Rightarrow> heap outcome option" where
  "pv_signature_free_cert_raw = if_set (\<lambda>b h. Some (free_member (Mem ''content'') b h))"

definition pv_signature_free_certs_raw :: "place option \<Rightarrow> heap \<Rightarrow> heap outcome option" where
  "pv_signature_free_certs_raw = empty_with (Mem ''list'') (\<lambda>b. pv_signature_free_cert_raw (Some b))"

definition pv_signature_free_pair :: "nat option \<Rightarrow> heap \<Rightarrow> heap outcome option" where
  "pv_signature_free_pair = if_set (\<lambda>b h. Some (free_members [Mem ''key'', Mem ''value''] b h))"

definition pv_signature_free_pairs :: "place option \<Rightarrow> heap \<Rightarrow> heap outcome option" where
  "pv_signature_free_pairs = empty_with (Mem ''list'') (\<lambda>b. pv_signature_free_pair (Some b))"

text \<open>The prefixes that the log service leaves out, and what is left of a logger of a container that cannot be set up;
  the second frees the members only.\<close>

definition ph_logger_clear_skip_prefix :: "nat \<Rightarrow> heap \<Rightarrow> heap outcome option" where
  "ph_logger_clear_skip_prefix g h = bind_oo (Some (dl_list_empty (Some (g, Mem ''skip_list'')) h)) (\<lambda>e.
     if e then Some (Done h) else empty_with (Mem ''list'') (free_struct [Mem ''prefix'']) (Some (g, Mem ''skip_list'')) h)"

definition pv_free_lxc_log :: "nat \<Rightarrow> heap \<Rightarrow> heap outcome" where
  "pv_free_lxc_log = free_members [Mem ''name'', Mem ''logfile'']"

section \<open>Shutting down\<close>

definition pv_bootloader_remove :: "nat \<Rightarrow> heap \<Rightarrow> heap outcome" where
  "pv_bootloader_remove = free_members [Mem ''pv_rev'', Mem ''pv_try'', Mem ''pv_done'']"

definition pv_config_free :: "nat \<Rightarrow> heap \<Rightarrow> heap outcome" where
  "pv_config_free = free_members [Mem ''cache.metacachedir'', Mem ''cache.dropbearcachedir'', Mem ''log.logdir'',
     Mem ''net.brdev'', Mem ''net.braddress4'', Mem ''net.brmask4'', Mem ''bl.mtd_path'', Mem ''storage.path'',
     Mem ''storage.fstype'', Mem ''storage.opts'', Mem ''storage.mntpoint'', Mem ''storage.mnttype'',
     Mem ''storage.logtempsize'', Mem ''creds.type'', Mem ''creds.host'', Mem ''creds.host_proxy'', Mem ''creds.id'',
     Mem ''creds.prn'', Mem ''creds.secret'', Mem ''creds.token'', Mem ''creds.tpm.key'', Mem ''creds.tpm.cert'',
     Mem ''factory.autotok'']"

definition pv_trail_remote_remove :: "nat \<Rightarrow> heap \<Rightarrow> heap outcome option" where
  "pv_trail_remote_remove pv h = bind_oo (Some (get_ptr (pv, Mem ''remote'') h)) (\<lambda>r.
     bind_oo (pv_trail_remote_free r h) (\<lambda>h1. Some (put_ptr (pv, Mem ''remote'') None h1)))"

definition pv_metadata_remove :: "nat \<Rightarrow> heap \<Rightarrow> heap outcome option" where
  "pv_metadata_remove pv h = bind_oo (Some (get_ptr (pv, Mem ''metadata'') h)) (\<lambda>m. case m of None \<Rightarrow> Some Fault
     | Some b \<Rightarrow> bind_oo (pv_usermeta_remove b h) (\<lambda>h1. bind_oo (pv_devmeta_remove b h1) (\<lambda>h2.
         bind_oo (Some (free_block b h2)) (\<lambda>h3. Some (put_ptr (pv, Mem ''metadata'') None h3)))))"

text \<open>Releases what a member points to and sets it to \<open>NULL\<close>.\<close>

definition release_member :: "(nat option \<Rightarrow> heap \<Rightarrow> heap outcome option) \<Rightarrow> place \<Rightarrow> heap \<Rightarrow> heap outcome option" where
  "release_member f p h = bind_oo (Some (get_ptr p h)) (\<lambda>b. bind_oo (f b h) (\<lambda>h1. Some (put_ptr p None h1)))"

definition pv_remove :: "nat \<Rightarrow> heap \<Rightarrow> heap outcome option" where
  "pv_remove pv h =
     bind_oo (Some (free_member (Mem ''conn'') pv h)) (\<lambda>h1.
     bind_oo (release_member pv_update_free (pv, Mem ''update'') h1) (\<lambda>h2.
     bind_oo (release_member pv_state_free (pv, Mem ''state'') h2) (\<lambda>h3.
     bind_oo (bind_oo (Some (get_ptr (pv, Mem ''cmd'') h3)) (\<lambda>c. pv_ctrl_free_cmd c h3)) (\<lambda>h4.
     bind_oo (pv_trail_remote_remove pv h4) (\<lambda>h5.
     bind_oo (Some (pv_config_free pv h5)) (\<lambda>h6.
     bind_oo (pv_metadata_remove pv h6) (\<lambda>h7. Some (free_block pv h7))))))))"

text \<open>\<open>bl\<close> is the block of \<open>pv_bootloader\<close>, which is never freed.\<close>

definition pv_stop :: "nat \<Rightarrow> nat option \<Rightarrow> heap \<Rightarrow> heap outcome option" where
  "pv_stop bl = if_set (\<lambda>pv h. bind_oo (Some (pv_bootloader_remove bl h)) (pv_remove pv))"

section \<open>Structures of pointers\<close>

definition somes :: "nat option list \<Rightarrow> nat list" where
  "somes ps = concat (map (\<lambda>p. case p of None \<Rightarrow> [] | Some b \<Rightarrow> [b]) ps)"

lemma somes_simps [simp]: "somes [] = []" "somes (p # ps) = (case p of None \<Rightarrow> [] | Some b \<Rightarrow> [b]) @ somes ps"
  "somes (ps @ qs) = somes ps @ somes qs"
  by (simp_all add: somes_def)

definition has_members :: "field list \<Rightarrow> heap \<Rightarrow> nat \<Rightarrow> nat option list \<Rightarrow> bool" where
  "has_members ms h b ps \<longleftrightarrow> list_all2 (\<lambda>m p. h_cell h (b, m) = Some (Ptr p)) ms ps"

lemma has_simps [simp]:
  "has_members [] h b ps \<longleftrightarrow> ps = []"
  "has_members (m # ms) h b (p # ps) \<longleftrightarrow> h_cell h (b, m) = Some (Ptr p) \<and> has_members ms h b ps"
  by (simp_all add: has_members_def)

lemma has_Cons: "has_members (m # ms) h b ps \<longleftrightarrow> (\<exists>p ps'. ps = p # ps' \<and> h_cell h (b, m) = Some (Ptr p) \<and> has_members ms h b ps')"
  by (auto simp: has_members_def list_all2_Cons1)

lemma has_live [simp]: "has_members ms (h\<lparr>h_live := L\<rparr>) b ps = has_members ms h b ps"
  by (simp add: has_members_def)

lemma has_kept: "has_members ms h b ps \<Longrightarrow> (\<And>m. m \<in> set ms \<Longrightarrow> h_cell h' (b, m) = h_cell h (b, m)) \<Longrightarrow> has_members ms h' b ps"
  by (simp add: has_members_def list_all2_conv_all_nth)

lemma has_same: "has_members ms h b ps \<Longrightarrow> same_at (places {b} - {(b, node)}) h h' \<Longrightarrow> node \<notin> set ms \<Longrightarrow> has_members ms h' b ps"
  by (erule has_kept) (auto intro!: same_atD)

lemma free_member_ok:
  "h_cell h (b, m) = Some (Ptr p) \<Longrightarrow> b \<in> h_live h \<Longrightarrow> set (somes [p]) \<subseteq> h_live h \<Longrightarrow>
     free_member m b h = Done (h\<lparr>h_live := h_live h - set (somes [p])\<rparr>)"
  by (cases p) (simp_all add: free_member_def get_ptr_def free_block_def)

lemma free_members_ok:
  "has_members ms h b ps \<Longrightarrow> distinct (b # somes ps) \<Longrightarrow> set (b # somes ps) \<subseteq> h_live h \<Longrightarrow>
     free_members ms b h = Done (h\<lparr>h_live := h_live h - set (somes ps)\<rparr>)"
proof (induction ms arbitrary: ps h)
  case (Cons m ms)
  then obtain p ps' where p: "ps = p # ps'" "h_cell h (b, m) = Some (Ptr p)" "has_members ms h b ps'" by (auto simp: has_Cons)
  have a: "free_member m b h = Done (h\<lparr>h_live := h_live h - set (somes [p])\<rparr>)"
    using free_member_ok [OF p(2)] Cons.prems(3) by (auto simp: p(1))
  have "free_members ms b (h\<lparr>h_live := h_live h - set (somes [p])\<rparr>) =
      Done (h\<lparr>h_live := h_live h - set (somes [p]) - set (somes ps')\<rparr>)"
    using Cons.IH [of "h\<lparr>h_live := h_live h - set (somes [p])\<rparr>" ps'] Cons.prems(2,3) p by (auto split: option.splits)
  moreover have "h_live h - set (somes [p]) - set (somes ps') = h_live h - set (somes (p # ps'))" by auto
  ultimately show ?case using a by (simp only: p(1) free_members.simps bind_o.simps)
qed simp

lemma free_struct_ok:
  "has_members ms h b ps \<Longrightarrow> distinct (b # somes ps) \<Longrightarrow> set (b # somes ps) \<subseteq> h_live h \<Longrightarrow>
     free_struct ms b h = Some (Done (h\<lparr>h_live := h_live h - set (b # somes ps)\<rparr>))"
  using free_members_ok [of ms h b ps] by (auto simp: free_struct_def free_block_def intro!: arg_cong [where f = "\<lambda>L. h\<lparr>h_live := L\<rparr>"])

lemma same_live [simp]: "same_at P h (h'\<lparr>h_live := L\<rparr>) = same_at P h h'"
  by (simp add: same_at_def)

text \<open>A structure of pointers to blocks obeys the laws; so does one that is left itself.\<close>

lemma struct_releasing:
  "node \<notin> set ms \<Longrightarrow> releasing node (free_struct ms) (has_members ms) (\<lambda>b ps. b # somes ps) (\<lambda>b ps. set (b # somes ps))"
proof (unfold_locales, goal_cases)
  case (1 h b w)
  then show ?case using free_struct_ok [of ms h b w] by simp
next
  case (2 h b w h')
  have "places {b} - {(b, node)} \<subseteq> places (set (b # somes w)) - {(b, node)}" by auto
  then show ?case using has_same [OF 2(2) same_at_sub [OF 2(6)]] 2(1) by simp
qed simp_all

lemma content_releasing:
  "node \<notin> set ms \<Longrightarrow> releasing node (\<lambda>b h. Some (free_members ms b h)) (has_members ms) (\<lambda>b ps. b # somes ps) (\<lambda>b ps. set (somes ps))"
proof (unfold_locales, goal_cases)
  case (1 h b w)
  then show ?case using free_members_ok [of ms h b w] by simp
next
  case (2 h b w h')
  have "places {b} - {(b, node)} \<subseteq> places (set (b # somes w)) - {(b, node)}" by auto
  then show ?case using has_same [OF 2(2) same_at_sub [OF 2(6)]] 2(1) by simp
qed auto

abbreviation vol_members :: "field list" where "vol_members \<equiv> [Mem ''name'', Mem ''mode'', Mem ''src'', Mem ''dest'']"
abbreviation obj_members :: "field list" where
  "obj_members \<equiv> [Mem ''name'', Mem ''id'', Mem ''geturl'', Mem ''objpath'', Mem ''relpath'', Mem ''sha256'']"
abbreviation json_members :: "field list" where "json_members \<equiv> [Mem ''name'', Mem ''value'']"
abbreviation log_members :: "field list" where "log_members \<equiv> [Mem ''logfile'', Mem ''name'']"
abbreviation pair_members :: "field list" where "pair_members \<equiv> [Mem ''key'', Mem ''value'']"

abbreviation struct_uses :: "nat \<Rightarrow> nat option list \<Rightarrow> nat list" where "struct_uses b ps \<equiv> b # somes ps"
abbreviation struct_gone :: "nat \<Rightarrow> nat option list \<Rightarrow> nat set" where "struct_gone b ps \<equiv> set (b # somes ps)"

interpretation vols: releasing "Mem ''list''" pv_volume_free "has_members vol_members" struct_uses struct_gone
  unfolding pv_volume_free_def by (rule struct_releasing) simp

interpretation addons: releasing "Mem ''list''" "\<lambda>a. pv_addon_free (Some a)" "has_members [Mem ''name'']" struct_uses struct_gone
  unfolding pv_addon_free_def if_set_def option.case by (rule struct_releasing) simp

interpretation objs: releasing "Mem ''list''" pv_object_free "has_members obj_members" struct_uses struct_gone
  unfolding pv_object_free_def by (rule struct_releasing) simp

interpretation jsons: releasing "Mem ''list''" pv_jsons_free "has_members json_members" struct_uses struct_gone
  unfolding pv_jsons_free_def by (rule struct_releasing) simp

interpretation loggers: releasing "Mem ''next''" pv_log_info_free "has_members log_members" struct_uses struct_gone
  unfolding pv_log_info_free_def by (rule struct_releasing) simp

interpretation metas: releasing "Mem ''list''" pv_metadata_free "has_members pair_members" struct_uses struct_gone
  unfolding pv_metadata_free_def by (rule struct_releasing) simp

interpretation items: releasing "Mem ''list''" "free_struct [Mem ''key'', Mem ''value'']" "has_members pair_members" struct_uses struct_gone
  by (rule struct_releasing) simp

interpretation dirs: releasing "Mem ''list''" "free_struct [Mem ''path'']" "has_members [Mem ''path'']" struct_uses struct_gone
  by (rule struct_releasing) simp

interpretation skips: releasing "Mem ''list''" "free_struct [Mem ''prefix'']" "has_members [Mem ''prefix'']" struct_uses struct_gone
  by (rule struct_releasing) simp

interpretation sigs: releasing "Mem ''list''" "\<lambda>b. pv_signature_free_pair (Some b)" "has_members pair_members" struct_uses
    "\<lambda>b ps. set (somes ps)"
  unfolding pv_signature_free_pair_def if_set_def option.case by (rule content_releasing) simp

section \<open>The shape of a platform\<close>

type_synonym pairs_shape = "nat \<times> (nat \<times> nat \<times> nat option) list \<times> nat"

fun pairs_at :: "heap \<Rightarrow> nat \<Rightarrow> nat \<Rightarrow> (nat \<times> nat \<times> nat option) list \<Rightarrow> nat \<Rightarrow> bool" where
  "pairs_at h P i [] t \<longleftrightarrow> h_cell h (P, Ix i) = Some (Ptr (Some t)) \<and> h_cell h (t, Ix 0) = Some (Ptr None)"
| "pairs_at h P i ((q, k, v) # qs) t \<longleftrightarrow> h_cell h (P, Ix i) = Some (Ptr (Some q)) \<and>
     has_members [Ix 1, Ix 0] h q [v, Some k] \<and> pairs_at h P (Suc i) qs t"

fun pair_blocks :: "(nat \<times> nat \<times> nat option) list \<Rightarrow> nat list" where
  "pair_blocks [] = []"
| "pair_blocks ((q, k, v) # qs) = q # somes [v, Some k] @ pair_blocks qs"

lemma pairs_live [simp]: "pairs_at (h\<lparr>h_live := L\<rparr>) P i qs t = pairs_at h P i qs t"
  by (induction h P i qs t rule: pairs_at.induct) simp_all

lemma pairs_same:
  "pairs_at h P i qs t \<Longrightarrow> same_at (places (set (P # pair_blocks qs @ [t]))) h h' \<Longrightarrow> pairs_at h' P i qs t"
proof (induction h P i qs t rule: pairs_at.induct)
  case (1 h P i t)
  then show ?case using same_atD [OF "1.prems"(2), of "(P, Ix i)"] same_atD [OF "1.prems"(2), of "(t, Ix 0)"] by simp
next
  case (2 h P i q k v qs t)
  have "same_at (places (set (P # pair_blocks qs @ [t]))) h h'" by (rule same_at_sub [OF "2.prems"(2)]) auto
  then show ?case
    using "2.IH" "2.prems"(1) same_atD [OF "2.prems"(2), of "(P, Ix i)"] same_atD [OF "2.prems"(2), of "(q, Ix 0)"]
      same_atD [OF "2.prems"(2), of "(q, Ix 1)"] by simp
qed

lemma free_pairs_ok:
  "pairs_at h P i qs t \<Longrightarrow> distinct (P # pair_blocks qs @ [t]) \<Longrightarrow> set (P # pair_blocks qs @ [t]) \<subseteq> h_live h \<Longrightarrow>
     free_pairs P i h = Some (Done (h\<lparr>h_live := h_live h - set (pair_blocks qs @ [t])\<rparr>))"
proof (induction qs arbitrary: i h)
  case Nil
  then show ?case by (subst free_pairs.simps) (simp add: get_ptr_def free_block_def)
next
  case (Cons x qs)
  obtain q k v where x: "x = (q, k, v)" by (cases x)
  define h1 where "h1 = h\<lparr>h_live := h_live h - set (q # somes [v, Some k])\<rparr>"
  have "free_struct [Ix 1, Ix 0] q h = Some (Done h1)"
    unfolding h1_def by (rule free_struct_ok) (use Cons.prems in \<open>auto simp: x\<close>)
  then have s: "bind_o (free_members [Ix 1, Ix 0] q h) (free_block q) = Done h1" by (simp only: free_struct_def option.inject)
  have "get_ptr (P, Ix i) h = Done (Some q)" "get_ptr (q, Ix 0) h = Done (Some k)"
    using Cons.prems(1,3) by (simp_all add: x get_ptr_def)
  then have "free_pairs P i h = free_pairs P (Suc i) h1" by (subst free_pairs.simps) (simp only: s outcome.case option.case)
  also have "\<dots> = Some (Done (h1\<lparr>h_live := h_live h1 - set (pair_blocks qs @ [t])\<rparr>))"
    using Cons.IH [of h1 "Suc i"] Cons.prems by (auto simp: x h1_def split: option.splits)
  also have "h1\<lparr>h_live := h_live h1 - set (pair_blocks qs @ [t])\<rparr> = h\<lparr>h_live := h_live h - set (pair_blocks (x # qs) @ [t])\<rparr>"
    by (auto simp: h1_def x intro!: arg_cong [where f = "\<lambda>L. h\<lparr>h_live := L\<rparr>"])
  finally show ?case .
qed

fun lconf_ok :: "heap \<Rightarrow> nat \<Rightarrow> pairs_shape \<Rightarrow> bool" where
  "lconf_ok h b (P, qs, t) \<longleftrightarrow> h_cell h (b, Mem ''pair'') = Some (Ptr (Some P)) \<and> pairs_at h P 0 qs t"

fun lconf_uses :: "nat \<Rightarrow> pairs_shape \<Rightarrow> nat list" where
  "lconf_uses b (P, qs, t) = b # P # pair_blocks qs @ [t]"

fun lconf_gone :: "nat \<Rightarrow> pairs_shape \<Rightarrow> nat set" where
  "lconf_gone b (P, qs, t) = set (b # pair_blocks qs @ [t])"

interpretation lconfs: releasing "Mem ''item_list''" "\<lambda>b. pv_logger_config_free (Some b)" lconf_ok lconf_uses lconf_gone
proof (unfold_locales, goal_cases)
  case (1 h b w)
  obtain P qs t where w: "w = (P, qs, t)" by (cases w)
  have "pv_logger_config_free (Some b) h = Some (Done (h\<lparr>h_live := h_live h - set (b # pair_blocks qs @ [t])\<rparr>))"
    using 1 free_pairs_ok [of h P 0 qs t]
    by (auto simp: w pv_logger_config_free_def if_set_def get_ptr_def free_block_def
        intro!: arg_cong [where f = "\<lambda>L. h\<lparr>h_live := L\<rparr>"])
  then show ?case by (auto simp: w)
next
  case (2 h b w h')
  obtain P qs t where w: "w = (P, qs, t)" by (cases w)
  then have "same_at (places (set (P # pair_blocks qs @ [t]))) h h'" using 2(2) by (intro same_at_sub [OF 2(5)]) (auto simp: w)
  from pairs_same [OF _ this] show ?case using 2(1) same_atD [OF 2(5), of "(b, Mem ''pair'')"] by (simp add: w)
next
  case (3 b w)
  then show ?case by (cases w) simp
next
  case (4 b w)
  then show ?case by (cases w) auto
qed


fun strings_from :: "heap \<Rightarrow> nat \<Rightarrow> nat \<Rightarrow> nat list \<Rightarrow> bool" where
  "strings_from h c i [] \<longleftrightarrow> h_cell h (c, Ix i) = Some (Ptr None)"
| "strings_from h c i (x # xs) \<longleftrightarrow> h_cell h (c, Ix i) = Some (Ptr (Some x)) \<and> strings_from h c (Suc i) xs"

lemma strings_live [simp]: "strings_from (h\<lparr>h_live := L\<rparr>) c i xs = strings_from h c i xs"
  by (induction xs arbitrary: i) simp_all

lemma strings_same: "strings_from h c i xs \<Longrightarrow> same_at (places {c}) h h' \<Longrightarrow> strings_from h' c i xs"
  by (induction xs arbitrary: i) (simp_all add: same_atD [of "places {c}" h h'])

lemma free_strings_ok:
  "strings_from h c i xs \<Longrightarrow> distinct (c # xs) \<Longrightarrow> set (c # xs) \<subseteq> h_live h \<Longrightarrow>
     free_strings c i h = Some (Done (h\<lparr>h_live := h_live h - set xs\<rparr>))"
proof (induction xs arbitrary: i h)
  case Nil
  then show ?case by (subst free_strings.simps) (simp add: get_ptr_def)
next
  case (Cons x xs)
  have "get_ptr (c, Ix i) h = Done (Some x)" "free_block x h = Done (h\<lparr>h_live := h_live h - {x}\<rparr>)"
    using Cons.prems by (simp_all add: get_ptr_def free_block_def)
  then have "free_strings c i h = free_strings c (Suc i) (h\<lparr>h_live := h_live h - {x}\<rparr>)" by (subst free_strings.simps) simp
  also have "\<dots> = Some (Done (h\<lparr>h_live := h_live h - {x} - set xs\<rparr>))"
    using Cons.IH [of "h\<lparr>h_live := h_live h - {x}\<rparr>" "Suc i"] Cons.prems by auto
  also have "h_live h - {x} - set xs = h_live h - set (x # xs)" by auto
  finally show ?case .
qed

text \<open>What belongs to a platform: its strings, the array of its configurations, its loggers and their
  configurations.\<close>

record plat_shape =
  ps_head :: "nat option list"
  ps_configs :: "(nat \<times> nat list) option"
  ps_tail :: "nat option list"
  ps_loggers :: "(nat \<times> nat option list) list"
  ps_lconfs :: "(nat \<times> pairs_shape) list"

abbreviation configs_strings :: "(nat \<times> nat list) option \<Rightarrow> nat list" where
  "configs_strings c \<equiv> (case c of None \<Rightarrow> [] | Some (_, xs) \<Rightarrow> xs)"

definition plat_shaped :: "heap \<Rightarrow> nat \<Rightarrow> plat_shape \<Rightarrow> bool" where
  "plat_shaped h p w \<longleftrightarrow> has_members [Mem ''name'', Mem ''type''] h p (ps_head w) \<and>
     h_cell h (p, Mem ''configs'') = Some (Ptr (map_option fst (ps_configs w))) \<and>
     pred_option (\<lambda>(c, xs). strings_from h c 0 xs) (ps_configs w) \<and>
     has_members [Mem ''exec'', Mem ''data''] h p (ps_tail w) \<and>
     dlist h (p, Mem ''logger_list'') (loggers.nodes (ps_loggers w)) \<and> loggers.shapes h (ps_loggers w) \<and>
     dlist h (p, Mem ''logger_configs'') (lconfs.nodes (ps_lconfs w)) \<and> lconfs.shapes h (ps_lconfs w)"

definition plat_uses :: "nat \<Rightarrow> plat_shape \<Rightarrow> nat list" where
  "plat_uses p w = p # somes (ps_head w) @ (case ps_configs w of None \<Rightarrow> [] | Some (c, xs) \<Rightarrow> c # xs) @ somes (ps_tail w) @
     loggers.all_uses (ps_loggers w) @ lconfs.all_uses (ps_lconfs w)"

definition plat_gone :: "nat \<Rightarrow> plat_shape \<Rightarrow> nat set" where
  "plat_gone p w = set (p # somes (ps_head w)) \<union> set (configs_strings (ps_configs w)) \<union> set (somes (ps_tail w)) \<union>
     loggers.all_gone (ps_loggers w) \<union> lconfs.all_gone (ps_lconfs w)"

lemma plat_stays:
  assumes "plat_shaped h p w" "distinct (plat_uses p w)" "set (plat_uses p w) \<subseteq> h_live h" "set (plat_uses p w) \<subseteq> h_live h'"
    "same_at (places (set (plat_uses p w)) - {(p, Mem ''list'')}) h h'"
  shows "plat_shaped h' p w"
proof -
  let ?U = "set (plat_uses p w)"
  have part: "same_at (places B) h h'" if "B \<subseteq> ?U" "p \<notin> B" for B
    by (rule same_at_sub [OF assms(5)]) (use that in auto)
  have own: "h_cell h' (p, Mem m) = h_cell h (p, Mem m)" if "m \<noteq> ''list''" for m
    by (rule same_atD [OF assms(5)]) (use that in \<open>simp add: plat_uses_def\<close>)
  have "pred_option (\<lambda>(c, xs). strings_from h' c 0 xs) (ps_configs w)"
  proof (cases "ps_configs w")
    case (Some a)
    obtain c xs where c: "a = (c, xs)" by (cases a)
    have "same_at (places {c}) h h'" by (rule part) (use assms(2) in \<open>auto simp: plat_uses_def Some c\<close>)
    from strings_same [OF _ this] show ?thesis using assms(1) by (simp add: plat_shaped_def Some c)
  qed simp
  moreover have "dlist h' (p, Mem ''logger_list'') (loggers.nodes (ps_loggers w))" "loggers.shapes h' (ps_loggers w)"
  proof -
    have np: "p \<notin> set (loggers.all_uses (ps_loggers w))" and sub: "set (loggers.all_uses (ps_loggers w)) \<subseteq> ?U"
      using assms(2) by (auto simp: plat_uses_def)
    note at = part [OF sub np]
    show "loggers.shapes h' (ps_loggers w)"
      by (rule loggers.shapes_stay [of h]) (use assms sub same_at_sub [OF at] in \<open>auto simp: plat_shaped_def plat_uses_def\<close>)
    show "dlist h' (p, Mem ''logger_list'') (loggers.nodes (ps_loggers w))"
      by (rule dlist_same [of h]) (use assms sub own loggers.nodes_used [of _ "ps_loggers w"] in
        \<open>auto simp: plat_shaped_def same_at_def plat_uses_def intro!: same_atD [OF at]\<close>)
  qed
  moreover have "dlist h' (p, Mem ''logger_configs'') (lconfs.nodes (ps_lconfs w))" "lconfs.shapes h' (ps_lconfs w)"
  proof -
    have np: "p \<notin> set (lconfs.all_uses (ps_lconfs w))" and sub: "set (lconfs.all_uses (ps_lconfs w)) \<subseteq> ?U"
      using assms(2) by (auto simp: plat_uses_def)
    note at = part [OF sub np]
    show "lconfs.shapes h' (ps_lconfs w)"
      by (rule lconfs.shapes_stay [of h]) (use assms sub same_at_sub [OF at] in \<open>auto simp: plat_shaped_def plat_uses_def\<close>)
    show "dlist h' (p, Mem ''logger_configs'') (lconfs.nodes (ps_lconfs w))"
      by (rule dlist_same [of h]) (use assms sub own lconfs.nodes_used [of _ "ps_lconfs w"] in
        \<open>auto simp: plat_shaped_def same_at_def plat_uses_def intro!: same_atD [OF at]\<close>)
  qed
  moreover have "has_members [Mem ''name'', Mem ''type''] h' p (ps_head w)" "has_members [Mem ''exec'', Mem ''data''] h' p (ps_tail w)"
    using assms(1) own by (auto simp: plat_shaped_def elim!: has_kept)
  ultimately show ?thesis using assms(1) own by (simp add: plat_shaped_def)
qed


lemma get_ptr_ok: "b \<in> h_live h \<Longrightarrow> h_cell h (b, m) = Some (Ptr v) \<Longrightarrow> get_ptr (b, m) h = Done v"
  by (simp add: get_ptr_def)

lemma members_after:
  assumes "has_members ms h b ps" "reached h U G g" "distinct (b # somes ps)" "set (b # somes ps) \<subseteq> h_live h"
    "G \<inter> set (b # somes ps) = {}" "U \<inter> (\<lambda>m. (b, m)) ` set ms = {}"
  shows "\<exists>g'. free_members ms b g = Done g' \<and> reached h U (G \<union> set (somes ps)) g'"
proof -
  have "has_members ms g b ps"
    by (rule has_kept [OF assms(1)]) (rule reached_cell [OF assms(2)], use assms(6) in auto)
  moreover have "set (b # somes ps) \<subseteq> h_live g" using assms(4,5) reached_live [OF assms(2)] by auto
  ultimately show ?thesis using free_members_ok assms(3) reached_free [OF assms(2)] by blast
qed

lemma plat_released:
  assumes "plat_shaped h p w" "set (plat_uses p w) \<subseteq> h_live h" "distinct (plat_uses p w)"
  shows "\<exists>h'. pv_platform_free p h = Some (Done h') \<and> h_live h' = h_live h - plat_gone p w \<and>
     same_at (- places (set (plat_uses p w))) h h'"
proof -
  define cs where "cs = set (configs_strings (ps_configs w))"
  define G where "G = set (somes (ps_head w)) \<union> cs \<union> set (somes (ps_tail w))"
  note dis = assms(2,3)
  obtain h1 where h1: "free_members [Mem ''name'', Mem ''type''] p h = Done h1" "reached h {} (set (somes (ps_head w))) h1"
    using members_after [OF _ reached_start, of "[Mem ''name'', Mem ''type'']" h p "ps_head w"] assms(1) dis
    by (auto simp: plat_shaped_def plat_uses_def)
  have c1: "get_ptr (p, Mem ''configs'') h1 = Done (map_option fst (ps_configs w))"
    by (rule get_ptr_ok) (use h1(2) assms(1) dis in \<open>auto simp: reached_def same_at_def plat_shaped_def plat_uses_def\<close>)
  have "\<exists>h2. if_set (\<lambda>c. free_strings c 0) (map_option fst (ps_configs w)) h1 = Some (Done h2) \<and>
      reached h {} (set (somes (ps_head w)) \<union> cs) h2"
  proof (cases "ps_configs w")
    case (Some a)
    obtain c xs where c: "a = (c, xs)" by (cases a)
    have "strings_from h1 c 0 xs"
      by (rule strings_same [of h]) (use assms(1) h1(2) in \<open>auto simp: plat_shaped_def Some c reached_def intro: same_at_sub\<close>)
    moreover have "distinct (c # xs)" "set (c # xs) \<subseteq> h_live h1"
      using dis by (auto simp: plat_uses_def Some c reached_live [OF h1(2)] disjoint_iff)
    ultimately show ?thesis
      using reached_free [OF h1(2), of "set xs"] free_strings_ok by (auto simp: Some c if_set_def cs_def)
  qed (use h1(2) in \<open>simp add: if_set_def cs_def\<close>)
  then obtain h2 where h2: "if_set (\<lambda>c. free_strings c 0) (map_option fst (ps_configs w)) h1 = Some (Done h2)"
      "reached h {} (set (somes (ps_head w)) \<union> cs) h2" by blast
  obtain h3 where h3: "free_members [Mem ''exec'', Mem ''data''] p h2 = Done h3" "reached h {} G h3"
  proof -
    have "(set (somes (ps_head w)) \<union> cs) \<inter> set (p # somes (ps_tail w)) = {}" "distinct (p # somes (ps_tail w))"
        "set (p # somes (ps_tail w)) \<subseteq> h_live h"
      using dis by (auto simp: plat_uses_def cs_def disjoint_iff split: option.splits prod.splits)
    moreover have "has_members [Mem ''exec'', Mem ''data''] h p (ps_tail w)" using assms(1) by (simp add: plat_shaped_def)
    ultimately show ?thesis
      using that members_after [OF _ h2(2), of "[Mem ''exec'', Mem ''data'']" p "ps_tail w"] by (auto simp: G_def)
  qed
  let ?gl = "set (loggers.all_uses (ps_loggers w))" and ?gc = "set (lconfs.all_uses (ps_lconfs w))"
  have apart: "distinct (p # loggers.all_uses (ps_loggers w))" "distinct (p # lconfs.all_uses (ps_lconfs w))" "?gl \<subseteq> h_live h"
      "?gc \<subseteq> h_live h" "G \<inter> insert p ?gl = {}" "G \<inter> insert p ?gc = {}" "?gl \<inter> ?gc = {}"
    using dis by (auto simp: plat_uses_def G_def cs_def disjoint_iff split: option.splits prod.splits)
  let ?l = "(p, Mem ''logger_list'')" and ?c = "(p, Mem ''logger_configs'')"
  obtain h4 where h4: "pv_platform_empty_logger_list p h3 = Some (Done h4)"
      "reached h (insert ?l (places ?gl)) (G \<union> loggers.all_gone (ps_loggers w)) h4"
    using loggers.emptied_after [OF _ _ _ apart(3) h3(2), of ?l] assms(1) apart
    by (auto simp: pv_platform_empty_logger_list_def plat_shaped_def)
  note lg = loggers.all_gone_uses [of "ps_loggers w"] and cg = lconfs.all_gone_uses [of "ps_lconfs w"]
  have "p \<notin> ?gl" "p \<notin> ?gc" using apart(1,2) by simp_all
  then have "(G \<union> loggers.all_gone (ps_loggers w)) \<inter> insert p ?gc = {}" using apart(5-7) lg by blast
  then obtain h5 where h5: "pv_platform_empty_logger_configs p h4 = Some (Done h5)"
      "reached h (insert ?l (places ?gl) \<union> insert ?c (places ?gc)) (G \<union> loggers.all_gone (ps_loggers w) \<union> lconfs.all_gone (ps_lconfs w)) h5"
    using lconfs.emptied_after [OF _ _ _ apart(4) h4(2), of ?c] assms(1) apart
    by (auto simp: pv_platform_empty_logger_configs_def plat_shaped_def disjoint_iff)
  have "p \<in> h_live h" using dis(1) by (simp add: plat_uses_def)
  then have "p \<in> h_live h5"
    unfolding reached_live [OF h5(2)] using \<open>p \<in> h_live h\<close> apart(5) \<open>p \<notin> ?gl\<close> \<open>p \<notin> ?gc\<close> lg cg by blast
  then have "pv_platform_free p h = Some (Done (h5\<lparr>h_live := h_live h5 - {p}\<rparr>))"
    using h1(1) c1 h2(1) h3(1) h4(1) h5(1) by (simp add: pv_platform_free_def free_block_def)
  moreover have "h_live h5 - {p} = h_live h - plat_gone p w"
    by (auto simp: reached_live [OF h5(2)] G_def plat_gone_def cs_def)
  moreover have "same_at (- places (set (plat_uses p w))) h h5"
    by (rule same_at_sub [of "- (insert ?l (places ?gl) \<union> insert ?c (places ?gc))"])
      (use h5(2) in \<open>auto simp: reached_def plat_uses_def\<close>)
  ultimately show ?thesis by simp
qed

interpretation plats: releasing "Mem ''list''" pv_platform_free plat_shaped plat_uses plat_gone
proof (unfold_locales, goal_cases)
  case (1 h b w)
  then show ?case by (rule plat_released)
next
  case (2 h b w h')
  then show ?case by (rule plat_stays)
next
  case (3 b w)
  then show ?case by (simp add: plat_uses_def)
next
  case (4 b w)
  then show ?case using loggers.all_gone_uses lconfs.all_gone_uses
    by (fastforce simp: plat_uses_def plat_gone_def split: option.splits prod.splits)
qed


section \<open>The shape of a revision\<close>

record rev_shape =
  rs_rev :: "nat option"
  rs_kernel :: "nat option"
  rs_fdt :: "nat option"
  rs_initrd :: "nat option"
  rs_bsp :: "nat option list"
  rs_json :: "nat option"
  rs_platforms :: "(nat \<times> plat_shape) list"
  rs_volumes :: "(nat \<times> nat option list) list"
  rs_addons :: "(nat \<times> nat option list) list"
  rs_objects :: "(nat \<times> nat option list) list"
  rs_jsons :: "(nat \<times> nat option list) list"

definition rev_shaped :: "heap \<Rightarrow> nat \<Rightarrow> rev_shape \<Rightarrow> bool" where
  "rev_shaped h s w \<longleftrightarrow> has_members [Mem ''rev''] h s [rs_rev w] \<and>
     has_members [Mem ''kernel'', Mem ''fdt'', Mem ''initrd''] h s [rs_kernel w, rs_fdt w, rs_initrd w] \<and>
     has_members [Mem ''firmware'', Mem ''modules''] h s (rs_bsp w) \<and> has_members [Mem ''json''] h s [rs_json w] \<and>
     (dlist h (s, Mem ''platforms'') (plats.nodes (rs_platforms w)) \<and> plats.shapes h (rs_platforms w)) \<and>
     (dlist h (s, Mem ''volumes'') (vols.nodes (rs_volumes w)) \<and> vols.shapes h (rs_volumes w)) \<and>
     (dlist h (s, Mem ''addons'') (addons.nodes (rs_addons w)) \<and> addons.shapes h (rs_addons w)) \<and>
     (dlist h (s, Mem ''objects'') (objs.nodes (rs_objects w)) \<and> objs.shapes h (rs_objects w)) \<and>
     (dlist h (s, Mem ''jsons'') (jsons.nodes (rs_jsons w)) \<and> jsons.shapes h (rs_jsons w))"

definition rev_uses :: "nat \<Rightarrow> rev_shape \<Rightarrow> nat list" where
  "rev_uses s w = s # somes (rs_rev w # [rs_kernel w, rs_fdt w, rs_initrd w] @ rs_bsp w) @ somes [rs_json w] @
     plats.all_uses (rs_platforms w) @ vols.all_uses (rs_volumes w) @ addons.all_uses (rs_addons w) @
     objs.all_uses (rs_objects w) @ jsons.all_uses (rs_jsons w)"

definition rev_images :: "rev_shape \<Rightarrow> nat option list" where
  "rev_images w = (case rs_initrd w of None \<Rightarrow> [rs_kernel w] | Some _ \<Rightarrow> [rs_kernel w, rs_fdt w, rs_initrd w])"

definition rev_gone :: "nat \<Rightarrow> rev_shape \<Rightarrow> nat set" where
  "rev_gone s w = set (s # somes (rs_rev w # rev_images w @ rs_bsp w) @ somes [rs_json w]) \<union>
     plats.all_gone (rs_platforms w) \<union> vols.all_gone (rs_volumes w) \<union> addons.all_gone (rs_addons w) \<union>
     objs.all_gone (rs_objects w) \<union> jsons.all_gone (rs_jsons w)"

lemma rev_apart:
  fixes b :: "nat list"
  assumes "distinct (s # b @ j @ p @ v @ a @ c @ n)" "set (s # b @ j @ p @ v @ a @ c @ n) \<subseteq> L" "B \<subseteq> set b"
  shows "s \<in> L" "set j \<subseteq> L" "set p \<subseteq> L" "set v \<subseteq> L" "set a \<subseteq> L" "set c \<subseteq> L" "set n \<subseteq> L"
    "distinct (s # j)" "distinct (s # p)" "distinct (s # v)" "distinct (s # a)" "distinct (s # c)" "distinct (s # n)"
    "s \<notin> B" "B \<inter> (set j \<union> set p \<union> set v \<union> set a \<union> set c \<union> set n) = {}" "set j \<inter> (set p \<union> set v \<union> set a \<union> set c \<union> set n) = {}"
    "set p \<inter> (set v \<union> set a \<union> set c \<union> set n) = {}" "set v \<inter> (set a \<union> set c \<union> set n) = {}" "set a \<inter> (set c \<union> set n) = {}"
    "set c \<inter> set n = {}"
  using assms by (auto simp: disjoint_iff)

lemma free_members_one: "free_members [m] b h = free_member m b h"
  by (cases "free_member m b h") simp_all

lemma places_apart: "places A \<inter> places C = {} \<longleftrightarrow> A \<inter> C = {}"
  by (auto simp: disjoint_iff)

text \<open>Lists that are emptied one after the other.\<close>

definition empties :: "heap \<Rightarrow> nat \<Rightarrow> string \<Rightarrow> (heap \<Rightarrow> heap outcome option) \<Rightarrow> nat set \<Rightarrow> nat set \<Rightarrow> bool" where
  "empties h s m f A g \<longleftrightarrow> (\<forall>U G h1. reached h U G h1 \<longrightarrow> G \<inter> insert s A = {} \<longrightarrow> U \<inter> insert (s, Mem m) (places A) = {} \<longrightarrow>
     (\<exists>h2. f h1 = Some (Done h2) \<and> reached h (U \<union> insert (s, Mem m) (places A)) (G \<union> g) h2))"

fun run_all :: "(heap \<Rightarrow> heap outcome option) list \<Rightarrow> heap \<Rightarrow> heap outcome option" where
  "run_all [] h = Some (Done h)"
| "run_all (f # fs) h = bind_oo (f h) (run_all fs)"

lemma bind_oo_assoc: "bind_oo (bind_oo r f) g = bind_oo r (\<lambda>x. bind_oo (f x) g)"
  by (simp add: bind_oo_def split: option.split outcome.split)

lemma lists_run:
  "bind_oo (f1 h) (\<lambda>h1. bind_oo (f2 h1) (\<lambda>h2. bind_oo (f3 h2) (\<lambda>h3. bind_oo (f4 h3) (\<lambda>h4. bind_oo (f5 h4) g)))) =
   bind_oo (run_all [f1, f2, f3, f4, f5] h) g"
  by (simp add: bind_oo_assoc)

lemma run_all_after:
  "list_all (\<lambda>(m, f, A, g). empties h s m f (set A) g \<and> g \<subseteq> set A \<and> s \<notin> set A) xs \<Longrightarrow>
   sorted_wrt (\<lambda>(m, f, A, g) (m', f', A', g'). m \<noteq> m' \<and> set A \<inter> set A' = {}) xs \<Longrightarrow> reached h U G h1 \<Longrightarrow>
   list_all (\<lambda>(m, f, A, g). G \<inter> insert s (set A) = {}) xs \<Longrightarrow>
   list_all (\<lambda>(m, f, A, g). U \<inter> insert (s, Mem m) (places (set A)) = {}) xs \<Longrightarrow>
   \<exists>h2. run_all (map (\<lambda>(m, f, A, g). f) xs) h1 = Some (Done h2) \<and>
     reached h (U \<union> (\<Union>(m, f, A, g)\<in>set xs. insert (s, Mem m) (places (set A)))) (G \<union> (\<Union>(m, f, A, g)\<in>set xs. g)) h2"
proof (induction xs arbitrary: U G h1)
  case (Cons x xs)
  obtain m f A g where x: "x = (m, f, A, g)" by (cases x)
  have e: "empties h s m f (set A) g" "g \<subseteq> set A" "s \<notin> set A" using Cons.prems(1) by (simp_all add: x)
  obtain h2 where h2: "f h1 = Some (Done h2)" "reached h (U \<union> insert (s, Mem m) (places (set A))) (G \<union> g) h2"
  proof -
    have "G \<inter> insert s (set A) = {}" "U \<inter> insert (s, Mem m) (places (set A)) = {}" using Cons.prems(4,5) by (simp_all add: x)
    from e(1) [unfolded empties_def, rule_format, OF Cons.prems(3) this] show ?thesis using that by blast
  qed
  have "(G \<union> g) \<inter> insert s (set A') = {} \<and> (U \<union> insert (s, Mem m) (places (set A))) \<inter> insert (s, Mem m') (places (set A')) = {}"
    if "(m', f', A', g') \<in> set xs" for m' f' A' g'
  proof -
    have "m \<noteq> m'" "set A \<inter> set A' = {}" "s \<notin> set A'" "G \<inter> insert s (set A') = {}" "U \<inter> insert (s, Mem m') (places (set A')) = {}"
      using Cons.prems that by (auto simp: x list_all_iff)
    then show ?thesis using e(2,3) by (simp add: places_apart Int_Un_distrib2) blast
  qed
  note step = this
  have l: "list_all (\<lambda>(m, f, A, g'). (G \<union> g) \<inter> insert s (set A) = {}) xs"
    unfolding list_all_iff
  proof
    fix y assume "y \<in> set xs"
    then show "case y of (m, f, A, g') \<Rightarrow> (G \<union> g) \<inter> insert s (set A) = {}"
      using step [of "fst y" "fst (snd y)" "fst (snd (snd y))" "snd (snd (snd y))"] by (simp add: split_def)
  qed
  have "list_all (\<lambda>(m', f', A', g'). (U \<union> insert (s, Mem m) (places (set A))) \<inter> insert (s, Mem m') (places (set A')) = {}) xs"
    unfolding list_all_iff
  proof
    fix y assume "y \<in> set xs"
    then show "case y of (m', f', A', g') \<Rightarrow> (U \<union> insert (s, Mem m) (places (set A))) \<inter> insert (s, Mem m') (places (set A')) = {}"
      using step [of "fst y" "fst (snd y)" "fst (snd (snd y))" "snd (snd (snd y))"] by (simp add: split_def)
  qed
  then show ?case
    using Cons.IH [OF _ _ h2(2) l] Cons.prems(1,2) h2(1) by (simp add: x Un_assoc)
qed simp

lemma state_released:
  assumes "rev_shaped h s w" "distinct (rev_uses s w)" "set (rev_uses s w) \<subseteq> h_live h"
  shows "\<exists>h'. pv_state_free (Some s) h = Some (Done h') \<and> reached h (places (set (rev_uses s w))) (rev_gone s w) h'"
proof -
  define ms where "ms = (case rs_initrd w of None \<Rightarrow> [Mem ''kernel''] | Some _ \<Rightarrow> [Mem ''kernel'', Mem ''fdt'', Mem ''initrd''])"
  define r where "r = set (somes [rs_rev w])"
  define i where "i = set (somes (rev_images w @ rs_bsp w))"
  define b where "b = somes (rs_rev w # [rs_kernel w, rs_fdt w, rs_initrd w] @ rs_bsp w)"
  define j where "j = somes [rs_json w]"
  define p where "p = plats.all_uses (rs_platforms w)"
  define v where "v = vols.all_uses (rs_volumes w)"
  define a where "a = addons.all_uses (rs_addons w)"
  define c where "c = objs.all_uses (rs_objects w)"
  define n where "n = jsons.all_uses (rs_jsons w)"
  note used = p_def v_def a_def c_def n_def
  have ub: "rev_uses s w = s # b @ j @ p @ v @ a @ c @ n" by (simp add: rev_uses_def b_def j_def used)
  have "r \<union> i \<subseteq> set b" by (auto simp: r_def i_def b_def rev_images_def split: option.splits)
  note ap = rev_apart [OF assms(2) [unfolded ub] assms(3) [unfolded ub] this]
  define gp where "gp = plats.all_gone (rs_platforms w)"
  define gv where "gv = vols.all_gone (rs_volumes w)"
  define ga where "ga = addons.all_gone (rs_addons w)"
  define gc where "gc = objs.all_gone (rs_objects w)"
  define gn where "gn = jsons.all_gone (rs_jsons w)"
  note gone = gp_def gv_def ga_def gc_def gn_def
  have sub: "gp \<subseteq> set p" "gv \<subseteq> set v" "ga \<subseteq> set a" "gc \<subseteq> set c" "gn \<subseteq> set n"
    unfolding gone used by (rule plats.all_gone_uses vols.all_gone_uses addons.all_gone_uses objs.all_gone_uses jsons.all_gone_uses)+
  have out: "s \<notin> set j" "s \<notin> set p" "s \<notin> set v" "s \<notin> set a" "s \<notin> set c" "s \<notin> set n" using ap(8-13) by simp_all
  have db: "distinct (s # b)" "set (s # b) \<subseteq> h_live h" using assms(2,3) by (simp_all add: ub)
  obtain h1 where h1: "free_member (Mem ''rev'') s h = Done h1" "reached h {} r h1"
    using members_after [OF _ reached_start, of "[Mem ''rev'']" h s "[rs_rev w]", unfolded free_members_one] assms(1) db
    by (auto simp: rev_shaped_def r_def b_def)
  have im: "bsp_images s h1 = Done ms"
    using assms(1) ap(1,14) h1(2) by (auto simp: bsp_images_def get_ptr_def rev_shaped_def ms_def reached_def same_at_def split: option.splits)
  have m: "has_members (ms @ [Mem ''firmware'', Mem ''modules'']) h s (rev_images w @ rs_bsp w)"
    using assms(1) by (auto simp: rev_shaped_def ms_def rev_images_def split: option.splits)
  have "distinct (s # somes (rev_images w @ rs_bsp w))" "set (s # somes (rev_images w @ rs_bsp w)) \<subseteq> h_live h"
      "r \<inter> set (s # somes (rev_images w @ rs_bsp w)) = {}"
    using db by (auto simp: b_def r_def rev_images_def split: option.splits)
  with members_after [OF m h1(2)]
  obtain h2 where h2: "free_members (ms @ [Mem ''firmware'', Mem ''modules'']) s h1 = Done h2" "reached h {} (r \<union> i) h2"
    by (auto simp: i_def)
  note shape = assms(1) [unfolded rev_shaped_def]
  define xs where "xs = [(''platforms'', pv_platforms_empty s, p, gp), (''volumes'', pv_volumes_empty s, v, gv),
    (''addons'', pv_addons_empty s, a, ga), (''objects'', pv_objects_empty s, c, gc), (''jsons'', pv_jsons_empty s, n, gn)]"
  have "list_all (\<lambda>(m, f, A, g). empties h s m f (set A) g \<and> g \<subseteq> set A \<and> s \<notin> set A) xs"
    using shape ap out sub
      plats.emptied_after [of h "(s, Mem ''platforms'')" "rs_platforms w", folded used gone]
      vols.emptied_after [of h "(s, Mem ''volumes'')" "rs_volumes w", folded used gone]
      addons.emptied_after [of h "(s, Mem ''addons'')" "rs_addons w", folded used gone]
      objs.emptied_after [of h "(s, Mem ''objects'')" "rs_objects w", folded used gone]
      jsons.emptied_after [of h "(s, Mem ''jsons'')" "rs_jsons w", folded used gone]
    by (simp add: xs_def empties_def pv_platforms_empty_def pv_volumes_empty_def pv_addons_empty_def pv_objects_empty_def pv_jsons_empty_def)
  moreover have "sorted_wrt (\<lambda>(m, f, A, g) (m', f', A', g'). m \<noteq> m' \<and> set A \<inter> set A' = {}) xs"
    using ap by (simp add: xs_def Int_Un_distrib)
  moreover have "list_all (\<lambda>(m, f, A, g). (r \<union> i) \<inter> insert s (set A) = {}) xs" using ap by (simp add: xs_def Int_Un_distrib)
  moreover have "list_all (\<lambda>(m, f, A, g). {} \<inter> insert (s, Mem m) (places (set A)) = {}) xs" by (simp add: list_all_iff split_def)
  ultimately obtain h7 where h7: "run_all (map (\<lambda>(m, f, A, g). f) xs) h2 = Some (Done h7)"
      "reached h (\<Union>(m, f, A, g)\<in>set xs. insert (s, Mem m) (places (set A))) (r \<union> i \<union> (\<Union>(m, f, A, g)\<in>set xs. g)) h7"
    using run_all_after [OF _ _ h2(2), of s xs] by (metis (no_types, lifting) sup_bot_left)
  have "has_members [Mem ''json''] h7 s [rs_json w]"
    by (rule has_kept [of _ h]) (use shape reached_cell [OF h7(2)] out in \<open>auto simp: xs_def\<close>)
  moreover have "distinct (s # somes [rs_json w])" "set (s # somes [rs_json w]) \<subseteq> h_live h7"
    using ap out sub by (auto simp: reached_live [OF h7(2)] j_def xs_def)
  ultimately have "free_struct [Mem ''json''] s h7 = Some (Done (h7\<lparr>h_live := h_live h7 - set (s # j)\<rparr>))"
    unfolding j_def by (rule free_struct_ok)
  then have "pv_state_free (Some s) h = Some (Done (h7\<lparr>h_live := h_live h7 - set (s # j)\<rparr>))"
    using h1(1) im h2(1) h7(1) by (simp add: pv_state_free_def if_set_def lists_run xs_def)
  moreover have "h_live h7 - set (s # j) = h_live h - rev_gone s w"
    by (auto simp: reached_live [OF h7(2)] rev_gone_def r_def i_def j_def gone xs_def)
  moreover have "same_at (- places (set (rev_uses s w))) h h7"
    by (rule same_at_sub) (use h7(2) in \<open>auto simp: reached_def ub xs_def\<close>)
  ultimately show ?thesis by (simp add: reached_def)
qed

section \<open>What is left\<close>

text \<open>The arrays of configurations and of pairs are never freed, nor is the device tree of a revision without an
  initrd.\<close>

definition plat_leaked :: "plat_shape \<Rightarrow> nat set" where
  "plat_leaked w = (case ps_configs w of None \<Rightarrow> {} | Some (c, _) \<Rightarrow> {c}) \<union> (\<lambda>(b, P, qs, t). P) ` set (ps_lconfs w)"

definition rev_leaked :: "rev_shape \<Rightarrow> nat set" where
  "rev_leaked w = (if rs_initrd w = None then set (somes [rs_fdt w]) else {}) \<union> (\<Union>(p, x)\<in>set (rs_platforms w). plat_leaked x)"

lemma struct_all_gone: "releasing.all_gone struct_gone xs = set (releasing.all_uses struct_uses xs)"
  unfolding vols.all_gone_def vols.all_uses_def by auto

lemma lconfs_gone:
  "distinct (lconfs.all_uses xs) \<Longrightarrow> lconfs.all_gone xs = set (lconfs.all_uses xs) - (\<lambda>(b, P, qs, t). P) ` set xs"
proof (induction xs)
  case (Cons x xs)
  obtain b P qs t where x: "x = (b, P, qs, t)" by (cases x)
  have "(\<lambda>(b, P, qs, t). P) ` set xs \<subseteq> set (lconfs.all_uses xs)" by (fastforce simp: lconfs.all_uses_def)
  moreover have "distinct (lconf_uses b (P, qs, t) @ lconfs.all_uses xs)" using Cons.prems by (simp add: x lconfs.all_simps)
  ultimately show ?case using Cons.IH by (auto simp: x lconfs.all_simps)
qed (simp add: lconfs.all_simps)

lemma minus_leaks:
  "distinct (p # a @ cs @ t @ l @ lc) \<Longrightarrow> K \<subseteq> set lc \<Longrightarrow> C \<subseteq> set cs \<Longrightarrow>
     set (p # a) \<union> (set cs - C) \<union> set t \<union> set l \<union> (set lc - K) = set (p # a @ cs @ t @ l @ lc) - (C \<union> K)"
  by auto

lemma plat_gone_is:
  assumes "distinct (plat_uses p w)"
  shows "plat_gone p w = set (plat_uses p w) - plat_leaked w"
proof -
  let ?cs = "case ps_configs w of None \<Rightarrow> [] | Some (c, xs) \<Rightarrow> c # xs"
  let ?C = "case ps_configs w of None \<Rightarrow> {} | Some (c, _) \<Rightarrow> {c}"
  have "distinct (lconfs.all_uses (ps_lconfs w))" "distinct ?cs" using assms by (simp_all add: plat_uses_def)
  note g = lconfs_gone [OF this(1)]
  have cs: "set (configs_strings (ps_configs w)) = set ?cs - ?C" "?C \<subseteq> set ?cs"
    using \<open>distinct ?cs\<close> by (auto split: option.splits)
  have "(\<lambda>(b, P, qs, t). P) ` set (ps_lconfs w) \<subseteq> set (lconfs.all_uses (ps_lconfs w))" by (fastforce simp: lconfs.all_uses_def)
  from minus_leaks [OF assms [unfolded plat_uses_def] this cs(2)] show ?thesis
    by (simp only: plat_gone_def plat_leaked_def plat_uses_def g struct_all_gone cs(1))
qed

lemma plat_leaked_used: "plat_leaked w \<subseteq> set (plat_uses p w)"
proof -
  have "(\<lambda>(b, P, qs, t). P) ` set (ps_lconfs w) \<subseteq> set (lconfs.all_uses (ps_lconfs w))" by (fastforce simp: lconfs.all_uses_def)
  then show ?thesis by (auto simp: plat_leaked_def plat_uses_def split: option.split prod.split)
qed

lemma rev_leaks:
  "distinct (s # b @ j @ p @ v @ a @ c @ n) \<Longrightarrow> K \<subseteq> set p \<Longrightarrow> F \<subseteq> set b \<Longrightarrow>
     insert s (set b - F \<union> set j) \<union> (set p - K) \<union> set v \<union> set a \<union> set c \<union> set n =
     insert s (set b \<union> set (j @ p @ v @ a @ c @ n)) - (F \<union> K)"
  by auto

lemma plats_gone:
  "distinct (plats.all_uses xs) \<Longrightarrow> plats.all_gone xs = set (plats.all_uses xs) - (\<Union>(p, x)\<in>set xs. plat_leaked x)"
proof (induction xs)
  case (Cons x xs)
  obtain p w where x: "x = (p, w)" by (cases x)
  note sub = plat_leaked_used
  then have "(\<Union>(p, x)\<in>set xs. plat_leaked x) \<subseteq> set (plats.all_uses xs)" by (fastforce simp: plats.all_uses_def)
  moreover have "distinct (plat_uses p w @ plats.all_uses xs)" using Cons.prems by (simp add: x plats.all_simps)
  ultimately show ?case using Cons.IH sub [of w p] plat_gone_is [of p w] by (auto simp: x plats.all_simps)
qed (simp add: plats.all_simps)

lemma rev_gone_is:
  assumes "distinct (rev_uses s w)"
  shows "rev_gone s w = set (rev_uses s w) - rev_leaked w"
proof -
  let ?b = "somes (rs_rev w # [rs_kernel w, rs_fdt w, rs_initrd w] @ rs_bsp w)"
  let ?F = "if rs_initrd w = None then set (somes [rs_fdt w]) else {}"
  let ?K = "\<Union>(p, x)\<in>set (rs_platforms w). plat_leaked x"
  have "distinct (plats.all_uses (rs_platforms w))" "distinct ?b"
    using assms [unfolded rev_uses_def] by (simp_all only: distinct.simps distinct_append)
  note g = plats_gone [OF this(1)]
  have b: "set (somes (rs_rev w # rev_images w @ rs_bsp w)) = set ?b - ?F" "?F \<subseteq> set ?b"
    using \<open>distinct ?b\<close> by (auto simp: rev_images_def disjoint_iff split: option.splits)
  have K: "?K \<subseteq> set (plats.all_uses (rs_platforms w))" using plat_leaked_used by (fastforce simp: plats.all_uses_def)
  have rearranged: "set (s # xs @ ys) = insert s (set xs \<union> set ys)" for xs ys :: "nat list" by auto
  show ?thesis
    using rev_leaks [OF assms [unfolded rev_uses_def] K b(2)]
    by (simp only: rev_gone_def rev_leaked_def rev_uses_def g struct_all_gone b(1) rearranged)
qed

lemma dead_state_faults: "s \<notin> h_live h \<Longrightarrow> pv_state_free (Some s) h = Some Fault"
  by (simp add: pv_state_free_def if_set_def free_member_def get_ptr_def)

text \<open>C40: Releasing a revision whose blocks are all different frees each of them exactly once and touches no freed one: what is
  left of it are the arrays of the configurations, the arrays of the pairs of the logger configurations and, without an
  initrd, the device tree. To release it again is a fault.\<close>
theorem revision_released_once:
  assumes "rev_shaped h s w" "distinct (rev_uses s w)" "set (rev_uses s w) \<subseteq> h_live h"
  shows "\<exists>h'. pv_state_free (Some s) h = Some (Done h') \<and> h_live h' = h_live h - (set (rev_uses s w) - rev_leaked w) \<and>
     pv_state_free (Some s) h' = Some Fault"
proof -
  obtain h' where h': "pv_state_free (Some s) h = Some (Done h')" "h_live h' = h_live h - rev_gone s w"
    using state_released [OF assms] reached_live by blast
  have "s \<in> rev_gone s w" by (simp add: rev_gone_def)
  then show ?thesis using h' rev_gone_is [OF assms(2)] dead_state_faults [of s h'] by auto
qed

text \<open>A revision with one platform and no initrd: blocks 3 (the device tree) and 6 (the array of configurations) are left.\<close>

definition ex_cells :: "(place \<times> cell) list" where
  "ex_cells = [((0, Mem ''rev''), Ptr (Some 1)), ((0, Mem ''kernel''), Ptr (Some 2)), ((0, Mem ''fdt''), Ptr (Some 3)),
     ((0, Mem ''initrd''), Ptr None), ((0, Mem ''firmware''), Ptr None), ((0, Mem ''modules''), Ptr None), ((0, Mem ''json''), Ptr None),
     ((0, Mem ''platforms''), Node (Some (4, Mem ''list'')) (Some (4, Mem ''list''))),
     ((4, Mem ''list''), Node (Some (0, Mem ''platforms'')) (Some (0, Mem ''platforms''))),
     ((0, Mem ''volumes''), Node (Some (0, Mem ''volumes'')) (Some (0, Mem ''volumes''))),
     ((0, Mem ''addons''), Node (Some (0, Mem ''addons'')) (Some (0, Mem ''addons''))),
     ((0, Mem ''objects''), Node (Some (0, Mem ''objects'')) (Some (0, Mem ''objects''))),
     ((0, Mem ''jsons''), Node (Some (0, Mem ''jsons'')) (Some (0, Mem ''jsons''))),
     ((4, Mem ''name''), Ptr (Some 5)), ((4, Mem ''type''), Ptr None), ((4, Mem ''configs''), Ptr (Some 6)),
     ((4, Mem ''exec''), Ptr None), ((4, Mem ''data''), Ptr None),
     ((4, Mem ''logger_list''), Node (Some (4, Mem ''logger_list'')) (Some (4, Mem ''logger_list''))),
     ((4, Mem ''logger_configs''), Node (Some (4, Mem ''logger_configs'')) (Some (4, Mem ''logger_configs''))),
     ((6, Ix 0), Ptr (Some 7)), ((6, Ix 1), Ptr None)]"

definition ex_memory :: heap where
  "ex_memory = \<lparr>h_live = {0, 1, 2, 3, 4, 5, 6, 7, 8}, h_cell = map_of ex_cells\<rparr>"

definition ex_plat_shape :: plat_shape where
  "ex_plat_shape = \<lparr>ps_head = [Some 5, None], ps_configs = Some (6, [7]), ps_tail = [None, None], ps_loggers = [], ps_lconfs = []\<rparr>"

definition ex_rev_shape :: rev_shape where
  "ex_rev_shape = \<lparr>rs_rev = Some 1, rs_kernel = Some 2, rs_fdt = Some 3, rs_initrd = None, rs_bsp = [None, None], rs_json = None,
     rs_platforms = [(4, ex_plat_shape)], rs_volumes = [], rs_addons = [], rs_objects = [], rs_jsons = []\<rparr>"

lemma ex_empty_list: "x \<in> {''volumes'', ''addons'', ''objects'', ''jsons''} \<Longrightarrow> dlist ex_memory (0, Mem x) []"
  "x \<in> {''logger_list'', ''logger_configs''} \<Longrightarrow> dlist ex_memory (4, Mem x) []"
  by (auto simp: dlist_def linked_def nxt_def prv_def ex_memory_def ex_cells_def)

lemma ex_plat_shaped: "plat_shaped ex_memory 4 ex_plat_shape"
  using ex_empty_list by (simp add: plat_shaped_def ex_plat_shape_def loggers.all_simps lconfs.all_simps)
    (simp add: ex_memory_def ex_cells_def)

lemma ex_uses: "rev_uses 0 ex_rev_shape = [0, 1, 2, 3, 4, 5, 6, 7]" "rev_leaked ex_rev_shape = {3, 6}"
  by (simp_all add: rev_uses_def rev_leaked_def plat_leaked_def ex_rev_shape_def plat_uses_def ex_plat_shape_def
      plats.all_simps vols.all_simps loggers.all_simps lconfs.all_simps insert_commute)

lemma ex_members:
  "has_members [Mem ''rev''] ex_memory 0 [Some 1]" "has_members [Mem ''json''] ex_memory 0 [None]"
  "has_members [Mem ''kernel'', Mem ''fdt'', Mem ''initrd''] ex_memory 0 [Some 2, Some 3, None]"
  "has_members [Mem ''firmware'', Mem ''modules''] ex_memory 0 [None, None]"
  by (simp_all add: ex_memory_def ex_cells_def)

theorem revision_released_once_witness:
  "\<exists>h'. pv_state_free (Some 0) ex_memory = Some (Done h') \<and> h_live h' = {3, 6, 8}"
proof -
  have "dlist ex_memory (0, Mem ''platforms'') [(4, Mem ''list'')]"
    by (simp add: dlist_def linked_def nxt_def prv_def ex_memory_def ex_cells_def)
  then have "rev_shaped ex_memory 0 ex_rev_shape"
    unfolding rev_shaped_def ex_rev_shape_def rev_shape.select_convs plats.all_simps vols.all_simps addons.all_simps objs.all_simps jsons.all_simps
    by (intro conjI ex_members ex_plat_shaped ex_empty_list plats.all_simps vols.all_simps addons.all_simps objs.all_simps jsons.all_simps) simp_all
  moreover have "{0, 1, 2, 3, 4, 5, 6, 7, 8} - ({0, 1, 2, 3, 4, 5, 6, 7} - {3, 6}) = {3, 6, 8 :: nat}" by auto
  ultimately show ?thesis using revision_released_once [of ex_memory 0 ex_rev_shape] by (auto simp: ex_uses ex_memory_def)
qed

section \<open>The shutdown\<close>

text \<open>The trail has one of its strings released twice, whatever else is in memory.\<close>

lemma trail_freed_twice:
  assumes "h_cell h (r, Mem ''endpoint_trail_queued'') = Some (Ptr (Some q))"
  shows "pv_trail_remote_free (Some r) h = Some Fault"
proof -
  have dead: "bind_o (free_member (Mem ''endpoint_trail_new'') r (h\<lparr>h_live := L - {q}\<rparr>))
      (\<lambda>h. bind_o (free_member (Mem ''endpoint_trail_queued'') r h) f) = Fault" for L f
    using assms by (auto simp: free_member_def get_ptr_def free_block_def bind_o_def split: option.splits cell.splits outcome.splits if_splits)
  show ?thesis
    using assms dead [of "h_live h"] by (auto simp: pv_trail_remote_free_def if_set_def free_struct_def free_member_def get_ptr_def
        free_block_def bind_o_def split: outcome.splits option.splits if_splits)
qed

text \<open>The process that calls it on the end of its child has no instance.\<close>

lemma stop_without_instance: "pv_stop bl None h = Some (Done h)"
  by (simp add: pv_stop_def if_set_def)

text \<open>Before the next round of a push no prefix is left, and all of them are released.\<close>

lemma prefixes_cleared:
  assumes "dlist h (g, Mem ''skip_list'') (skips.nodes xs)" "skips.shapes h xs" "distinct (g # skips.all_uses xs)"
    and "set (skips.all_uses xs) \<subseteq> h_live h"
  shows "\<exists>h'. ph_logger_clear_skip_prefix g h = Some (Done h') \<and> dlist h' (g, Mem ''skip_list'') []
    \<and> h_live h' = h_live h - skips.all_gone xs"
proof (cases xs)
  case Nil
  then have "skips.nodes xs = []" "skips.all_gone xs = {}" by (simp_all only: skips.all_simps)
  then show ?thesis using empty_list [OF assms(1)] assms(1) by (simp add: ph_logger_clear_skip_prefix_def)
next
  case (Cons x ys)
  then have "skips.nodes xs \<noteq> []" by (simp add: skips.nodes_def)
  then show ?thesis using empty_list [OF assms(1)] skips.emptied [OF assms(1,2)] assms(3,4) dlist_live [OF assms(1), of "(g, Mem ''skip_list'')"]
    by (simp add: ph_logger_clear_skip_prefix_def) blast
qed

end
