(* ===== verification/Services.thy ===== *)
theory Services
  imports Ctrl Hub LogPush Logs Startup
begin

text \<open>
  The edges of the program towards the kernel: running commands (\<open>tsh.c\<close> and the debug tools of \<open>init.c\<close>), the
  listening sockets (\<open>ctrl.c\<close>, \<open>ph_logger.c\<close>), the connection of the log service to the cloud, loading the plugins
  and starting loggers (\<open>platforms.c\<close>), and what is left of \<open>pantavisor.c\<close> and \<open>storage.c\<close>. What the kernel, the
  loader and the libraries answer are arguments; what is asked of them is a list of calls in order.
\<close>

section \<open>Running a command\<close>

datatype tsh_call = T_block | T_restore | T_wait int | T_close int | T_dup int int | T_setenv | T_exec "string list" | T_failed

text \<open>A pipe is its two ends, the one for reading first. \<open>dup2\<close> is tried until it is not interrupted: the answers of the
  tries, with \<open>None\<close> for an interrupted one; the last answer stays when there is no more.\<close>

fun dup_result :: "int option list \<Rightarrow> int" where
  "dup_result [] = 0"
| "dup_result (None # rs) = dup_result rs"
| "dup_result (Some r # rs) = r"

text \<open>What \<open>dup2\<close> answers for the three, in order.\<close>

fun dup_all :: "(int \<times> int \<times> int option list) list \<Rightarrow> tsh_call list \<times> bool" where
  "dup_all [] = ([], True)"
| "dup_all ((a, b, rs) # ds) = (if dup_result rs = -1 then ([T_dup a b], False)
     else case dup_all ds of (cs, ok) \<Rightarrow> (T_dup a b # cs, ok))"

definition opt_list :: "'a option \<Rightarrow> 'a list" where
  "opt_list x = (case x of None \<Rightarrow> [] | Some a \<Rightarrow> [a])"

definition child_exec :: "(int \<Rightarrow> int option list) \<Rightarrow> (int \<times> int) option \<Rightarrow> (int \<times> int) option \<Rightarrow> (int \<times> int) option \<Rightarrow> string list \<Rightarrow> tsh_call list" where
  "child_exec dup sin sout serr argv =
     (let unused = map (\<lambda>p. T_close (snd p)) (opt_list sin) @ map (\<lambda>p. T_close (fst p)) (opt_list sout @ opt_list serr);
          (ds, ok) = dup_all (map (\<lambda>p. (fst p, 0, dup 0)) (opt_list sin) @ map (\<lambda>p. (snd p, 1, dup 1)) (opt_list sout) @
            map (\<lambda>p. (snd p, 2, dup 2)) (opt_list serr));
          used = map (\<lambda>p. T_close (fst p)) (opt_list sin) @ map (\<lambda>p. T_close (snd p)) (opt_list sout @ opt_list serr)
      in unused @ ds @ (if ok then used @ [T_setenv, T_exec argv] else [T_failed]))"

text \<open>\<open>blocked\<close> is what \<open>sigprocmask\<close> returned and \<open>forked\<close> what \<open>fork\<close> did. The calls of the parent and, where there
  is one, of the child.\<close>

definition tsh_exec :: "int \<Rightarrow> int \<Rightarrow> (int \<Rightarrow> int option list) \<Rightarrow> bool \<Rightarrow> (int \<times> int) option \<Rightarrow> (int \<times> int) option \<Rightarrow> (int \<times> int) option \<Rightarrow>
     string list \<Rightarrow> int \<times> tsh_call list \<times> tsh_call list" where
  "tsh_exec blocked forked dup wait sin sout serr argv =
     (let early = (if wait then [T_block] else []); ret = (if wait then blocked else 0)
      in if forked = -1 then (-1, early @ (if ret = 0 \<and> wait then [T_restore] else []), [])
         else (forked, early @ (if wait \<and> ret = 0 then [T_wait forked, T_restore] else []), child_exec dup sin sout serr argv))"

definition tsh_run_io :: "int \<Rightarrow> int \<Rightarrow> (int \<Rightarrow> int option list) \<Rightarrow> string \<Rightarrow> bool \<Rightarrow> (int \<times> int) option \<Rightarrow> (int \<times> int) option \<Rightarrow> (int \<times> int) option \<Rightarrow>
     (int \<times> tsh_call list \<times> tsh_call list) outcome" where
  "tsh_run_io blocked forked dup cmd wait sin sout serr = (case tsh_split_cmd cmd of Fault \<Rightarrow> Fault
     | Done argv \<Rightarrow> Done (tsh_exec blocked forked dup wait sin sout serr argv))"

text \<open>The tools for debugging: each command with what \<open>fork\<close> gave for it. \<open>reads\<close> are the tries to read from the console,
  \<open>None\<close> where nothing was there; there are five.\<close>

definition debug_telnet :: "(nat \<Rightarrow> int) \<Rightarrow> (int \<times> string list) list outcome" where
  "debug_telnet forked = (case (tsh_run (forked 0) ''ifconfig lo up'',
       tsh_run (forked 1) ''dropbear -p 0.0.0.0:8222 -n /pv/user-meta/pvr-sdk.authorized_keys -R -c /usr/bin/fallbear-cmd'') of
     (Done a, Done b) \<Rightarrow> Done [a, b] | _ \<Rightarrow> Fault)"

fun console_read :: "nat \<Rightarrow> string option list \<Rightarrow> string option" where
  "console_read 0 rs = None"
| "console_read (Suc t) [] = None"
| "console_read (Suc t) (Some c # rs) = Some c"
| "console_read (Suc t) (None # rs) = console_read t rs"

text \<open>The process id of the shell, when one was started.\<close>

definition debug_shell :: "int \<Rightarrow> bool \<Rightarrow> string option list \<Rightarrow> int option outcome" where
  "debug_shell forked opened reads = (if \<not> opened then Done None
     else case console_read 5 reads of
       Some (c # cs) \<Rightarrow> (if c = CHR ''d'' then (case tsh_run forked ''/sbin/getty -n -l /bin/sh 0 console'' of Fault \<Rightarrow> Fault
           | Done (pid, argv) \<Rightarrow> Done (Some pid)) else Done None)
     | _ \<Rightarrow> Done None)"

definition wait_shell :: "int \<Rightarrow> tsh_call list" where
  "wait_shell pid = (if pid \<noteq> 0 then [T_wait pid] else [])"

definition redirect_io :: "int \<Rightarrow> int \<Rightarrow> tsh_call list" where
  "redirect_io outfd nullfd = (if 0 \<le> outfd \<and> 0 \<le> nullfd then [T_dup outfd 1, T_dup outfd 2, T_dup nullfd 0] else [])"

section \<open>Listening sockets\<close>

text \<open>What \<open>socket\<close>, \<open>bind\<close> and \<open>listen\<close> return; the path has room for 108 bytes. The descriptor that is returned, and the
  ones that are closed.\<close>

record sock_env =
  so_socket :: int
  so_bind :: int
  so_listen :: int

definition pv_ctrl_socket_open :: "sock_env \<Rightarrow> string \<Rightarrow> (int \<times> int list) outcome" where
  "pv_ctrl_socket_open e path =
     (if so_socket e < 0 then Done (so_socket e, [])
      else if 108 < length path + 1 then Fault
      else if so_bind e < 0 then Done (-1, [so_socket e])
      else if so_listen e \<noteq> 0 then Done (-1, [])
      else Done (so_socket e, []))"

definition pv_ctrl_socket_close :: "int \<Rightarrow> int list" where
  "pv_ctrl_socket_close fd = (if 0 \<le> fd then [fd] else [])"

definition pv_ctrl_init :: "sock_env \<Rightarrow> string \<Rightarrow> (int \<times> int) outcome" where
  "pv_ctrl_init e path = (case pv_ctrl_socket_open e path of Fault \<Rightarrow> Fault
     | Done (fd, closed) \<Rightarrow> Done (if fd < 0 then (-1, fd) else (0, fd)))"

text \<open>One wait for a request: what \<open>select\<close> and \<open>accept\<close> return. The request is read from the accepted socket, which is
  closed behind it.\<close>

definition pv_ctrl_socket_wait :: "cenv \<Rightarrow> int \<Rightarrow> int \<Rightarrow> int \<Rightarrow> cstate \<Rightarrow> (cmd option \<times> cstate \<times> int list) outcome" where
  "pv_ctrl_socket_wait e fd selected accepted c =
     (if fd < 0 \<or> selected = 0 \<or> selected < 0 \<or> accepted < 0 then Done (None, c, [])
      else case pv_ctrl_read_parse_request e c of Fault \<Rightarrow> Fault | Done (cmd, c') \<Rightarrow> Done (cmd, c', [accepted]))"

definition ph_logger_open_socket :: "sock_env \<Rightarrow> string \<Rightarrow> (int \<times> int list) outcome" where
  "ph_logger_open_socket e path =
     (if so_socket e < 0 then Done (so_socket e, [])
      else if 108 < length path + 1 then Fault
      else if so_bind e < 0 then Done (-1, [so_socket e])
      else Done (so_socket e, []))"

text \<open>\<open>epoll\<close> and \<open>ctl\<close> are what \<open>epoll_create1\<close> and \<open>epoll_ctl\<close> return. The result, the two descriptors and the ones that
  are closed: they keep their numbers.\<close>

definition ph_logger_init :: "sock_env \<Rightarrow> int \<Rightarrow> int \<Rightarrow> string \<Rightarrow> (int \<times> (int \<times> int) \<times> int list) outcome" where
  "ph_logger_init e epoll ctl path = (case ph_logger_open_socket e path of Fault \<Rightarrow> Fault
     | Done (fd, closed) \<Rightarrow> Done (if epoll < 0 \<or> fd < 0 \<or> ctl \<noteq> 0 then (-1, (fd, epoll), closed @ [fd, epoll])
         else (0, (fd, epoll), closed)))"

section \<open>Starting the log\<close>

text \<open>The directory of the logs is made and bound to the one of the storage; the HTTP library logs here when the directory of
  the revision is there. The first lines of the log are left out.\<close>

datatype log_request = Log_mkdir string nat | Log_bind "string option" string | Log_http

definition pv_log_init :: "pantavisor_log \<Rightarrow> (string \<Rightarrow> bool) \<Rightarrow> string \<Rightarrow> log_state \<Rightarrow> (log_request list \<times> log_pool \<times> log_state) outcome" where
  "pv_log_init c makes rv st = (case pv_log_start (cl_capture c) makes rv st of Fault \<Rightarrow> Fault
     | Done (r, st') \<Rightarrow> Done ([Log_mkdir ''/pv/logs'' 493, Log_bind (cl_logdir c) ''/pv/logs''] @ (if r < 0 then [] else [Log_http]),
         log_pool_init (cl_logsize c), st'))"

definition shown :: "string option \<Rightarrow> string" where
  "shown so = CHR 0x27 # (case so of None \<Rightarrow> ''(null)'' | Some s \<Rightarrow> s) @ [CHR 0x27]"

text \<open>The settings that are logged at the start.\<close>

definition logged_settings :: "pantavisor_config \<Rightarrow> string list" where
  "logged_settings c = (let st = cf_storage c; cr = cf_creds c; num = (\<lambda>i. shown (Some (show_int i))) in
     [''storage.path = '' @ shown (cs_path st), ''storage.fstype = '' @ shown (cs_fstype st),
      ''storage.opts = '' @ shown (cs_opts st), ''storage.mntpoint = '' @ shown (cs_mntpoint st),
      ''storage.mnttype = '' @ shown (cs_mnttype st),
      ''secureboot.mode = '' @ num (case cf_secureboot_mode c of SB_DISABLED \<Rightarrow> 0 | SB_LENIENT \<Rightarrow> 1 | SB_STRICT \<Rightarrow> 2),
      ''creds.host = '' @ shown (cr_host cr), ''creds.port = '' @ num (cr_port cr),
      ''creds.host_proxy = '' @ shown (cr_host_proxy cr), ''creds.port_proxy = '' @ num (cr_port_proxy cr),
      ''creds.noproxyconnect = '' @ num (cr_noproxyconnect cr), ''creds.id = '' @ shown (cr_id cr),
      ''creds.prn = '' @ shown (cr_prn cr), ''creds.secret = '' @ shown (cr_secret cr)])"

definition pv_log_early_init :: "pantavisor_config \<Rightarrow> (string \<Rightarrow> bool) \<Rightarrow> sock_env \<Rightarrow> int \<Rightarrow> int \<Rightarrow> string \<Rightarrow> log_state \<Rightarrow>
    (int \<times> log_request list \<times> log_pool \<times> log_state \<times> string list) outcome" where
  "pv_log_early_init c makes e epoll ctl rv st = (case pv_log_init (cf_log c) makes rv st of Fault \<Rightarrow> Fault
     | Done (reqs, pool, st') \<Rightarrow> (case ph_logger_init e epoll ctl ''/pv/pv-ctrl-log'' of Fault \<Rightarrow> Fault
         | Done (r, _, _) \<Rightarrow> Done (if r \<noteq> 0 then -1 else 0, reqs, pool, st', logged_settings c)))"

text \<open>The secret of the device is among what is logged, and a revision with a long name overruns the directory.\<close>

lemma secret_logged: "pv_log_early_init c makes e epoll ctl rv st = Done (r, reqs, pool, st', ls) \<Longrightarrow>
    ''creds.secret = '' @ shown (cr_secret (cf_creds c)) \<in> set ls"
  by (auto simp: pv_log_early_init_def logged_settings_def Let_def split: outcome.splits prod.splits)

lemma long_revision_overruns: "cl_capture (cf_log c) \<Longrightarrow> 108 < length rv \<Longrightarrow> pv_log_early_init c makes e epoll ctl rv st = Fault"
  by (simp add: pv_log_early_init_def pv_log_init_def pv_log_start_def pv_log_set_log_dir_def Let_def)

section \<open>The log service and the cloud\<close>

text \<open>The connection is a host and a port; the client keeps the one that it was made for.\<close>

record log_cloud =
  lc_conn :: "(string \<times> int) option"
  lc_client :: "(string \<times> int) option"

definition ph_logger_get_connection :: "pantavisor_creds \<Rightarrow> log_cloud \<Rightarrow> (int \<times> log_cloud) outcome" where
  "ph_logger_get_connection c l = (case lc_conn l of Some x \<Rightarrow> Done (1, l)
     | None \<Rightarrow> (case pv_get_instance_connection c of Fault \<Rightarrow> Fault
         | Done x \<Rightarrow> Done (1, l\<lparr>lc_conn := Some x, lc_client := None\<rparr>)))"

text \<open>\<open>auth\<close> tells whether the client could be authorised.\<close>

definition ph_logger_push_logs_endpoint :: "hub_env \<Rightarrow> pantavisor_creds \<Rightarrow> bool \<Rightarrow> (string \<Rightarrow> answer) \<Rightarrow> string \<Rightarrow> log_cloud \<Rightarrow> (int \<times> log_cloud) outcome" where
  "ph_logger_push_logs_endpoint e c auth post body l =
     (case (case lc_client l of Some x \<Rightarrow> Done l
        | None \<Rightarrow> (case pv_get_trest_client e c of Fault \<Rightarrow> Fault
            | Done ok \<Rightarrow> Done (if ok then l\<lparr>lc_client := lc_conn l\<rparr> else l))) of
       Fault \<Rightarrow> Fault
     | Done l' \<Rightarrow> Done (if lc_client l' = None \<or> \<not> auth then -1 else if ok_body (post body) = None then -1 else 0, l'))"

text \<open>The handlers of a version of the log messages; there is one version.\<close>

definition get_handler :: "'h \<Rightarrow> int \<Rightarrow> 'h option" where
  "get_handler h version = (if version < 0 \<or> 1 \<le> version then None else Some h)"

definition ph_logger_read_bytes :: "int \<Rightarrow> string \<Rightarrow> int \<Rightarrow> log_parts option outcome" where
  "ph_logger_read_bytes version mem len = (case get_handler ph_logger_read_handler_v1 version of None \<Rightarrow> Done None
     | Some f \<Rightarrow> (case f mem len of Fault \<Rightarrow> Fault | Done p \<Rightarrow> Done (Some p)))"

definition ph_logger_write_bytes :: "int \<Rightarrow> string \<Rightarrow> int \<Rightarrow> string \<Rightarrow> int \<Rightarrow> string \<Rightarrow> string \<Rightarrow> int \<Rightarrow> (int \<times> int \<times> string) outcome" where
  "ph_logger_write_bytes version mem len buf level platform source data_len =
     (case get_handler ph_logger_write_handler_v1 version of None \<Rightarrow> Done (0, len, mem)
      | Some f \<Rightarrow> f mem len buf level platform source data_len)"

definition ph_logger_skip_prefix :: "string option \<Rightarrow> string option" where
  "ph_logger_skip_prefix p = (case p of None \<Rightarrow> None | Some s \<Rightarrow> if s = [] then None else Some s)"

text \<open>The log service runs until it is told to stop; \<open>told\<close> says in which round the flag is found set, and each round takes
  what is ready.\<close>

fun log_service_loop :: "log_files \<Rightarrow> string \<Rightarrow> (ready list) list \<Rightarrow> log_service_out \<Rightarrow> log_service_out outcome" where
  "log_service_loop f rv [] out = Done out"
| "log_service_loop f rv (evs # rounds) out = (case take_events f rv evs out of Fault \<Rightarrow> Fault
     | Done out' \<Rightarrow> log_service_loop f rv rounds out')"

section \<open>Plugins and loggers\<close>

record cont_ctrl =
  cc_type :: string
  cc_start :: "nat option"
  cc_stop :: "nat option"

text \<open>\<open>open_lib\<close> gives the symbols of a library, or \<open>None\<close>. The result, the entry, and the setters that were called.\<close>

definition load_pv_plugin :: "(string \<Rightarrow> (string \<Rightarrow> nat option) option) \<Rightarrow> cont_ctrl \<Rightarrow> nat \<times> cont_ctrl \<times> string list" where
  "load_pv_plugin open_lib c = (case open_lib (''/lib/pv_'' @ cc_type c @ ''.so'') of None \<Rightarrow> (0, c, [])
     | Some dlsym \<Rightarrow>
         (let c1 = (if cc_start c = None then c\<lparr>cc_start := dlsym ''pv_start_container''\<rparr> else c);
              c2 = (if cc_stop c1 = None then c1\<lparr>cc_stop := dlsym ''pv_stop_container''\<rparr> else c1)
          in if cc_start c2 = None \<or> cc_stop c2 = None then (0, c2, [])
             else (1, c2, filter (\<lambda>s. dlsym s \<noteq> None) [''pv_set_new_log_fn'', ''pv_set_pv_instance_fn''])))"

definition pv_platforms_init_ctrl :: "(string \<Rightarrow> (string \<Rightarrow> nat option) option) \<Rightarrow> cont_ctrl list \<Rightarrow> nat \<times> cont_ctrl list" where
  "pv_platforms_init_ctrl open_lib cs =
     (sum_list (map (\<lambda>c. fst (load_pv_plugin open_lib c)) cs), map (\<lambda>c. fst (snd (load_pv_plugin open_lib c))) cs)"

text \<open>A logger runs in a child, in the mounts of the container unless it is the logger of the plugin.\<close>

datatype logger_child = Open_ns string | Set_ns int | Run_logger string | Exit_failed

definition logger_child :: "int \<Rightarrow> int \<Rightarrow> int \<Rightarrow> string \<Rightarrow> string \<Rightarrow> bool \<Rightarrow> logger_child list" where
  "logger_child ns setns init_pid name plat islxc =
     (if islxc then [Run_logger name]
      else let path = take 63 (''/proc/'' @ show_int init_pid @ ''/ns/mnt'') in
        if ns < 0 then [Open_ns path, Exit_failed]
        else if setns \<noteq> 0 then [Open_ns path, Set_ns ns, Exit_failed]
        else [Open_ns path, Set_ns ns, Run_logger plat])"

text \<open>The result and the new process of the logger, when there is one.\<close>

definition start_pvlogger_for_platform :: "int \<Rightarrow> (int \<times> bool) option \<Rightarrow> int \<times> int option" where
  "start_pvlogger_for_platform forked info = (case info of None \<Rightarrow> (-1, None)
     | Some i \<Rightarrow> (if forked < 0 then (-1, None) else (forked, Some forked)))"

section \<open>The rest of the controller\<close>

definition pv_state_string :: "pv_state_t option \<Rightarrow> string" where
  "pv_state_string st = (case st of Some PV_STATE_INIT \<Rightarrow> ''STATE_INIT'' | Some PV_STATE_RUN \<Rightarrow> ''STATE_RUN''
     | Some PV_STATE_WAIT \<Rightarrow> ''STATE_WAIT'' | Some PV_STATE_COMMAND \<Rightarrow> ''STATE_COMMAND'' | Some PV_STATE_UPDATE \<Rightarrow> ''STATE_UPDATE''
     | Some PV_STATE_ROLLBACK \<Rightarrow> ''STATE_ROLLBACK'' | Some PV_STATE_REBOOT \<Rightarrow> ''STATE_REBOOT''
     | Some PV_STATE_POWEROFF \<Rightarrow> ''STATE_POWEROFF'' | Some PV_STATE_ERROR \<Rightarrow> ''STATE_ERROR'' | Some PV_STATE_EXIT \<Rightarrow> ''STATE_EXIT''
     | Some PV_STATE_FACTORY_UPLOAD \<Rightarrow> ''STATE_FACTORY_UPLOAD'' | None \<Rightarrow> ''STATE_UNKNOWN'')"

datatype ph_state_t = PH_STATE_INIT | PH_STATE_REGISTER | PH_STATE_CLAIM | PH_STATE_SYNC | PH_STATE_IDLE | PH_STATE_UPDATE

definition ph_state_string :: "ph_state_t \<Rightarrow> string" where
  "ph_state_string st = (case st of PH_STATE_INIT \<Rightarrow> ''init'' | PH_STATE_REGISTER \<Rightarrow> ''register'' | PH_STATE_CLAIM \<Rightarrow> ''claim''
     | PH_STATE_SYNC \<Rightarrow> ''sync'' | PH_STATE_IDLE \<Rightarrow> ''idle'' | PH_STATE_UPDATE \<Rightarrow> ''update'')"

definition pv_wait_delay_timedout :: "clock \<Rightarrow> timer \<Rightarrow> int \<Rightarrow> bool \<times> timer" where
  "pv_wait_delay_timedout now t seconds = (if \<not> fin (timer_current_state now t) then (False, t)
     else (True, timer_start now t seconds 0 RELATIV_TIMER))"

definition pv_meta_update_to_ph :: "('w \<Rightarrow> int \<times> 'w) \<Rightarrow> ('w \<Rightarrow> int \<times> 'w) \<Rightarrow> 'w \<Rightarrow> int \<times> 'w" where
  "pv_meta_update_to_ph get_meta upload w = (case get_meta w of (r, w1) \<Rightarrow> if r \<noteq> 0 then (-1, w1)
     else case upload w1 of (r', w2) \<Rightarrow> (if r' \<noteq> 0 then -1 else 0, w2))"

text \<open>The pending update, the trail and the switches of a new instance; the result is 0 also without one.\<close>

record instance_flags =
  in_state :: "nat option"
  in_remote :: "nat option"
  in_update :: "nat option"
  in_online :: bool
  in_remote_mode :: bool
  in_synced :: bool
  in_loading_objects :: bool

definition pv_pantavisor_init :: "instance_flags option \<Rightarrow> int \<times> instance_flags option" where
  "pv_pantavisor_init pv = (0, map_option (\<lambda>_. \<lparr>in_state = None, in_remote = None, in_update = None, in_online = False,
     in_remote_mode = False, in_synced = False, in_loading_objects = False\<rparr>) pv)"

section \<open>The configuration of a revision\<close>

text \<open>\<open>there\<close> tells which paths exist, and \<open>ext\<close> whether there is an executable extension. The command that is run, with
  the ones that were built.\<close>

definition pv_storage_make_config :: "bool \<Rightarrow> bool \<Rightarrow> string \<Rightarrow> string \<Rightarrow> string \<times> string list" where
  "pv_storage_make_config target_there ext mnt rv =
     (let src = mnt @ ''/trails/'' @ rv @ ''/_config/''; target = ''/configs/'';
          clean = (if target_there then [''/bin/rm -rf '' @ target @ ''/*''] else []);
          cmd = (if ext then ''/usr/local/bin/pvext_sysconfig '' @ src @ '' '' @ target else ''/bin/cp -aL '' @ src @ ''/* '' @ target @ ''/'')
      in (cmd, clean @ [cmd]))"

section \<open>Keys, masks and objects\<close>

datatype pk_type = PK_ECDSA | PK_ECKEY | PK_RSA | PK_other int

definition pv_signature_validate_pk :: "pk_type \<Rightarrow> bool \<Rightarrow> int" where
  "pv_signature_validate_pk ty can_do = (case ty of PK_other n \<Rightarrow> -1 | _ \<Rightarrow> if can_do then 0 else -1)"

definition pv_signature_load_pk :: "('k, int) sum \<Rightarrow> int \<times> 'k option" where
  "pv_signature_load_pk read = (case read of Inl k \<Rightarrow> (0, Some k) | Inr r \<Rightarrow> (-1, None))"

definition set_netmask :: "bool \<Rightarrow> int \<Rightarrow> int" where
  "set_netmask mask_ok ioctl = (if \<not> mask_ok then -1 else if ioctl = -1 then -1 else 0)"

text \<open>\<open>fit\<close> is the same pointer as \<open>kernel\<close>.\<close>

definition obj_is_kernel_pvk :: "string option \<Rightarrow> bool \<Rightarrow> string \<Rightarrow> bool" where
  "obj_is_kernel_pvk img pvk name = (case img of
       Some k \<Rightarrow> (if k \<noteq> name then False else pvk)
     | None \<Rightarrow> pvk)"

text \<open>\<open>sscanf\<close> with \<open>%d\<close> leaves the number as it is when there is none.\<close>

definition do_progress_action :: "(int \<times> string option) \<Rightarrow> int \<Rightarrow> int \<times> int" where
  "do_progress_action parsed retries = (case parsed of (r, data) \<Rightarrow>
     (r, case data of None \<Rightarrow> retries
         | Some s \<Rightarrow> if r \<noteq> 0 then retries
             else let t = dropWhile is_space s; u = (case t of c # cs \<Rightarrow> if c = CHR ''-'' \<or> c = CHR ''+'' then cs else t | [] \<Rightarrow> [])
               in if u \<noteq> [] \<and> is_digit (hd u) then atoi s else retries))"

section \<open>Small functions\<close>

definition pv_bl_init :: "bl_type \<Rightarrow> int \<Rightarrow> int \<Rightarrow> int" where
  "pv_bl_init ty uboot_inited grub_inited = (case ty of BL_GRUB \<Rightarrow> grub_inited | _ \<Rightarrow> uboot_inited)"

definition pv_platforms_early_init :: "(string \<Rightarrow> (string \<Rightarrow> nat option) option) \<Rightarrow> cont_ctrl list \<Rightarrow> int \<times> cont_ctrl list" where
  "pv_platforms_early_init open_lib cs = (case pv_platforms_init_ctrl open_lib cs of (n, cs') \<Rightarrow> (if n = 0 then -1 else 0, cs'))"

text \<open>The code of the answer of the login handler: \<open>pipe\<close>, what is read (\<open>None\<close> for an error), and the result of the parser.\<close>

definition login_code :: "bool \<Rightarrow> int \<Rightarrow> string list option \<Rightarrow> (string \<Rightarrow> int) \<Rightarrow> (int \<times> string option) outcome" where
  "login_code data piped pieces parse = (if \<not> data \<or> piped < 0 then Done (500, None)
     else case pieces of None \<Rightarrow> Done (500, None)
     | Some ss \<Rightarrow> (case external_login_handler ss of Fault \<Rightarrow> Fault
         | Done body \<Rightarrow> Done (if parse body = 0 then 500 else 200, Some body)))"

text \<open>\<open>dst\<close> must be \<open>NULL\<close>; an error releases what is there. \<open>decode\<close> gets the room and the text.\<close>

definition base64_room :: "nat \<Rightarrow> nat" where
  "base64_room ilen = 4 * ((4 * ilen div 3 + 3) div 4)"

definition pv_base64_decode :: "(nat \<Rightarrow> string \<Rightarrow> string option) \<Rightarrow> string \<Rightarrow> string option \<Rightarrow> int \<times> string option" where
  "pv_base64_decode decode src dst = (if dst \<noteq> None then (-1, None)
     else case decode (base64_room (length src)) src of None \<Rightarrow> (-1, None) | Some d \<Rightarrow> (0, Some d))"

fun strnchr :: "string \<Rightarrow> char \<Rightarrow> nat \<Rightarrow> nat option" where
  "strnchr [] ch n = None"
| "strnchr (c # cs) ch 0 = None"
| "strnchr (c # cs) ch (Suc n) = (if c = ch then Some 0 else map_option Suc (strnchr cs ch n))"

text \<open>What is logged of an answer with an error.\<close>

definition resp_err_text :: "string option \<Rightarrow> string option \<Rightarrow> int \<Rightarrow> string" where
  "resp_err_text err msg code = (case (err, msg) of
       (Some e, Some m) \<Rightarrow> ''Error '' @ e @ '': Message '' @ m @ '', code = '' @ show_int code
     | _ \<Rightarrow> ''Malformed Error JSON from API, error:'' @ (case err of None \<Rightarrow> ''nil'' | Some e \<Rightarrow> e) @ '',msg:'' @
         (case msg of None \<Rightarrow> ''nil'' | Some m \<Rightarrow> m) @ '', code='' @ show_int code)"

definition trail_log_resp_err :: "(string \<Rightarrow> string option) \<Rightarrow> string" where
  "trail_log_resp_err val = resp_err_text (val ''error'') (val ''msg'')
     (case val ''code'' of None \<Rightarrow> 0 | Some c \<Rightarrow> snd (do_progress_action (0, Some c) 0))"

definition trail_log_trest_err :: "(int \<times> (string \<Rightarrow> string option) option) option \<Rightarrow> string option" where
  "trail_log_trest_err res = (case res of None \<Rightarrow> None
     | Some (code, vals) \<Rightarrow> (if code = 200 then None else map_option trail_log_resp_err vals))"

definition trail_log_thttp_err :: "(string \<Rightarrow> (string \<Rightarrow> string option) option) \<Rightarrow> (int \<times> string option) option \<Rightarrow> string option" where
  "trail_log_thttp_err parse res = (case res of None \<Rightarrow> None
     | Some (code, body) \<Rightarrow> (if code = 200 then None
         else case body of None \<Rightarrow> None | Some b \<Rightarrow> map_option trail_log_resp_err (parse b)))"

text \<open>\<open>True\<close> is a reboot.\<close>

definition shutdown_type_string :: "bool \<Rightarrow> string" where
  "shutdown_type_string reboot = (if reboot then ''rebooting'' else ''powering off'')"

definition shutdown_type_reboot_cmd :: "bool \<Rightarrow> int" where
  "shutdown_type_reboot_cmd reboot = (if reboot then 0x01234567 else 0x4321fedc)"

section \<open>Commands\<close>

lemma dup_all_calls: "dup_all ds = (cs, ok) \<Longrightarrow> set cs \<subseteq> (\<lambda>(a, b, rs). T_dup a b) ` set ds \<and> (ok \<longrightarrow> cs = map (\<lambda>(a, b, rs). T_dup a b) ds)"
  by (induction ds arbitrary: cs ok rule: dup_all.induct) (auto split: if_splits prod.splits)

text \<open>The child ends with the command or gives up. With the command each end of a pipe that it got is closed, and the standard
  descriptors are the right ends.\<close>

lemma child_connects:
  assumes "child_exec dup sin sout serr argv = calls" "T_exec argv \<in> set calls"
  shows "last calls = T_exec argv"
    "p \<in> set (opt_list sin @ opt_list sout @ opt_list serr) \<Longrightarrow> T_close (fst p) \<in> set calls \<and> T_close (snd p) \<in> set calls"
    "sin = Some p \<Longrightarrow> T_dup (fst p) 0 \<in> set calls" "sout = Some p \<Longrightarrow> T_dup (snd p) 1 \<in> set calls"
    "serr = Some p \<Longrightarrow> T_dup (snd p) 2 \<in> set calls"
proof -
  let ?ds = "map (\<lambda>p. (fst p, 0, dup 0)) (opt_list sin) @ map (\<lambda>p. (snd p, 1, dup 1)) (opt_list sout) @
    map (\<lambda>p. (snd p, 2, dup 2)) (opt_list serr)"
  obtain cs ok where d: "dup_all ?ds = (cs, ok)" by fastforce
  have ok: ok using assms dup_all_calls [OF d] by (auto simp: child_exec_def Let_def d split: if_splits)
  then have cs: "cs = map (\<lambda>(a, b, rs). T_dup a b) ?ds" using dup_all_calls [OF d] by simp
  have calls: "calls = map (\<lambda>p. T_close (snd p)) (opt_list sin) @ map (\<lambda>p. T_close (fst p)) (opt_list sout @ opt_list serr) @ cs @
      map (\<lambda>p. T_close (fst p)) (opt_list sin) @ map (\<lambda>p. T_close (snd p)) (opt_list sout @ opt_list serr) @ [T_setenv, T_exec argv]"
    using assms(1) ok by (auto simp: child_exec_def Let_def d)
  show "last calls = T_exec argv" by (simp add: calls)
  show "p \<in> set (opt_list sin @ opt_list sout @ opt_list serr) \<Longrightarrow> T_close (fst p) \<in> set calls \<and> T_close (snd p) \<in> set calls"
    by (auto simp: calls)
  show "sin = Some p \<Longrightarrow> T_dup (fst p) 0 \<in> set calls" "sout = Some p \<Longrightarrow> T_dup (snd p) 1 \<in> set calls"
    "serr = Some p \<Longrightarrow> T_dup (snd p) 2 \<in> set calls"
    unfolding calls cs by (simp_all add: opt_list_def)
qed

text \<open>A command that is waited for runs with \<open>SIGCHLD\<close> blocked: only the parent restores the mask.\<close>

lemma child_stays_blocked:
  assumes "tsh_exec blocked forked dup True sin sout serr argv = (r, parent, child)"
  shows "T_block \<in> set parent" "T_restore \<notin> set child"
proof -
  obtain cs ok where d: "dup_all (map (\<lambda>p. (fst p, 0, dup 0)) (opt_list sin) @ map (\<lambda>p. (snd p, 1, dup 1)) (opt_list sout) @
    map (\<lambda>p. (snd p, 2, dup 2)) (opt_list serr)) = (cs, ok)" by fastforce
  show "T_block \<in> set parent" using assms by (auto simp: tsh_exec_def Let_def split: if_splits)
  show "T_restore \<notin> set child"
    using assms dup_all_calls [OF d] by (auto simp: tsh_exec_def Let_def child_exec_def d split: if_splits)
qed

section \<open>Sockets, plugins and the connection\<close>

lemma opened_not_closed: "pv_ctrl_socket_open e path = Done (fd, closed) \<Longrightarrow> 0 \<le> fd \<Longrightarrow> fd = so_socket e \<and> closed = []"
  by (auto simp: pv_ctrl_socket_open_def split: if_splits)

text \<open>The path of the control socket fits.\<close>

lemma ctrl_socket_fits: "pv_ctrl_init e ''/pv/pv-ctrl'' \<noteq> Fault"
  by (simp add: pv_ctrl_init_def pv_ctrl_socket_open_def)

lemma listen_failure_leaks:
  "0 \<le> so_socket e \<Longrightarrow> length path < 108 \<Longrightarrow> 0 \<le> so_bind e \<Longrightarrow> so_listen e \<noteq> 0 \<Longrightarrow> pv_ctrl_socket_open e path = Done (-1, [])"
  by (simp add: pv_ctrl_socket_open_def)

text \<open>A plugin counts exactly when its library was opened and both entries are known behind it; an entry that was known
  stays.\<close>

lemma plugin_loaded:
  assumes "load_pv_plugin open_lib c = (n, c', setters)"
  shows "n = (if open_lib (''/lib/pv_'' @ cc_type c @ ''.so'') \<noteq> None \<and> cc_start c' \<noteq> None \<and> cc_stop c' \<noteq> None then 1 else 0)"
    "cc_type c' = cc_type c" "cc_start c \<noteq> None \<Longrightarrow> cc_start c' = cc_start c" "cc_stop c \<noteq> None \<Longrightarrow> cc_stop c' = cc_stop c"
  using assms by (auto simp: load_pv_plugin_def Let_def split: option.splits if_splits)

lemma plugins_counted: "fst (pv_platforms_init_ctrl open_lib cs) \<le> length cs"
proof -
  have "fst (load_pv_plugin open_lib c) \<le> 1" for c
    using plugin_loaded(1) [of open_lib c] by (cases "load_pv_plugin open_lib c") (auto split: if_splits)
  then show ?thesis by (induction cs) (auto simp: pv_platforms_init_ctrl_def intro: order_trans [OF add_mono])
qed

text \<open>The client of the log service is always one for its connection.\<close>

definition client_current :: "log_cloud \<Rightarrow> bool" where
  "client_current l \<longleftrightarrow> lc_client l \<noteq> None \<longrightarrow> lc_client l = lc_conn l"

lemma connection_keeps_client: "ph_logger_get_connection c l = Done (r, l') \<Longrightarrow> client_current l \<Longrightarrow> client_current l' \<and> lc_conn l' \<noteq> None \<and> r = 1"
  by (auto simp: ph_logger_get_connection_def client_current_def split: option.splits outcome.splits)

lemma push_keeps_client:
  "ph_logger_push_logs_endpoint e c auth post body l = Done (r, l') \<Longrightarrow> client_current l \<Longrightarrow>
     client_current l' \<and> lc_conn l' = lc_conn l \<and> (r = 0 \<longrightarrow> auth \<and> lc_client l' = lc_conn l' \<and> lc_conn l' \<noteq> None \<and> ok_body (post body) \<noteq> None)"
  by (auto simp: ph_logger_push_logs_endpoint_def client_current_def split: option.splits outcome.splits if_splits)

section \<open>Waiting and configuring\<close>

text \<open>The wait of the controller lets one through and then nobody before the delay is over.\<close>

lemma delay_lets_one_through:
  assumes "pv_wait_delay_timedout now t seconds = (True, t')" "\<And>ty. ts_ok (now ty)" "\<And>ty. ts_ok (now' ty)"
    "0 \<le> seconds" "ns_of (now' (t_type t)) < ns_of (now (t_type t)) + seconds * 1000000000"
  shows "pv_wait_delay_timedout now' t' seconds = (False, t')"
proof -
  let ?t = "timer_start now t seconds 0 RELATIV_TIMER" and ?now = "now (t_type t)"
  have t': "t' = ?t" "t_type ?t = t_type t" "t_timeout ?t = \<lparr>tv_sec = tv_sec ?now + seconds, tv_nsec = tv_nsec ?now\<rparr>"
    using assms(1) by (auto simp: pv_wait_delay_timedout_def timer_start_def Let_def split: if_splits)
  have "\<not> ns_of (t_timeout ?t) \<le> ns_of (now' (t_type t))" using assms(5) by (simp add: t'(3) ns_of_def algebra_simps)
  moreover have "ts_ok (t_timeout ?t)" using assms(2) [of "t_type t"] by (simp add: t'(3) ts_ok_def)
  ultimately have "\<not> fin (timer_current_state now' ?t)"
    using fin_iff [of now' ?t] lex_ns [of "t_timeout ?t" "now' (t_type t)"] assms(3) by (simp add: t'(2))
  then show ?thesis by (simp add: pv_wait_delay_timedout_def t'(1))
qed

text \<open>The command that removes the old configuration is built and then overwritten: it is never run.\<close>

lemma old_config_kept:
  "pv_storage_make_config True ext mnt rv = (cmd, built) \<Longrightarrow> hd built = ''/bin/rm -rf /configs//*'' \<and> cmd \<noteq> hd built"
  by (cases ext) (auto simp: pv_storage_make_config_def Let_def)

text \<open>The buffer for a decoded text is long enough for three bytes of every four characters.\<close>

lemma base64_fits: "3 * (n div 4) \<le> base64_room n"
proof -
  have "n \<le> 4 * n div 3" by linarith
  then have "n \<le> 4 * ((4 * n div 3 + 3) div 4)" by linarith
  then show ?thesis unfolding base64_room_def by linarith
qed

lemma strnchr_take: "strnchr s ch n = strchr (take n s) ch"
  by (induction s ch n rule: strnchr.induct) simp_all

text \<open>Without a plugin the platforms cannot be initialised.\<close>

lemma platforms_need_plugin:
  "fst (pv_platforms_early_init open_lib cs) = 0 \<longleftrightarrow> (\<exists>c\<in>set cs. fst (load_pv_plugin open_lib c) = 1)"
proof -
  have "fst (load_pv_plugin open_lib c) \<in> {0, 1}" for c
    using plugin_loaded(1) [of open_lib c] by (cases "load_pv_plugin open_lib c") auto
  then have "0 < fst (load_pv_plugin open_lib c) \<longleftrightarrow> fst (load_pv_plugin open_lib c) = 1" for c
    by (metis insertE less_numeral_extra(1) less_numeral_extra(3) singletonD)
  then show ?thesis by (auto simp: pv_platforms_early_init_def pv_platforms_init_ctrl_def)
qed

end
