(* ===== verification/Spec2Isabelle.thy ===== *)
theory Spec2Isabelle
  imports Machine Ctrl Signature Parser LogPush Startup Logs Hub Network Container Integrity Release Services
begin

text \<open>
  Pantavisor is the first process of an embedded Linux device. It mounts the storage, starts the
  containers of one revision of the system, talks to a cloud service, and replaces the running
  revision by a new one: download, install, try, then commit, or roll back. This development
  models that core on the level of its C functions and proves what makes it correct.

  \<^bold>\<open>How the parts interact.\<close> \<open>pantavisor.c\<close> is a state machine. Its states call the update
  (\<open>updater.c\<close>), which asks the cloud, the storage, the parser and the signature check about a step
  and tells the boot loader (\<open>bootloader.c\<close>) what to boot next; the boot loader keeps that in an
  environment in flash or in a file through one of the backends \<open>uboot.c\<close> and \<open>grub.c\<close>. A revision
  (\<open>state.c\<close>) is lists of platforms, volumes, objects and json files; running it mounts its volumes
  (\<open>volumes.c\<close>, \<open>loop.c\<close>) and starts its platforms (\<open>platforms.c\<close>) by runlevel. The storage
  (\<open>storage.c\<close>) keeps the objects and the files of the revisions and collects garbage. The
  configuration (\<open>config.c\<close>) and the meta data (\<open>metadata.c\<close>) are read from files, the command line
  and the cloud.

  \<^bold>\<open>The theories, in the order they build on each other.\<close>
  \<^item> \<open>Prelude\<close>: C strings (a \<open>string\<close> without its NUL, \<open>string option\<close> for a pointer that may be NULL),
    \<open>strneq\<close>, \<open>strtok\<close>, \<open>atoi\<close>, decimal output, and \<open>outcome\<close>, whose \<open>Fault\<close> stands for an access to
    memory the code does not own.
  \<^item> \<open>BootEnv\<close>: the locale \<open>boot_env\<close>, what the boot loader relies on from a backend: a key that was set
    reads back, one that was unset is gone, keys that are no prefix of each other do not interfere.
    \<open>Uboot\<close> and \<open>Grub\<close> model the backends on the bytes of their files and interpret the locale;
    \<open>Bootloader\<close> models \<open>bootloader.c\<close> over \<open>struct bl_ops\<close> and proves inside the locale that memory and
    environment follow an abstract update machine, which gives the refinement for both backends.
  \<^item> \<open>StateData\<close> and \<open>StateOps\<close>: the records of a revision, the functions that build its lists,
    validation, transfer of a revision into the running one and the comparison of two revisions. A
    platform is referred to by its address (\<open>p_addr\<close>), so that dangling references are visible.
  \<^item> \<open>Platforms\<close>, \<open>Volumes\<close>: starting and stopping by runlevel, mounting and unmounting, as the history
    of requests to the container plugin and to the kernel. \<open>Timer\<close>: \<open>utils/timer.c\<close>.
  \<^item> \<open>Updater\<close>: \<open>struct pv_update\<close> with its status reports, the download of objects, installation,
    finishing, resuming after a reboot and the choice of the next step of the cloud.
  \<^item> \<open>Controller\<close>, \<open>Trial\<close>, \<open>Machine\<close>: the functions of \<open>pantavisor.c\<close>, one definition per state, and one
    step of its loop (\<open>pv_step\<close>). What the states do to other parts is a list of actions. \<open>Trial\<close> proves
    the invariant of the trial over both backends, \<open>Machine\<close> that a rollback ends in a reboot, when a
    trial is given up, and what is done without a reboot.
  \<^item> \<open>Disk\<close>: a tree of names with inodes, so that hard links are visible; the system calls that the
    sources use on it, \<open>utils/fs.c\<close> and \<open>utils/fops.c\<close>. \<open>Storage\<close>: the garbage collector and its
    triggers. \<open>Trails\<close>: checks of stored files, the files of a revision, links to the pool of objects,
    lists as JSON and the files of the user meta data.
  \<^item> \<open>Text\<close>: \<open>utils/json.c\<close>, \<open>utils/str.c\<close>, \<open>utils/strrep.c\<close>, \<open>utils/math.c\<close>, \<open>utils/base64.c\<close>. \<open>Config\<close>:
    \<open>config_parser.c\<close> and \<open>config.c\<close>. \<open>Metadata\<close>: \<open>metadata.c\<close> over the disk and the configuration.

  \<^item> \<open>Ctrl\<close>: \<open>ctrl.c\<close>, the control socket: commands and the HTTP requests for objects, revisions and user
    meta data. \<open>Signature\<close>: \<open>signature.c\<close> with \<open>fnmatch\<close>. \<open>Parser\<close>: \<open>parser/parser.c\<close>,
    \<open>parser/parser_system1.c\<close> and \<open>parser/parser_multi1.c\<close>, from the JSON of a revision to its records.
    \<open>Integrity\<close>: the check of the files of a revision before it runs.
  \<^item> \<open>LogMsg\<close>, \<open>LogPush\<close>, \<open>Logs\<close>: the format of log messages, cutting output into messages, pushing
    the log files to the cloud, the services of \<open>ph_logger/ph_logger.c\<close>, and \<open>log.c\<close> with its pool of
    buffers. \<open>Files\<close>: \<open>utils/fops.c\<close> over answers of the kernel, and the start of \<open>pvlogger.c\<close>.
  \<^item> \<open>Startup\<close>: \<open>init.c\<close>, \<open>mount.c\<close>, \<open>wdt.c\<close>, \<open>tsh.c\<close>. \<open>Blkid\<close>: \<open>blkid.c\<close> on the bytes of a device. \<open>Network\<close>:
    \<open>network.c\<close> and \<open>pvctl_utils.c\<close>. \<open>Container\<close>: \<open>plugins/pv_lxc.c\<close>. \<open>Hub\<close>: \<open>pantahub.c\<close>, \<open>trestclient.c\<close>
    and the upload of the factory revision. \<open>Services\<close>: running commands, listening sockets, the
    connection of the log service, loading plugins.
  \<^item> \<open>DList\<close>: \<open>utils/list.h\<close> on a heap of blocks that can be freed; every operation follows the one on
    lists, which is why the other theories use lists. \<open>Release\<close>: the functions that free structures, and
    the shutdown, on that heap.

  \<^bold>\<open>Correspondence.\<close> Definitions carry the names of the C functions; loops of a function are
  definitions of their own whose map entries name the lines of the loop. Structures are records with
  a prefix per record in place of a name space. Linked lists are lists in their order. Functions that
  return a negative number on error return it as an \<open>int\<close>; pointers as results are options. The state
  a function changes is passed in and out; \<open>pv_get_instance\<close> is the argument that holds the part of
  \<open>struct pantavisor\<close> in question.

  \<^bold>\<open>Parameters.\<close> The answers of the kernel (mount, open, read, fork, kill, clocks), of the cloud, of jsmn,
  mbedtls, picohttpparser, the HTTP library, liblxc and gzip are arguments of the definitions; where an
  answer may depend on what was done before, the argument takes the history of requests. In \<open>Updater\<close>
  one record of answers stands for what the parser, the signature check and the storage say of a step.
  Whether \<open>char\<close> is signed is a parameter in \<open>Blkid\<close>. Within one step of the machine the clock does not
  move. An environment file that could be opened for writing is written completely.

  \<^bold>\<open>Bounds and termination.\<close> The scan of the u-boot environment over an index that wraps at 16 bits is
  a \<open>partial_function\<close> in the option monad; its end is proved for environments that the scan can
  cover. Waiting for platforms and loggers is five rounds as in the code. Grub's block has 1024 bytes,
  of which the scan reads 997. Revision names are cut at 64 characters where the code does.
  The range service of the log files (\<open>range_service\<close>) takes fuel; it is proved that enough fuel exists
  when every push that is not complete makes progress. The loops that walk a linked list on the heap
  (\<open>each_safe\<close>, \<open>free_pairs\<close>, \<open>free_strings\<close>) are partial functions in the option monad too, since a list
  that is not well formed may have no end; that they end is part of what is proved on well-formed lists.
  A loop over answers of the kernel ends with the list of answers, and its result is then \<open>None\<close>.
  The recursion over directories (\<open>remove_in\<close>) takes the depth as fuel; it is proved that a depth
  beyond the longest path removes exactly the subtree. Output buffers are strings with the room that
  is left in them.

  \<^bold>\<open>Groups of lemmas.\<close> Each theory first proves what its operations do to the parts of the state
  (frame lemmas and results per branch), then its properties in a few steps over them. Laws between
  components are locales: \<open>boot_env\<close> (backends), \<open>json_lines\<close> (objects that are listed as JSON),
  \<open>releasing\<close> (a function that frees one structure, for the loops that free a list of them), and the ones
  named in the theories; each is interpreted on the definitions that stand for the code.

  \<^bold>\<open>Not modelled.\<close> Most log lines, functions that only print for debugging, and failing allocations where
  the code does not check them; a full or broken medium and symbolic links on the disk, and paths longer
  than their buffers; the setup of the process and signal handlers that only exit. Memory is modelled in
  \<open>DList\<close> and \<open>Release\<close> only; the other theories have values in place of blocks. The libraries that are not
  part of the repository are parameters. The manifest lists what is left out with the reason.
\<close>

end
